(* ===== verification/Prelude.thy ===== *)
theory Prelude imports Main "HOL-Library.AList" "HOL-Library.Multiset" "HOL-Library.Char_ord" "HOL-Library.List_Lexorder" begin

text \<open>
  The shared base of the development: insertion-ordered maps (the \<open>Map\<close> of JavaScript), stable
  sorting by a comparator (\<open>Array.prototype.sort\<close>), and the accounting of leases that every
  acquire/release pair of the traffic and credential components obeys. Strings are char lists,
  that is, sequences of UTF-16 code units below 256; times are integers in milliseconds.
\<close>

named_theorems js_simps \<open>rewrite rules of the JavaScript containers\<close>

subsection \<open>Insertion-ordered maps\<close>

text \<open>
  A JavaScript \<open>Map\<close> iterates in insertion order and overwrites in place. An association list
  with distinct keys is exactly that: \<open>set\<close> overwrites in place or appends at the back,
  \<open>delete\<close> removes the entry, and the first entry is the one inserted longest ago.
\<close>

type_synonym ('k, 'v) js_map = "('k \<times> 'v) list"

definition jm_get :: "('k, 'v) js_map \<Rightarrow> 'k \<Rightarrow> 'v option" where
  "jm_get m k = map_of m k"

definition jm_set :: "'k \<Rightarrow> 'v \<Rightarrow> ('k, 'v) js_map \<Rightarrow> ('k, 'v) js_map" where
  "jm_set k v m = AList.update k v m"

definition jm_delete :: "'k \<Rightarrow> ('k, 'v) js_map \<Rightarrow> ('k, 'v) js_map" where
  "jm_delete k m = AList.delete k m"

definition jm_keys :: "('k, 'v) js_map \<Rightarrow> 'k list" where
  "jm_keys m = map fst m"

definition jm_has :: "('k, 'v) js_map \<Rightarrow> 'k \<Rightarrow> bool" where
  "jm_has m k \<longleftrightarrow> jm_get m k \<noteq> None"

definition jm_wf :: "('k, 'v) js_map \<Rightarrow> bool" where
  "jm_wf m \<longleftrightarrow> distinct (jm_keys m)"

text \<open>\<open>m.keys().next()\<close> followed by \<open>m.delete\<close>: the oldest entry goes.\<close>

definition jm_evict_oldest :: "('k, 'v) js_map \<Rightarrow> ('k, 'v) js_map" where
  "jm_evict_oldest m = (case jm_keys m of [] \<Rightarrow> m | k # _ \<Rightarrow> jm_delete k m)"

text \<open>A \<open>for (const [k, v] of m)\<close> loop that deletes the entries a test selects.\<close>

definition jm_retain :: "('k \<Rightarrow> 'v \<Rightarrow> bool) \<Rightarrow> ('k, 'v) js_map \<Rightarrow> ('k, 'v) js_map" where
  "jm_retain keep m = filter (\<lambda>(k, v). keep k v) m"

lemma jm_get_Nil [simp]: "jm_get [] k = None"
  by (simp add: jm_get_def)

lemma jm_get_set [simp, js_simps]: "jm_get (jm_set k v m) j = (if j = k then Some v else jm_get m j)"
  by (simp add: jm_get_def jm_set_def update_conv')

lemma jm_get_delete [simp, js_simps]: "jm_get (jm_delete k m) j = (if j = k then None else jm_get m j)"
  by (simp add: jm_get_def jm_delete_def delete_conv')

lemma jm_has_iff: "jm_has m k \<longleftrightarrow> k \<in> set (jm_keys m)"
  by (auto simp: jm_has_def jm_get_def jm_keys_def map_of_eq_None_iff)

lemma jm_get_None_iff: "jm_get m k = None \<longleftrightarrow> k \<notin> set (jm_keys m)"
  by (simp add: jm_get_def jm_keys_def map_of_eq_None_iff)

lemma jm_wf_Nil [simp, intro]: "jm_wf []"
  by (simp add: jm_wf_def jm_keys_def)

lemma jm_wf_set [simp, intro]: "jm_wf m \<Longrightarrow> jm_wf (jm_set k v m)"
  by (simp add: jm_wf_def jm_keys_def jm_set_def distinct_update)

lemma jm_wf_delete [simp, intro]: "jm_wf m \<Longrightarrow> jm_wf (jm_delete k m)"
  by (simp add: jm_wf_def jm_keys_def jm_delete_def distinct_delete)

lemma jm_get_SomeD: "jm_get m k = Some v \<Longrightarrow> (k, v) \<in> set m"
  by (simp add: jm_get_def map_of_SomeD)

lemma jm_get_in_iff: "jm_wf m \<Longrightarrow> (k, v) \<in> set m \<longleftrightarrow> jm_get m k = Some v"
  by (simp add: jm_wf_def jm_keys_def jm_get_def)

lemma jm_keys_set: "jm_keys (jm_set k v m) = (if k \<in> set (jm_keys m) then jm_keys m else jm_keys m @ [k])"
  by (simp add: jm_keys_def jm_set_def update_keys)

lemma jm_keys_delete: "jm_keys (jm_delete k m) = filter (\<lambda>j. j \<noteq> k) (jm_keys m)"
  by (induction m) (auto simp: jm_keys_def jm_delete_def)

lemma length_jm_set: "length (jm_set k v m) = (if jm_has m k then length m else Suc (length m))"
  by (metis jm_has_iff jm_keys_def jm_keys_set length_append_singleton length_map)

lemma length_jm_delete_le [simp]: "length (jm_delete k m) \<le> length m"
  by (simp add: jm_delete_def length_delete_le)

lemma length_jm_delete:
  assumes "jm_wf m" and "jm_has m k"
  shows "length (jm_delete k m) = length m - 1"
proof -
  have "length (jm_delete k m) = length (filter (\<lambda>j. j \<noteq> k) (jm_keys m))"
    by (metis jm_keys_def jm_keys_delete length_map)
  also have "\<dots> = length (remove1 k (jm_keys m))"
    using assms(1) by (simp add: jm_wf_def distinct_remove1_removeAll removeAll_filter_not_eq eq_commute)
  also have "\<dots> = length m - 1"
    using assms(2) by (simp add: jm_has_iff length_remove1 jm_keys_def)
  finally show ?thesis .
qed

lemma jm_delete_absent: "\<not> jm_has m k \<Longrightarrow> jm_delete k m = m"
  by (simp add: jm_has_iff jm_keys_def jm_delete_def delete_idem)

lemma jm_delete_filter: "jm_delete k m = filter (\<lambda>p. fst p \<noteq> k) m"
  by (simp add: jm_delete_def AList.delete_eq case_prod_unfold eq_commute)

lemma set_jm_delete: "set (jm_delete k m) = {p \<in> set m. fst p \<noteq> k}"
  by (simp add: jm_delete_filter)

lemma set_jm_set: "jm_wf m \<Longrightarrow> set (jm_set k v m) = insert (k, v) {p \<in> set m. fst p \<noteq> k}"
proof (intro set_eqI iffI)
  fix p assume wf: "jm_wf m"
  { assume "p \<in> set (jm_set k v m)"
    with wf have "jm_get (jm_set k v m) (fst p) = Some (snd p)"
      by (metis jm_get_in_iff jm_wf_set prod.collapse)
    with wf show "p \<in> insert (k, v) {p \<in> set m. fst p \<noteq> k}"
      by (cases p) (auto split: if_splits simp: jm_get_in_iff) }
  { assume "p \<in> insert (k, v) {p \<in> set m. fst p \<noteq> k}"
    with wf have "jm_get (jm_set k v m) (fst p) = Some (snd p)"
      by (cases p) (auto simp: jm_get_in_iff)
    with wf show "p \<in> set (jm_set k v m)"
      by (metis jm_get_in_iff jm_wf_set prod.collapse) }
qed

lemma jm_keys_retain: "set (jm_keys (jm_retain keep m)) \<subseteq> set (jm_keys m)"
  by (auto simp: jm_keys_def jm_retain_def)

lemma jm_wf_retain [simp, intro]: "jm_wf m \<Longrightarrow> jm_wf (jm_retain keep m)"
  by (simp add: jm_wf_def jm_keys_def jm_retain_def distinct_map_filter)

lemma jm_get_retain:
  assumes "jm_wf m"
  shows "jm_get (jm_retain keep m) k =
    (case jm_get m k of None \<Rightarrow> None | Some v \<Rightarrow> if keep k v then Some v else None)"
proof (cases "jm_get (jm_retain keep m) k")
  case None
  then have "\<forall>v. (k, v) \<in> set m \<longrightarrow> \<not> keep k v"
    by (force simp: jm_get_None_iff jm_keys_def jm_retain_def)
  then show ?thesis using None assms
    by (auto simp: jm_get_in_iff split: option.splits)
next
  case (Some v)
  then have "(k, v) \<in> set m \<and> keep k v"
    using jm_get_SomeD by (fastforce simp: jm_retain_def)
  then show ?thesis using Some assms by (auto simp: jm_get_in_iff)
qed

lemma length_jm_retain_le [simp]: "length (jm_retain keep m) \<le> length m"
  by (simp add: jm_retain_def)

lemma jm_wf_evict_oldest [simp, intro]: "jm_wf m \<Longrightarrow> jm_wf (jm_evict_oldest m)"
  by (simp add: jm_evict_oldest_def split: list.split)

lemma jm_evict_oldest_Cons [simp]: "jm_wf (p # m) \<Longrightarrow> jm_evict_oldest (p # m) = m"
  by (auto simp: jm_evict_oldest_def jm_keys_def jm_delete_filter jm_wf_def image_iff
      intro!: filter_True)

lemma jm_evict_oldest_Nil [simp]: "jm_evict_oldest [] = []"
  by (simp add: jm_evict_oldest_def jm_keys_def)

lemma length_jm_evict_oldest: "jm_wf m \<Longrightarrow> length (jm_evict_oldest m) = length m - 1"
  by (cases m) auto

lemma set_jm_evict_oldest: "set (jm_evict_oldest m) \<subseteq> set m"
  by (auto simp: jm_evict_oldest_def set_jm_delete split: list.split)

lemma jm_get_evict_oldest_Some:
  "jm_wf m \<Longrightarrow> jm_get (jm_evict_oldest m) k = Some v \<Longrightarrow> jm_get m k = Some v"
  by (metis jm_get_SomeD jm_get_in_iff set_jm_evict_oldest subsetD)

subsection \<open>Sorting by a comparator\<close>

text \<open>
  \<open>xs.sort(c)\<close> is stable. For a consistent comparator a stable insertion sort computes the
  same list as any other stable sort.
\<close>

fun js_insert :: "('a \<Rightarrow> 'a \<Rightarrow> int) \<Rightarrow> 'a \<Rightarrow> 'a list \<Rightarrow> 'a list" where
  "js_insert c x [] = [x]"
| "js_insert c x (y # ys) = (if c x y \<le> 0 then x # y # ys else y # js_insert c x ys)"

definition js_sort :: "('a \<Rightarrow> 'a \<Rightarrow> int) \<Rightarrow> 'a list \<Rightarrow> 'a list" where
  "js_sort c xs = foldr (js_insert c) xs []"

lemma mset_js_insert: "mset (js_insert c x xs) = {#x#} + mset xs"
  by (induction xs) auto

lemma mset_js_sort [simp]: "mset (js_sort c xs) = mset xs"
  by (induction xs) (auto simp: js_sort_def mset_js_insert)

lemma set_js_sort [simp]: "set (js_sort c xs) = set xs"
  by (metis mset_js_sort set_mset_mset)

lemma length_js_sort [simp]: "length (js_sort c xs) = length xs"
  by (metis mset_js_sort size_mset)

lemma distinct_js_sort [simp]: "distinct (js_sort c xs) = distinct xs"
  by (metis mset_js_sort distinct_count_atmost_1 set_js_sort)

text \<open>The laws a comparator has to obey for \<open>sort\<close> to be specified at all.\<close>

locale comparator =
  fixes cmp :: "'a \<Rightarrow> 'a \<Rightarrow> int"
  assumes cmp_total: "cmp x y \<le> 0 \<or> cmp y x \<le> 0"
    and cmp_trans: "cmp x y \<le> 0 \<Longrightarrow> cmp y z \<le> 0 \<Longrightarrow> cmp x z \<le> 0"
begin

lemma sorted_insert:
  "sorted_wrt (\<lambda>x y. cmp x y \<le> 0) xs \<Longrightarrow> sorted_wrt (\<lambda>x y. cmp x y \<le> 0) (js_insert cmp x xs)"
proof (induction xs)
  case Nil
  then show ?case by simp
next
  case (Cons y ys)
  show ?case
  proof (cases "cmp x y \<le> 0")
    case True
    then show ?thesis using Cons.prems by (auto intro: cmp_trans)
  next
    case False
    then have "cmp y x \<le> 0" using cmp_total by blast
    moreover have "set (js_insert cmp x ys) = insert x (set ys)"
      by (metis mset_js_insert set_mset_add_mset_insert set_mset_mset add_mset_add_single add.commute)
    ultimately show ?thesis using Cons False by auto
  qed
qed

lemma sort_sorted: "sorted_wrt (\<lambda>x y. cmp x y \<le> 0) (js_sort cmp xs)"
  unfolding js_sort_def by (induction xs) (auto intro: sorted_insert)

lemma sort_head_least: "js_sort cmp xs = y # ys \<Longrightarrow> z \<in> set xs \<Longrightarrow> cmp y z \<le> 0"
  by (metis cmp_total set_ConsD set_js_sort sort_sorted sorted_wrt.simps(2))

end

text \<open>
  When elements that compare equal have the same key, the sorted sequence of keys depends only
  on which elements are sorted, not on the order they come in.
\<close>

locale keyed_comparator = comparator cmp for cmp :: "'a \<Rightarrow> 'a \<Rightarrow> int" +
  fixes ckey :: "'a \<Rightarrow> 'k"
  assumes cmp_key: "cmp x y \<le> 0 \<Longrightarrow> cmp y x \<le> 0 \<Longrightarrow> ckey x = ckey y"
    and key_cmp: "ckey x = ckey x' \<Longrightarrow> ckey y = ckey y' \<Longrightarrow> cmp x y = cmp x' y'"
begin

lemma sorted_keys_unique:
  "mset xs = mset ys \<Longrightarrow> sorted_wrt (\<lambda>x y. cmp x y \<le> 0) xs \<Longrightarrow>
   sorted_wrt (\<lambda>x y. cmp x y \<le> 0) ys \<Longrightarrow> map ckey xs = map ckey ys"
proof (induction xs arbitrary: ys)
  case Nil
  then show ?case by simp
next
  case (Cons x xs)
  then obtain y ys' where ys: "ys = y # ys'" by (cases ys) auto
  have x_in: "x = y \<or> x \<in> set ys'" and y_in: "y = x \<or> y \<in> set xs"
    using Cons.prems(1) ys by (metis list.set_intros(1) set_ConsD set_mset_mset)+
  have key: "ckey x = ckey y"
  proof (cases "x = y")
    case False
    then have "cmp x y \<le> 0" "cmp y x \<le> 0"
      using x_in y_in Cons.prems(2,3) ys by auto
    then show ?thesis by (rule cmp_key)
  qed simp
  show ?case
  proof (cases "x = y")
    case True
    then show ?thesis using Cons ys by auto
  next
    case False
    \<comment> \<open>exchange the two heads, which have one key\<close>
    then obtain us vs where split: "ys' = us @ x # vs" using x_in by (meson split_list)
    have mem: "mset xs = mset (us @ y # vs)"
      using Cons.prems(1) ys split False by (simp add: add_mset_commute)
    have sorted: "sorted_wrt (\<lambda>a b. cmp a b \<le> 0) (us @ y # vs)"
      using Cons.prems(3) ys split key
      by (auto simp: sorted_wrt_append key_cmp [of y x] key_cmp [OF refl, of y x] 
          intro: cmp_trans)
    have "map ckey xs = map ckey (us @ y # vs)"
      using Cons.IH [OF mem] Cons.prems(2) sorted by simp
    then show ?thesis using ys split key by simp
  qed
qed

lemma sort_keys_determined:
  "mset xs = mset ys \<Longrightarrow> map ckey (js_sort cmp xs) = map ckey (js_sort cmp ys)"
  by (rule sorted_keys_unique) (simp_all add: sort_sorted)

end

end
