(* ===== verification/JsDate.thy ===== *)
theory JsDate imports Prelude "HOL-Library.Monad_Syntax" begin

text \<open>
  The ISO timestamps of the program: \<open>new Date(t).toISOString()\<close> for times from 1970 to the year
  9999, and \<open>Date.parse\<close> of the strings it produces. \<open>Date.parse\<close> also reads other formats; the
  program stores and compares only its own \<open>toISOString\<close> output, so \<open>parse_iso\<close> answers \<open>None\<close>
  (the code's \<open>NaN\<close>) on everything else.
\<close>

definition leap_year :: "nat \<Rightarrow> bool" where
  "leap_year y \<longleftrightarrow> y mod 4 = 0 \<and> (y mod 100 \<noteq> 0 \<or> y mod 400 = 0)"

definition days_in_year :: "nat \<Rightarrow> nat" where
  "days_in_year y = (if leap_year y then 366 else 365)"

definition month_lengths :: "nat \<Rightarrow> nat list" where
  "month_lengths y = [31, if leap_year y then 29 else 28, 31, 30, 31, 30, 31, 31, 30, 31, 30, 31]"

lemma days_in_year_bounds: "365 \<le> days_in_year y" "0 < days_in_year y"
  by (simp_all add: days_in_year_def)

function split_year :: "nat \<Rightarrow> nat \<Rightarrow> nat \<times> nat" where
  "split_year y d = (if d < days_in_year y then (y, d) else split_year (Suc y) (d - days_in_year y))"
  by pat_completeness auto
termination
  by (relation "measure snd") (auto simp: days_in_year_def)

declare split_year.simps [simp del]

fun split_month :: "nat list \<Rightarrow> nat \<Rightarrow> nat \<Rightarrow> nat \<times> nat" where
  "split_month [] m d = (m, d)"
| "split_month (l # ls) m d = (if d < l then (m, d) else split_month ls (Suc m) (d - l))"

definition digit_char :: "nat \<Rightarrow> char" where
  "digit_char k = char_of (48 + k)"

fun pad_num :: "nat \<Rightarrow> nat \<Rightarrow> string" where
  "pad_num 0 n = []"
| "pad_num (Suc w) n = pad_num w (n div 10) @ [digit_char (n mod 10)]"

definition is_digit :: "char \<Rightarrow> bool" where
  "is_digit c \<longleftrightarrow> 48 \<le> (of_char c :: nat) \<and> (of_char c :: nat) \<le> 57"

definition digits_val :: "string \<Rightarrow> nat option" where
  "digits_val s = (if s \<noteq> [] \<and> list_all is_digit s
     then Some (foldl (\<lambda>a c. 10 * a + (of_char c - 48)) 0 s) else None)"

definition day_ms :: nat where
  "day_ms = 86400000"

definition iso_string :: "int \<Rightarrow> string" where
  "iso_string t =
     (let n = nat t;
          tod = n mod day_ms;
          (y, doy) = split_year 1970 (n div day_ms);
          (m, dom) = split_month (month_lengths y) 1 doy
      in pad_num 4 y @ ''-'' @ pad_num 2 m @ ''-'' @ pad_num 2 (Suc dom) @ ''T'' @
         pad_num 2 (tod div 3600000) @ '':'' @ pad_num 2 (tod div 60000 mod 60) @ '':'' @
         pad_num 2 (tod div 1000 mod 60) @ ''.'' @ pad_num 3 (tod mod 1000) @ ''Z'')"

definition days_of_civil :: "nat \<Rightarrow> nat \<Rightarrow> nat \<Rightarrow> nat" where
  "days_of_civil y m d =
     sum_list (map days_in_year [1970..<y]) + sum_list (take (m - 1) (month_lengths y)) + (d - 1)"

definition parse_iso :: "string \<Rightarrow> int option" where
  "parse_iso s =
     (if length s = 24 \<and> s ! 4 = CHR ''-'' \<and> s ! 7 = CHR ''-'' \<and> s ! 10 = CHR ''T'' \<and>
         s ! 13 = CHR '':'' \<and> s ! 16 = CHR '':'' \<and> s ! 19 = CHR ''.'' \<and> s ! 23 = CHR ''Z''
      then do {
        y \<leftarrow> digits_val (take 4 s);
        m \<leftarrow> digits_val (take 2 (drop 5 s));
        d \<leftarrow> digits_val (take 2 (drop 8 s));
        h \<leftarrow> digits_val (take 2 (drop 11 s));
        mi \<leftarrow> digits_val (take 2 (drop 14 s));
        sec \<leftarrow> digits_val (take 2 (drop 17 s));
        ms \<leftarrow> digits_val (take 3 (drop 20 s));
        (if 1970 \<le> y \<and> 1 \<le> m \<and> m \<le> 12 \<and> 1 \<le> d \<and> d \<le> month_lengths y ! (m - 1) \<and>
            h < 24 \<and> mi < 60 \<and> sec < 60
         then Some (int (days_of_civil y m d * day_ms + h * 3600000 + mi * 60000 + sec * 1000 + ms))
         else None)
      } else None)"

subsection \<open>Printing and reading numbers\<close>

lemma length_pad_num [simp]: "length (pad_num w n) = w"
  by (induction w arbitrary: n) auto

lemma digit_char_digit: "k < 10 \<Longrightarrow> is_digit (digit_char k) \<and> of_char (digit_char k) - 48 = k"
  by (simp add: is_digit_def digit_char_def)

lemma pad_num_digits: "list_all is_digit (pad_num w n)"
  by (induction w arbitrary: n) (auto simp: digit_char_digit)

lemma foldl_pad_num:
  "foldl (\<lambda>a c. 10 * a + (of_char c - 48)) 0 (pad_num w n) = n mod 10 ^ w"
proof (induction w arbitrary: n)
  case 0
  then show ?case by simp
next
  case (Suc w)
  have "of_char (digit_char (n mod 10)) - 48 = n mod 10" using digit_char_digit [of "n mod 10"] by simp
  then show ?case
    using Suc [of "n div 10"] by (simp add: mod_mult2_eq [of n 10 "10 ^ w"] mult.commute)
qed

lemma digits_val_pad_num: "0 < w \<Longrightarrow> n < 10 ^ w \<Longrightarrow> digits_val (pad_num w n) = Some n"
  using pad_num_digits [of w n] length_pad_num [of w n]
  by (auto simp: digits_val_def foldl_pad_num simp del: length_pad_num)

subsection \<open>The calendar\<close>

lemma split_year_correct:
  "split_year y d = (y', r) \<Longrightarrow>
   y \<le> y' \<and> r < days_in_year y' \<and> d = sum_list (map days_in_year [y..<y']) + r"
proof (induction y d rule: split_year.induct)
  case (1 y d)
  show ?case
  proof (cases "d < days_in_year y")
    case True
    then show ?thesis using "1.prems" by (simp add: split_year.simps [of y d])
  next
    case False
    then have "split_year (Suc y) (d - days_in_year y) = (y', r)"
      using "1.prems" by (simp add: split_year.simps [of y d])
    from "1.IH" [OF False this] False show ?thesis by (auto simp: upt_conv_Cons)
  qed
qed

lemma split_month_correct:
  "split_month ls m d = (m', r) \<Longrightarrow> d < sum_list ls \<Longrightarrow>
   m \<le> m' \<and> m' - m < length ls \<and> r < ls ! (m' - m) \<and> d = sum_list (take (m' - m) ls) + r"
proof (induction ls m d rule: split_month.induct)
  case (1 m d)
  then show ?case by simp
next
  case (2 l ls m d)
  show ?case
  proof (cases "d < l")
    case True
    then show ?thesis using "2.prems" by simp
  next
    case False
    then have "split_month ls (Suc m) (d - l) = (m', r)" "d - l < sum_list ls"
      using "2.prems" by auto
    from "2.IH" [OF False this] False show ?thesis
      by (auto simp: Suc_diff_le nth_Cons' take_Cons' Suc_diff_Suc less_eq_Suc_le)
  qed
qed

lemma sum_month_lengths: "sum_list (month_lengths y) = days_in_year y"
  by (simp add: month_lengths_def days_in_year_def)

lemma length_month_lengths [simp]: "length (month_lengths y) = 12"
  by (simp add: month_lengths_def)

lemma month_lengths_le: "l \<in> set (month_lengths y) \<Longrightarrow> l \<le> 31"
  by (auto simp: month_lengths_def split: if_splits)

lemma years_sum_ge: "365 * (y' - y) \<le> sum_list (map days_in_year [y..<y'])"
proof -
  have "sum_list (map (\<lambda>_. 365) [y..<y']) \<le> sum_list (map days_in_year [y..<y'])"
    by (rule sum_list_mono) (simp add: days_in_year_bounds)
  then show ?thesis by (simp add: sum_list_triv)
qed

text \<open>Times the model prints: up to the year 9994.\<close>

definition iso_range :: "int \<Rightarrow> bool" where
  "iso_range t \<longleftrightarrow> 0 \<le> t \<and> t < 253234080000000"

lemma iso_components:
  assumes "iso_range t"
  obtains y m dom where
    "iso_string t = pad_num 4 y @ ''-'' @ pad_num 2 m @ ''-'' @ pad_num 2 (Suc dom) @ ''T'' @
       pad_num 2 (nat t mod day_ms div 3600000) @ '':'' @ pad_num 2 (nat t mod day_ms div 60000 mod 60) @ '':'' @
       pad_num 2 (nat t mod day_ms div 1000 mod 60) @ ''.'' @ pad_num 3 (nat t mod day_ms mod 1000) @ ''Z''"
    "1970 \<le> y" "y \<le> 9999" "1 \<le> m" "m \<le> 12" "Suc dom \<le> month_lengths y ! (m - 1)" "dom < 31"
    "days_of_civil y m (Suc dom) = nat t div day_ms"
proof -
  let ?d = "nat t div day_ms"
  obtain y doy where y: "split_year 1970 ?d = (y, doy)" by fastforce
  obtain m dom where m: "split_month (month_lengths y) 1 doy = (m, dom)" by fastforce
  from split_year_correct [OF y]
  have yc: "1970 \<le> y" "doy < days_in_year y" "?d = sum_list (map days_in_year [1970..<y]) + doy"
    by auto
  from split_month_correct [OF m] yc(2)
  have mc: "1 \<le> m" "m - 1 < 12" "dom < month_lengths y ! (m - 1)"
    "doy = sum_list (take (m - 1) (month_lengths y)) + dom"
    by (auto simp: sum_month_lengths)
  have "?d < 2930950" using assms by (auto simp: iso_range_def day_ms_def)
  then have "365 * (y - 1970) < 2930950" using yc(3) years_sum_ge [of y 1970] by linarith
  then have y2: "y \<le> 9999" by simp
  have "month_lengths y ! (m - 1) \<in> set (month_lengths y)" using mc(2) by simp
  then have d31: "dom < 31" using mc(3) month_lengths_le by fastforce
  show thesis
  proof (rule that [of y m dom])
    show "days_of_civil y m (Suc dom) = ?d" using yc mc by (simp add: days_of_civil_def)
  qed (use yc mc y2 d31 y m in \<open>simp_all add: iso_string_def Let_def\<close>)
qed

lemma length_iso_string: "iso_range t \<Longrightarrow> length (iso_string t) = 24"
  by (erule iso_components) simp

lemma time_of_day_split:
  "n div 3600000 * 3600000 + n div 60000 mod 60 * 60000 + n div 1000 mod 60 * 1000 + n mod 1000 = (n :: nat)"
proof -
  have a: "n = n div 1000 * 1000 + n mod 1000" by simp
  have b: "n div 1000 = n div 60000 * 60 + n div 1000 mod 60"
    using div_mult_mod_eq [of "n div 1000" 60] div_mult2_eq [of n 1000 60] by simp
  have c: "n div 60000 = n div 3600000 * 60 + n div 60000 mod 60"
    using div_mult_mod_eq [of "n div 60000" 60] div_mult2_eq [of n 60000 60] by simp
  from a b c show ?thesis by linarith
qed

text \<open>What \<open>toISOString\<close> prints, \<open>Date.parse\<close> reads back.\<close>

lemma parse_iso_string:
  assumes t: "iso_range t"
  shows "parse_iso (iso_string t) = Some t"
proof -
  let ?tod = "nat t mod day_ms"
  obtain y m dom where iso: "iso_string t = pad_num 4 y @ ''-'' @ pad_num 2 m @ ''-'' @ pad_num 2 (Suc dom) @ ''T'' @
       pad_num 2 (?tod div 3600000) @ '':'' @ pad_num 2 (?tod div 60000 mod 60) @ '':'' @
       pad_num 2 (?tod div 1000 mod 60) @ ''.'' @ pad_num 3 (?tod mod 1000) @ ''Z''"
    and b: "1970 \<le> y" "y \<le> 9999" "1 \<le> m" "m \<le> 12" "Suc dom \<le> month_lengths y ! (m - 1)" "dom < 31"
    and days: "days_of_civil y m (Suc dom) = nat t div day_ms"
    using t by (rule iso_components)
  have tod: "?tod < 86400000" by (simp add: day_ms_def)
  have h: "?tod div 3600000 < 24" using tod by (simp add: less_mult_imp_div_less)
  have dig: "digits_val (pad_num 4 y) = Some y" "digits_val (pad_num 2 m) = Some m"
    "digits_val (pad_num 2 (Suc dom)) = Some (Suc dom)"
    "digits_val (pad_num 2 (?tod div 3600000)) = Some (?tod div 3600000)"
    "digits_val (pad_num 2 (?tod div 60000 mod 60)) = Some (?tod div 60000 mod 60)"
    "digits_val (pad_num 2 (?tod div 1000 mod 60)) = Some (?tod div 1000 mod 60)"
    "digits_val (pad_num 3 (?tod mod 1000)) = Some (?tod mod 1000)"
    using b h by (auto intro!: digits_val_pad_num intro: less_trans [of _ 60])
  have whole: "nat t = days_of_civil y m (Suc dom) * day_ms + ?tod"
    by (simp add: days)
  have "parse_iso (iso_string t) =
    Some (int (days_of_civil y m (Suc dom) * day_ms + ?tod div 3600000 * 3600000 +
      ?tod div 60000 mod 60 * 60000 + ?tod div 1000 mod 60 * 1000 + ?tod mod 1000))"
    unfolding parse_iso_def iso using b h dig by (simp add: nth_append)
  also have "days_of_civil y m (Suc dom) * day_ms + ?tod div 3600000 * 3600000 +
      ?tod div 60000 mod 60 * 60000 + ?tod div 1000 mod 60 * 1000 + ?tod mod 1000 = nat t"
    using time_of_day_split [of ?tod] whole by linarith
  finally show ?thesis using t by (simp add: iso_range_def)
qed

end
