(* ===== verification/JsText.thy ===== *)
theory JsText imports Prelude "HOL-Library.Sublist" begin

text \<open>
  The string operations of the standard library the program uses, on Latin-1 code units, and the
  regular expressions it writes. A pattern is matched as ECMAScript matches it: the alternatives
  of a pattern are tried in order and quantifiers are greedy, so \<open>rx_run\<close> lists the ends of all
  matches from a position in backtracking order and its head is the match a search reports.
\<close>

subsection \<open>Characters and strings\<close>

definition char_code :: "char \<Rightarrow> nat" where
  "char_code c = of_char c"

definition is_space :: "char \<Rightarrow> bool" where
  "is_space c \<longleftrightarrow> char_code c \<in> {9, 10, 11, 12, 13, 32, 160}"

definition is_word_char :: "char \<Rightarrow> bool" where
  "is_word_char c \<longleftrightarrow> (let k = char_code c in
     (48 \<le> k \<and> k \<le> 57) \<or> (65 \<le> k \<and> k \<le> 90) \<or> (97 \<le> k \<and> k \<le> 122) \<or> k = 95)"

definition is_digit_char :: "char \<Rightarrow> bool" where
  "is_digit_char c \<longleftrightarrow> 48 \<le> char_code c \<and> char_code c \<le> 57"

text \<open>\<open>toLowerCase\<close>: ASCII letters and the Latin-1 capitals, except the multiplication sign.\<close>

definition lower_char :: "char \<Rightarrow> char" where
  "lower_char c = (let k = char_code c in
     if (65 \<le> k \<and> k \<le> 90) \<or> (192 \<le> k \<and> k \<le> 222 \<and> k \<noteq> 215) then char_of (k + 32) else c)"

definition to_lower :: "string \<Rightarrow> string" where
  "to_lower s = map lower_char s"

definition trim :: "string \<Rightarrow> string" where
  "trim s = rev (dropWhile is_space (rev (dropWhile is_space s)))"

fun str_includes :: "string \<Rightarrow> string \<Rightarrow> bool" where
  "str_includes [] t = (t = [])"
| "str_includes (c # s) t = (prefix t (c # s) \<or> str_includes s t)"

text \<open>\<open>s.split(sep)\<close> for a single separating character.\<close>

fun split_on :: "char \<Rightarrow> string \<Rightarrow> string list" where
  "split_on sep [] = [[]]"
| "split_on sep (c # s) =
     (if c = sep then [] # split_on sep s
      else case split_on sep s of [] \<Rightarrow> [[c]] | w # ws \<Rightarrow> (c # w) # ws)"

fun join_with :: "string \<Rightarrow> string list \<Rightarrow> string" where
  "join_with sep [] = []"
| "join_with sep [w] = w"
| "join_with sep (w # v # ws) = w @ sep @ join_with sep (v # ws)"

lemma split_on_not_Nil [simp]: "split_on sep s \<noteq> []"
  by (cases s) (auto split: list.split)

lemma join_split: "join_with [sep] (split_on sep s) = s"
proof (induction s)
  case Nil
  then show ?case by simp
next
  case (Cons c s)
  obtain w ws where ws: "split_on sep s = w # ws" by (cases "split_on sep s") auto
  show ?case using Cons ws by (cases ws) auto
qed

lemma split_on_no_sep: "sep \<notin> set s \<Longrightarrow> split_on sep s = [s]"
  by (induction s) auto

lemma split_on_append:
  "sep \<notin> set s \<Longrightarrow> split_on sep (s @ sep # t) = s # split_on sep t"
  by (induction s) auto

lemma length_split_on: "length (split_on sep s) = Suc (count_list s sep)"
proof (induction s)
  case Nil
  then show ?case by simp
next
  case (Cons c s)
  then show ?case by (cases "split_on sep s") auto
qed

lemma set_split_on: "w \<in> set (split_on sep s) \<Longrightarrow> sep \<notin> set w"
proof (induction s arbitrary: w)
  case Nil
  then show ?case by simp
next
  case (Cons c s)
  then show ?case by (cases "split_on sep s") (auto split: if_splits)
qed

lemma str_includes_iff: "str_includes s t \<longleftrightarrow> (\<exists>u v. s = u @ t @ v)"
proof (induction s)
  case Nil
  then show ?case by auto
next
  case (Cons c s)
  show ?case
  proof
    assume "str_includes (c # s) t"
    then consider "prefix t (c # s)" | "str_includes s t" by auto
    then show "\<exists>u v. c # s = u @ t @ v"
    proof cases
      case 1
      then obtain v where "c # s = [] @ t @ v" by (auto simp: prefix_def)
      then show ?thesis by blast
    next
      case 2
      then obtain u v where "s = u @ t @ v" using Cons by blast
      then have "c # s = (c # u) @ t @ v" by simp
      then show ?thesis by blast
    qed
  next
    assume "\<exists>u v. c # s = u @ t @ v"
    then obtain u v where uv: "c # s = u @ t @ v" by blast
    show "str_includes (c # s) t"
    proof (cases u)
      case Nil
      then have "prefix t (c # s)" using uv by (auto simp: prefix_def)
      then show ?thesis by simp
    next
      case uCons: (Cons d u')
      have "s = u' @ t @ v" using uCons uv by simp
      then show ?thesis using Cons.IH by (metis str_includes.simps(2))
    qed
  qed
qed

lemma length_trim_le: "length (trim s) \<le> length s"
  using length_dropWhile_le [of is_space s] length_dropWhile_le [of is_space "rev (dropWhile is_space s)"]
  by (simp add: trim_def)

subsection \<open>Regular expressions\<close>

datatype rx =
    Cls "char \<Rightarrow> bool"          \<comment> \<open>one character of a class\<close>
  | WordB                       \<comment> \<open>a word boundary\<close>
  | Bos                         \<comment> \<open>the start of the input\<close>
  | Eos                         \<comment> \<open>the end of the input\<close>
  | Eps
  | Then rx rx
  | Or rx rx
  | Star rx                     \<comment> \<open>greedy repetition\<close>

type_synonym rx_pos = "string \<times> string"

text \<open>An iteration of a star that consumes nothing ends the repetition.\<close>

fun star_run :: "(rx_pos \<Rightarrow> rx_pos list) \<Rightarrow> nat \<Rightarrow> rx_pos \<Rightarrow> rx_pos list" where
  "star_run f 0 x = [x]"
| "star_run f (Suc n) x =
     concat (map (star_run f n) (filter (\<lambda>y. length (snd y) < length (snd x)) (f x))) @ [x]"

definition at_word :: "string \<Rightarrow> bool" where
  "at_word cs = (case cs of [] \<Rightarrow> False | c # _ \<Rightarrow> is_word_char c)"

primrec rx_run :: "rx \<Rightarrow> rx_pos \<Rightarrow> rx_pos list" where
  "rx_run (Cls p) x = (case snd x of [] \<Rightarrow> [] | c # cs \<Rightarrow> if p c then [(c # fst x, cs)] else [])"
| "rx_run WordB x = (if at_word (fst x) \<noteq> at_word (snd x) then [x] else [])"
| "rx_run Bos x = (if fst x = [] then [x] else [])"
| "rx_run Eos x = (if snd x = [] then [x] else [])"
| "rx_run Eps x = [x]"
| "rx_run (Then r q) x = concat (map (rx_run q) (rx_run r x))"
| "rx_run (Or r q) x = rx_run r x @ rx_run q x"
| "rx_run (Star r) x = star_run (rx_run r) (length (snd x)) x"

fun rx_search :: "rx \<Rightarrow> string \<Rightarrow> string \<Rightarrow> bool" where
  "rx_search r b [] = (rx_run r (b, []) \<noteq> [])"
| "rx_search r b (c # cs) = (rx_run r (b, c # cs) \<noteq> [] \<or> rx_search r (c # b) cs)"

definition rx_test :: "rx \<Rightarrow> string \<Rightarrow> bool" where
  "rx_test r s = rx_search r [] s"

text \<open>\<open>s.replace(r, text)\<close> with the global flag and a replacement without \<open>$\<close>.\<close>

function rx_replace_from :: "rx \<Rightarrow> string \<Rightarrow> string \<Rightarrow> string \<Rightarrow> string" where
  "rx_replace_from r rep b a =
     (case rx_run r (b, a) of
        (b', a') # _ \<Rightarrow>
          if length a' < length a then rep @ rx_replace_from r rep b' a'
          else rep @ (case a of [] \<Rightarrow> [] | c # cs \<Rightarrow> c # rx_replace_from r rep (c # b) cs)
      | [] \<Rightarrow> (case a of [] \<Rightarrow> [] | c # cs \<Rightarrow> c # rx_replace_from r rep (c # b) cs))"
  by pat_completeness auto
termination
  by (relation "measure (\<lambda>(r, rep, b, a). length a)") auto

declare rx_replace_from.simps [simp del]

definition rx_replace :: "rx \<Rightarrow> string \<Rightarrow> string \<Rightarrow> string" where
  "rx_replace r rep s = rx_replace_from r rep [] s"

subsection \<open>Pattern builders\<close>

definition one_of :: "string \<Rightarrow> rx" where
  "one_of cs = Cls (\<lambda>c. c \<in> set cs)"

text \<open>A literal under the \<open>i\<close> flag; all literals of the program are ASCII.\<close>

definition lit_ci :: "string \<Rightarrow> rx" where
  "lit_ci s = foldr (\<lambda>x r. Then (Cls (\<lambda>c. lower_char c = lower_char x)) r) s Eps"

definition lit :: "string \<Rightarrow> rx" where
  "lit s = foldr (\<lambda>x r. Then (Cls (\<lambda>c. c = x)) r) s Eps"

definition rx_opt :: "rx \<Rightarrow> rx" where
  "rx_opt r = Or r Eps"

definition rx_plus :: "rx \<Rightarrow> rx" where
  "rx_plus r = Then r (Star r)"

fun rx_times :: "nat \<Rightarrow> rx \<Rightarrow> rx" where
  "rx_times 0 r = Eps"
| "rx_times (Suc n) r = Then r (rx_times n r)"

fun rx_upto :: "nat \<Rightarrow> rx \<Rightarrow> rx" where
  "rx_upto 0 r = Eps"
| "rx_upto (Suc n) r = rx_opt (Then r (rx_upto n r))"

fun rx_seq :: "rx list \<Rightarrow> rx" where
  "rx_seq [] = Eps"
| "rx_seq [r] = r"
| "rx_seq (r # q # rs) = Then r (rx_seq (q # rs))"

fun rx_alts :: "rx list \<Rightarrow> rx" where
  "rx_alts [] = Cls (\<lambda>_. False)"
| "rx_alts [r] = r"
| "rx_alts (r # q # rs) = Or r (rx_alts (q # rs))"

definition any_char :: rx where
  "any_char = Cls (\<lambda>c. char_code c \<noteq> 10 \<and> char_code c \<noteq> 13)"

definition spaces :: rx where
  "spaces = Star (Cls is_space)"

definition spaces1 :: rx where
  "spaces1 = rx_plus (Cls is_space)"

subsection \<open>A match is a piece of the input\<close>

lemma star_run_split:
  assumes f: "\<And>x y. y \<in> set (f x) \<Longrightarrow> rev (fst y) @ snd y = rev (fst x) @ snd x"
  shows "y \<in> set (star_run f n x) \<Longrightarrow> rev (fst y) @ snd y = rev (fst x) @ snd x"
proof (induction n arbitrary: x)
  case 0
  then show ?case by simp
next
  case (Suc n)
  then show ?case using f by (auto; metis)
qed

lemma rx_run_split: "y \<in> set (rx_run r x) \<Longrightarrow> rev (fst y) @ snd y = rev (fst x) @ snd x"
proof (induction r arbitrary: x y)
  case (Then r q)
  then obtain z where z: "z \<in> set (rx_run r x)" "y \<in> set (rx_run q z)" by auto
  then show ?case using Then.IH(1) [OF z(1)] Then.IH(2) [OF z(2)] by simp
next
  case (Star r)
  show ?case
    using star_run_split [of "rx_run r" y "length (snd x)" x] Star by simp
qed (auto split: list.splits if_splits)

end
