(* ===== verification/JsJson.thy ===== *)
theory JsJson imports JsText Complex_Main begin

text \<open>
  JSON values as the wire code sees them. A number is a finite double (modelled by its exact
  rational value; the rounding of arithmetic on doubles is not modelled) or one of the three
  non-finite values. An object is an insertion-ordered map; reading a missing field is \<open>undefined\<close>,
  the \<open>None\<close> of \<open>js_field\<close>.
\<close>

datatype js_num = Num rat | NaN | PosInf | NegInf

datatype json =
    JNull
  | JBool bool
  | JNum js_num
  | JStr string
  | JArr "json list"
  | JObj "(string \<times> json) list"

definition js_field :: "(string \<times> json) list \<Rightarrow> string \<Rightarrow> json option" where
  "js_field obj name = jm_get obj name"

fun js_finite :: "js_num \<Rightarrow> rat option" where
  "js_finite (Num q) = Some q"
| "js_finite _ = None"

definition is_integer_rat :: "rat \<Rightarrow> bool" where
  "is_integer_rat q \<longleftrightarrow> of_int \<lfloor>q\<rfloor> = q"

text \<open>\<open>Math.round\<close>: halves go up.\<close>

definition js_round :: "rat \<Rightarrow> int" where
  "js_round q = \<lfloor>q + 1 / 2\<rfloor>"

text \<open>The time a \<open>Date\<close> takes from a fractional number of milliseconds: towards zero.\<close>

definition js_trunc :: "rat \<Rightarrow> int" where
  "js_trunc q = (if q < 0 then \<lceil>q\<rceil> else \<lfloor>q\<rfloor>)"

lemma js_trunc_int [simp]: "js_trunc (of_int k) = k"
  by (simp add: js_trunc_def)

lemma js_trunc_mono:
  assumes "p \<le> q"
  shows "js_trunc p \<le> js_trunc q"
proof -
  have "\<lceil>p\<rceil> \<le> \<lceil>q\<rceil>" "\<lfloor>p\<rfloor> \<le> \<lfloor>q\<rfloor>" using assms by (simp_all add: floor_mono ceiling_mono)
  moreover have "p < 0 \<Longrightarrow> \<lceil>p\<rceil> \<le> 0" "0 \<le> q \<Longrightarrow> 0 \<le> \<lfloor>q\<rfloor>" by simp_all
  ultimately show ?thesis using assms
    by (auto simp: js_trunc_def simp del: ceiling_le_zero zero_le_floor intro: order_trans)
qed

text \<open>The decimal digits of \<open>Number("12.5")\<close> for a string that matches \<open>^\d+(\.\d+)?$\<close>.\<close>

definition nat_of_digits :: "string \<Rightarrow> nat" where
  "nat_of_digits s = foldl (\<lambda>a c. 10 * a + (char_code c - 48)) 0 s"

definition decimal_val :: "string \<Rightarrow> rat option" where
  "decimal_val s =
     (let whole = takeWhile is_digit_char s; rest = dropWhile is_digit_char s
      in if whole = [] then None
         else if rest = [] then Some (of_nat (nat_of_digits whole))
         else let frac = tl rest
              in if hd rest = CHR ''.'' \<and> frac \<noteq> [] \<and> list_all is_digit_char frac
                 then Some (of_nat (nat_of_digits whole) + of_nat (nat_of_digits frac) / 10 ^ length frac)
                 else None)"

text \<open>Decimal rendering of integers, as a template literal prints them.\<close>

function nat_str :: "nat \<Rightarrow> string" where
  "nat_str n = (if n < 10 then [char_of (48 + n)] else nat_str (n div 10) @ [char_of (48 + n mod 10)])"
  by pat_completeness auto
termination
  by (relation "measure id") auto

declare nat_str.simps [simp del]

definition int_str :: "int \<Rightarrow> string" where
  "int_str k = (if k < 0 then ''-'' @ nat_str (nat (- k)) else nat_str (nat k))"

lemma nat_str_nonempty [simp]: "nat_str n \<noteq> []"
  by (subst nat_str.simps) simp

lemma nat_str_digits: "list_all is_digit_char (nat_str n)"
proof (induction n rule: nat_str.induct)
  case (1 n)
  show ?case
  proof (cases "n < 10")
    case True
    then show ?thesis by (subst nat_str.simps) (simp add: is_digit_char_def char_code_def)
  next
    case False
    moreover have "is_digit_char (char_of (48 + n mod 10))"
      by (simp add: is_digit_char_def char_code_def)
    ultimately show ?thesis using "1.IH" by (subst nat_str.simps) simp
  qed
qed

lemma nat_of_digits_nat_str: "nat_of_digits (nat_str n) = n"
proof (induction n rule: nat_str.induct)
  case (1 n)
  show ?case
  proof (cases "n < 10")
    case True
    then show ?thesis by (subst nat_str.simps) (simp add: nat_of_digits_def char_code_def)
  next
    case False
    then show ?thesis using "1.IH"
      by (subst nat_str.simps) (simp add: nat_of_digits_def char_code_def)
  qed
qed

lemma nat_str_inject [simp]: "nat_str m = nat_str n \<longleftrightarrow> m = n"
  by (metis nat_of_digits_nat_str)

end
