(* ===== verification/Contracts.thy ===== *)
theory Contracts imports JsDate JsJson begin

text \<open>
  The domain contracts of \<open>src/domain/contracts.ts\<close>: the data the components exchange
  (surfaces, providers, route candidates, normalized requests, stream events, errors), client
  detection, the classification and redaction of errors, the bounded \<open>Retry-After\<close> and the
  cleanup stack. An interface is a record whose fields carry a short prefix; a string union is a
  datatype; \<open>null\<close> and a missing optional field are \<open>None\<close>.
\<close>

subsection \<open>Providers and models\<close>

datatype surface = SfChat | SfResponses | SfMessages | SfNative | SfImages | SfWebSearch

datatype protocol = PrOpenai | PrAnthropic | PrGemini | PrNative | PrExa

datatype credential_kind = CkApiKey | CkOauth | CkManual | CkNone

datatype routing_preset = RpAuto | RpTargetUser | RpTargetConcurrent

datatype capability_category = CcVision | CcText | CcReasoning

record provider_metadata =
  pm_id :: string
  pm_display_name :: string
  pm_protocol :: protocol
  pm_credential_kind :: credential_kind
  pm_credential_url :: "string option"
  pm_credential_kinds :: "credential_kind list option"

record capabilities =
  cap_surfaces :: "surface list"
  cap_streaming :: bool
  cap_reasoning :: bool
  cap_tool_calls :: bool
  cap_images :: bool
  cap_explicit_cache :: bool
  cap_prompt_cache_key :: bool

record context_limits =
  cl_input_tokens :: "rat option"
  cl_output_tokens :: "rat option"

record token_pricing =
  tp_input :: "rat option"
  tp_output :: "rat option"

record provider_model =
  pmod_id :: string
  pmod_display_name :: string
  pmod_capabilities :: capabilities
  pmod_upstream_id :: "string option"
  pmod_context :: "context_limits option"
  pmod_categories :: "capability_category list option"
  pmod_pricing :: "token_pricing option"

datatype metadata_source = MsCatalog | MsCustom

record model_metadata =
  mm_context :: context_limits
  mm_categories :: "capability_category list"
  mm_pricing :: token_pricing
  mm_source :: metadata_source
  mm_updated_at :: "string option"

record route_target =
  rt_provider_id :: string
  rt_model_id :: string
  rt_upstream_model_id :: string
  rt_surface :: surface

datatype token_source = TsProvider | TsTokenizer | TsUnknown

record provider_usage =
  us_input :: "rat option"
  us_output :: "rat option"
  us_total :: "rat option"
  us_cache_read :: "rat option"
  us_cache_write :: "rat option"
  us_source :: token_source

subsection \<open>Routes, accounts, proxies\<close>

datatype route_scope = RsAccount | RsProxy

datatype route_status = StHealthy | StCoolingDown | StError | StDisabled

record route_health =
  rh_scope :: route_scope
  rh_status :: route_status
  rh_status_code :: "int option"
  rh_failure_kind :: "string option"
  rh_message :: "string option"
  rh_occurred_at :: "string option"
  rh_retry_at :: "string option"

record route_switch =
  rsw_scope :: route_scope
  rsw_previous :: "string option"
  rsw_replacement :: "string option"
  rsw_reason :: string
  rsw_occurred_at :: string

record route_candidate =
  rc_id :: string
  rc_provider_id :: string
  rc_model_id :: string
  rc_surface :: surface
  rc_health :: "route_health option"
  rc_enabled :: bool
  rc_authorized :: bool
  rc_compatible :: bool

record route_resolution =
  rr_requested_model :: string
  rr_candidates :: "route_candidate list"
  rr_protocol :: surface

datatype affinity_namespace = AnApiKey | AnTrustedIdentity

record affinity_key =
  ak_namespace :: affinity_namespace
  ak_value :: string

record model_lock =
  ml_account_id :: string
  ml_model_id :: string
  ml_retry_at :: string
  ml_error_kind :: "string option"
  ml_status_code :: "int option"
  ml_message :: "string option"
  ml_failure_count :: int

record account_candidate =
  ac_id :: string
  ac_provider_id :: string
  ac_credential_kind :: credential_kind
  ac_health :: "route_health option"
  ac_enabled :: bool
  ac_quota_available :: bool
  ac_model_locks :: "(string, model_lock) js_map option"

record proxy_candidate =
  pc_id :: string
  pc_url :: string
  pc_health :: "route_health option"
  pc_enabled :: bool

record authorized_request =
  ar_api_key_id :: "string option"
  ar_trusted_identity :: "string option"
  ar_model :: string

datatype endpoint = EpChat | EpMessages | EpResponses | EpImageGen | EpImageEdit | EpModels

subsection \<open>Normalized requests\<close>

record request_limits =
  rl_max_body_bytes :: int
  rl_connect_timeout_ms :: int
  rl_first_byte_timeout_ms :: int
  rl_idle_timeout_ms :: int
  rl_total_timeout_ms :: int

datatype image_kind = IkUrl | IkData | IkFile

record image_reference =
  im_kind :: image_kind
  im_value :: string
  im_media_type :: "string option"

datatype block_type = BtText | BtImage | BtToolUse | BtToolResult | BtUnknown

record content_block =
  cb_type :: block_type
  cb_text :: "string option"
  cb_ephemeral :: bool
  cb_image :: "image_reference option"
  cb_tool_name :: "string option"
  cb_tool_call_id :: "string option"
  cb_tool_arguments :: "string option"
  cb_tool_error :: "bool option"

definition block_of :: "block_type \<Rightarrow> content_block" where
  "block_of ty = \<lparr>cb_type = ty, cb_text = None, cb_ephemeral = False, cb_image = None,
     cb_tool_name = None, cb_tool_call_id = None, cb_tool_arguments = None, cb_tool_error = None\<rparr>"

definition text_block :: "string \<Rightarrow> content_block" where
  "text_block s = (block_of BtText)\<lparr>cb_text := Some s\<rparr>"

datatype role = RoSystem | RoDeveloper | RoUser | RoAssistant | RoTool

record message =
  msg_role :: role
  msg_content :: "content_block list"
  msg_reasoning :: "string option"

record tool =
  tl_name :: string
  tl_description :: "string option"
  tl_schema :: "(string \<times> json) list"
  tl_schema_length :: "int option"

datatype response_format = RfText | RfJsonObject | RfJsonSchema

datatype reasoning_mode = RmEnabled | RmDisabled | RmDefault

datatype reasoning_effort = ReXhigh | ReHigh | ReMedium | ReLow | ReMinimal | ReNone

datatype reasoning_summary = RsumAuto | RsumConcise | RsumDetailed

record reasoning_config =
  rcf_effort :: "reasoning_effort option"
  rcf_max_tokens :: "rat option"
  rcf_exclude :: "bool option"
  rcf_enabled :: "bool option"
  rcf_summary :: "reasoning_summary option"

datatype image_operation = IoGenerate | IoEdit

record normalized_request =
  nr_model :: string
  nr_messages :: "message list"
  nr_tools :: "tool list"
  nr_stream :: bool
  nr_response_format :: response_format
  nr_reasoning :: reasoning_mode
  nr_reasoning_config :: "reasoning_config option"
  nr_include :: "string list option"
  nr_max_output_tokens :: "rat option"
  nr_images :: "image_reference list"
  nr_image_operation :: "image_operation option"
  nr_source_surface :: surface
  nr_limits :: request_limits
  nr_cache_key :: "string option"
  nr_metadata_user_id :: "string option"

subsection \<open>Client detection\<close>

text \<open>
  The table \<open>names\<close> is an object literal, so \<open>names[explicit]\<close> also finds the two members of
  \<open>Object.prototype\<close> with lower-case names; their truthy values are the constructor
  \<open>InheritedMember\<close>.
\<close>

datatype client_name =
    GithubCopilot | ClaudeCode | Codex | Cursor | Cline | Opencode | Pi | UnknownClient
  | InheritedMember string

datatype detection_source = ByExplicitHeader | ByUserAgent | ByProtocolHeader | ByPromptMarker | ByNothing

record client_identity =
  ci_name :: client_name
  ci_source :: detection_source

type_synonym headers = "(string, string) js_map"

definition client_names :: "(string \<times> client_name) list" where
  "client_names =
    [(''github_copilot'', GithubCopilot), (''claude_code'', ClaudeCode), (''codex'', Codex),
     (''cursor'', Cursor), (''cline'', Cline), (''opencode'', Opencode), (''pi'', Pi)]"

definition prototype_members :: "string list" where
  "prototype_members = [''constructor'', ''__proto__'']"

definition name_lookup :: "string \<Rightarrow> client_name option" where
  "name_lookup k = (case map_of client_names k of
      Some n \<Rightarrow> Some n
    | None \<Rightarrow> if k \<in> set prototype_members then Some (InheritedMember k) else None)"

text \<open>\<open>needle.replace("_", "-")\<close> replaces the first underscore.\<close>

fun replace_first :: "char \<Rightarrow> char \<Rightarrow> string \<Rightarrow> string" where
  "replace_first a b [] = []"
| "replace_first a b (c # cs) = (if c = a then b # cs else c # replace_first a b cs)"

definition or_empty :: "string option \<Rightarrow> string" where
  "or_empty s = (case s of None \<Rightarrow> [] | Some t \<Rightarrow> t)"

definition marker_text :: "normalized_request option \<Rightarrow> string" where
  "marker_text normalized =
    (case normalized of
       None \<Rightarrow> []
     | Some r \<Rightarrow>
       (case find (\<lambda>m. msg_role m = RoSystem \<or> msg_role m = RoDeveloper) (nr_messages r) of
          None \<Rightarrow> []
        | Some m \<Rightarrow> (case msg_content m of
              [] \<Rightarrow> []
            | b # _ \<Rightarrow> if cb_type b = BtText then to_lower (or_empty (cb_text b)) else [])))"

definition detect_client :: "headers \<Rightarrow> normalized_request option \<Rightarrow> client_identity" where
  "detect_client hs normalized =
    (let explicit = map_option (\<lambda>v. to_lower (trim v)) (jm_get hs ''x-client-name'');
         explicit_name = (case explicit of None \<Rightarrow> None | Some e \<Rightarrow> if e = [] then None else name_lookup e)
     in case explicit_name of
       Some n \<Rightarrow> \<lparr>ci_name = n, ci_source = ByExplicitHeader\<rparr>
     | None \<Rightarrow>
       (let ua = to_lower (or_empty (jm_get hs ''user-agent''))
        in case find (\<lambda>(needle, n). str_includes ua (replace_first CHR ''_'' CHR ''-'' needle) \<or>
                                    str_includes ua needle) client_names of
          Some (needle, n) \<Rightarrow> \<lparr>ci_name = n, ci_source = ByUserAgent\<rparr>
        | None \<Rightarrow>
          (let protocol = to_lower (or_empty (jm_get hs ''x-stainless-helper-method''));
               marker = marker_text normalized
           in if str_includes protocol ''claude'' then \<lparr>ci_name = ClaudeCode, ci_source = ByProtocolHeader\<rparr>
              else if str_includes protocol ''codex'' then \<lparr>ci_name = Codex, ci_source = ByProtocolHeader\<rparr>
              else if rx_test (rx_seq [WordB, lit ''claude code'', WordB]) marker
                then \<lparr>ci_name = ClaudeCode, ci_source = ByPromptMarker\<rparr>
              else if rx_test (rx_seq [WordB, lit ''codex'', WordB]) marker
                then \<lparr>ci_name = Codex, ci_source = ByPromptMarker\<rparr>
              else \<lparr>ci_name = UnknownClient, ci_source = ByNothing\<rparr>)))"

subsection \<open>Stream events\<close>

datatype stop_reason = SrCompleted | SrLength | SrToolCall | SrContentFilter | SrError

datatype stream_event =
    MessageStart string
  | ThinkingDelta string
  | TextDelta string
  | ToolCallStart string string
  | ToolCallDelta string string
  | ToolCallEnd string
  | UsageEvent provider_usage
  | MessageStop stop_reason

fun is_terminal_event :: "stream_event \<Rightarrow> bool" where
  "is_terminal_event (MessageStop r) = True"
| "is_terminal_event _ = False"

datatype provider_output =
    NonStream "(string \<times> json) list" "provider_usage option"
  | Streamed "stream_event list" "provider_usage option"

subsection \<open>Errors\<close>

datatype error_kind =
    InvalidRequest | AuthenticationFailed | AuthorizationDenied | QuotaExceeded
  | ConcurrencyExceeded | ModelNotFound | CapabilityUnsupported | CredentialUnavailable
  | NetworkUnavailable | ProviderRateLimited | ProviderUnavailable | ProviderProtocolError
  | StreamTimeout | StreamTruncated | ClientAborted | InternalError

datatype error_source = SourceInternal | SourceUpstream | SourceClient

datatype error_scope = ScAccount | ScProxy | ScProvider

record call_error =
  ce_status_code :: "int option"
  ce_kind :: error_kind
  ce_retryable :: bool
  ce_route_scope :: "error_scope option"
  ce_source :: error_source
  ce_message :: string
  ce_retry_at :: "string option"

definition derive_error_source :: "error_kind \<Rightarrow> error_scope option \<Rightarrow> error_source" where
  "derive_error_source k scope =
    (if k = ClientAborted \<or> k = InvalidRequest then SourceClient
     else if k = InternalError \<or> k = CredentialUnavailable \<or> k = CapabilityUnsupported \<or> k = ModelNotFound
       then SourceInternal
     else if k = NetworkUnavailable then SourceUpstream
     else SourceUpstream)"

text \<open>What a \<open>catch\<close> can hold: an \<open>Error\<close> with its message, a string, or anything else.\<close>

datatype thrown = ThrownError string | ThrownString string | ThrownOther

definition MAX_ERROR_MESSAGE_LENGTH :: nat where
  "MAX_ERROR_MESSAGE_LENGTH = 240"

definition to_line_end :: rx where
  "to_line_end = Star (Cls (\<lambda>c. char_code c \<notin> {10, 34, 39}))"

definition bearer_rx :: rx where
  "bearer_rx = rx_seq [lit_ci ''Bearer'', spaces1, to_line_end]"

definition credential_rx :: rx where
  "credential_rx = rx_seq
    [rx_alts [rx_seq [lit_ci ''api'', rx_opt (one_of ''-_ ''), lit_ci ''key''],
              lit_ci ''token'', lit_ci ''secret'', lit_ci ''password''],
     spaces, one_of '':='', spaces, to_line_end]"

definition thrown_text :: "thrown \<Rightarrow> string" where
  "thrown_text v = (case v of
      ThrownError m \<Rightarrow> m
    | ThrownString m \<Rightarrow> m
    | ThrownOther \<Rightarrow> ''Provider request failed (no error detail available)'')"

definition redact :: "string \<Rightarrow> string" where
  "redact s = trim (rx_replace spaces1 '' ''
     (rx_replace credential_rx ''credential=[redacted]'' (rx_replace bearer_rx ''Bearer [redacted]'' s)))"

definition sanitize_message :: "thrown \<Rightarrow> string" where
  "sanitize_message v =
    (let redacted = redact (thrown_text v)
     in if 0 < length redacted then take MAX_ERROR_MESSAGE_LENGTH redacted
        else ''Provider request failed (empty error message)'')"

text \<open>The \<open>Retry-After\<close> value: a number, a string or something else.\<close>

datatype retry_value = RvNumber js_num | RvString string | RvOther

definition retry_seconds :: "retry_value \<Rightarrow> rat option" where
  "retry_seconds v = (case v of
      RvNumber n \<Rightarrow> js_finite n
    | RvString s \<Rightarrow> decimal_val (trim s)
    | RvOther \<Rightarrow> None)"

definition bounded_retry_at :: "retry_value \<Rightarrow> int \<Rightarrow> int \<Rightarrow> string option" where
  "bounded_retry_at v now_ms max_delay_ms =
    (case retry_seconds v of
       None \<Rightarrow> None
     | Some seconds \<Rightarrow>
       if seconds < 0 \<or> of_int max_delay_ms / 1000 < seconds then None
       else Some (iso_string (js_trunc (of_int now_ms + seconds * 1000))))"

record public_error =
  pe_type :: string
  pe_code :: error_kind
  pe_message :: string
  pe_request_id :: string
  pe_source :: error_source
  pe_origin :: "error_scope option"

definition public_error_body :: "call_error \<Rightarrow> string \<Rightarrow> public_error" where
  "public_error_body e request_id = \<lparr>
     pe_type = ''error'',
     pe_code = ce_kind e,
     pe_message = ce_message e,
     pe_request_id = request_id,
     pe_source = ce_source e,
     pe_origin = ce_route_scope e\<rparr>"

subsection \<open>The cleanup stack\<close>

text \<open>
  \<open>createCleanupStack\<close> closes over \<open>handles\<close> and \<open>finished\<close>. \<open>run\<close> awaits each release, so other
  calls can run between two iterations of its loop: the events are a call of \<open>add\<close>, a call of
  \<open>run\<close> up to its loop, and one iteration of the loop. \<open>ck_running\<close> is the suspended loop,
  \<open>ck_log\<close> the releases started so far, oldest first. A release that rejects ends the loop.
\<close>

record 'h cleanup =
  ck_handles :: "'h list"
  ck_finished :: bool
  ck_running :: bool
  ck_log :: "'h list"

datatype 'h cleanup_event = CkAdd 'h | CkRun | CkIterate

definition cleanup_empty :: "'h cleanup" where
  "cleanup_empty = \<lparr>ck_handles = [], ck_finished = False, ck_running = False, ck_log = []\<rparr>"

definition cleanup_add :: "'h \<Rightarrow> 'h cleanup \<Rightarrow> 'h cleanup" where
  "cleanup_add h c =
    (if ck_finished c then c\<lparr>ck_log := ck_log c @ [h]\<rparr>
     else c\<lparr>ck_handles := ck_handles c @ [h]\<rparr>)"

definition cleanup_begin_run :: "'h cleanup \<Rightarrow> 'h cleanup" where
  "cleanup_begin_run c = (if ck_finished c then c else c\<lparr>ck_finished := True, ck_running := True\<rparr>)"

definition cleanup_iterate :: "('h \<Rightarrow> bool) \<Rightarrow> 'h cleanup \<Rightarrow> 'h cleanup" where
  "cleanup_iterate rejects c =
    (if \<not> ck_running c then c
     else if ck_handles c = [] then c\<lparr>ck_running := False\<rparr>
     else let h = last (ck_handles c) in
       c\<lparr>ck_handles := butlast (ck_handles c), ck_log := ck_log c @ [h],
         ck_running := \<not> rejects h\<rparr>)"

fun cleanup_step :: "('h \<Rightarrow> bool) \<Rightarrow> 'h cleanup_event \<Rightarrow> 'h cleanup \<Rightarrow> 'h cleanup" where
  "cleanup_step rejects (CkAdd h) c = cleanup_add h c"
| "cleanup_step rejects CkRun c = cleanup_begin_run c"
| "cleanup_step rejects CkIterate c = cleanup_iterate rejects c"

definition cleanup_events :: "('h \<Rightarrow> bool) \<Rightarrow> 'h cleanup_event list \<Rightarrow> 'h cleanup \<Rightarrow> 'h cleanup" where
  "cleanup_events rejects es c = fold (cleanup_step rejects) es c"

fun added :: "'h cleanup_event list \<Rightarrow> 'h list" where
  "added [] = []"
| "added (CkAdd h # es) = h # added es"
| "added (_ # es) = added es"

text \<open>A whole \<open>run\<close> with nothing in between.\<close>

fun cleanup_loop :: "('h \<Rightarrow> bool) \<Rightarrow> 'h list \<Rightarrow> 'h list \<Rightarrow> 'h list \<times> 'h list" where
  "cleanup_loop rejects released [] = (released, [])"
| "cleanup_loop rejects released (h # hs) =
     (if rejects h then (released @ [h], hs) else cleanup_loop rejects (released @ [h]) hs)"

definition cleanup_run :: "('h \<Rightarrow> bool) \<Rightarrow> 'h cleanup \<Rightarrow> 'h cleanup" where
  "cleanup_run rejects c =
    (if ck_finished c then c
     else let (released, rest) = cleanup_loop rejects (ck_log c) (rev (ck_handles c))
       in c\<lparr>ck_finished := True, ck_running := False, ck_log := released, ck_handles := rev rest\<rparr>)"

subsection \<open>Lemmas\<close>

lemma sanitize_message_length:
  "0 < length (sanitize_message v) \<and> length (sanitize_message v) \<le> MAX_ERROR_MESSAGE_LENGTH"
  by (simp add: sanitize_message_def Let_def MAX_ERROR_MESSAGE_LENGTH_def)

lemma bounded_retry_at_SomeE:
  assumes "bounded_retry_at v now_ms max_ms = Some s"
  obtains seconds where "retry_seconds v = Some seconds" and "0 \<le> seconds"
    and "seconds * 1000 \<le> of_int max_ms"
    and "s = iso_string (js_trunc (of_int now_ms + seconds * 1000))"
  using assms that by (auto simp: bounded_retry_at_def split: option.splits if_splits)

lemma bounded_retry_at_window:
  assumes "bounded_retry_at v now_ms max_ms = Some s" and "0 \<le> now_ms"
    and "iso_range (now_ms + max_ms)"
  shows "\<exists>t. parse_iso s = Some t \<and> now_ms \<le> t \<and> t \<le> now_ms + max_ms"
proof -
  obtain seconds where sec: "0 \<le> seconds" "seconds * 1000 \<le> of_int max_ms"
    and s: "s = iso_string (js_trunc (of_int now_ms + seconds * 1000))"
    using assms(1) by (rule bounded_retry_at_SomeE)
  let ?t = "js_trunc (of_int now_ms + seconds * 1000)"
  have "js_trunc (of_int now_ms) \<le> ?t" using sec by (intro js_trunc_mono) simp
  moreover have "?t \<le> js_trunc (of_int (now_ms + max_ms))" using sec by (intro js_trunc_mono) simp
  ultimately have b: "now_ms \<le> ?t" "?t \<le> now_ms + max_ms" by (simp_all only: js_trunc_int)
  then have "iso_range ?t" using assms(2,3) by (simp add: iso_range_def)
  then show ?thesis using b s parse_iso_string by auto
qed

text \<open>
  The bookkeeping of the cleanup stack: whatever the interleaving, every added handle is either
  released, once, or still held; nothing is held after \<open>finished\<close> unless the loop is suspended or
  was ended by a rejection.
\<close>

lemma added_append: "added (es @ fs) = added es @ added fs"
  by (induction es rule: added.induct) auto

lemma cleanup_step_log:
  "mset (ck_log (cleanup_step rejects e c)) + mset (ck_handles (cleanup_step rejects e c)) =
   mset (ck_log c) + mset (ck_handles c) + mset (added [e])"
proof (cases e)
  case CkIterate
  show ?thesis
  proof (cases "ck_handles c = []")
    case False
    then have "mset (ck_handles c) = add_mset (last (ck_handles c)) (mset (butlast (ck_handles c)))"
      by (metis append_butlast_last_id mset_append add_mset_add_single mset_single_iff)
    then show ?thesis using False CkIterate by (auto simp: cleanup_iterate_def Let_def)
  qed (simp add: CkIterate cleanup_iterate_def)
qed (auto simp: cleanup_add_def cleanup_begin_run_def)

lemma cleanup_events_log:
  "mset (ck_log (cleanup_events rejects es c)) + mset (ck_handles (cleanup_events rejects es c)) =
   mset (ck_log c) + mset (ck_handles c) + mset (added es)"
proof (induction es arbitrary: c)
  case Nil
  then show ?case by (simp add: cleanup_events_def)
next
  case (Cons e es)
  have "added (e # es) = added [e] @ added es" using added_append [of "[e]" es] by simp
  then show ?case
    using Cons [of "cleanup_step rejects e c"] cleanup_step_log [of rejects e c]
    by (simp add: cleanup_events_def)
qed

definition cleanup_ok :: "('h \<Rightarrow> bool) \<Rightarrow> 'h cleanup \<Rightarrow> bool" where
  "cleanup_ok rejects c \<longleftrightarrow>
     (ck_running c \<longrightarrow> ck_finished c) \<and>
     (ck_finished c \<and> \<not> ck_running c \<and> (\<forall>h. \<not> rejects h) \<longrightarrow> ck_handles c = [])"

lemma cleanup_ok_step: "cleanup_ok rejects c \<Longrightarrow> cleanup_ok rejects (cleanup_step rejects e c)"
  by (cases e)
    (auto simp: cleanup_ok_def cleanup_add_def cleanup_begin_run_def cleanup_iterate_def Let_def)

lemma cleanup_ok_events: "cleanup_ok rejects c \<Longrightarrow> cleanup_ok rejects (cleanup_events rejects es c)"
  unfolding cleanup_events_def by (induction es arbitrary: c) (auto intro: cleanup_ok_step)

lemma cleanup_ok_empty [simp]: "cleanup_ok rejects cleanup_empty"
  by (simp add: cleanup_ok_def cleanup_empty_def)

lemma cleanup_loop_complete: "\<forall>h. \<not> rejects h \<Longrightarrow> cleanup_loop rejects released hs = (released @ hs, [])"
  by (induction rejects released hs rule: cleanup_loop.induct) auto

lemma cleanup_loop_stops:
  "cleanup_loop rejects released hs = (released', rest) \<Longrightarrow>
   released' @ rest = released @ hs \<and>
   (rest \<noteq> [] \<longrightarrow> (\<exists>h. rejects h \<and> h \<in> set hs))"
  by (induction rejects released hs rule: cleanup_loop.induct) (auto split: if_splits)

text \<open>The uninterrupted run is the iteration of the loop's step.\<close>

lemma cleanup_run_iterates:
  "\<not> ck_finished c \<Longrightarrow>
   cleanup_run rejects c = (cleanup_iterate rejects ^^ Suc (length (ck_handles c))) (cleanup_begin_run c)"
proof -
  have loop: "ck_running d \<Longrightarrow> ck_finished d \<Longrightarrow>
    (cleanup_iterate rejects ^^ Suc (length (ck_handles d))) d =
      (let (released, rest) = cleanup_loop rejects (ck_log d) (rev (ck_handles d))
       in d\<lparr>ck_running := False, ck_log := released, ck_handles := rev rest\<rparr>)" for d
  proof (induction "rev (ck_handles d)" arbitrary: d)
    case Nil
    then show ?case by (cases d) (simp add: cleanup_iterate_def)
  next
    case (Cons h hs)
    let ?d = "cleanup_iterate rejects d"
    have hd: "ck_handles d = rev hs @ [h]" using Cons.hyps(2) by (metis rev.simps(2) rev_rev_ident)
    have stay: "\<not> ck_running e \<Longrightarrow> (cleanup_iterate rejects ^^ n) e = e" for e n
      by (induction n) (auto simp: cleanup_iterate_def)
    show ?case
    proof (cases "rejects h")
      case True
      have e: "?d = d\<lparr>ck_handles := rev hs, ck_log := ck_log d @ [h], ck_running := False\<rparr>"
        using Cons.prems hd True by (simp add: cleanup_iterate_def Let_def)
      have "(cleanup_iterate rejects ^^ Suc (length (ck_handles d))) d = ?d"
        using stay [of ?d "length (ck_handles d)"] e by (simp only: funpow_Suc_right o_apply) simp
      then show ?thesis using e hd True by simp
    next
      case False
      have e: "?d = d\<lparr>ck_handles := rev hs, ck_log := ck_log d @ [h]\<rparr>"
        using Cons.prems hd False by (simp add: cleanup_iterate_def Let_def)
      have "(cleanup_iterate rejects ^^ Suc (length (ck_handles d))) d =
        (cleanup_iterate rejects ^^ Suc (length (ck_handles ?d))) ?d"
        using e hd by (simp add: funpow_Suc_right del: funpow.simps)
      also have "\<dots> = (let (released, rest) = cleanup_loop rejects (ck_log ?d) (rev (ck_handles ?d))
        in ?d\<lparr>ck_running := False, ck_log := released, ck_handles := rev rest\<rparr>)"
        using Cons.hyps(1) [of ?d] e Cons.prems by simp
      finally show ?thesis using e hd False by simp
    qed
  qed
  assume "\<not> ck_finished c"
  then show ?thesis
    using loop [of "cleanup_begin_run c"]
    by (auto simp: cleanup_run_def cleanup_begin_run_def split: prod.splits)
qed

subsection \<open>The wire names of the error kinds\<close>

definition kind_name :: "error_kind \<Rightarrow> string" where
  "kind_name k = (case k of
      InvalidRequest \<Rightarrow> ''invalid_request''
    | AuthenticationFailed \<Rightarrow> ''authentication_failed''
    | AuthorizationDenied \<Rightarrow> ''authorization_denied''
    | QuotaExceeded \<Rightarrow> ''quota_exceeded''
    | ConcurrencyExceeded \<Rightarrow> ''concurrency_exceeded''
    | ModelNotFound \<Rightarrow> ''model_not_found''
    | CapabilityUnsupported \<Rightarrow> ''capability_unsupported''
    | CredentialUnavailable \<Rightarrow> ''credential_unavailable''
    | NetworkUnavailable \<Rightarrow> ''network_unavailable''
    | ProviderRateLimited \<Rightarrow> ''provider_rate_limited''
    | ProviderUnavailable \<Rightarrow> ''provider_unavailable''
    | ProviderProtocolError \<Rightarrow> ''provider_protocol_error''
    | StreamTimeout \<Rightarrow> ''stream_timeout''
    | StreamTruncated \<Rightarrow> ''stream_truncated''
    | ClientAborted \<Rightarrow> ''client_aborted''
    | InternalError \<Rightarrow> ''internal_error'')"

lemma kind_name_inject [simp]: "kind_name j = kind_name k \<longleftrightarrow> j = k"
  by (cases j; cases k) (simp_all add: kind_name_def)

subsection \<open>Properties\<close>

text \<open>
  The cleanup stack neither loses nor repeats a release: under every interleaving of
  registrations, runs and loop iterations, the releases started and the handles still stacked are
  together exactly the registered ones; and once a run has ended and no release rejects, every
  registered handle was released exactly once.
\<close>

theorem cleanup_releases_each_once:
  "mset (ck_log (cleanup_events rejects es cleanup_empty)) +
   mset (ck_handles (cleanup_events rejects es cleanup_empty)) = mset (added es) \<and>
   (ck_finished (cleanup_events rejects es cleanup_empty) \<and> \<not> ck_running (cleanup_events rejects es cleanup_empty) \<and>
    (\<forall>h. \<not> rejects h) \<longrightarrow> mset (ck_log (cleanup_events rejects es cleanup_empty)) = mset (added es))"
proof -
  let ?c = "cleanup_events rejects es cleanup_empty"
  have "mset (ck_log ?c) + mset (ck_handles ?c) = mset (added es)"
    using cleanup_events_log [of rejects es cleanup_empty] by (simp add: cleanup_empty_def)
  moreover have "cleanup_ok rejects ?c" by (rule cleanup_ok_events) simp
  ultimately show ?thesis by (auto simp: cleanup_ok_def)
qed

theorem cleanup_releases_each_once_witness:
  "mset (ck_log (cleanup_events (\<lambda>h. False) [CkAdd (1::nat), CkAdd 2, CkRun, CkIterate, CkIterate, CkIterate] cleanup_empty)) =
   {#1, 2#}"
  using cleanup_releases_each_once [of "\<lambda>h. False" "[CkAdd (1::nat), CkAdd 2, CkRun, CkIterate, CkIterate, CkIterate]"]
  by (simp add: cleanup_events_def cleanup_empty_def cleanup_add_def cleanup_begin_run_def cleanup_iterate_def)

text \<open>A release that rejects ends the run: the handles below it are never released.\<close>

lemma rejecting_release_drops_rest:
  "ck_log (cleanup_run (\<lambda>h. h = 2) (cleanup_events (\<lambda>h. h = 2) [CkAdd (1::nat), CkAdd 2] cleanup_empty)) = [2]"
  by (simp add: cleanup_events_def cleanup_empty_def cleanup_add_def cleanup_run_def)

text \<open>
  A \<open>Retry-After\<close> value that is accepted becomes a timestamp between now and the allowed
  maximum: it is never in the past and never further away than \<open>maxDelayMs\<close>.
\<close>

theorem retry_at_within_window:
  assumes "bounded_retry_at v now_ms max_delay_ms = Some s" and "0 \<le> now_ms" and "iso_range (now_ms + max_delay_ms)"
  shows "\<exists>t. parse_iso s = Some t \<and> now_ms \<le> t \<and> t \<le> now_ms + max_delay_ms"
  using assms by (rule bounded_retry_at_window)

theorem retry_at_within_window_witness:
  "\<exists>t. parse_iso (iso_string 1700000002500) = Some t \<and> 1700000000000 \<le> t \<and> t \<le> 1700000000000 + 60000"
proof (rule retry_at_within_window)
  show "bounded_retry_at (RvString ''2.5'') 1700000000000 60000 = Some (iso_string 1700000002500)"
    by (simp add: bounded_retry_at_def retry_seconds_def trim_def is_space_def char_code_def decimal_val_def Let_def
        is_digit_char_def nat_of_digits_def js_trunc_def)
qed (simp_all add: iso_range_def)

text \<open>
  An error message shown to a client is never empty and never longer than the limit, whatever
  was thrown.
\<close>

theorem public_message_bounded:
  "0 < length (sanitize_message v) \<and> length (sanitize_message v) \<le> MAX_ERROR_MESSAGE_LENGTH"
  by (rule sanitize_message_length)

text \<open>An inherited property of the lookup object names a client; two letters of an agent name do, too.\<close>

lemma inherited_member_names_client:
  "detect_client [(''x-client-name'', ''constructor'')] None =
     \<lparr>ci_name = InheritedMember ''constructor'', ci_source = ByExplicitHeader\<rparr>"
  by (simp add: detect_client_def jm_get_def name_lookup_def client_names_def prototype_members_def
      to_lower_def lower_char_def trim_def is_space_def char_code_def Let_def)

lemma pip_is_taken_for_pi:
  "detect_client [(''user-agent'', ''pip/3'')] None = \<lparr>ci_name = Pi, ci_source = ByUserAgent\<rparr>"
  by (simp add: detect_client_def jm_get_def or_empty_def client_names_def to_lower_def lower_char_def
      char_code_def Let_def)

end
