(* ===== verification/Routing.thy ===== *)
theory Routing imports Contracts "HOL-Library.Word" begin

unbundle bit_operations_syntax

text \<open>
  Routing decisions that keep no state (\<open>src/domain/routing.ts\<close>, \<open>src/domain/model-metadata.ts\<close>):
  the rendezvous ordering of candidates by an FNV-1a score, the parsing of provider-qualified
  model names, the resolution of aliases and combos, and the metadata of a resolved name. The
  three lookup maps of the configuration are insertion-ordered maps.
\<close>

subsection \<open>Rendezvous ordering\<close>

definition namespace_name :: "affinity_namespace \<Rightarrow> string" where
  "namespace_name n = (case n of AnApiKey \<Rightarrow> ''api_key'' | AnTrustedIdentity \<Rightarrow> ''trusted_identity'')"

definition affinity_key_string :: "affinity_key \<Rightarrow> string" where
  "affinity_key_string k = namespace_name (ak_namespace k) @ '':'' @ ak_value k"

text \<open>
  \<open>Math.imul\<close> multiplies modulo \<open>2\<^sup>3\<^sup>2\<close>, \<open>^\<close> works on the low 32 bits and \<open>>>> 0\<close> reads the result
  unsigned: the hash is a 32-bit word.
\<close>

definition fnv_step :: "32 word \<Rightarrow> char \<Rightarrow> 32 word" where
  "fnv_step h c = (h XOR word_of_nat (char_code c)) * 0x01000193"

definition rendezvous_score :: "string \<Rightarrow> string \<Rightarrow> int" where
  "rendezvous_score key candidate =
     uint (foldl fnv_step 0x811c9dc5 (key @ [CHR 0x00] @ candidate))"

definition rendezvous_cmp :: "string \<Rightarrow> ('a \<Rightarrow> string) \<Rightarrow> 'a \<Rightarrow> 'a \<Rightarrow> int" where
  "rendezvous_cmp key id_of l r =
    (let ls = rendezvous_score key (id_of l); rs = rendezvous_score key (id_of r)
     in if ls \<noteq> rs then rs - ls
        else if id_of l < id_of r then -1 else if id_of r < id_of l then 1 else 0)"

definition order_by_rendezvous :: "string \<Rightarrow> 'a list \<Rightarrow> ('a \<Rightarrow> string) \<Rightarrow> 'a list" where
  "order_by_rendezvous key items id_of = js_sort (rendezvous_cmp key id_of) items"

subsection \<open>Model references\<close>

record resolved_model =
  rm_provider_id :: string
  rm_model_id :: string

datatype combo_strategy = Fallback | RoundRobin

record combo_definition =
  co_id :: string
  co_models :: "string list"
  co_strategy :: combo_strategy
  co_sticky_limit :: int

record reference_config =
  cf_prefixes :: "(string, string) js_map"
  cf_aliases :: "(string, string) js_map"
  cf_combos :: "(string, combo_definition) js_map"

datatype parse_result = Qualified string string | Unqualified | InvalidRef string

datatype chain_result = ChQualified resolved_model | ChCombo "resolved_model list" | ChUnresolved

definition MAX_MODEL_CHAIN_DEPTH :: nat where
  "MAX_MODEL_CHAIN_DEPTH = 8"

definition slash :: char where
  "slash = CHR ''/''"

definition parse_model_reference :: "string \<Rightarrow> (string, string) js_map \<Rightarrow> parse_result" where
  "parse_model_reference model table =
    (if slash \<notin> set model then Unqualified
     else let pre = takeWhile (\<lambda>c. c \<noteq> slash) model;
              model_id = tl (dropWhile (\<lambda>c. c \<noteq> slash) model)
       in if pre = [] \<or> model_id = []
          then InvalidRef ''Provider-qualified model names must include both a provider prefix and a model ID.''
          else case jm_get table pre of
            Some provider_id \<Rightarrow> Qualified provider_id model_id
          | None \<Rightarrow> InvalidRef (''Unknown provider prefix '' @ [CHR 0x22] @ pre @ [CHR 0x22] @ ''.''))"

definition resolve_alias :: "string \<Rightarrow> (string, string) js_map \<Rightarrow> string option" where
  "resolve_alias name aliases = jm_get aliases name"

definition model_key :: "resolved_model \<Rightarrow> string" where
  "model_key m = rm_provider_id m @ ''/'' @ rm_model_id m"

text \<open>The \<open>seen\<close> filter: the first model of each key stays.\<close>

fun unique_models :: "string list \<Rightarrow> resolved_model list \<Rightarrow> resolved_model list" where
  "unique_models seen [] = []"
| "unique_models seen (m # ms) =
     (if model_key m \<in> set seen then unique_models seen ms
      else m # unique_models (model_key m # seen) ms)"

definition chain_members :: "chain_result \<Rightarrow> resolved_model list" where
  "chain_members r = (case r of ChQualified m \<Rightarrow> [m] | ChCombo ms \<Rightarrow> ms | ChUnresolved \<Rightarrow> [])"

definition expand_combo ::
  "combo_definition \<Rightarrow> (string \<Rightarrow> chain_result) \<Rightarrow> affinity_key option \<Rightarrow> resolved_model list" where
  "expand_combo combo resolve_member affinity =
    (let members = concat (map (chain_members \<circ> resolve_member) (co_models combo));
         unique = unique_models [] members
     in if co_strategy combo = Fallback then unique
        else let order_key =
            (case affinity of
               Some k \<Rightarrow> if 0 < co_sticky_limit combo then affinity_key_string k else ''combo:'' @ co_id combo
             | None \<Rightarrow> ''combo:'' @ co_id combo)
          in order_by_rendezvous order_key unique model_key)"

text \<open>
  \<open>resolveInner(name, depth)\<close>, by the number of levels left: \<open>Suc n\<close> is depth
  \<open>MAX_MODEL_CHAIN_DEPTH - n\<close> and \<open>0\<close> the depth beyond the cap, so \<open>depth >= 7\<close> reads \<open>n \<le> 1\<close>.
\<close>

primrec resolve_inner :: "nat \<Rightarrow> reference_config \<Rightarrow> affinity_key option \<Rightarrow> string \<Rightarrow> chain_result" where
  "resolve_inner 0 cfg affinity name = ChUnresolved"
| "resolve_inner (Suc n) cfg affinity name =
    (case parse_model_reference name (cf_prefixes cfg) of
       Qualified p m \<Rightarrow> ChQualified \<lparr>rm_provider_id = p, rm_model_id = m\<rparr>
     | _ \<Rightarrow>
       (let resolved = (case resolve_alias name (cf_aliases cfg) of
              Some target \<Rightarrow> resolve_inner n cfg affinity target
            | None \<Rightarrow> ChUnresolved)
        in if resolved \<noteq> ChUnresolved then resolved
           else case jm_get (cf_combos cfg) name of
             Some combo \<Rightarrow>
               if n \<le> 1 then ChUnresolved
               else let candidates = expand_combo combo (resolve_inner n cfg affinity) affinity
                 in if candidates = [] then ChUnresolved else ChCombo candidates
           | None \<Rightarrow> ChUnresolved))"

definition resolve_model_chain :: "string \<Rightarrow> reference_config \<Rightarrow> affinity_key option \<Rightarrow> chain_result" where
  "resolve_model_chain raw cfg affinity = resolve_inner (Suc MAX_MODEL_CHAIN_DEPTH) cfg affinity raw"

subsection \<open>Model metadata\<close>

datatype reference_kind = RkModel | RkRouter | RkCombo

record resolved_metadata =
  rmd_kind :: reference_kind
  rmd_targets :: "resolved_model list"
  rmd_context :: context_limits
  rmd_categories :: "capability_category list"
  rmd_pricing :: token_pricing
  rmd_source :: metadata_source
  rmd_updated_at :: "string option"

definition CATEGORY_ORDER :: "capability_category list" where
  "CATEGORY_ORDER = [CcVision, CcText, CcReasoning]"

text \<open>\<open>if (x !== null && (best === null || x > best)) best = x\<close>\<close>

definition better :: "'a::ord option \<Rightarrow> 'a option \<Rightarrow> 'a option" where
  "better best x = (case x of
      None \<Rightarrow> best
    | Some v \<Rightarrow> (case best of None \<Rightarrow> Some v | Some b \<Rightarrow> if b < v then Some v else best))"

record metadata_acc =
  ma_input :: "rat option"
  ma_output :: "rat option"
  ma_input_price :: "rat option"
  ma_output_price :: "rat option"
  ma_updated :: "string option"
  ma_custom :: bool
  ma_categories :: "capability_category list"

definition metadata_acc_empty :: metadata_acc where
  "metadata_acc_empty = \<lparr>ma_input = None, ma_output = None, ma_input_price = None,
     ma_output_price = None, ma_updated = None, ma_custom = False, ma_categories = []\<rparr>"

definition metadata_acc_step :: "model_metadata \<Rightarrow> metadata_acc \<Rightarrow> metadata_acc" where
  "metadata_acc_step md acc = \<lparr>
     ma_input = better (ma_input acc) (cl_input_tokens (mm_context md)),
     ma_output = better (ma_output acc) (cl_output_tokens (mm_context md)),
     ma_input_price = better (ma_input_price acc) (tp_input (mm_pricing md)),
     ma_output_price = better (ma_output_price acc) (tp_output (mm_pricing md)),
     ma_updated = better (ma_updated acc) (mm_updated_at md),
     ma_custom = (ma_custom acc \<or> mm_source md = MsCustom),
     ma_categories = ma_categories acc @ filter (\<lambda>c. c \<in> set CATEGORY_ORDER) (mm_categories md)\<rparr>"

definition resolve_model_metadata ::
  "string \<Rightarrow> reference_config \<Rightarrow> (string \<Rightarrow> string \<Rightarrow> model_metadata option) \<Rightarrow> resolved_metadata option" where
  "resolve_model_metadata raw cfg lookup =
    (case resolve_model_chain raw cfg None of
       ChUnresolved \<Rightarrow> None
     | chain \<Rightarrow>
       (let targets = chain_members chain;
            kind = (if jm_has (cf_aliases cfg) raw then RkRouter
                    else if jm_has (cf_combos cfg) raw then RkCombo else RkModel);
            known = List.map_filter (\<lambda>t. lookup (rm_provider_id t) (rm_model_id t)) targets
        in if known = [] then None
           else let acc = fold metadata_acc_step known metadata_acc_empty
             in Some \<lparr>rmd_kind = kind, rmd_targets = targets,
                rmd_context = \<lparr>cl_input_tokens = ma_input acc, cl_output_tokens = ma_output acc\<rparr>,
                rmd_categories = filter (\<lambda>c. c \<in> set (ma_categories acc)) CATEGORY_ORDER,
                rmd_pricing = \<lparr>tp_input = ma_input_price acc, tp_output = ma_output_price acc\<rparr>,
                rmd_source = (if ma_custom acc then MsCustom else MsCatalog),
                rmd_updated_at = ma_updated acc\<rparr>))"

subsection \<open>The ordering is a sort by distinct keys\<close>

lemma rendezvous_score_range: "0 \<le> rendezvous_score key c \<and> rendezvous_score key c < 2 ^ 32"
  using uint_bounded [where ?'a = 32] by (simp add: rendezvous_score_def)

interpretation rendezvous: keyed_comparator "rendezvous_cmp key id_of" id_of
  for key :: string and id_of :: "'a \<Rightarrow> string"
proof unfold_locales
  fix x y z x' y' :: 'a
  show "rendezvous_cmp key id_of x y \<le> 0 \<or> rendezvous_cmp key id_of y x \<le> 0"
    by (auto simp: rendezvous_cmp_def Let_def)
  show "rendezvous_cmp key id_of x y \<le> 0 \<Longrightarrow> rendezvous_cmp key id_of y z \<le> 0 \<Longrightarrow>
      rendezvous_cmp key id_of x z \<le> 0"
    by (auto simp: rendezvous_cmp_def Let_def split: if_splits)
  show "rendezvous_cmp key id_of x y \<le> 0 \<Longrightarrow> rendezvous_cmp key id_of y x \<le> 0 \<Longrightarrow> id_of x = id_of y"
    by (auto simp: rendezvous_cmp_def Let_def split: if_splits)
  show "id_of x = id_of x' \<Longrightarrow> id_of y = id_of y' \<Longrightarrow>
      rendezvous_cmp key id_of x y = rendezvous_cmp key id_of x' y'"
    by (simp add: rendezvous_cmp_def)
qed

lemma order_by_rendezvous_mset [simp]: "mset (order_by_rendezvous key xs f) = mset xs"
  by (simp add: order_by_rendezvous_def)

lemma order_by_rendezvous_set [simp]: "set (order_by_rendezvous key xs f) = set xs"
  by (simp add: order_by_rendezvous_def)

lemma order_by_rendezvous_length [simp]: "length (order_by_rendezvous key xs f) = length xs"
  by (simp add: order_by_rendezvous_def)

lemma order_by_rendezvous_eqI:
  assumes "mset xs = mset ys" and "sorted_wrt (\<lambda>x y. rendezvous_cmp key f x y \<le> 0) ys"
    and "inj_on f (set xs)"
  shows "order_by_rendezvous key xs f = ys"
proof -
  have "map f (order_by_rendezvous key xs f) = map f ys"
    unfolding order_by_rendezvous_def
    using rendezvous.sorted_keys_unique [OF _ rendezvous.sort_sorted assms(2)] assms(1) by simp
  moreover have "set ys = set xs" using assms(1) by (metis set_mset_mset)
  ultimately show ?thesis
    using assms(3) by (simp add: inj_on_map_eq_map)
qed

lemma order_by_rendezvous_filter:
  assumes "inj_on f (set xs)"
  shows "order_by_rendezvous key (filter P xs) f = filter P (order_by_rendezvous key xs f)"
proof (rule order_by_rendezvous_eqI)
  show "mset (filter P xs) = mset (filter P (order_by_rendezvous key xs f))"
    by (simp add: mset_filter)
  show "sorted_wrt (\<lambda>x y. rendezvous_cmp key f x y \<le> 0) (filter P (order_by_rendezvous key xs f))"
    unfolding order_by_rendezvous_def by (intro sorted_wrt_filter rendezvous.sort_sorted)
  show "inj_on f (set (filter P xs))" using assms by (rule inj_on_subset) auto
qed

subsection \<open>Parsing\<close>

lemma parse_qualified:
  assumes "slash \<notin> set p" and "p \<noteq> []" and "m \<noteq> []" and "jm_get table p = Some provider"
  shows "parse_model_reference (p @ slash # m) table = Qualified provider m"
proof -
  have "takeWhile (\<lambda>c. c \<noteq> slash) (p @ slash # m) = p"
    using assms(1) by (subst takeWhile_append2) auto
  moreover have "dropWhile (\<lambda>c. c \<noteq> slash) (p @ slash # m) = slash # m"
    using assms(1) by (subst dropWhile_append2) auto
  ultimately show ?thesis using assms by (simp add: parse_model_reference_def)
qed

lemma parse_Qualified_parts:
  assumes "parse_model_reference name table = Qualified provider m"
  defines "p \<equiv> takeWhile (\<lambda>c. c \<noteq> slash) name" and "d \<equiv> dropWhile (\<lambda>c. c \<noteq> slash) name"
  shows "slash \<in> set name \<and> p \<noteq> [] \<and> m \<noteq> [] \<and> m = tl d \<and> jm_get table p = Some provider"
  using assms(1) unfolding parse_model_reference_def Let_def p_def [symmetric] d_def [symmetric]
  by (cases "slash \<in> set name"; cases "p = [] \<or> tl d = []"; cases "jm_get table p")
    (simp_all only: if_True if_False not_True_eq_False not_False_eq_True option.case
      parse_result.distinct parse_result.inject simp_thms, blast?)

lemma parse_QualifiedE:
  assumes "parse_model_reference name table = Qualified provider m"
  obtains p where "name = p @ slash # m" and "slash \<notin> set p" and "p \<noteq> []" and "m \<noteq> []"
    and "jm_get table p = Some provider"
proof -
  let ?p = "takeWhile (\<lambda>c. c \<noteq> slash) name" and ?d = "dropWhile (\<lambda>c. c \<noteq> slash) name"
  note parts = parse_Qualified_parts [OF assms]
  have "?d \<noteq> []"
  proof
    assume "?d = []"
    then have "\<forall>x \<in> set name. x \<noteq> slash" by (simp only: dropWhile_eq_Nil_conv)
    with parts show False by blast
  qed
  moreover from this have "hd ?d = slash" using hd_dropWhile [of "\<lambda>c. c \<noteq> slash" name] by blast
  ultimately have "?d = slash # tl ?d" by (metis list.collapse)
  moreover have "m = tl ?d" using parts by blast
  ultimately have "?d = slash # m" by (simp only:)
  then have "name = ?p @ slash # m" using takeWhile_dropWhile_id [of "\<lambda>c. c \<noteq> slash" name] by (simp only:)
  moreover have "slash \<notin> set ?p" using set_takeWhileD [of slash "\<lambda>c. c \<noteq> slash" name] by blast
  ultimately show ?thesis using that parts by blast
qed

subsection \<open>Resolution\<close>

lemma unique_models_keys:
  "distinct (map model_key (unique_models seen ms)) \<and>
   set (map model_key (unique_models seen ms)) \<inter> set seen = {}"
  by (induction seen ms rule: unique_models.induct) auto

lemma unique_models_subset: "set (unique_models seen ms) \<subseteq> set ms"
  by (induction seen ms rule: unique_models.induct) auto

lemma unique_models_complete:
  "m \<in> set ms \<Longrightarrow> model_key m \<in> set seen \<union> model_key ` set (unique_models seen ms)"
  by (induction seen ms rule: unique_models.induct) auto

lemma expand_combo_set:
  "set (expand_combo combo f affinity) \<subseteq> (\<Union>name \<in> set (co_models combo). set (chain_members (f name)))"
  using unique_models_subset [of "[]" "concat (map (chain_members \<circ> f) (co_models combo))"]
  by (auto simp: expand_combo_def Let_def split: option.splits if_splits)

lemma expand_combo_distinct: "distinct (map model_key (expand_combo combo f affinity))"
proof -
  let ?ms = "concat (map (chain_members \<circ> f) (co_models combo))"
  have u: "distinct (map model_key (unique_models [] ?ms))" using unique_models_keys by blast
  have "mset (expand_combo combo f affinity) = mset (unique_models [] ?ms)"
    by (auto simp: expand_combo_def Let_def split: option.splits)
  then show ?thesis using u by (metis mset_map mset_eq_imp_distinct_iff)
qed

definition model_known :: "reference_config \<Rightarrow> resolved_model \<Rightarrow> bool" where
  "model_known cfg m \<longleftrightarrow>
     rm_model_id m \<noteq> [] \<and> (\<exists>p. p \<noteq> [] \<and> slash \<notin> set p \<and> jm_get (cf_prefixes cfg) p = Some (rm_provider_id m))"

definition chain_ok :: "reference_config \<Rightarrow> chain_result \<Rightarrow> bool" where
  "chain_ok cfg r \<longleftrightarrow> (\<forall>m \<in> set (chain_members r). model_known cfg m) \<and>
     distinct (map model_key (chain_members r)) \<and> (r \<noteq> ChUnresolved \<longrightarrow> chain_members r \<noteq> [])"

lemma chain_ok_unresolved [simp]: "chain_ok cfg ChUnresolved"
  by (simp add: chain_ok_def chain_members_def)

lemma resolve_inner_ok: "chain_ok cfg (resolve_inner n cfg affinity name)"
proof (induction n arbitrary: name)
  case 0
  then show ?case by simp
next
  case (Suc n)
  have combo: "chain_ok cfg (ChCombo (expand_combo combo (resolve_inner n cfg affinity) affinity))"
    if "expand_combo combo (resolve_inner n cfg affinity) affinity \<noteq> []" for combo
    using that expand_combo_distinct expand_combo_set [of combo "resolve_inner n cfg affinity" affinity] Suc
    by (fastforce simp: chain_ok_def chain_members_def)
  show ?case
  proof (cases "parse_model_reference name (cf_prefixes cfg)")
    case (Qualified p m)
    then obtain q where "q \<noteq> []" "slash \<notin> set q" "m \<noteq> []" "jm_get (cf_prefixes cfg) q = Some p"
      by (rule parse_QualifiedE)
    then show ?thesis using Qualified by (auto simp: chain_ok_def chain_members_def model_known_def)
  qed (use Suc combo in \<open>auto simp: Let_def split: option.splits\<close>)
qed

text \<open>Names that only lead to one another, with no combo, are unresolved: alias loops end.\<close>

lemma alias_loop_unresolved:
  assumes "\<And>x. x \<in> N \<Longrightarrow> slash \<notin> set x \<and> jm_get (cf_combos cfg) x = None"
    and "\<And>x y. x \<in> N \<Longrightarrow> jm_get (cf_aliases cfg) x = Some y \<Longrightarrow> y \<in> N"
  shows "name \<in> N \<Longrightarrow> resolve_inner n cfg affinity name = ChUnresolved"
proof (induction n arbitrary: name)
  case 0
  then show ?case by simp
next
  case (Suc n)
  have "parse_model_reference name (cf_prefixes cfg) = Unqualified"
    using assms(1) Suc.prems by (simp add: parse_model_reference_def)
  then show ?case using Suc assms
    by (auto simp: resolve_alias_def Let_def split: option.splits)
qed

subsection \<open>Metadata\<close>

lemma better_SomeD: "better best x = Some v \<Longrightarrow> best = Some v \<or> x = Some v"
  by (auto simp: better_def split: option.splits if_splits)

lemma better_upper:
  fixes v :: "'a::linorder"
  shows "x = Some v \<or> best = Some v \<Longrightarrow> \<exists>w. better best x = Some w \<and> v \<le> w"
  by (auto simp: better_def split: option.splits)

text \<open>Folding \<open>better\<close> yields the maximum of the known values.\<close>

lemma fold_better_mem:
  "fold (\<lambda>m best. better best (f m)) ms best = Some v \<Longrightarrow> best = Some v \<or> (\<exists>m \<in> set ms. f m = Some v)"
  by (induction ms arbitrary: best) (auto dest: better_SomeD)

lemma fold_better_upper:
  fixes f :: "'m \<Rightarrow> 'a::linorder option"
  shows "best = Some v \<or> (\<exists>m \<in> set ms. f m = Some v) \<Longrightarrow>
    \<exists>w. fold (\<lambda>m best. better best (f m)) ms best = Some w \<and> v \<le> w"
proof (induction ms arbitrary: best v)
  case Nil
  then show ?case by auto
next
  case (Cons m ms)
  show ?case
  proof (cases "\<exists>m' \<in> set ms. f m' = Some v")
    case True
    then show ?thesis using Cons.IH [of "better best (f m)" v] by simp
  next
    case False
    then have "f m = Some v \<or> best = Some v" using Cons.prems by auto
    then obtain w where w: "better best (f m) = Some w" "v \<le> w" using better_upper by blast
    then show ?thesis using Cons.IH [of "better best (f m)" w] by (auto intro: order_trans)
  qed
qed

lemma acc_fields:
  "ma_input (fold metadata_acc_step ms acc) = fold (\<lambda>m b. better b (cl_input_tokens (mm_context m))) ms (ma_input acc)"
  "ma_output (fold metadata_acc_step ms acc) = fold (\<lambda>m b. better b (cl_output_tokens (mm_context m))) ms (ma_output acc)"
  "ma_input_price (fold metadata_acc_step ms acc) = fold (\<lambda>m b. better b (tp_input (mm_pricing m))) ms (ma_input_price acc)"
  "ma_output_price (fold metadata_acc_step ms acc) = fold (\<lambda>m b. better b (tp_output (mm_pricing m))) ms (ma_output_price acc)"
  "ma_custom (fold metadata_acc_step ms acc) \<longleftrightarrow> ma_custom acc \<or> (\<exists>m \<in> set ms. mm_source m = MsCustom)"
  by (induction ms arbitrary: acc) (auto simp: metadata_acc_step_def)

subsection \<open>Properties\<close>

text \<open>
  The rendezvous order is a function of the set of candidates: it permutes its input, the
  order the candidates come in does not matter, and removing candidates (a failed account, a
  disabled proxy) leaves the others in their order, so an affinity key moves only when its own
  candidate goes.
\<close>

theorem rendezvous_order_stable:
  assumes "inj_on id_of (set xs)" and "mset xs = mset ys"
  shows "mset (order_by_rendezvous key xs id_of) = mset xs \<and>
    order_by_rendezvous key xs id_of = order_by_rendezvous key ys id_of \<and>
    order_by_rendezvous key (filter P xs) id_of = filter P (order_by_rendezvous key xs id_of)"
proof (intro conjI)
  have "sorted_wrt (\<lambda>x y. rendezvous_cmp key id_of x y \<le> 0) (order_by_rendezvous key ys id_of)"
    unfolding order_by_rendezvous_def by (rule rendezvous.sort_sorted)
  then show "order_by_rendezvous key xs id_of = order_by_rendezvous key ys id_of"
    using assms by (intro order_by_rendezvous_eqI) simp_all
qed (simp_all add: order_by_rendezvous_filter [OF assms(1)])

theorem rendezvous_order_stable_witness:
  "order_by_rendezvous ''k'' [''b'', ''a'', ''c''] (\<lambda>x. x) = order_by_rendezvous ''k'' [''a'', ''b'', ''c''] (\<lambda>x. x)"
  using rendezvous_order_stable [of "\<lambda>x. x" "[''b'', ''a'', ''c'']" "[''a'', ''b'', ''c'']" "''k''" "\<lambda>x. True"]
  by simp

text \<open>
  C32: Resolving a requested model name always ends, and what it resolves to is usable: every target
  has a non-empty model id and a provider of the prefix table, no target occurs twice, and a
  resolved name has at least one target. Cyclic aliases and nested combos included.
\<close>

theorem resolve_model_chain_ok: "chain_ok cfg (resolve_model_chain name cfg affinity)"
  unfolding resolve_model_chain_def by (rule resolve_inner_ok)

text \<open>
  A provider-qualified name round-trips: parsing \<open>prefix/model\<close> with a registered prefix gives
  the provider and the model (which may contain slashes itself), and a name that parses as
  qualified is such a text.
\<close>

theorem parse_model_reference_roundtrip:
  "parse_model_reference name table = Qualified provider m \<longleftrightarrow>
   (\<exists>p. name = p @ slash # m \<and> slash \<notin> set p \<and> p \<noteq> [] \<and> m \<noteq> [] \<and> jm_get table p = Some provider)"
  using parse_qualified by (auto elim: parse_QualifiedE)

text \<open>
  The limits a combo or router name advertises are the best of its members: the context window
  of the resolved metadata is that of some known target, and no known target has a larger one.
\<close>

theorem metadata_context_is_maximum:
  assumes "resolve_model_metadata raw cfg lookup = Some r"
  shows "(\<forall>t md v. t \<in> set (rmd_targets r) \<and> lookup (rm_provider_id t) (rm_model_id t) = Some md \<and>
            cl_input_tokens (mm_context md) = Some v \<longrightarrow>
            (\<exists>w. cl_input_tokens (rmd_context r) = Some w \<and> v \<le> w)) \<and>
    (\<forall>w. cl_input_tokens (rmd_context r) = Some w \<longrightarrow>
       (\<exists>t md. t \<in> set (rmd_targets r) \<and> lookup (rm_provider_id t) (rm_model_id t) = Some md \<and>
          cl_input_tokens (mm_context md) = Some w))"
proof -
  let ?f = "\<lambda>m. cl_input_tokens (mm_context m)"
  define known where "known = List.map_filter (\<lambda>t. lookup (rm_provider_id t) (rm_model_id t)) (rmd_targets r)"
  have r: "cl_input_tokens (rmd_context r) = fold (\<lambda>m b. better b (?f m)) known None"
    using assms by (auto simp: resolve_model_metadata_def known_def acc_fields metadata_acc_empty_def
        Let_def split: chain_result.splits if_splits)
  have known: "md \<in> set known \<longleftrightarrow> (\<exists>t \<in> set (rmd_targets r). lookup (rm_provider_id t) (rm_model_id t) = Some md)" for md
    by (force simp: known_def List.map_filter_def)
  show ?thesis
  proof (intro conjI allI impI)
    fix t md v assume "t \<in> set (rmd_targets r) \<and> lookup (rm_provider_id t) (rm_model_id t) = Some md \<and> ?f md = Some v"
    then have "\<exists>m \<in> set known. ?f m = Some v" using known by blast
    then show "\<exists>w. cl_input_tokens (rmd_context r) = Some w \<and> v \<le> w"
      unfolding r by (intro fold_better_upper) blast
  next
    fix w assume "cl_input_tokens (rmd_context r) = Some w"
    then have "\<exists>m \<in> set known. ?f m = Some w" using fold_better_mem [of ?f known None w] by (simp add: r)
    then show "\<exists>t md. t \<in> set (rmd_targets r) \<and> lookup (rm_provider_id t) (rm_model_id t) = Some md \<and> ?f md = Some w"
      using known by blast
  qed
qed

definition sample_config :: reference_config where
  "sample_config = \<lparr>cf_prefixes = [(''openai'', ''openai'')], cf_aliases = [(''fast'', ''openai/mini'')], cf_combos = []\<rparr>"

definition sample_metadata :: model_metadata where
  "sample_metadata = \<lparr>
     mm_context = \<lparr>cl_input_tokens = Some 1000, cl_output_tokens = None\<rparr>, mm_categories = [CcText],
     mm_pricing = \<lparr>tp_input = None, tp_output = None\<rparr>, mm_source = MsCatalog, mm_updated_at = None\<rparr>"

theorem metadata_context_is_maximum_witness:
  "\<exists>w. cl_input_tokens (rmd_context (the (resolve_model_metadata ''fast'' sample_config (\<lambda>p m. Some sample_metadata)))) = Some w \<and>
     (1000 :: rat) \<le> w"
proof -
  have "\<exists>r. resolve_model_metadata ''fast'' sample_config (\<lambda>p m. Some sample_metadata) = Some r \<and>
      \<lparr>rm_provider_id = ''openai'', rm_model_id = ''mini''\<rparr> \<in> set (rmd_targets r)"
    by (simp add: resolve_model_metadata_def resolve_model_chain_def MAX_MODEL_CHAIN_DEPTH_def sample_config_def
        numeral_eq_Suc parse_model_reference_def slash_def resolve_alias_def jm_get_def jm_has_def chain_members_def
        List.map_filter_def Let_def)
  then obtain r where r: "resolve_model_metadata ''fast'' sample_config (\<lambda>p m. Some sample_metadata) = Some r"
    "\<lparr>rm_provider_id = ''openai'', rm_model_id = ''mini''\<rparr> \<in> set (rmd_targets r)" by blast
  show ?thesis using metadata_context_is_maximum [OF r(1)] r by (fastforce simp: sample_metadata_def)
qed

end
