(* ===== verification/RateLimit.thy ===== *)
theory RateLimit imports Contracts begin

text \<open>
  Rate-limit classification (\<open>src/domain/rate-limit.ts\<close>): which upstream messages mean that an
  account's quota is spent and which are transient, and the backoff of each class. The patterns
  are the file's regular expressions; \<open>Math.random()\<close> is the argument \<open>rnd\<close>, a rational in
  \<open>[0, 1)\<close>.
\<close>

datatype rate_reason =
    QUOTA_EXHAUSTED | RATE_LIMIT_EXCEEDED | MODEL_CAPACITY_EXHAUSTED | SERVER_ERROR | UNKNOWN

definition QUOTA_EXHAUSTED_BACKOFF_MS :: rat where "QUOTA_EXHAUSTED_BACKOFF_MS = 5 * 60 * 1000"

definition RATE_LIMIT_EXCEEDED_BACKOFF_MS :: rat where "RATE_LIMIT_EXCEEDED_BACKOFF_MS = 30 * 1000"

definition MODEL_CAPACITY_BASE_MS :: rat where "MODEL_CAPACITY_BASE_MS = 45 * 1000"

definition MODEL_CAPACITY_JITTER_MS :: rat where "MODEL_CAPACITY_JITTER_MS = 30 * 1000"

definition SERVER_ERROR_BACKOFF_MS :: rat where "SERVER_ERROR_BACKOFF_MS = 0"

definition UNKNOWN_BACKOFF_MS :: rat where "UNKNOWN_BACKOFF_MS = 0"

subsection \<open>Patterns\<close>

definition not_newline :: rx where
  "not_newline = Cls (\<lambda>c. char_code c \<noteq> 10)"

text \<open>\<open>rate.?limit\<close>\<close>

definition rate_limit_rx :: rx where
  "rate_limit_rx = rx_seq [lit_ci ''rate'', rx_opt any_char, lit_ci ''limit'']"

definition ACCOUNT_RATE_LIMIT_PATTERN :: rx where
  "ACCOUNT_RATE_LIMIT_PATTERN = rx_alts
    [rx_seq [WordB, lit_ci ''account'', rx_opt (lit_ci [CHR 0x27, CHR ''s'']), WordB,
             rx_upto 80 not_newline, WordB, rate_limit_rx, WordB],
     rx_seq [WordB, rate_limit_rx, WordB, rx_upto 80 not_newline, WordB, lit_ci ''account'', WordB]]"

definition INSUFFICIENT_BALANCE_PATTERN :: rx where
  "INSUFFICIENT_BALANCE_PATTERN = rx_seq [lit_ci ''insufficient'', rx_opt any_char, lit_ci ''balance'']"

definition SPEND_LIMIT_PATTERN :: rx where
  "SPEND_LIMIT_PATTERN = rx_seq [lit_ci ''spend'', rx_opt any_char, lit_ci ''limit'']"

definition OPENROUTER_DAILY_FREE_LIMIT_PATTERN :: rx where
  "OPENROUTER_DAILY_FREE_LIMIT_PATTERN = rx_seq
    [WordB, lit_ci ''free'', one_of ''-_ '', lit_ci ''models'', one_of ''-_ '', lit_ci ''per'',
     one_of ''-_ '', lit_ci ''day'', WordB]"

definition USAGE_LIMIT_PATTERN :: rx where
  "USAGE_LIMIT_PATTERN = rx_alts
    [rx_seq [lit_ci ''usage'', rx_opt any_char, lit_ci ''limit''],
     lit_ci ''usage_limit_reached'',
     lit_ci ''usage_not_included'',
     lit_ci ''limit_reached'',
     rx_seq [lit_ci ''quota'', rx_opt any_char,
             rx_alts [lit_ci ''exceeded'', lit_ci ''reached'', lit_ci ''insufficient'']],
     rx_seq [lit_ci ''resource'', rx_opt any_char, lit_ci ''exhausted''],
     lit_ci ''exhausted your capacity'',
     lit_ci ''quota will reset'',
     rx_seq [lit_ci ''insufficient'', rx_opt any_char, rx_alts [lit_ci ''balance'', lit_ci ''quota'']],
     rx_seq [lit_ci ''balance'', rx_opt any_char, lit_ci ''exhausted''],
     lit_ci ''run out of credits'',
     lit_ci ''out of credits'',
     rx_seq [lit_ci ''spending'', rx_opt (one_of ''- _''), lit_ci ''limit''],
     lit_ci ''personal-team-blocked'']"

subsection \<open>Classification\<close>

definition includes_any :: "string \<Rightarrow> string list \<Rightarrow> bool" where
  "includes_any s needles = list_ex (str_includes s) needles"

definition parse_rate_limit_reason :: "string \<Rightarrow> rate_reason" where
  "parse_rate_limit_reason msg =
    (let lower = to_lower msg in
     if includes_any lower [''quota will reset'', ''exhausted your capacity''] then QUOTA_EXHAUSTED
     else if includes_any lower [''capacity'', ''overloaded'', ''529'', ''503'', ''resource exhausted'']
       then MODEL_CAPACITY_EXHAUSTED
     else if rx_test ACCOUNT_RATE_LIMIT_PATTERN msg then QUOTA_EXHAUSTED
     else if rx_test SPEND_LIMIT_PATTERN msg then QUOTA_EXHAUSTED
     else if rx_test OPENROUTER_DAILY_FREE_LIMIT_PATTERN msg then QUOTA_EXHAUSTED
     else if includes_any lower [''per minute'', ''rate limit'', ''too many requests''] then RATE_LIMIT_EXCEEDED
     else if includes_any lower
         [''exhausted'', ''quota'', ''usage limit'', ''usage_limit'', ''run out of credits'',
          ''out of credits'', ''spending-limit'', ''spending limit''] \<or>
         rx_test INSUFFICIENT_BALANCE_PATTERN msg then QUOTA_EXHAUSTED
     else if includes_any lower [''500'', ''internal error'', ''internal server error''] then SERVER_ERROR
     else UNKNOWN)"

definition calculate_backoff_ms :: "rat \<Rightarrow> rate_reason \<Rightarrow> rat" where
  "calculate_backoff_ms rnd reason = (case reason of
      QUOTA_EXHAUSTED \<Rightarrow> QUOTA_EXHAUSTED_BACKOFF_MS
    | RATE_LIMIT_EXCEEDED \<Rightarrow> RATE_LIMIT_EXCEEDED_BACKOFF_MS
    | MODEL_CAPACITY_EXHAUSTED \<Rightarrow> MODEL_CAPACITY_BASE_MS + rnd * MODEL_CAPACITY_JITTER_MS
    | SERVER_ERROR \<Rightarrow> SERVER_ERROR_BACKOFF_MS
    | UNKNOWN \<Rightarrow> UNKNOWN_BACKOFF_MS)"

definition is_usage_limit_status :: "int option \<Rightarrow> bool" where
  "is_usage_limit_status status \<longleftrightarrow> status = Some 429 \<or> status = Some 402"

definition status_digits_rx :: rx where
  "status_digits_rx = rx_seq [WordB, rx_alts [lit ''429'', lit ''402''], WordB]"

definition framing_rx :: rx where
  "framing_rx = rx_seq [WordB,
     rx_alts [lit_ci ''http'', lit_ci ''https'', lit_ci ''status'', lit_ci ''error'', lit_ci ''code'',
              lit_ci ''response'', lit_ci ''message''], WordB]"

definition is_alnum_char :: "char \<Rightarrow> bool" where
  "is_alnum_char c \<longleftrightarrow> is_word_char c \<and> c \<noteq> CHR ''_''"

definition is_opaque_status_body :: "string \<Rightarrow> bool" where
  "is_opaque_status_body msg =
    (let cleaned = rx_replace framing_rx [] (rx_replace status_digits_rx [] msg)
     in \<not> rx_test (rx_times 3 (Cls is_alnum_char)) cleaned)"

definition matches_usage_limit_text :: "string \<Rightarrow> bool" where
  "matches_usage_limit_text msg \<longleftrightarrow>
     rx_test USAGE_LIMIT_PATTERN msg \<or> rx_test SPEND_LIMIT_PATTERN msg \<or>
     rx_test ACCOUNT_RATE_LIMIT_PATTERN msg \<or> rx_test OPENROUTER_DAILY_FREE_LIMIT_PATTERN msg"

text \<open>An absent message and the empty string are both falsy.\<close>

definition is_usage_limit_outcome :: "int option \<Rightarrow> string option \<Rightarrow> bool" where
  "is_usage_limit_outcome status msg =
    (let m = or_empty msg in
     if m \<noteq> [] \<and> matches_usage_limit_text m then True
     else if \<not> is_usage_limit_status status then False
     else if m = [] \<or> is_opaque_status_body m then False
     else parse_rate_limit_reason m = QUOTA_EXHAUSTED)"

subsection \<open>Lemmas\<close>

lemma to_lower_append: "to_lower (s @ t) = to_lower s @ to_lower t"
  by (simp add: to_lower_def)

lemma includes_anyI: "n \<in> set needles \<Longrightarrow> str_includes s n \<Longrightarrow> includes_any s needles"
  by (auto simp: includes_any_def list_ex_iff)

lemma capacity_not_rotated:
  assumes "includes_any (to_lower msg) [''capacity'', ''overloaded'', ''529'', ''503'']"
    and "\<not> str_includes (to_lower msg) ''quota will reset''"
    and "\<not> str_includes (to_lower msg) ''exhausted your capacity''"
  shows "parse_rate_limit_reason msg = MODEL_CAPACITY_EXHAUSTED"
  using assms by (auto simp: parse_rate_limit_reason_def includes_any_def Let_def)

lemma calculate_backoff_bounds:
  assumes "0 \<le> rnd" and "rnd < 1"
  shows "0 \<le> calculate_backoff_ms rnd r" and "calculate_backoff_ms rnd r \<le> 300000"
  using assms by (cases r; simp add: calculate_backoff_ms_def QUOTA_EXHAUSTED_BACKOFF_MS_def
      RATE_LIMIT_EXCEEDED_BACKOFF_MS_def MODEL_CAPACITY_BASE_MS_def MODEL_CAPACITY_JITTER_MS_def
      SERVER_ERROR_BACKOFF_MS_def UNKNOWN_BACKOFF_MS_def)+

lemma known_reason_backoff:
  assumes "0 \<le> rnd" and "r \<noteq> UNKNOWN" and "r \<noteq> SERVER_ERROR"
  shows "30000 \<le> calculate_backoff_ms rnd r"
  using assms by (cases r) (simp_all add: calculate_backoff_ms_def QUOTA_EXHAUSTED_BACKOFF_MS_def
      RATE_LIMIT_EXCEEDED_BACKOFF_MS_def MODEL_CAPACITY_BASE_MS_def MODEL_CAPACITY_JITTER_MS_def)

lemma usage_limit_outcome_iff:
  "is_usage_limit_outcome status msg \<longleftrightarrow>
     (\<exists>m. msg = Some m \<and> m \<noteq> [] \<and>
       (matches_usage_limit_text m \<or>
        (status = Some 429 \<or> status = Some 402) \<and> \<not> is_opaque_status_body m \<and>
          parse_rate_limit_reason m = QUOTA_EXHAUSTED))"
  by (cases msg) (auto simp: is_usage_limit_outcome_def is_usage_limit_status_def or_empty_def Let_def)

subsection \<open>Where the code departs from its comments\<close>

text \<open>The file's comments promise other constants, and rotation on an opaque body.\<close>

lemma backoff_constants_differ:
  "QUOTA_EXHAUSTED_BACKOFF_MS \<noteq> 30 * 60 * 1000 \<and> SERVER_ERROR_BACKOFF_MS \<noteq> 20 * 1000 \<and>
   UNKNOWN_BACKOFF_MS \<noteq> 5 * 60 * 1000"
  by (simp add: QUOTA_EXHAUSTED_BACKOFF_MS_def SERVER_ERROR_BACKOFF_MS_def UNKNOWN_BACKOFF_MS_def)

lemma opaque_body_not_rotated: "\<not> is_usage_limit_outcome (Some 429) None"
  by (simp add: usage_limit_outcome_iff)

end
