(* ===== verification/Cooldown.thy ===== *)
theory Cooldown imports RateLimit begin

text \<open>
  Cooldown policies (\<open>src/traffic/network.ts\<close>, the policy half): how long an account or proxy is
  taken out after a failure, and what a health record means for routing. Delays are rationals in
  milliseconds because the jitter is; \<open>rnd\<close> is the value of \<open>Math.random()\<close> in \<open>[0, 1)\<close>, one
  argument per call since each call draws at most once.
\<close>

record cooldown_policy =
  cp_default_ms :: rat
  cp_base_ms :: rat
  cp_cap_ms :: rat

definition ACCOUNT_RATE_LIMIT_COOLDOWN_MS :: rat where "ACCOUNT_RATE_LIMIT_COOLDOWN_MS = 5 * 60000"

definition ACCOUNT_QUOTA_COOLDOWN_MS :: rat where "ACCOUNT_QUOTA_COOLDOWN_MS = 5 * 60000"

definition ACCOUNT_AUTH_BACKOFF_BASE_MS :: rat where "ACCOUNT_AUTH_BACKOFF_BASE_MS = 2000"

definition ACCOUNT_AUTH_BACKOFF_CAP_MS :: rat where "ACCOUNT_AUTH_BACKOFF_CAP_MS = 5 * 60000"

definition PROXY_RATE_LIMIT_COOLDOWN_MS :: rat where "PROXY_RATE_LIMIT_COOLDOWN_MS = 60 * 60000"

definition PROXY_AUTH_BACKOFF_BASE_MS :: rat where "PROXY_AUTH_BACKOFF_BASE_MS = 2000"

definition PROXY_AUTH_BACKOFF_CAP_MS :: rat where "PROXY_AUTH_BACKOFF_CAP_MS = 5 * 60000"

definition RATE_LIMIT_GRADUATED_BASE_MS :: rat where "RATE_LIMIT_GRADUATED_BASE_MS = 30000"

definition RATE_LIMIT_GRADUATED_THRESHOLD :: int where "RATE_LIMIT_GRADUATED_THRESHOLD = 3"

definition ACCOUNT_RATE_LIMIT_POLICY :: cooldown_policy where
  "ACCOUNT_RATE_LIMIT_POLICY = \<lparr>cp_default_ms = ACCOUNT_RATE_LIMIT_COOLDOWN_MS,
     cp_base_ms = ACCOUNT_AUTH_BACKOFF_BASE_MS, cp_cap_ms = ACCOUNT_RATE_LIMIT_COOLDOWN_MS\<rparr>"

definition ACCOUNT_QUOTA_POLICY :: cooldown_policy where
  "ACCOUNT_QUOTA_POLICY = \<lparr>cp_default_ms = ACCOUNT_QUOTA_COOLDOWN_MS,
     cp_base_ms = ACCOUNT_AUTH_BACKOFF_BASE_MS, cp_cap_ms = ACCOUNT_QUOTA_COOLDOWN_MS\<rparr>"

definition ACCOUNT_BACKOFF_POLICY :: cooldown_policy where
  "ACCOUNT_BACKOFF_POLICY = \<lparr>cp_default_ms = 0,
     cp_base_ms = ACCOUNT_AUTH_BACKOFF_BASE_MS, cp_cap_ms = ACCOUNT_AUTH_BACKOFF_CAP_MS\<rparr>"

definition PROXY_RATE_LIMIT_POLICY :: cooldown_policy where
  "PROXY_RATE_LIMIT_POLICY = \<lparr>cp_default_ms = PROXY_RATE_LIMIT_COOLDOWN_MS,
     cp_base_ms = PROXY_AUTH_BACKOFF_BASE_MS, cp_cap_ms = PROXY_RATE_LIMIT_COOLDOWN_MS\<rparr>"

definition PROXY_BACKOFF_POLICY :: cooldown_policy where
  "PROXY_BACKOFF_POLICY = \<lparr>cp_default_ms = 0,
     cp_base_ms = PROXY_AUTH_BACKOFF_BASE_MS, cp_cap_ms = PROXY_AUTH_BACKOFF_CAP_MS\<rparr>"

definition TRANSIENT_ERROR_KINDS :: "error_kind list" where
  "TRANSIENT_ERROR_KINDS = [ProviderUnavailable, ProviderProtocolError, StreamTimeout,
     StreamTruncated, NetworkUnavailable, InternalError]"

definition is_transient_error_kind :: "error_kind \<Rightarrow> bool" where
  "is_transient_error_kind k \<longleftrightarrow> k \<in> set TRANSIENT_ERROR_KINDS"

definition account_cooldown_policy_for :: "error_kind \<Rightarrow> cooldown_policy" where
  "account_cooldown_policy_for k =
    (if k = ProviderRateLimited then ACCOUNT_RATE_LIMIT_POLICY
     else if k = QuotaExceeded then ACCOUNT_QUOTA_POLICY
     else ACCOUNT_BACKOFF_POLICY)"

definition proxy_cooldown_policy_for :: "error_kind \<Rightarrow> cooldown_policy" where
  "proxy_cooldown_policy_for k =
    (if k = ProviderRateLimited then PROXY_RATE_LIMIT_POLICY
     else if k = QuotaExceeded then PROXY_RATE_LIMIT_POLICY
     else PROXY_BACKOFF_POLICY)"

text \<open>\<open>2 ** (attempt - 1)\<close> stops being finite at \<open>2 ** 1024\<close>.\<close>

definition exponential_backoff_ms :: "rat \<Rightarrow> rat \<Rightarrow> int \<Rightarrow> rat \<Rightarrow> rat" where
  "exponential_backoff_ms rnd base attempt cap =
    (if attempt \<le> 1 then min cap base
     else let raw = min cap (if attempt - 1 < 1024 then base * 2 ^ nat (attempt - 1) else cap);
              jitter = raw * (1 / 4) * (rnd * 2 - 1)
          in max base (min cap (of_int (js_round (raw + jitter)))))"

definition bounded_retry_delay_ms :: "string option \<Rightarrow> int \<Rightarrow> rat \<Rightarrow> rat option" where
  "bounded_retry_delay_ms retry_at now_ms cap =
    (case retry_at of
       None \<Rightarrow> None
     | Some s \<Rightarrow>
       (case parse_iso s of
          None \<Rightarrow> None
        | Some at_ms \<Rightarrow>
          (let delay = of_int (at_ms - now_ms)
           in if delay < 0 \<or> cap < delay then None else Some delay)))"

definition cooldown_delay_ms ::
  "rat \<Rightarrow> call_error \<Rightarrow> cooldown_policy \<Rightarrow> int \<Rightarrow> int \<Rightarrow> rat" where
  "cooldown_delay_ms rnd err policy failures now_ms =
    (if \<not> ce_retryable err then 0
     else if is_transient_error_kind (ce_kind err) then 0
     else case bounded_retry_delay_ms (ce_retry_at err) now_ms (cp_cap_ms policy) of
       Some delay \<Rightarrow> delay
     | None \<Rightarrow>
       if 0 < cp_default_ms policy then
         (let reason = parse_rate_limit_reason (ce_message err)
          in if reason = QUOTA_EXHAUSTED
               then min (calculate_backoff_ms rnd reason) (cp_default_ms policy)
             else if reason = MODEL_CAPACITY_EXHAUSTED
               then min (calculate_backoff_ms rnd reason) (cp_default_ms policy)
             else if reason = RATE_LIMIT_EXCEEDED
               then min (calculate_backoff_ms rnd reason) (cp_default_ms policy)
             else if RATE_LIMIT_GRADUATED_THRESHOLD \<le> failures then cp_default_ms policy
             else min (cp_default_ms policy)
               (exponential_backoff_ms rnd RATE_LIMIT_GRADUATED_BASE_MS failures (cp_default_ms policy)))
       else exponential_backoff_ms rnd (cp_base_ms policy) failures (cp_cap_ms policy))"

record error_options =
  eo_status_code :: "int option"
  eo_retryable :: "bool option"
  eo_route_scope :: "error_scope option"
  eo_retry_at :: "string option"

definition no_options :: error_options where
  "no_options = \<lparr>eo_status_code = None, eo_retryable = None, eo_route_scope = None, eo_retry_at = None\<rparr>"

definition make_provider_error :: "error_kind \<Rightarrow> string \<Rightarrow> error_options \<Rightarrow> call_error" where
  "make_provider_error k msg opts = \<lparr>
     ce_status_code = eo_status_code opts,
     ce_kind = k,
     ce_retryable = (case eo_retryable opts of None \<Rightarrow> False | Some b \<Rightarrow> b),
     ce_route_scope = eo_route_scope opts,
     ce_source = derive_error_source k (eo_route_scope opts),
     ce_message = sanitize_message (ThrownString msg),
     ce_retry_at = eo_retry_at opts\<rparr>"

definition network_unavailable_error :: "string \<Rightarrow> string option \<Rightarrow> call_error" where
  "network_unavailable_error provider_id retry_at =
     make_provider_error NetworkUnavailable
       (''No outbound network path available for provider '' @ provider_id)
       (no_options\<lparr>eo_retryable := Some True, eo_route_scope := Some ScProxy, eo_retry_at := retry_at\<rparr>)"

text \<open>
  The health view shared by account and proxy records. A proxy or account record extends it.
\<close>

record health_view =
  hv_status :: route_status
  hv_status_code :: "int option"
  hv_failure_kind :: "error_kind option"
  hv_message :: "string option"
  hv_occurred_at :: "string option"
  hv_retry_at :: "string option"
  hv_disabled_until :: "rat option"

definition is_record_usable :: "'a health_view_scheme \<Rightarrow> int \<Rightarrow> bool" where
  "is_record_usable r now_ms =
    (if hv_status r = StHealthy then True
     else if hv_status r = StDisabled then False
     else if hv_status r = StError then True
     else if hv_status r = StCoolingDown
       then (case hv_disabled_until r of None \<Rightarrow> True | Some until \<Rightarrow> until \<le> of_int now_ms)
     else True)"

definition derive_route_health :: "'a health_view_scheme \<Rightarrow> route_scope \<Rightarrow> int \<Rightarrow> route_health" where
  "derive_route_health r scope now_ms =
    (let cooling = (case hv_disabled_until r of None \<Rightarrow> False | Some until \<Rightarrow> of_int now_ms < until);
         status = (if cooling then StCoolingDown
                   else if hv_status r = StDisabled then StDisabled
                   else if hv_status r = StError then StError
                   else StHealthy);
         active = (cooling \<or> status \<noteq> StHealthy)
     in \<lparr>rh_scope = scope,
         rh_status = status,
         rh_status_code = (if active then hv_status_code r else None),
         rh_failure_kind = (if active then map_option kind_name (hv_failure_kind r) else None),
         rh_message = (if active then hv_message r else None),
         rh_occurred_at = (if active then hv_occurred_at r else None),
         rh_retry_at = (if cooling then hv_retry_at r else None)\<rparr>)"

subsection \<open>Lemmas\<close>

lemmas policy_defs =
  ACCOUNT_RATE_LIMIT_POLICY_def ACCOUNT_QUOTA_POLICY_def ACCOUNT_BACKOFF_POLICY_def
  PROXY_RATE_LIMIT_POLICY_def PROXY_BACKOFF_POLICY_def
  ACCOUNT_RATE_LIMIT_COOLDOWN_MS_def ACCOUNT_QUOTA_COOLDOWN_MS_def ACCOUNT_AUTH_BACKOFF_BASE_MS_def
  ACCOUNT_AUTH_BACKOFF_CAP_MS_def PROXY_RATE_LIMIT_COOLDOWN_MS_def PROXY_AUTH_BACKOFF_BASE_MS_def
  PROXY_AUTH_BACKOFF_CAP_MS_def RATE_LIMIT_GRADUATED_BASE_MS_def RATE_LIMIT_GRADUATED_THRESHOLD_def

text \<open>What every policy of the file satisfies.\<close>

definition policy_ok :: "cooldown_policy \<Rightarrow> bool" where
  "policy_ok p \<longleftrightarrow> 0 \<le> cp_default_ms p \<and> cp_default_ms p \<le> cp_cap_ms p \<and>
     0 < cp_base_ms p \<and> cp_base_ms p \<le> cp_cap_ms p \<and>
     (0 < cp_default_ms p \<longrightarrow> RATE_LIMIT_GRADUATED_BASE_MS \<le> cp_default_ms p)"

lemma policies_ok [simp]: "policy_ok (account_cooldown_policy_for k)" "policy_ok (proxy_cooldown_policy_for k)"
  by (simp_all add: policy_ok_def account_cooldown_policy_for_def proxy_cooldown_policy_for_def policy_defs)

lemma exponential_backoff_bounds:
  assumes "base \<le> cap"
  shows "base \<le> exponential_backoff_ms rnd base attempt cap"
    and "exponential_backoff_ms rnd base attempt cap \<le> cap"
  using assms by (simp_all add: exponential_backoff_ms_def Let_def)

lemma bounded_retry_delay_bounds:
  assumes "bounded_retry_delay_ms retry_at now_ms cap = Some d"
  shows "0 \<le> d" and "d \<le> cap"
  using assms by (auto simp: bounded_retry_delay_ms_def Let_def split: option.splits if_splits)

lemma cooldown_delay_bounds:
  assumes "policy_ok p" and "0 \<le> rnd" and "rnd < 1"
  shows "0 \<le> cooldown_delay_ms rnd err p failures now_ms"
    and "cooldown_delay_ms rnd err p failures now_ms \<le> cp_cap_ms p"
proof -
  have p: "0 \<le> cp_default_ms p" "cp_default_ms p \<le> cp_cap_ms p" "0 < cp_base_ms p"
      "cp_base_ms p \<le> cp_cap_ms p"
    using assms(1) by (simp_all add: policy_ok_def)
  have base: "0 \<le> RATE_LIMIT_GRADUATED_BASE_MS" by (simp add: policy_defs)
  have e1: "0 \<le> exponential_backoff_ms rnd (cp_base_ms p) failures (cp_cap_ms p)"
      "exponential_backoff_ms rnd (cp_base_ms p) failures (cp_cap_ms p) \<le> cp_cap_ms p"
    using exponential_backoff_bounds [OF p(4), of rnd failures] p(3) by linarith+
  have e2: "0 < cp_default_ms p \<Longrightarrow>
      0 \<le> exponential_backoff_ms rnd RATE_LIMIT_GRADUATED_BASE_MS failures (cp_default_ms p)"
    using exponential_backoff_bounds(1) [of RATE_LIMIT_GRADUATED_BASE_MS "cp_default_ms p" rnd failures]
      assms(1) base by (auto simp: policy_ok_def)
  note c = calculate_backoff_bounds [OF assms(2,3)]
  show "0 \<le> cooldown_delay_ms rnd err p failures now_ms"
    using p e1 e2 c(1) bounded_retry_delay_bounds(1)
    by (auto simp: cooldown_delay_ms_def Let_def split: option.split)
  show "cooldown_delay_ms rnd err p failures now_ms \<le> cp_cap_ms p"
    using p e1 bounded_retry_delay_bounds(2)
    by (auto simp: cooldown_delay_ms_def Let_def min_le_iff_disj split: option.split)
qed

lemma cooldown_delay_none:
  "\<not> ce_retryable err \<or> is_transient_error_kind (ce_kind err) \<Longrightarrow>
   cooldown_delay_ms rnd err p failures now_ms = 0"
  by (auto simp: cooldown_delay_ms_def)

lemma cooldown_delay_retry_after:
  assumes "ce_retryable err" and "\<not> is_transient_error_kind (ce_kind err)"
    and "bounded_retry_delay_ms (ce_retry_at err) now_ms (cp_cap_ms p) = Some d"
  shows "cooldown_delay_ms rnd err p failures now_ms = d"
  using assms by (simp add: cooldown_delay_ms_def)

text \<open>A rate limit or a spent quota keeps the route out for at least half a minute.\<close>

lemma cooldown_delay_floor:
  assumes "ce_retryable err" and "\<not> is_transient_error_kind (ce_kind err)"
    and "bounded_retry_delay_ms (ce_retry_at err) now_ms (cp_cap_ms p) = None"
    and "policy_ok p" and "0 < cp_default_ms p" and "0 \<le> rnd"
  shows "30000 \<le> cooldown_delay_ms rnd err p failures now_ms"
proof -
  have d: "30000 \<le> cp_default_ms p"
    using assms(4,5) by (simp add: policy_ok_def policy_defs)
  have e: "30000 \<le> exponential_backoff_ms rnd RATE_LIMIT_GRADUATED_BASE_MS failures (cp_default_ms p)"
    using exponential_backoff_bounds(1) [of RATE_LIMIT_GRADUATED_BASE_MS "cp_default_ms p" rnd failures] d
    by (simp add: policy_defs)
  show ?thesis
    using assms(1-3,5) d e known_reason_backoff [OF assms(6)]
    by (auto simp: cooldown_delay_ms_def Let_def)
qed

lemma usable_or_cooling:
  assumes "hv_status r = StCoolingDown"
  shows "is_record_usable r now_ms \<longleftrightarrow> rh_status (derive_route_health r scope now_ms) \<noteq> StCoolingDown"
  using assms by (auto simp: is_record_usable_def derive_route_health_def Let_def not_less split: option.splits)

lemma derive_route_health_healthy:
  assumes "rh_status (derive_route_health r scope now_ms) = StHealthy"
  shows "derive_route_health r scope now_ms = \<lparr>rh_scope = scope, rh_status = StHealthy,
    rh_status_code = None, rh_failure_kind = None, rh_message = None, rh_occurred_at = None,
    rh_retry_at = None\<rparr>"
  using assms by (auto simp: derive_route_health_def Let_def split: if_splits option.splits)

subsection \<open>Properties\<close>

text \<open>
  A cooldown never exceeds the cap of its policy and is never negative; errors that are not
  retryable or are transient do not cool a route down at all; and any other error under a policy
  with a default cools it down for at least thirty seconds unless the error names its own retry
  time.
\<close>

theorem cooldown_delay_correct:
  assumes "policy = account_cooldown_policy_for k \<or> policy = proxy_cooldown_policy_for k"
    and "0 \<le> rnd" and "rnd < 1"
  shows "0 \<le> cooldown_delay_ms rnd err policy failures now_ms \<and>
    cooldown_delay_ms rnd err policy failures now_ms \<le> cp_cap_ms policy \<and>
    (\<not> ce_retryable err \<or> is_transient_error_kind (ce_kind err) \<longrightarrow>
       cooldown_delay_ms rnd err policy failures now_ms = 0) \<and>
    (ce_retryable err \<and> \<not> is_transient_error_kind (ce_kind err) \<and> 0 < cp_default_ms policy \<and>
     bounded_retry_delay_ms (ce_retry_at err) now_ms (cp_cap_ms policy) = None \<longrightarrow>
       30000 \<le> cooldown_delay_ms rnd err policy failures now_ms)"
proof -
  have ok: "policy_ok policy" using assms(1) policies_ok by blast
  show ?thesis
    using cooldown_delay_bounds [OF ok assms(2,3)] cooldown_delay_none cooldown_delay_floor [OF _ _ _ ok _ assms(2)]
    by blast
qed

theorem cooldown_delay_correct_witness:
  "0 \<le> cooldown_delay_ms (1 / 2) (make_provider_error ProviderRateLimited ''slow down'' (no_options\<lparr>eo_retryable := Some True\<rparr>))
         (account_cooldown_policy_for ProviderRateLimited) 1 0"
  using cooldown_delay_correct [of "account_cooldown_policy_for ProviderRateLimited" ProviderRateLimited "1 / 2"
      "make_provider_error ProviderRateLimited ''slow down'' (no_options\<lparr>eo_retryable := Some True\<rparr>)" 1 0]
  by simp

end
