(* ===== verification/Health.thy ===== *)
theory Health imports Cooldown begin

text \<open>
  Route health: the in-memory stores of \<open>src/auth/credentials.ts\<close>, its \<open>AccountHealthManager\<close>,
  the \<open>ProxyHealthManager\<close> of \<open>src/traffic/network.ts\<close> and the sweep of
  \<open>src/app/recovery-sweep.ts\<close>. A store is an insertion-ordered map from its key to records. A
  manager's read-modify-write of one record is one step; the sweep, which reads all records first
  and writes them later, is two.
\<close>

subsection \<open>Stores\<close>

text \<open>What a manager relies on: a record put under its key is what the next read of that key finds.\<close>

locale record_store =
  fixes get :: "'k \<Rightarrow> 's \<Rightarrow> 'r option"
    and put :: "'r \<Rightarrow> 's \<Rightarrow> 's"
    and rkey :: "'r \<Rightarrow> 'k"
  assumes get_put: "get k (put r s) = (if k = rkey r then Some r else get k s)"
begin

lemma get_puts_other: "\<forall>r \<in> set rs. rkey r \<noteq> k \<Longrightarrow> get k (fold put rs s) = get k s"
  by (induction rs arbitrary: s) (auto simp: get_put)

lemma get_puts_distinct:
  "r \<in> set rs \<Longrightarrow> distinct (map rkey rs) \<Longrightarrow> get (rkey r) (fold put rs s) = Some r"
proof (induction rs arbitrary: s)
  case Nil
  then show ?case by simp
next
  case (Cons q rs)
  show ?case
  proof (cases "r = q")
    case True
    then have "\<forall>p \<in> set rs. rkey p \<noteq> rkey r" using Cons.prems by (auto simp: image_iff)
    then show ?thesis using True get_puts_other [of rs "rkey r" "put r s"] by (simp add: get_put)
  next
    case False
    then show ?thesis using Cons by simp
  qed
qed

lemma put_commute: "rkey r \<noteq> rkey q \<Longrightarrow> get k (put r (put q s)) = get k (put q (put r s))"
  by (auto simp: get_put)

end

record account_health = health_view +
  ahr_account_id :: string
  ahr_provider_id :: string
  ahr_failure_count :: int
  ahr_generation :: int

type_synonym account_store = "(string, account_health) js_map"

definition account_store_get :: "string \<Rightarrow> account_store \<Rightarrow> account_health option" where
  "account_store_get account_id s = jm_get s account_id"

definition account_store_set :: "account_health \<Rightarrow> account_store \<Rightarrow> account_store" where
  "account_store_set r s = jm_set (ahr_account_id r) r s"

definition account_store_list :: "account_store \<Rightarrow> account_health list" where
  "account_store_list s = map snd s"

definition account_store_list_for :: "string list \<Rightarrow> account_store \<Rightarrow> account_health list" where
  "account_store_list_for ids s =
    (if ids = [] then [] else filter (\<lambda>r. ahr_account_id r \<in> set ids) (map snd s))"

interpretation accounts: record_store account_store_get account_store_set ahr_account_id
  by unfold_locales (simp add: account_store_get_def account_store_set_def)

type_synonym lock_store = "(string, model_lock) js_map"

definition lock_key :: "string \<Rightarrow> string \<Rightarrow> string" where
  "lock_key account_id model_id = account_id @ '':'' @ model_id"

definition lock_store_get :: "string \<Rightarrow> string \<Rightarrow> lock_store \<Rightarrow> model_lock option" where
  "lock_store_get account_id model_id s = jm_get s (lock_key account_id model_id)"

definition lock_store_set :: "model_lock \<Rightarrow> lock_store \<Rightarrow> lock_store" where
  "lock_store_set r s = jm_set (lock_key (ml_account_id r) (ml_model_id r)) r s"

definition lock_store_delete :: "string \<Rightarrow> string \<Rightarrow> lock_store \<Rightarrow> lock_store" where
  "lock_store_delete account_id model_id s = jm_delete (lock_key account_id model_id) s"

definition lock_store_list_for_account :: "string \<Rightarrow> lock_store \<Rightarrow> model_lock list" where
  "lock_store_list_for_account account_id s = filter (\<lambda>r. ml_account_id r = account_id) (map snd s)"

text \<open>\<open>Date.parse(...) <= nowMs\<close> is false on \<open>NaN\<close>.\<close>

definition lock_expired :: "model_lock \<Rightarrow> int \<Rightarrow> bool" where
  "lock_expired r now_ms = (case parse_iso (ml_retry_at r) of None \<Rightarrow> False | Some t \<Rightarrow> t \<le> now_ms)"

definition lock_store_list_expired :: "int \<Rightarrow> lock_store \<Rightarrow> model_lock list" where
  "lock_store_list_expired now_ms s = filter (\<lambda>r. lock_expired r now_ms) (map snd s)"

definition lock_store_list_for :: "string list \<Rightarrow> lock_store \<Rightarrow> model_lock list" where
  "lock_store_list_for ids s = (if ids = [] then [] else filter (\<lambda>r. ml_account_id r \<in> set ids) (map snd s))"

interpretation locks: record_store "\<lambda>k s. jm_get s k" lock_store_set "\<lambda>r. lock_key (ml_account_id r) (ml_model_id r)"
  by unfold_locales (simp add: lock_store_set_def)

record quota_window =
  qw_kind :: string
  qw_label :: string
  qw_used_percent :: "rat option"
  qw_remaining_percent :: "rat option"
  qw_resets_at :: "string option"
  qw_used :: "rat option"
  qw_limit :: "rat option"

datatype quota_status = QsUnknown | QsRefreshing | QsReady | QsError

record quota_snapshot =
  qs_source :: string
  qs_status :: quota_status
  qs_plan :: "string option"
  qs_windows :: "quota_window list"
  qs_fetched_at :: "string option"
  qs_last_attempt_at :: "string option"
  qs_last_success_at :: "string option"
  qs_error :: "string option"

record quota_state =
  qsr_account_id :: string
  qsr_available :: bool
  qsr_last_refresh :: "int option"
  qsr_last_attempt :: "int option"
  qsr_last_success :: "int option"
  qsr_quota :: "quota_snapshot option"

type_synonym quota_store = "(string, quota_state) js_map"

definition quota_store_get :: "string \<Rightarrow> quota_store \<Rightarrow> quota_state option" where
  "quota_store_get account_id s = jm_get s account_id"

definition quota_store_set :: "quota_state \<Rightarrow> quota_store \<Rightarrow> quota_store" where
  "quota_store_set r s = jm_set (qsr_account_id r) r s"

definition quota_store_list_for :: "string list \<Rightarrow> quota_store \<Rightarrow> quota_state list" where
  "quota_store_list_for ids s =
    (if ids = [] then [] else filter (\<lambda>r. qsr_account_id r \<in> set ids) (map snd s))"

interpretation quotas: record_store quota_store_get quota_store_set qsr_account_id
  by unfold_locales (simp add: quota_store_get_def quota_store_set_def)

record oauth_token =
  ot_access_token :: string
  ot_expires_at :: "int option"
  ot_refresh_token :: "string option"

type_synonym token_store = "(string, oauth_token) js_map"

definition token_store_get :: "string \<Rightarrow> token_store \<Rightarrow> oauth_token option" where
  "token_store_get account_id s = jm_get s account_id"

definition token_store_set :: "string \<times> oauth_token \<Rightarrow> token_store \<Rightarrow> token_store" where
  "token_store_set e s = jm_set (fst e) (snd e) s"

definition token_store_delete :: "string \<Rightarrow> token_store \<Rightarrow> token_store" where
  "token_store_delete account_id s = jm_delete account_id s"

subsection \<open>Account health\<close>

text \<open>\<open>new Date(x).toISOString()\<close> of a fractional time.\<close>

definition iso_of :: "rat \<Rightarrow> string" where
  "iso_of t = iso_string (js_trunc t)"

definition account_record_failure ::
  "rat \<Rightarrow> int \<Rightarrow> string \<Rightarrow> string \<Rightarrow> call_error \<Rightarrow> account_store \<Rightarrow> account_store \<times> account_health option" where
  "account_record_failure rnd now_ms account_id provider_id err s =
    (if \<not> ce_retryable err then (s, None)
     else let previous = account_store_get account_id s;
              failures = min 255 ((case previous of None \<Rightarrow> 0 | Some p \<Rightarrow> ahr_failure_count p) + 1);
              delay = cooldown_delay_ms rnd err (account_cooldown_policy_for (ce_kind err)) failures now_ms;
              until = (if 0 < delay then Some (of_int now_ms + delay) else None);
              r = \<lparr>hv_status = (if until \<noteq> None then StCoolingDown else StError),
                   hv_status_code = ce_status_code err,
                   hv_failure_kind = Some (ce_kind err),
                   hv_message = Some (sanitize_message (ThrownString (ce_message err))),
                   hv_occurred_at = Some (iso_string now_ms),
                   hv_retry_at = map_option iso_of until,
                   hv_disabled_until = until,
                   ahr_account_id = account_id,
                   ahr_provider_id = provider_id,
                   ahr_failure_count = failures,
                   ahr_generation = (case previous of None \<Rightarrow> 0 | Some p \<Rightarrow> ahr_generation p) + 1\<rparr>
          in (account_store_set r s, Some r))"

definition account_record_success ::
  "string \<Rightarrow> string \<Rightarrow> account_store \<Rightarrow> account_store \<times> account_health" where
  "account_record_success account_id provider_id s =
    (let previous = account_store_get account_id s;
         r = \<lparr>hv_status = StHealthy, hv_status_code = None, hv_failure_kind = None, hv_message = None,
              hv_occurred_at = None, hv_retry_at = None, hv_disabled_until = None,
              ahr_account_id = account_id, ahr_provider_id = provider_id, ahr_failure_count = 0,
              ahr_generation = (case previous of None \<Rightarrow> 0 | Some p \<Rightarrow> ahr_generation p) + 1\<rparr>
     in (account_store_set r s, r))"

definition account_get_health :: "int \<Rightarrow> string \<Rightarrow> account_store \<Rightarrow> route_health option" where
  "account_get_health now_ms account_id s =
     map_option (\<lambda>r. derive_route_health r RsAccount now_ms) (account_store_get account_id s)"

definition account_is_usable :: "string \<Rightarrow> int \<Rightarrow> account_store \<Rightarrow> bool" where
  "account_is_usable account_id now_ms s =
    (case account_store_get account_id s of None \<Rightarrow> True | Some r \<Rightarrow> is_record_usable r now_ms)"

definition account_health_batch :: "int \<Rightarrow> string list \<Rightarrow> account_store \<Rightarrow> (string, route_health) js_map" where
  "account_health_batch now_ms ids s =
    (if ids = [] then []
     else fold (\<lambda>r m. jm_set (ahr_account_id r) (derive_route_health r RsAccount now_ms) m)
            (account_store_list_for ids s) [])"

text \<open>The lock store of the manager may be absent (\<open>null\<close>).\<close>

definition record_model_lock ::
  "rat \<Rightarrow> int \<Rightarrow> string \<Rightarrow> string \<Rightarrow> call_error \<Rightarrow> lock_store option \<Rightarrow>
   lock_store option \<times> model_lock option" where
  "record_model_lock rnd now_ms account_id model_id err store =
    (case store of
       None \<Rightarrow> (None, None)
     | Some s \<Rightarrow>
       if \<not> ce_retryable err then (store, None)
       else let previous = lock_store_get account_id model_id s;
                failures = min 255 ((case previous of None \<Rightarrow> 0 | Some p \<Rightarrow> ml_failure_count p) + 1);
                delay = cooldown_delay_ms rnd err (account_cooldown_policy_for (ce_kind err)) failures now_ms
            in if delay = 0 then (store, None)
               else let r = \<lparr>ml_account_id = account_id, ml_model_id = model_id,
                        ml_retry_at = iso_of (of_int now_ms + delay),
                        ml_error_kind = Some (kind_name (ce_kind err)),
                        ml_status_code = ce_status_code err,
                        ml_message = Some (sanitize_message (ThrownString (ce_message err))),
                        ml_failure_count = failures\<rparr>
                 in (Some (lock_store_set r s), Some r))"

definition clear_model_lock :: "string \<Rightarrow> string \<Rightarrow> lock_store option \<Rightarrow> lock_store option" where
  "clear_model_lock account_id model_id store = map_option (lock_store_delete account_id model_id) store"

definition is_model_available :: "string \<Rightarrow> string \<Rightarrow> int \<Rightarrow> lock_store option \<Rightarrow> bool" where
  "is_model_available account_id model_id now_ms store =
    (case store of
       None \<Rightarrow> True
     | Some s \<Rightarrow> (case lock_store_get account_id model_id s of
          None \<Rightarrow> True
        | Some r \<Rightarrow> lock_expired r now_ms))"

definition list_model_locks_for_account :: "string \<Rightarrow> lock_store option \<Rightarrow> model_lock list" where
  "list_model_locks_for_account account_id store =
    (case store of None \<Rightarrow> [] | Some s \<Rightarrow> lock_store_list_for_account account_id s)"

definition list_model_locks_for_accounts ::
  "string list \<Rightarrow> lock_store option \<Rightarrow> (string, model_lock list) js_map" where
  "list_model_locks_for_accounts ids store =
    (case store of
       None \<Rightarrow> []
     | Some s \<Rightarrow>
       if ids = [] then []
       else fold (\<lambda>r m. (case jm_get m (ml_account_id r) of
                     None \<Rightarrow> jm_set (ml_account_id r) [r] m
                   | Some rs \<Rightarrow> jm_set (ml_account_id r) (rs @ [r]) m))
              (lock_store_list_for ids s) [])"

subsection \<open>Proxy health\<close>

record proxy_health = health_view +
  phr_proxy_id :: string
  phr_failure_count :: int
  phr_generation :: int

type_synonym proxy_store = "(string, proxy_health) js_map"

definition proxy_store_get :: "string \<Rightarrow> proxy_store \<Rightarrow> proxy_health option" where
  "proxy_store_get proxy_id s = jm_get s proxy_id"

definition proxy_store_set :: "proxy_health \<Rightarrow> proxy_store \<Rightarrow> proxy_store" where
  "proxy_store_set r s = jm_set (phr_proxy_id r) r s"

interpretation proxies: record_store proxy_store_get proxy_store_set phr_proxy_id
  by unfold_locales (simp add: proxy_store_get_def proxy_store_set_def)

definition proxy_record_failure ::
  "rat \<Rightarrow> int \<Rightarrow> string \<Rightarrow> call_error \<Rightarrow> proxy_store \<Rightarrow> proxy_store \<times> proxy_health option" where
  "proxy_record_failure rnd now_ms proxy_id err s =
    (if \<not> ce_retryable err then (s, None)
     else let previous = proxy_store_get proxy_id s;
              failures = min 255 ((case previous of None \<Rightarrow> 0 | Some p \<Rightarrow> phr_failure_count p) + 1);
              delay = cooldown_delay_ms rnd err (proxy_cooldown_policy_for (ce_kind err)) failures now_ms;
              until = (if 0 < delay then Some (of_int now_ms + delay) else None);
              r = \<lparr>hv_status = (if until \<noteq> None then StCoolingDown else StError),
                   hv_status_code = ce_status_code err,
                   hv_failure_kind = Some (ce_kind err),
                   hv_message = Some (sanitize_message (ThrownString (ce_message err))),
                   hv_occurred_at = Some (iso_string now_ms),
                   hv_retry_at = map_option iso_of until,
                   hv_disabled_until = until,
                   phr_proxy_id = proxy_id,
                   phr_failure_count = failures,
                   phr_generation = (case previous of None \<Rightarrow> 0 | Some p \<Rightarrow> phr_generation p) + 1\<rparr>
          in (proxy_store_set r s, Some r))"

definition proxy_record_success :: "string \<Rightarrow> proxy_store \<Rightarrow> proxy_store \<times> proxy_health" where
  "proxy_record_success proxy_id s =
    (let previous = proxy_store_get proxy_id s;
         r = \<lparr>hv_status = StHealthy, hv_status_code = None, hv_failure_kind = None, hv_message = None,
              hv_occurred_at = None, hv_retry_at = None, hv_disabled_until = None,
              phr_proxy_id = proxy_id, phr_failure_count = 0,
              phr_generation = (case previous of None \<Rightarrow> 0 | Some p \<Rightarrow> phr_generation p) + 1\<rparr>
     in (proxy_store_set r s, r))"

definition proxy_get_health :: "int \<Rightarrow> string \<Rightarrow> proxy_store \<Rightarrow> route_health option" where
  "proxy_get_health now_ms proxy_id s =
     map_option (\<lambda>r. derive_route_health r RsProxy now_ms) (proxy_store_get proxy_id s)"

definition proxy_is_usable :: "string \<Rightarrow> int \<Rightarrow> proxy_store \<Rightarrow> bool" where
  "proxy_is_usable proxy_id now_ms s =
    (case proxy_store_get proxy_id s of None \<Rightarrow> True | Some r \<Rightarrow> is_record_usable r now_ms)"

subsection \<open>The recovery sweep\<close>

definition sweep_expired :: "int \<Rightarrow> account_store \<Rightarrow> account_health list" where
  "sweep_expired now_ms s =
    filter (\<lambda>r. hv_status r = StCoolingDown \<and>
      (case hv_disabled_until r of None \<Rightarrow> False | Some until \<Rightarrow> until \<le> of_int now_ms)) (account_store_list s)"

definition sweep_apply :: "account_health list \<Rightarrow> account_store \<Rightarrow> account_store" where
  "sweep_apply expired s =
     fold (\<lambda>r t. fst (account_record_success (ahr_account_id r) (ahr_provider_id r) t)) expired s"

definition sweep_locks :: "int \<Rightarrow> lock_store option \<Rightarrow> lock_store option" where
  "sweep_locks now_ms store =
    (case store of
       None \<Rightarrow> None
     | Some s \<Rightarrow> fold (\<lambda>r t. clear_model_lock (ml_account_id r) (ml_model_id r) t)
                   (lock_store_list_expired now_ms s) store)"

definition sweep :: "int \<Rightarrow> account_store \<times> lock_store option \<Rightarrow> account_store \<times> lock_store option" where
  "sweep now_ms st = (sweep_apply (sweep_expired now_ms (fst st)) (fst st), sweep_locks now_ms (snd st))"

definition sweep_interval :: "int option \<Rightarrow> int" where
  "sweep_interval interval = max 15000 (case interval of None \<Rightarrow> 60 * 1000 | Some i \<Rightarrow> i)"

subsection \<open>What a failure and a success do to one record\<close>

definition health_ok :: "'a health_view_scheme \<Rightarrow> bool" where
  "health_ok r \<longleftrightarrow>
     (hv_status r = StCoolingDown \<longleftrightarrow> hv_disabled_until r \<noteq> None) \<and>
     hv_retry_at r = map_option iso_of (hv_disabled_until r) \<and>
     (hv_status r = StHealthy \<longrightarrow> hv_failure_kind r = None \<and> hv_message r = None \<and> hv_status_code r = None) \<and>
     (\<forall>m. hv_message r = Some m \<longrightarrow> m \<noteq> [] \<and> length m \<le> MAX_ERROR_MESSAGE_LENGTH)"

lemma sanitize_nonempty [simp]: "sanitize_message v \<noteq> []"
  using sanitize_message_length [of v] by auto

lemma sanitize_short [simp]: "length (sanitize_message v) \<le> MAX_ERROR_MESSAGE_LENGTH"
  using sanitize_message_length [of v] by auto

definition account_store_ok :: "account_store \<Rightarrow> bool" where
  "account_store_ok s \<longleftrightarrow> jm_wf s \<and> (\<forall>k r. account_store_get k s = Some r \<longrightarrow>
     ahr_account_id r = k \<and> health_ok r \<and> 0 \<le> ahr_failure_count r \<and> ahr_failure_count r \<le> 255 \<and>
     0 < ahr_generation r)"

lemma account_store_ok_Nil [simp]: "account_store_ok []"
  by (simp add: account_store_ok_def account_store_get_def)

lemma account_store_ok_set:
  "account_store_ok s \<Longrightarrow> health_ok r \<Longrightarrow> 0 \<le> ahr_failure_count r \<Longrightarrow> ahr_failure_count r \<le> 255 \<Longrightarrow>
   0 < ahr_generation r \<Longrightarrow> account_store_ok (account_store_set r s)"
  by (auto simp: account_store_ok_def accounts.get_put) (simp add: account_store_set_def)

lemma account_prev_counts:
  assumes "account_store_ok s"
  shows "0 \<le> (case account_store_get k s of None \<Rightarrow> 0 | Some p \<Rightarrow> ahr_failure_count p)"
    and "0 \<le> (case account_store_get k s of None \<Rightarrow> 0 | Some p \<Rightarrow> ahr_generation p)"
  using assms by (auto simp: account_store_ok_def split: option.split intro: less_imp_le)

lemma account_failure_ok:
  assumes "account_store_ok s"
  shows "account_store_ok (fst (account_record_failure rnd now_ms k prov err s))"
  using account_prev_counts [OF assms, of k] assms
  by (auto simp: account_record_failure_def Let_def health_ok_def intro!: account_store_ok_set)

lemma account_success_ok:
  assumes "account_store_ok s"
  shows "account_store_ok (fst (account_record_success k prov s))"
  using account_prev_counts [OF assms, of k] assms
  by (auto simp: account_record_success_def Let_def health_ok_def intro!: account_store_ok_set)

lemma account_failure_other:
  "j \<noteq> k \<Longrightarrow> account_store_get j (fst (account_record_failure rnd now_ms k prov err s)) = account_store_get j s"
  by (auto simp: account_record_failure_def Let_def accounts.get_put)

lemma account_success_other:
  "j \<noteq> k \<Longrightarrow> account_store_get j (fst (account_record_success k prov s)) = account_store_get j s"
  by (auto simp: account_record_success_def Let_def accounts.get_put)

lemma account_success_usable: "account_is_usable k t (fst (account_record_success k prov s))"
  by (simp add: account_record_success_def account_is_usable_def accounts.get_put is_record_usable_def Let_def)

definition failures_after :: "string \<Rightarrow> account_store \<Rightarrow> int" where
  "failures_after k s = min 255 ((case account_store_get k s of None \<Rightarrow> 0 | Some p \<Rightarrow> ahr_failure_count p) + 1)"

text \<open>Until when a failure takes the account out.\<close>

lemma account_failure_usable:
  assumes "ce_retryable err"
  shows "account_is_usable k t (fst (account_record_failure rnd now_ms k prov err s)) \<longleftrightarrow>
    (let d = cooldown_delay_ms rnd err (account_cooldown_policy_for (ce_kind err)) (failures_after k s) now_ms
     in d \<le> 0 \<or> of_int now_ms + d \<le> of_int t)"
  using assms by (auto simp: account_record_failure_def Let_def account_is_usable_def accounts.get_put
      is_record_usable_def failures_after_def not_less)

lemma account_policy_cap: "cp_cap_ms (account_cooldown_policy_for k) = 300000"
  by (simp add: account_cooldown_policy_for_def policy_defs)

lemma account_failure_bounded:
  assumes "ce_retryable err" and "0 \<le> rnd" and "rnd < 1" and "now_ms + 300000 \<le> t"
  shows "account_is_usable k t (fst (account_record_failure rnd now_ms k prov err s))"
proof -
  let ?d = "cooldown_delay_ms rnd err (account_cooldown_policy_for (ce_kind err)) (failures_after k s) now_ms"
  have "?d \<le> 300000"
    using cooldown_delay_bounds(2) [OF policies_ok(1) assms(2,3)] by (simp add: account_policy_cap)
  moreover have "of_int (now_ms + 300000) \<le> (of_int t :: rat)" using assms(4) by (simp only: of_int_le_iff)
  ultimately show ?thesis using account_failure_usable [OF assms(1)] by (simp add: Let_def)
qed

subsection \<open>The sweep\<close>

lemma account_store_list_get:
  assumes "account_store_ok s"
  shows "r \<in> set (account_store_list s) \<longleftrightarrow> account_store_get (ahr_account_id r) s = Some r"
proof
  assume "r \<in> set (account_store_list s)"
  then obtain k where "(k, r) \<in> set s" by (auto simp: account_store_list_def)
  then have "account_store_get k s = Some r"
    using assms by (simp add: account_store_ok_def account_store_get_def jm_get_in_iff)
  then show "account_store_get (ahr_account_id r) s = Some r"
    using assms by (auto simp: account_store_ok_def)
next
  assume "account_store_get (ahr_account_id r) s = Some r"
  then show "r \<in> set (account_store_list s)"
    by (force simp: account_store_get_def account_store_list_def dest: jm_get_SomeD)
qed

lemma account_store_list_distinct:
  assumes "account_store_ok s"
  shows "distinct (map ahr_account_id (account_store_list s))"
proof -
  have "map ahr_account_id (account_store_list s) = jm_keys s"
    using assms by (auto simp: account_store_list_def jm_keys_def account_store_ok_def
        account_store_get_def jm_get_in_iff intro!: map_cong)
  then show ?thesis using assms by (simp add: account_store_ok_def jm_wf_def)
qed

lemma sweep_apply_other:
  "k \<notin> ahr_account_id ` set rs \<Longrightarrow> account_store_get k (sweep_apply rs s) = account_store_get k s"
  unfolding sweep_apply_def
  by (induction rs arbitrary: s) (auto simp: account_success_other)

lemma sweep_apply_ok: "account_store_ok s \<Longrightarrow> account_store_ok (sweep_apply rs s)"
  unfolding sweep_apply_def by (induction rs arbitrary: s) (auto intro: account_success_ok)

lemma sweep_apply_healthy:
  "k \<in> ahr_account_id ` set rs \<Longrightarrow>
   \<exists>r. account_store_get k (sweep_apply rs s) = Some r \<and> hv_status r = StHealthy"
proof (induction rs arbitrary: s)
  case Nil
  then show ?case by simp
next
  case (Cons q rs)
  let ?s = "fst (account_record_success (ahr_account_id q) (ahr_provider_id q) s)"
  have step: "sweep_apply (q # rs) s = sweep_apply rs ?s" by (simp add: sweep_apply_def)
  show ?case
  proof (cases "k \<in> ahr_account_id ` set rs")
    case True
    then show ?thesis using Cons.IH [of ?s] step by simp
  next
    case False
    then have "k = ahr_account_id q" using Cons.prems by simp
    then have "\<exists>r. account_store_get k ?s = Some r \<and> hv_status r = StHealthy"
      by (simp add: account_record_success_def Let_def accounts.get_put)
    then show ?thesis using step sweep_apply_other [OF False] by simp
  qed
qed

lemma sweep_keeps_usability:
  assumes "account_store_ok s"
  shows "account_is_usable k now_ms (sweep_apply (sweep_expired now_ms s) s) \<longleftrightarrow> account_is_usable k now_ms s"
proof (cases "k \<in> ahr_account_id ` set (sweep_expired now_ms s)")
  case True
  then obtain r where r: "r \<in> set (account_store_list s)" "ahr_account_id r = k"
    "hv_status r = StCoolingDown" "\<exists>u. hv_disabled_until r = Some u \<and> u \<le> of_int now_ms"
    by (auto simp: sweep_expired_def split: option.splits)
  then have "account_store_get k s = Some r" using account_store_list_get [OF assms] by blast
  then have "account_is_usable k now_ms s" using r by (auto simp: account_is_usable_def is_record_usable_def)
  moreover have "account_is_usable k now_ms (sweep_apply (sweep_expired now_ms s) s)"
    using sweep_apply_healthy [OF True, of s] by (auto simp: account_is_usable_def is_record_usable_def)
  ultimately show ?thesis by simp
next
  case False
  then show ?thesis by (simp add: account_is_usable_def sweep_apply_other)
qed

lemma sweep_leaves_none_expired:
  assumes "account_store_ok s"
  shows "sweep_expired now_ms (sweep_apply (sweep_expired now_ms s) s) = []"
proof -
  let ?t = "sweep_apply (sweep_expired now_ms s) s"
  have ok: "account_store_ok ?t" using assms by (rule sweep_apply_ok)
  have "r \<notin> set (sweep_expired now_ms ?t)" for r
  proof
    assume r: "r \<in> set (sweep_expired now_ms ?t)"
    then have get: "account_store_get (ahr_account_id r) ?t = Some r"
      using account_store_list_get [OF ok] by (auto simp: sweep_expired_def)
    show False
    proof (cases "ahr_account_id r \<in> ahr_account_id ` set (sweep_expired now_ms s)")
      case True
      then show False using get r sweep_apply_healthy [OF True, of s] by (auto simp: sweep_expired_def)
    next
      case False
      then have "account_store_get (ahr_account_id r) s = Some r" using get sweep_apply_other by metis
      then have "r \<in> set (account_store_list s)" using account_store_list_get [OF assms] by blast
      then show False using False r by (auto simp: sweep_expired_def)
    qed
  qed
  then show ?thesis by (metis list.set_intros(1) neq_Nil_conv)
qed

subsection \<open>Model locks\<close>

lemma lock_key_inject:
  assumes "CHR '':'' \<notin> set a" and "CHR '':'' \<notin> set b"
  shows "lock_key a m = lock_key b n \<longleftrightarrow> a = b \<and> m = n"
proof
  assume "lock_key a m = lock_key b n"
  then have "a @ CHR '':'' # m = b @ CHR '':'' # n" by (simp add: lock_key_def)
  moreover have "takeWhile (\<lambda>c. c \<noteq> CHR '':'') (x @ CHR '':'' # y) = x" if "CHR '':'' \<notin> set x" for x y
    using that by (subst takeWhile_append2) auto
  ultimately show "a = b \<and> m = n" using assms by (metis append_same_eq same_append_eq list.inject)
qed simp

lemma record_model_lock_other:
  assumes "lock_key a m \<noteq> lock_key b n"
  shows "is_model_available b n t (fst (record_model_lock rnd now_ms a m err st)) = is_model_available b n t st"
  using assms
  by (auto simp: record_model_lock_def is_model_available_def lock_store_get_def lock_store_set_def Let_def
      split: option.splits)

lemma clear_model_lock_available: "is_model_available a m t (clear_model_lock a m st)"
  by (auto simp: clear_model_lock_def is_model_available_def lock_store_get_def lock_store_delete_def
      split: option.splits)

subsection \<open>Properties\<close>

text \<open>The operations on the account store, as events.\<close>

datatype health_event =
    HealthFailure rat int string string call_error   \<comment> \<open>jitter, time, account, provider, error\<close>
  | HealthSuccess string string
  | HealthSweep int

fun health_step :: "health_event \<Rightarrow> account_store \<Rightarrow> account_store" where
  "health_step (HealthFailure rnd now_ms k p err) s = fst (account_record_failure rnd now_ms k p err s)"
| "health_step (HealthSuccess k p) s = fst (account_record_success k p s)"
| "health_step (HealthSweep now_ms) s = sweep_apply (sweep_expired now_ms s) s"

text \<open>The generation of an account, 0 while it has no record, and the events that record something for it.\<close>

definition generation_of :: "string \<Rightarrow> account_store \<Rightarrow> int" where
  "generation_of k s = (case account_store_get k s of None \<Rightarrow> 0 | Some r \<Rightarrow> ahr_generation r)"

fun records_account :: "health_event \<Rightarrow> string \<Rightarrow> account_store \<Rightarrow> bool" where
  "records_account (HealthFailure rnd now_ms j p err) k s \<longleftrightarrow> j = k \<and> ce_retryable err"
| "records_account (HealthSuccess j p) k s \<longleftrightarrow> j = k"
| "records_account (HealthSweep now_ms) k s \<longleftrightarrow> k \<in> ahr_account_id ` set (sweep_expired now_ms s)"

lemma generation_success: "generation_of k (fst (account_record_success j p s)) = generation_of k s + (if j = k then 1 else 0)"
  by (simp add: generation_of_def account_record_success_def accounts.get_put Let_def split: option.split)

lemma generation_failure:
  "generation_of k (fst (account_record_failure rnd now_ms j p err s)) = generation_of k s + (if j = k \<and> ce_retryable err then 1 else 0)"
  by (simp add: generation_of_def account_record_failure_def accounts.get_put Let_def split: option.split)

lemma generation_sweep_apply:
  "distinct (map ahr_account_id rs) \<Longrightarrow>
    generation_of k (sweep_apply rs s) = generation_of k s + (if k \<in> ahr_account_id ` set rs then 1 else 0)"
  unfolding sweep_apply_def by (induction rs arbitrary: s) (auto simp: generation_success)

lemma generation_step:
  assumes "account_store_ok s"
  shows "generation_of k (health_step e s) = generation_of k s + (if records_account e k s then 1 else 0)"
proof (cases e)
  case (HealthSweep now_ms)
  have "distinct (map ahr_account_id (sweep_expired now_ms s))"
    using distinct_map_filter [OF account_store_list_distinct [OF assms]] by (simp add: sweep_expired_def)
  then show ?thesis using HealthSweep by (simp add: generation_sweep_apply)
qed (simp_all add: generation_success generation_failure)

text \<open>
  C30: The account health store stays consistent under every sequence of failures, successes and
  sweeps: a record is found under its own account, its status agrees with its cooldown time and its
  failure count stays between 0 and 255. The generation of an account counts its records from 1: each
  retryable failure, each success and each sweep that finds its cooldown expired adds exactly one, and
  nothing else changes it.
\<close>

theorem health_store_invariant:
  "account_store_ok (fold health_step es []) \<and>
   generation_of k (health_step e (fold health_step es [])) =
     generation_of k (fold health_step es []) + (if records_account e k (fold health_step es []) then 1 else 0) \<and>
   generation_of k [] = 0"
proof -
  have "account_store_ok s \<Longrightarrow> account_store_ok (fold health_step es s)" for s
  proof (induction es arbitrary: s)
    case (Cons e es)
    then show ?case
      by (cases e) (auto intro: account_failure_ok account_success_ok sweep_apply_ok)
  qed simp
  then have ok: "account_store_ok (fold health_step es [])" by simp
  show ?thesis using ok generation_step [OF ok] by (simp add: generation_of_def account_store_get_def)
qed

text \<open>
  C31: No account is lost: however often it has failed, five minutes after its last recorded failure
  at the latest it is usable again without any sweep, and recording a failure of one account
  leaves the usability of every other account as it was.
\<close>

theorem failed_account_recovers:
  assumes "ce_retryable err" and "0 \<le> rnd" and "rnd < 1" and "now_ms + 300000 \<le> t"
  shows "account_is_usable k t (fst (account_record_failure rnd now_ms k prov err s)) \<and>
    (\<forall>j u. j \<noteq> k \<longrightarrow> account_is_usable j u (fst (account_record_failure rnd now_ms k prov err s)) = account_is_usable j u s)"
  using account_failure_bounded [OF assms] by (simp add: account_is_usable_def account_failure_other)

definition sample_rate_limit :: call_error where
  "sample_rate_limit = \<lparr>ce_status_code = Some 429, ce_kind = ProviderRateLimited, ce_retryable = True,
     ce_route_scope = Some ScAccount, ce_source = SourceUpstream, ce_message = ''slow down'', ce_retry_at = None\<rparr>"

theorem failed_account_recovers_witness:
  "account_is_usable ''a'' 300000 (fst (account_record_failure 0 0 ''a'' ''p'' sample_rate_limit []))"
  using failed_account_recovers [of sample_rate_limit 0 0 300000 "''a''" "''p''" "[]"]
  by (simp add: sample_rate_limit_def)

text \<open>
  The recovery sweep is only bookkeeping when nothing happens meanwhile: it leaves no expired
  cooldown behind, and no account becomes usable or unusable at the time of the sweep because of it.
\<close>

theorem sweep_is_bookkeeping:
  assumes "account_store_ok s"
  shows "sweep_expired now_ms (sweep_apply (sweep_expired now_ms s) s) = [] \<and>
    (\<forall>k. account_is_usable k now_ms (sweep_apply (sweep_expired now_ms s) s) = account_is_usable k now_ms s)"
  using sweep_leaves_none_expired [OF assms] sweep_keeps_usability [OF assms] by blast

theorem sweep_is_bookkeeping_witness:
  "sweep_expired 400000 (sweep_apply (sweep_expired 400000 (fst (account_record_failure 0 0 ''a'' ''p'' sample_rate_limit [])))
     (fst (account_record_failure 0 0 ''a'' ''p'' sample_rate_limit []))) = []"
  using sweep_is_bookkeeping [of "fst (account_record_failure 0 0 ''a'' ''p'' sample_rate_limit [])" 400000]
  by (simp add: account_failure_ok)

text \<open>
  Model locks of different accounts do not interfere as long as account ids contain no colon:
  recording a lock for one account and model leaves the availability of every other pair as it was.
\<close>

theorem model_locks_are_separate:
  assumes "CHR '':'' \<notin> set a" and "CHR '':'' \<notin> set b" and "(a, m) \<noteq> (b, n)"
  shows "is_model_available b n t (fst (record_model_lock rnd now_ms a m err st)) = is_model_available b n t st"
  using assms by (intro record_model_lock_other) (simp add: lock_key_inject)

theorem model_locks_are_separate_witness:
  "is_model_available ''b'' ''m'' 0 (fst (record_model_lock 0 0 ''a'' ''m'' sample_rate_limit (Some [])))"
  using model_locks_are_separate [of "''a''" "''b''" "''m''" "''m''" 0 0 0 sample_rate_limit "Some []"]
  by (simp add: is_model_available_def lock_store_get_def)

subsection \<open>Where the code goes wrong\<close>

text \<open>The synthetic accounts of custom providers do contain a colon, and their locks collide.\<close>

lemma lock_keys_collide: "lock_key ''custom:acme'' ''gpt'' = lock_key ''custom'' ''acme:gpt''"
  by (simp add: lock_key_def)

text \<open>
  A failure recorded after the sweep has listed the expired records and before it resets them is
  overwritten: the account is usable at once.
\<close>

lemma sweep_overwrites_new_failure:
  assumes "r \<in> set (sweep_expired now_ms s)"
  shows "account_is_usable (ahr_account_id r) t (sweep_apply (sweep_expired now_ms s)
    (fst (account_record_failure rnd now_ms (ahr_account_id r) prov err s)))"
proof -
  obtain q where "account_store_get (ahr_account_id r) (sweep_apply (sweep_expired now_ms s)
      (fst (account_record_failure rnd now_ms (ahr_account_id r) prov err s))) = Some q" "hv_status q = StHealthy"
    using sweep_apply_healthy [of "ahr_account_id r" "sweep_expired now_ms s"] assms by blast
  then show ?thesis by (simp add: account_is_usable_def is_record_usable_def)
qed

end
