(* ===== verification/Leases.thy ===== *)
theory Leases imports Prelude begin

text \<open>
  Leases: the acquire/release discipline shared by the proxy slots, the OAuth token leases, the
  provider in-flight counters and the API-key admission. Acquiring yields a handle (what it
  closes over) whose
  \<open>release\<close> closure carries a \<open>settled\<close> flag; releasing twice is a no-op. The locale below
  states what a component's counter has to promise for the handles, and the conclusion is that
  the counter always equals the number of live handles.
\<close>

record 'h lease_handle =
  lh_what :: 'h
  lh_settled :: bool

datatype ('a, 'r) lease_event = Acquire 'a | Release nat 'r

text \<open>
  One event against a component state and the handles given out so far: \<open>acq\<close> may refuse
  (and still change the state),
  \<open>rel\<close> runs only while the handle's flag is clear.
\<close>

fun lease_step ::
  "('a \<Rightarrow> 's \<Rightarrow> 's \<times> 'h option) \<Rightarrow> ('h \<Rightarrow> 'r \<Rightarrow> 's \<Rightarrow> 's) \<Rightarrow> ('a, 'r) lease_event \<Rightarrow>
   's \<times> 'h lease_handle list \<Rightarrow> 's \<times> 'h lease_handle list" where
  "lease_step acq rel (Acquire a) (s, hs) =
     (case acq a s of
        (s', None) \<Rightarrow> (s', hs)
      | (s', Some h) \<Rightarrow> (s', hs @ [\<lparr>lh_what = h, lh_settled = False\<rparr>]))"
| "lease_step acq rel (Release i r) (s, hs) =
     (if i < length hs \<and> \<not> lh_settled (hs ! i)
      then (rel (lh_what (hs ! i)) r s, hs[i := (hs ! i)\<lparr>lh_settled := True\<rparr>])
      else (s, hs))"

fun lease_run ::
  "('a \<Rightarrow> 's \<Rightarrow> 's \<times> 'h option) \<Rightarrow> ('h \<Rightarrow> 'r \<Rightarrow> 's \<Rightarrow> 's) \<Rightarrow> ('a, 'r) lease_event list \<Rightarrow>
   's \<times> 'h lease_handle list \<Rightarrow> 's \<times> 'h lease_handle list" where
  "lease_run acq rel [] w = w"
| "lease_run acq rel (e # es) w = lease_run acq rel es (lease_step acq rel e w)"

text \<open>The live handles of a key: given out and not settled.\<close>

definition live :: "('h \<Rightarrow> 'k) \<Rightarrow> 'k \<Rightarrow> 'h lease_handle list \<Rightarrow> nat" where
  "live key k hs = length (filter (\<lambda>h. \<not> lh_settled h \<and> key (lh_what h) = k) hs)"

lemma live_Nil [simp]: "live key k [] = 0"
  by (simp add: live_def)

lemma live_snoc [simp]:
  "live key k (hs @ [\<lparr>lh_what = a, lh_settled = False\<rparr>]) = live key k hs + (if key a = k then 1 else 0)"
  by (simp add: live_def)

lemma length_filter_update:
  "i < length hs \<Longrightarrow>
   length (filter P (hs[i := y])) + (if P (hs ! i) then 1 else 0) =
   length (filter P hs) + (if P y then 1 else 0)"
proof (induction hs arbitrary: i)
  case Nil
  then show ?case by simp
next
  case (Cons h hs)
  show ?case
  proof (cases i)
    case 0
    then show ?thesis by simp
  next
    case (Suc j)
    then have "j < length hs" using Cons.prems by simp
    from Cons.IH [OF this] Suc show ?thesis by (auto split: if_splits)
  qed
qed

lemma live_settle:
  assumes "i < length hs" and "\<not> lh_settled (hs ! i)"
  shows "live key k (hs[i := (hs ! i)\<lparr>lh_settled := True\<rparr>]) =
    live key k hs - (if key (lh_what (hs ! i)) = k then 1 else 0)"
  using length_filter_update [OF assms(1), of "\<lambda>h. \<not> lh_settled h \<and> key (lh_what h) = k"
      "(hs ! i)\<lparr>lh_settled := True\<rparr>"] assms(2)
  by (auto simp: live_def split: if_splits)

lemma live_pos:
  assumes "i < length hs" and "\<not> lh_settled (hs ! i)"
  shows "0 < live key (key (lh_what (hs ! i))) hs"
proof -
  have "hs ! i \<in> set (filter (\<lambda>h. \<not> lh_settled h \<and> key (lh_what h) = key (lh_what (hs ! i))) hs)"
    using assms by simp
  then show ?thesis unfolding live_def by (rule length_pos_if_in_set)
qed

text \<open>What a component promises for its handles.\<close>

locale lease_counter =
  fixes acq :: "'a \<Rightarrow> 's \<Rightarrow> 's \<times> 'h option"
    and rel :: "'h \<Rightarrow> 'r \<Rightarrow> 's \<Rightarrow> 's"
    and key :: "'h \<Rightarrow> 'k"
    and held :: "'s \<Rightarrow> 'k \<Rightarrow> nat"
  assumes held_refuse: "acq a s = (s', None) \<Longrightarrow> held s' k = held s k"
    and held_acquire: "acq a s = (s', Some h) \<Longrightarrow> held s' k = held s k + (if key h = k then 1 else 0)"
    and held_release: "0 < held s (key h) \<Longrightarrow>
      held (rel h r s) k = held s k - (if key h = k then 1 else 0)"
begin

lemma step_accounts:
  assumes "\<And>k. held s k = live key k hs" and "lease_step acq rel e (s, hs) = (s', hs')"
  shows "held s' k = live key k hs'"
proof (cases e)
  case (Acquire a)
  then show ?thesis using assms by (auto split: option.splits prod.splits simp: held_acquire held_refuse)
next
  case (Release i r)
  show ?thesis
  proof (cases "i < length hs \<and> \<not> lh_settled (hs ! i)")
    case True
    then have "0 < held s (key (lh_what (hs ! i)))" using assms(1) live_pos by metis
    then show ?thesis using assms Release True by (auto simp: held_release live_settle)
  next
    case False
    then show ?thesis using assms Release by auto
  qed
qed

lemma run_accounts:
  "\<lbrakk>\<And>k. held s k = live key k hs; lease_run acq rel es (s, hs) = (s', hs')\<rbrakk>
   \<Longrightarrow> held s' k = live key k hs'"
proof (induction es arbitrary: s hs k)
  case Nil
  then show ?case by simp
next
  case (Cons e es)
  obtain s1 hs1 where st: "lease_step acq rel e (s, hs) = (s1, hs1)" by fastforce
  have acc: "\<And>j. held s1 j = live key j hs1" using step_accounts [OF Cons.prems(1) st] .
  have "lease_run acq rel es (s1, hs1) = (s', hs')" using Cons.prems(2) st by simp
  with acc show ?case by (rule Cons.IH)
qed

end

text \<open>A counter that also refuses beyond a limit keeps the live handles within it.\<close>

locale bounded_lease_counter = lease_counter acq rel key held
  for acq :: "'a \<Rightarrow> 's \<Rightarrow> 's \<times> 'h option"
    and rel :: "'h \<Rightarrow> 'r \<Rightarrow> 's \<Rightarrow> 's"
    and key :: "'h \<Rightarrow> 'k"
    and held :: "'s \<Rightarrow> 'k \<Rightarrow> nat" +
  fixes limit :: "'k \<Rightarrow> nat"
  assumes acquire_below: "acq a s = (s', Some h) \<Longrightarrow> held s (key h) < limit (key h)"
begin

lemma step_bounded:
  assumes "\<And>k. held s k = live key k hs" and "\<And>k. held s k \<le> limit k"
    and "lease_step acq rel e (s, hs) = (s', hs')"
  shows "held s' k \<le> limit k"
proof (cases e)
  case (Acquire a)
  obtain t oh where acq: "acq a s = (t, oh)" by fastforce
  show ?thesis
  proof (cases oh)
    case None
    then show ?thesis using assms Acquire acq by (simp add: held_refuse)
  next
    case (Some h)
    then have p: "acq a s = (t, Some h)" using acq by simp
    then have "held t k \<le> limit k"
      using assms(2) [of k] acquire_below [OF p] by (auto simp: held_acquire [OF p])
    then show ?thesis using assms(3) Acquire p by simp
  qed
next
  case (Release i r)
  show ?thesis
  proof (cases "i < length hs \<and> \<not> lh_settled (hs ! i)")
    case True
    then have "0 < held s (key (lh_what (hs ! i)))" using assms(1) live_pos by metis
    then have "held s' k \<le> held s k" using assms(3) Release True by (auto simp: held_release)
    then show ?thesis using assms(2) [of k] by linarith
  next
    case False
    then show ?thesis using assms Release by auto
  qed
qed

lemma run_bounded:
  "\<lbrakk>\<And>k. held s k = live key k hs; \<And>k. held s k \<le> limit k;
    lease_run acq rel es (s, hs) = (s', hs')\<rbrakk> \<Longrightarrow> live key k hs' \<le> limit k"
proof (induction es arbitrary: s hs k)
  case Nil
  then show ?case by (metis lease_run.simps(1) prod.inject)
next
  case (Cons e es)
  obtain s1 hs1 where st: "lease_step acq rel e (s, hs) = (s1, hs1)" by fastforce
  have acc: "\<And>j. held s1 j = live key j hs1" using step_accounts [OF Cons.prems(1) st] .
  have lim: "\<And>j. held s1 j \<le> limit j" using step_bounded [OF Cons.prems(1,2) st] .
  have "lease_run acq rel es (s1, hs1) = (s', hs')" using Cons.prems(3) st by simp
  with acc lim show ?case by (rule Cons.IH)
qed

end

end
