(* ===== verification/Flights.thy ===== *)
theory Flights imports Leases JsJson begin

text \<open>
  Concurrency accounting of the traffic layer: the clamped process limits (\<open>traffic/limits.ts\<close>),
  the proxy slots (\<open>ProxySlotManager\<close> of \<open>traffic/network.ts\<close>), the in-flight counters
  (\<open>traffic/in-flight.ts\<close>), the idle-point garbage collection they gate (\<open>traffic/memory.ts\<close>)
  and the per-IP flights (\<open>traffic/per-ip.ts\<close>). The environment is a function from a variable's
  name to the number \<open>Number(Bun.env[name])\<close> yields; the adaptive caps that depend on the resident
  set size take it as an argument.
\<close>

subsection \<open>Limits\<close>

definition bounded_integer :: "(string \<Rightarrow> js_num) \<Rightarrow> string \<Rightarrow> int \<Rightarrow> int \<Rightarrow> int \<Rightarrow> int" where
  "bounded_integer env name fallback minimum maximum =
    (case js_finite (env name) of
       None \<Rightarrow> fallback
     | Some parsed \<Rightarrow> min (max \<lfloor>parsed\<rfloor> minimum) maximum)"

record memory_limits =
  lim_request_body_bytes :: int
  lim_stream_line_bytes :: int
  lim_stream_event_bytes :: int
  lim_studio_max_sessions :: int
  lim_studio_max_session_bytes :: int
  lim_studio_max_total_bytes :: int
  lim_studio_ttl_ms :: int
  lim_max_transition_routes :: int
  lim_max_transitions_per_route :: int
  lim_max_tracked_ips :: int
  lim_max_tracked_keys :: int
  lim_login_max_tracked_ips :: int
  lim_gc_interval_ms :: int
  lim_rate_limit_max_requests :: int
  lim_rate_limit_window_ms :: int

definition runtime_memory_limits :: "(string \<Rightarrow> js_num) \<Rightarrow> memory_limits" where
  "runtime_memory_limits env = \<lparr>
     lim_request_body_bytes = bounded_integer env ''wokroute_MAX_REQUEST_BODY_BYTES'' (10 * 1024 * 1024) (64 * 1024) (64 * 1024 * 1024),
     lim_stream_line_bytes = bounded_integer env ''wokroute_MAX_STREAM_LINE_BYTES'' (1 * 1024 * 1024) (4 * 1024) (8 * 1024 * 1024),
     lim_stream_event_bytes = bounded_integer env ''wokroute_MAX_STREAM_EVENT_BYTES'' (4 * 1024 * 1024) (16 * 1024) (16 * 1024 * 1024),
     lim_studio_max_sessions = bounded_integer env ''wokroute_STUDIO_MAX_SESSIONS'' 128 1 2048,
     lim_studio_max_session_bytes = bounded_integer env ''wokroute_STUDIO_MAX_SESSION_BYTES'' (2 * 1024 * 1024) (64 * 1024) (16 * 1024 * 1024),
     lim_studio_max_total_bytes = bounded_integer env ''wokroute_STUDIO_MAX_TOTAL_BYTES'' (8 * 1024 * 1024) (1 * 1024 * 1024) (512 * 1024 * 1024),
     lim_studio_ttl_ms = bounded_integer env ''wokroute_STUDIO_TTL_SECONDS'' (24 * 60 * 60) 60 (30 * 24 * 60 * 60) * 1000,
     lim_max_transition_routes = bounded_integer env ''wokroute_MAX_ROUTE_TRANSITION_ROUTES'' 4096 16 100000,
     lim_max_transitions_per_route = bounded_integer env ''wokroute_MAX_ROUTE_TRANSITIONS_PER_ROUTE'' 512 8 4096,
     lim_max_tracked_ips = bounded_integer env ''wokroute_MAX_TRACKED_IPS'' 10000 0 1000000,
     lim_max_tracked_keys = bounded_integer env ''wokroute_MAX_TRACKED_KEYS'' 10000 0 1000000,
     lim_login_max_tracked_ips = bounded_integer env ''wokroute_LOGIN_MAX_TRACKED_IPS'' 10000 0 1000000,
     lim_gc_interval_ms = bounded_integer env ''wokroute_GC_INTERVAL_MS'' (10 * 60000) 0 (24 * 60 * 60000),
     lim_rate_limit_max_requests = bounded_integer env ''wokroute_RATE_LIMIT_MAX_REQUESTS'' 100 1 1000000,
     lim_rate_limit_window_ms = bounded_integer env ''wokroute_RATE_LIMIT_WINDOW_MS'' 60000 1000 (24 * 60 * 60000)\<rparr>"

lemma bounded_integer_range:
  assumes "minimum \<le> fallback" and "fallback \<le> maximum"
  shows "minimum \<le> bounded_integer env name fallback minimum maximum"
    and "bounded_integer env name fallback minimum maximum \<le> maximum"
  using assms by (auto simp: bounded_integer_def split: option.split)

text \<open>\<open>resolveMaxTrackedIps\<close> and \<open>resolveMaxTrackedKeys\<close>: the configured cap, or one entry per kilobyte of RSS.\<close>

definition resolve_max_tracked :: "int \<Rightarrow> int \<Rightarrow> int" where
  "resolve_max_tracked configured rss_bytes =
    (if 0 < configured then configured else min (max (rss_bytes div 1024) 5000) 500000)"

lemma resolve_max_tracked_pos: "0 < resolve_max_tracked configured rss_bytes"
  by (auto simp: resolve_max_tracked_def max_def)

subsection \<open>Counters by key\<close>

text \<open>
  The counters of this layer never go below zero: a counter that reaches zero is deleted. They
  are natural numbers, and \<open>count_of d\<close> is \<open>map.get(key) ?? d\<close>.
\<close>

definition count_of :: "nat \<Rightarrow> (string, nat) js_map \<Rightarrow> string \<Rightarrow> nat" where
  "count_of d m k = (case jm_get m k of None \<Rightarrow> d | Some n \<Rightarrow> n)"

lemma count_of_set [simp]: "count_of d (jm_set k n m) j = (if j = k then n else count_of d m j)"
  by (simp add: count_of_def)

lemma count_of_delete [simp]: "count_of d (jm_delete k m) j = (if j = k then d else count_of d m j)"
  by (simp add: count_of_def)

lemma count_of_default: "0 < count_of 0 m k \<Longrightarrow> count_of d m k = count_of 0 m k"
  by (simp add: count_of_def split: option.splits)

subsection \<open>Proxy slots\<close>

type_synonym slots = "(string, nat) js_map"

definition slot_active_count :: "slots \<Rightarrow> string \<Rightarrow> nat" where
  "slot_active_count s proxy_id = count_of 0 s proxy_id"

definition slot_try_acquire :: "string \<Rightarrow> int \<Rightarrow> slots \<Rightarrow> slots \<times> string option" where
  "slot_try_acquire proxy_id max_concurrency s =
    (if max_concurrency < 1 then (s, None)
     else let current = count_of 0 s proxy_id
       in if max_concurrency \<le> int current then (s, None)
          else (jm_set proxy_id (current + 1) s, Some proxy_id))"

text \<open>The body of \<open>release\<close> after its \<open>released\<close> guard.\<close>

definition slot_release :: "string \<Rightarrow> unit \<Rightarrow> slots \<Rightarrow> slots" where
  "slot_release proxy_id u s =
    (let remaining = count_of 1 s proxy_id - 1
     in if remaining \<le> 0 then jm_delete proxy_id s else jm_set proxy_id remaining s)"

interpretation slots: bounded_lease_counter
  "\<lambda>proxy_id. slot_try_acquire proxy_id (limits proxy_id)" slot_release "\<lambda>proxy_id. proxy_id"
  slot_active_count "\<lambda>proxy_id. nat (limits proxy_id)"
  for limits :: "string \<Rightarrow> int"
  by unfold_locales
    (auto simp: slot_try_acquire_def slot_release_def slot_active_count_def Let_def
      count_of_default [where d = "Suc 0"] split: if_splits)

subsection \<open>In-flight requests\<close>

record in_flight =
  if_count :: nat
  if_providers :: "(string, nat) js_map"
  if_listeners :: "nat list"
  if_notify_scheduled :: bool
  if_notified :: "(nat \<times> nat) list"   \<comment> \<open>the calls of listeners so far: who, with which count\<close>

definition MAX_LISTENERS :: nat where "MAX_LISTENERS = 128"

definition in_flight_initial :: in_flight where
  "in_flight_initial = \<lparr>if_count = 0, if_providers = [], if_listeners = [],
     if_notify_scheduled = False, if_notified = []\<rparr>"

definition schedule_notify :: "in_flight \<Rightarrow> in_flight" where
  "schedule_notify s = (if if_notify_scheduled s then s else s\<lparr>if_notify_scheduled := True\<rparr>)"

text \<open>The queued microtask.\<close>

definition run_notify :: "in_flight \<Rightarrow> in_flight" where
  "run_notify s =
    (if if_notify_scheduled s
     then s\<lparr>if_notify_scheduled := False,
            if_notified := if_notified s @ map (\<lambda>l. (l, if_count s)) (if_listeners s)\<rparr>
     else s)"

definition increment_in_flight :: "in_flight \<Rightarrow> in_flight" where
  "increment_in_flight s = schedule_notify (s\<lparr>if_count := if_count s + 1\<rparr>)"

definition decrement_in_flight :: "in_flight \<Rightarrow> in_flight" where
  "decrement_in_flight s = schedule_notify (s\<lparr>if_count := if_count s - 1\<rparr>)"

definition begin_provider_in_flight :: "string \<Rightarrow> in_flight \<Rightarrow> in_flight" where
  "begin_provider_in_flight p s =
     schedule_notify (s\<lparr>if_providers := jm_set p (count_of 0 (if_providers s) p + 1) (if_providers s)\<rparr>)"

definition end_provider_in_flight :: "string \<Rightarrow> in_flight \<Rightarrow> in_flight" where
  "end_provider_in_flight p s =
    (let active = count_of 0 (if_providers s) p
     in schedule_notify (s\<lparr>if_providers :=
          (if active \<le> 1 then jm_delete p (if_providers s) else jm_set p (active - 1) (if_providers s))\<rparr>))"

text \<open>\<open>localeCompare\<close> is the argument \<open>compare\<close>.\<close>

definition get_provider_in_flight :: "(string \<Rightarrow> string \<Rightarrow> int) \<Rightarrow> in_flight \<Rightarrow> (string \<times> nat) list" where
  "get_provider_in_flight compare s =
     js_sort (\<lambda>l r. if snd l \<noteq> snd r then int (snd r) - int (snd l) else compare (fst l) (fst r))
       (if_providers s)"

definition subscribe_in_flight :: "nat \<Rightarrow> in_flight \<Rightarrow> in_flight" where
  "subscribe_in_flight listener s =
    (let kept = (if MAX_LISTENERS \<le> length (if_listeners s) then tl (if_listeners s) else if_listeners s)
     in s\<lparr>if_listeners := (if listener \<in> set kept then kept else kept @ [listener])\<rparr>)"

definition unsubscribe_in_flight :: "nat \<Rightarrow> in_flight \<Rightarrow> in_flight" where
  "unsubscribe_in_flight listener s = s\<lparr>if_listeners := removeAll listener (if_listeners s)\<rparr>"

definition reset_in_flight :: "in_flight \<Rightarrow> in_flight" where
  "reset_in_flight s = s\<lparr>if_count := 0, if_providers := [], if_listeners := [], if_notify_scheduled := False\<rparr>"

interpretation provider_flights: lease_counter
  "\<lambda>p s. (begin_provider_in_flight p s, Some p)" "\<lambda>p (u::unit). end_provider_in_flight p" "\<lambda>p. p"
  "\<lambda>s. count_of 0 (if_providers s)"
  by unfold_locales
    (auto simp: begin_provider_in_flight_def end_provider_in_flight_def schedule_notify_def Let_def)

interpretation request_flights: lease_counter
  "\<lambda>(u::unit) s. (increment_in_flight s, Some u)" "\<lambda>(u::unit) (v::unit). decrement_in_flight" "\<lambda>u. u"
  "\<lambda>s (k::unit). if_count s"
  by unfold_locales (auto simp: increment_in_flight_def decrement_in_flight_def schedule_notify_def)

lemma subscribe_bounded:
  "length (if_listeners s) \<le> MAX_LISTENERS \<Longrightarrow> length (if_listeners (subscribe_in_flight l s)) \<le> MAX_LISTENERS"
  by (auto simp: subscribe_in_flight_def Let_def MAX_LISTENERS_def)

subsection \<open>Idle-point garbage collection\<close>

datatype gc_status = GcScheduled | GcDeferred | GcAlreadyPending

record gc_state =
  gc_pending :: bool
  gc_retry_timer :: bool
  gc_runs :: "nat list"   \<comment> \<open>the in-flight count at each \<open>Bun.gc(false)\<close>\<close>

definition gc_initial :: gc_state where
  "gc_initial = \<lparr>gc_pending = False, gc_retry_timer = False, gc_runs = []\<rparr>"

definition schedule_attempt :: "nat \<Rightarrow> gc_state \<Rightarrow> gc_state" where
  "schedule_attempt in_flight s =
    (if 0 < in_flight then s\<lparr>gc_retry_timer := True\<rparr>
     else s\<lparr>gc_pending := False, gc_retry_timer := False, gc_runs := gc_runs s @ [in_flight]\<rparr>)"

definition schedule_global_gc :: "nat \<Rightarrow> gc_state \<Rightarrow> gc_state \<times> gc_status \<times> nat" where
  "schedule_global_gc in_flight s =
    (if gc_pending s then (s, GcAlreadyPending, in_flight)
     else (schedule_attempt in_flight (s\<lparr>gc_pending := True\<rparr>),
           if 0 < in_flight then GcDeferred else GcScheduled, in_flight))"

definition cancel_scheduled_gc :: "gc_state \<Rightarrow> gc_state" where
  "cancel_scheduled_gc s = s\<lparr>gc_retry_timer := False, gc_pending := False\<rparr>"

datatype gc_event = GcRequest nat | GcTimer nat | GcCancel

fun gc_step :: "gc_event \<Rightarrow> gc_state \<Rightarrow> gc_state" where
  "gc_step (GcRequest n) s = fst (schedule_global_gc n s)"
| "gc_step (GcTimer n) s = (if gc_retry_timer s then schedule_attempt n s else s)"
| "gc_step GcCancel s = cancel_scheduled_gc s"

definition gc_ok :: "gc_state \<Rightarrow> bool" where
  "gc_ok s \<longleftrightarrow> (gc_pending s \<longleftrightarrow> gc_retry_timer s) \<and> set (gc_runs s) \<subseteq> {0}"

lemma gc_ok_step: "gc_ok s \<Longrightarrow> gc_ok (gc_step e s)"
  by (cases e) (auto simp: gc_ok_def schedule_global_gc_def schedule_attempt_def cancel_scheduled_gc_def)

lemma gc_ok_run: "gc_ok s \<Longrightarrow> gc_ok (fold gc_step es s)"
  by (induction es arbitrary: s) (auto intro: gc_ok_step)

subsection \<open>Flights per IP\<close>

record ip_flight =
  ipf_count :: nat
  ipf_last_seen :: int

record ip_tracker =
  ipt_active :: "(string, ip_flight) js_map"
  ipt_last_sweep :: int

definition SWEEP_INTERVAL_MS :: int where "SWEEP_INTERVAL_MS = 60000"

definition ip_tracker_empty :: ip_tracker where
  "ip_tracker_empty = \<lparr>ipt_active = [], ipt_last_sweep = 0\<rparr>"

definition ip_active_count :: "ip_tracker \<Rightarrow> string \<Rightarrow> nat" where
  "ip_active_count t ip = (case jm_get (ipt_active t) ip of None \<Rightarrow> 0 | Some e \<Rightarrow> ipf_count e)"

definition ip_sweep_stale :: "int \<Rightarrow> ip_tracker \<Rightarrow> ip_tracker" where
  "ip_sweep_stale now_ms t =
    (if now_ms - ipt_last_sweep t < SWEEP_INTERVAL_MS then t
     else let cutoff = now_ms - SWEEP_INTERVAL_MS
       in t\<lparr>ipt_last_sweep := now_ms,
            ipt_active := jm_retain (\<lambda>ip e. \<not> (ipf_count e \<le> 0 \<or> ipf_last_seen e < cutoff)) (ipt_active t)\<rparr>)"

definition ip_evict_oldest :: "ip_tracker \<Rightarrow> ip_tracker" where
  "ip_evict_oldest t = t\<lparr>ipt_active := jm_evict_oldest (ipt_active t)\<rparr>"

definition ip_try_acquire :: "int \<Rightarrow> string \<Rightarrow> int \<Rightarrow> int \<Rightarrow> ip_tracker \<Rightarrow> ip_tracker \<times> string option" where
  "ip_try_acquire cap ip max_flights now_ms t =
    (if max_flights < 1 then (t, None)
     else let t = ip_sweep_stale now_ms t;
              entry = jm_get (ipt_active t) ip;
              current = (case entry of None \<Rightarrow> 0 | Some e \<Rightarrow> ipf_count e)
       in if max_flights \<le> int current then (t, None)
          else case entry of
            None \<Rightarrow>
              (let t' = (if cap \<le> int (length (ipt_active t)) then ip_evict_oldest t else t)
               in (t'\<lparr>ipt_active := jm_set ip \<lparr>ipf_count = 1, ipf_last_seen = now_ms\<rparr> (ipt_active t')\<rparr>, Some ip))
          | Some e \<Rightarrow>
              (t\<lparr>ipt_active := jm_set ip \<lparr>ipf_count = ipf_count e + 1, ipf_last_seen = now_ms\<rparr> (ipt_active t)\<rparr>,
               Some ip))"

text \<open>The body of a handle's \<open>release\<close> after its guard.\<close>

definition ip_release :: "string \<Rightarrow> ip_tracker \<Rightarrow> ip_tracker" where
  "ip_release ip t =
    (case jm_get (ipt_active t) ip of
       None \<Rightarrow> t
     | Some row \<Rightarrow>
       if ipf_count row - 1 \<le> 0 then t\<lparr>ipt_active := jm_delete ip (ipt_active t)\<rparr>
       else t\<lparr>ipt_active := jm_set ip (row\<lparr>ipf_count := ipf_count row - 1\<rparr>) (ipt_active t)\<rparr>)"

definition ip_snapshot :: "(string \<Rightarrow> string \<Rightarrow> int) \<Rightarrow> ip_tracker \<Rightarrow> (string \<times> nat) list" where
  "ip_snapshot compare t =
     js_sort (\<lambda>l r. if snd l \<noteq> snd r then int (snd r) - int (snd l) else compare (fst l) (fst r))
       (map (\<lambda>(ip, e). (ip, ipf_count e)) (filter (\<lambda>(ip, e). 0 < ipf_count e) (ipt_active t)))"

text \<open>
  What holds of the tracker: its map is well formed, every entry has a flight, and no more than
  \<open>cap\<close> addresses are tracked.
\<close>

definition ip_tracker_ok :: "int \<Rightarrow> ip_tracker \<Rightarrow> bool" where
  "ip_tracker_ok cap t \<longleftrightarrow> jm_wf (ipt_active t) \<and> int (length (ipt_active t)) \<le> cap \<and>
     (\<forall>ip e. jm_get (ipt_active t) ip = Some e \<longrightarrow> 0 < ipf_count e)"

lemma ip_sweep_ok: "ip_tracker_ok cap t \<Longrightarrow> ip_tracker_ok cap (ip_sweep_stale now_ms t)"
  using length_jm_retain_le [of _ "ipt_active t"]
  by (auto simp: ip_tracker_ok_def ip_sweep_stale_def Let_def jm_get_retain split: option.splits if_splits
      intro: order_trans [rotated])

lemma ip_evict_ok:
  assumes "ip_tracker_ok cap t" and "0 < cap" and "cap \<le> int (length (ipt_active t))"
  shows "ip_tracker_ok cap (ip_evict_oldest t)" and "int (length (ipt_active (ip_evict_oldest t))) < cap"
proof -
  have wf: "jm_wf (ipt_active t)" and len: "int (length (ipt_active t)) \<le> cap"
    using assms(1) by (simp_all add: ip_tracker_ok_def)
  have l: "length (jm_evict_oldest (ipt_active t)) = length (ipt_active t) - 1"
    using wf by (rule length_jm_evict_oldest)
  show "int (length (ipt_active (ip_evict_oldest t))) < cap"
    using l len assms(2,3) by (simp add: ip_evict_oldest_def)
  then show "ip_tracker_ok cap (ip_evict_oldest t)"
    using assms(1) wf by (auto simp: ip_tracker_ok_def ip_evict_oldest_def dest: jm_get_evict_oldest_Some)
qed

lemma ip_acquire_ok:
  assumes "ip_tracker_ok cap t" and "0 < cap"
  shows "ip_tracker_ok cap (fst (ip_try_acquire cap ip max_flights now_ms t))"
proof -
  let ?t = "ip_sweep_stale now_ms t"
  have ok: "ip_tracker_ok cap ?t" using assms(1) by (rule ip_sweep_ok)
  let ?e = "if cap \<le> int (length (ipt_active ?t)) then ip_evict_oldest ?t else ?t"
  have e: "ip_tracker_ok cap ?e" "int (length (ipt_active ?e)) < cap"
    using ok ip_evict_ok [OF ok assms(2)] by auto
  show ?thesis
    using ok e assms(1)
    by (auto simp: ip_try_acquire_def Let_def ip_tracker_ok_def length_jm_set jm_has_def
        split: option.split)
qed

lemma ip_release_ok: "ip_tracker_ok cap t \<Longrightarrow> ip_tracker_ok cap (ip_release ip t)"
  using length_jm_delete_le [of ip "ipt_active t"]
  by (auto simp: ip_release_def ip_tracker_ok_def length_jm_set jm_has_def split: option.split
      intro: order_trans [rotated])

lemma ip_acquire_within:
  assumes "ip_try_acquire cap ip max_flights now_ms t = (t', Some h)"
  shows "0 < ip_active_count t' ip" and "int (ip_active_count t' ip) \<le> max_flights"
  using assms by (auto simp: ip_try_acquire_def ip_active_count_def Let_def split: if_splits option.splits)

lemma ip_sweep_count: "jm_wf (ipt_active t) \<Longrightarrow> ip_active_count (ip_sweep_stale now_ms t) ip \<le> ip_active_count t ip"
  by (auto simp: ip_sweep_stale_def ip_active_count_def Let_def jm_get_retain split: option.splits)

lemma ip_evict_count: "jm_wf (ipt_active t) \<Longrightarrow> ip_active_count (ip_evict_oldest t) ip \<le> ip_active_count t ip"
  by (auto simp: ip_evict_oldest_def ip_active_count_def split: option.splits dest: jm_get_evict_oldest_Some)

lemma ip_release_count: "ip_active_count (ip_release k t) ip \<le> ip_active_count t ip"
  by (auto simp: ip_release_def ip_active_count_def split: option.splits)

lemma ip_acquire_count:
  assumes "0 \<le> max_flights" "ip_tracker_ok cap t" "\<forall>ip. int (ip_active_count t ip) \<le> max_flights"
  shows "int (ip_active_count (fst (ip_try_acquire cap k max_flights now_ms t)) ip) \<le> max_flights"
proof -
  let ?s = "ip_sweep_stale now_ms t"
  have wf: "jm_wf (ipt_active ?s)" using ip_sweep_ok [OF assms(2)] by (simp add: ip_tracker_ok_def)
  have s: "int (ip_active_count ?s i) \<le> max_flights" for i
  proof -
    have "ip_active_count ?s i \<le> ip_active_count t i"
      using ip_sweep_count assms(2) by (simp add: ip_tracker_ok_def)
    then show ?thesis using assms(3) [rule_format, of i] by linarith
  qed
  have e: "int (ip_active_count (ip_evict_oldest ?s) i) \<le> max_flights" for i
    using ip_evict_count [OF wf, of i] s [of i] by linarith
  show ?thesis
    using s [of ip] e [of ip] assms(3)
    by (auto simp: ip_try_acquire_def ip_active_count_def Let_def split: option.splits)
qed
subsection \<open>Properties\<close>

text \<open>
  C25: Proxy slots are never over-committed: after any sequence of acquisitions and releases
  (repeated releases of one handle included) the counter of every proxy is the number of its live
  handles, and never more than the concurrency limit of the proxy.
\<close>

theorem proxy_slots_accounted:
  assumes "lease_run (\<lambda>p. slot_try_acquire p (limits p)) slot_release es ([], []) = (s, hs)"
  shows "slot_active_count s k = live (\<lambda>p. p) k hs \<and> slot_active_count s k \<le> nat (limits k)"
proof -
  have start: "\<And>k. slot_active_count [] k = live (\<lambda>p. p) k []" "\<And>k. slot_active_count [] k \<le> nat (limits k)"
    by (simp_all add: slot_active_count_def count_of_def)
  have "slot_active_count s k = live (\<lambda>p. p) k hs" using slots.run_accounts [OF start(1) assms] .
  then show ?thesis using slots.run_bounded [OF start assms, of k] by simp
qed

theorem proxy_slots_accounted_witness:
  "slot_active_count (fst (lease_run (\<lambda>p. slot_try_acquire p 1) slot_release
     [Acquire ''x'', Acquire ''x'', Release 0 (), Release 0 (), Acquire ''x''] ([], []))) ''x'' \<le> 1"
  using proxy_slots_accounted [of "\<lambda>_. 1" "[Acquire ''x'', Acquire ''x'', Release 0 (), Release 0 (), Acquire ''x'']"
      _ _ "''x''", OF prod.collapse [symmetric]]
  by simp

text \<open>
  The idle-point collector only runs at an idle point: in every sequence of requests, timer
  ticks and cancellations each \<open>Bun.gc\<close> happens with no request in flight, and a collection is
  pending exactly while its retry timer is armed.
\<close>

theorem gc_only_when_idle:
  "set (gc_runs (fold gc_step es gc_initial)) \<subseteq> {0} \<and>
   gc_pending (fold gc_step es gc_initial) = gc_retry_timer (fold gc_step es gc_initial)"
  using gc_ok_run [of gc_initial es] by (simp add: gc_ok_def gc_initial_def)

text \<open>The events of the per-IP tracker, by time.\<close>

datatype ip_event = IpAcquire string int | IpRelease string

fun ip_step :: "int \<Rightarrow> int \<Rightarrow> ip_event \<Rightarrow> ip_tracker \<Rightarrow> ip_tracker" where
  "ip_step cap max_flights (IpAcquire ip now_ms) t = fst (ip_try_acquire cap ip max_flights now_ms t)"
| "ip_step cap max_flights (IpRelease ip) t = ip_release ip t"

text \<open>
  The per-IP tracker is bounded: whatever addresses connect, it never tracks more than its cap
  of addresses, tracks none without a flight, and counts no more than the limit for any address.
\<close>

theorem ip_tracker_bounded:
  assumes "0 < cap" and "0 \<le> max_flights"
  shows "ip_tracker_ok cap (fold (ip_step cap max_flights) es ip_tracker_empty) \<and>
    int (ip_active_count (fold (ip_step cap max_flights) es ip_tracker_empty) ip) \<le> max_flights"
proof -
  have step: "ip_tracker_ok cap (ip_step cap max_flights e t) \<and> (\<forall>ip. int (ip_active_count (ip_step cap max_flights e t) ip) \<le> max_flights)"
    if "ip_tracker_ok cap t" "\<forall>ip. int (ip_active_count t ip) \<le> max_flights" for e t
  proof (cases e)
    case (IpAcquire i now_ms)
    then show ?thesis using that ip_acquire_ok [OF that(1) assms(1)] ip_acquire_count [OF assms(2) that] by simp
  next
    case (IpRelease i)
    have "int (ip_active_count (ip_release i t) j) \<le> max_flights" for j
      using ip_release_count [of i t j] that(2) [rule_format, of j] by linarith
    then show ?thesis using IpRelease ip_release_ok [OF that(1)] by simp
  qed
  define Inv where "Inv t \<longleftrightarrow> ip_tracker_ok cap t \<and> (\<forall>ip. int (ip_active_count t ip) \<le> max_flights)" for t
  have "Inv t \<Longrightarrow> Inv (fold (ip_step cap max_flights) es t)" for t
  proof (induction es arbitrary: t)
    case (Cons e es)
    then show ?case using step [of t e] by (simp add: Inv_def)
  qed simp
  moreover have "Inv ip_tracker_empty"
    using assms by (simp add: Inv_def ip_tracker_empty_def ip_tracker_ok_def ip_active_count_def)
  ultimately show ?thesis by (simp add: Inv_def)
qed

theorem ip_tracker_bounded_witness:
  "int (ip_active_count (fold (ip_step 2 1) [IpAcquire ''x'' 0, IpAcquire ''x'' 1, IpAcquire ''y'' 2, IpAcquire ''z'' 3]
     ip_tracker_empty) ''x'') \<le> 1"
  using ip_tracker_bounded [of 2 1] by (simp only: of_nat_1 zero_less_numeral zero_le_one simp_thms)

text \<open>
  The sweep drops addresses that were quiet for a minute even when they have flights, so a slow
  stream no longer counts and the limit is exceeded.
\<close>

lemma long_flight_is_forgotten:
  "snd (ip_try_acquire 100 ''x'' 1 60000 (fst (ip_try_acquire 100 ''x'' 1 60000 (fst (ip_try_acquire 100 ''x'' 1 0 ip_tracker_empty))))) = None \<and>
   snd (ip_try_acquire 100 ''x'' 1 60001 (fst (ip_try_acquire 100 ''x'' 1 0 ip_tracker_empty))) = Some ''x''"
  by (simp add: ip_try_acquire_def ip_tracker_empty_def ip_sweep_stale_def SWEEP_INTERVAL_MS_def jm_retain_def
      jm_set_def jm_get_def Let_def)

end
