(* ===== verification/RateLimiter.thy ===== *)
theory RateLimiter imports Flights begin

text \<open>
  The sliding-window rate limiter of the external API surface (\<open>src/traffic/rate-limiter.ts\<close>).
  A window is the list of accepted timestamps of an address, oldest first.
\<close>

record rate_limiter =
  rlm_windows :: "(string, int list) js_map"
  rlm_cleanup_counter :: int

text \<open>The constructor's fields.\<close>

record rate_limiter_config =
  rlc_max_requests :: int
  rlc_window_ms :: int
  rlc_max_tracked :: int

definition cleanup_every :: "rate_limiter_config \<Rightarrow> int" where
  "cleanup_every cfg = max 1 \<lfloor>of_int (rlc_max_requests cfg) * (1 / 10 :: rat)\<rfloor>"

definition rate_limiter_empty :: rate_limiter where
  "rate_limiter_empty = \<lparr>rlm_windows = [], rlm_cleanup_counter = 0\<rparr>"

definition limiter_evict_oldest :: "rate_limiter \<Rightarrow> rate_limiter" where
  "limiter_evict_oldest s = s\<lparr>rlm_windows := jm_evict_oldest (rlm_windows s)\<rparr>"

definition prune_window :: "int \<Rightarrow> int list \<Rightarrow> int list" where
  "prune_window cutoff ts = dropWhile (\<lambda>t. t \<le> cutoff) ts"

definition limiter_cleanup :: "int \<Rightarrow> (string, int list) js_map \<Rightarrow> (string, int list) js_map" where
  "limiter_cleanup cutoff ws =
     jm_retain (\<lambda>ip ts. \<not> (case ts of [] \<Rightarrow> True | t # _ \<Rightarrow> t \<le> cutoff)) ws"

definition limiter_try_acquire ::
  "rate_limiter_config \<Rightarrow> int \<Rightarrow> string \<Rightarrow> rate_limiter \<Rightarrow> rate_limiter \<times> bool \<times> int" where
  "limiter_try_acquire cfg now_ms ip s =
    (let s = (case jm_get (rlm_windows s) ip of
                Some ts \<Rightarrow> s
              | None \<Rightarrow>
                let s' = (if rlc_max_tracked cfg \<le> int (length (rlm_windows s)) then limiter_evict_oldest s else s)
                in s'\<lparr>rlm_windows := jm_set ip [] (rlm_windows s')\<rparr>);
         cutoff = now_ms - rlc_window_ms cfg;
         timestamps = prune_window cutoff (case jm_get (rlm_windows s) ip of None \<Rightarrow> [] | Some ts \<Rightarrow> ts);
         s = s\<lparr>rlm_windows := jm_set ip timestamps (rlm_windows s)\<rparr>
     in if rlc_max_requests cfg \<le> int (length timestamps)
        then let oldest = (case timestamps of [] \<Rightarrow> now_ms | t # _ \<Rightarrow> t)
          in (s, False, rlc_window_ms cfg - (now_ms - oldest))
        else let s = s\<lparr>rlm_windows := jm_set ip (timestamps @ [now_ms]) (rlm_windows s),
                       rlm_cleanup_counter := rlm_cleanup_counter s + 1\<rparr>
          in if cleanup_every cfg \<le> rlm_cleanup_counter s
             then (s\<lparr>rlm_cleanup_counter := 0,
                     rlm_windows := limiter_cleanup cutoff (rlm_windows s)\<rparr>, True, 0)
             else (s, True, 0))"

definition limiter_window :: "string \<Rightarrow> rate_limiter \<Rightarrow> int list" where
  "limiter_window ip s = (case jm_get (rlm_windows s) ip of None \<Rightarrow> [] | Some ts \<Rightarrow> ts)"

text \<open>A run of requests, each with its time and address, and which of them were accepted.\<close>

fun limiter_run :: "rate_limiter_config \<Rightarrow> (int \<times> string) list \<Rightarrow> rate_limiter \<Rightarrow> rate_limiter \<times> (int \<times> string) list" where
  "limiter_run cfg [] s = (s, [])"
| "limiter_run cfg ((t, ip) # rs) s =
     (let (s', allowed, retry) = limiter_try_acquire cfg t ip s;
          (s'', acc) = limiter_run cfg rs s'
      in (s'', if allowed then (t, ip) # acc else acc))"

subsection \<open>Lemmas\<close>

definition limiter_ok :: "rate_limiter_config \<Rightarrow> int \<Rightarrow> rate_limiter \<Rightarrow> bool" where
  "limiter_ok cfg now_ms s \<longleftrightarrow> jm_wf (rlm_windows s) \<and>
     int (length (rlm_windows s)) \<le> rlc_max_tracked cfg \<and>
     0 \<le> rlm_cleanup_counter s \<and> rlm_cleanup_counter s < cleanup_every cfg \<and>
     (\<forall>ip ts. jm_get (rlm_windows s) ip = Some ts \<longrightarrow>
        sorted ts \<and> int (length ts) \<le> rlc_max_requests cfg \<and> (\<forall>t \<in> set ts. t \<le> now_ms))"

lemma sorted_prune [simp]: "sorted ts \<Longrightarrow> sorted (prune_window c ts)"
  by (simp add: prune_window_def sorted_wrt_dropWhile)

lemma set_prune: "set (prune_window c ts) \<subseteq> set ts"
  by (auto simp: prune_window_def dest: set_dropWhileD)

lemma length_prune: "length (prune_window c ts) \<le> length ts"
  by (simp add: prune_window_def length_dropWhile_le)

text \<open>On a sorted window, pruning the head removes exactly the expired timestamps.\<close>

lemma prune_sorted: "sorted ts \<Longrightarrow> prune_window c ts = filter (\<lambda>t. c < t) ts"
proof (induction ts)
  case Nil
  then show ?case by (simp add: prune_window_def)
next
  case (Cons t ts)
  show ?case
  proof (cases "t \<le> c")
    case True
    then show ?thesis using Cons by (auto simp: prune_window_def)
  next
    case False
    then have "filter (\<lambda>t. c < t) ts = ts" using Cons.prems by (auto intro!: filter_True)
    then show ?thesis using False by (simp add: prune_window_def)
  qed
qed

lemma cleanup_every_pos: "1 \<le> cleanup_every cfg"
  by (simp add: cleanup_every_def)

text \<open>A request is accepted when fewer than the maximum of its tracked window are still inside.\<close>

lemma limiter_accepts_iff:
  "fst (snd (limiter_try_acquire cfg now_ms ip s)) \<longleftrightarrow>
     int (length (prune_window (now_ms - rlc_window_ms cfg) (limiter_window ip s))) < rlc_max_requests cfg"
  by (auto simp: limiter_try_acquire_def limiter_window_def Let_def split: option.split)

lemma limiter_try_acquire_ok:
  assumes ok: "limiter_ok cfg now_ms s" and "now_ms \<le> now'" and cap: "0 < rlc_max_tracked cfg"
    and "0 \<le> rlc_max_requests cfg"
  shows "limiter_ok cfg now' (fst (limiter_try_acquire cfg now' ip s))"
proof -
  let ?cutoff = "now' - rlc_window_ms cfg"
  let ?ts = "prune_window ?cutoff (limiter_window ip s)"
  define s1 where "s1 = (case jm_get (rlm_windows s) ip of
                Some ts \<Rightarrow> s
              | None \<Rightarrow>
                let s' = (if rlc_max_tracked cfg \<le> int (length (rlm_windows s)) then limiter_evict_oldest s else s)
                in s'\<lparr>rlm_windows := jm_set ip [] (rlm_windows s')\<rparr>)"
  have s1_ok: "limiter_ok cfg now' s1" and s1_ip: "jm_get (rlm_windows s1) ip = Some (limiter_window ip s)"
  proof -
    have wf: "jm_wf (rlm_windows s)" and len: "int (length (rlm_windows s)) \<le> rlc_max_tracked cfg"
      using ok by (simp_all add: limiter_ok_def)
    have ok': "limiter_ok cfg now' s" using ok assms(2) by (fastforce simp: limiter_ok_def)
    show "jm_get (rlm_windows s1) ip = Some (limiter_window ip s)"
      by (auto simp: s1_def limiter_window_def Let_def split: option.split)
    show "limiter_ok cfg now' s1"
    proof (cases "jm_get (rlm_windows s) ip")
      case (Some ts)
      then show ?thesis using ok' by (simp add: s1_def)
    next
      case None
      define e where "e = (if rlc_max_tracked cfg \<le> int (length (rlm_windows s)) then limiter_evict_oldest s else s)"
      have s1: "s1 = e\<lparr>rlm_windows := jm_set ip [] (rlm_windows e)\<rparr>" by (simp add: s1_def None e_def Let_def)
      have e: "limiter_ok cfg now' e" "int (length (rlm_windows e)) < rlc_max_tracked cfg"
        using ok' wf len cap length_jm_evict_oldest [OF wf]
        by (auto simp: e_def limiter_ok_def limiter_evict_oldest_def dest: jm_get_evict_oldest_Some)
      show ?thesis using e assms(4) by (auto simp: s1 limiter_ok_def length_jm_set)
    qed
  qed
  have win: "sorted (limiter_window ip s) \<and> int (length (limiter_window ip s)) \<le> rlc_max_requests cfg \<and>
      (\<forall>t \<in> set (limiter_window ip s). t \<le> now')"
    using s1_ok s1_ip by (auto simp: limiter_ok_def)
  have ts: "sorted ?ts" "int (length ?ts) \<le> rlc_max_requests cfg" "\<forall>t \<in> set ?ts. t \<le> now'"
    using win set_prune [of ?cutoff "limiter_window ip s"] length_prune [of ?cutoff "limiter_window ip s"]
    by auto
  define s2 where "s2 = s1\<lparr>rlm_windows := jm_set ip ?ts (rlm_windows s1)\<rparr>"
  have has: "jm_has (rlm_windows s1) ip" using s1_ip by (simp add: jm_has_def)
  have s2_ok: "limiter_ok cfg now' s2"
    using s1_ok ts has by (auto simp: s2_def limiter_ok_def length_jm_set)
  define s3 where "s3 = s2\<lparr>rlm_windows := jm_set ip (?ts @ [now']) (rlm_windows s2),
     rlm_cleanup_counter := rlm_cleanup_counter s2 + 1\<rparr>"
  have res: "fst (limiter_try_acquire cfg now' ip s) =
    (if rlc_max_requests cfg \<le> int (length ?ts) then s2
     else if cleanup_every cfg \<le> rlm_cleanup_counter s3
       then s3\<lparr>rlm_cleanup_counter := 0, rlm_windows := limiter_cleanup ?cutoff (rlm_windows s3)\<rparr> else s3)"
    unfolding limiter_try_acquire_def s1_def [symmetric]
    by (simp add: s1_ip s2_def s3_def Let_def)
  have s3: "jm_wf (rlm_windows s3)" "int (length (rlm_windows s3)) \<le> rlc_max_tracked cfg"
      "0 \<le> rlm_cleanup_counter s3"
      "rlc_max_requests cfg > int (length ?ts) \<Longrightarrow> jm_get (rlm_windows s3) j = Some us \<Longrightarrow>
        sorted us \<and> int (length us) \<le> rlc_max_requests cfg \<and> (\<forall>t \<in> set us. t \<le> now')" for j us
    using s2_ok has ts
    by (auto simp: s3_def s2_def limiter_ok_def length_jm_set jm_has_def sorted_append split: if_splits)
  show ?thesis
    unfolding res using s2_ok s3 cleanup_every_pos [of cfg]
    by (auto simp: limiter_ok_def limiter_cleanup_def jm_get_retain not_le split: option.splits if_splits
        intro: order_trans [OF of_nat_mono [OF length_jm_retain_le]])
qed

subsection \<open>One address: the sliding window bound\<close>

definition in_window :: "int \<Rightarrow> int \<Rightarrow> int list \<Rightarrow> nat" where
  "in_window w t ts = length (filter (\<lambda>u. t - w < u \<and> u \<le> t) ts)"

text \<open>
  While only one address is served, its tracked window is the unexpired end of everything it was
  granted, so no window of the configured length ever holds more than the maximum.
\<close>

definition tracks_ip :: "rate_limiter_config \<Rightarrow> int \<Rightarrow> string \<Rightarrow> int list \<Rightarrow> rate_limiter \<Rightarrow> bool" where
  "tracks_ip cfg now_ms ip granted s \<longleftrightarrow>
     (\<forall>k. k \<noteq> ip \<longrightarrow> jm_get (rlm_windows s) k = None) \<and> jm_wf (rlm_windows s) \<and>
     sorted granted \<and> (\<forall>u \<in> set granted. u \<le> now_ms) \<and>
     (\<exists>old. granted = old @ limiter_window ip s \<and> (\<forall>u \<in> set old. u \<le> now_ms - rlc_window_ms cfg)) \<and>
     (\<forall>t. int (in_window (rlc_window_ms cfg) t granted) \<le> rlc_max_requests cfg)"

lemma no_keys_Nil: "(\<forall>k. jm_get m k = None) \<Longrightarrow> m = []"
  by (cases m) (auto simp: jm_get_def split: if_splits)

lemma tracks_ip_step:
  assumes tr: "tracks_ip cfg now_ms ip granted s" and le: "now_ms \<le> now'"
    and cfg: "0 < rlc_max_tracked cfg" "0 < rlc_window_ms cfg"
    and run: "limiter_try_acquire cfg now' ip s = (s', allowed, retry)"
  shows "tracks_ip cfg now' ip (if allowed then granted @ [now'] else granted) s'"
proof -
  let ?c = "now' - rlc_window_ms cfg"
  let ?w = "limiter_window ip s"
  obtain old where gr: "granted = old @ ?w" and old: "\<forall>u \<in> set old. u \<le> now_ms - rlc_window_ms cfg"
    using tr by (auto simp: tracks_ip_def)
  have srt: "sorted granted" and le_now: "\<forall>u \<in> set granted. u \<le> now_ms" and wf: "jm_wf (rlm_windows s)"
    and only: "\<forall>k. k \<noteq> ip \<longrightarrow> jm_get (rlm_windows s) k = None"
    and bound: "\<And>t. int (in_window (rlc_window_ms cfg) t granted) \<le> rlc_max_requests cfg"
    using tr by (simp_all add: tracks_ip_def)
  let ?ts = "prune_window ?c ?w"
  have ws: "sorted ?w" using srt gr by (simp add: sorted_append)
  have ts: "?ts = filter (\<lambda>t. ?c < t) ?w" using ws by (rule prune_sorted)
  define m where "m = rlm_windows s"
  have emp: "m = []" if "jm_get m ip = None"
    using that only unfolding m_def by (intro no_keys_Nil) metis
  have keep: "\<not> (case ?ts @ [now'] of [] \<Rightarrow> True | t # _ \<Rightarrow> t \<le> ?c)"
  proof (cases ?ts)
    case Nil
    then show ?thesis using cfg(2) by simp
  next
    case (Cons t r)
    then have "t \<in> set (filter (\<lambda>t. ?c < t) ?w)" using ts by (metis list.set_intros(1))
    then show ?thesis using Cons by simp
  qed
  have ip_upd: "jm_get (jm_set ip x (jm_set ip y z)) k = jm_get (jm_set ip x z) k" for x y z k
    by simp
  have s': "jm_wf (rlm_windows s')" "\<forall>k. k \<noteq> ip \<longrightarrow> jm_get (rlm_windows s') k = None"
    "limiter_window ip s' = (if allowed then ?ts @ [now'] else ?ts)"
    "allowed \<longleftrightarrow> int (length ?ts) < rlc_max_requests cfg"
    using run only wf emp keep cfg(1)
    by (auto simp: limiter_try_acquire_def limiter_window_def limiter_evict_oldest_def limiter_cleanup_def
        jm_get_retain m_def Let_def split: option.splits if_splits)
  let ?g = "if allowed then granted @ [now'] else granted"
  define gone where "gone = old @ takeWhile (\<lambda>t. t \<le> ?c) ?w"
  have split_w: "?w = takeWhile (\<lambda>t. t \<le> ?c) ?w @ ?ts" by (simp add: prune_window_def)
  have g: "?g = gone @ limiter_window ip s'"
    using gr split_w s'(3) by (auto simp: gone_def)
  have gone_le: "\<forall>u \<in> set gone. u \<le> ?c" using old le by (force simp: gone_def dest: set_takeWhileD)
  have le': "\<forall>u \<in> set granted. u \<le> now'" using le_now le by (auto intro: order_trans)
  have gs: "sorted ?g" "\<forall>u \<in> set ?g. u \<le> now'" using srt le' by (auto simp: sorted_append)
  have "int (in_window (rlc_window_ms cfg) t ?g) \<le> rlc_max_requests cfg" for t
  proof (cases "allowed \<and> now' \<le> t")
    case False
    then have "in_window (rlc_window_ms cfg) t ?g = in_window (rlc_window_ms cfg) t granted"
      by (auto simp: in_window_def)
    then show ?thesis using bound by simp
  next
    case True
    have "filter (\<lambda>u. t - rlc_window_ms cfg < u \<and> u \<le> t) gone = []"
      using gone_le True by (fastforce simp: filter_empty_conv)
    then have "in_window (rlc_window_ms cfg) t ?g \<le> length (limiter_window ip s')"
      unfolding g by (simp add: in_window_def)
    then show ?thesis using s'(3,4) True by simp
  qed
  then show ?thesis
    using s'(1,2) gs g gone_le by (auto simp: tracks_ip_def)
qed

lemma limiter_run_bound:
  "\<lbrakk>tracks_ip cfg now_ms ip granted s; sorted (now_ms # map fst rs); \<forall>r \<in> set rs. snd r = ip;
    0 < rlc_max_tracked cfg; 0 < rlc_window_ms cfg; limiter_run cfg rs s = (s', acc)\<rbrakk>
   \<Longrightarrow> int (in_window (rlc_window_ms cfg) t (granted @ map fst acc)) \<le> rlc_max_requests cfg"
proof (induction rs arbitrary: s granted now_ms acc s')
  case Nil
  then show ?case by (simp add: tracks_ip_def)
next
  case (Cons r rs)
  obtain now' where r: "r = (now', ip)" using Cons.prems(3) by (cases r) auto
  obtain s1 al rt where st: "limiter_try_acquire cfg now' ip s = (s1, al, rt)" by (metis prod_cases3)
  obtain s2 acc' where rest: "limiter_run cfg rs s1 = (s2, acc')" by fastforce
  let ?g = "if al then granted @ [now'] else granted"
  have tr: "tracks_ip cfg now' ip ?g s1"
    by (rule tracks_ip_step [OF Cons.prems(1) _ Cons.prems(4,5) st]) (use Cons.prems(2) r in simp)
  have "int (in_window (rlc_window_ms cfg) t (?g @ map fst acc')) \<le> rlc_max_requests cfg"
    by (rule Cons.IH [OF tr _ _ Cons.prems(4,5) rest]) (use Cons.prems(2,3) r in auto)
  moreover have "?g @ map fst acc' = granted @ map fst acc"
    using Cons.prems(6) r st rest by auto
  ultimately show ?case by simp
qed

lemma tracks_ip_empty:
  "0 \<le> rlc_max_requests cfg \<Longrightarrow> tracks_ip cfg now_ms ip [] rate_limiter_empty"
  by (simp add: tracks_ip_def rate_limiter_empty_def limiter_window_def in_window_def)

subsection \<open>Properties\<close>

text \<open>
  The sliding window really bounds an address: when only one address sends requests at
  non-decreasing times, no window of the configured width ever contains more accepted requests
  than the maximum.
\<close>

theorem sliding_window_bound:
  assumes "limiter_run cfg rs rate_limiter_empty = (s, acc)" and "sorted (map fst rs)"
    and "\<forall>r \<in> set rs. snd r = ip" and "0 < rlc_max_tracked cfg" and "0 < rlc_window_ms cfg"
    and "0 \<le> rlc_max_requests cfg"
  shows "int (in_window (rlc_window_ms cfg) t (map fst acc)) \<le> rlc_max_requests cfg"
proof (cases rs)
  case Nil
  then show ?thesis using assms by (simp add: in_window_def)
next
  case (Cons r rest)
  have "sorted (fst r # map fst rs)" using assms(2) Cons by simp
  then show ?thesis
    using limiter_run_bound [OF tracks_ip_empty [OF assms(6)], of "fst r" rs ip s acc t] assms by simp
qed

theorem sliding_window_bound_witness:
  "int (in_window 1000 1500 (map fst (snd (limiter_run \<lparr>rlc_max_requests = 2, rlc_window_ms = 1000, rlc_max_tracked = 10\<rparr>
     [(0, ''x''), (600, ''x''), (900, ''x''), (1200, ''x'')] rate_limiter_empty)))) \<le> 2"
  using sliding_window_bound [of "\<lparr>rlc_max_requests = 2, rlc_window_ms = 1000, rlc_max_tracked = 10\<rparr>"
      "[(0, ''x''), (600, ''x''), (900, ''x''), (1200, ''x'')]" _ _ "''x''" 1500, OF prod.collapse [symmetric]]
  by simp

text \<open>
  The limiter's memory is bounded: along requests at non-decreasing times, from any addresses,
  it tracks at most the configured number of addresses and keeps at most the maximum number of
  timestamps for each.
\<close>

theorem limiter_memory_bounded:
  assumes "sorted (map fst rs)" and "0 < rlc_max_tracked cfg" and "0 \<le> rlc_max_requests cfg"
  shows "int (length (rlm_windows (fst (limiter_run cfg rs rate_limiter_empty)))) \<le> rlc_max_tracked cfg \<and>
    (\<forall>ip ts. jm_get (rlm_windows (fst (limiter_run cfg rs rate_limiter_empty))) ip = Some ts \<longrightarrow>
       int (length ts) \<le> rlc_max_requests cfg)"
proof -
  have run: "\<exists>u. limiter_ok cfg u (fst (limiter_run cfg rs s))"
    if "limiter_ok cfg now_ms s" "sorted (now_ms # map fst rs)" for now_ms s
    using that
  proof (induction rs arbitrary: s now_ms)
    case (Cons r rs)
    obtain u ip where r: "r = (u, ip)" by (cases r)
    have "limiter_ok cfg u (fst (limiter_try_acquire cfg u ip s))"
      using Cons.prems r assms(2,3) by (intro limiter_try_acquire_ok) auto
    from Cons.IH [OF this] show ?case using Cons.prems r by (auto simp: Let_def split: prod.splits)
  qed auto
  have "limiter_ok cfg u rate_limiter_empty" for u
    using assms(2) cleanup_every_pos [of cfg] by (simp add: limiter_ok_def rate_limiter_empty_def)
  then obtain u where "limiter_ok cfg u (fst (limiter_run cfg rs rate_limiter_empty))"
    using run assms(1) by (cases rs) (force, metis list.simps(9) order_refl sorted2)
  then show ?thesis by (auto simp: limiter_ok_def)
qed

theorem limiter_memory_bounded_witness:
  "int (length (rlm_windows (fst (limiter_run \<lparr>rlc_max_requests = 2, rlc_window_ms = 1000, rlc_max_tracked = 2\<rparr>
     [(0, ''x''), (1, ''y''), (2, ''z'')] rate_limiter_empty)))) \<le> 2"
  using limiter_memory_bounded [of "[(0, ''x''), (1, ''y''), (2, ''z'')]"
      "\<lparr>rlc_max_requests = 2, rlc_window_ms = 1000, rlc_max_tracked = 2\<rparr>"]
  by simp

text \<open>
  With two addresses the bound breaks: the cleanup that another address triggers drops a window
  whose oldest timestamp has expired together with its later timestamps. Three requests of one
  address are accepted within 103 ms where two per second are allowed.
\<close>

lemma cleanup_breaks_bound:
  "snd (limiter_run \<lparr>rlc_max_requests = 2, rlc_window_ms = 1000, rlc_max_tracked = 10\<rparr>
     [(0, ''a''), (900, ''a''), (1000, ''b''), (1001, ''a''), (1002, ''a'')] rate_limiter_empty) =
   [(0, ''a''), (900, ''a''), (1000, ''b''), (1001, ''a''), (1002, ''a'')]"
  by (simp add: limiter_try_acquire_def rate_limiter_empty_def cleanup_every_def limiter_cleanup_def jm_retain_def
      prune_window_def jm_set_def jm_get_def Let_def)

end
