(* ===== verification/Admission.thy ===== *)
theory Admission imports Flights JsDate begin

text \<open>
  API-key admission (\<open>src/traffic/admission.ts\<close>): requests per minute, concurrent requests and
  token budgets per key. A lease's closure holds the \<open>UsageWindow\<close> object it was charged to, also
  after the key has moved on to a newer window, so the windows live in a heap (\<open>ad_windows\<close>, by
  index) and \<open>ad_usage\<close> maps a key to the index of its current window. The calls of
  \<open>consumeOneTimeTokens\<close> on the key repository are the log \<open>ad_consumed\<close>.
\<close>

record api_key =
  ak_id :: string
  ak_rate_limit_rpm :: "rat option"
  ak_max_concurrent :: "rat option"
  ak_one_time_limit :: "rat option"
  ak_one_time_used :: int
  ak_daily_limit :: "rat option"
  ak_monthly_limit :: "rat option"

record admission_usage =
  au_input :: rat
  au_output :: rat

record rpm_bucket =
  rb_started_at :: int
  rb_count :: nat

record usage_window =
  uw_day :: string
  uw_month :: string
  uw_day_used :: int
  uw_month_used :: int

record admission =
  ad_rpm :: "(string, rpm_bucket) js_map"
  ad_in_flight :: "(string, nat) js_map"
  ad_reserved :: "(string, int) js_map"
  ad_usage :: "(string, nat) js_map"
  ad_windows :: "usage_window list"
  ad_consumed :: "(string \<times> int) list"

datatype admission_refusal = RpmExceeded | ConcurrencyLimit | OneTimeLimit | DailyLimit | MonthlyLimit

text \<open>What a lease's closure holds besides its \<open>settled\<close> flag.\<close>

record admission_lease =
  al_key :: api_key
  al_estimate :: int
  al_window :: nat

definition MONTH_MS :: int where "MONTH_MS = 31 * (24 * 60 * 60 * 1000)"

definition admission_initial :: admission where
  "admission_initial = \<lparr>ad_rpm = [], ad_in_flight = [], ad_reserved = [], ad_usage = [],
     ad_windows = [], ad_consumed = []\<rparr>"

definition now_day :: "int \<Rightarrow> string" where "now_day now_ms = take 10 (iso_string now_ms)"

definition now_month :: "int \<Rightarrow> string" where "now_month now_ms = take 7 (iso_string now_ms)"

definition bounded_limit :: "rat option \<Rightarrow> int option" where
  "bounded_limit v = (case v of None \<Rightarrow> None | Some q \<Rightarrow> if 0 \<le> q then Some \<lfloor>q\<rfloor> else None)"

definition reserved_of :: "int \<Rightarrow> admission \<Rightarrow> string \<Rightarrow> int" where
  "reserved_of d s k = (case jm_get (ad_reserved s) k of None \<Rightarrow> d | Some n \<Rightarrow> n)"

definition month_start :: "string \<Rightarrow> int option" where
  "month_start m = parse_iso (m @ ''-01T00:00:00.000Z'')"

definition admission_evict :: "int \<Rightarrow> int \<Rightarrow> admission \<Rightarrow> admission" where
  "admission_evict cap now_ms s =
    (if int (length (ad_rpm s)) \<le> cap \<and> int (length (ad_usage s)) \<le> cap then s
     else let stale_before = now_ms - MONTH_MS
       in s\<lparr>ad_rpm := jm_retain (\<lambda>k b. \<not> (rb_started_at b < stale_before \<and> count_of 0 (ad_in_flight s) k = 0)) (ad_rpm s),
            ad_usage := jm_retain (\<lambda>k w. \<not> ((case month_start (uw_month (ad_windows s ! w)) of
                  None \<Rightarrow> False | Some t \<Rightarrow> t < stale_before) \<and> count_of 0 (ad_in_flight s) k = 0)) (ad_usage s)\<rparr>)"

definition window_for :: "string \<Rightarrow> int \<Rightarrow> admission \<Rightarrow> admission \<times> nat" where
  "window_for key_id now_ms s =
    (let day = now_day now_ms; month = now_month now_ms; previous = jm_get (ad_usage s) key_id
     in case previous of
       Some w \<Rightarrow>
         if uw_day (ad_windows s ! w) = day \<and> uw_month (ad_windows s ! w) = month then (s, w)
         else (s\<lparr>ad_windows := ad_windows s @ [\<lparr>uw_day = day, uw_month = month, uw_day_used = 0,
                   uw_month_used = (if uw_month (ad_windows s ! w) = month
                     then uw_month_used (ad_windows s ! w) else 0)\<rparr>],
                 ad_usage := jm_set key_id (length (ad_windows s)) (ad_usage s)\<rparr>, length (ad_windows s))
     | None \<Rightarrow>
         (s\<lparr>ad_windows := ad_windows s @ [\<lparr>uw_day = day, uw_month = month, uw_day_used = 0, uw_month_used = 0\<rparr>],
            ad_usage := jm_set key_id (length (ad_windows s)) (ad_usage s)\<rparr>, length (ad_windows s)))"

definition add_usage :: "nat \<Rightarrow> int \<Rightarrow> admission \<Rightarrow> admission" where
  "add_usage w n s = s\<lparr>ad_windows := (ad_windows s)[w := (ad_windows s ! w)\<lparr>
     uw_day_used := uw_day_used (ad_windows s ! w) + n,
     uw_month_used := uw_month_used (ad_windows s ! w) + n\<rparr>]\<rparr>"

definition clamp_usage :: "nat \<Rightarrow> int \<Rightarrow> admission \<Rightarrow> admission" where
  "clamp_usage w n s = s\<lparr>ad_windows := (ad_windows s)[w := (ad_windows s ! w)\<lparr>
     uw_day_used := max 0 (uw_day_used (ad_windows s ! w) + n),
     uw_month_used := max 0 (uw_month_used (ad_windows s ! w) + n)\<rparr>]\<rparr>"

definition over :: "int option \<Rightarrow> int \<Rightarrow> bool" where
  "over limit n = (case limit of None \<Rightarrow> False | Some l \<Rightarrow> l < n)"

definition request_estimate :: "rat \<Rightarrow> int" where
  "request_estimate estimated_tokens = max 1 (min 10000000 \<lfloor>estimated_tokens\<rfloor>)"

definition admission_acquire ::
  "int \<Rightarrow> api_key \<Rightarrow> rat \<Rightarrow> int \<Rightarrow> admission \<Rightarrow> admission \<times> (admission_refusal + admission_lease)" where
  "admission_acquire cap key estimated_tokens now_ms s0 =
    (let s = admission_evict cap now_ms s0;
         estimate = request_estimate estimated_tokens;
         rpm = bounded_limit (ak_rate_limit_rpm key);
         bucket = jm_get (ad_rpm s) (ak_id key)
     in if (case (rpm, bucket) of
              (Some r, Some b) \<Rightarrow> now_ms - 60000 < rb_started_at b \<and> r \<le> int (rb_count b)
            | _ \<Rightarrow> False)
          then (s, Inl RpmExceeded)
     else let current = count_of 0 (ad_in_flight s) (ak_id key)
     in if (case bounded_limit (ak_max_concurrent key) of None \<Rightarrow> False | Some m \<Rightarrow> m \<le> int current)
          then (s, Inl ConcurrencyLimit)
     else let (s, w) = window_for (ak_id key) now_ms s;
              window = ad_windows s ! w;
              reserved = reserved_of 0 s (ak_id key)
     in if over (bounded_limit (ak_one_time_limit key)) (ak_one_time_used key + reserved + estimate)
          then (s, Inl OneTimeLimit)
     else if over (bounded_limit (ak_daily_limit key)) (uw_day_used window + estimate)
          then (s, Inl DailyLimit)
     else if over (bounded_limit (ak_monthly_limit key)) (uw_month_used window + estimate)
          then (s, Inl MonthlyLimit)
     else let fresh = (case bucket of None \<Rightarrow> True | Some b \<Rightarrow> rb_started_at b \<le> now_ms - 60000);
              bucket' = (if fresh then \<lparr>rb_started_at = now_ms, rb_count = 1\<rparr>
                         else (the bucket)\<lparr>rb_count := rb_count (the bucket) + 1\<rparr>);
              s = s\<lparr>ad_rpm := jm_set (ak_id key) bucket' (ad_rpm s),
                    ad_in_flight := jm_set (ak_id key) (current + 1) (ad_in_flight s),
                    ad_reserved := jm_set (ak_id key) (reserved + estimate) (ad_reserved s)\<rparr>
     in (add_usage w estimate s, Inr \<lparr>al_key = key, al_estimate = estimate, al_window = w\<rparr>))"

text \<open>\<open>finish\<close> after its guard: \<open>None\<close> is \<open>release\<close>, \<open>Some\<close> is \<open>commit\<close>.\<close>

definition actual_tokens :: "admission_usage \<Rightarrow> int" where
  "actual_tokens u = max 0 (\<lfloor>au_input u\<rfloor> + \<lfloor>au_output u\<rfloor>)"

definition admission_finish :: "admission_lease \<Rightarrow> admission_usage option \<Rightarrow> admission \<Rightarrow> admission" where
  "admission_finish l actual s =
    (let id = ak_id (al_key l);
         estimate = al_estimate l;
         active = count_of 1 (ad_in_flight s) id;
         s = s\<lparr>ad_in_flight := (if active \<le> 1 then jm_delete id (ad_in_flight s)
                               else jm_set id (active - 1) (ad_in_flight s))\<rparr>;
         current_reserved = reserved_of estimate s id;
         s = s\<lparr>ad_reserved := (if current_reserved \<le> estimate then jm_delete id (ad_reserved s)
                              else jm_set id (current_reserved - estimate) (ad_reserved s))\<rparr>
     in case map_option actual_tokens actual of
       None \<Rightarrow> clamp_usage (al_window l) (- estimate) s
     | Some tokens \<Rightarrow>
       (let s = clamp_usage (al_window l) (tokens - estimate) s
        in if 0 < tokens \<and> bounded_limit (ak_one_time_limit (al_key l)) \<noteq> None
           then s\<lparr>ad_consumed := ad_consumed s @ [(id, tokens)]\<rparr> else s))"

subsection \<open>The estimate of a request\<close>

text \<open>\<open>undefined\<close> fields and functions do not occur in a parsed body.\<close>

fun approx_length :: "nat \<Rightarrow> json \<Rightarrow> nat"
  and approx_items :: "nat \<Rightarrow> json list \<Rightarrow> nat"
  and approx_entries :: "nat \<Rightarrow> (string \<times> json) list \<Rightarrow> nat" where
  "approx_length depth v =
    (if 32 < depth then 0
     else case v of
       JStr s \<Rightarrow> length s + 2
     | JNum n \<Rightarrow> 8
     | JBool b \<Rightarrow> 8
     | JNull \<Rightarrow> 4
     | JArr vs \<Rightarrow> 2 + approx_items (Suc depth) vs
     | JObj fs \<Rightarrow> 2 + approx_entries (Suc depth) fs)"
| "approx_items depth [] = 0"
| "approx_items depth (v # vs) = approx_length depth v + 1 + approx_items depth vs"
| "approx_entries depth [] = 0"
| "approx_entries depth ((k, v) # fs) = length k + 4 + approx_length depth v + 1 + approx_entries depth fs"

definition estimate_request_tokens :: "(string \<times> json) list \<Rightarrow> int" where
  "estimate_request_tokens body =
     max 1 (min 10000000 \<lceil>of_nat (approx_length 0 (JObj body)) / (4 :: rat)\<rceil>)"

subsection \<open>Concurrency\<close>

definition admission_try ::
  "int \<Rightarrow> api_key \<times> rat \<times> int \<Rightarrow> admission \<Rightarrow> admission \<times> admission_lease option" where
  "admission_try cap a s =
    (case a of (key, estimated_tokens, now_ms) \<Rightarrow>
       (case admission_acquire cap key estimated_tokens now_ms s of
          (s', Inl e) \<Rightarrow> (s', None)
        | (s', Inr l) \<Rightarrow> (s', Some l)))"

lemma evict_in_flight [simp]: "ad_in_flight (admission_evict cap now_ms s) = ad_in_flight s"
  "ad_windows (admission_evict cap now_ms s) = ad_windows s"
  by (simp_all add: admission_evict_def Let_def)

lemma window_for_in_flight: "window_for k now_ms s = (s', w) \<Longrightarrow> ad_in_flight s' = ad_in_flight s"
  by (auto simp: window_for_def Let_def split: option.splits if_splits)

lemma usage_in_flight [simp]: "ad_in_flight (add_usage w n s) = ad_in_flight s"
  "ad_in_flight (clamp_usage w n s) = ad_in_flight s"
  by (simp_all add: add_usage_def clamp_usage_def)

lemma acquire_InrD:
  assumes "admission_acquire cap key est now_ms s = (s', Inr l)"
  shows "ad_in_flight s' = jm_set (ak_id key) (count_of 0 (ad_in_flight s) (ak_id key) + 1) (ad_in_flight s)"
    and "l = \<lparr>al_key = key, al_estimate = request_estimate est, al_window = al_window l\<rparr>"
    and "\<And>m. bounded_limit (ak_max_concurrent key) = Some m \<Longrightarrow> int (count_of 0 (ad_in_flight s) (ak_id key)) < m"
  using assms
  by (auto simp: admission_acquire_def Let_def split: if_splits prod.splits option.splits
      dest!: window_for_in_flight)

lemma acquire_InlD:
  assumes "admission_acquire cap key est now_ms s = (s', Inl e)"
  shows "ad_in_flight s' = ad_in_flight s"
  using assms
  by (auto simp: admission_acquire_def Let_def split: if_splits prod.splits option.splits
      dest!: window_for_in_flight)

lemma finish_in_flight:
  "ad_in_flight (admission_finish l u s) =
    (let id = ak_id (al_key l); active = count_of 1 (ad_in_flight s) id
     in if active \<le> 1 then jm_delete id (ad_in_flight s) else jm_set id (active - 1) (ad_in_flight s))"
  by (simp add: admission_finish_def Let_def split: option.split)

interpretation admissions: lease_counter
  "admission_try cap" "admission_finish" "\<lambda>l. ak_id (al_key l)" "\<lambda>s. count_of 0 (ad_in_flight s)"
  for cap :: int
proof unfold_locales
  fix a :: "api_key \<times> rat \<times> int" and s s' k l u
  obtain key est now_ms where a: "a = (key, est, now_ms)" by (cases a) auto
  show "admission_try cap a s = (s', None) \<Longrightarrow> count_of 0 (ad_in_flight s') k = count_of 0 (ad_in_flight s) k"
    by (auto simp: admission_try_def a dest!: acquire_InlD split: prod.splits sum.splits)
  show "admission_try cap a s = (s', Some l) \<Longrightarrow>
      count_of 0 (ad_in_flight s') k = count_of 0 (ad_in_flight s) k + (if ak_id (al_key l) = k then 1 else 0)"
    by (auto simp: admission_try_def a split: prod.splits sum.splits dest: acquire_InrD(1,2))
      (metis acquire_InrD(1,2) admission_lease.select_convs(1) count_of_set Suc_eq_plus1)+
  show "0 < count_of 0 (ad_in_flight s) (ak_id (al_key l)) \<Longrightarrow>
      count_of 0 (ad_in_flight (admission_finish l u s)) k =
      count_of 0 (ad_in_flight s) k - (if ak_id (al_key l) = k then 1 else 0)"
    by (auto simp: finish_in_flight Let_def count_of_default [where d = "Suc 0"])
qed

text \<open>Keys that set a limit: the live leases of each stay within it.\<close>

definition with_limits :: "(string \<Rightarrow> nat) \<Rightarrow> api_key \<times> rat \<times> int \<Rightarrow> api_key \<times> rat \<times> int" where
  "with_limits caps a = (case a of (key, est, now_ms) \<Rightarrow>
     (key\<lparr>ak_max_concurrent := Some (of_nat (caps (ak_id key)))\<rparr>, est, now_ms))"

lemma bounded_limit_of_nat [simp]: "bounded_limit (Some (of_nat n)) = Some (int n)"
  by (simp add: bounded_limit_def)

interpretation limited_admissions: bounded_lease_counter
  "\<lambda>a. admission_try cap (with_limits caps a)" "admission_finish" "\<lambda>l. ak_id (al_key l)"
  "\<lambda>s. count_of 0 (ad_in_flight s)" caps
  for cap :: int and caps :: "string \<Rightarrow> nat"
proof unfold_locales
  fix a :: "api_key \<times> rat \<times> int" and s s' k l u
  obtain key est now_ms where a: "with_limits caps a = (key, est, now_ms)"
      and caps: "ak_max_concurrent key = Some (of_nat (caps (ak_id key)))"
    by (cases a) (auto simp: with_limits_def)
  show "admission_try cap (with_limits caps a) s = (s', None) \<Longrightarrow>
      count_of 0 (ad_in_flight s') k = count_of 0 (ad_in_flight s) k"
    by (rule admissions.held_refuse)
  show "admission_try cap (with_limits caps a) s = (s', Some l) \<Longrightarrow>
      count_of 0 (ad_in_flight s') k = count_of 0 (ad_in_flight s) k + (if ak_id (al_key l) = k then 1 else 0)"
    by (rule admissions.held_acquire)
  show "0 < count_of 0 (ad_in_flight s) (ak_id (al_key l)) \<Longrightarrow>
      count_of 0 (ad_in_flight (admission_finish l u s)) k =
      count_of 0 (ad_in_flight s) k - (if ak_id (al_key l) = k then 1 else 0)"
    by (rule admissions.held_release)
  assume "admission_try cap (with_limits caps a) s = (s', Some l)"
  then have acq: "admission_acquire cap key est now_ms s = (s', Inr l)"
    by (auto simp: admission_try_def a split: prod.splits sum.splits)
  then have "al_key l = key" using acquire_InrD(2) by (metis admission_lease.select_convs(1))
  then show "count_of 0 (ad_in_flight s) (ak_id (al_key l)) < caps (ak_id (al_key l))"
    using acquire_InrD(3) [OF acq, of "int (caps (ak_id key))"] caps by simp
qed

subsection \<open>Token budgets\<close>

text \<open>
  The committed charges of a run: which window a lease was charged to and what the provider
  reported. Windows are named by their index in the heap.
\<close>

fun charges ::
  "int \<Rightarrow> (api_key \<times> rat \<times> int, admission_usage option) lease_event list \<Rightarrow>
   admission \<times> admission_lease lease_handle list \<Rightarrow> (nat \<times> int) list" where
  "charges cap [] x = []"
| "charges cap (e # es) (s, hs) =
    (case e of
       Release i (Some u) \<Rightarrow>
         if i < length hs \<and> \<not> lh_settled (hs ! i)
         then [(al_window (lh_what (hs ! i)), actual_tokens u)] else []
     | _ \<Rightarrow> []) @ charges cap es (lease_step (admission_try cap) admission_finish e (s, hs))"

definition charged :: "nat \<Rightarrow> (nat \<times> int) list \<Rightarrow> int" where
  "charged w cs = sum_list (map snd (filter (\<lambda>c. fst c = w) cs))"

definition reserved_in :: "nat \<Rightarrow> admission_lease lease_handle list \<Rightarrow> int" where
  "reserved_in w hs =
     sum_list (map (\<lambda>h. if \<not> lh_settled h \<and> al_window (lh_what h) = w then al_estimate (lh_what h) else 0) hs)"

definition windows_ok :: "admission \<Rightarrow> bool" where
  "windows_ok s \<longleftrightarrow> (\<forall>k w. jm_get (ad_usage s) k = Some w \<longrightarrow> w < length (ad_windows s)) \<and> jm_wf (ad_usage s)"

definition budget_ok :: "admission \<Rightarrow> admission_lease lease_handle list \<Rightarrow> (nat \<times> int) list \<Rightarrow> bool" where
  "budget_ok s hs cs \<longleftrightarrow> windows_ok s \<and>
     (\<forall>h \<in> set hs. al_window (lh_what h) < length (ad_windows s) \<and> 1 \<le> al_estimate (lh_what h)) \<and>
     (\<forall>c \<in> set cs. fst c < length (ad_windows s) \<and> 0 \<le> snd c) \<and>
     (\<forall>w < length (ad_windows s). uw_day_used (ad_windows s ! w) = reserved_in w hs + charged w cs)"

lemma windows_ok_evict: "windows_ok s \<Longrightarrow> windows_ok (admission_evict cap now_ms s)"
  by (auto simp: windows_ok_def admission_evict_def Let_def jm_get_retain split: option.splits if_splits)

lemma window_for_ok:
  assumes "windows_ok s" and "window_for k now_ms s = (s', w)"
  shows "windows_ok s'" and "w < length (ad_windows s')"
    and "ad_windows s' = ad_windows s \<or>
      (\<exists>x. ad_windows s' = ad_windows s @ [x] \<and> uw_day_used x = 0)"
    and "jm_get (ad_usage s') k = Some w"
  using assms
  by (auto simp: window_for_def windows_ok_def Let_def less_Suc_eq split: option.splits if_splits)

lemma reserved_in_absent: "(\<forall>h \<in> set hs. al_window (lh_what h) \<noteq> w) \<Longrightarrow> reserved_in w hs = 0"
  unfolding reserved_in_def by (induction hs) auto

lemma charged_absent: "(\<forall>c \<in> set cs. fst c \<noteq> w) \<Longrightarrow> charged w cs = 0"
  by (auto simp: charged_def filter_empty_conv)

lemma budget_window_for:
  assumes b: "budget_ok s hs cs" and w: "window_for k now_ms s = (s', w)"
  shows "budget_ok s' hs cs"
proof -
  note wf = window_for_ok [OF _ w]
  have ok: "windows_ok s" using b by (simp add: budget_ok_def)
  from wf(3) [OF ok] show ?thesis
  proof
    assume "ad_windows s' = ad_windows s"
    then show ?thesis using b wf(1) [OF ok] by (simp add: budget_ok_def)
  next
    assume "\<exists>x. ad_windows s' = ad_windows s @ [x] \<and> uw_day_used x = 0"
    then obtain x where x: "ad_windows s' = ad_windows s @ [x]" "uw_day_used x = 0" by blast
    have z: "reserved_in (length (ad_windows s)) hs = 0" "charged (length (ad_windows s)) cs = 0"
      using b by (auto simp: budget_ok_def intro!: reserved_in_absent charged_absent)
    show ?thesis
      using b wf(1) [OF ok] x z by (auto simp: budget_ok_def nth_append less_Suc_eq)
  qed
qed

text \<open>Two states with the same windows and usage map.\<close>

lemma budget_cong:
  "ad_windows s' = ad_windows s \<Longrightarrow> ad_usage s' = ad_usage s \<Longrightarrow> budget_ok s' hs cs = budget_ok s hs cs"
  by (simp add: budget_ok_def windows_ok_def)

lemma budget_evict: "budget_ok s hs cs \<Longrightarrow> budget_ok (admission_evict cap now_ms s) hs cs"
  using windows_ok_evict by (auto simp: budget_ok_def)

text \<open>An admission evicts, finds the window and charges the estimate to it; a refusal stops before.\<close>

lemma acquire_shape:
  assumes "admission_acquire cap key est now_ms s = (s', r)"
  shows "(\<exists>e. r = Inl e) \<and>
      (s' = admission_evict cap now_ms s \<or> (\<exists>w. window_for (ak_id key) now_ms (admission_evict cap now_ms s) = (s', w))) \<or>
    (\<exists>s1 w. window_for (ak_id key) now_ms (admission_evict cap now_ms s) = (s1, w) \<and>
       ad_windows s' = ad_windows (add_usage w (request_estimate est) s1) \<and> ad_usage s' = ad_usage s1 \<and>
       \<not> over (bounded_limit (ak_daily_limit key)) (uw_day_used (ad_windows s1 ! w) + request_estimate est) \<and>
       \<not> over (bounded_limit (ak_monthly_limit key)) (uw_month_used (ad_windows s1 ! w) + request_estimate est) \<and>
       r = Inr \<lparr>al_key = key, al_estimate = request_estimate est, al_window = w\<rparr>)"
proof -
  obtain s1 w where w: "window_for (ak_id key) now_ms (admission_evict cap now_ms s) = (s1, w)" by fastforce
  show ?thesis
    using assms unfolding admission_acquire_def Let_def w prod.case
    by (simp only: split: if_splits) (auto simp: w add_usage_def split: if_splits)
qed

lemma request_estimate_pos: "1 \<le> request_estimate est"
  by (simp add: request_estimate_def)

lemma reserved_in_snoc:
  "reserved_in w (hs @ [\<lparr>lh_what = l, lh_settled = False\<rparr>]) =
   reserved_in w hs + (if al_window l = w then al_estimate l else 0)"
  by (simp add: reserved_in_def)

lemma sum_list_nth_update:
  fixes f :: "'a \<Rightarrow> int"
  shows "i < length xs \<Longrightarrow> sum_list (map f (xs[i := y])) = sum_list (map f xs) - f (xs ! i) + f y"
proof (induction xs arbitrary: i)
  case Nil
  then show ?case by simp
next
  case (Cons x xs)
  then show ?case by (cases i) simp_all
qed

lemma reserved_in_settle:
  assumes "i < length hs" and "\<not> lh_settled (hs ! i)"
  shows "reserved_in w (hs[i := (hs ! i)\<lparr>lh_settled := True\<rparr>]) =
    reserved_in w hs - (if al_window (lh_what (hs ! i)) = w then al_estimate (lh_what (hs ! i)) else 0)"
  using assms by (simp add: reserved_in_def sum_list_nth_update)

lemma reserved_in_ge:
  assumes "i < length hs" and "\<not> lh_settled (hs ! i)" and "\<forall>h \<in> set hs. 1 \<le> al_estimate (lh_what h)"
  shows "al_estimate (lh_what (hs ! i)) \<le> reserved_in (al_window (lh_what (hs ! i))) hs"
proof -
  let ?w = "al_window (lh_what (hs ! i))"
  have "0 \<le> reserved_in ?w (hs[i := (hs ! i)\<lparr>lh_settled := True\<rparr>])"
    unfolding reserved_in_def
    using assms by (intro sum_list_nonneg) (auto dest!: set_update_subset_insert [THEN subsetD])
  then show ?thesis using reserved_in_settle [OF assms(1,2), of ?w] by simp
qed

lemma charged_nonneg: "\<forall>c \<in> set cs. 0 \<le> snd c \<Longrightarrow> 0 \<le> charged w cs"
  unfolding charged_def by (intro sum_list_nonneg) auto

lemma charged_snoc [simp]: "charged w (cs @ [(v, n)]) = charged w cs + (if v = w then n else 0)"
  by (simp add: charged_def)

lemma budget_acquire:
  assumes b: "budget_ok s hs cs" and acq: "admission_acquire cap key est now_ms s = (s', Inr l)"
  shows "budget_ok s' (hs @ [\<lparr>lh_what = l, lh_settled = False\<rparr>]) cs"
proof -
  obtain s1 w where w: "window_for (ak_id key) now_ms (admission_evict cap now_ms s) = (s1, w)"
    and s': "ad_windows s' = ad_windows (add_usage w (request_estimate est) s1)" "ad_usage s' = ad_usage s1"
    and l: "l = \<lparr>al_key = key, al_estimate = request_estimate est, al_window = w\<rparr>"
    using acquire_shape [OF acq] by auto
  have b0: "budget_ok (admission_evict cap now_ms s) hs cs" using b by (rule budget_evict)
  have b1: "budget_ok s1 hs cs" using b0 w by (rule budget_window_for)
  have "w < length (ad_windows s1)"
    using window_for_ok(2) [OF _ w] b0 by (simp add: budget_ok_def)
  then show ?thesis
    using b1 by (auto simp: s' l budget_ok_def windows_ok_def add_usage_def reserved_in_snoc nth_list_update
        request_estimate_pos)
qed

lemma finish_windows:
  "ad_usage (admission_finish l u s) = ad_usage s"
  "ad_windows (admission_finish l u s) =
     ad_windows (clamp_usage (al_window l)
       ((case u of None \<Rightarrow> 0 | Some v \<Rightarrow> actual_tokens v) - al_estimate l) s)"
  by (simp_all add: admission_finish_def clamp_usage_def Let_def split: option.split)

lemma budget_finish:
  assumes b: "budget_ok s hs cs" and i: "i < length hs" "\<not> lh_settled (hs ! i)"
  shows "budget_ok (admission_finish (lh_what (hs ! i)) u s) (hs[i := (hs ! i)\<lparr>lh_settled := True\<rparr>])
    (cs @ (case u of None \<Rightarrow> [] | Some v \<Rightarrow> [(al_window (lh_what (hs ! i)), actual_tokens v)]))"
proof -
  let ?l = "lh_what (hs ! i)"
  let ?n = "case u of None \<Rightarrow> 0 | Some v \<Rightarrow> actual_tokens v"
  have n: "0 \<le> ?n" by (simp add: actual_tokens_def split: option.split)
  have hs: "\<forall>h \<in> set hs. al_window (lh_what h) < length (ad_windows s) \<and> 1 \<le> al_estimate (lh_what h)"
    and cs: "\<forall>c \<in> set cs. fst c < length (ad_windows s) \<and> 0 \<le> snd c"
    and used: "\<And>w. w < length (ad_windows s) \<Longrightarrow> uw_day_used (ad_windows s ! w) = reserved_in w hs + charged w cs"
    using b by (simp_all add: budget_ok_def)
  have w: "al_window ?l < length (ad_windows s)" using hs i(1) by simp
  have "al_estimate ?l \<le> uw_day_used (ad_windows s ! al_window ?l)"
    using reserved_in_ge [OF i] hs charged_nonneg [of cs "al_window ?l"] cs used [OF w] by fastforce
  then have noclamp: "max 0 (uw_day_used (ad_windows s ! al_window ?l) + (?n - al_estimate ?l)) =
      uw_day_used (ad_windows s ! al_window ?l) + (?n - al_estimate ?l)"
    using n by simp
  have ch: "charged v (cs @ (case u of None \<Rightarrow> [] | Some x \<Rightarrow> [(al_window ?l, actual_tokens x)])) =
      charged v cs + (if al_window ?l = v then ?n else 0)" for v
    by (simp split: option.split)
  have hs': "\<forall>h \<in> set (hs[i := (hs ! i)\<lparr>lh_settled := True\<rparr>]).
      al_window (lh_what h) < length (ad_windows s) \<and> 1 \<le> al_estimate (lh_what h)"
    using hs i(1) by (auto dest!: set_update_subset_insert [THEN subsetD])
  show ?thesis
    using b hs' cs w n used noclamp
    unfolding budget_ok_def windows_ok_def finish_windows ch reserved_in_settle [OF i]
    by (auto simp: clamp_usage_def nth_list_update split: option.split)
qed

lemma budget_step:
  assumes b: "budget_ok s hs cs" and st: "lease_step (admission_try cap) admission_finish e (s, hs) = (s', hs')"
  shows "budget_ok s' hs' (cs @ charges cap [e] (s, hs))"
proof (cases e)
  case (Acquire a)
  obtain key est now_ms where a: "a = (key, est, now_ms)" by (cases a) auto
  obtain t r where acq: "admission_acquire cap key est now_ms s = (t, r)" by fastforce
  show ?thesis
  proof (cases r)
    case (Inl x)
    then have "t = admission_evict cap now_ms s \<or>
        (\<exists>w. window_for (ak_id key) now_ms (admission_evict cap now_ms s) = (t, w))"
      using acquire_shape [OF acq] by auto
    then have "budget_ok t hs cs" using budget_evict [OF b] budget_window_for by blast
    then show ?thesis using st Acquire a acq Inl by (auto simp: admission_try_def)
  next
    case (Inr l)
    then show ?thesis using budget_acquire [OF b, of cap key est now_ms t l] acq st Acquire a
      by (auto simp: admission_try_def)
  qed
next
  case (Release i u)
  show ?thesis
  proof (cases "i < length hs \<and> \<not> lh_settled (hs ! i)")
    case True
    then show ?thesis using budget_finish [OF b, of i u] st Release by (auto split: option.splits)
  next
    case False
    then show ?thesis using b st Release by (auto split: option.splits)
  qed
qed

lemma charges_Cons:
  "charges cap (e # es) (s, hs) =
   charges cap [e] (s, hs) @ charges cap es (lease_step (admission_try cap) admission_finish e (s, hs))"
  by (cases "lease_step (admission_try cap) admission_finish e (s, hs)") simp

lemma budget_run:
  "budget_ok s hs cs \<Longrightarrow> lease_run (admission_try cap) admission_finish es (s, hs) = (s', hs') \<Longrightarrow>
   budget_ok s' hs' (cs @ charges cap es (s, hs))"
proof (induction es arbitrary: s hs cs)
  case Nil
  then show ?case by simp
next
  case (Cons e es)
  obtain s1 hs1 where st: "lease_step (admission_try cap) admission_finish e (s, hs) = (s1, hs1)" by fastforce
  have "budget_ok s' hs' ((cs @ charges cap [e] (s, hs)) @ charges cap es (s1, hs1))"
    using Cons.IH [OF budget_step [OF Cons.prems(1) st]] Cons.prems(2) st by simp
  then show ?case unfolding charges_Cons [of cap e es s hs] st append.assoc .
qed

lemma budget_initial: "budget_ok admission_initial [] []"
  by (simp add: budget_ok_def windows_ok_def admission_initial_def)

subsection \<open>Properties\<close>

text \<open>
  C20: The concurrency limit of an API key holds: with a fixed limit per key, after any sequence of
  admissions and (possibly repeated) finishes the in-flight counter of every key equals the number
  of its unfinished leases and never exceeds the limit.
\<close>

theorem admission_concurrency_bounded:
  assumes "lease_run (\<lambda>a. admission_try cap (with_limits caps a)) admission_finish es (admission_initial, []) = (s, hs)"
  shows "count_of 0 (ad_in_flight s) k = live (\<lambda>l. ak_id (al_key l)) k hs \<and> count_of 0 (ad_in_flight s) k \<le> caps k"
proof -
  have start: "\<And>k. count_of 0 (ad_in_flight admission_initial) k = live (\<lambda>l. ak_id (al_key l)) k []"
    "\<And>k. count_of 0 (ad_in_flight admission_initial) k \<le> caps k"
    by (simp_all add: admission_initial_def count_of_def)
  have "count_of 0 (ad_in_flight s) k = live (\<lambda>l. ak_id (al_key l)) k hs"
    using limited_admissions.run_accounts [OF start(1) assms] .
  then show ?thesis using limited_admissions.run_bounded [OF start assms, of k] by simp
qed

definition sample_key :: api_key where
  "sample_key = \<lparr>ak_id = ''k'', ak_rate_limit_rpm = None, ak_max_concurrent = None, ak_one_time_limit = None,
     ak_one_time_used = 0, ak_daily_limit = Some 1000, ak_monthly_limit = None\<rparr>"

theorem admission_concurrency_bounded_witness:
  "count_of 0 (ad_in_flight (fst (lease_run (\<lambda>a. admission_try 10 (with_limits (\<lambda>_. 1) a)) admission_finish
     [Acquire (sample_key, 5, 0), Acquire (sample_key, 5, 1), Release 0 None] (admission_initial, [])))) ''k'' \<le> 1"
  using admission_concurrency_bounded [of 10 "\<lambda>_. 1" "[Acquire (sample_key, 5, 0), Acquire (sample_key, 5, 1), Release 0 None]"
      _ _ "''k''", OF prod.collapse [symmetric]]
  by simp

text \<open>
  C21: The daily budget is exact: in every usage window the tokens counted as used are the estimates
  of the leases that are still open plus the tokens actually charged by the finished ones. A
  finished lease gives its estimate back once, whatever order leases open and finish in.
\<close>

theorem admission_budget_exact:
  assumes "lease_run (admission_try cap) admission_finish es (admission_initial, []) = (s, hs)"
    and "w < length (ad_windows s)"
  shows "uw_day_used (ad_windows s ! w) = reserved_in w hs + charged w (charges cap es (admission_initial, []))"
  using budget_run [OF budget_initial assms(1)] assms(2) by (simp add: budget_ok_def)

theorem admission_budget_exact_witness:
  "uw_day_used (ad_windows (fst (lease_run (admission_try 10) admission_finish [Acquire (sample_key, 5, 0)]
      (admission_initial, []))) ! 0) = 5"
proof -
  have run: "ad_windows (fst (lease_run (admission_try 10) admission_finish [Acquire (sample_key, 5, 0)] (admission_initial, []))) \<noteq> [] \<and>
      reserved_in 0 (snd (lease_run (admission_try 10) admission_finish [Acquire (sample_key, 5, 0)] (admission_initial, []))) = 5"
    by (simp add: admission_try_def admission_acquire_def admission_evict_def admission_initial_def sample_key_def
        request_estimate_def bounded_limit_def window_for_def add_usage_def over_def reserved_of_def count_of_def
        reserved_in_def jm_get_def jm_set_def Let_def)
  then have "0 < length (ad_windows (fst (lease_run (admission_try 10) admission_finish [Acquire (sample_key, 5, 0)]
      (admission_initial, []))))" by blast
  from admission_budget_exact [OF prod.collapse [symmetric] this] run show ?thesis by (simp add: charged_def)
qed

end
