(* ===== verification/NetworkSelect.thy ===== *)
theory NetworkSelect imports Health Routing Flights begin

text \<open>
  Network path selection (\<open>src/traffic/network.ts\<close>, the routing half): the proxy pool with its two
  caches and generation counter, and \<open>NetworkSelector.select\<close>. The pool's loads are asynchronous:
  starting a load, its resolution or rejection, and the continuation of an \<open>enabledFor\<close> that
  awaited it are separate steps. \<open>localeCompare\<close> is the argument \<open>compare\<close>.
\<close>

subsection \<open>Environment helpers\<close>

record proxy_config =
  px_id :: string
  px_url :: string
  px_relay :: "bool option"
  px_enabled :: bool
  px_max_concurrency :: int
  px_priority :: int
  px_weight :: int
  px_excluded :: "string list"

definition env_boolean :: "string option \<Rightarrow> bool \<Rightarrow> bool" where
  "env_boolean v fallback = (case v of
      None \<Rightarrow> fallback
    | Some s \<Rightarrow> (let n = to_lower (trim s)
        in if n \<in> set [''true'', ''1'', ''yes''] then True
           else if n \<in> set [''false'', ''0'', ''no''] then False
           else fallback))"

text \<open>\<open>Number(value)\<close> is the argument \<open>number\<close>.\<close>

definition env_number :: "(string \<Rightarrow> js_num) \<Rightarrow> string option \<Rightarrow> rat \<Rightarrow> rat" where
  "env_number number v fallback = (case v of
      None \<Rightarrow> fallback
    | Some s \<Rightarrow> (case js_finite (number s) of None \<Rightarrow> fallback | Some q \<Rightarrow> q))"

text \<open>\<open>toUpperCase\<close> maps the sharp s to two letters; other non-ASCII letters stay non-ASCII.\<close>

definition upper_char :: "char \<Rightarrow> string" where
  "upper_char c = (let k = char_code c in
     if 97 \<le> k \<and> k \<le> 122 then [char_of (k - 32)] else if k = 223 then ''SS'' else [c])"

definition is_suffix_char :: "char \<Rightarrow> bool" where
  "is_suffix_char c \<longleftrightarrow> is_digit_char c \<or> (65 \<le> char_code c \<and> char_code c \<le> 90)"

definition proxy_env_suffix :: "string \<Rightarrow> string" where
  "proxy_env_suffix v = map (\<lambda>c. if is_suffix_char c then c else CHR ''_'') (concat (map upper_char v))"

definition proxy_id_from_suffix :: "string \<Rightarrow> string" where
  "proxy_id_from_suffix s = map (\<lambda>c. if c = CHR ''_'' then CHR ''-'' else c) (to_lower s)"

subsection \<open>The proxy pool\<close>

record proxy_pool =
  pl_cached :: "proxy_config list option"
  pl_load :: "nat option"                       \<comment> \<open>\<open>loadPromise\<close>\<close>
  pl_loads :: "(nat, nat) js_map"               \<comment> \<open>pending loads with their captured generation\<close>
  pl_next :: nat
  pl_generation :: nat
  pl_enabled_cache :: "(string, proxy_config list) js_map"

definition pool_initial :: proxy_pool where
  "pool_initial = \<lparr>pl_cached = None, pl_load = None, pl_loads = [], pl_next = 0, pl_generation = 0,
     pl_enabled_cache = []\<rparr>"

definition pool_invalidate :: "proxy_pool \<Rightarrow> proxy_pool" where
  "pool_invalidate p = p\<lparr>pl_cached := None, pl_load := None, pl_enabled_cache := [],
     pl_generation := pl_generation p + 1\<rparr>"

text \<open>\<open>list()\<close>: the value at once, or the promise to wait for.\<close>

definition pool_list :: "proxy_pool \<Rightarrow> proxy_pool \<times> (proxy_config list + nat)" where
  "pool_list p =
    (case pl_cached p of
       Some ps \<Rightarrow> (p, Inl ps)
     | None \<Rightarrow>
       (case pl_load p of
          Some l \<Rightarrow> (p, Inr l)
        | None \<Rightarrow>
          let l = pl_next p
          in (p\<lparr>pl_load := Some l, pl_loads := jm_set l (pl_generation p) (pl_loads p), pl_next := l + 1\<rparr>, Inr l)))"

definition proxy_order :: "(string \<Rightarrow> string \<Rightarrow> int) \<Rightarrow> proxy_config \<Rightarrow> proxy_config \<Rightarrow> int" where
  "proxy_order compare a b =
    (if px_priority b - px_priority a \<noteq> 0 then px_priority b - px_priority a else compare (px_id a) (px_id b))"

text \<open>The \<open>then\<close> callback of load \<open>l\<close> with what \<open>listProxies\<close> yielded.\<close>

definition pool_load_resolve ::
  "(string \<Rightarrow> string \<Rightarrow> int) \<Rightarrow> nat \<Rightarrow> proxy_config list \<Rightarrow> proxy_pool \<Rightarrow> proxy_pool \<times> proxy_config list" where
  "pool_load_resolve compare l proxies p =
    (let sorted_proxies = js_sort (proxy_order compare) proxies;
         p' = (if jm_get (pl_loads p) l = Some (pl_generation p) then p\<lparr>pl_cached := Some sorted_proxies\<rparr> else p);
         p'' = (if pl_load p' = Some l then p'\<lparr>pl_load := None\<rparr> else p')
     in (p''\<lparr>pl_loads := jm_delete l (pl_loads p'')\<rparr>, sorted_proxies))"

definition pool_load_reject :: "nat \<Rightarrow> proxy_pool \<Rightarrow> proxy_pool" where
  "pool_load_reject l p =
    (let p' = (if pl_load p = Some l then p\<lparr>pl_load := None\<rparr> else p)
     in p'\<lparr>pl_loads := jm_delete l (pl_loads p')\<rparr>)"

definition enabled_filter :: "string \<Rightarrow> proxy_config list \<Rightarrow> proxy_config list" where
  "enabled_filter provider_id ps = filter (\<lambda>x. px_enabled x \<and> provider_id \<notin> set (px_excluded x)) ps"

text \<open>\<open>enabledFor\<close> up to its await, and its continuation with the list.\<close>

definition enabled_for_start :: "string \<Rightarrow> proxy_pool \<Rightarrow> proxy_pool \<times> (proxy_config list + (proxy_config list + nat))" where
  "enabled_for_start provider_id p =
    (case jm_get (pl_enabled_cache p) provider_id of
       Some ps \<Rightarrow> (p, Inl ps)
     | None \<Rightarrow> (let (p', r) = pool_list p in (p', Inr r)))"

definition enabled_for_finish :: "string \<Rightarrow> proxy_config list \<Rightarrow> proxy_pool \<Rightarrow> proxy_pool \<times> proxy_config list" where
  "enabled_for_finish provider_id proxies p =
    (let filtered = enabled_filter provider_id proxies
     in (p\<lparr>pl_enabled_cache := jm_set provider_id filtered (pl_enabled_cache p)\<rparr>, filtered))"

definition pool_acquire_slot ::
  "proxy_config list \<Rightarrow> string \<Rightarrow> int option \<Rightarrow> slots \<Rightarrow> slots \<times> string option" where
  "pool_acquire_slot listed proxy_id override s =
    (case find (\<lambda>x. px_id x = proxy_id) listed of
       None \<Rightarrow> (s, None)
     | Some x \<Rightarrow>
       if \<not> px_enabled x then (s, None)
       else slot_try_acquire proxy_id
         (case override of None \<Rightarrow> px_max_concurrency x | Some m \<Rightarrow> min (px_max_concurrency x) m) s)"

subsection \<open>Selection\<close>

record routing_policy =
  rp_preset :: routing_preset
  rp_target_concurrent :: int

datatype selection_reason = DirectForced | ViaProxy | ProxyBusyDirect | ProxyUnhealthyDirect | ProxyDisabledDirect

record network_selection =
  ns_proxy_id :: "string option"
  ns_url :: "string option"
  ns_relay :: "bool option"
  ns_reason :: selection_reason

record select_input =
  si_provider_id :: string
  si_prefer_direct :: bool
  si_allow_direct :: "bool option"
  si_preferred :: "string option"
  si_affinity :: "string option"

definition stable_hash :: "string \<Rightarrow> int" where
  "stable_hash v = uint (foldl (\<lambda>h c. (h XOR word_of_nat (char_code c)) * 16777619) (2166136261 :: 32 word) v)"

definition direct_result :: "selection_reason \<Rightarrow> network_selection" where
  "direct_result reason = \<lparr>ns_proxy_id = None, ns_url = None, ns_relay = None, ns_reason = reason\<rparr>"

definition index_of :: "proxy_config list \<Rightarrow> string \<Rightarrow> int" where
  "index_of cs k = (let i = length (takeWhile (\<lambda>c. px_id c \<noteq> k) cs) in if i < length cs then int i else -1)"

text \<open>JavaScript's \<open>%\<close> takes the sign of the dividend.\<close>

definition js_mod :: "int \<Rightarrow> int \<Rightarrow> int" where
  "js_mod a b = (if a < 0 then - ((- a) mod b) else a mod b)"

definition base_capacity :: "routing_policy \<Rightarrow> proxy_config \<Rightarrow> int" where
  "base_capacity policy x =
    (if rp_preset policy = RpTargetConcurrent \<and> 0 < rp_target_concurrent policy
     then min (px_max_concurrency x) (rp_target_concurrent policy) else px_max_concurrency x)"

definition proxy_load :: "routing_policy \<Rightarrow> slots \<Rightarrow> proxy_config \<Rightarrow> rat" where
  "proxy_load policy s x =
     of_nat (slot_active_count s (px_id x)) /
     max 1 (of_int (base_capacity policy x) * of_int (max 1 (px_weight x)) / 100)"

definition truthy :: "string option \<Rightarrow> bool" where
  "truthy v \<longleftrightarrow> v \<noteq> None \<and> v \<noteq> Some []"

definition selection_order ::
  "(string \<Rightarrow> string \<Rightarrow> int) \<Rightarrow> routing_policy \<Rightarrow> select_input \<Rightarrow> slots \<Rightarrow> proxy_config list \<Rightarrow>
   proxy_config \<Rightarrow> proxy_config \<Rightarrow> int" where
  "selection_order compare policy inp s candidates a b =
    (let is_preferred = (\<lambda>x. if Some (px_id x) = si_preferred inp then 1 else 0 :: int);
         preferred_diff = is_preferred b - is_preferred a;
         n = int (length candidates)
     in if preferred_diff \<noteq> 0 then preferred_diff
        else if rp_preset policy = RpTargetUser \<and> truthy (si_affinity inp)
        then let seed = stable_hash (the (si_affinity inp) @ '':'' @ si_provider_id inp);
                 offset = js_mod seed n;
                 a_index = index_of candidates (px_id a);
                 b_index = index_of candidates (px_id b)
          in js_mod (a_index - offset + n) n - js_mod (b_index - offset + n) n
        else let load_diff = proxy_load policy s a - proxy_load policy s b
          in if load_diff < 0 then -1 else if 0 < load_diff then 1
             else proxy_order compare a b)"

fun acquire_first ::
  "proxy_config list \<Rightarrow> int option \<Rightarrow> proxy_config list \<Rightarrow> slots \<Rightarrow> slots \<times> proxy_config option" where
  "acquire_first listed override [] s = (s, None)"
| "acquire_first listed override (x # xs) s =
     (case pool_acquire_slot listed (px_id x) override s of
        (s', Some h) \<Rightarrow> (s', Some x)
      | (s', None) \<Rightarrow> acquire_first listed override xs s')"

text \<open>
  \<open>select\<close> once the pool has answered: \<open>enabled\<close> is what \<open>enabledFor\<close> yielded and \<open>listed\<close> the
  list \<open>acquireSlot\<close> finds the proxy in.
\<close>

definition network_select ::
  "(string \<Rightarrow> string \<Rightarrow> int) \<Rightarrow> routing_policy \<Rightarrow> select_input \<Rightarrow> int \<Rightarrow> proxy_store \<Rightarrow>
   proxy_config list \<Rightarrow> proxy_config list \<Rightarrow> slots \<Rightarrow> slots \<times> network_selection option" where
  "network_select compare policy inp now_ms health listed enabled s =
    (if si_prefer_direct inp then (s, Some (direct_result DirectForced))
     else if enabled = []
       then (s, if si_allow_direct inp = Some False then None else Some (direct_result ProxyDisabledDirect))
     else let candidates = filter (\<lambda>x. proxy_is_usable (px_id x) now_ms health) enabled;
              ordered = js_sort (selection_order compare policy inp s candidates) candidates;
              override = (if rp_preset policy = RpTargetConcurrent \<and> 0 < rp_target_concurrent policy
                          then Some (rp_target_concurrent policy) else None)
       in case acquire_first listed override ordered s of
         (s', Some x) \<Rightarrow>
           (s', Some \<lparr>ns_proxy_id = Some (px_id x), ns_url = Some (px_url x), ns_relay = px_relay x,
                      ns_reason = ViaProxy\<rparr>)
       | (s', None) \<Rightarrow>
           (s', if si_allow_direct inp = Some False then None
                else Some (direct_result (if candidates \<noteq> [] then ProxyBusyDirect else ProxyUnhealthyDirect))))"

subsection \<open>Lemmas\<close>

lemma pool_acquire_slot_fail: "pool_acquire_slot listed k ov s = (s', None) \<Longrightarrow> s' = s"
  by (auto simp: pool_acquire_slot_def slot_try_acquire_def Let_def split: option.splits if_splits)

lemma pool_acquire_slot_SomeD:
  assumes "pool_acquire_slot listed k ov s = (s', Some h)"
  shows "h = k \<and> s' = jm_set k (slot_active_count s k + 1) s \<and>
    (\<exists>x \<in> set listed. px_id x = k \<and> px_enabled x \<and> int (slot_active_count s k) < px_max_concurrency x \<and>
      (\<forall>m. ov = Some m \<longrightarrow> int (slot_active_count s k) < m))"
  using assms
  by (auto simp: pool_acquire_slot_def slot_try_acquire_def slot_active_count_def Let_def find_Some_iff
      split: option.splits if_splits)

lemma acquire_first_None: "acquire_first listed ov xs s = (s', None) \<Longrightarrow>
    s' = s \<and> (\<forall>x \<in> set xs. snd (pool_acquire_slot listed (px_id x) ov s) = None)"
  by (induction listed ov xs s rule: acquire_first.induct)
    (auto split: prod.splits option.splits dest: pool_acquire_slot_fail)

lemma acquire_first_Some: "acquire_first listed ov xs s = (s', Some x) \<Longrightarrow>
    \<exists>us vs. xs = us @ x # vs \<and> pool_acquire_slot listed (px_id x) ov s = (s', Some (px_id x)) \<and>
      (\<forall>u \<in> set us. snd (pool_acquire_slot listed (px_id u) ov s) = None)"
proof (induction listed ov xs s rule: acquire_first.induct)
  case (1 listed ov s)
  then show ?case by simp
next
  case (2 listed ov y ys s)
  obtain t r where acq: "pool_acquire_slot listed (px_id y) ov s = (t, r)" by fastforce
  show ?case
  proof (cases r)
    case None
    then have t: "t = s" using acq pool_acquire_slot_fail by blast
    have "acquire_first listed ov ys s = (s', Some x)" using "2.prems" acq None t by simp
    then obtain us vs where "ys = us @ x # vs" "pool_acquire_slot listed (px_id x) ov s = (s', Some (px_id x))"
      "\<forall>u \<in> set us. snd (pool_acquire_slot listed (px_id u) ov s) = None"
      using "2.IH" [OF acq [symmetric] None] t by auto
    then have "y # ys = (y # us) @ x # vs \<and> pool_acquire_slot listed (px_id x) ov s = (s', Some (px_id x)) \<and>
      (\<forall>u \<in> set (y # us). snd (pool_acquire_slot listed (px_id u) ov s) = None)"
      using acq None by simp
    then show ?thesis by blast
  next
    case (Some h)
    then have "h = px_id y" using acq pool_acquire_slot_SomeD by blast
    then have "y = x \<and> t = s'" using "2.prems" acq Some by simp
    then have "y # ys = [] @ x # ys \<and> pool_acquire_slot listed (px_id x) ov s = (s', Some (px_id x))"
      using acq Some \<open>h = px_id y\<close> by simp
    then show ?thesis by fastforce
  qed
qed

lemma network_select_proxyD:
  assumes "network_select compare policy inp now_ms health listed enabled s = (s', Some sel)"
    and "ns_proxy_id sel = Some k"
  shows "\<exists>x \<in> set enabled. px_id x = k \<and> ns_url sel = Some (px_url x) \<and> ns_reason sel = ViaProxy \<and>
    proxy_is_usable k now_ms health \<and> s' = jm_set k (slot_active_count s k + 1) s \<and>
    (\<exists>y \<in> set listed. px_id y = k \<and> px_enabled y \<and> int (slot_active_count s k) < px_max_concurrency y)"
proof -
  let ?cs = "filter (\<lambda>x. proxy_is_usable (px_id x) now_ms health) enabled"
  obtain x ov where acq: "acquire_first listed ov
      (js_sort (selection_order compare policy inp s ?cs) ?cs) s = (s', Some x)"
    and sel: "ns_proxy_id sel = Some (px_id x)" "ns_url sel = Some (px_url x)" "ns_reason sel = ViaProxy"
    using assms by (auto simp: network_select_def direct_result_def Let_def split: if_splits prod.splits option.splits)
  from acquire_first_Some [OF acq] obtain us vs where
    split: "js_sort (selection_order compare policy inp s ?cs) ?cs = us @ x # vs"
    and slot: "pool_acquire_slot listed (px_id x) ov s = (s', Some (px_id x))" by blast
  have "x \<in> set (js_sort (selection_order compare policy inp s ?cs) ?cs)" using split by simp
  then have "x \<in> set enabled \<and> proxy_is_usable (px_id x) now_ms health" by simp
  then show ?thesis using sel assms(2) pool_acquire_slot_SomeD [OF slot] by auto
qed

lemma network_select_None:
  assumes "network_select compare policy inp now_ms health listed enabled s = (s', None)"
  shows "si_allow_direct inp = Some False \<and> \<not> si_prefer_direct inp \<and> s' = s"
  using assms
  by (auto simp: network_select_def Let_def split: if_splits prod.splits option.splits dest: acquire_first_None)

lemma network_select_direct:
  assumes "network_select compare policy inp now_ms health listed enabled s = (s', Some sel)"
    and "ns_proxy_id sel = None"
  shows "s' = s"
  using assms
  by (auto simp: network_select_def Let_def split: if_splits prod.splits option.splits dest: acquire_first_None)

text \<open>Identifiers of lower-case letters, digits and dashes survive the environment suffix.\<close>

definition plain_id_char :: "char \<Rightarrow> bool" where
  "plain_id_char c \<longleftrightarrow> is_digit_char c \<or> (97 \<le> char_code c \<and> char_code c \<le> 122) \<or> c = CHR ''-''"

lemma suffix_char_roundtrip:
  assumes "plain_id_char c"
  shows "\<exists>d. map (\<lambda>c. if is_suffix_char c then c else CHR ''_'') (upper_char c) = [d] \<and>
    (if lower_char d = CHR ''_'' then CHR ''-'' else lower_char d) = c"
proof -
  consider "is_digit_char c" | "97 \<le> char_code c \<and> char_code c \<le> 122" | "c = CHR ''-''"
    using assms by (auto simp: plain_id_char_def)
  then show ?thesis
  proof cases
    case 1
    then show ?thesis
      by (auto simp: upper_char_def is_suffix_char_def is_digit_char_def lower_char_def char_code_def Let_def)
  next
    case 2
    then have "c = char_of (char_code c)" by (simp add: char_code_def)
    moreover have "char_code (char_of (char_code c - 32)) = char_code c - 32"
      using 2 by (simp add: char_code_def) (rule mod_less, linarith)
    ultimately show ?thesis using 2
      by (auto simp: upper_char_def is_suffix_char_def is_digit_char_def lower_char_def Let_def
          char_code_def)
  next
    case 3
    then show ?thesis
      by (simp add: upper_char_def is_suffix_char_def is_digit_char_def lower_char_def char_code_def Let_def)
  qed
qed

lemma suffix_roundtrip: "list_all plain_id_char s \<Longrightarrow> proxy_id_from_suffix (proxy_env_suffix s) = s"
proof (induction s)
  case Nil
  then show ?case by (simp add: proxy_id_from_suffix_def proxy_env_suffix_def to_lower_def)
next
  case (Cons c s)
  then obtain d where "map (\<lambda>c. if is_suffix_char c then c else CHR ''_'') (upper_char c) = [d]"
    "(if lower_char d = CHR ''_'' then CHR ''-'' else lower_char d) = c"
    using suffix_char_roundtrip [of c] by auto
  then show ?case using Cons
    by (simp add: proxy_id_from_suffix_def proxy_env_suffix_def to_lower_def)
qed

subsection \<open>Properties\<close>

text \<open>
  C24: A selected proxy may be used: it is one of the proxies \<open>enabledFor\<close> filtered for the provider,
  enabled and without the provider among its exclusions, its health record lets it be used, and the URL
  handed out is its own; it is enabled and below its concurrency limit in the list the slot is taken from,
  and exactly one slot of it is taken.
\<close>

theorem selected_proxy_is_usable:
  assumes "network_select compare policy inp now_ms health listed (enabled_filter (si_provider_id inp) proxies) s = (s', Some sel)"
    and "ns_proxy_id sel = Some k"
  shows "(\<exists>x \<in> set proxies. px_id x = k \<and> px_enabled x \<and> si_provider_id inp \<notin> set (px_excluded x) \<and>
      ns_url sel = Some (px_url x) \<and> proxy_is_usable k now_ms health) \<and>
    (\<exists>y \<in> set listed. px_id y = k \<and> px_enabled y \<and> int (slot_active_count s k) < px_max_concurrency y) \<and>
    s' = jm_set k (slot_active_count s k + 1) s"
  using network_select_proxyD [OF assms] by (auto simp: enabled_filter_def)

definition sample_proxy :: proxy_config where
  "sample_proxy = \<lparr>px_id = ''p'', px_url = ''http://p'', px_relay = None, px_enabled = True,
     px_max_concurrency = 2, px_priority = 0, px_weight = 100, px_excluded = []\<rparr>"

definition sample_select :: select_input where
  "sample_select = \<lparr>si_provider_id = ''openai'', si_prefer_direct = False, si_allow_direct = Some False,
     si_preferred = None, si_affinity = None\<rparr>"

theorem selected_proxy_is_usable_witness:
  "snd (network_select (\<lambda>a b. 0) \<lparr>rp_preset = RpAuto, rp_target_concurrent = 0\<rparr> sample_select 0 [] [sample_proxy] (enabled_filter (si_provider_id sample_select) [sample_proxy]) []) \<noteq> None \<and>
   fst (network_select (\<lambda>a b. 0) \<lparr>rp_preset = RpAuto, rp_target_concurrent = 0\<rparr> sample_select 0 [] [sample_proxy] (enabled_filter (si_provider_id sample_select) [sample_proxy]) []) = jm_set ''p'' 1 []"
proof -
  let ?run = "network_select (\<lambda>a b. 0) \<lparr>rp_preset = RpAuto, rp_target_concurrent = 0\<rparr> sample_select 0 [] [sample_proxy] (enabled_filter (si_provider_id sample_select) [sample_proxy]) []"
  obtain s' sel where run: "?run = (s', Some sel)" "ns_proxy_id sel = Some ''p''"
    by (simp add: network_select_def enabled_filter_def sample_select_def sample_proxy_def proxy_is_usable_def proxy_store_get_def
        js_sort_def pool_acquire_slot_def slot_try_acquire_def count_of_def Let_def)
  show ?thesis using selected_proxy_is_usable [OF run] run(1) by (simp add: slot_active_count_def count_of_def)
qed

text \<open>
  A request is refused a network path only when direct connections are forbidden and no usable
  proxy of the provider has a free slot; whenever no proxy is chosen, no slot is taken.
\<close>

theorem no_path_only_when_exhausted:
  assumes "network_select compare policy inp now_ms health listed enabled s = (s', r)"
    and "\<forall>sel. r = Some sel \<longrightarrow> ns_proxy_id sel = None"
  shows "s' = s \<and> (r = None \<longrightarrow> si_allow_direct inp = Some False \<and>
    (\<forall>x \<in> set enabled. proxy_is_usable (px_id x) now_ms health \<longrightarrow>
       snd (pool_acquire_slot listed (px_id x)
         (if rp_preset policy = RpTargetConcurrent \<and> 0 < rp_target_concurrent policy
          then Some (rp_target_concurrent policy) else None) s) = None))"
proof (cases "si_prefer_direct inp \<or> enabled = []")
  case True
  then show ?thesis using assms by (auto simp: network_select_def direct_result_def split: if_splits)
next
  case False
  let ?ov = "if rp_preset policy = RpTargetConcurrent \<and> 0 < rp_target_concurrent policy
    then Some (rp_target_concurrent policy) else None"
  let ?cs = "filter (\<lambda>x. proxy_is_usable (px_id x) now_ms health) enabled"
  obtain t x where acq: "acquire_first listed ?ov (js_sort (selection_order compare policy inp s ?cs) ?cs) s = (t, x)"
    by fastforce
  have "x = None" using assms False acq by (auto simp: network_select_def Let_def split: option.splits)
  with acq have "acquire_first listed ?ov (js_sort (selection_order compare policy inp s ?cs) ?cs) s = (t, None)" by simp
  from acquire_first_None [OF this]
  have none: "t = s" "\<forall>x \<in> set ?cs. snd (pool_acquire_slot listed (px_id x) ?ov s) = None"
    unfolding set_js_sort by blast+
  have sel: "s' = s \<and> (r = None \<longrightarrow> si_allow_direct inp = Some False)"
    using assms(1) False acq \<open>x = None\<close> none(1) by (auto simp: network_select_def Let_def split: if_splits)
  moreover have "\<forall>x \<in> set enabled. proxy_is_usable (px_id x) now_ms health \<longrightarrow>
      snd (pool_acquire_slot listed (px_id x) ?ov s) = None"
    using none(2) by (simp only: set_filter mem_Collect_eq) blast
  ultimately show ?thesis by blast
qed

theorem no_path_only_when_exhausted_witness:
  "network_select (\<lambda>a b. 0) \<lparr>rp_preset = RpAuto, rp_target_concurrent = 0\<rparr> sample_select 0 [] [sample_proxy]
     [sample_proxy] [(''p'', 2)] = ([(''p'', 2)], None) \<and>
   snd (pool_acquire_slot [sample_proxy] ''p'' None [(''p'', 2)]) = None"
proof -
  have run: "network_select (\<lambda>a b. 0) \<lparr>rp_preset = RpAuto, rp_target_concurrent = 0\<rparr> sample_select 0 [] [sample_proxy]
     [sample_proxy] [(''p'', 2)] = ([(''p'', 2)], None)"
    by (simp add: network_select_def sample_select_def sample_proxy_def proxy_is_usable_def proxy_store_get_def
        js_sort_def pool_acquire_slot_def slot_try_acquire_def count_of_def jm_get_def Let_def)
  show ?thesis
    using no_path_only_when_exhausted [OF run] run by (simp add: sample_proxy_def proxy_is_usable_def proxy_store_get_def)
qed

text \<open>
  Proxy ids survive the environment: writing an id of lower-case letters, digits and hyphens as
  the suffix of an environment variable and reading it back gives the id.
\<close>

theorem proxy_suffix_roundtrip:
  assumes "list_all plain_id_char s"
  shows "proxy_id_from_suffix (proxy_env_suffix s) = s"
  using assms by (rule suffix_roundtrip)

theorem proxy_suffix_roundtrip_witness: "proxy_id_from_suffix (proxy_env_suffix ''eu-west-1'') = ''eu-west-1''"
  by (rule proxy_suffix_roundtrip) (simp add: plain_id_char_def is_digit_char_def char_code_def)

subsection \<open>Where the code goes wrong\<close>

text \<open>
  An invalidation while \<open>enabledFor\<close> waits for the list is lost: the continuation caches the old
  list, and the next call answers it although the proxy was disabled.
\<close>

lemma enabled_cache_survives_invalidation:
  "let p1 = fst (enabled_for_start ''openai'' pool_initial);
       p2 = pool_invalidate p1;
       (p3, ps) = pool_load_resolve (\<lambda>a b. 0) 0 [sample_proxy] p2;
       p4 = fst (enabled_for_finish ''openai'' ps p3)
   in pl_cached p4 = None \<and> snd (enabled_for_start ''openai'' p4) = Inl [sample_proxy]"
  by (simp add: enabled_for_start_def pool_initial_def pool_list_def pool_invalidate_def pool_load_resolve_def
      enabled_for_finish_def enabled_filter_def sample_proxy_def js_sort_def jm_get_def jm_set_def jm_delete_def Let_def)

end
