(* ===== verification/OAuthState.thy ===== *)
theory OAuthState imports Prelude begin

text \<open>
  One-time OAuth authorization states (\<open>src/auth/oauth-state.ts\<close>). The random state is an argument
  of \<open>create\<close>; the clock is an argument of every operation.
\<close>

record oauth_state =
  os_state :: string
  os_provider_id :: string
  os_created_at :: int
  os_expires_at :: int
  os_redirect_uri :: "string option"
  os_code_verifier :: "string option"

type_synonym oauth_states = "(string, oauth_state) js_map"

record oauth_state_config =
  osc_ttl_ms :: int
  osc_max_states :: nat

text \<open>The constructor clamps its options.\<close>

definition oauth_state_config_of :: "int option \<Rightarrow> int option \<Rightarrow> oauth_state_config" where
  "oauth_state_config_of ttl max_states = \<lparr>
     osc_ttl_ms = max 1 (case ttl of None \<Rightarrow> 10 * 60000 | Some t \<Rightarrow> t),
     osc_max_states = nat (max 1 (case max_states of None \<Rightarrow> 10000 | Some m \<Rightarrow> m))\<rparr>"

definition states_sweep :: "int \<Rightarrow> oauth_states \<Rightarrow> oauth_states" where
  "states_sweep now_ms m = jm_retain (\<lambda>k r. \<not> os_expires_at r \<le> now_ms) m"

text \<open>The scan for the smallest creation time; the first of equals wins.\<close>

fun oldest_state :: "oauth_states \<Rightarrow> (string \<times> int) option \<Rightarrow> (string \<times> int) option" where
  "oldest_state [] best = best"
| "oldest_state ((k, r) # m) best =
     oldest_state m (case best of
        None \<Rightarrow> Some (k, os_created_at r)
      | Some (b, t) \<Rightarrow> if os_created_at r < t then Some (k, os_created_at r) else best)"

definition states_evict_oldest :: "oauth_states \<Rightarrow> oauth_states" where
  "states_evict_oldest m = (case oldest_state m None of None \<Rightarrow> m | Some (k, t) \<Rightarrow> jm_delete k m)"

lemma oldest_state_mem:
  "oldest_state m best = Some (k, t) \<Longrightarrow> best = Some (k, t) \<or> k \<in> set (jm_keys m)"
  by (induction m best rule: oldest_state.induct) (auto simp: jm_keys_def split: option.splits if_splits prod.splits)

lemma oldest_state_None: "oldest_state m best = None \<Longrightarrow> m = [] \<and> best = None"
  by (induction m best rule: oldest_state.induct) (auto split: option.splits if_splits prod.splits)

lemma oldest_state_least:
  "oldest_state m best = Some (k, t) \<Longrightarrow>
   (\<forall>p \<in> set m. t \<le> os_created_at (snd p)) \<and> (\<forall>b u. best = Some (b, u) \<longrightarrow> t \<le> u)"
  by (induction m best rule: oldest_state.induct) (fastforce split: option.splits if_splits prod.splits)+

lemma length_states_evict:
  assumes "jm_wf m" and "m \<noteq> []"
  shows "length (states_evict_oldest m) = length m - 1"
proof -
  obtain k t where o: "oldest_state m None = Some (k, t)"
    using oldest_state_None [of m None] assms(2) by (cases "oldest_state m None") auto
  then have "jm_has m k" using oldest_state_mem [of m None k t] by (simp add: jm_has_iff)
  then show ?thesis using o length_jm_delete [OF assms(1)] by (simp add: states_evict_oldest_def)
qed

lemma states_evict_get: "jm_get (states_evict_oldest m) k = Some r \<Longrightarrow> jm_get m k = Some r"
  by (cases "oldest_state m None") (auto simp: states_evict_oldest_def split: if_splits)

lemma jm_wf_states_evict [simp]: "jm_wf m \<Longrightarrow> jm_wf (states_evict_oldest m)"
  by (simp add: states_evict_oldest_def split: option.split)

text \<open>\<open>while (size >= maxStates) evictOldest()\<close>; every round removes an entry, so \<open>size\<close> rounds suffice.\<close>

primrec evict_rounds :: "nat \<Rightarrow> nat \<Rightarrow> oauth_states \<Rightarrow> oauth_states" where
  "evict_rounds 0 max_states m = m"
| "evict_rounds (Suc n) max_states m =
     (if max_states \<le> length m then evict_rounds n max_states (states_evict_oldest m) else m)"

definition evict_until :: "nat \<Rightarrow> oauth_states \<Rightarrow> oauth_states" where
  "evict_until max_states m = evict_rounds (length m) max_states m"

lemma evict_rounds_below:
  "jm_wf m \<Longrightarrow> 0 < max_states \<Longrightarrow> length m \<le> n \<Longrightarrow>
   jm_wf (evict_rounds n max_states m) \<and> length (evict_rounds n max_states m) < max_states"
proof (induction n arbitrary: m)
  case 0
  then show ?case by simp
next
  case (Suc n)
  show ?case
  proof (cases "max_states \<le> length m")
    case True
    then have "m \<noteq> []" using Suc.prems by auto
    then have "length (states_evict_oldest m) \<le> n" using Suc.prems length_states_evict [of m] by simp
    then show ?thesis using Suc True by simp
  next
    case False
    then show ?thesis using Suc.prems by simp
  qed
qed

lemma evict_until_below:
  "jm_wf m \<Longrightarrow> 0 < max_states \<Longrightarrow>
   jm_wf (evict_until max_states m) \<and> length (evict_until max_states m) < max_states"
  unfolding evict_until_def by (rule evict_rounds_below) auto

record create_input =
  cin_provider_id :: string
  cin_redirect_uri :: "string option"
  cin_code_verifier :: "string option"
  cin_state :: "string option"

definition state_create ::
  "oauth_state_config \<Rightarrow> string \<Rightarrow> create_input \<Rightarrow> int \<Rightarrow> oauth_states \<Rightarrow> oauth_states \<times> oauth_state" where
  "state_create cfg random_state inp now_ms m =
    (let m = evict_until (osc_max_states cfg) (states_sweep now_ms m);
         st = (case cin_state inp of None \<Rightarrow> random_state | Some s \<Rightarrow> if 0 < length s then s else random_state);
         r = \<lparr>os_state = st, os_provider_id = cin_provider_id inp, os_created_at = now_ms,
              os_expires_at = now_ms + osc_ttl_ms cfg, os_redirect_uri = cin_redirect_uri inp,
              os_code_verifier = cin_code_verifier inp\<rparr>
     in (jm_set st r m, r))"

definition state_consume ::
  "string \<Rightarrow> string \<Rightarrow> int \<Rightarrow> oauth_states \<Rightarrow> oauth_states \<times> oauth_state option" where
  "state_consume st provider_id now_ms m =
    (let m = states_sweep now_ms m
     in case jm_get m st of
       None \<Rightarrow> (m, None)
     | Some r \<Rightarrow>
       if os_provider_id r \<noteq> provider_id \<or> os_expires_at r \<le> now_ms then (jm_delete st m, None)
       else (jm_delete st m, Some r))"

definition states_size :: "int \<Rightarrow> oauth_states \<Rightarrow> oauth_states \<times> nat" where
  "states_size now_ms m = (states_sweep now_ms m, length (states_sweep now_ms m))"

subsection \<open>Lemmas\<close>

definition states_ok :: "oauth_state_config \<Rightarrow> oauth_states \<Rightarrow> bool" where
  "states_ok cfg m \<longleftrightarrow> jm_wf m \<and> length m \<le> osc_max_states cfg \<and>
     (\<forall>k r. jm_get m k = Some r \<longrightarrow> os_state r = k \<and> os_expires_at r = os_created_at r + osc_ttl_ms cfg)"

lemma states_sweep_ok: "states_ok cfg m \<Longrightarrow> states_ok cfg (states_sweep now_ms m)"
  using length_jm_retain_le [of _ m]
  by (auto simp: states_ok_def states_sweep_def jm_get_retain split: option.splits if_splits
      intro: order_trans [rotated])

lemma states_delete_ok: "states_ok cfg m \<Longrightarrow> states_ok cfg (jm_delete k m)"
  using length_jm_delete_le [of k m] by (auto simp: states_ok_def split: if_splits intro: order_trans [rotated])

lemma evict_rounds_get: "jm_get (evict_rounds n max_states m) k = Some r \<Longrightarrow> jm_get m k = Some r"
  by (induction n arbitrary: m) (auto split: if_splits dest: states_evict_get)

lemma state_create_ok:
  assumes "states_ok cfg m" and "0 < osc_max_states cfg"
  shows "states_ok cfg (fst (state_create cfg rnd inp now_ms m))"
proof -
  let ?m = "evict_until (osc_max_states cfg) (states_sweep now_ms m)"
  have sw: "states_ok cfg (states_sweep now_ms m)" using assms(1) by (rule states_sweep_ok)
  then have e: "jm_wf ?m" "length ?m < osc_max_states cfg"
    using evict_until_below [of "states_sweep now_ms m"] assms(2) by (auto simp: states_ok_def)
  have "states_ok cfg ?m"
    using sw e by (auto simp: states_ok_def evict_until_def dest: evict_rounds_get)
  then show ?thesis using e by (auto simp: state_create_def Let_def states_ok_def length_jm_set)
qed

lemma state_consume_ok: "states_ok cfg m \<Longrightarrow> states_ok cfg (fst (state_consume st p now_ms m))"
  using states_sweep_ok [of cfg m now_ms] states_delete_ok [of cfg "states_sweep now_ms m" st]
  by (auto simp: state_consume_def Let_def split: option.split)

lemma state_consume_gone: "jm_get (fst (state_consume st p now_ms m)) st = None"
  by (auto simp: state_consume_def Let_def split: option.split)

lemma state_consume_SomeD:
  assumes "jm_wf m" and "snd (state_consume st p now_ms m) = Some r"
  shows "jm_get m st = Some r \<and> os_provider_id r = p \<and> now_ms < os_expires_at r"
  using assms
  by (auto simp: state_consume_def Let_def states_sweep_def jm_get_retain split: option.splits if_splits)

lemma state_consume_none_after:
  assumes "jm_get m st = None" and "jm_wf m"
  shows "snd (state_consume st p now_ms m) = None"
  using assms by (auto simp: state_consume_def Let_def states_sweep_def jm_get_retain split: option.splits)

subsection \<open>Properties\<close>

datatype state_event = StCreate string create_input int | StConsume string string int

fun state_step :: "oauth_state_config \<Rightarrow> state_event \<Rightarrow> oauth_states \<Rightarrow> oauth_states" where
  "state_step cfg (StCreate rnd inp now_ms) m = fst (state_create cfg rnd inp now_ms m)"
| "state_step cfg (StConsume st p now_ms) m = fst (state_consume st p now_ms m)"

text \<open>
  An authorization state is good for one callback: a consume that succeeds returns the record
  that was stored under that state, for the same provider and before it expired; and after any
  consume of a state, successful or not, consuming it again for any provider at any time fails.
\<close>

theorem oauth_state_is_one_time:
  assumes "jm_wf m"
  shows "(\<forall>r. snd (state_consume st p now_ms m) = Some r \<longrightarrow>
      jm_get m st = Some r \<and> os_provider_id r = p \<and> now_ms < os_expires_at r) \<and>
    snd (state_consume st q later (fst (state_consume st p now_ms m))) = None"
proof
  show "\<forall>r. snd (state_consume st p now_ms m) = Some r \<longrightarrow>
      jm_get m st = Some r \<and> os_provider_id r = p \<and> now_ms < os_expires_at r"
    using state_consume_SomeD [OF assms] by blast
  have "jm_wf (fst (state_consume st p now_ms m))"
    using assms by (auto simp: state_consume_def states_sweep_def Let_def split: option.split)
  then show "snd (state_consume st q later (fst (state_consume st p now_ms m))) = None"
    by (rule state_consume_none_after [OF state_consume_gone])
qed

definition sample_create :: create_input where
  "sample_create = \<lparr>cin_provider_id = ''claude'', cin_redirect_uri = None, cin_code_verifier = None, cin_state = None\<rparr>"

theorem oauth_state_is_one_time_witness:
  "snd (state_consume ''s'' ''claude'' 7 (fst (state_consume ''s'' ''claude'' 5
     (fst (state_create \<lparr>osc_ttl_ms = 100, osc_max_states = 2\<rparr> ''s'' sample_create 0 []))))) = None"
  using oauth_state_is_one_time [of "fst (state_create \<lparr>osc_ttl_ms = 100, osc_max_states = 2\<rparr> ''s'' sample_create 0 [])"
      "''s''" "''claude''" 5]
  by (simp add: state_create_def evict_until_def states_sweep_def jm_retain_def sample_create_def Let_def)

text \<open>
  The state store is bounded and consistent under every sequence of operations: never more
  records than the configured maximum, each under its own state with the configured lifetime.
\<close>

theorem oauth_states_invariant:
  assumes "0 < osc_max_states cfg"
  shows "states_ok cfg (fold (state_step cfg) es [])"
proof -
  have step: "states_ok cfg m \<Longrightarrow> states_ok cfg (state_step cfg e m)" for e m
    by (cases e) (simp_all add: state_create_ok state_consume_ok assms)
  have run: "states_ok cfg m \<Longrightarrow> states_ok cfg (fold (state_step cfg) es m)" for m
  proof (induction es arbitrary: m)
    case (Cons e es)
    show ?case using Cons.IH [OF step [OF Cons.prems]] by simp
  qed simp
  have start: "states_ok cfg []" by (simp add: states_ok_def)
  show ?thesis by (rule run [OF start])
qed

theorem oauth_states_invariant_witness:
  "states_ok \<lparr>osc_ttl_ms = 100, osc_max_states = 1\<rparr> (fold (state_step \<lparr>osc_ttl_ms = 100, osc_max_states = 1\<rparr>)
     [StCreate ''a'' sample_create 0, StCreate ''b'' sample_create 1] [])"
  by (rule oauth_states_invariant) simp

end
