(* ===== verification/OAuthCoordinator.thy ===== *)
theory OAuthCoordinator imports Health Flights begin

text \<open>
  Token and quota coordination (\<open>OAuthCoordinator\<close> and \<open>QuotaCoordinator\<close> of
  \<open>src/auth/credentials.ts\<close>). \<open>ensureFresh\<close> awaits the store and the refresher, so its callers
  interleave: a call reads the store, later decides on what it read, a refresh settles, and the
  callback that clears the single-flight entry runs after that. These are the steps of \<open>oc_step\<close>.
  What the refresher answers and how long it takes are open: any pending refresh may settle at any
  time with any outcome.
\<close>

definition OAUTH_SAFETY_SKEW_MS :: int where "OAUTH_SAFETY_SKEW_MS = 30000"

definition is_fresh :: "int \<Rightarrow> int \<Rightarrow> oauth_token \<Rightarrow> bool" where
  "is_fresh skew now_ms t = (case ot_expires_at t of None \<Rightarrow> True | Some e \<Rightarrow> skew < e - now_ms)"

record refresh =
  rf_account :: string
  rf_token :: "oauth_token option"   \<comment> \<open>what the refresher was given\<close>

record coordinator =
  oc_tokens :: token_store
  oc_inflight :: "(string, nat) js_map"                       \<comment> \<open>account to refresh promise\<close>
  oc_running :: "(nat, refresh) js_map"                       \<comment> \<open>refreshes not settled yet\<close>
  oc_settled :: "(nat, refresh) js_map"                       \<comment> \<open>settled, their callback still queued\<close>
  oc_reads :: "(string \<times> oauth_token option) list"            \<comment> \<open>callers with what they read\<close>
  oc_next :: nat

definition coordinator_initial :: "token_store \<Rightarrow> coordinator" where
  "coordinator_initial tokens = \<lparr>oc_tokens = tokens, oc_inflight = [], oc_running = [], oc_settled = [],
     oc_reads = [], oc_next = 0\<rparr>"

text \<open>\<open>await this.store.get(accountId)\<close>\<close>

definition ensure_fresh_read :: "string \<Rightarrow> coordinator \<Rightarrow> coordinator" where
  "ensure_fresh_read account_id s = s\<lparr>oc_reads := oc_reads s @ [(account_id, token_store_get account_id (oc_tokens s))]\<rparr>"

text \<open>The rest of \<open>ensureFresh\<close>: a token at once, or the promise to wait for.\<close>

definition ensure_fresh_decide ::
  "int \<Rightarrow> int \<Rightarrow> string \<Rightarrow> oauth_token option \<Rightarrow> coordinator \<Rightarrow> coordinator \<times> (oauth_token + nat)" where
  "ensure_fresh_decide skew now_ms account_id cached s =
    (if (case cached of None \<Rightarrow> False | Some t \<Rightarrow> is_fresh skew now_ms t \<or> ot_refresh_token t = None)
     then (s, Inl (the cached))
     else case jm_get (oc_inflight s) account_id of
       Some pending \<Rightarrow> (s, Inr pending)
     | None \<Rightarrow>
       (s\<lparr>oc_inflight := jm_set account_id (oc_next s) (oc_inflight s),
          oc_running := jm_set (oc_next s) \<lparr>rf_account = account_id, rf_token = cached\<rparr> (oc_running s),
          oc_next := oc_next s + 1\<rparr>, Inr (oc_next s)))"

text \<open>
  \<open>refreshAndStore\<close> ends: a token is stored and returned, an error value is thrown, a thrown
  exception becomes a retryable \<open>provider_unavailable\<close>.
\<close>

datatype refresh_outcome = RefreshOk oauth_token | RefreshFailed call_error | RefreshThrew

definition refresh_result :: "refresh_outcome \<Rightarrow> call_error + oauth_token" where
  "refresh_result r = (case r of
      RefreshOk t \<Rightarrow> Inr t
    | RefreshFailed e \<Rightarrow> Inl e
    | RefreshThrew \<Rightarrow> Inl (make_provider_error ProviderUnavailable ''OAuth token refresh failed''
        (no_options\<lparr>eo_retryable := Some True, eo_route_scope := Some ScAccount\<rparr>)))"

definition refresh_settle :: "nat \<Rightarrow> refresh \<Rightarrow> refresh_outcome \<Rightarrow> coordinator \<Rightarrow> coordinator" where
  "refresh_settle i r outcome s =
    (let s = s\<lparr>oc_running := jm_delete i (oc_running s), oc_settled := jm_set i r (oc_settled s)\<rparr>
     in case refresh_result outcome of
       Inl e \<Rightarrow> s
     | Inr t \<Rightarrow> s\<lparr>oc_tokens := token_store_set (rf_account r, t) (oc_tokens s)\<rparr>)"

text \<open>The \<open>then\<close> callback on either outcome: \<open>this.inflight.delete(accountId)\<close>.\<close>

definition refresh_callback :: "nat \<Rightarrow> refresh \<Rightarrow> coordinator \<Rightarrow> coordinator" where
  "refresh_callback i r s = s\<lparr>oc_settled := jm_delete i (oc_settled s),
     oc_inflight := jm_delete (rf_account r) (oc_inflight s)\<rparr>"

inductive oc_step :: "int \<Rightarrow> coordinator \<Rightarrow> coordinator \<Rightarrow> bool" for skew :: int where
  read: "oc_step skew s (ensure_fresh_read account_id s)"
| decide: "oc_reads s = us @ (account_id, cached) # vs \<Longrightarrow>
    oc_step skew s (fst (ensure_fresh_decide skew now_ms account_id cached (s\<lparr>oc_reads := us @ vs\<rparr>)))"
| settle: "jm_get (oc_running s) i = Some r \<Longrightarrow> oc_step skew s (refresh_settle i r outcome s)"
| callback: "jm_get (oc_settled s) i = Some r \<Longrightarrow> oc_step skew s (refresh_callback i r s)"

inductive oc_reachable :: "int \<Rightarrow> token_store \<Rightarrow> coordinator \<Rightarrow> bool" for skew :: int and tokens :: token_store where
  start: "oc_reachable skew tokens (coordinator_initial tokens)"
| step: "oc_reachable skew tokens s \<Longrightarrow> oc_step skew s t \<Longrightarrow> oc_reachable skew tokens t"

inductive_cases oc_stepE: "oc_step skew s t"

subsection \<open>Single flight\<close>

text \<open>
  Every refresh that runs or whose callback is queued is the in-flight entry of its account, and
  there is no other entry.
\<close>

definition single_flight :: "coordinator \<Rightarrow> bool" where
  "single_flight s \<longleftrightarrow>
     (\<forall>i r. jm_get (oc_running s) i = Some r \<longrightarrow>
        jm_get (oc_inflight s) (rf_account r) = Some i \<and> jm_get (oc_settled s) i = None \<and> i < oc_next s) \<and>
     (\<forall>i r. jm_get (oc_settled s) i = Some r \<longrightarrow>
        jm_get (oc_inflight s) (rf_account r) = Some i \<and> i < oc_next s) \<and>
     (\<forall>a i. jm_get (oc_inflight s) a = Some i \<longrightarrow>
        (\<exists>r. rf_account r = a \<and> (jm_get (oc_running s) i = Some r \<or> jm_get (oc_settled s) i = Some r)))"

lemma single_flightD:
  assumes "single_flight s"
  shows "jm_get (oc_running s) i = Some r \<Longrightarrow>
      jm_get (oc_inflight s) (rf_account r) = Some i \<and> jm_get (oc_settled s) i = None \<and> i < oc_next s"
    and "jm_get (oc_settled s) i = Some r \<Longrightarrow> jm_get (oc_inflight s) (rf_account r) = Some i \<and> i < oc_next s"
    and "jm_get (oc_inflight s) a = Some i \<Longrightarrow>
      \<exists>r. rf_account r = a \<and> (jm_get (oc_running s) i = Some r \<or> jm_get (oc_settled s) i = Some r)"
  using assms unfolding single_flight_def by blast+

lemma single_flightI:
  assumes "\<And>i r. jm_get (oc_running s) i = Some r \<Longrightarrow>
      jm_get (oc_inflight s) (rf_account r) = Some i \<and> jm_get (oc_settled s) i = None \<and> i < oc_next s"
    and "\<And>i r. jm_get (oc_settled s) i = Some r \<Longrightarrow>
      jm_get (oc_inflight s) (rf_account r) = Some i \<and> i < oc_next s"
    and "\<And>a i. jm_get (oc_inflight s) a = Some i \<Longrightarrow>
      \<exists>r. rf_account r = a \<and> (jm_get (oc_running s) i = Some r \<or> jm_get (oc_settled s) i = Some r)"
  shows "single_flight s"
  using assms unfolding single_flight_def by blast

lemma single_flight_initial: "single_flight (coordinator_initial tokens)"
  by (simp add: single_flight_def coordinator_initial_def)

lemma single_flight_reads: "single_flight (s\<lparr>oc_reads := rs\<rparr>) = single_flight s"
  by (simp add: single_flight_def)

lemma single_flight_tokens: "single_flight (s\<lparr>oc_tokens := ts\<rparr>) = single_flight s"
  by (simp add: single_flight_def)

lemma single_flight_decide:
  assumes inv: "single_flight s"
  shows "single_flight (fst (ensure_fresh_decide skew now_ms a cached s))"
proof (cases "(case cached of None \<Rightarrow> False | Some t \<Rightarrow> is_fresh skew now_ms t \<or> ot_refresh_token t = None) \<or>
    jm_get (oc_inflight s) a \<noteq> None")
  case True
  then have "fst (ensure_fresh_decide skew now_ms a cached s) = s"
    by (auto simp: ensure_fresh_decide_def split: option.splits)
  then show ?thesis using inv by simp
next
  case False
  then have none: "jm_get (oc_inflight s) a = None" by simp
  let ?n = "oc_next s"
  have t: "fst (ensure_fresh_decide skew now_ms a cached s) =
    s\<lparr>oc_inflight := jm_set a ?n (oc_inflight s),
      oc_running := jm_set ?n \<lparr>rf_account = a, rf_token = cached\<rparr> (oc_running s), oc_next := ?n + 1\<rparr>"
    using False by (auto simp: ensure_fresh_decide_def)
  have fresh: "jm_get (oc_settled s) ?n = None" "jm_get (oc_running s) ?n = None"
    using inv unfolding single_flight_def by (metis less_irrefl option.exhaust_sel)+
  have other: "rf_account r \<noteq> a"
    if "jm_get (oc_running s) i = Some r \<or> jm_get (oc_settled s) i = Some r" for i r
    using inv none that by (auto simp: single_flight_def)
  define t' where "t' = fst (ensure_fresh_decide skew now_ms a cached s)"
  have get: "jm_get (oc_inflight t') b = (if b = a then Some ?n else jm_get (oc_inflight s) b)"
    "jm_get (oc_running t') i = (if i = ?n then Some \<lparr>rf_account = a, rf_token = cached\<rparr> else jm_get (oc_running s) i)"
    "oc_settled t' = oc_settled s" "oc_next t' = ?n + 1" for b i
    by (simp_all add: t'_def t)
  have "single_flight t'"
  proof (rule single_flightI)
    fix i r
    assume "jm_get (oc_running t') i = Some r"
    then show "jm_get (oc_inflight t') (rf_account r) = Some i \<and> jm_get (oc_settled t') i = None \<and> i < oc_next t'"
      using single_flightD(1) [OF inv, of i r] other [of i r] fresh by (auto simp: get split: if_splits)
  next
    fix i r
    assume "jm_get (oc_settled t') i = Some r"
    then show "jm_get (oc_inflight t') (rf_account r) = Some i \<and> i < oc_next t'"
      using single_flightD(2) [OF inv, of i r] other [of i r] by (auto simp: get)
  next
    fix b i
    assume "jm_get (oc_inflight t') b = Some i"
    then show "\<exists>r. rf_account r = b \<and> (jm_get (oc_running t') i = Some r \<or> jm_get (oc_settled t') i = Some r)"
      using single_flightD(3) [OF inv, of b i] fresh by (auto simp: get split: if_splits)
  qed
  then show ?thesis by (simp add: t'_def)
qed

lemma single_flight_settle:
  assumes inv: "single_flight s" and run: "jm_get (oc_running s) i = Some r"
  shows "single_flight (refresh_settle i r outcome s)"
proof -
  define t where "t = s\<lparr>oc_running := jm_delete i (oc_running s), oc_settled := jm_set i r (oc_settled s)\<rparr>"
  note D = single_flightD [OF inv]
  have "single_flight t"
  proof (rule single_flightI)
    fix j q
    assume "jm_get (oc_running t) j = Some q"
    then show "jm_get (oc_inflight t) (rf_account q) = Some j \<and> jm_get (oc_settled t) j = None \<and> j < oc_next t"
      using D(1) [of j q] by (auto simp: t_def split: if_splits)
  next
    fix j q
    assume "jm_get (oc_settled t) j = Some q"
    then show "jm_get (oc_inflight t) (rf_account q) = Some j \<and> j < oc_next t"
      using D(1) [OF run] D(2) [of j q] by (auto simp: t_def split: if_splits)
  next
    fix a j
    assume "jm_get (oc_inflight t) a = Some j"
    then show "\<exists>q. rf_account q = a \<and> (jm_get (oc_running t) j = Some q \<or> jm_get (oc_settled t) j = Some q)"
      using D(3) [of a j] D(1) [OF run] run by (auto simp: t_def)
  qed
  then show ?thesis
    by (auto simp: refresh_settle_def t_def [symmetric] Let_def single_flight_tokens split: sum.split)
qed

lemma single_flight_callback:
  assumes inv: "single_flight s" and settled: "jm_get (oc_settled s) i = Some r"
  shows "single_flight (refresh_callback i r s)"
proof (rule single_flightI)
  note D = single_flightD [OF inv]
  let ?t = "refresh_callback i r s"
  have i: "jm_get (oc_inflight s) (rf_account r) = Some i" using D(2) [OF settled] by simp
  fix j q
  { assume "jm_get (oc_running ?t) j = Some q"
    then show "jm_get (oc_inflight ?t) (rf_account q) = Some j \<and> jm_get (oc_settled ?t) j = None \<and> j < oc_next ?t"
      using D(1) [of j q] i settled by (auto simp: refresh_callback_def) }
  { assume "jm_get (oc_settled ?t) j = Some q"
    then show "jm_get (oc_inflight ?t) (rf_account q) = Some j \<and> j < oc_next ?t"
      using D(2) [of j q] i by (auto simp: refresh_callback_def split: if_splits) }
  { fix a assume a: "jm_get (oc_inflight ?t) a = Some j"
    then obtain q' where q: "rf_account q' = a" "jm_get (oc_running s) j = Some q' \<or> jm_get (oc_settled s) j = Some q'"
      using D(3) [of a j] by (auto simp: refresh_callback_def split: if_splits)
    moreover have "j \<noteq> i" using a q settled D(1) [of j q'] by (auto simp: refresh_callback_def split: if_splits)
    ultimately show "\<exists>q. rf_account q = a \<and> (jm_get (oc_running ?t) j = Some q \<or> jm_get (oc_settled ?t) j = Some q)"
      by (auto simp: refresh_callback_def) }
qed

lemma single_flight_step: "oc_step skew s t \<Longrightarrow> single_flight s \<Longrightarrow> single_flight t"
  by (erule oc_stepE)
    (simp_all add: ensure_fresh_read_def single_flight_reads single_flight_decide single_flight_settle
      single_flight_callback)

lemma single_flight_reachable: "oc_reachable skew tokens s \<Longrightarrow> single_flight s"
  by (induction rule: oc_reachable.induct) (auto intro: single_flight_initial single_flight_step)

text \<open>When nothing is running and no callback is queued, no single-flight entry is left over.\<close>

lemma single_flight_quiescent:
  assumes "single_flight s" and "oc_running s = []" and "oc_settled s = []"
  shows "jm_get (oc_inflight s) a = None"
proof (cases "jm_get (oc_inflight s) a")
  case (Some i)
  then obtain r where "jm_get (oc_running s) i = Some r \<or> jm_get (oc_settled s) i = Some r"
    using assms(1) unfolding single_flight_def by blast
  then show ?thesis using assms(2,3) by simp
qed

subsection \<open>Leases\<close>

record oauth_leases =
  ol_leases :: "(string, string) js_map"
  ol_refcounts :: "(string, nat) js_map"

definition oauth_leases_empty :: oauth_leases where
  "oauth_leases_empty = \<lparr>ol_leases = [], ol_refcounts = []\<rparr>"

text \<open>\<open>lease\<close> once \<open>ensureFresh\<close> has returned; the lease id is a fresh UUID.\<close>

definition oauth_lease :: "string \<Rightarrow> string \<Rightarrow> oauth_leases \<Rightarrow> oauth_leases" where
  "oauth_lease lease_id account_id s = s\<lparr>
     ol_leases := jm_set lease_id account_id (ol_leases s),
     ol_refcounts := jm_set account_id (count_of 0 (ol_refcounts s) account_id + 1) (ol_refcounts s)\<rparr>"

definition release_lease :: "string \<Rightarrow> oauth_leases \<Rightarrow> oauth_leases \<times> bool" where
  "release_lease lease_id s =
    (case jm_get (ol_leases s) lease_id of
       None \<Rightarrow> (s, False)
     | Some account_id \<Rightarrow>
       (let current = count_of 1 (ol_refcounts s) account_id
        in (s\<lparr>ol_leases := jm_delete lease_id (ol_leases s),
              ol_refcounts := (if current \<le> 1 then jm_delete account_id (ol_refcounts s)
                               else jm_set account_id (current - 1) (ol_refcounts s))\<rparr>, True)))"

definition active_lease_count :: "string \<Rightarrow> oauth_leases \<Rightarrow> nat" where
  "active_lease_count account_id s = count_of 0 (ol_refcounts s) account_id"

definition lease_counts_ok :: "oauth_leases \<Rightarrow> bool" where
  "lease_counts_ok s \<longleftrightarrow> jm_wf (ol_leases s) \<and>
     (\<forall>a. active_lease_count a s = length (filter (\<lambda>p. snd p = a) (ol_leases s)))"

lemma jm_set_absent: "jm_get m k = None \<Longrightarrow> jm_set k v m = m @ [(k, v)]"
  by (induction m) (auto simp: jm_get_def jm_set_def split: if_splits)

lemma length_filter_delete:
  assumes "jm_wf m" and "jm_get m k = Some v"
  shows "length (filter P (jm_delete k m)) = length (filter P m) - (if P (k, v) then 1 else 0)"
  using assms
proof (induction m)
  case Nil
  then show ?case by simp
next
  case (Cons p m)
  show ?case
  proof (cases "fst p = k")
    case True
    then have "p = (k, v)" using Cons.prems by (cases p) (auto simp: jm_get_def)
    moreover have "filter (\<lambda>q. fst q \<noteq> k) m = m"
      using Cons.prems(1) True by (auto simp: jm_wf_def jm_keys_def image_iff intro!: filter_True)
    ultimately show ?thesis by (simp add: jm_delete_filter)
  next
    case False
    then have "jm_wf m" "jm_get m k = Some v" using Cons.prems by (cases p, auto simp: jm_wf_def jm_keys_def jm_get_def)
    moreover from this(2) have "P (k, v) \<Longrightarrow> 0 < length (filter P m)"
      by (auto dest!: jm_get_SomeD simp: filter_empty_conv)
    ultimately show ?thesis using Cons.IH False by (auto simp: jm_delete_filter)
  qed
qed

lemma oauth_lease_ok:
  "lease_counts_ok s \<Longrightarrow> jm_get (ol_leases s) lease_id = None \<Longrightarrow> lease_counts_ok (oauth_lease lease_id a s)"
  by (auto simp: lease_counts_ok_def oauth_lease_def active_lease_count_def) (auto simp: jm_set_absent)

lemma release_lease_ok: "lease_counts_ok s \<Longrightarrow> lease_counts_ok (fst (release_lease lease_id s))"
proof (cases "jm_get (ol_leases s) lease_id")
  case (Some a)
  assume ok: "lease_counts_ok s"
  then have wf: "jm_wf (ol_leases s)" by (simp add: lease_counts_ok_def)
  have "0 < length (filter (\<lambda>p. snd p = a) (ol_leases s))"
    using jm_get_SomeD [OF Some] by (force simp: filter_empty_conv)
  then have pos: "0 < count_of 0 (ol_refcounts s) a" using ok by (simp add: lease_counts_ok_def active_lease_count_def)
  then show ?thesis
    using ok Some length_filter_delete [OF wf Some]
    by (auto simp: lease_counts_ok_def release_lease_def active_lease_count_def Let_def
        count_of_default [where d = "Suc 0"] split: if_splits)
qed (simp add: release_lease_def)

lemma release_lease_twice: "snd (release_lease lease_id (fst (release_lease lease_id s))) = False"
  by (auto simp: release_lease_def Let_def split: option.split)

subsection \<open>Quota sweeps\<close>

definition QUOTA_SWEEP_COOLDOWN_MS :: int where "QUOTA_SWEEP_COOLDOWN_MS = 15 * 60000"

record sweep_result =
  sr_refreshed :: bool
  sr_available :: bool
  sr_next_at :: "int option"

definition get_quota_available :: "string \<Rightarrow> quota_store \<Rightarrow> bool" where
  "get_quota_available account_id s =
    (case quota_store_get account_id s of None \<Rightarrow> True | Some r \<Rightarrow> qsr_available r)"

definition quota_available_batch :: "string list \<Rightarrow> quota_store \<Rightarrow> (string, bool) js_map" where
  "quota_available_batch ids s =
    (if ids = [] then []
     else fold (\<lambda>r m. jm_set (qsr_account_id r) (qsr_available r) m) (quota_store_list_for ids s) [])"

definition plain_quota_record :: "string \<Rightarrow> bool \<Rightarrow> int option \<Rightarrow> quota_state" where
  "plain_quota_record account_id available last_refresh = \<lparr>qsr_account_id = account_id,
     qsr_available = available, qsr_last_refresh = last_refresh, qsr_last_attempt = None,
     qsr_last_success = None, qsr_quota = None\<rparr>"

definition set_quota_available :: "string \<Rightarrow> bool \<Rightarrow> quota_store \<Rightarrow> quota_store" where
  "set_quota_available account_id available s =
     quota_store_set (plain_quota_record account_id available
       (case quota_store_get account_id s of None \<Rightarrow> None | Some p \<Rightarrow> qsr_last_refresh p)) s"

text \<open>
  \<open>refreshQuotaIfDue\<close> after its read of the store, against the in-flight map: the cached answer,
  the sweep already running, or a new one.
\<close>

datatype sweep_decision = SweepCached sweep_result | SweepJoin nat | SweepStart

definition quota_refresh_decide ::
  "int \<Rightarrow> int \<Rightarrow> quota_state option \<Rightarrow> (string, nat) js_map \<Rightarrow> string \<Rightarrow> sweep_decision" where
  "quota_refresh_decide cooldown now_ms r inflight account_id =
    (case (case r of None \<Rightarrow> None | Some q \<Rightarrow> qsr_last_refresh q) of
       Some last_refresh \<Rightarrow>
         if now_ms - last_refresh < cooldown
         then SweepCached \<lparr>sr_refreshed = False,
                sr_available = (case r of None \<Rightarrow> True | Some q \<Rightarrow> qsr_available q),
                sr_next_at = Some (last_refresh + cooldown)\<rparr>
         else (case jm_get inflight account_id of Some p \<Rightarrow> SweepJoin p | None \<Rightarrow> SweepStart)
     | None \<Rightarrow> (case jm_get inflight account_id of Some p \<Rightarrow> SweepJoin p | None \<Rightarrow> SweepStart))"

definition perform_refresh :: "int \<Rightarrow> string \<Rightarrow> bool \<Rightarrow> int \<Rightarrow> quota_store \<Rightarrow> quota_store \<times> sweep_result" where
  "perform_refresh cooldown account_id available now_ms s =
    (quota_store_set (plain_quota_record account_id available (Some now_ms)) s,
     \<lparr>sr_refreshed = True, sr_available = available, sr_next_at = Some (now_ms + cooldown)\<rparr>)"

lemma quota_cooldown:
  assumes "0 \<le> t" and "t < cooldown"
  shows "\<exists>res. quota_refresh_decide cooldown (now_ms + t)
      (quota_store_get a (fst (perform_refresh cooldown a available now_ms s))) inflight a = SweepCached res \<and>
    \<not> sr_refreshed res \<and> sr_available res = available \<and> sr_next_at res = Some (now_ms + cooldown)"
  using assms by (simp add: perform_refresh_def quotas.get_put quota_refresh_decide_def plain_quota_record_def)

subsection \<open>Properties\<close>

text \<open>
  C22: Token refreshes are single-flight: in every reachable state at most one refresh per account
  is running, and a caller that needs a fresh token while one runs joins it instead of starting
  another; once nothing runs or waits for its callback, no account is left marked as refreshing.
\<close>

theorem token_refresh_single_flight:
  assumes "oc_reachable skew tokens s"
  shows "(\<forall>i j r q. jm_get (oc_running s) i = Some r \<and> jm_get (oc_running s) j = Some q \<and> rf_account r = rf_account q \<longrightarrow> i = j) \<and>
    (\<forall>i r now_ms cached. jm_get (oc_running s) i = Some r \<and> (\<exists>t. cached = Some t \<and> \<not> is_fresh skew now_ms t \<and> ot_refresh_token t \<noteq> None) \<longrightarrow>
       ensure_fresh_decide skew now_ms (rf_account r) cached s = (s, Inr i)) \<and>
    (oc_running s = [] \<and> oc_settled s = [] \<longrightarrow> (\<forall>a. jm_get (oc_inflight s) a = None))"
proof (intro conjI)
  note inv = single_flight_reachable [OF assms]
  show "\<forall>i j r q. jm_get (oc_running s) i = Some r \<and> jm_get (oc_running s) j = Some q \<and> rf_account r = rf_account q \<longrightarrow> i = j"
    using single_flightD(1) [OF inv] by (metis option.inject)
  show "\<forall>i r now_ms cached. jm_get (oc_running s) i = Some r \<and> (\<exists>t. cached = Some t \<and> \<not> is_fresh skew now_ms t \<and> ot_refresh_token t \<noteq> None) \<longrightarrow>
       ensure_fresh_decide skew now_ms (rf_account r) cached s = (s, Inr i)"
    using single_flightD(1) [OF inv] by (auto simp: ensure_fresh_decide_def)
  show "oc_running s = [] \<and> oc_settled s = [] \<longrightarrow> (\<forall>a. jm_get (oc_inflight s) a = None)"
    using single_flight_quiescent [OF inv] by blast
qed

theorem token_refresh_single_flight_witness:
  "\<exists>s. oc_reachable 30000 [] s \<and> oc_running s \<noteq> [] \<and>
     (\<forall>i j r q. jm_get (oc_running s) i = Some r \<and> jm_get (oc_running s) j = Some q \<and> rf_account r = rf_account q \<longrightarrow> i = j)"
proof -
  let ?s1 = "ensure_fresh_read ''a'' (coordinator_initial [])"
  let ?s2 = "fst (ensure_fresh_decide 30000 0 ''a'' None (?s1\<lparr>oc_reads := [] @ []\<rparr>))"
  have "oc_reachable 30000 [] ?s1" by (rule oc_reachable.step [OF oc_reachable.start]) (rule oc_step.read)
  moreover have "oc_step 30000 ?s1 ?s2"
    by (rule oc_step.decide) (simp add: ensure_fresh_read_def coordinator_initial_def token_store_get_def)
  ultimately have reach: "oc_reachable 30000 [] ?s2" by (rule oc_reachable.step)
  moreover have "oc_running ?s2 \<noteq> []"
    by (simp add: ensure_fresh_decide_def ensure_fresh_read_def coordinator_initial_def jm_set_def)
  ultimately show ?thesis using token_refresh_single_flight [OF reach] by blast
qed

text \<open>The lease operations, with the fresh ids the runtime draws.\<close>

datatype oauth_lease_event = LeaseTake string string | LeaseRelease string

fun oauth_lease_step :: "oauth_lease_event \<Rightarrow> oauth_leases \<Rightarrow> oauth_leases" where
  "oauth_lease_step (LeaseTake l a) s = (if jm_get (ol_leases s) l = None then oauth_lease l a s else s)"
| "oauth_lease_step (LeaseRelease l) s = fst (release_lease l s)"

text \<open>
  Token leases are counted exactly: after any sequence of leases and releases (with fresh lease
  ids) the active count of every account is the number of its open leases, and a lease released
  twice is counted down once.
\<close>

theorem oauth_lease_counts_exact:
  "active_lease_count a (fold oauth_lease_step es oauth_leases_empty) =
   length (filter (\<lambda>p. snd p = a) (ol_leases (fold oauth_lease_step es oauth_leases_empty))) \<and>
   snd (release_lease l (fst (release_lease l (fold oauth_lease_step es oauth_leases_empty)))) = False"
proof -
  have "lease_counts_ok s \<Longrightarrow> lease_counts_ok (fold oauth_lease_step es s)" for s
  proof (induction es arbitrary: s)
    case (Cons e es)
    then show ?case by (cases e) (auto intro: oauth_lease_ok release_lease_ok)
  qed simp
  moreover have "lease_counts_ok oauth_leases_empty"
    by (simp add: lease_counts_ok_def oauth_leases_empty_def active_lease_count_def count_of_def)
  ultimately show ?thesis by (simp add: lease_counts_ok_def release_lease_twice)
qed

end
