(* ===== verification/CredentialSelect.thy ===== *)
theory CredentialSelect imports OAuthCoordinator NetworkSelect begin

text \<open>
  Credential selection (\<open>CredentialSelector\<close> of \<open>src/auth/credentials.ts\<close>), the credential bundle
  codec (\<open>src/auth/credential-bundle.ts\<close>), the driver registry (\<open>src/auth/drivers.ts\<close>) and the
  token keepalive (\<open>src/auth/oauth-keepalive.ts\<close>). \<open>JSON.parse\<close> and \<open>JSON.stringify\<close> are the
  arguments \<open>parse\<close> and \<open>stringify\<close>; UUIDs and the lease's token are arguments.
\<close>

subsection \<open>Eligibility and ranking\<close>

text \<open>\<open>Date.parse(lock.retryAt) > nowMs\<close>, false on \<open>NaN\<close>.\<close>

definition lock_blocks :: "account_candidate \<Rightarrow> int \<Rightarrow> string option \<Rightarrow> bool" where
  "lock_blocks c now_ms model_id =
    (case model_id of
       None \<Rightarrow> False
     | Some m \<Rightarrow> (case ac_model_locks c of
          None \<Rightarrow> False
        | Some locks \<Rightarrow> (case jm_get locks m of
             None \<Rightarrow> False
           | Some l \<Rightarrow> (case parse_iso (ml_retry_at l) of None \<Rightarrow> False | Some t \<Rightarrow> now_ms < t))))"

definition is_account_eligible :: "account_candidate \<Rightarrow> int \<Rightarrow> string option \<Rightarrow> bool" where
  "is_account_eligible c now_ms model_id =
    (if \<not> ac_enabled c \<or> \<not> ac_quota_available c then False
     else case ac_health c of
       None \<Rightarrow> \<not> lock_blocks c now_ms model_id
     | Some h \<Rightarrow>
       if rh_status h = StDisabled then False
       else if rh_status h = StCoolingDown \<and>
           (case rh_retry_at h of
              None \<Rightarrow> True
            | Some at_iso \<Rightarrow> (case parse_iso at_iso of None \<Rightarrow> True | Some t \<Rightarrow> \<not> t \<le> now_ms))
         then False
       else \<not> lock_blocks c now_ms model_id)"

definition num_of_bool :: "bool \<Rightarrow> int" where
  "num_of_bool b = (if b then 1 else 0)"

definition rank_order ::
  "(string \<Rightarrow> string \<Rightarrow> int) \<Rightarrow> string option \<Rightarrow> int \<Rightarrow> string option \<Rightarrow>
   account_candidate \<Rightarrow> account_candidate \<Rightarrow> int" where
  "rank_order compare preferred now_ms model_id a b =
    (let eligible_diff = num_of_bool (is_account_eligible b now_ms model_id) -
                         num_of_bool (is_account_eligible a now_ms model_id)
     in if eligible_diff \<noteq> 0 then eligible_diff
        else let preferred_diff = num_of_bool (Some (ac_id b) = preferred) - num_of_bool (Some (ac_id a) = preferred)
          in if preferred_diff \<noteq> 0 then preferred_diff else compare (ac_id a) (ac_id b))"

definition rank_account_candidates ::
  "(string \<Rightarrow> string \<Rightarrow> int) \<Rightarrow> account_candidate list \<Rightarrow> string option \<Rightarrow> int \<Rightarrow> string option \<Rightarrow>
   account_candidate list" where
  "rank_account_candidates compare cs preferred now_ms model_id =
     js_sort (rank_order compare preferred now_ms model_id) cs"

subsection \<open>Selection\<close>

record account_config =
  acf_id :: string
  acf_provider_id :: string
  acf_kind :: credential_kind
  acf_secret :: "string option"
  acf_enabled :: bool
  acf_priority :: int

datatype selection_strategy = Priority | RoundRobinStrategy

record credential_input =
  cri_provider_id :: string
  cri_candidates :: "account_candidate list"
  cri_preferred :: "string option"
  cri_strategy :: "selection_strategy option"
  cri_affinity :: "string option"
  cri_sticky_limit :: "rat option"
  cri_model_id :: "string option"

record selector =
  sel_leases :: "(string, string \<times> string) js_map"   \<comment> \<open>lease id to account and OAuth lease id\<close>
  sel_cursor :: "(string, nat) js_map"
  sel_in_flight :: "(string, nat) js_map"
  sel_oauth :: oauth_leases

definition selector_initial :: selector where
  "selector_initial = \<lparr>sel_leases = [], sel_cursor = [], sel_in_flight = [], sel_oauth = oauth_leases_empty\<rparr>"

datatype credential_reason = CrPreferred | CrHealthy | CrSole | CrFallback

record credential_result =
  crr_account :: account_candidate
  crr_kind :: credential_kind
  crr_lease_id :: string
  crr_secret :: string
  crr_reason :: credential_reason

definition get_in_flight :: "selector \<Rightarrow> string \<Rightarrow> nat" where
  "get_in_flight s account_id = count_of 0 (sel_in_flight s) account_id"

definition track_selection :: "string \<Rightarrow> selector \<Rightarrow> selector" where
  "track_selection account_id s = s\<lparr>sel_in_flight := jm_set account_id (get_in_flight s account_id + 1) (sel_in_flight s)\<rparr>"

definition track_release :: "string \<Rightarrow> selector \<Rightarrow> selector" where
  "track_release account_id s =
    (let remaining = get_in_flight s account_id - 1
     in s\<lparr>sel_in_flight := (if 0 < remaining then jm_set account_id remaining (sel_in_flight s)
                          else jm_delete account_id (sel_in_flight s))\<rparr>)"

text \<open>\<open>Math.max(1, Math.min(100, Math.round(limit)))\<close>, zero when absent.\<close>

definition sticky_limit_of :: "rat option \<Rightarrow> nat" where
  "sticky_limit_of l = (case l of None \<Rightarrow> 0 | Some q \<Rightarrow> nat (max 1 (min 100 (js_round q))))"

definition sticky_pool :: "credential_input \<Rightarrow> account_candidate list \<Rightarrow> account_candidate list" where
  "sticky_pool inp eligible =
    (let limit = sticky_limit_of (cri_sticky_limit inp)
     in if 0 < limit \<and> truthy (cri_affinity inp) \<and> limit \<le> length eligible
        then map (\<lambda>offset. eligible !
               ((nat (stable_hash (the (cri_affinity inp) @ '':'' @ cri_provider_id inp)) + offset) mod length eligible))
             [0..<limit]
        else eligible)"

definition choose_account :: "credential_input \<Rightarrow> account_candidate list \<Rightarrow> selector \<Rightarrow> selector \<times> account_candidate option" where
  "choose_account inp eligible s =
    (let pool0 = sticky_pool inp eligible
     in if cri_strategy inp = Some RoundRobinStrategy \<and> 1 < length pool0
        then let cursor = count_of 0 (sel_cursor s) (cri_provider_id inp);
                 idle = filter (\<lambda>c. get_in_flight s (ac_id c) = 0) pool0;
                 pool = (if idle \<noteq> [] then idle else pool0)
          in (s\<lparr>sel_cursor := jm_set (cri_provider_id inp) ((cursor + 1) mod length pool) (sel_cursor s)\<rparr>,
              Some (pool ! (cursor mod length pool)))
        else let idle = filter (\<lambda>c. get_in_flight s (ac_id c) = 0) eligible
          in (s, if idle \<noteq> [] then Some (hd idle) else if eligible \<noteq> [] then Some (hd eligible) else None))"

definition with_fresh_access_token ::
  "(string \<Rightarrow> (string \<times> json) list option) \<Rightarrow> ((string \<times> json) list \<Rightarrow> string) \<Rightarrow>
   string option \<Rightarrow> string \<Rightarrow> string" where
  "with_fresh_access_token parse stringify stored fresh =
    (case stored of
       None \<Rightarrow> fresh
     | Some raw \<Rightarrow>
       if raw = [] \<or> hd raw \<noteq> CHR ''{'' then fresh
       else case parse raw of
         None \<Rightarrow> fresh
       | Some obj \<Rightarrow>
         (case js_field obj ''accessToken'' of
            Some (JStr t) \<Rightarrow> if t = [] then fresh else stringify (jm_set ''accessToken'' (JStr fresh) obj)
          | _ \<Rightarrow> fresh))"

text \<open>
  \<open>select\<close> with the answers of what it awaits: the account's configuration, and for an OAuth
  account the lease id and token of \<open>oauth.lease\<close>, or the error it threw.
\<close>

definition unavailable :: "string \<Rightarrow> call_error" where
  "unavailable msg = make_provider_error CredentialUnavailable msg
     (no_options\<lparr>eo_retryable := Some False, eo_route_scope := Some ScAccount\<rparr>)"

definition credential_select ::
  "(string \<Rightarrow> string \<Rightarrow> int) \<Rightarrow> (string \<Rightarrow> (string \<times> json) list option) \<Rightarrow> ((string \<times> json) list \<Rightarrow> string) \<Rightarrow>
   (string \<Rightarrow> account_config option) \<Rightarrow> (string \<Rightarrow> call_error + (string \<times> oauth_token)) \<Rightarrow> string \<Rightarrow>
   credential_input \<Rightarrow> int \<Rightarrow> selector \<Rightarrow> selector \<times> (call_error + credential_result option)" where
  "credential_select compare parse stringify config oauth lease_id inp now_ms s =
    (let ranked = rank_account_candidates compare (cri_candidates inp) (cri_preferred inp) now_ms (cri_model_id inp);
         eligible = filter (\<lambda>c. is_account_eligible c now_ms (cri_model_id inp)) ranked
     in case choose_account inp eligible s of
       (s, None) \<Rightarrow> (s, Inr None)
     | (s, Some chosen) \<Rightarrow>
       (case config (ac_id chosen) of
          None \<Rightarrow> (s, Inl (unavailable (''Account '' @ ac_id chosen @ '' has no credential configuration'')))
        | Some cfg \<Rightarrow>
          if \<not> acf_enabled cfg then (s, Inl (unavailable (''Account '' @ ac_id chosen @ '' is disabled'')))
          else
            (let reason = (if Some (ac_id chosen) = cri_preferred inp then CrPreferred
                           else if length ranked = 1 then CrSole
                           else if cri_preferred inp \<noteq> None then CrFallback else CrHealthy);
                 result = (\<lambda>secret. Some \<lparr>crr_account = chosen, crr_kind = acf_kind cfg, crr_lease_id = lease_id,
                                       crr_secret = secret, crr_reason = reason\<rparr>)
             in if acf_kind cfg = CkOauth
                then case oauth (ac_id chosen) of
                  Inl e \<Rightarrow> (s, Inl e)
                | Inr (oauth_id, token) \<Rightarrow>
                  (track_selection (ac_id chosen)
                     (s\<lparr>sel_oauth := oauth_lease oauth_id (ac_id chosen) (sel_oauth s),
                        sel_leases := jm_set lease_id (ac_id chosen, oauth_id) (sel_leases s)\<rparr>),
                   Inr (result (with_fresh_access_token parse stringify (acf_secret cfg) (ot_access_token token))))
                else case acf_secret cfg of
                  None \<Rightarrow> (s, Inl (unavailable (''Account '' @ ac_id chosen @ '' has no secret configured'')))
                | Some secret \<Rightarrow>
                  if secret = [] then (s, Inl (unavailable (''Account '' @ ac_id chosen @ '' has no secret configured'')))
                  else (track_selection (ac_id chosen) s, Inr (result secret)))))"

definition credential_release :: "string \<Rightarrow> selector \<Rightarrow> selector" where
  "credential_release lease_id s =
    (case jm_get (sel_leases s) lease_id of
       None \<Rightarrow> s
     | Some (account_id, oauth_id) \<Rightarrow>
       track_release account_id
         (s\<lparr>sel_leases := jm_delete lease_id (sel_leases s),
            sel_oauth := fst (release_lease oauth_id (sel_oauth s))\<rparr>))"

definition credential_unavailable_error :: "string \<Rightarrow> string option \<Rightarrow> call_error" where
  "credential_unavailable_error provider_id retry_at =
     make_provider_error CredentialUnavailable (''No eligible account available for provider '' @ provider_id)
       (no_options\<lparr>eo_retryable := Some True, eo_route_scope := Some ScAccount, eo_retry_at := retry_at\<rparr>)"

subsection \<open>The credential bundle\<close>

text \<open>\<open>parse\<close> yields any JSON value or fails.\<close>

definition bundle_token :: "json option \<Rightarrow> string option" where
  "bundle_token v = (case v of
      Some (JObj obj) \<Rightarrow> (case js_field obj ''accessToken'' of Some (JStr t) \<Rightarrow> if t = [] then None else Some t | _ \<Rightarrow> None)
    | _ \<Rightarrow> None)"

definition extract_access_token :: "(string \<Rightarrow> json option) \<Rightarrow> string \<Rightarrow> string option" where
  "extract_access_token parse credential =
    (let trimmed = trim credential
     in if trimmed = [] then None
        else if hd trimmed = CHR ''{'' then bundle_token (parse trimmed)
        else Some trimmed)"

definition extract_access_token_or_raw :: "(string \<Rightarrow> json option) \<Rightarrow> string \<Rightarrow> string" where
  "extract_access_token_or_raw parse credential =
    (let trimmed = trim credential
     in if trimmed = [] \<or> hd trimmed \<noteq> CHR ''{'' then trimmed
        else case bundle_token (parse trimmed) of Some t \<Rightarrow> t | None \<Rightarrow> trimmed)"

subsection \<open>The driver registry\<close>

type_synonym 'd driver_registry = "(string, 'd) js_map"

definition driver_get :: "string \<Rightarrow> 'd driver_registry \<Rightarrow> 'd option" where
  "driver_get provider_id r = jm_get r provider_id"

definition driver_has :: "string \<Rightarrow> 'd driver_registry \<Rightarrow> bool" where
  "driver_has provider_id r = jm_has r provider_id"

definition driver_register :: "string \<Rightarrow> 'd \<Rightarrow> 'd driver_registry \<Rightarrow> string + 'd driver_registry" where
  "driver_register provider_id d r =
    (if length provider_id = 0 then Inl ''provider id must not be empty'' else Inr (jm_set provider_id d r))"

fun driver_register_all :: "(string \<times> 'd) list \<Rightarrow> 'd driver_registry \<Rightarrow> string + 'd driver_registry" where
  "driver_register_all [] r = Inr r"
| "driver_register_all ((p, d) # es) r =
     (case driver_register p d r of Inl e \<Rightarrow> Inl e | Inr r' \<Rightarrow> driver_register_all es r')"

definition create_driver_registry :: "'d \<Rightarrow> (string \<times> 'd) list \<Rightarrow> string + 'd driver_registry" where
  "create_driver_registry codex initial = driver_register_all ((''codex'', codex) # initial) []"

subsection \<open>Keepalive\<close>

record keepalive_config =
  kac_interval_ms :: int
  kac_lead_ms :: int

definition keepalive_config_of :: "int option \<Rightarrow> int option \<Rightarrow> keepalive_config" where
  "keepalive_config_of interval lead = \<lparr>
     kac_interval_ms = max 30000 (case interval of None \<Rightarrow> 5 * 60 * 1000 | Some i \<Rightarrow> i),
     kac_lead_ms = max 30000 (case lead of None \<Rightarrow> 5 * 60 * 1000 | Some l \<Rightarrow> l)\<rparr>"

text \<open>Whether \<open>refreshIfNearExpiry\<close> goes on to call \<open>ensureFresh\<close>.\<close>

definition keepalive_due :: "keepalive_config \<Rightarrow> int \<Rightarrow> oauth_token option \<Rightarrow> bool" where
  "keepalive_due cfg now_ms token =
    (case token of
       None \<Rightarrow> False
     | Some t \<Rightarrow> (case ot_expires_at t of
          None \<Rightarrow> False
        | Some e \<Rightarrow> \<not> kac_lead_ms cfg < e - now_ms \<and> ot_refresh_token t \<noteq> None))"

text \<open>One account of the sweep, with the coordinator it calls.\<close>

definition keepalive_account ::
  "keepalive_config \<Rightarrow> int \<Rightarrow> int \<Rightarrow> string \<Rightarrow> coordinator \<Rightarrow> coordinator \<times> (oauth_token + nat) option" where
  "keepalive_account cfg skew now_ms account_id s =
    (let token = token_store_get account_id (oc_tokens s)
     in if \<not> keepalive_due cfg now_ms token then (s, None)
        else case ensure_fresh_decide skew now_ms account_id token s of (s', r) \<Rightarrow> (s', Some r))"

definition keepalive_sweep_targets :: "(string \<times> credential_kind) list \<Rightarrow> string list" where
  "keepalive_sweep_targets accounts = map fst (filter (\<lambda>a. snd a = CkOauth) accounts)"

subsection \<open>Lemmas\<close>

lemma lock_ineligible: "lock_blocks c now_ms m \<Longrightarrow> \<not> is_account_eligible c now_ms m"
  by (auto simp: is_account_eligible_def split: option.split)

lemma set_rank [simp]: "set (rank_account_candidates compare cs p now_ms m) = set cs"
  by (simp add: rank_account_candidates_def)

lemma rank_order_comparator:
  assumes "comparator compare"
  shows "comparator (rank_order compare preferred now_ms model_id)"
  using assms unfolding comparator_def
  by (auto simp: rank_order_def num_of_bool_def Let_def split: if_splits)

lemma sticky_pool_subset: "set (sticky_pool inp eligible) \<subseteq> set eligible"
proof -
  have "0 < sticky_limit_of (cri_sticky_limit inp) \<Longrightarrow>
      sticky_limit_of (cri_sticky_limit inp) \<le> length eligible \<Longrightarrow> eligible ! (n mod length eligible) \<in> set eligible" for n
    by (intro nth_mem mod_less_divisor) linarith
  then show ?thesis by (auto simp: sticky_pool_def Let_def)
qed

lemma sticky_pool_empty: "sticky_pool inp [] = []"
  by (simp add: sticky_pool_def Let_def)

lemma choose_account_mem:
  assumes "choose_account inp eligible s = (s', Some c)"
  shows "c \<in> set eligible"
proof (cases "cri_strategy inp = Some RoundRobinStrategy \<and> 1 < length (sticky_pool inp eligible)")
  case True
  let ?idle = "filter (\<lambda>c. get_in_flight s (ac_id c) = 0) (sticky_pool inp eligible)"
  let ?pool = "if ?idle \<noteq> [] then ?idle else sticky_pool inp eligible"
  have "?pool \<noteq> []" using True by auto
  then have "?pool ! (count_of 0 (sel_cursor s) (cri_provider_id inp) mod length ?pool) \<in> set ?pool"
    by (intro nth_mem mod_less_divisor) simp
  moreover have "c = ?pool ! (count_of 0 (sel_cursor s) (cri_provider_id inp) mod length ?pool)"
    using assms True by (simp add: choose_account_def Let_def)
  moreover have "set ?pool \<subseteq> set eligible" using sticky_pool_subset [of inp eligible] by auto
  ultimately show ?thesis by blast
next
  case False
  then have "c = (let idle = filter (\<lambda>c. get_in_flight s (ac_id c) = 0) eligible
      in if idle \<noteq> [] then hd idle else hd eligible) \<and> eligible \<noteq> []"
    using assms by (auto simp: choose_account_def Let_def split: if_splits)
  then show ?thesis
    by (metis (mono_tags, lifting) filter_is_subset hd_in_set in_mono)
qed

lemma choose_account_none: "snd (choose_account inp eligible s) = None \<longleftrightarrow> eligible = []"
  by (auto simp: choose_account_def Let_def sticky_pool_empty)

lemma choose_account_state:
  "choose_account inp eligible s = (s', r) \<Longrightarrow>
   sel_leases s' = sel_leases s \<and> sel_in_flight s' = sel_in_flight s \<and> sel_oauth s' = sel_oauth s"
  by (auto simp: choose_account_def Let_def split: if_splits)

text \<open>An idle account is preferred by the priority strategy.\<close>

lemma choose_account_idle:
  assumes "choose_account inp eligible s = (s', Some c)" and "cri_strategy inp \<noteq> Some RoundRobinStrategy"
    and "d \<in> set eligible" and "get_in_flight s (ac_id d) = 0"
  shows "get_in_flight s (ac_id c) = 0"
proof -
  let ?idle = "filter (\<lambda>c. get_in_flight s (ac_id c) = 0) eligible"
  have "?idle \<noteq> []" using assms(3,4) by (auto simp: filter_empty_conv)
  moreover from this have "c = hd ?idle" using assms(1,2) by (auto simp: choose_account_def Let_def)
  ultimately show ?thesis using hd_in_set [of ?idle] by simp
qed

lemma credential_select_chosen:
  assumes "credential_select compare parse stringify config oauth lease_id inp now_ms s = (s', Inr (Some r))"
  shows "crr_account r \<in> set (cri_candidates inp) \<and>
    is_account_eligible (crr_account r) now_ms (cri_model_id inp) \<and>
    (\<exists>cfg. config (ac_id (crr_account r)) = Some cfg \<and> acf_enabled cfg \<and> crr_kind r = acf_kind cfg) \<and>
    crr_lease_id r = lease_id"
proof -
  let ?el = "filter (\<lambda>c. is_account_eligible c now_ms (cri_model_id inp))
    (rank_account_candidates compare (cri_candidates inp) (cri_preferred inp) now_ms (cri_model_id inp))"
  obtain t oc where ch: "choose_account inp ?el s = (t, oc)" by fastforce
  then obtain c where c: "oc = Some c"
    using assms by (cases oc) (auto simp: credential_select_def Let_def)
  have mem: "c \<in> set ?el" using choose_account_mem ch c by blast
  have "crr_account r = c \<and> crr_lease_id r = lease_id \<and>
      (\<exists>cfg. config (ac_id c) = Some cfg \<and> acf_enabled cfg \<and> crr_kind r = acf_kind cfg)"
    using assms ch c
    by (auto simp: credential_select_def Let_def split: option.splits if_splits sum.splits prod.splits)
  then show ?thesis using mem by auto
qed

lemma credential_select_none:
  assumes "credential_select compare parse stringify config oauth lease_id inp now_ms s = (s', Inr None)"
  shows "\<forall>c \<in> set (cri_candidates inp). \<not> is_account_eligible c now_ms (cri_model_id inp)"
proof -
  let ?el = "filter (\<lambda>c. is_account_eligible c now_ms (cri_model_id inp))
    (rank_account_candidates compare (cri_candidates inp) (cri_preferred inp) now_ms (cri_model_id inp))"
  have "snd (choose_account inp ?el s) = None"
    using assms
    by (cases "choose_account inp ?el s")
      (auto simp: credential_select_def Let_def split: option.splits if_splits sum.splits prod.splits)
  then have "?el = []" by (simp only: choose_account_none)
  then show ?thesis by (auto simp: filter_empty_conv)
qed

text \<open>What a successful selection does to the lease tables.\<close>

lemma credential_select_effect:
  assumes "credential_select compare parse stringify config oauth lease_id inp now_ms s = (s', Inr (Some r))"
  defines "a \<equiv> ac_id (crr_account r)"
  shows "sel_in_flight s' = jm_set a (get_in_flight s a + 1) (sel_in_flight s)"
    and "crr_kind r \<noteq> CkOauth \<Longrightarrow> sel_leases s' = sel_leases s \<and> sel_oauth s' = sel_oauth s"
    and "crr_kind r = CkOauth \<Longrightarrow> \<exists>oid tok. oauth a = Inr (oid, tok) \<and>
      sel_leases s' = jm_set lease_id (a, oid) (sel_leases s) \<and> sel_oauth s' = oauth_lease oid a (sel_oauth s)"
proof -
  let ?el = "filter (\<lambda>c. is_account_eligible c now_ms (cri_model_id inp))
    (rank_account_candidates compare (cri_candidates inp) (cri_preferred inp) now_ms (cri_model_id inp))"
  obtain t oc where ch: "choose_account inp ?el s = (t, oc)" by fastforce
  note st = choose_account_state [OF ch]
  show "sel_in_flight s' = jm_set a (get_in_flight s a + 1) (sel_in_flight s)"
    using assms ch st
    by (auto simp: credential_select_def Let_def track_selection_def get_in_flight_def
        split: option.splits if_splits sum.splits prod.splits)
  show "crr_kind r \<noteq> CkOauth \<Longrightarrow> sel_leases s' = sel_leases s \<and> sel_oauth s' = sel_oauth s"
    using assms ch st
    by (auto simp: credential_select_def Let_def track_selection_def
        split: option.splits if_splits sum.splits prod.splits)
  show "crr_kind r = CkOauth \<Longrightarrow> \<exists>oid tok. oauth a = Inr (oid, tok) \<and>
      sel_leases s' = jm_set lease_id (a, oid) (sel_leases s) \<and> sel_oauth s' = oauth_lease oid a (sel_oauth s)"
    using assms ch st
    by (auto simp: credential_select_def Let_def track_selection_def
        split: option.splits if_splits sum.splits prod.splits)
qed

lemma oauth_lease_release:
  assumes "jm_get (ol_leases s) l = None"
  shows "active_lease_count a (fst (release_lease l (oauth_lease l b s))) = active_lease_count a s"
  using assms
  by (auto simp: release_lease_def oauth_lease_def active_lease_count_def Let_def)

lemma credential_release_unknown: "jm_get (sel_leases s) l = None \<Longrightarrow> credential_release l s = s"
  by (simp add: credential_release_def)

lemma keepalive_no_refresh:
  assumes "token_store_get a (oc_tokens s) = Some t" and "ot_expires_at t = Some e"
    and "ot_refresh_token t = Some rt" and "skew < e - now_ms" and "e - now_ms \<le> kac_lead_ms cfg"
  shows "keepalive_account cfg skew now_ms a s = (s, Some (Inl t))"
  using assms by (auto simp: keepalive_account_def keepalive_due_def ensure_fresh_decide_def is_fresh_def Let_def)

lemma extract_or_raw:
  "extract_access_token parse c = Some t \<Longrightarrow> extract_access_token_or_raw parse c = t"
  by (auto simp: extract_access_token_def extract_access_token_or_raw_def Let_def split: if_splits)

text \<open>Releasing the lease of an OAuth selection gives back what the selection took.\<close>

lemma track_release_undo:
  "get_in_flight (track_release a (s\<lparr>sel_in_flight := jm_set a (get_in_flight t a + 1) (sel_in_flight t)\<rparr>)) b =
   get_in_flight t b"
  by (auto simp: track_release_def get_in_flight_def count_of_def Let_def)

lemma oauth_selection_released_lemma:
  assumes "credential_select compare parse stringify config oauth lease_id inp now_ms s = (s', Inr (Some r))"
    and "crr_kind r = CkOauth"
  shows "get_in_flight (credential_release lease_id s') b = get_in_flight s b"
proof -
  let ?a = "ac_id (crr_account r)"
  obtain oid tok where "sel_leases s' = jm_set lease_id (?a, oid) (sel_leases s)"
    using credential_select_effect(3) [OF assms(1) assms(2)] by blast
  moreover note credential_select_effect(1) [OF assms(1)]
  ultimately show ?thesis
    by (auto simp: credential_release_def track_release_def get_in_flight_def count_of_def Let_def)
qed

subsection \<open>Properties\<close>

text \<open>
  C23: Credential selection is sound and complete: an account it selects is one of the candidates,
  is eligible at that time for that model and has an enabled configuration of the reported kind,
  and it reports that no account is available only when no candidate is eligible.
\<close>

theorem credential_selection_sound:
  assumes "credential_select compare parse stringify config oauth lease_id inp now_ms s = (s', Inr answer)"
  shows "case answer of
      None \<Rightarrow> \<forall>c \<in> set (cri_candidates inp). \<not> is_account_eligible c now_ms (cri_model_id inp)
    | Some r \<Rightarrow> crr_account r \<in> set (cri_candidates inp) \<and>
        is_account_eligible (crr_account r) now_ms (cri_model_id inp) \<and>
        (\<exists>cfg. config (ac_id (crr_account r)) = Some cfg \<and> acf_enabled cfg \<and> crr_kind r = acf_kind cfg)"
  using credential_select_none [of compare parse stringify config oauth lease_id inp now_ms s s']
    credential_select_chosen [of compare parse stringify config oauth lease_id inp now_ms s s'] assms
  by (cases answer) auto

definition sample_candidate :: "string \<Rightarrow> bool \<Rightarrow> account_candidate" where
  "sample_candidate i enabled = \<lparr>ac_id = i, ac_provider_id = ''p'', ac_credential_kind = CkOauth, ac_health = None,
     ac_enabled = enabled, ac_quota_available = True, ac_model_locks = None\<rparr>"

definition sample_credential_input :: credential_input where
  "sample_credential_input = \<lparr>cri_provider_id = ''p'', cri_candidates = [sample_candidate ''a'' False, sample_candidate ''b'' True],
     cri_preferred = None, cri_strategy = None, cri_affinity = None, cri_sticky_limit = None, cri_model_id = None\<rparr>"

definition sample_account_config :: "credential_kind \<Rightarrow> string \<Rightarrow> account_config option" where
  "sample_account_config k i = Some \<lparr>acf_id = i, acf_provider_id = ''p'', acf_kind = k, acf_secret = Some ''sk'',
     acf_enabled = True, acf_priority = 0\<rparr>"

definition sample_select :: "credential_kind \<Rightarrow> selector \<times> (call_error + credential_result option)" where
  "sample_select k = credential_select (\<lambda>a b. 0) (\<lambda>t. None) (\<lambda>fs. []) (sample_account_config k)
     (\<lambda>a. Inr (''o1'', \<lparr>ot_access_token = ''t'', ot_expires_at = None, ot_refresh_token = None\<rparr>)) ''l1'' sample_credential_input 0 selector_initial"

lemmas sample_select_simps = sample_select_def credential_select_def sample_credential_input_def sample_candidate_def
  sample_account_config_def rank_account_candidates_def rank_order_def is_account_eligible_def lock_blocks_def
  choose_account_def sticky_pool_def sticky_limit_of_def num_of_bool_def selector_initial_def get_in_flight_def
  count_of_def track_selection_def jm_get_def Let_def

lemma sample_selected:
  "snd (sample_select CkOauth) = Inr (Some \<lparr>crr_account = sample_candidate ''b'' True, crr_kind = CkOauth, crr_lease_id = ''l1'',
     crr_secret = ''t'', crr_reason = CrHealthy\<rparr>)"
  "snd (sample_select CkApiKey) = Inr (Some \<lparr>crr_account = sample_candidate ''b'' True, crr_kind = CkApiKey, crr_lease_id = ''l1'',
     crr_secret = ''sk'', crr_reason = CrHealthy\<rparr>)"
  by (simp_all add: sample_select_simps js_sort_def with_fresh_access_token_def)

theorem credential_selection_sound_witness:
  "is_account_eligible (sample_candidate ''b'' True) 0 None"
proof -
  obtain s' where "sample_select CkOauth = (s', Inr (Some \<lparr>crr_account = sample_candidate ''b'' True, crr_kind = CkOauth,
      crr_lease_id = ''l1'', crr_secret = ''t'', crr_reason = CrHealthy\<rparr>))"
    using sample_selected(1) by (metis prod.collapse)
  then show ?thesis
    unfolding sample_select_def using credential_selection_sound by (fastforce simp: sample_credential_input_def)
qed

text \<open>
  The lease of an OAuth selection round-trips: after a successful selection of an OAuth account
  and the release of its lease, every account's in-flight count is what it was before.
\<close>

theorem oauth_selection_released:
  assumes "credential_select compare parse stringify config oauth lease_id inp now_ms s = (s', Inr (Some r))"
    and "crr_kind r = CkOauth"
  shows "get_in_flight (credential_release (crr_lease_id r) s') b = get_in_flight s b"
  using oauth_selection_released_lemma [OF assms] credential_select_chosen [OF assms(1)] by simp

theorem oauth_selection_released_witness:
  "get_in_flight (credential_release ''l1'' (fst (sample_select CkOauth))) ''b'' = 0"
proof -
  obtain s' where s': "sample_select CkOauth = (s', Inr (Some \<lparr>crr_account = sample_candidate ''b'' True, crr_kind = CkOauth,
      crr_lease_id = ''l1'', crr_secret = ''t'', crr_reason = CrHealthy\<rparr>))"
    using sample_selected(1) by (metis prod.collapse)
  have "get_in_flight (credential_release ''l1'' s') ''b'' = get_in_flight selector_initial ''b''"
    using oauth_selection_released [OF s' [unfolded sample_select_def]] by simp
  then show ?thesis using s' by (simp add: selector_initial_def get_in_flight_def count_of_def)
qed

text \<open>For any other kind of credential the release finds no lease, and the count stays.\<close>

lemma api_key_selection_is_never_released:
  "get_in_flight (credential_release ''l1'' (fst (sample_select CkApiKey))) ''b'' = 1"
  by (simp add: sample_select_simps js_sort_def credential_release_def jm_set_def jm_has_def)

end
