(* ===== verification/ConsoleState.thy ===== *)
theory ConsoleState imports Contracts Flights begin

text \<open>
  Console-side state that the data plane consults: the per-key access lists
  (\<open>src/console/key-acl.ts\<close>), the bounded history of route switches
  (\<open>src/console/route-transitions.ts\<close>), the narrowed runtime settings
  (\<open>src/console/runtime-settings.ts\<close>) and the bounded persistence environment
  (\<open>src/storage/main/env.ts\<close>).
\<close>

subsection \<open>Access lists\<close>

record route_acl =
  acl_providers :: "string list option"
  acl_models :: "string list option"
  acl_denied :: "string list option"

definition acl_matches :: "string \<Rightarrow> string \<Rightarrow> bool" where
  "acl_matches v candidate \<longleftrightarrow> v = candidate \<or> v = ''*''"

definition allowed_by_list :: "string list option \<Rightarrow> string list \<Rightarrow> bool" where
  "allowed_by_list entries candidates =
    (case entries of
       None \<Rightarrow> True
     | Some es \<Rightarrow> es = [] \<or> list_ex (\<lambda>e. list_ex (acl_matches e) candidates) es)"

definition is_route_allowed :: "string \<Rightarrow> string \<Rightarrow> route_acl \<Rightarrow> string option \<Rightarrow> bool" where
  "is_route_allowed provider_id model_id acl requested =
    (let qualified = provider_id @ ''/'' @ model_id
     in if \<not> allowed_by_list (acl_providers acl) [provider_id] then False
     else let model_values = (case requested of
                None \<Rightarrow> [model_id, qualified]
              | Some r \<Rightarrow> [model_id, qualified, r])
     in if \<not> allowed_by_list (acl_models acl) model_values then False
     else if list_ex (\<lambda>e. list_ex (acl_matches e) model_values)
            (case acl_denied acl of None \<Rightarrow> [] | Some es \<Rightarrow> es) then False
     else True)"

text \<open>The set of entries that name one of the candidates.\<close>

definition names_one :: "string list \<Rightarrow> string set \<Rightarrow> bool" where
  "names_one entries cs \<longleftrightarrow> ''*'' \<in> set entries \<or> set entries \<inter> cs \<noteq> {}"

lemma allowed_by_list_iff:
  "cs \<noteq> [] \<Longrightarrow> allowed_by_list entries cs \<longleftrightarrow> entries = None \<or> entries = Some [] \<or> names_one (the entries) (set cs)"
  by (cases entries; cases cs) (auto simp: allowed_by_list_def names_one_def list_ex_iff acl_matches_def)

lemma is_route_allowed_iff:
  "is_route_allowed p m acl requested \<longleftrightarrow>
    (let names = {m, p @ ''/'' @ m} \<union> set_option requested
     in (acl_providers acl = None \<or> acl_providers acl = Some [] \<or> names_one (the (acl_providers acl)) {p}) \<and>
        (acl_models acl = None \<or> acl_models acl = Some [] \<or> names_one (the (acl_models acl)) names) \<and>
        (acl_denied acl = None \<or> \<not> names_one (the (acl_denied acl)) names))"
proof -
  let ?vs = "case requested of None \<Rightarrow> [m, p @ ''/'' @ m] | Some r \<Rightarrow> [m, p @ ''/'' @ m, r]"
  have vs: "?vs \<noteq> []" "set ?vs = {m, p @ ''/'' @ m} \<union> set_option requested"
    by (auto split: option.split)
  have deny: "list_ex (\<lambda>e. list_ex (acl_matches e) ?vs) (case acl_denied acl of None \<Rightarrow> [] | Some es \<Rightarrow> es) \<longleftrightarrow>
      acl_denied acl \<noteq> None \<and> names_one (the (acl_denied acl)) (set ?vs)"
    using vs(1) by (cases "acl_denied acl") (auto simp: list_ex_iff acl_matches_def names_one_def split: option.splits)
  show ?thesis
    unfolding is_route_allowed_def Let_def deny allowed_by_list_iff [OF vs(1)] vs(2)
    by (auto simp: allowed_by_list_iff)
qed

subsection \<open>Route transitions\<close>

text \<open>\<open>rings\<close> is a map of maps; \<open>rt_count\<close> is \<open>routeCount\<close>.\<close>

record transitions =
  rt_rings :: "(route_scope, (string, route_switch list) js_map) js_map"
  rt_count :: int

record transition_limits =
  trl_routes :: int
  trl_per_route :: nat

definition transitions_empty :: transitions where
  "transitions_empty = \<lparr>rt_rings = [], rt_count = 0\<rparr>"

definition transition_ring :: "route_scope \<Rightarrow> transitions \<Rightarrow> transitions \<times> (string, route_switch list) js_map" where
  "transition_ring scope s =
    (case jm_get (rt_rings s) scope of
       Some routes \<Rightarrow> (s, routes)
     | None \<Rightarrow> (s\<lparr>rt_rings := jm_set scope [] (rt_rings s)\<rparr>, []))"

text \<open>The first route of the first scope whose ring is not empty.\<close>

fun first_nonempty :: "(route_scope, (string, route_switch list) js_map) js_map \<Rightarrow>
    (route_scope \<times> (string, route_switch list) js_map) option" where
  "first_nonempty [] = None"
| "first_nonempty ((scope, routes) # rest) = (if routes = [] then first_nonempty rest else Some (scope, routes))"

definition transitions_evict :: "transitions \<Rightarrow> transitions" where
  "transitions_evict s =
    (case first_nonempty (rt_rings s) of
       None \<Rightarrow> s
     | Some (scope, routes) \<Rightarrow>
       (let routes' = jm_evict_oldest routes
        in s\<lparr>rt_rings := (if routes' = [] then jm_delete scope (rt_rings s) else jm_set scope routes' (rt_rings s)),
             rt_count := rt_count s - 1\<rparr>))"

definition keep_last :: "nat \<Rightarrow> 'a list \<Rightarrow> 'a list" where
  "keep_last n xs = drop (length xs - n) xs"

definition transition_record ::
  "transition_limits \<Rightarrow> route_scope \<Rightarrow> string \<Rightarrow> route_switch \<Rightarrow> transitions \<Rightarrow> transitions" where
  "transition_record lim_cfg scope route_id event s =
    (let (s, routes) = transition_ring scope s;
         events = jm_get routes route_id;
         is_new = (events = None);
         (s, events) = (if is_new \<and> trl_routes lim_cfg \<le> rt_count s
            then let s = transitions_evict s; (s, ring) = transition_ring scope s
              in (s, jm_get ring route_id)
            else (s, events));
         (s, ring) = transition_ring scope s;
         evs = (case events of None \<Rightarrow> [] | Some es \<Rightarrow> es) @ [event];
         evs = (if trl_per_route lim_cfg < length evs then keep_last (trl_per_route lim_cfg) evs else evs);
         s = s\<lparr>rt_rings := jm_set scope (jm_set route_id evs ring) (rt_rings s)\<rparr>
     in if is_new then s\<lparr>rt_count := rt_count s + 1\<rparr> else s)"

definition transition_latest :: "route_scope \<Rightarrow> string \<Rightarrow> transitions \<Rightarrow> route_switch option" where
  "transition_latest scope route_id s =
    (case jm_get (rt_rings s) scope of
       None \<Rightarrow> None
     | Some routes \<Rightarrow> (case jm_get routes route_id of
          None \<Rightarrow> None
        | Some es \<Rightarrow> if es = [] then None else Some (last es)))"

text \<open>The number of routes tracked over all scopes.\<close>

definition tracked_routes :: "(route_scope, (string, route_switch list) js_map) js_map \<Rightarrow> nat" where
  "tracked_routes rings = sum_list (map (length \<circ> snd) rings)"

definition transitions_ok :: "transition_limits \<Rightarrow> transitions \<Rightarrow> bool" where
  "transitions_ok cfg s \<longleftrightarrow> jm_wf (rt_rings s) \<and> (\<forall>p \<in> set (rt_rings s). jm_wf (snd p)) \<and>
     rt_count s = int (tracked_routes (rt_rings s)) \<and> rt_count s \<le> trl_routes cfg \<and>
     (\<forall>sc routes r es. jm_get (rt_rings s) sc = Some routes \<longrightarrow> jm_get routes r = Some es \<longrightarrow>
        length es \<le> trl_per_route cfg)"

lemma length_keep_last: "length (keep_last n xs) \<le> n"
  by (simp add: keep_last_def)

lemma last_keep_last: "0 < n \<Longrightarrow> xs \<noteq> [] \<Longrightarrow> keep_last n xs \<noteq> [] \<and> last (keep_last n xs) = last xs"
  by (cases xs) (auto simp: keep_last_def intro!: last_drop)

lemma tracked_set:
  "jm_wf rings \<Longrightarrow> tracked_routes (jm_set sc routes rings) + (case jm_get rings sc of None \<Rightarrow> 0 | Some r \<Rightarrow> length r) =
     tracked_routes rings + length routes"
proof (induction rings)
  case Nil
  then show ?case by (simp add: tracked_routes_def jm_set_def)
next
  case (Cons p rings)
  then have wf: "jm_wf rings" and nin: "fst p \<notin> fst ` set rings" by (auto simp: jm_wf_def jm_keys_def)
  obtain k v where p: "p = (k, v)" by fastforce
  show ?case
    using Cons.IH [OF wf] p nin
    by (auto simp: tracked_routes_def jm_set_def jm_get_def map_of_eq_None_iff split: option.splits)
qed

lemma tracked_delete:
  "jm_wf rings \<Longrightarrow> jm_get rings sc = Some r \<Longrightarrow> tracked_routes (jm_delete sc rings) + length r = tracked_routes rings"
proof (induction rings)
  case Nil
  then show ?case by simp
next
  case (Cons p rings)
  then have wf: "jm_wf rings" and nin: "fst p \<notin> fst ` set rings" by (auto simp: jm_wf_def jm_keys_def)
  obtain k v where p: "p = (k, v)" by fastforce
  show ?case
  proof (cases "k = sc")
    case True
    then have "jm_delete sc (p # rings) = rings" and "v = r"
      using nin p Cons.prems(2) by (auto simp: jm_delete_filter image_iff jm_get_def intro!: filter_True)
    then show ?thesis using p by (simp add: tracked_routes_def)
  next
    case False
    then show ?thesis using Cons.IH [OF wf] Cons.prems(2) p
      by (simp add: tracked_routes_def jm_delete_filter jm_get_def)
  qed
qed

lemma first_nonempty_Some:
  "first_nonempty rings = Some (sc, routes) \<Longrightarrow> (sc, routes) \<in> set rings \<and> routes \<noteq> []"
  by (induction rings rule: first_nonempty.induct) (auto split: if_splits)

lemma first_nonempty_None: "first_nonempty rings = None \<Longrightarrow> tracked_routes rings = 0"
  by (induction rings rule: first_nonempty.induct) (auto simp: tracked_routes_def split: if_splits)

lemma evict_cases:
  assumes "transitions_ok cfg s" and "0 < rt_count s"
  shows "transitions_ok cfg (transitions_evict s)" and "rt_count (transitions_evict s) = rt_count s - 1"
proof -
  have ok: "jm_wf (rt_rings s)" "\<forall>p \<in> set (rt_rings s). jm_wf (snd p)"
    "rt_count s = int (tracked_routes (rt_rings s))" "rt_count s \<le> trl_routes cfg"
    "\<And>sc routes r es. jm_get (rt_rings s) sc = Some routes \<Longrightarrow> jm_get routes r = Some es \<Longrightarrow>
        length es \<le> trl_per_route cfg"
    using assms(1) by (auto simp: transitions_ok_def)
  have "first_nonempty (rt_rings s) \<noteq> None" using first_nonempty_None ok(3) assms(2) by fastforce
  then obtain sc routes where f: "first_nonempty (rt_rings s) = Some (sc, routes)" by auto
  then have mem: "(sc, routes) \<in> set (rt_rings s)" and ne: "routes \<noteq> []" using first_nonempty_Some by blast+
  have get: "jm_get (rt_rings s) sc = Some routes" using mem ok(1) by (simp add: jm_get_in_iff)
  have wfr: "jm_wf routes" using mem ok(2) by fastforce
  let ?r = "jm_evict_oldest routes"
  have len: "length ?r + 1 = length routes" using length_jm_evict_oldest [OF wfr] ne by simp
  show c: "rt_count (transitions_evict s) = rt_count s - 1"
    using f by (simp add: transitions_evict_def Let_def)
  have evs: "jm_get ?r r = Some es \<Longrightarrow> length es \<le> trl_per_route cfg" for r es
    using ok(5) [OF get] jm_get_evict_oldest_Some [OF wfr] by blast
  have t: "transitions_evict s = s\<lparr>rt_rings := (if ?r = [] then jm_delete sc (rt_rings s) else jm_set sc ?r (rt_rings s)),
      rt_count := rt_count s - 1\<rparr>"
    using f by (simp add: transitions_evict_def Let_def)
  show "transitions_ok cfg (transitions_evict s)"
  proof (cases "?r = []")
    case True
    then show ?thesis
      using ok len tracked_delete [OF ok(1) get]
      by (auto simp: t transitions_ok_def set_jm_delete split: if_splits)
  next
    case False
    then show ?thesis
      using ok len tracked_set [OF ok(1), of sc ?r] get wfr evs
      by (auto simp: t transitions_ok_def set_jm_set split: if_splits)
  qed
qed

lemma ring_ok:
  assumes "transitions_ok cfg s" and "transition_ring sc s = (t, routes)"
  shows "transitions_ok cfg t" and "jm_get (rt_rings t) sc = Some routes" and "rt_count t = rt_count s"
    and "jm_wf routes" and "jm_get (rt_rings s) sc = Some routes \<or> routes = []"
proof -
  have wf: "jm_wf (rt_rings s)" using assms(1) by (simp add: transitions_ok_def)
  show "jm_get (rt_rings t) sc = Some routes" "rt_count t = rt_count s"
    "jm_get (rt_rings s) sc = Some routes \<or> routes = []"
    using assms(2) by (auto simp: transition_ring_def split: option.splits)
  show "jm_wf routes"
    using assms by (auto simp: transition_ring_def transitions_ok_def split: option.splits dest!: jm_get_SomeD)
  show "transitions_ok cfg t"
    using assms tracked_set [OF wf, of sc "[]"] wf
    by (auto simp: transition_ring_def transitions_ok_def set_jm_set split: option.splits if_splits)
qed

text \<open>Storing the events of one route, new or known, in a state that has room for it.\<close>

lemma store_events_ok:
  assumes ok: "transitions_ok cfg s" and get: "jm_get (rt_rings s) sc = Some ring" and wf: "jm_wf ring"
    and short: "length evs \<le> trl_per_route cfg"
    and count: "n = rt_count s + (if jm_has ring rid then 0 else 1)" "n \<le> trl_routes cfg"
  shows "transitions_ok cfg (s\<lparr>rt_rings := jm_set sc (jm_set rid evs ring) (rt_rings s), rt_count := n\<rparr>)"
proof -
  have wfs: "jm_wf (rt_rings s)" using ok by (simp add: transitions_ok_def)
  show ?thesis
    using ok get wf short count tracked_set [OF wfs, of sc "jm_set rid evs ring"]
    by (auto simp: transitions_ok_def set_jm_set length_jm_set split: if_splits)
qed

lemma transition_record_ok:
  assumes ok: "transitions_ok cfg s" and lim: "0 < trl_routes cfg" "0 < trl_per_route cfg"
  shows "transitions_ok cfg (transition_record cfg sc rid ev s)"
proof -
  obtain s1 routes where r1: "transition_ring sc s = (s1, routes)" by fastforce
  note k1 = ring_ok [OF ok r1]
  let ?full = "jm_get routes rid = None \<and> trl_routes cfg \<le> rt_count s1"
  obtain s2 r2 where e2: "transition_ring sc (transitions_evict s1) = (s2, r2)" by fastforce
  let ?s3 = "if ?full then s2 else s1"
  let ?events = "if ?full then jm_get r2 rid else jm_get routes rid"
  obtain s4 ring where r4: "transition_ring sc ?s3 = (s4, ring)" by fastforce
  have pos: "?full \<Longrightarrow> 0 < rt_count s1" using lim(1) by simp
  note ev = evict_cases [OF k1(1) pos]
  note k2 = ring_ok [OF ev(1) e2]
  have ok3: "transitions_ok cfg ?s3" using k1(1) k2(1) by auto
  note k4 = ring_ok [OF ok3 r4]
  have ring: "jm_has ring rid \<longleftrightarrow> ?events \<noteq> None" and new: "?full \<Longrightarrow> ?events = None"
  proof -
    have g3: "jm_get (rt_rings ?s3) sc = Some (if ?full then r2 else routes)" using k1(2) k2(2) by auto
    then have "ring = (if ?full then r2 else routes)" using r4 by (auto simp: transition_ring_def)
    then show "jm_has ring rid \<longleftrightarrow> ?events \<noteq> None" by (simp add: jm_has_def)
    assume f: ?full
    show "?events = None"
    proof (rule ccontr)
      assume "?events \<noteq> None"
      then obtain es where "jm_get r2 rid = Some es" using f by auto
      then have r2: "jm_get (rt_rings (transitions_evict s1)) sc = Some r2"
        using k2(5) [OF f] by auto
      have "jm_get routes rid \<noteq> None"
        using r2 k1(2) \<open>jm_get r2 rid = Some es\<close> k1(1) k1(4)
        by (auto simp: transitions_evict_def Let_def split: option.splits if_splits prod.splits
            dest!: first_nonempty_Some)
          (metis jm_get_evict_oldest_Some jm_get_in_iff option.distinct(1) option.inject transitions_ok_def)+
      then show False using f by simp
    qed
  qed
  let ?evs = "(case ?events of None \<Rightarrow> [] | Some es \<Rightarrow> es) @ [ev]"
  let ?kept = "if trl_per_route cfg < length ?evs then keep_last (trl_per_route cfg) ?evs else ?evs"
  have res: "transition_record cfg sc rid ev s =
    s4\<lparr>rt_rings := jm_set sc (jm_set rid ?kept ring) (rt_rings s4),
       rt_count := rt_count s4 + (if jm_get routes rid = None then 1 else 0)\<rparr>"
    unfolding transition_record_def using r1 e2 r4
    by (auto simp: Let_def split: prod.splits if_splits)
  have count: "rt_count s4 = (if ?full then rt_count s1 - 1 else rt_count s1)"
    using k4(3) k2(3) ev(2) by auto
  have le: "rt_count s1 \<le> trl_routes cfg" using k1(1) by (simp add: transitions_ok_def)
  show ?thesis
    unfolding res
    by (rule store_events_ok [OF k4(1) k4(2) k4(4)])
      (use ring new count le in \<open>auto simp: length_keep_last\<close>)
qed

subsection \<open>Runtime settings\<close>

definition MAX_SIDEBAR_ICON_DATA_URL_CHARS :: nat where "MAX_SIDEBAR_ICON_DATA_URL_CHARS = 36000000"

definition is_base64_char :: "char \<Rightarrow> bool" where
  "is_base64_char c \<longleftrightarrow> (is_word_char c \<and> c \<noteq> CHR ''_'') \<or> c = CHR ''+'' \<or> c = CHR ''/''"

definition SIDEBAR_ICON_DATA_URL_PATTERN :: rx where
  "SIDEBAR_ICON_DATA_URL_PATTERN = rx_seq
    [Bos, lit ''data:image/'', rx_alts [lit ''png'', lit ''gif''], lit '';base64,'',
     rx_plus (Cls is_base64_char), rx_upto 2 (lit ''=''), Eos]"

definition normalize_sidebar_icon :: "json option \<Rightarrow> string option" where
  "normalize_sidebar_icon v = (case v of
      Some (JStr s) \<Rightarrow>
        if MAX_SIDEBAR_ICON_DATA_URL_CHARS < length s \<or> \<not> rx_test SIDEBAR_ICON_DATA_URL_PATTERN s
        then None else Some s
    | _ \<Rightarrow> None)"

definition runtime_record_from_json :: "(string \<times> json) list \<Rightarrow> (string \<times> json) list" where
  "runtime_record_from_json obj = (case js_field obj ''runtime'' of Some (JObj r) \<Rightarrow> r | _ \<Rightarrow> [])"

datatype auth_mode = AmOpen | AmApiKey

datatype privacy_mode = PmMasked | PmFull

datatype tracking = TrackNone | TrackMeta

datatype saver_quality = SqLite | SqBalanced | SqExtreme

record runtime_settings =
  rs_auth_mode :: auth_mode
  rs_privacy :: privacy_mode
  rs_track_payloads :: tracking
  rs_track_assets :: tracking
  rs_log_retention_days :: int
  rs_asset_retention_days :: int
  rs_max_flights_per_ip :: int
  rs_trust_proxy :: bool
  rs_cache_markers :: bool
  rs_session_ttl_hours :: int
  rs_sidebar_icon :: "string option"
  rs_token_saver :: bool
  rs_token_saver_quality :: saver_quality
  rs_filter_rules :: bool

record persistence_env =
  pe_log_retention_days :: int
  pe_asset_retention_days :: int
  pe_max_flights_per_ip :: int

text \<open>
  \<open>typeof v === "number" ? Math.max(1, Math.floor(v)) : fallback\<close>; the settings are parsed JSON,
  whose numbers are finite unless the literal overflows, which is not modelled.
\<close>

definition at_least_one :: "json option \<Rightarrow> int \<Rightarrow> int" where
  "at_least_one v fallback = (case v of Some (JNum (Num q)) \<Rightarrow> max 1 \<lfloor>q\<rfloor> | _ \<Rightarrow> fallback)"

definition runtime_settings_of :: "(string \<times> json) list \<Rightarrow> int \<Rightarrow> int \<Rightarrow> persistence_env \<Rightarrow> runtime_settings" where
  "runtime_settings_of settings_json log_days asset_days env =
    (let v = runtime_record_from_json settings_json
     in \<lparr>rs_auth_mode = (if js_field v ''proxyAuthMode'' = Some (JStr ''open'') then AmOpen else AmApiKey),
         rs_privacy = (if js_field v ''privacyMode'' = Some (JStr ''full'') then PmFull else PmMasked),
         rs_track_payloads = (if js_field v ''trackPayloads'' = Some (JStr ''none'') then TrackNone else TrackMeta),
         rs_track_assets = (if js_field v ''trackAssets'' = Some (JStr ''none'') then TrackNone else TrackMeta),
         rs_log_retention_days = log_days,
         rs_asset_retention_days = asset_days,
         rs_max_flights_per_ip = at_least_one (js_field v ''maxFlightsPerIp'') (pe_max_flights_per_ip env),
         rs_trust_proxy = (js_field v ''trustProxy'' = Some (JBool True)),
         rs_cache_markers = True,
         rs_session_ttl_hours = at_least_one (js_field v ''sessionTtlHours'') 12,
         rs_sidebar_icon = normalize_sidebar_icon (js_field v ''sidebarIconDataUrl''),
         rs_token_saver = (js_field v ''tokenSaverEnabled'' = Some (JBool True)),
         rs_token_saver_quality = (case js_field v ''tokenSaverQuality'' of
             Some (JStr q) \<Rightarrow> if q = ''lite'' then SqLite else if q = ''extreme'' then SqExtreme else SqBalanced
           | _ \<Rightarrow> SqBalanced),
         rs_filter_rules = (js_field v ''filterRulesEnabled'' = Some (JBool True))\<rparr>)"

text \<open>\<open>boundedDays\<close> and \<open>boundedMaxFlights\<close>, after \<open>Number(raw)\<close>.\<close>

definition bounded_days :: "js_num \<Rightarrow> int \<Rightarrow> int" where
  "bounded_days raw fallback = (case js_finite raw of None \<Rightarrow> fallback | Some q \<Rightarrow> min (max \<lfloor>q\<rfloor> 1) 365)"

definition bounded_max_flights :: "js_num \<Rightarrow> int \<Rightarrow> int" where
  "bounded_max_flights raw fallback = (case js_finite raw of None \<Rightarrow> fallback | Some q \<Rightarrow> min (max \<lfloor>q\<rfloor> 1) 10000)"

definition get_persistence_env :: "(string \<Rightarrow> js_num) \<Rightarrow> persistence_env" where
  "get_persistence_env env = \<lparr>
     pe_log_retention_days = bounded_days (env ''LOG_RETENTION_DAYS'') 14,
     pe_asset_retention_days = bounded_days (env ''ASSET_RETENTION_DAYS'') 7,
     pe_max_flights_per_ip = bounded_max_flights (env ''MAX_FLIGHTS_PER_IP'') 15\<rparr>"

lemma persistence_env_bounds:
  "pe_log_retention_days (get_persistence_env env) \<in> {1..365}"
  "pe_asset_retention_days (get_persistence_env env) \<in> {1..365}"
  "pe_max_flights_per_ip (get_persistence_env env) \<in> {1..10000}"
  by (auto simp: get_persistence_env_def bounded_days_def bounded_max_flights_def split: option.split)

lemma at_least_one_pos: "1 \<le> fallback \<Longrightarrow> 1 \<le> at_least_one v fallback"
  by (auto simp: at_least_one_def split: option.split json.split js_num.split)

subsection \<open>Properties\<close>

text \<open>
  A key's model lists are read against the name the client asked for as well as the resolved model: naming
  an alias alone lets its targets through, or shuts them out, whatever models they are.
\<close>

lemma requested_name_decides:
  "is_route_allowed p m \<lparr>acl_providers = None, acl_models = Some [alias], acl_denied = None\<rparr> (Some alias)"
  "\<not> is_route_allowed p m \<lparr>acl_providers = None, acl_models = None, acl_denied = Some [alias]\<rparr> (Some alias)"
  by (auto simp: is_route_allowed_iff names_one_def Let_def)

text \<open>
  The history of route switches is bounded: after any sequence of records no more routes than
  configured are tracked, none has more switches than configured, and the route counter is the
  number of tracked routes.
\<close>

theorem route_history_bounded:
  assumes "0 < trl_routes cfg" and "0 < trl_per_route cfg"
  shows "transitions_ok cfg (fold (\<lambda>(sc, route, ev). transition_record cfg sc route ev) es transitions_empty)"
proof -
  have "transitions_ok cfg s \<Longrightarrow>
      transitions_ok cfg (fold (\<lambda>(sc, route, ev). transition_record cfg sc route ev) es s)" for s
    using assms by (induction es arbitrary: s) (auto intro: transition_record_ok)
  moreover have "transitions_ok cfg transitions_empty"
    using assms by (simp add: transitions_ok_def transitions_empty_def tracked_routes_def)
  ultimately show ?thesis by blast
qed

definition sample_switch :: route_switch where
  "sample_switch = \<lparr>rsw_scope = RsAccount, rsw_previous = Some ''a'', rsw_replacement = None, rsw_reason = ''provider_rate_limited'',
     rsw_occurred_at = ''2024-01-01T00:00:00.000Z''\<rparr>"

theorem route_history_bounded_witness:
  "transitions_ok \<lparr>trl_routes = 1, trl_per_route = 1\<rparr> (fold (\<lambda>(sc, route, ev).
     transition_record \<lparr>trl_routes = 1, trl_per_route = 1\<rparr> sc route ev)
     [(RsAccount, ''a'', sample_switch), (RsProxy, ''b'', sample_switch), (RsAccount, ''a'', sample_switch)] transitions_empty)"
  by (rule route_history_bounded) simp_all

text \<open>The evicted route is the first scope's oldest, not the oldest of all.\<close>

lemma eviction_is_per_scope:
  "rt_rings (transitions_evict \<lparr>rt_rings = [(RsProxy, [(''p'', [sample_switch])]), (RsAccount, [(''old'', [sample_switch])])], rt_count = 2\<rparr>) =
   [(RsAccount, [(''old'', [sample_switch])])]"
  by (simp add: transitions_evict_def jm_evict_oldest_def jm_keys_def jm_delete_def Let_def)

end
