(* ===== verification/IpGuard.thy ===== *)
theory IpGuard imports JsJson begin

text \<open>
  The address classification of \<open>src/domain/protocols.ts\<close>: host normalization, IPv4 and IPv6
  literals and the ranges a server-side fetch must not reach. Addresses are natural numbers; the
  file's \<open>BigInt\<close> arithmetic is exact.
\<close>

subsection \<open>Host names\<close>

fun drop_zone :: "string \<Rightarrow> string" where
  "drop_zone [] = []"
| "drop_zone (c # s) = (if c = CHR ''%'' then [] else c # drop_zone s)"

definition normalize_hostname :: "string \<Rightarrow> string option" where
  "normalize_hostname host =
    (let v = to_lower host;
         v = (if v \<noteq> [] \<and> hd v = CHR ''['' \<and> last v = CHR '']'' then butlast (tl v) else v);
         v = drop_zone v;
         v = (if v \<noteq> [] \<and> last v = CHR ''.'' then butlast v else v)
     in if v = [] then None else Some v)"

definition private_suffixes :: "string list" where
  "private_suffixes = [''.localhost'', ''.local'', ''.internal'', ''.localdomain'', ''.home.arpa'', ''.lan'']"

definition is_private_use_name :: "string \<Rightarrow> bool" where
  "is_private_use_name host \<longleftrightarrow> host = ''localhost'' \<or> list_ex (\<lambda>s. suffix s host) private_suffixes"

subsection \<open>IPv4\<close>

text \<open>\<open>^\d{1,3}$\<close>\<close>

definition is_octet_text :: "string \<Rightarrow> bool" where
  "is_octet_text p \<longleftrightarrow> 1 \<le> length p \<and> length p \<le> 3 \<and> list_all is_digit_char p"

definition is_ipv4_literal :: "string \<Rightarrow> bool" where
  "is_ipv4_literal host =
    (let parts = split_on CHR ''.'' host
     in length parts = 4 \<and> list_all (\<lambda>p. is_octet_text p \<and> nat_of_digits p \<le> 255) parts)"

definition ipv4_to_uint32 :: "string \<Rightarrow> nat" where
  "ipv4_to_uint32 host =
    (let ps = split_on CHR ''.'' host
     in ((nat_of_digits (ps ! 0) * 256 + nat_of_digits (ps ! 1)) * 256 + nat_of_digits (ps ! 2)) * 256 +
        nat_of_digits (ps ! 3))"

definition is_unsafe_ipv4 :: "nat \<Rightarrow> bool" where
  "is_unsafe_ipv4 v \<longleftrightarrow>
     v < 0x01000000 \<or>
     (0x0a000000 \<le> v \<and> v < 0x0b000000) \<or>
     (0x64400000 \<le> v \<and> v < 0x64800000) \<or>
     (0x7f000000 \<le> v \<and> v < 0x80000000) \<or>
     (0xa9fe0000 \<le> v \<and> v < 0xa9ff0000) \<or>
     (0xac100000 \<le> v \<and> v < 0xac200000) \<or>
     (0xc0000000 \<le> v \<and> v < 0xc0000100) \<or>
     (0xc0000200 \<le> v \<and> v < 0xc0000300) \<or>
     (0xc0a80000 \<le> v \<and> v < 0xc0a90000) \<or>
     (0xc6120000 \<le> v \<and> v < 0xc6140000) \<or>
     (0xc6336400 \<le> v \<and> v < 0xc6336500) \<or>
     (0xcb007100 \<le> v \<and> v < 0xcb007200) \<or>
     0xe0000000 \<le> v"

subsection \<open>IPv6\<close>

definition ipv6_range :: "nat \<Rightarrow> nat \<Rightarrow> nat \<times> nat" where
  "ipv6_range pre bits =
    (let free = 2 ^ (128 - bits); lo = pre div free * free in (lo, lo + (free - 1)))"

definition UNSAFE_IPV6_RANGES :: "(nat \<times> nat) list" where
  "UNSAFE_IPV6_RANGES = [
     ipv6_range 0x00000000000000000000000000000000 128,
     ipv6_range 0x00000000000000000000000000000001 128,
     ipv6_range 0x00000000000000000000000000000000 96,
     ipv6_range 0x00000000000000000000ffff00000000 96,
     ipv6_range 0x0064ff9b000000000000000000000000 96,
     ipv6_range 0x0064ff9b000100000000000000000000 48,
     ipv6_range 0xfc000000000000000000000000000000 7,
     ipv6_range 0xfe800000000000000000000000000000 10,
     ipv6_range 0xff000000000000000000000000000000 8,
     ipv6_range 0x20010db8000000000000000000000000 32,
     ipv6_range 0x20010010000000000000000000000000 28,
     ipv6_range 0x20010002000000000000000000000000 48,
     ipv6_range 0x01000000000000000000000000000000 64]"

definition embedded_ipv4 :: "nat \<Rightarrow> nat option" where
  "embedded_ipv4 v =
    (if v < 0x100000000 then Some v
     else let upper = v div 2 ^ 32
       in if upper = 0xffff then Some (v mod 2 ^ 32)
          else if upper = 0x64ff9b then Some (v mod 2 ^ 32)
          else None)"

definition is_unsafe_ipv6 :: "nat \<Rightarrow> bool" where
  "is_unsafe_ipv6 v =
    (if list_ex (\<lambda>(lo, hi). lo \<le> v \<and> v \<le> hi) UNSAFE_IPV6_RANGES then True
     else case embedded_ipv4 v of None \<Rightarrow> False | Some e \<Rightarrow> is_unsafe_ipv4 e)"

definition hex_digit :: "char \<Rightarrow> nat option" where
  "hex_digit c = (let k = char_code c in
     if 48 \<le> k \<and> k \<le> 57 then Some (k - 48)
     else if 97 \<le> k \<and> k \<le> 102 then Some (k - 87)
     else if 65 \<le> k \<and> k \<le> 70 then Some (k - 55)
     else None)"

definition parse_hextet :: "string \<Rightarrow> nat option" where
  "parse_hextet p =
    (if 1 \<le> length p \<and> length p \<le> 4 \<and> list_all (\<lambda>c. hex_digit c \<noteq> None) p
     then Some (foldl (\<lambda>a c. 16 * a + the (hex_digit c)) 0 p) else None)"

definition ipv4_to_hextets :: "string \<Rightarrow> (nat \<times> nat) option" where
  "ipv4_to_hextets p =
    (let os = split_on CHR ''.'' p
     in if length os \<noteq> 4 then None
        else if \<not> list_all (\<lambda>q. is_octet_text q \<and> nat_of_digits q \<le> 255) os then None
        else Some (nat_of_digits (os ! 0) * 256 + nat_of_digits (os ! 1),
                   nat_of_digits (os ! 2) * 256 + nat_of_digits (os ! 3)))"

text \<open>\<open>host.split("::")\<close>\<close>

fun split_dcolon :: "string \<Rightarrow> string list" where
  "split_dcolon [] = [[]]"
| "split_dcolon [c] = [[c]]"
| "split_dcolon (c # d # s) =
     (if c = CHR '':'' \<and> d = CHR '':'' then [] # split_dcolon s
      else case split_dcolon (d # s) of [] \<Rightarrow> [[c]] | w # ws \<Rightarrow> (c # w) # ws)"

definition colon_parts :: "string \<Rightarrow> string list" where
  "colon_parts s = (if s = [] then [] else split_on CHR '':'' s)"

fun parse_hextets :: "string list \<Rightarrow> nat list option" where
  "parse_hextets [] = Some []"
| "parse_hextets (p # ps) =
     (case parse_hextet p of
        None \<Rightarrow> None
      | Some h \<Rightarrow> (case parse_hextets ps of None \<Rightarrow> None | Some hs \<Rightarrow> Some (h # hs)))"

definition has_dot :: "string list \<Rightarrow> bool" where
  "has_dot ps \<longleftrightarrow> ps \<noteq> [] \<and> CHR ''.'' \<in> set (last ps)"

definition groups_value :: "nat list \<Rightarrow> nat" where
  "groups_value gs = foldl (\<lambda>v g. v * 2 ^ 16 + g) 0 gs"

text \<open>The embedded dotted quad: the last part of the left side, else of the right side.\<close>

definition take_v4 :: "string list \<Rightarrow> string list \<Rightarrow> (string list \<times> string list \<times> (nat \<times> nat) option) option" where
  "take_v4 l r =
    (if has_dot l then map_option (\<lambda>v. (butlast l, r, Some v)) (ipv4_to_hextets (last l))
     else if has_dot r then map_option (\<lambda>v. (l, butlast r, Some v)) (ipv4_to_hextets (last r))
     else Some (l, r, None))"

definition ipv6_to_nat :: "string \<Rightarrow> nat option" where
  "ipv6_to_nat host =
    (if CHR '':'' \<notin> set host then None
     else let compressed = split_dcolon host
       in if 2 < length compressed then None
       else case take_v4 (colon_parts (compressed ! 0))
              (if length compressed = 2 then colon_parts (compressed ! 1) else []) of
         None \<Rightarrow> None
       | Some (l, r, v4) \<Rightarrow>
         (case parse_hextets l of
            None \<Rightarrow> None
          | Some gl \<Rightarrow>
            (let missing = 8 - int (length gl) - int (length r) - (if v4 = None then 0 else 2)
             in if length compressed = 2 \<and> missing < 0 then None
             else case parse_hextets r of
               None \<Rightarrow> None
             | Some gr \<Rightarrow>
               (let gs = gl @ (if length compressed = 2 then replicate (nat missing) 0 else []) @ gr @
                         (case v4 of None \<Rightarrow> [] | Some (a, b) \<Rightarrow> [a, b])
                in if length gs \<noteq> 8 then None else Some (groups_value gs)))))"

definition is_ip_literal :: "string \<Rightarrow> bool" where
  "is_ip_literal host \<longleftrightarrow> is_ipv4_literal host \<or> (CHR '':'' \<in> set host \<and> ipv6_to_nat host \<noteq> None)"

definition is_unsafe_ip :: "string \<Rightarrow> bool" where
  "is_unsafe_ip host =
    (if is_ipv4_literal host then is_unsafe_ipv4 (ipv4_to_uint32 host)
     else case ipv6_to_nat host of None \<Rightarrow> True | Some v \<Rightarrow> is_unsafe_ipv6 v)"

subsection \<open>Dotted quads\<close>

definition dotted :: "nat \<Rightarrow> nat \<Rightarrow> nat \<Rightarrow> nat \<Rightarrow> string" where
  "dotted a b c d = nat_str a @ ''.'' @ nat_str b @ ''.'' @ nat_str c @ ''.'' @ nat_str d"

lemma dot_not_digit: "\<not> is_digit_char CHR ''.''"
  by (simp add: is_digit_char_def char_code_def)

lemma nat_str_no_dot: "CHR ''.'' \<notin> set (nat_str n)"
  using nat_str_digits [of n] dot_not_digit by (auto simp: list_all_iff)

lemma split_dotted: "split_on CHR ''.'' (dotted a b c d) = [nat_str a, nat_str b, nat_str c, nat_str d]"
  by (simp add: dotted_def split_on_append nat_str_no_dot split_on_no_sep)

lemma length_nat_str_step: "10 \<le> n \<Longrightarrow> length (nat_str n) = length (nat_str (n div 10)) + 1"
  by (subst nat_str.simps) simp

lemma length_nat_str_1: "n < 10 \<Longrightarrow> length (nat_str n) = 1"
  by (subst nat_str.simps) simp

lemma length_nat_str_2: "n < 100 \<Longrightarrow> length (nat_str n) \<le> 2"
  by (cases "n < 10") (simp_all add: length_nat_str_1 length_nat_str_step)

lemma length_nat_str: "n < 1000 \<Longrightarrow> length (nat_str n) \<le> 3"
  using length_nat_str_2 [of "n div 10"] by (cases "n < 10") (simp_all add: length_nat_str_1 length_nat_str_step)

lemma octet_text: "n \<le> 255 \<Longrightarrow> is_octet_text (nat_str n)"
  using length_nat_str [of n] nat_str_digits [of n] by (cases "nat_str n") (auto simp: is_octet_text_def)

lemma dotted_literal: "a \<le> 255 \<Longrightarrow> b \<le> 255 \<Longrightarrow> c \<le> 255 \<Longrightarrow> d \<le> 255 \<Longrightarrow> is_ipv4_literal (dotted a b c d)"
  by (simp add: is_ipv4_literal_def split_dotted octet_text nat_of_digits_nat_str)

lemma dotted_value: "ipv4_to_uint32 (dotted a b c d) = ((a * 256 + b) * 256 + c) * 256 + d"
  by (simp add: ipv4_to_uint32_def split_dotted nat_of_digits_nat_str)

text \<open>The ranges, octet by octet.\<close>

definition reserved_octets :: "nat \<Rightarrow> nat \<Rightarrow> nat \<Rightarrow> bool" where
  "reserved_octets a b c \<longleftrightarrow>
     a = 0 \<or> a = 10 \<or> (a = 100 \<and> 64 \<le> b \<and> b < 128) \<or> a = 127 \<or> (a = 169 \<and> b = 254) \<or>
     (a = 172 \<and> 16 \<le> b \<and> b < 32) \<or> (a = 192 \<and> b = 0 \<and> c = 0) \<or> (a = 192 \<and> b = 0 \<and> c = 2) \<or>
     (a = 192 \<and> b = 168) \<or>
     (a = 198 \<and> (b = 18 \<or> b = 19)) \<or> (a = 198 \<and> b = 51 \<and> c = 100) \<or> (a = 203 \<and> b = 0 \<and> c = 113) \<or>
     224 \<le> a"

lemma quotient_bounds:
  fixes m q r k :: nat
  assumes "r < m"
  shows "k * m \<le> q * m + r \<longleftrightarrow> k \<le> q" and "q * m + r < k * m \<longleftrightarrow> q < k"
proof -
  have "(q * m + r) div m = q" using assms by simp
  then show "k * m \<le> q * m + r \<longleftrightarrow> k \<le> q" using assms by (metis less_eq_div_iff_mult_less_eq gr_zeroI not_less_zero)
  then show "q * m + r < k * m \<longleftrightarrow> q < k" by (simp add: not_le [symmetric])
qed

lemma digit_range:
  fixes a b x lo hi :: nat
  assumes "b < 256" and "hi \<le> 256"
  shows "x * 256 + lo \<le> a * 256 + b \<and> a * 256 + b < x * 256 + hi \<longleftrightarrow> a = x \<and> lo \<le> b \<and> b < hi"
proof
  assume r: "x * 256 + lo \<le> a * 256 + b \<and> a * 256 + b < x * 256 + hi"
  then have "a < x + 1" using assms by linarith
  moreover have "x < a + 1" using r assms by linarith
  ultimately have "a = x" by linarith
  then show "a = x \<and> lo \<le> b \<and> b < hi" using r by simp
qed simp

lemma is_unsafe_ipv4_octets:
  assumes b: "b \<le> 255" and c: "c \<le> 255" and d: "d \<le> 255"
  shows "is_unsafe_ipv4 (((a * 256 + b) * 256 + c) * 256 + d) \<longleftrightarrow> reserved_octets a b c"
proof -
  define v where "v = ((a * 256 + b) * 256 + c) * 256 + d"
  have v24: "v = a * 16777216 + (b * 65536 + c * 256 + d)" and r24: "b * 65536 + c * 256 + d < 16777216"
    and v16: "v = (a * 256 + b) * 65536 + (c * 256 + d)" and r16: "c * 256 + d < 65536"
    and v8: "v = ((a * 256 + b) * 256 + c) * 256 + d" and r8: "d < 256"
    using b c d by (simp_all add: v_def)
  have le24: "k * 16777216 \<le> v \<longleftrightarrow> k \<le> a" and lt24: "v < k * 16777216 \<longleftrightarrow> a < k" for k
    unfolding v24 by (rule quotient_bounds [OF r24])+
  have le16: "k * 65536 \<le> v \<longleftrightarrow> k \<le> a * 256 + b" and lt16: "v < k * 65536 \<longleftrightarrow> a * 256 + b < k" for k
    unfolding v16 by (rule quotient_bounds [OF r16])+
  have le8: "k * 256 \<le> v \<longleftrightarrow> k \<le> (a * 256 + b) * 256 + c" and lt8: "v < k * 256 \<longleftrightarrow> (a * 256 + b) * 256 + c < k" for k
    unfolding v8 by (rule quotient_bounds [OF r8])+
  have ranges: "v < 0x01000000 \<longleftrightarrow> a = 0"
    "0x0a000000 \<le> v \<and> v < 0x0b000000 \<longleftrightarrow> a = 10"
    "0x7f000000 \<le> v \<and> v < 0x80000000 \<longleftrightarrow> a = 127"
    "0xe0000000 \<le> v \<longleftrightarrow> 224 \<le> a"
    using lt24 [of 1] le24 [of 10] lt24 [of 11] le24 [of 127] lt24 [of 128] le24 [of 224] by auto
  have b': "b < 256" and c': "c < 256" using b c by simp_all
  note pair = digit_range [OF b']
  have ranges16: "0x64400000 \<le> v \<and> v < 0x64800000 \<longleftrightarrow> a = 100 \<and> 64 \<le> b \<and> b < 128"
    "0xa9fe0000 \<le> v \<and> v < 0xa9ff0000 \<longleftrightarrow> a = 169 \<and> 254 \<le> b \<and> b < 255"
    "0xac100000 \<le> v \<and> v < 0xac200000 \<longleftrightarrow> a = 172 \<and> 16 \<le> b \<and> b < 32"
    "0xc0a80000 \<le> v \<and> v < 0xc0a90000 \<longleftrightarrow> a = 192 \<and> 168 \<le> b \<and> b < 169"
    "0xc6120000 \<le> v \<and> v < 0xc6140000 \<longleftrightarrow> a = 198 \<and> 18 \<le> b \<and> b < 20"
    using le16 [of "0x6440"] lt16 [of "0x6480"] pair [of 128 100 64 a] apply simp
    using le16 [of "0xa9fe"] lt16 [of "0xa9ff"] pair [of 255 169 254 a] apply simp
    using le16 [of "0xac10"] lt16 [of "0xac20"] pair [of 32 172 16 a] apply simp
    using le16 [of "0xc0a8"] lt16 [of "0xc0a9"] pair [of 169 192 168 a] apply simp
    using le16 [of "0xc612"] lt16 [of "0xc614"] pair [of 20 198 18 a] apply simp
    done
  note triple = digit_range [OF c', where a = "a * 256 + b"]
  have pick: "a * 256 + b = x * 256 + y \<longleftrightarrow> a = x \<and> b = y" if "y < 256" for x y
    using pair [of "Suc y" x y a] that by auto
  have ranges8: "0xc0000000 \<le> v \<and> v < 0xc0000100 \<longleftrightarrow> a = 192 \<and> b = 0 \<and> c = 0"
    "0xc0000200 \<le> v \<and> v < 0xc0000300 \<longleftrightarrow> a = 192 \<and> b = 0 \<and> c = 2"
    "0xc6336400 \<le> v \<and> v < 0xc6336500 \<longleftrightarrow> a = 198 \<and> b = 51 \<and> c = 100"
    "0xcb007100 \<le> v \<and> v < 0xcb007200 \<longleftrightarrow> a = 203 \<and> b = 0 \<and> c = 113"
    using le8 [of "0xc00000"] lt8 [of "0xc00001"] triple [of 1 "0xc000" 0] pick [of 0 192] apply auto[1]
    using le8 [of "0xc00002"] lt8 [of "0xc00003"] triple [of 3 "0xc000" 2] pick [of 0 192] apply auto[1]
    using le8 [of "0xc63364"] lt8 [of "0xc63365"] triple [of 101 "0xc633" 100] pick [of 51 198] apply auto[1]
    using le8 [of "0xcb0071"] lt8 [of "0xcb0072"] triple [of 114 "0xcb00" 113] pick [of 0 203] apply auto[1]
    done
  have "254 \<le> b \<and> b < 255 \<longleftrightarrow> b = 254" "168 \<le> b \<and> b < 169 \<longleftrightarrow> b = 168"
    "18 \<le> b \<and> b < 20 \<longleftrightarrow> b = 18 \<or> b = 19"
    by auto
  note singles = this
  show ?thesis
    unfolding is_unsafe_ipv4_def v_def [symmetric] reserved_octets_def ranges ranges16 ranges8 singles by (rule refl)
qed

subsection \<open>Properties\<close>

text \<open>
  C29: The IPv4 guard is exact: for every dotted address, as it is written in a URL, the address is
  refused when and only when its octets lie in one of the reserved, private, loopback, link-local,
  documentation or multicast ranges.
\<close>

theorem ipv4_guard_exact:
  assumes "a \<le> 255" and "b \<le> 255" and "c \<le> 255" and "d \<le> 255"
  shows "is_ipv4_literal (dotted a b c d) \<and>
    (is_unsafe_ipv4 (ipv4_to_uint32 (dotted a b c d)) \<longleftrightarrow> reserved_octets a b c)"
  unfolding dotted_value using is_unsafe_ipv4_octets [OF assms(2-4)] dotted_literal [OF assms] by blast

theorem ipv4_guard_exact_witness: "is_unsafe_ipv4 (ipv4_to_uint32 (dotted 169 254 169 254))"
  using ipv4_guard_exact [of 169 254 169 254] by (simp add: reserved_octets_def)

end
