(* ===== verification/Narrowing.thy ===== *)
theory Narrowing imports Contracts IpGuard begin

text \<open>
  The strict narrowing of wire values (\<open>src/domain/protocols.ts\<close>): typed failures, bounded
  scalars and lists, the shared tool-list normalization and the classification of image
  references. A failure is the \<open>Inl\<close> of a sum. \<open>new URL\<close> is the argument \<open>parse_url\<close>, the length
  of \<open>JSON.stringify\<close> the argument \<open>ser_len\<close> and \<open>String(...)\<close> of a non-string the argument \<open>show_json\<close>.
\<close>

record protocol_error =
  pre_kind :: error_kind
  pre_status :: int
  pre_message :: string
  pre_field :: string

definition application_error :: "error_kind \<Rightarrow> int \<Rightarrow> string \<Rightarrow> string \<Rightarrow> protocol_error" where
  "application_error k status field msg = \<lparr>pre_kind = k, pre_status = status,
     pre_message = sanitize_message (ThrownString msg), pre_field = field\<rparr>"

text \<open>
  The source returns a value or an error in one untagged union and tells them apart by
  \<open>isProtocolError\<close>. A client's object with the three fields it looks at passes for an error: it is
  \<open>Forged\<close>.
\<close>

definition is_protocol_error :: "(string \<times> json) list \<Rightarrow> bool" where
  "is_protocol_error fs \<longleftrightarrow> js_field fs ''field'' \<noteq> None \<and> js_field fs ''retryable'' = Some (JBool False) \<and>
     js_field fs ''sanitizedMessage'' \<noteq> None"

datatype narrow_failure = Failed protocol_error | Forged "(string \<times> json) list"

definition protocol_fail :: "string \<Rightarrow> string \<Rightarrow> narrow_failure" where
  "protocol_fail field msg = Failed (application_error InvalidRequest 400 field msg)"

definition MAX_MODEL_LENGTH :: nat where "MAX_MODEL_LENGTH = 256"
definition MAX_MESSAGE_COUNT :: nat where "MAX_MESSAGE_COUNT = 512"
definition MAX_BLOCKS_PER_MESSAGE :: nat where "MAX_BLOCKS_PER_MESSAGE = 256"
definition MAX_TEXT_BLOCK_LENGTH :: nat where "MAX_TEXT_BLOCK_LENGTH = 512000"
definition MAX_TOOL_COUNT :: nat where "MAX_TOOL_COUNT = 128"
definition MAX_TOOL_NAME_LENGTH :: nat where "MAX_TOOL_NAME_LENGTH = 256"
definition MAX_TOOL_DESCRIPTION_LENGTH :: nat where "MAX_TOOL_DESCRIPTION_LENGTH = 16384"
definition MAX_TOOL_SCHEMA_LENGTH :: nat where "MAX_TOOL_SCHEMA_LENGTH = 65536"
definition MAX_TOOL_CALLS_PER_MESSAGE :: nat where "MAX_TOOL_CALLS_PER_MESSAGE = 64"
definition MAX_TOOL_ARGUMENT_LENGTH :: nat where "MAX_TOOL_ARGUMENT_LENGTH = 512000"
definition MAX_IMAGE_COUNT :: nat where "MAX_IMAGE_COUNT = 64"
definition MAX_IMAGE_URL_LENGTH :: nat where "MAX_IMAGE_URL_LENGTH = 4096"
definition MAX_DATA_URL_LENGTH :: nat where "MAX_DATA_URL_LENGTH = 8 * 1024 * 1024"
definition MAX_MEDIA_TYPE_LENGTH :: nat where "MAX_MEDIA_TYPE_LENGTH = 128"
definition MAX_OUTPUT_TOKENS :: rat where "MAX_OUTPUT_TOKENS = 2000000"

subsection \<open>Scalars and lists\<close>

definition is_record :: "json option \<Rightarrow> bool" where
  "is_record v = (case v of Some (JObj fs) \<Rightarrow> True | _ \<Rightarrow> False)"

definition narrow_record :: "json option \<Rightarrow> (string \<times> json) list option" where
  "narrow_record v = (case v of Some (JObj fs) \<Rightarrow> Some fs | _ \<Rightarrow> None)"

definition nullable_number :: "json option \<Rightarrow> rat option" where
  "nullable_number v = (case v of Some (JNum n) \<Rightarrow> js_finite n | _ \<Rightarrow> None)"

definition message_text :: "message \<Rightarrow> string" where
  "message_text m = join_with [CHR 0x0A] (map (\<lambda>b. or_empty (cb_text b)) (filter (\<lambda>b. cb_type b = BtText) (msg_content m)))"

text \<open>Every caller tests the object for \<open>isProtocolError\<close> at once; the test is part of the definition.\<close>

definition narrow_object :: "json option \<Rightarrow> string \<Rightarrow> narrow_failure + (string \<times> json) list" where
  "narrow_object v field = (case v of
      Some (JObj fs) \<Rightarrow> if is_protocol_error fs then Inl (Forged fs) else Inr fs
    | _ \<Rightarrow> Inl (protocol_fail field (field @ '': expected an object'')))"

definition narrow_string :: "json option \<Rightarrow> string \<Rightarrow> nat \<Rightarrow> narrow_failure + string" where
  "narrow_string v field max_length = (case v of
      Some (JStr s) \<Rightarrow>
        if max_length < length s
        then Inl (protocol_fail field (field @ '': exceeds maximum length of '' @ nat_str max_length @ '' characters''))
        else Inr s
    | _ \<Rightarrow> Inl (protocol_fail field (field @ '': expected a string'')))"

definition narrow_boolean :: "json option \<Rightarrow> string \<Rightarrow> narrow_failure + bool" where
  "narrow_boolean v field = (case v of
      Some (JBool b) \<Rightarrow> Inr b
    | _ \<Rightarrow> Inl (protocol_fail field (field @ '': expected a boolean'')))"

definition normalize_stream :: "json option \<Rightarrow> narrow_failure + bool" where
  "normalize_stream v = (if v = None \<or> v = Some JNull then Inr False else narrow_boolean v ''stream'')"

record number_options =
  no_min :: "rat option"
  no_max :: "rat option"
  no_integer :: bool

definition narrow_number ::
  "(rat \<Rightarrow> string) \<Rightarrow> json option \<Rightarrow> string \<Rightarrow> number_options \<Rightarrow> narrow_failure + rat" where
  "narrow_number show_num v field opts =
    (case nullable_number v of
       None \<Rightarrow> Inl (protocol_fail field (field @ '': expected a finite number''))
     | Some q \<Rightarrow>
       if no_integer opts \<and> \<not> is_integer_rat q then Inl (protocol_fail field (field @ '': expected an integer''))
       else if (case no_min opts of None \<Rightarrow> False | Some m \<Rightarrow> q < m)
         then Inl (protocol_fail field (field @ '': must be at least '' @ show_num (the (no_min opts))))
       else if (case no_max opts of None \<Rightarrow> False | Some m \<Rightarrow> m < q)
         then Inl (protocol_fail field (field @ '': must be at most '' @ show_num (the (no_max opts))))
       else Inr q)"

definition narrow_array :: "json option \<Rightarrow> string \<Rightarrow> nat \<Rightarrow> narrow_failure + json list" where
  "narrow_array v field max_length = (case v of
      Some (JArr vs) \<Rightarrow>
        if max_length < length vs
        then Inl (protocol_fail field (field @ '': exceeds maximum length of '' @ nat_str max_length @ '' items''))
        else Inr vs
    | _ \<Rightarrow> Inl (protocol_fail field (field @ '': expected an array'')))"

definition bound_json_length :: "(json \<Rightarrow> nat) \<Rightarrow> json \<Rightarrow> string \<Rightarrow> nat \<Rightarrow> narrow_failure option" where
  "bound_json_length ser_len v field max_length =
    (if max_length < ser_len v
     then Some (protocol_fail field (field @ '': exceeds '' @ nat_str max_length @ '' characters when serialized''))
     else None)"

definition narrow_text :: "json option \<Rightarrow> string option" where
  "narrow_text v = (case v of Some (JStr s) \<Rightarrow> Some s | _ \<Rightarrow> None)"

definition narrow_list :: "json option \<Rightarrow> json list" where
  "narrow_list v = (case v of Some (JArr vs) \<Rightarrow> vs | _ \<Rightarrow> [])"

definition json_object :: "(string \<Rightarrow> json option) \<Rightarrow> json option \<Rightarrow> (string \<times> json) list" where
  "json_object parse v = (case v of
      Some (JStr s) \<Rightarrow> (case parse s of Some (JObj fs) \<Rightarrow> fs | _ \<Rightarrow> [])
    | Some (JObj fs) \<Rightarrow> fs
    | _ \<Rightarrow> [])"

subsection \<open>Tool lists\<close>

record tool_list_options =
  tlo_unwrap_function :: bool
  tlo_schema_field :: string
  tlo_schema_required :: bool

definition is_nullish :: "json option \<Rightarrow> bool" where
  "is_nullish v \<longleftrightarrow> v = None \<or> v = Some JNull"

definition normalize_tool ::
  "(json \<Rightarrow> nat) \<Rightarrow> (json \<Rightarrow> string) \<Rightarrow> tool_list_options \<Rightarrow> nat \<Rightarrow> json \<Rightarrow> narrow_failure + tool" where
  "normalize_tool ser_len show_json opts i item =
    (let field = ''tools['' @ nat_str i @ '']'';
         prefix_of = (\<lambda>f. if tlo_unwrap_function opts then field @ ''.function.'' @ f else field @ ''.'' @ f)
     in case narrow_object (Some item) field of
       Inl e \<Rightarrow> Inl e
     | Inr obj \<Rightarrow>
       if js_field obj ''type'' \<noteq> None \<and> js_field obj ''type'' \<noteq> Some (JStr ''function'')
       then Inl (protocol_fail (field @ ''.type'')
         (''unsupported tool type '' @ [CHR 0x22] @ show_json (the (js_field obj ''type'')) @ [CHR 0x22]))
       else case (if tlo_unwrap_function opts then narrow_object (js_field obj ''function'') (field @ ''.function'') else Inr obj) of
         Inl e \<Rightarrow> Inl e
       | Inr source \<Rightarrow>
         (case narrow_string (js_field source ''name'') (prefix_of ''name'') MAX_TOOL_NAME_LENGTH of
            Inl e \<Rightarrow> Inl e
          | Inr name \<Rightarrow>
            if trim name = [] then Inl (protocol_fail (prefix_of ''name'') ''tool name must not be empty'')
            else case (if is_nullish (js_field source ''description'') then Inr None
                  else case narrow_string (js_field source ''description'') (prefix_of ''description'') MAX_TOOL_DESCRIPTION_LENGTH of
                    Inl e \<Rightarrow> Inl e | Inr d \<Rightarrow> Inr (Some d)) of
              Inl e \<Rightarrow> Inl e
            | Inr description \<Rightarrow>
              (let path = prefix_of (tlo_schema_field opts); raw = js_field source (tlo_schema_field opts)
               in case (if is_nullish raw
                        then if tlo_schema_required opts then Inl (protocol_fail path (path @ '': expected an object''))
                             else Inr []
                        else narrow_object raw path) of
                 Inl e \<Rightarrow> Inl e
               | Inr schema \<Rightarrow>
                 if MAX_TOOL_SCHEMA_LENGTH < ser_len (JObj schema)
                 then Inl (protocol_fail path (path @ '': exceeds '' @ nat_str MAX_TOOL_SCHEMA_LENGTH @ '' characters when serialized''))
                 else Inr \<lparr>tl_name = name, tl_description = description, tl_schema = schema,
                           tl_schema_length = Some (int (ser_len (JObj schema)))\<rparr>)))"

fun normalize_tools ::
  "(json \<Rightarrow> nat) \<Rightarrow> (json \<Rightarrow> string) \<Rightarrow> tool_list_options \<Rightarrow> nat \<Rightarrow> json list \<Rightarrow> narrow_failure + tool list" where
  "normalize_tools ser_len show_json opts i [] = Inr []"
| "normalize_tools ser_len show_json opts i (v # vs) =
     (case normalize_tool ser_len show_json opts i v of
        Inl e \<Rightarrow> Inl e
      | Inr t \<Rightarrow> (case normalize_tools ser_len show_json opts (Suc i) vs of
           Inl e \<Rightarrow> Inl e
         | Inr ts \<Rightarrow> Inr (t # ts)))"

definition normalize_tool_list ::
  "(json \<Rightarrow> nat) \<Rightarrow> (json \<Rightarrow> string) \<Rightarrow> tool_list_options \<Rightarrow> json option \<Rightarrow> narrow_failure + tool list" where
  "normalize_tool_list ser_len show_json opts raw =
    (if is_nullish raw then Inr []
     else case narrow_array raw ''tools'' MAX_TOOL_COUNT of
       Inl e \<Rightarrow> Inl e
     | Inr vs \<Rightarrow> normalize_tools ser_len show_json opts 0 vs)"

subsection \<open>Image references\<close>

record url =
  url_protocol :: string
  url_hostname :: string
  url_username :: string
  url_password :: string
  url_text :: string

definition parse_media_type :: "string \<Rightarrow> string \<Rightarrow> narrow_failure + string option" where
  "parse_media_type meta field =
    (let first = hd (split_on CHR '';'' meta)
     in if first = [] then Inr None
        else let media_type = to_lower first
          in if MAX_MEDIA_TYPE_LENGTH < length media_type
             then Inl (protocol_fail field (field @ '': media type exceeds '' @ nat_str MAX_MEDIA_TYPE_LENGTH @ '' characters''))
             else Inr (Some media_type))"

definition classify_data_url :: "string \<Rightarrow> string \<Rightarrow> narrow_failure + image_reference" where
  "classify_data_url v field =
    (if MAX_DATA_URL_LENGTH < length v
     then Inl (protocol_fail field (field @ '': inline image exceeds '' @ nat_str MAX_DATA_URL_LENGTH @ '' characters''))
     else if CHR '','' \<notin> set v
     then Inl (protocol_fail field (field @ '': malformed data URL (missing '' @ [CHR 0x22] @ '','' @ [CHR 0x22] @ '')''))
     else case parse_media_type (drop 5 (takeWhile (\<lambda>c. c \<noteq> CHR '','') v)) field of
       Inl e \<Rightarrow> Inl e
     | Inr mt \<Rightarrow> Inr \<lparr>im_kind = IkData, im_value = v, im_media_type = mt\<rparr>)"

definition classify_http_url :: "(string \<Rightarrow> url option) \<Rightarrow> string \<Rightarrow> string \<Rightarrow> narrow_failure + image_reference" where
  "classify_http_url parse_url v field =
    (let reject = (\<lambda>m. Inl (protocol_fail field (field @ m)))
     in if MAX_IMAGE_URL_LENGTH < length v
        then reject ('': URL exceeds '' @ nat_str MAX_IMAGE_URL_LENGTH @ '' characters'')
     else case parse_url v of
       None \<Rightarrow> reject '': malformed URL''
     | Some u \<Rightarrow>
       if url_protocol u \<noteq> ''http:'' \<and> url_protocol u \<noteq> ''https:''
       then reject ('': unsupported URL scheme '' @ [CHR 0x22] @
         (if butlast (url_protocol u) = [] then ''?'' else butlast (url_protocol u)) @ [CHR 0x22])
       else if url_username u \<noteq> [] \<or> url_password u \<noteq> []
       then reject '': URLs with embedded credentials are not allowed''
       else case normalize_hostname (url_hostname u) of
         None \<Rightarrow> reject '': URL has no usable host''
       | Some hostname \<Rightarrow>
         if is_private_use_name hostname then reject '': URL host is a loopback or private-use name''
         else if is_ip_literal hostname \<and> is_unsafe_ip hostname
         then reject '': URL host is a private, loopback, or reserved address''
         else if \<not> is_ip_literal hostname \<and> CHR ''.'' \<notin> set hostname
         then reject '': URL host must be a fully qualified domain name''
         else Inr \<lparr>im_kind = IkUrl, im_value = v, im_media_type = None\<rparr>)"

definition classify_image_reference ::
  "(string \<Rightarrow> url option) \<Rightarrow> json option \<Rightarrow> string \<Rightarrow> narrow_failure + image_reference" where
  "classify_image_reference parse_url v field =
    (case v of
       Some (JStr s) \<Rightarrow>
         (let trimmed = trim s
          in if trimmed = [] then Inl (protocol_fail field (field @ '': image reference must not be empty''))
             else if to_lower (take 5 trimmed) = ''data:'' then classify_data_url trimmed field
             else classify_http_url parse_url trimmed field)
     | _ \<Rightarrow> Inl (protocol_fail field (field @ '': expected a string reference'')))"

definition push_image_reference ::
  "image_reference list \<Rightarrow> image_reference \<Rightarrow> string \<Rightarrow> narrow_failure + image_reference list" where
  "push_image_reference target r field =
    (if MAX_IMAGE_COUNT \<le> length target
     then Inl (protocol_fail field (field @ '': exceeds maximum of '' @ nat_str MAX_IMAGE_COUNT @ '' images''))
     else Inr (target @ [r]))"

definition aborted_error :: "bool \<Rightarrow> narrow_failure option" where
  "aborted_error aborted =
    (if \<not> aborted then None
     else Some (Failed (application_error ClientAborted 499 ''request'' ''request was aborted before normalization completed'')))"

subsection \<open>Lemmas\<close>

definition tool_ok :: "(json \<Rightarrow> nat) \<Rightarrow> tool \<Rightarrow> bool" where
  "tool_ok ser_len t \<longleftrightarrow> trim (tl_name t) \<noteq> [] \<and> length (tl_name t) \<le> MAX_TOOL_NAME_LENGTH \<and>
     (\<forall>d. tl_description t = Some d \<longrightarrow> length d \<le> MAX_TOOL_DESCRIPTION_LENGTH) \<and>
     tl_schema_length t = Some (int (ser_len (JObj (tl_schema t)))) \<and>
     ser_len (JObj (tl_schema t)) \<le> MAX_TOOL_SCHEMA_LENGTH"

lemma narrow_string_InrD: "narrow_string v field n = Inr s \<Longrightarrow> v = Some (JStr s) \<and> length s \<le> n"
  by (auto simp: narrow_string_def split: option.splits json.splits if_splits)

lemma narrow_array_InrD: "narrow_array v field n = Inr vs \<Longrightarrow> v = Some (JArr vs) \<and> length vs \<le> n"
  by (auto simp: narrow_array_def split: option.splits json.splits if_splits)

lemma narrow_number_InrD:
  assumes "narrow_number sh v field opts = Inr q"
  shows "v = Some (JNum (Num q)) \<and> (no_integer opts \<longrightarrow> is_integer_rat q) \<and>
    (\<forall>m. no_min opts = Some m \<longrightarrow> m \<le> q) \<and> (\<forall>m. no_max opts = Some m \<longrightarrow> q \<le> m)"
proof -
  obtain r where r: "nullable_number v = Some r" using assms by (auto simp: narrow_number_def split: option.splits)
  then have "v = Some (JNum (Num r))"
    by (auto simp: nullable_number_def split: option.splits json.splits elim: js_finite.elims)
  then show ?thesis using assms r by (auto simp: narrow_number_def split: if_splits option.splits)
qed

lemma normalize_tool_ok: "normalize_tool ser_len sh opts i v = Inr t \<Longrightarrow> tool_ok ser_len t"
  by (auto simp: normalize_tool_def tool_ok_def Let_def split: sum.splits if_splits dest!: narrow_string_InrD)

lemma normalize_tools_ok:
  "normalize_tools ser_len sh opts i vs = Inr ts \<Longrightarrow> length ts = length vs \<and> (\<forall>t \<in> set ts. tool_ok ser_len t)"
  by (induction ser_len sh opts i vs arbitrary: ts rule: normalize_tools.induct)
    (auto split: sum.splits dest: normalize_tool_ok)

lemma classify_http_url_safe:
  assumes "classify_http_url parse_url v field = Inr r"
  shows "r = \<lparr>im_kind = IkUrl, im_value = v, im_media_type = None\<rparr> \<and>
    (\<exists>u h. parse_url v = Some u \<and> (url_protocol u = ''http:'' \<or> url_protocol u = ''https:'') \<and>
       url_username u = [] \<and> url_password u = [] \<and> normalize_hostname (url_hostname u) = Some h \<and>
       \<not> is_private_use_name h \<and> (is_ip_literal h \<longrightarrow> \<not> is_unsafe_ip h) \<and>
       (\<not> is_ip_literal h \<longrightarrow> CHR ''.'' \<in> set h))"
  using assms by (auto simp: classify_http_url_def Let_def split: if_splits option.splits)

lemma classify_data_url_kind: "classify_data_url v field = Inr r \<Longrightarrow> im_kind r = IkData"
  by (auto simp: classify_data_url_def split: if_splits sum.splits)

subsection \<open>Properties\<close>

text \<open>
  Request tools are normalized or rejected, never truncated: when the tool list of a request is
  accepted, it yields one tool per entry, and each has a name, description and schema within the
  limits.
\<close>

theorem accepted_tools_within_limits:
  assumes "normalize_tools ser_len show_frac opts i vs = Inr ts"
  shows "length ts = length vs \<and> (\<forall>t \<in> set ts. tool_ok ser_len t)"
  using assms by (rule normalize_tools_ok)

definition sample_tool :: json where
  "sample_tool = JObj [(''name'', JStr ''f''), (''input_schema'', JObj [(''type'', JStr ''object'')])]"

definition sample_tool_options :: tool_list_options where
  "sample_tool_options = \<lparr>tlo_unwrap_function = False, tlo_schema_field = ''input_schema'', tlo_schema_required = True\<rparr>"

theorem accepted_tools_within_limits_witness:
  "\<exists>ts. normalize_tools (\<lambda>j. 10) (\<lambda>j. []) sample_tool_options 0 [sample_tool, sample_tool] = Inr ts \<and> length ts = 2 \<and>
    (\<forall>t \<in> set ts. tool_ok (\<lambda>j. 10) t)"
proof -
  obtain ts where ts: "normalize_tools (\<lambda>j. 10) (\<lambda>j. []) sample_tool_options 0 [sample_tool, sample_tool] = Inr ts"
    by (simp add: normalize_tool_def sample_tool_def sample_tool_options_def narrow_object_def is_protocol_error_def narrow_string_def js_field_def
      jm_get_def is_nullish_def trim_def is_space_def char_code_def MAX_TOOL_NAME_LENGTH_def MAX_TOOL_SCHEMA_LENGTH_def Let_def)
  show ?thesis using ts accepted_tools_within_limits [OF ts] by simp
qed

text \<open>
  An image reference by URL is safe to pass on: it is an http or https URL without credentials,
  and its host is neither a private-use name nor, when it is an address, in a reserved range.
\<close>

theorem accepted_image_url_safe:
  assumes "classify_http_url parse_url v field = Inr r"
  shows "\<exists>u h. parse_url v = Some u \<and> (url_protocol u = ''http:'' \<or> url_protocol u = ''https:'') \<and>
    url_username u = [] \<and> url_password u = [] \<and> normalize_hostname (url_hostname u) = Some h \<and>
    \<not> is_private_use_name h \<and> (is_ip_literal h \<longrightarrow> \<not> is_unsafe_ip h)"
  using classify_http_url_safe [OF assms] by blast

definition sample_image_url :: url where
  "sample_image_url = \<lparr>url_protocol = ''https:'', url_hostname = ''a.io'', url_username = [], url_password = [],
     url_text = ''https://a.io/''\<rparr>"

theorem accepted_image_url_safe_witness:
  "\<exists>u h. Some sample_image_url = Some u \<and> (url_protocol u = ''http:'' \<or> url_protocol u = ''https:'') \<and>
    url_username u = [] \<and> url_password u = [] \<and> normalize_hostname (url_hostname u) = Some h \<and>
    \<not> is_private_use_name h \<and> (is_ip_literal h \<longrightarrow> \<not> is_unsafe_ip h)"
proof -
  have accepted: "classify_http_url (\<lambda>r. Some sample_image_url) ''https://a.io/'' ''image'' =
      Inr \<lparr>im_kind = IkUrl, im_value = ''https://a.io/'', im_media_type = None\<rparr>"
    by (simp add: classify_http_url_def sample_image_url_def normalize_hostname_def to_lower_def lower_char_def char_code_def
      is_private_use_name_def private_suffixes_def suffix_def append_eq_Cons_conv is_ip_literal_def is_ipv4_literal_def
      MAX_IMAGE_URL_LENGTH_def Let_def)
  show ?thesis using accepted_image_url_safe [OF accepted] .
qed

end
