(* ===== verification/NetGuard.thy ===== *)
theory NetGuard imports Narrowing begin

text \<open>
  Server-side fetches (\<open>src/security/ssrf-guard.ts\<close>, \<open>src/security/redirect-policy.ts\<close>): the
  checks on a URL and on what its host resolves to, and the redirect chain that repeats them for
  every hop. \<open>new URL\<close>, the DNS lookup and the network are arguments; the network's answer may
  depend on how many requests were made before.
\<close>

subsection \<open>The guard\<close>

definition BLOCKED_HOSTNAMES :: "string list" where
  "BLOCKED_HOSTNAMES = [''localhost'', ''0.0.0.0'']"

definition BLOCKED_METADATA_HOSTNAMES :: "string list" where
  "BLOCKED_METADATA_HOSTNAMES = [''metadata.google.internal'', ''instance-data'']"

definition DEFAULT_ALLOWED_PROTOCOLS :: "string list" where
  "DEFAULT_ALLOWED_PROTOCOLS = [''http:'', ''https:'', ''socks5:'']"

definition MAX_SSRF_URL_LENGTH :: nat where "MAX_SSRF_URL_LENGTH = 4096"

datatype ssrf_error = InvalidUrl | UnsupportedProtocol | BlockedHost | BlockedIp

definition is_blocked_ip :: "string \<Rightarrow> bool" where
  "is_blocked_ip address = (if address = ''::1'' then True else is_ip_literal address \<and> is_unsafe_ip address)"

definition is_blocked_hostname :: "string \<Rightarrow> bool" where
  "is_blocked_hostname hostname =
    (if hostname \<in> set BLOCKED_HOSTNAMES \<or> hostname \<in> set BLOCKED_METADATA_HOSTNAMES then True
     else is_private_use_name hostname)"

definition assert_public_url ::
  "(string \<Rightarrow> url option) \<Rightarrow> string list option \<Rightarrow> string \<Rightarrow> ssrf_error + url" where
  "assert_public_url parse_url allowed raw =
    (if length raw = 0 then Inl InvalidUrl
     else if MAX_SSRF_URL_LENGTH < length raw then Inl InvalidUrl
     else case parse_url raw of
       None \<Rightarrow> Inl InvalidUrl
     | Some u \<Rightarrow>
       if url_protocol u \<notin> set (case allowed of None \<Rightarrow> DEFAULT_ALLOWED_PROTOCOLS | Some ps \<Rightarrow> ps)
       then Inl UnsupportedProtocol
       else case normalize_hostname (url_hostname u) of
         None \<Rightarrow> Inl InvalidUrl
       | Some hostname \<Rightarrow>
         if is_blocked_hostname hostname then Inl BlockedHost
         else if is_ip_literal hostname \<and> is_unsafe_ip hostname then Inl BlockedIp
         else Inr u)"

text \<open>\<open>lookup\<close> yields the resolved addresses.\<close>

definition assert_public_url_at_dispatch ::
  "(string \<Rightarrow> url option) \<Rightarrow> (string \<Rightarrow> string list) \<Rightarrow> string list option \<Rightarrow> string \<Rightarrow> ssrf_error + url" where
  "assert_public_url_at_dispatch parse_url lookup allowed raw =
    (case assert_public_url parse_url allowed raw of
       Inl e \<Rightarrow> Inl e
     | Inr u \<Rightarrow>
       (case normalize_hostname (url_hostname u) of
          None \<Rightarrow> Inl InvalidUrl
        | Some hostname \<Rightarrow>
          if is_ip_literal hostname then Inr u
          else if list_ex is_blocked_ip (lookup hostname) then Inl BlockedIp
          else Inr u))"

definition validate_public_url :: "(string \<Rightarrow> url option) \<Rightarrow> string \<Rightarrow> ssrf_error option" where
  "validate_public_url parse_url raw = (case assert_public_url parse_url None raw of Inl e \<Rightarrow> Some e | Inr u \<Rightarrow> None)"

subsection \<open>Redirects\<close>

definition MAX_REDIRECTS :: int where "MAX_REDIRECTS = 5"

record response =
  rsp_status :: int
  rsp_location :: "string option"

datatype 'e fetch_error = TooManyRedirects | BadRedirectTarget | Rejected 'e

text \<open>\<open>new URL(location, base)\<close> is the argument \<open>resolve\<close>.\<close>

definition resolve_redirect_target ::
  "(string \<Rightarrow> string \<Rightarrow> url option) \<Rightarrow> string \<Rightarrow> string \<Rightarrow> 'e fetch_error + string" where
  "resolve_redirect_target resolve base location =
    (case resolve location base of
       None \<Rightarrow> Inl BadRedirectTarget
     | Some u \<Rightarrow>
       if url_protocol u \<noteq> ''http:'' \<and> url_protocol u \<noteq> ''https:'' then Inl BadRedirectTarget
       else Inr (url_text u))"

text \<open>A finite request, or \<open>None\<close> for a non-finite one, against the hard cap.\<close>

definition max_redirects_of :: "js_num option \<Rightarrow> nat" where
  "max_redirects_of requested =
    (case requested of
       None \<Rightarrow> nat MAX_REDIRECTS
     | Some r \<Rightarrow> (case js_finite r of
          None \<Rightarrow> nat MAX_REDIRECTS
        | Some q \<Rightarrow> nat (max 0 (min MAX_REDIRECTS \<lfloor>q\<rfloor>))))"

datatype hop_event = Validated string | Fetched string

text \<open>
  The loop: \<open>n\<close> hops are left; the network answers request number \<open>k\<close>. The events are the
  validations that passed and the requests made, in order.
\<close>

primrec redirect_loop ::
  "nat \<Rightarrow> (string \<Rightarrow> string \<Rightarrow> url option) \<Rightarrow> (string \<Rightarrow> 'e option) option \<Rightarrow> (nat \<Rightarrow> string \<Rightarrow> response) \<Rightarrow>
   nat \<Rightarrow> string \<Rightarrow> hop_event list \<times> ('e fetch_error + response)" where
  "redirect_loop 0 resolve validator fetcher k current = ([], Inl TooManyRedirects)"
| "redirect_loop (Suc n) resolve validator fetcher k current =
    (case (case validator of None \<Rightarrow> None | Some v \<Rightarrow> v current) of
       Some e \<Rightarrow> ([], Inl (Rejected e))
     | None \<Rightarrow>
       (let events = (if validator = None then [] else [Validated current]) @ [Fetched current];
            r = fetcher k current
        in case rsp_location r of
          None \<Rightarrow> (events, Inr r)
        | Some location \<Rightarrow>
          if rsp_status r < 300 \<or> 400 \<le> rsp_status r then (events, Inr r)
          else case resolve_redirect_target resolve current location of
            Inl e \<Rightarrow> (events, Inl e)
          | Inr target \<Rightarrow>
            (let (later, out) = redirect_loop n resolve validator fetcher (Suc k) target
             in (events @ later, out))))"

definition fetch_with_redirect_policy ::
  "(string \<Rightarrow> string \<Rightarrow> url option) \<Rightarrow> (string \<Rightarrow> 'e option) option \<Rightarrow> (nat \<Rightarrow> string \<Rightarrow> response) \<Rightarrow>
   js_num option \<Rightarrow> string \<Rightarrow> hop_event list \<times> ('e fetch_error + response)" where
  "fetch_with_redirect_policy resolve validator fetcher requested target =
     redirect_loop (Suc (max_redirects_of requested)) resolve validator fetcher 0 target"

definition fetch_with_ssrf_guard ::
  "(string \<Rightarrow> url option) \<Rightarrow> (string \<Rightarrow> string \<Rightarrow> url option) \<Rightarrow> (string \<Rightarrow> string list) \<Rightarrow>
   (nat \<Rightarrow> string \<Rightarrow> response) \<Rightarrow> js_num option \<Rightarrow> string \<Rightarrow> hop_event list \<times> (ssrf_error fetch_error + response)" where
  "fetch_with_ssrf_guard parse_url resolve lookup fetcher requested target =
     fetch_with_redirect_policy resolve
       (Some (\<lambda>u. case assert_public_url_at_dispatch parse_url lookup None u of Inl e \<Rightarrow> Some e | Inr v \<Rightarrow> None))
       fetcher requested target"

subsection \<open>Lemmas\<close>

fun fetches :: "hop_event list \<Rightarrow> string list" where
  "fetches [] = []"
| "fetches (Fetched u # es) = u # fetches es"
| "fetches (Validated u # es) = fetches es"

lemma fetches_append: "fetches (es @ fs) = fetches es @ fetches fs"
  by (induction es rule: fetches.induct) auto

lemma max_redirects_le: "max_redirects_of requested \<le> 5"
  by (auto simp: max_redirects_of_def MAX_REDIRECTS_def split: option.split)

lemma redirect_loop_length: "length (fetches (fst (redirect_loop n resolve v f k u))) \<le> n"
proof (induction n arbitrary: k u)
  case 0
  then show ?case by simp
next
  case (Suc n)
  have "length (fetches (fst (redirect_loop n resolve v f (Suc k) t))) \<le> n" for t by (rule Suc.IH)
  then show ?case
    by (auto simp: Let_def fetches_append split: option.split sum.split prod.splits)
      (metis fst_conv)+
qed

text \<open>With a validator, requests and passed validations alternate on the same URLs.\<close>

lemma redirect_loop_validated:
  "u \<in> set (fetches (fst (redirect_loop n resolve (Some v) f k t))) \<Longrightarrow> v u = None"
proof (induction n arbitrary: k t)
  case 0
  then show ?case by simp
next
  case (Suc n)
  show ?case
    using Suc.prems Suc.IH
    by (auto simp: Let_def fetches_append split: option.splits sum.splits prod.splits if_splits)
      (metis fst_conv)+
qed

lemma redirect_loop_final:
  "snd (redirect_loop n resolve v f k t) = Inr r \<Longrightarrow>
   rsp_location r = None \<or> rsp_status r < 300 \<or> 400 \<le> rsp_status r"
proof (induction n arbitrary: k t)
  case 0
  then show ?case by simp
next
  case (Suc n)
  show ?case
    using Suc.prems Suc.IH
    by (auto simp: Let_def split: option.splits sum.splits prod.splits if_splits) (metis snd_conv)+
qed

lemma assert_public_url_InrD:
  assumes "assert_public_url parse_url allowed raw = Inr u"
  shows "parse_url raw = Some u \<and> length raw \<le> MAX_SSRF_URL_LENGTH \<and>
    (\<exists>h. normalize_hostname (url_hostname u) = Some h \<and> \<not> is_blocked_hostname h \<and>
      (is_ip_literal h \<longrightarrow> \<not> is_unsafe_ip h))"
  using assms by (auto simp: assert_public_url_def split: if_splits option.splits)

lemma at_dispatch_InrD:
  assumes "assert_public_url_at_dispatch parse_url lookup allowed raw = Inr u"
  shows "assert_public_url parse_url allowed raw = Inr u \<and>
    (\<exists>h. normalize_hostname (url_hostname u) = Some h \<and>
      (\<not> is_ip_literal h \<longrightarrow> (\<forall>a \<in> set (lookup h). \<not> is_blocked_ip a)))"
  using assms by (auto simp: assert_public_url_at_dispatch_def list_ex_iff split: if_splits option.splits sum.splits)

subsection \<open>Properties\<close>

text \<open>
  A guarded fetch is bounded and every hop is checked: it makes at most six requests (the first
  and five redirects), whatever limit was asked for and however the servers redirect, and each URL
  it requests passed the validator.
\<close>

theorem redirects_bounded_and_validated:
  "length (fetches (fst (fetch_with_redirect_policy resolve (Some validator) fetcher requested target))) \<le> 6 \<and>
   (\<forall>u \<in> set (fetches (fst (fetch_with_redirect_policy resolve (Some validator) fetcher requested target))). validator u = None)"
proof
  let ?run = "redirect_loop (Suc (max_redirects_of requested)) resolve (Some validator) fetcher 0 target"
  have "length (fetches (fst ?run)) \<le> Suc (max_redirects_of requested)" by (rule redirect_loop_length)
  then show "length (fetches (fst (fetch_with_redirect_policy resolve (Some validator) fetcher requested target))) \<le> 6"
    using max_redirects_le [of requested] by (simp add: fetch_with_redirect_policy_def)
  show "\<forall>u \<in> set (fetches (fst (fetch_with_redirect_policy resolve (Some validator) fetcher requested target))). validator u = None"
    unfolding fetch_with_redirect_policy_def using redirect_loop_validated by blast
qed

theorem redirects_bounded_and_validated_witness:
  "length (fetches (fst (fetch_with_redirect_policy
     (\<lambda>l b. Some \<lparr>url_protocol = ''https:'', url_hostname = ''a.example'', url_username = [], url_password = [], url_text = l\<rparr>)
     (Some (\<lambda>u. None)) (\<lambda>k u. \<lparr>rsp_status = 302, rsp_location = Some ''https://a.example/''\<rparr>) None ''https://a.example/''))) \<le> 6"
  by (rule redirects_bounded_and_validated [THEN conjunct1])

text \<open>
  C28: What the guard lets through at dispatch is public: the URL parsed, its host is not a blocked
  or private name, an address literal is not in a reserved range, and no address a host name
  resolves to is blocked.
\<close>

theorem dispatched_url_is_public:
  assumes "assert_public_url_at_dispatch parse_url lookup allowed raw = Inr u"
  shows "\<exists>h. parse_url raw = Some u \<and> normalize_hostname (url_hostname u) = Some h \<and> \<not> is_blocked_hostname h \<and>
    (is_ip_literal h \<longrightarrow> \<not> is_unsafe_ip h) \<and> (\<not> is_ip_literal h \<longrightarrow> (\<forall>a \<in> set (lookup h). \<not> is_blocked_ip a))"
  using at_dispatch_InrD [OF assms] assert_public_url_InrD [of parse_url allowed raw u] by auto

definition sample_url :: url where
  "sample_url = \<lparr>url_protocol = ''https:'', url_hostname = ''a.io'', url_username = [], url_password = [],
     url_text = ''https://a.io/''\<rparr>"

lemma sample_host: "normalize_hostname ''a.io'' = Some ''a.io''"
  by (simp add: normalize_hostname_def to_lower_def lower_char_def char_code_def Let_def)

lemma sample_host_name: "\<not> is_blocked_hostname ''a.io''" "\<not> is_ip_literal ''a.io''"
   apply (simp add: is_blocked_hostname_def BLOCKED_HOSTNAMES_def BLOCKED_METADATA_HOSTNAMES_def is_private_use_name_def
    private_suffixes_def suffix_def append_eq_Cons_conv)
  apply (simp add: is_ip_literal_def is_ipv4_literal_def)
  done

lemma sample_dispatched:
  "assert_public_url_at_dispatch (\<lambda>r. Some sample_url) (\<lambda>h. [''::1'']) None ''x'' = Inl BlockedIp"
  "assert_public_url_at_dispatch (\<lambda>r. Some sample_url) (\<lambda>h. []) None ''x'' = Inr sample_url"
  by (simp_all add: assert_public_url_at_dispatch_def assert_public_url_def sample_host sample_host_name sample_url_def
    DEFAULT_ALLOWED_PROTOCOLS_def MAX_SSRF_URL_LENGTH_def is_blocked_ip_def)

theorem dispatched_url_is_public_witness:
  "\<exists>h. Some sample_url = Some sample_url \<and> normalize_hostname (url_hostname sample_url) = Some h \<and> \<not> is_blocked_hostname h \<and>
    (is_ip_literal h \<longrightarrow> \<not> is_unsafe_ip h) \<and> (\<not> is_ip_literal h \<longrightarrow> (\<forall>a \<in> set []. \<not> is_blocked_ip a))"
  using dispatched_url_is_public [OF sample_dispatched(2)] .

end
