(* ===== verification/JsonText.thy ===== *)
theory JsonText imports JsJson begin

text \<open>
  \<open>JSON.parse\<close> and \<open>JSON.stringify\<close> on the values of \<open>JsJson\<close>. Characters are code units below
  256: an escape of a larger code unit becomes a question mark, which no comparison of the program
  looks at. A number is read exactly (the rounding to a double is not modelled), and the printer of
  numbers that are not integers below \<open>10^21\<close> is an argument. The nesting of the parser is bounded
  by a fuel that the length of the text always provides; the round trip at the end shows it is
  enough for every text \<open>stringify\<close> produces.
\<close>

subsection \<open>Printing\<close>

abbreviation dquote :: char where "dquote \<equiv> CHR 0x22"
abbreviation bslash :: char where "bslash \<equiv> CHR 0x5C"

definition hex_char :: "nat \<Rightarrow> char" where
  "hex_char k = (if k < 10 then char_of (48 + k) else char_of (87 + k))"

definition hex_val :: "char \<Rightarrow> nat option" where
  "hex_val c = (let k = char_code c in
     if 48 \<le> k \<and> k \<le> 57 then Some (k - 48)
     else if 97 \<le> k \<and> k \<le> 102 then Some (k - 87)
     else if 65 \<le> k \<and> k \<le> 70 then Some (k - 55)
     else None)"

definition escape_char :: "char \<Rightarrow> string" where
  "escape_char c = (let k = char_code c in
     if c = dquote then [bslash, dquote]
     else if c = bslash then [bslash, bslash]
     else if k = 8 then [bslash, CHR ''b'']
     else if k = 9 then [bslash, CHR ''t'']
     else if k = 10 then [bslash, CHR ''n'']
     else if k = 12 then [bslash, CHR ''f'']
     else if k = 13 then [bslash, CHR ''r'']
     else if k < 32 then [bslash, CHR ''u'', CHR ''0'', CHR ''0'', hex_char (k div 16), hex_char (k mod 16)]
     else [c])"

definition json_string :: "string \<Rightarrow> string" where
  "json_string s = dquote # concat (map escape_char s) @ [dquote]"

definition num_text :: "(rat \<Rightarrow> string) \<Rightarrow> js_num \<Rightarrow> string" where
  "num_text show_frac n =
     (case n of
        Num q \<Rightarrow> if is_integer_rat q \<and> \<bar>q\<bar> < 10 ^ 21 then int_str \<lfloor>q\<rfloor> else show_frac q
      | _ \<Rightarrow> ''null'')"

fun json_text :: "(rat \<Rightarrow> string) \<Rightarrow> json \<Rightarrow> string" where
  "json_text f JNull = ''null''"
| "json_text f (JBool b) = (if b then ''true'' else ''false'')"
| "json_text f (JNum n) = num_text f n"
| "json_text f (JStr s) = json_string s"
| "json_text f (JArr xs) = ''['' @ join_with '','' (map (json_text f) xs) @ '']''"
| "json_text f (JObj ps) =
     ''{'' @ join_with '','' (map (\<lambda>(k, v). json_string k @ '':'' @ json_text f v) ps) @ ''}''"

subsection \<open>Parsing\<close>

definition is_json_ws :: "char \<Rightarrow> bool" where
  "is_json_ws c \<longleftrightarrow> char_code c \<in> {9, 10, 13, 32}"

definition skip_ws :: "string \<Rightarrow> string" where
  "skip_ws s = dropWhile is_json_ws s"

definition unescape :: "char \<Rightarrow> char option" where
  "unescape e =
     (if e = dquote \<or> e = bslash \<or> e = CHR ''/'' then Some e
      else if e = CHR ''b'' then Some (char_of (8::nat))
      else if e = CHR ''f'' then Some (char_of (12::nat))
      else if e = CHR ''n'' then Some (char_of (10::nat))
      else if e = CHR ''r'' then Some (char_of (13::nat))
      else if e = CHR ''t'' then Some (char_of (9::nat))
      else None)"

definition hex4 :: "char \<Rightarrow> char \<Rightarrow> char \<Rightarrow> char \<Rightarrow> char option" where
  "hex4 a b c d =
     (case (hex_val a, hex_val b, hex_val c, hex_val d) of
        (Some i, Some j, Some k, Some l) \<Rightarrow>
          (let n = 4096 * i + 256 * j + 16 * k + l
           in Some (if n < 256 then char_of n else CHR ''?''))
      | _ \<Rightarrow> None)"

text \<open>The characters after an opening quote, up to the closing one.\<close>

fun parse_chars :: "string \<Rightarrow> (string \<times> string) option" where
  "parse_chars [] = None"
| "parse_chars (c # s) =
     (if c = dquote then Some ([], s)
      else if char_code c < 32 then None
      else if c = bslash
      then (case s of
              [] \<Rightarrow> None
            | e # t \<Rightarrow>
                if e = CHR ''u''
                then (case t of
                        h1 # h2 # h3 # h4 # u \<Rightarrow>
                          (case hex4 h1 h2 h3 h4 of
                             None \<Rightarrow> None
                           | Some x \<Rightarrow> map_option (apfst (Cons x)) (parse_chars u))
                      | _ \<Rightarrow> None)
                else (case unescape e of
                        None \<Rightarrow> None
                      | Some x \<Rightarrow> map_option (apfst (Cons x)) (parse_chars t)))
      else map_option (apfst (Cons c)) (parse_chars s))"

text \<open>A run of at least one digit.\<close>

definition parse_digits :: "string \<Rightarrow> (string \<times> string) option" where
  "parse_digits s =
     (let ds = takeWhile is_digit_char s
      in if ds = [] then None else Some (ds, dropWhile is_digit_char s))"

definition parse_frac :: "string \<Rightarrow> (rat \<times> string) option" where
  "parse_frac s =
     (case s of
        c # t \<Rightarrow>
          if c = CHR ''.''
          then map_option (\<lambda>(ds, r). (of_nat (nat_of_digits ds) / 10 ^ length ds, r)) (parse_digits t)
          else Some (0, s)
      | [] \<Rightarrow> Some (0, s))"

definition parse_exp :: "string \<Rightarrow> (rat \<times> string) option" where
  "parse_exp s =
     (case s of
        c # t \<Rightarrow>
          if c = CHR ''e'' \<or> c = CHR ''E''
          then (case t of
                  d # u \<Rightarrow>
                    if d = CHR ''-'' then map_option (\<lambda>(ds, r). (1 / 10 ^ nat_of_digits ds, r)) (parse_digits u)
                    else if d = CHR ''+'' then map_option (\<lambda>(ds, r). (10 ^ nat_of_digits ds, r)) (parse_digits u)
                    else map_option (\<lambda>(ds, r). (10 ^ nat_of_digits ds, r)) (parse_digits t)
                | [] \<Rightarrow> None)
          else Some (1, s)
      | [] \<Rightarrow> Some (1, s))"

definition parse_unsigned :: "string \<Rightarrow> (rat \<times> string) option" where
  "parse_unsigned s =
     (case parse_digits s of
        None \<Rightarrow> None
      | Some (ds, r) \<Rightarrow>
          if hd ds = CHR ''0'' \<and> length ds \<noteq> 1 then None
          else case parse_frac r of
            None \<Rightarrow> None
          | Some (f, r') \<Rightarrow>
              (case parse_exp r' of
                 None \<Rightarrow> None
               | Some (e, r'') \<Rightarrow> Some ((of_nat (nat_of_digits ds) + f) * e, r'')))"

definition parse_number :: "string \<Rightarrow> (json \<times> string) option" where
  "parse_number s =
     (case s of
        c # t \<Rightarrow>
          if c = CHR ''-''
          then map_option (\<lambda>(q, r). (JNum (Num (- q)), r)) (parse_unsigned t)
          else map_option (\<lambda>(q, r). (JNum (Num q), r)) (parse_unsigned s)
      | [] \<Rightarrow> None)"

definition parse_word :: "string \<Rightarrow> json \<Rightarrow> string \<Rightarrow> (json \<times> string) option" where
  "parse_word w v s = (if prefix w s then Some (v, drop (length w) s) else None)"

definition parse_scalar :: "string \<Rightarrow> (json \<times> string) option" where
  "parse_scalar s =
     (case s of
        [] \<Rightarrow> None
      | c # t \<Rightarrow>
          if c = dquote then map_option (apfst JStr) (parse_chars t)
          else if c = CHR ''n'' then parse_word ''null'' JNull s
          else if c = CHR ''t'' then parse_word ''true'' (JBool True) s
          else if c = CHR ''f'' then parse_word ''false'' (JBool False) s
          else parse_number s)"

fun parse_value :: "nat \<Rightarrow> string \<Rightarrow> (json \<times> string) option"
and parse_elems :: "nat \<Rightarrow> string \<Rightarrow> (json list \<times> string) option"
and parse_members :: "nat \<Rightarrow> (string \<times> json) list \<Rightarrow> string \<Rightarrow> ((string \<times> json) list \<times> string) option"
where
  "parse_value 0 s = None"
| "parse_value (Suc n) s =
     (case skip_ws s of
        [] \<Rightarrow> None
      | c # t \<Rightarrow>
          if c = CHR ''[''
          then (case skip_ws t of
                  [] \<Rightarrow> None
                | d # u \<Rightarrow>
                    if d = CHR '']'' then Some (JArr [], u)
                    else map_option (apfst JArr) (parse_elems n t))
          else if c = CHR ''{''
          then (case skip_ws t of
                  [] \<Rightarrow> None
                | d # u \<Rightarrow>
                    if d = CHR ''}'' then Some (JObj [], u)
                    else map_option (apfst JObj) (parse_members n [] t))
          else parse_scalar (c # t))"
| "parse_elems 0 s = None"
| "parse_elems (Suc n) s =
     (case parse_value n s of
        None \<Rightarrow> None
      | Some (v, r) \<Rightarrow>
          (case skip_ws r of
             [] \<Rightarrow> None
           | c # t \<Rightarrow>
               if c = CHR '','' then map_option (apfst (Cons v)) (parse_elems n t)
               else if c = CHR '']'' then Some ([v], t)
               else None))"
| "parse_members 0 acc s = None"
| "parse_members (Suc n) acc s =
     (case skip_ws s of
        [] \<Rightarrow> None
      | q # t \<Rightarrow>
          if q \<noteq> dquote then None
          else case parse_chars t of
            None \<Rightarrow> None
          | Some (k, r) \<Rightarrow>
              (case skip_ws r of
                 [] \<Rightarrow> None
               | c # u \<Rightarrow>
                   if c \<noteq> CHR '':'' then None
                   else case parse_value n u of
                     None \<Rightarrow> None
                   | Some (v, r') \<Rightarrow>
                       (case skip_ws r' of
                          [] \<Rightarrow> None
                        | d # w \<Rightarrow>
                            if d = CHR '','' then parse_members n (jm_set k v acc) w
                            else if d = CHR ''}'' then Some (jm_set k v acc, w)
                            else None)))"

definition json_parse :: "string \<Rightarrow> json option" where
  "json_parse s =
     (case parse_value (2 * length s + 2) s of
        None \<Rightarrow> None
      | Some (v, r) \<Rightarrow> if skip_ws r = [] then Some v else None)"

subsection \<open>Printing and parsing are inverse\<close>

lemma char_of_char_code [simp]: "char_of (char_code c) = c"
  by (simp add: char_code_def)

lemma char_code_less: "char_code c < 256"
  by (simp add: char_code_def)

lemma char_code_inject: "char_code c = char_code d \<longleftrightarrow> c = d"
  by (metis char_of_char_code)

lemma hex_val_char: "n < 16 \<Longrightarrow> hex_val (hex_char n) = Some n"
  by (auto simp: hex_val_def hex_char_def char_code_def Let_def)

lemma hex_val_0: "hex_val (CHR ''0'') = Some 0"
  by (simp add: hex_val_def char_code_def Let_def)

lemma hex4_low:
  assumes "k < 256"
  shows "hex4 (CHR ''0'') (CHR ''0'') (hex_char (k div 16)) (hex_char (k mod 16)) = Some (char_of k)"
proof -
  have "hex_val (hex_char (k div 16)) = Some (k div 16)" "hex_val (hex_char (k mod 16)) = Some (k mod 16)"
    using assms by (auto intro!: hex_val_char)
  then show ?thesis using assms by (simp add: hex4_def hex_val_0 Let_def)
qed

lemma parse_escaped: "parse_chars (escape_char c @ t) = map_option (apfst (Cons c)) (parse_chars t)"
proof -
  consider "c = dquote" | "c = bslash" | "char_code c = 8" | "char_code c = 9" | "char_code c = 10"
    | "char_code c = 12" | "char_code c = 13"
    | "c \<noteq> dquote" "c \<noteq> bslash" "char_code c < 32" "char_code c \<notin> {8, 9, 10, 12, 13}"
    | "c \<noteq> dquote" "c \<noteq> bslash" "\<not> char_code c < 32"
    by auto
  then show ?thesis
  proof cases
    case 8
    then have "escape_char c @ t = bslash # CHR ''u'' # CHR ''0'' # CHR ''0'' #
        hex_char (char_code c div 16) # hex_char (char_code c mod 16) # t"
      by (auto simp: escape_char_def Let_def)
    then show ?thesis
      using hex4_low [OF char_code_less, of c] by (simp add: char_code_def)
  next
    case 9
    then show ?thesis by (auto simp: escape_char_def Let_def)
  next
    case 3
    then have "c = char_of (8::nat)" by (metis char_of_char_code)
    then show ?thesis by (simp add: escape_char_def Let_def char_code_def unescape_def)
  next
    case 4
    then have "c = char_of (9::nat)" by (metis char_of_char_code)
    then show ?thesis by (simp add: escape_char_def Let_def char_code_def unescape_def)
  next
    case 5
    then have "c = char_of (10::nat)" by (metis char_of_char_code)
    then show ?thesis by (simp add: escape_char_def Let_def char_code_def unescape_def)
  next
    case 6
    then have "c = char_of (12::nat)" by (metis char_of_char_code)
    then show ?thesis by (simp add: escape_char_def Let_def char_code_def unescape_def)
  next
    case 7
    then have "c = char_of (13::nat)" by (metis char_of_char_code)
    then show ?thesis by (simp add: escape_char_def Let_def char_code_def unescape_def)
  qed (simp_all add: escape_char_def Let_def char_code_def unescape_def)
qed

lemma parse_chars_printed: "parse_chars (concat (map escape_char s) @ dquote # r) = Some (s, r)"
  by (induction s) (simp_all add: parse_escaped del: parse_chars.simps(2) add: parse_chars.simps(2) [of dquote])

text \<open>What may follow a printed number without being read as part of it.\<close>

definition num_stop :: "string \<Rightarrow> bool" where
  "num_stop r \<longleftrightarrow> (case r of [] \<Rightarrow> True
     | c # _ \<Rightarrow> \<not> is_digit_char c \<and> c \<noteq> CHR ''.'' \<and> c \<noteq> CHR ''e'' \<and> c \<noteq> CHR ''E'')"

lemma takeWhile_num_stop:
  assumes "list_all is_digit_char ds" and "num_stop r"
  shows "takeWhile is_digit_char (ds @ r) = ds" and "dropWhile is_digit_char (ds @ r) = r"
  using assms by (cases r; simp add: num_stop_def list_all_iff)+

lemma nat_str_hd: "hd (nat_str n) = CHR ''0'' \<longleftrightarrow> n = 0"
proof (induction n rule: nat_str.induct)
  case (1 n)
  show ?case
  proof (cases "n < 10")
    case True
    have "char_of (48 + n) = CHR ''0'' \<longleftrightarrow> (of_char (char_of (48 + n) :: char) :: nat) = of_char (CHR ''0'')"
      by (metis of_char_eq_iff)
    also have "\<dots> \<longleftrightarrow> n = 0" using True by simp
    finally show ?thesis using True by (subst nat_str.simps) simp
  next
    case False
    then have "n div 10 \<noteq> 0" by simp
    then show ?thesis using 1 [OF False] False by (subst nat_str.simps) simp
  qed
qed

lemma parse_unsigned_nat_str:
  assumes "num_stop r"
  shows "parse_unsigned (nat_str n @ r) = Some (of_nat n, r)"
proof -
  have "hd (nat_str n) = CHR ''0'' \<Longrightarrow> length (nat_str n) = 1"
    by (simp add: nat_str_hd) (simp add: nat_str.simps [of 0])
  moreover have "parse_digits (nat_str n @ r) = Some (nat_str n, r)"
    by (simp add: parse_digits_def takeWhile_num_stop [OF nat_str_digits assms])
  moreover have "parse_frac r = Some (0, r)" "parse_exp r = Some (1, r)"
    using assms by (auto simp: parse_frac_def parse_exp_def num_stop_def split: list.split)
  ultimately show ?thesis by (auto simp: parse_unsigned_def nat_of_digits_nat_str)
qed

lemma nat_str_hd_digit: "is_digit_char (hd (nat_str n))"
  by (metis hd_in_set list_all_iff nat_str_digits nat_str_nonempty)

lemma parse_number_int_str:
  assumes "num_stop r"
  shows "parse_number (int_str k @ r) = Some (JNum (Num (of_int k)), r)"
proof (cases "k < 0")
  case True
  then have "(of_nat (nat (- k)) :: rat) = - of_int k" by simp
  then show ?thesis using True
    by (simp add: parse_number_def int_str_def parse_unsigned_nat_str [OF assms])
next
  case False
  obtain c s where cs: "nat_str (nat k) = c # s" by (cases "nat_str (nat k)") auto
  have "c \<noteq> CHR ''-''"
    using nat_str_hd_digit [of "nat k"] cs by (auto simp: is_digit_char_def char_code_def)
  moreover have "(of_nat (nat k) :: rat) = of_int k" using False by simp
  ultimately show ?thesis
    using False cs parse_unsigned_nat_str [OF assms, of "nat k"]
    by (simp add: parse_number_def int_str_def)
qed


text \<open>The values \<open>stringify\<close> writes exactly: distinct keys and integers below \<open>10^21\<close>.\<close>

fun plain_json :: "json \<Rightarrow> bool" where
  "plain_json JNull = True"
| "plain_json (JBool b) = True"
| "plain_json (JNum n) = (case n of Num q \<Rightarrow> is_integer_rat q \<and> \<bar>q\<bar> < 10 ^ 21 | _ \<Rightarrow> False)"
| "plain_json (JStr s) = True"
| "plain_json (JArr xs) = list_all plain_json xs"
| "plain_json (JObj ps) = (distinct (map fst ps) \<and> list_all (\<lambda>(k, v). plain_json v) ps)"

fun json_cost :: "json \<Rightarrow> nat" where
  "json_cost (JArr xs) = Suc (sum_list (map (\<lambda>x. Suc (json_cost x)) xs))"
| "json_cost (JObj ps) = Suc (sum_list (map (\<lambda>(k, v). Suc (json_cost v)) ps))"
| "json_cost _ = 1"

text \<open>The first character of a printed value tells its shape.\<close>

lemma json_text_hd:
  assumes "plain_json v"
  obtains c s where "json_text f v = c # s" "\<not> is_json_ws c" "c \<noteq> CHR '']''" "c \<noteq> CHR ''}''"
proof (cases v)
  case (JNum n)
  then obtain q where q: "n = Num q" "json_text f v = int_str \<lfloor>q\<rfloor>"
    using assms by (auto simp: num_text_def split: js_num.splits)
  show ?thesis
  proof (cases "\<lfloor>q\<rfloor> < 0")
    case True
    then show ?thesis using that q by (simp add: int_str_def is_json_ws_def char_code_def)
  next
    case False
    obtain c s where cs: "nat_str (nat \<lfloor>q\<rfloor>) = c # s" by (cases "nat_str (nat \<lfloor>q\<rfloor>)") auto
    moreover have "is_digit_char c" using nat_str_hd_digit [of "nat \<lfloor>q\<rfloor>"] cs by simp
    then have "\<not> is_json_ws c" "c \<noteq> CHR '']''" "c \<noteq> CHR ''}''"
      by (auto simp: is_digit_char_def is_json_ws_def char_code_def)
    ultimately show ?thesis using that q False by (simp add: int_str_def)
  qed
next
  case (JBool b)
  then show ?thesis using that by (cases b) (simp_all add: is_json_ws_def char_code_def)
qed (use that in \<open>auto simp: json_string_def is_json_ws_def char_code_def\<close>)

lemma skip_ws_id: "\<not> is_json_ws c \<Longrightarrow> skip_ws (c # s) = c # s"
  by (simp add: skip_ws_def)

lemma not_json_ws [simp]:
  "\<not> is_json_ws (CHR '','')" "\<not> is_json_ws (CHR '']'')" "\<not> is_json_ws (CHR ''}'')"
  "\<not> is_json_ws (CHR '':'')" "\<not> is_json_ws dquote" "\<not> is_json_ws (CHR ''['')" "\<not> is_json_ws (CHR ''{'')"
  by (simp_all add: is_json_ws_def char_code_def)

lemma num_stop_punct [simp]: "num_stop []" "num_stop (CHR '','' # r)" "num_stop (CHR '']'' # r)" "num_stop (CHR ''}'' # r)"
  by (simp_all add: num_stop_def is_digit_char_def char_code_def)

abbreviation parses_back :: "(rat \<Rightarrow> string) \<Rightarrow> json \<Rightarrow> bool" where
  "parses_back f v \<equiv> \<forall>n r. json_cost v \<le> n \<longrightarrow> num_stop r \<longrightarrow> parse_value n (json_text f v @ r) = Some (v, r)"

lemma parse_elems_printed:
  assumes "\<And>x. x \<in> set xs \<Longrightarrow> parses_back f x" and "xs \<noteq> []"
    and "sum_list (map (\<lambda>x. Suc (json_cost x)) xs) \<le> n"
  shows "parse_elems n (join_with '','' (map (json_text f) xs) @ CHR '']'' # r) = Some (xs, r)"
  using assms
proof (induction xs arbitrary: n)
  case Nil
  then show ?case by simp
next
  case (Cons x xs)
  obtain m where n: "n = Suc m" using Cons.prems(3) by (cases n) auto
  have x: "json_cost x \<le> m" using Cons.prems(3) n by simp
  show ?case
  proof (cases xs)
    case Nil
    then show ?thesis using Cons.prems(1) [of x] x n by (simp add: skip_ws_id)
  next
    case (Cons y ys)
    then have "parse_elems m (join_with '','' (map (json_text f) xs) @ CHR '']'' # r) = Some (xs, r)"
      using Cons.prems n by (intro Cons.IH) auto
    then show ?thesis using Cons Cons.prems(1) [of x] x n by (simp add: skip_ws_id)
  qed
qed

lemma jm_set_fresh: "k \<notin> set (map fst acc) \<Longrightarrow> jm_set k v acc = acc @ [(k, v)]"
  by (induction acc) (auto simp: jm_set_def)

lemma parse_members_printed:
  assumes "\<And>k v. (k, v) \<in> set ps \<Longrightarrow> parses_back f v" and "ps \<noteq> []"
    and "sum_list (map (\<lambda>(k, v). Suc (json_cost v)) ps) \<le> n"
    and "distinct (map fst (acc @ ps))"
  shows "parse_members n acc
     (join_with '','' (map (\<lambda>(k, v). json_string k @ '':'' @ json_text f v) ps) @ CHR ''}'' # r) = Some (acc @ ps, r)"
  using assms
proof (induction ps arbitrary: n acc)
  case Nil
  then show ?case by simp
next
  case (Cons p ps)
  obtain k v where p: "p = (k, v)" by (cases p)
  obtain m where n: "n = Suc m" using Cons.prems(3) by (cases n) (auto simp: p)
  have v: "json_cost v \<le> m" using Cons.prems(3) n p by simp
  have pv: "parses_back f v" using Cons.prems(1) [of k v] p by simp
  have fresh: "jm_set k v acc = acc @ [(k, v)]" using Cons.prems(4) p by (intro jm_set_fresh) auto
  show ?case
  proof (cases ps)
    case Nil
    then show ?thesis using pv v n p fresh
      by (simp add: skip_ws_id json_string_def parse_chars_printed)
  next
    case (Cons q qs)
    then have "parse_members m (acc @ [(k, v)])
       (join_with '','' (map (\<lambda>(k, v). json_string k @ '':'' @ json_text f v) ps) @ CHR ''}'' # r) =
       Some ((acc @ [(k, v)]) @ ps, r)"
      using Cons.prems n p by (intro Cons.IH) auto
    moreover obtain k' v' where "q = (k', v')" by (cases q)
    ultimately show ?thesis using Cons pv v n p fresh
      by (simp add: skip_ws_id json_string_def parse_chars_printed)
  qed
qed

lemma json_cost_pos: "0 < json_cost v"
  by (cases v) auto

lemma parse_scalar_number:
  assumes "num_stop r"
  shows "parse_scalar (int_str k @ r) = Some (JNum (Num (of_int k)), r)" 
    and "\<exists>c s. int_str k @ r = c # s \<and> \<not> is_json_ws c \<and> c \<noteq> CHR ''['' \<and> c \<noteq> CHR ''{''"
proof -
  obtain c s where cs: "int_str k = c # s" "c = CHR ''-'' \<or> is_digit_char c"
    using nat_str_hd_digit [of "nat k"]
    by (cases "k < 0"; cases "nat_str (nat k)") (simp_all add: int_str_def)
  then have c: "\<not> is_json_ws c" "c \<noteq> CHR ''[''" "c \<noteq> CHR ''{''" "c \<noteq> dquote" "c \<noteq> CHR ''n''" "c \<noteq> CHR ''t''" "c \<noteq> CHR ''f''"
    by (auto simp: is_digit_char_def is_json_ws_def char_code_def)
  show "parse_scalar (int_str k @ r) = Some (JNum (Num (of_int k)), r)"
    using parse_number_int_str [OF assms, of k] c cs(1) by (simp add: parse_scalar_def)
  show "\<exists>c s. int_str k @ r = c # s \<and> \<not> is_json_ws c \<and> c \<noteq> CHR ''['' \<and> c \<noteq> CHR ''{''"
    using c cs(1) by auto
qed

lemma parse_value_printed: "plain_json v \<Longrightarrow> parses_back f v"
proof (induction v)
  case JNull
  show ?case
  proof (intro allI impI)
    fix n :: nat and r assume "json_cost JNull \<le> n"
    then obtain m where "n = Suc m" by (cases n) auto
    then show "parse_value n (json_text f JNull @ r) = Some (JNull, r)"
      by (simp add: skip_ws_def is_json_ws_def char_code_def parse_scalar_def parse_word_def)
  qed
next
  case (JBool b)
  show ?case
  proof (intro allI impI)
    fix n :: nat and r assume "json_cost (JBool b) \<le> n"
    then obtain m where "n = Suc m" by (cases n) auto
    then show "parse_value n (json_text f (JBool b) @ r) = Some (JBool b, r)"
      by (cases b) (simp_all add: skip_ws_def is_json_ws_def char_code_def parse_scalar_def parse_word_def)
  qed
next
  case (JNum x)
  then obtain q where q: "x = Num q" "is_integer_rat q" "\<bar>q\<bar> < 10 ^ 21" by (auto split: js_num.splits)
  show ?case
  proof (intro allI impI)
    fix n :: nat and r assume "json_cost (JNum x) \<le> n" and r: "num_stop r"
    then obtain m where m: "n = Suc m" by (cases n) auto
    obtain c s where "int_str \<lfloor>q\<rfloor> @ r = c # s" "\<not> is_json_ws c" "c \<noteq> CHR ''[''" "c \<noteq> CHR ''{''"
      using parse_scalar_number(2) [OF r] by blast
    then show "parse_value n (json_text f (JNum x) @ r) = Some (JNum x, r)"
      using m q parse_scalar_number(1) [OF r, of "\<lfloor>q\<rfloor>"]
      by (simp add: num_text_def skip_ws_id is_integer_rat_def)
  qed
next
  case (JStr s)
  show ?case
  proof (intro allI impI)
    fix n :: nat and r assume "json_cost (JStr s) \<le> n"
    then obtain m where "n = Suc m" by (cases n) auto
    then show "parse_value n (json_text f (JStr s) @ r) = Some (JStr s, r)"
      by (simp add: json_string_def skip_ws_id parse_scalar_def parse_chars_printed)
  qed
next
  case (JArr xs)
  show ?case
  proof (intro allI impI)
    fix n :: nat and r assume cost: "json_cost (JArr xs) \<le> n"
    then obtain m where m: "n = Suc m" by (cases n) auto
    show "parse_value n (json_text f (JArr xs) @ r) = Some (JArr xs, r)"
    proof (cases xs)
      case Nil
      then show ?thesis using m by (simp add: skip_ws_id)
    next
      case (Cons y ys)
      have el: "parse_elems m (join_with '','' (map (json_text f) xs) @ CHR '']'' # r) = Some (xs, r)"
        using JArr cost m Cons by (intro parse_elems_printed) (auto simp: list_all_iff)
      obtain c s where "json_text f y = c # s" "\<not> is_json_ws c" "c \<noteq> CHR '']''"
        by (rule json_text_hd [of y f]) (use JArr.prems Cons in auto)
      then show ?thesis using el m Cons by (cases ys) (simp_all add: skip_ws_id)
    qed
  qed
next
  case (JObj ps)
  show ?case
  proof (intro allI impI)
    fix n :: nat and r assume cost: "json_cost (JObj ps) \<le> n"
    then obtain m where m: "n = Suc m" by (cases n) auto
    show "parse_value n (json_text f (JObj ps) @ r) = Some (JObj ps, r)"
    proof (cases ps)
      case Nil
      then show ?thesis using m by (simp add: skip_ws_id)
    next
      case (Cons p qs)
      have each: "parses_back f v" if "(k, v) \<in> set ps" for k v
        using JObj.IH [of "(k, v)" v] JObj.prems that by (force simp: list_all_iff)
      have "parse_members m [] (join_with '','' (map (\<lambda>(k, v). json_string k @ '':'' @ json_text f v) ps) @
          CHR ''}'' # r) = Some ([] @ ps, r)"
        using each JObj.prems cost m Cons by (intro parse_members_printed) simp_all
      then show ?thesis using m Cons
        by (cases p; cases qs) (auto simp: skip_ws_id json_string_def)
    qed
  qed
qed

lemma length_join: "ws \<noteq> [] \<Longrightarrow> length (join_with sep ws) + length sep = sum_list (map (\<lambda>w. length w + length sep) ws)"
  by (induction sep ws rule: join_with.induct) auto

lemma json_cost_le: "plain_json v \<Longrightarrow> json_cost v \<le> 2 * length (json_text f v)"
proof (induction v)
  case (JNum x)
  then show ?case by (auto simp: num_text_def int_str_def Suc_le_eq split: js_num.splits)
next
  case (JArr xs)
  show ?case
  proof (cases "xs = []")
    case False
    have "sum_list (map (\<lambda>x. Suc (json_cost x)) xs) \<le>
        sum_list (map (\<lambda>x. 2 * (length (json_text f x) + 1)) xs)"
      using JArr by (intro sum_list_mono) (fastforce simp: list_all_iff)
    also have "\<dots> = 2 * (length (join_with '','' (map (json_text f) xs)) + 1)"
      using length_join [of "map (json_text f) xs" "'',''"] False
      by (simp add: sum_list_const_mult [symmetric] o_def case_prod_unfold)
    finally show ?thesis by simp
  qed simp
next
  case (JObj ps)
  let ?g = "\<lambda>(k, v). json_string k @ '':'' @ json_text f v"
  show ?case
  proof (cases "ps = []")
    case False
    have "sum_list (map (\<lambda>(k, v). Suc (json_cost v)) ps) \<le>
        sum_list (map (\<lambda>p. 2 * (length (?g p) + 1)) ps)"
      using JObj by (intro sum_list_mono) (fastforce simp: list_all_iff)
    also have "\<dots> = 2 * (length (join_with '','' (map ?g ps)) + 1)"
      using length_join [of "map ?g ps" "'',''"] False
      by (simp add: sum_list_const_mult [symmetric] o_def case_prod_unfold)
    finally show ?thesis by simp
  qed simp
qed (auto simp: json_string_def)

lemma json_parse_text:
  assumes "plain_json v"
  shows "json_parse (json_text f v) = Some v"
proof -
  have "json_cost v \<le> 2 * length (json_text f v) + 2" using json_cost_le [OF assms, of f] by simp
  then have "parse_value (2 * length (json_text f v) + 2) (json_text f v @ []) = Some (v, [])"
    using parse_value_printed [OF assms] num_stop_punct(1) by blast
  then show ?thesis by (simp add: json_parse_def skip_ws_def)
qed

end
