(* ===== verification/Session.thy ===== *)
theory Session imports JsonText Contracts "HOL-Library.Word" begin

unbundle bit_operations_syntax

text \<open>
  The console's session boundary (\<open>src/console/session.ts\<close>): cookies, the same-origin rule, the
  HMAC session tokens with their base64url and UTF-8 coding, the guard of a console request and
  the per-address login limiter. HMAC-SHA256 is the argument \<open>hmac\<close>, \<open>new URL\<close> the argument
  \<open>url_host\<close>; the clock and the random token id are arguments. Password hashing (Argon2id) is the
  runtime's.
\<close>

subsection \<open>Requests and cookies\<close>

record http_request =
  rq_method :: string
  rq_url :: string
  rq_headers :: headers       \<comment> \<open>keys in lower case\<close>

definition SESSION_COOKIE_NAME :: string where
  "SESSION_COOKIE_NAME = ''wokroute_console''"

definition SAFE_METHODS :: "string list" where
  "SAFE_METHODS = [''GET'', ''HEAD'', ''OPTIONS'']"

text \<open>\<open>part.indexOf("=")\<close> splits a cookie at its first equals sign.\<close>

fun read_cookie_parts :: "string list \<Rightarrow> string \<Rightarrow> string option" where
  "read_cookie_parts [] name = None"
| "read_cookie_parts (part # parts) name =
     (if CHR ''='' \<notin> set part then read_cookie_parts parts name
      else if trim (takeWhile (\<lambda>c. c \<noteq> CHR ''='') part) = name
      then Some (trim (tl (dropWhile (\<lambda>c. c \<noteq> CHR ''='') part)))
      else read_cookie_parts parts name)"

definition read_cookie :: "http_request \<Rightarrow> string \<Rightarrow> string option" where
  "read_cookie r name =
     (case jm_get (rq_headers r) ''cookie'' of
        None \<Rightarrow> None
      | Some header \<Rightarrow> read_cookie_parts (split_on (CHR '';'') header) name)"

definition client_ip :: "http_request \<Rightarrow> bool \<Rightarrow> string" where
  "client_ip r trust_proxy =
     (let local = ''127.0.0.1'';
          real = (case jm_get (rq_headers r) ''x-real-ip'' of
                    Some v \<Rightarrow> if 0 < length v then v else local
                  | None \<Rightarrow> local)
      in if trust_proxy
         then (case jm_get (rq_headers r) ''x-forwarded-for'' of
                 Some v \<Rightarrow> if 0 < length v then trim (hd (split_on (CHR '','') v)) else real
               | None \<Rightarrow> real)
         else local)"

definition is_https_request :: "http_request \<Rightarrow> bool \<Rightarrow> bool" where
  "is_https_request r trust_proxy =
     ((trust_proxy \<and> jm_get (rq_headers r) ''x-forwarded-proto'' = Some ''https'') \<or>
      prefix ''https://'' (rq_url r))"

text \<open>\<open>url_host\<close> is \<open>new URL(text).host\<close>; it throws on \<open>None\<close>, which the code answers with false.\<close>

definition is_same_origin_request :: "(string \<Rightarrow> string option) \<Rightarrow> http_request \<Rightarrow> bool \<Rightarrow> bool" where
  "is_same_origin_request url_host r trust_proxy =
     (case jm_get (rq_headers r) ''origin'' of
        None \<Rightarrow> True
      | Some origin \<Rightarrow>
          (case url_host origin of
             None \<Rightarrow> False
           | Some origin_host \<Rightarrow>
               (case (if trust_proxy then jm_get (rq_headers r) ''x-forwarded-host'' else None) of
                  Some host \<Rightarrow> origin_host = host
                | None \<Rightarrow>
                    (case jm_get (rq_headers r) ''host'' of
                       Some host \<Rightarrow> origin_host = host
                     | None \<Rightarrow> url_host (rq_url r) = Some origin_host))))"

definition requires_json_content_type :: "http_request \<Rightarrow> bool" where
  "requires_json_content_type r \<longleftrightarrow>
     rq_method r \<notin> set SAFE_METHODS \<and>
     \<not> str_includes (or_empty (jm_get (rq_headers r) ''content-type'')) ''application/json''"

definition build_session_cookie :: "string \<Rightarrow> int \<Rightarrow> bool \<Rightarrow> string" where
  "build_session_cookie token max_age_sec secure =
     join_with ''; ''
       ([SESSION_COOKIE_NAME @ ''='' @ token, ''Path=/console'', ''HttpOnly'', ''SameSite=Lax'',
         ''Max-Age='' @ int_str max_age_sec] @ (if secure then [''Secure''] else []))"

definition build_session_clear_cookie :: string where
  "build_session_clear_cookie =
     SESSION_COOKIE_NAME @ ''=; Path=/console; HttpOnly; SameSite=Lax; Max-Age=0''"

subsection \<open>Base64url and UTF-8\<close>

definition b64_alphabet :: string where
  "b64_alphabet = ''ABCDEFGHIJKLMNOPQRSTUVWXYZabcdefghijklmnopqrstuvwxyz0123456789+/''"

definition b64_char :: "nat \<Rightarrow> char" where
  "b64_char k = b64_alphabet ! k"

definition b64_val :: "char \<Rightarrow> nat option" where
  "b64_val c = (let k = char_code c in
     if 65 \<le> k \<and> k \<le> 90 then Some (k - 65)
     else if 97 \<le> k \<and> k \<le> 122 then Some (k - 71)
     else if 48 \<le> k \<and> k \<le> 57 then Some (k + 4)
     else if k = 43 then Some 62
     else if k = 47 then Some 63
     else None)"

text \<open>\<open>btoa\<close> on the bytes of a binary string.\<close>

fun btoa :: "string \<Rightarrow> string" where
  "btoa [] = []"
| "btoa [a] =
     (let x = char_code a in [b64_char (x div 4), b64_char (x mod 4 * 16), CHR ''='', CHR ''='' ])"
| "btoa [a, b] =
     (let x = char_code a; y = char_code b
      in [b64_char (x div 4), b64_char (x mod 4 * 16 + y div 16), b64_char (y mod 16 * 4), CHR ''='' ])"
| "btoa (a # b # c # cs) =
     (let x = char_code a; y = char_code b; z = char_code c
      in b64_char (x div 4) # b64_char (x mod 4 * 16 + y div 16) #
         b64_char (y mod 16 * 4 + z div 64) # b64_char (z mod 64) # btoa cs)"

text \<open>
  \<open>atob\<close>: blanks are dropped, up to two padding characters end a text of a length divisible by
  four, a remainder of one sextet or a foreign character is an error, trailing bits are dropped.
\<close>

fun sextets_to_bytes :: "nat list \<Rightarrow> string" where
  "sextets_to_bytes (p # q # r # s # ks) =
     char_of (p * 4 + q div 16) # char_of (q mod 16 * 16 + r div 4) # char_of (r mod 4 * 64 + s) #
     sextets_to_bytes ks"
| "sextets_to_bytes [p, q, r] = [char_of (p * 4 + q div 16), char_of (q mod 16 * 16 + r div 4)]"
| "sextets_to_bytes [p, q] = [char_of (p * 4 + q div 16)]"
| "sextets_to_bytes _ = []"

fun those_vals :: "nat option list \<Rightarrow> nat list option" where
  "those_vals [] = Some []"
| "those_vals (None # xs) = None"
| "those_vals (Some x # xs) = map_option (Cons x) (those_vals xs)"

definition drop_pad :: "string \<Rightarrow> string" where
  "drop_pad s =
     (if length s mod 4 = 0 then
        (if suffix ''=='' s then take (length s - 2) s
         else if suffix ''='' s then take (length s - 1) s else s)
      else s)"

definition atob :: "string \<Rightarrow> string option" where
  "atob s =
     (let body = drop_pad (filter (\<lambda>c. char_code c \<notin> {9, 10, 12, 13, 32}) s)
      in if length body mod 4 = 1 then None
         else map_option sextets_to_bytes (those_vals (map b64_val body)))"

definition replace_char :: "char \<Rightarrow> char \<Rightarrow> string \<Rightarrow> string" where
  "replace_char a b s = map (\<lambda>c. if c = a then b else c) s"

definition byte_char :: "8 word \<Rightarrow> char" where
  "byte_char w = char_of (unat w)"

definition char_byte :: "char \<Rightarrow> 8 word" where
  "char_byte c = of_nat (char_code c)"

definition base64url_encode :: "8 word list \<Rightarrow> string" where
  "base64url_encode data =
     (let text = replace_char (CHR ''/'') (CHR ''_'') (replace_char (CHR ''+'') (CHR ''-'') (btoa (map byte_char data)))
      in rev (dropWhile (\<lambda>c. c = CHR ''='') (rev text)))"

definition base64url_decode :: "string \<Rightarrow> 8 word list option" where
  "base64url_decode inp =
     (let b64 = replace_char (CHR ''_'') (CHR ''/'') (replace_char (CHR ''-'') (CHR ''+'') inp);
          padded = b64 @ replicate ((4 - length b64 mod 4) mod 4) (CHR ''='')
      in map_option (map char_byte) (atob padded))"

text \<open>\<open>TextEncoder\<close> and \<open>TextDecoder\<close>; what is not Latin-1 decodes to question marks.\<close>

fun utf8_encode :: "string \<Rightarrow> 8 word list" where
  "utf8_encode [] = []"
| "utf8_encode (c # s) =
     (let k = char_code c
      in if k < 128 then of_nat k # utf8_encode s
         else of_nat (192 + k div 64) # of_nat (128 + k mod 64) # utf8_encode s)"

fun utf8_decode_from :: "nat list \<Rightarrow> string" where
  "utf8_decode_from [] = []"
| "utf8_decode_from [b] = [if b < 128 then char_of b else CHR ''?'']"
| "utf8_decode_from (b # d # bs) =
     (if b < 128 then char_of b # utf8_decode_from (d # bs)
      else if 194 \<le> b \<and> b \<le> 195 \<and> 128 \<le> d \<and> d < 192
      then char_of ((b - 192) * 64 + (d - 128)) # utf8_decode_from bs
      else CHR ''?'' # utf8_decode_from (d # bs))"

definition utf8_decode :: "8 word list \<Rightarrow> string" where
  "utf8_decode bs =
     (let ns = map unat bs
      in utf8_decode_from (if take 3 ns = [239, 187, 191] then drop 3 ns else ns))"

subsection \<open>Session tokens\<close>

record session_payload =                  \<comment> \<open>the role is always admin\<close>
  sp_pv :: rat
  sp_jti :: string
  sp_iat :: rat
  sp_exp :: rat

type_synonym hmac = "8 word list \<Rightarrow> 8 word list \<Rightarrow> 8 word list"

definition token_header :: json where
  "token_header = JObj [(''alg'', JStr ''HS256''), (''typ'', JStr ''JWT'')]"

definition payload_json :: "session_payload \<Rightarrow> json" where
  "payload_json p = JObj
     [(''role'', JStr ''admin''), (''pv'', JNum (Num (sp_pv p))), (''jti'', JStr (sp_jti p)),
      (''iat'', JNum (Num (sp_iat p))), (''exp'', JNum (Num (sp_exp p)))]"

definition sign_session_token ::
  "hmac \<Rightarrow> (rat \<Rightarrow> string) \<Rightarrow> string \<Rightarrow> rat \<Rightarrow> rat \<Rightarrow> rat \<Rightarrow> string \<Rightarrow> string" where
  "sign_session_token hmac show_frac secret pv ttl_seconds now_seconds uuid =
     (let payload = \<lparr>sp_pv = pv, sp_jti = uuid, sp_iat = now_seconds, sp_exp = now_seconds + ttl_seconds\<rparr>;
          data = base64url_encode (utf8_encode (json_text show_frac token_header)) @ ''.'' @
                 base64url_encode (utf8_encode (json_text show_frac (payload_json payload)));
          signature = hmac (utf8_encode secret) (utf8_encode data)
      in data @ ''.'' @ base64url_encode signature)"

datatype token_failure = TfMalformed | TfSignature | TfExpired | TfStalePv

text \<open>The loop that accumulates the differing bits of the two signatures.\<close>

definition signature_diff :: "8 word list \<Rightarrow> 8 word list \<Rightarrow> 8 word" where
  "signature_diff expected given = foldl (\<lambda>diff (e, g). diff OR (e XOR g)) 0 (zip expected given)"

definition payload_of_json :: "json \<Rightarrow> session_payload option" where
  "payload_of_json parsed =
     (case parsed of
        JObj value \<Rightarrow>
          if js_field value ''role'' \<noteq> Some (JStr ''admin'') then None
          else (case (js_field value ''pv'', js_field value ''exp'') of
                  (Some (JNum (Num pv)), Some (JNum (Num expiry))) \<Rightarrow>
                    Some \<lparr>sp_pv = pv,
                      sp_jti = (case js_field value ''jti'' of Some (JStr j) \<Rightarrow> j | _ \<Rightarrow> []),
                      sp_iat = (case js_field value ''iat'' of Some (JNum (Num i)) \<Rightarrow> i | _ \<Rightarrow> 0),
                      sp_exp = expiry\<rparr>
                | _ \<Rightarrow> None)
      | _ \<Rightarrow> None)"

definition verify_session_token ::
  "hmac \<Rightarrow> string option \<Rightarrow> string \<Rightarrow> rat \<Rightarrow> rat \<Rightarrow> token_failure + session_payload" where
  "verify_session_token hmac token secret expected_pv now_seconds =
     (case token of
        None \<Rightarrow> Inl TfMalformed
      | Some t \<Rightarrow>
          if t = [] then Inl TfMalformed
          else case split_on (CHR ''.'') t of
            [hd_part, body, sig] \<Rightarrow>
              (let expected = hmac (utf8_encode secret) (utf8_encode (hd_part @ ''.'' @ body))
               in case base64url_decode sig of
                    None \<Rightarrow> Inl TfMalformed
                  | Some given \<Rightarrow>
                      if length given \<noteq> length expected then Inl TfSignature
                      else if signature_diff expected given \<noteq> 0 then Inl TfSignature
                      else case base64url_decode body of
                        None \<Rightarrow> Inl TfMalformed
                      | Some bytes \<Rightarrow>
                          (case json_parse (utf8_decode bytes) of
                             None \<Rightarrow> Inl TfMalformed
                           | Some parsed \<Rightarrow>
                               (case payload_of_json parsed of
                                  None \<Rightarrow> Inl TfMalformed
                                | Some payload \<Rightarrow>
                                    if sp_exp payload \<le> now_seconds then Inl TfExpired
                                    else if sp_pv payload \<noteq> expected_pv then Inl TfStalePv
                                    else Inr payload)))
          | _ \<Rightarrow> Inl TfMalformed)"

record guard_denial =
  gd_status :: int
  gd_code :: string
  gd_message :: string

definition guard_console_request ::
  "hmac \<Rightarrow> (string \<Rightarrow> string option) \<Rightarrow> string \<Rightarrow> rat \<Rightarrow> bool \<Rightarrow> rat \<Rightarrow> http_request \<Rightarrow>
   guard_denial + session_payload" where
  "guard_console_request hmac url_host jwt_secret password_version trust_proxy now_seconds r =
     (let mutating = rq_method r \<notin> set SAFE_METHODS;
          forbidden = (\<lambda>m. Inl \<lparr>gd_status = 403, gd_code = ''forbidden'', gd_message = m\<rparr>);
          unauthorized = (\<lambda>m. Inl \<lparr>gd_status = 401, gd_code = ''unauthorized'', gd_message = m\<rparr>)
      in if mutating \<and> requires_json_content_type r
         then forbidden ''mutating console requests require Content-Type: application/json''
         else if mutating \<and> \<not> is_same_origin_request url_host r trust_proxy
         then forbidden ''cross-origin console request rejected''
         else case verify_session_token hmac (read_cookie r SESSION_COOKIE_NAME) jwt_secret password_version now_seconds of
           Inl TfExpired \<Rightarrow> unauthorized ''session expired''
         | Inl _ \<Rightarrow> unauthorized ''invalid session''
         | Inr payload \<Rightarrow> Inr payload)"

subsection \<open>The login limiter\<close>

definition LOGIN_MAX_FAILURES :: nat where "LOGIN_MAX_FAILURES = 5"
definition LOGIN_WINDOW_MS :: int where "LOGIN_WINDOW_MS = 10 * 60000"
definition LOGIN_LOCK_MS :: int where "LOGIN_LOCK_MS = 15 * 60000"

text \<open>The configured cap, or one between 5,000 and 200,000 from the resident set size.\<close>

definition resolve_login_max_tracked_ips :: "int \<Rightarrow> int option \<Rightarrow> int" where
  "resolve_login_max_tracked_ips configured rss =
     (if 0 < configured then configured
      else let rss_bytes = (case rss of Some b \<Rightarrow> b | None \<Rightarrow> 256 * 1024 * 1024)
           in min (max (rss_bytes div 2048) 5000) 200000)"

record login_entry =
  le_failures :: nat
  le_window_start :: int
  le_locked_until :: "int option"

type_synonym login_limiter = "(string, login_entry) js_map"

record login_answer =
  la_allowed :: bool
  la_retry_after_sec :: "int option"

definition login_allow :: login_answer where
  "login_allow = \<lparr>la_allowed = True, la_retry_after_sec = None\<rparr>"

text \<open>\<open>entry\<close>: the live entry of an address, a fresh one when its window is over.\<close>

definition login_entry_of :: "int \<Rightarrow> string \<Rightarrow> int \<Rightarrow> login_limiter \<Rightarrow> login_limiter \<times> login_entry" where
  "login_entry_of max_tracked ip now_ms m =
     (let fresh = \<lparr>le_failures = 0, le_window_start = now_ms, le_locked_until = None\<rparr>;
          renewed = (jm_set ip fresh (if max_tracked \<le> int (length m) then jm_evict_oldest m else m), fresh)
      in case jm_get m ip of
           None \<Rightarrow> renewed
         | Some e \<Rightarrow> if le_window_start e + LOGIN_WINDOW_MS \<le> now_ms then renewed else (m, e))"

definition login_check :: "bool \<Rightarrow> int \<Rightarrow> string \<Rightarrow> int \<Rightarrow> login_limiter \<Rightarrow> login_limiter \<times> login_answer" where
  "login_check is_dev max_tracked ip now_ms m =
     (if is_dev then (m, login_allow)
      else let (m', e) = login_entry_of max_tracked ip now_ms m
           in case le_locked_until e of
                None \<Rightarrow> (m', login_allow)
              | Some until \<Rightarrow>
                  let remaining = until - now_ms
                  in if 0 < remaining
                     then (m', \<lparr>la_allowed = False, la_retry_after_sec = Some \<lceil>of_int remaining / (1000 :: rat)\<rceil>\<rparr>)
                     else (jm_set ip (e\<lparr>le_locked_until := None\<rparr>) m', login_allow))"

definition login_record_failure ::
  "bool \<Rightarrow> int \<Rightarrow> string \<Rightarrow> int \<Rightarrow> login_limiter \<Rightarrow> login_limiter \<times> login_answer" where
  "login_record_failure is_dev max_tracked ip now_ms m =
     (if is_dev then (m, login_allow)
      else let (m', e) = login_entry_of max_tracked ip now_ms m;
               failures = Suc (le_failures e)
           in if LOGIN_MAX_FAILURES \<le> failures
              then (jm_set ip (e\<lparr>le_failures := 0, le_locked_until := Some (now_ms + LOGIN_LOCK_MS)\<rparr>) m',
                    \<lparr>la_allowed = False, la_retry_after_sec = Some (LOGIN_LOCK_MS div 1000)\<rparr>)
              else (jm_set ip (e\<lparr>le_failures := failures\<rparr>) m', login_allow))"

definition login_record_success :: "string \<Rightarrow> login_limiter \<Rightarrow> login_limiter" where
  "login_record_success ip m = jm_delete ip m"

subsection \<open>Base64url and UTF-8 decode what they encode\<close>

fun sextets :: "string \<Rightarrow> nat list" where
  "sextets [] = []"
| "sextets [a] = (let x = char_code a in [x div 4, x mod 4 * 16])"
| "sextets [a, b] =
     (let x = char_code a; y = char_code b in [x div 4, x mod 4 * 16 + y div 16, y mod 16 * 4])"
| "sextets (a # b # c # cs) =
     (let x = char_code a; y = char_code b; z = char_code c
      in [x div 4, x mod 4 * 16 + y div 16, y mod 16 * 4 + z div 64, z mod 64] @ sextets cs)"

definition pad_length :: "string \<Rightarrow> nat" where
  "pad_length s = (3 - length s mod 3) mod 3"

lemma pad_length_simps [simp]:
  "pad_length [] = 0" "pad_length [a] = 2" "pad_length [a, b] = 1"
  "pad_length (a # b # c # cs) = pad_length cs"
  by (simp_all add: pad_length_def)

lemma btoa_sextets: "btoa s = map b64_char (sextets s) @ replicate (pad_length s) (CHR ''='')"
  by (induction s rule: btoa.induct) (simp_all add: Let_def numeral_2_eq_2)

lemma sextet_bounds:
  fixes x y z :: nat
  assumes "x < 256" "y < 256"
  shows "x div 4 < 64" "x mod 4 * 16 + y div 16 < 64" "x mod 4 * 16 < 64" "x mod 16 * 4 + y div 64 < 64"
    "x mod 16 * 4 < 64" "x mod 64 < 64"
proof -
  have "x mod 4 < 4" "x mod 16 < 16" "x mod 64 < 64" by simp_all
  moreover have "x div 4 < 64" "y div 16 < 16" "y div 64 < 4" using assms by auto
  ultimately show "x div 4 < 64" "x mod 4 * 16 + y div 16 < 64" "x mod 4 * 16 < 64" "x mod 16 * 4 + y div 64 < 64"
    "x mod 16 * 4 < 64" "x mod 64 < 64" by linarith+
qed

lemma sextets_less: "k \<in> set (sextets s) \<Longrightarrow> k < 64"
proof (induction s rule: sextets.induct)
  case (4 a b c cs)
  show ?case using 4 sextet_bounds [OF char_code_less [of a] char_code_less [of b]]
      sextet_bounds [OF char_code_less [of b] char_code_less [of c]]
      sextet_bounds [OF char_code_less [of c] char_code_less [of c]]
    by (auto simp only: sextets.simps Let_def set_append set_simps)
next
  case (2 a)
  then show ?case using sextet_bounds [OF char_code_less [of a] char_code_less [of a]]
    by (auto simp only: sextets.simps Let_def set_simps)
next
  case (3 a b)
  then show ?case using sextet_bounds [OF char_code_less [of a] char_code_less [of b]]
      sextet_bounds [OF char_code_less [of b] char_code_less [of b]]
    by (auto simp only: sextets.simps Let_def set_simps)
qed simp

lemma sextet_join:
  fixes x y z :: nat
  assumes "y < 256" "z < 256"
  shows "x div 4 * 4 + (x mod 4 * 16 + y div 16) div 16 = x" "x div 4 * 4 + x mod 4 * 16 div 16 = x"
    "(x mod 4 * 16 + y div 16) mod 16 * 16 + (y mod 16 * 4 + z div 64) div 4 = y"
    "(x mod 4 * 16 + y div 16) mod 16 * 16 + y mod 16 * 4 div 4 = y"
    "(y mod 16 * 4 + z div 64) mod 4 * 64 + z mod 64 = z"
proof -
  have "y div 16 < 16" "z div 64 < 4" using assms by auto
  then have "(x mod 4 * 16 + y div 16) div 16 = x mod 4" "(x mod 4 * 16 + y div 16) mod 16 = y div 16"
    "(y mod 16 * 4 + z div 64) div 4 = y mod 16" "(y mod 16 * 4 + z div 64) mod 4 = z div 64"
    by simp_all
  then show "x div 4 * 4 + (x mod 4 * 16 + y div 16) div 16 = x" "x div 4 * 4 + x mod 4 * 16 div 16 = x"
    "(x mod 4 * 16 + y div 16) mod 16 * 16 + (y mod 16 * 4 + z div 64) div 4 = y"
    "(x mod 4 * 16 + y div 16) mod 16 * 16 + y mod 16 * 4 div 4 = y"
    "(y mod 16 * 4 + z div 64) mod 4 * 64 + z mod 64 = z"
    by simp_all
qed

lemma sextets_back: "sextets_to_bytes (sextets s) = s"
proof (induction s rule: sextets.induct)
  case (4 a b c cs)
  show ?case
    by (simp only: sextets.simps Let_def append.simps sextets_to_bytes.simps
        sextet_join [OF char_code_less char_code_less] char_of_char_code "4.IH" [OF refl refl refl])
next
  case (3 a b)
  show ?case
    by (simp only: sextets.simps Let_def append.simps sextets_to_bytes.simps
        sextet_join [OF char_code_less char_code_less] char_of_char_code)
next
  case (2 a)
  show ?case
    by (simp only: sextets.simps Let_def append.simps sextets_to_bytes.simps
        sextet_join [OF char_code_less char_code_less] char_of_char_code)
qed simp

lemma sextets_pad:
  "(4 - length (sextets s) mod 4) mod 4 = pad_length s \<and> length (sextets s) mod 4 \<noteq> 1 \<and>
   (length (sextets s) + pad_length s) mod 4 = 0 \<and> pad_length s \<le> 2"
proof (induction s rule: sextets.induct)
  case (4 a b c cs)
  then show ?case by (simp add: Let_def)
qed (simp_all add: Let_def)

lemma b64_table: "list_all (\<lambda>(k, c). b64_val c = Some k \<and> c \<notin> set ''=-_.'' \<and> char_code c \<notin> {9, 10, 12, 13, 32})
    (enumerate 0 b64_alphabet)"
  by (simp add: b64_alphabet_def b64_val_def char_code_def Let_def)

lemma b64_char_props:
  assumes "k < 64"
  shows "b64_val (b64_char k) = Some k" "b64_char k \<noteq> CHR ''=''" "b64_char k \<noteq> CHR ''-''"
    "b64_char k \<noteq> CHR ''_''" "b64_char k \<noteq> CHR ''.''" "char_code (b64_char k) \<notin> {9, 10, 12, 13, 32}"
proof -
  have len: "length b64_alphabet = 64" by (simp add: b64_alphabet_def)
  then have "(k, b64_char k) \<in> set (enumerate 0 b64_alphabet)"
    using assms by (simp add: b64_char_def in_set_enumerate_eq)
  then have all: "b64_val (b64_char k) = Some k \<and> b64_char k \<notin> set ''=-_.'' \<and>
      char_code (b64_char k) \<notin> {9, 10, 12, 13, 32}"
    using b64_table unfolding list_all_iff by blast
  then show "b64_val (b64_char k) = Some k" "char_code (b64_char k) \<notin> {9, 10, 12, 13, 32}" by blast+
  show "b64_char k \<noteq> CHR ''=''" "b64_char k \<noteq> CHR ''-''" "b64_char k \<noteq> CHR ''_''" "b64_char k \<noteq> CHR ''.''"
    using all by auto
qed

lemma char_byte_char [simp]: "char_byte (byte_char w) = w"
  using unsigned_less [of w, where ?'a = nat] by (simp add: char_byte_def byte_char_def char_code_def)

text \<open>A sextet in the URL-safe alphabet.\<close>

definition url_char :: "nat \<Rightarrow> char" where
  "url_char k = (if b64_char k = CHR ''+'' then CHR ''-'' else if b64_char k = CHR ''/'' then CHR ''_'' else b64_char k)"

lemma url_char_props: "k < 64 \<Longrightarrow> url_char k \<noteq> CHR ''='' \<and> url_char k \<noteq> CHR ''.''"
  using b64_char_props [of k] by (simp add: url_char_def)

lemma dropWhile_replicate: "dropWhile (\<lambda>c. c = a) (replicate n a @ xs) = dropWhile (\<lambda>c. c = a) xs"
  by (induction n) auto

lemma base64url_encode_sextets: "base64url_encode bs = map url_char (sextets (map byte_char bs))"
proof -
  let ?ks = "sextets (map byte_char bs)"
  have less: "\<forall>k \<in> set ?ks. k < 64" using sextets_less by blast
  have "replace_char (CHR ''/'') (CHR ''_'') (replace_char (CHR ''+'') (CHR ''-'') (btoa (map byte_char bs))) =
      map url_char ?ks @ replicate (pad_length (map byte_char bs)) (CHR ''='')"
    by (simp add: btoa_sextets replace_char_def url_char_def)
  moreover have "dropWhile (\<lambda>c. c = CHR ''='') (rev (map url_char ?ks)) = rev (map url_char ?ks)"
  proof (cases "rev ?ks")
    case (Cons k ks)
    then have "k < 64" using less by (metis list.set_intros(1) set_rev)
    then show ?thesis using Cons url_char_props [of k] by (simp add: rev_map)
  qed simp
  ultimately show ?thesis by (simp add: base64url_encode_def dropWhile_replicate)
qed

lemma those_vals_chars: "list_all (\<lambda>k. k < 64) ks \<Longrightarrow> those_vals (map b64_val (map b64_char ks)) = Some ks"
  by (induction ks) (simp_all add: b64_char_props)

lemma drop_pad_padded:
  assumes "list_all (\<lambda>k. k < 64) ks" and "(length ks + p) mod 4 = 0" and "p \<le> 2"
  shows "drop_pad (map b64_char ks @ replicate p (CHR ''='')) = map b64_char ks"
proof -
  note len = assms(2)
  have last: "ks \<noteq> [] \<Longrightarrow> b64_char (last ks) \<noteq> CHR ''=''"
    using assms(1) by (metis b64_char_props(2) last_in_set list_all_iff)
  consider "p = 0" | "p = 1" | "p = 2" using assms(3) by linarith
  then show ?thesis
  proof cases
    case 1
    have "\<not> suffix (w @ ''='') (map b64_char ks)" for w
      using last by (cases ks rule: rev_cases) (auto simp: suffix_def)
    from this [of "''=''"] this [of "[]"] show ?thesis using 1 by (simp add: drop_pad_def)
  next
    case 2
    then have "ks \<noteq> []" using len by auto
    then obtain us k where ks: "ks = us @ [k]" by (cases ks rule: rev_cases) auto
    have "\<not> suffix ''=='' (map b64_char ks @ ''='')"
      using last ks by (auto simp: suffix_def)
    moreover have "suffix ''='' (map b64_char ks @ ''='')" by (simp add: suffix_def)
    ultimately show ?thesis using 2 len by (simp add: drop_pad_def)
  next
    case 3
    have "suffix ''=='' (map b64_char ks @ ''=='')" by (simp add: suffix_def)
    then show ?thesis using 3 len by (simp add: drop_pad_def numeral_2_eq_2)
  qed
qed

lemma base64url_decode_encode: "base64url_decode (base64url_encode bs) = Some bs"
proof -
  let ?s = "map byte_char bs" and ?ks = "sextets (map byte_char bs)"
  have less: "list_all (\<lambda>k. k < 64) ?ks" using sextets_less by (auto simp: list_all_iff)
  have "replace_char (CHR ''_'') (CHR ''/'') (replace_char (CHR ''-'') (CHR ''+'') (map url_char ?ks)) = map b64_char ?ks"
    using less by (auto simp: replace_char_def url_char_def list_all_iff b64_char_props)
  moreover have "filter (\<lambda>c. char_code c \<notin> {9, 10, 12, 13, 32}) (map b64_char ?ks @ replicate p (CHR ''='')) =
      map b64_char ?ks @ replicate p (CHR ''='')" for p
    using less b64_char_props(6) by (auto simp: list_all_iff char_code_def intro!: filter_True)
  ultimately show ?thesis
    using drop_pad_padded [OF less, of "pad_length ?s"] sextets_pad [of ?s] those_vals_chars [OF less]
    by (simp add: base64url_decode_def base64url_encode_sextets atob_def Let_def sextets_back o_def)
qed

lemma base64url_no_dot: "CHR ''.'' \<notin> set (base64url_encode bs)"
proof
  assume "CHR ''.'' \<in> set (base64url_encode bs)"
  then obtain k where "k \<in> set (sextets (map byte_char bs))" "url_char k = CHR ''.''"
    by (auto simp: base64url_encode_sextets)
  then show False using url_char_props [of k] sextets_less [of k] by simp
qed

lemma unat_byte: "k < 256 \<Longrightarrow> unat (of_nat k :: 8 word) = k"
  by (simp add: unat_of_nat)

lemma map_unat_utf8: "map unat (utf8_encode s) =
    concat (map (\<lambda>c. let k = char_code c in if k < 128 then [k] else [192 + k div 64, 128 + k mod 64]) s)"
proof (induction s)
  case (Cons c s)
  have "char_code c < 256" by (rule char_code_less)
  then have "192 + char_code c div 64 < 256" "128 + char_code c mod 64 < 256"
    using mod_less_divisor [of 64 "char_code c"] by linarith+
  then show ?case using Cons char_code_less [of c] by (simp add: Let_def unat_byte del: of_nat_add)
qed simp

lemma utf8_decode_from_ascii: "b < 128 \<Longrightarrow> utf8_decode_from (b # bs) = char_of b # utf8_decode_from bs"
  by (cases bs) simp_all

lemma utf8_decode_bytes:
  "utf8_decode_from (concat (map (\<lambda>c. let k = char_code c in if k < 128 then [k] else [192 + k div 64, 128 + k mod 64]) s)) = s"
proof (induction s)
  case (Cons c s)
  let ?rest = "concat (map (\<lambda>c. let k = char_code c in if k < 128 then [k] else [192 + k div 64, 128 + k mod 64]) s)"
  show ?case
  proof (cases "char_code c < 128")
    case True
    then show ?thesis using Cons by (simp add: Let_def utf8_decode_from_ascii)
  next
    case False
    define k where "k = char_code c"
    have k: "128 \<le> k" "k < 256" using False char_code_less [of c] by (simp_all add: k_def)
    then have b: "194 \<le> 192 + k div 64" "192 + k div 64 \<le> 195" "128 + k mod 64 < 192" by auto
    have "(192 + k div 64 - 192) * 64 + (128 + k mod 64 - 128) = k" by simp
    then have "char_of ((192 + k div 64 - 192) * 64 + (128 + k mod 64 - 128)) = c" by (simp add: k_def)
    then show ?thesis using Cons False b by (simp add: Let_def k_def)
  qed
qed simp

lemma utf8_first: "s \<noteq> [] \<Longrightarrow> hd (map unat (utf8_encode s)) \<noteq> 239"
proof (cases s)
  case (Cons c t)
  have "char_code c < 256" by (rule char_code_less)
  then have "192 + char_code c div 64 < 196" by auto
  then have "hd (concat (map (\<lambda>c. let k = char_code c in if k < 128 then [k] else [192 + k div 64, 128 + k mod 64]) s)) \<noteq> 239"
    using Cons by (auto simp: Let_def)
  then show ?thesis by (simp only: map_unat_utf8 simp_thms)
qed simp

lemma utf8_decode_encode: "utf8_decode (utf8_encode s) = s"
proof -
  have "take 3 (map unat (utf8_encode s)) \<noteq> [239, 187, 191]"
  proof
    assume t: "take 3 (map unat (utf8_encode s)) = [239, 187, 191]"
    then have "hd (map unat (utf8_encode s)) = 239"
      by (metis hd_take list.sel(1) zero_less_numeral)
    moreover have "s \<noteq> []" using t by auto
    ultimately show False using utf8_first by blast
  qed
  then show ?thesis by (simp add: utf8_decode_def Let_def) (simp add: map_unat_utf8 utf8_decode_bytes)
qed

subsection \<open>What a token proves\<close>

lemma signature_diff_from:
  "length xs = length ys \<Longrightarrow>
   foldl (\<lambda>diff (e, g). diff OR (e XOR g)) d (zip xs ys) = 0 \<longleftrightarrow> d = 0 \<and> xs = (ys :: 8 word list)"
proof (induction xs ys arbitrary: d rule: list_induct2)
  case (Cons x xs y ys)
  have "d OR (x XOR y) = 0 \<longleftrightarrow> d = 0 \<and> x = y"
    by (metis or_eq_0_iff xor_self_eq xor.assoc xor.left_neutral xor.right_neutral)
  then show ?case using Cons by auto
qed simp

lemma signature_diff_zero: "length xs = length ys \<Longrightarrow> signature_diff xs ys = 0 \<longleftrightarrow> xs = ys"
  by (simp add: signature_diff_def signature_diff_from)

lemma verify_session_tokenD:
  assumes "verify_session_token hmac token secret expected_pv now_seconds = Inr p"
  shows "\<exists>h b s bytes. token = Some (h @ ''.'' @ b @ ''.'' @ s) \<and>
    base64url_decode s = Some (hmac (utf8_encode secret) (utf8_encode (h @ ''.'' @ b))) \<and>
    base64url_decode b = Some bytes \<and>
    (\<exists>v. json_parse (utf8_decode bytes) = Some v \<and> payload_of_json v = Some p) \<and>
    now_seconds < sp_exp p \<and> sp_pv p = expected_pv"
proof -
  obtain t where t: "token = Some t" using assms by (auto simp: verify_session_token_def split: option.splits)
  obtain h b s where parts: "split_on (CHR ''.'') t = [h, b, s]"
    using assms t by (auto simp: verify_session_token_def split: list.splits if_splits)
  then have "t = h @ ''.'' @ b @ ''.'' @ s" using join_split [of "CHR ''.''" t] by simp
  moreover have "base64url_decode s = Some (hmac (utf8_encode secret) (utf8_encode (h @ ''.'' @ b))) \<and>
      (\<exists>bytes. base64url_decode b = Some bytes \<and>
       (\<exists>v. json_parse (utf8_decode bytes) = Some v \<and> payload_of_json v = Some p)) \<and>
      now_seconds < sp_exp p \<and> sp_pv p = expected_pv"
    using assms t parts
    by (auto simp: verify_session_token_def Let_def signature_diff_zero split: option.splits if_splits)
  ultimately show ?thesis using t by blast
qed

definition plain_number :: "rat \<Rightarrow> bool" where
  "plain_number q \<longleftrightarrow> is_integer_rat q \<and> \<bar>q\<bar> < 10 ^ 21"

lemma payload_roundtrip: "payload_of_json (payload_json p) = Some p"
  by (simp add: payload_of_json_def payload_json_def js_field_def jm_get_def)

lemma sign_then_verify:
  assumes "plain_number pv" "plain_number now_s" "plain_number (now_s + ttl)" 
  shows "verify_session_token hmac (Some (sign_session_token hmac show_frac secret pv ttl now_s uuid)) secret epv later =
    (if now_s + ttl \<le> later then Inl TfExpired
     else if pv \<noteq> epv then Inl TfStalePv
     else Inr \<lparr>sp_pv = pv, sp_jti = uuid, sp_iat = now_s, sp_exp = now_s + ttl\<rparr>)"
proof -
  let ?p = "\<lparr>sp_pv = pv, sp_jti = uuid, sp_iat = now_s, sp_exp = now_s + ttl\<rparr>"
  have "plain_json (payload_json ?p)" using assms by (simp add: payload_json_def plain_number_def)
  then have parse: "json_parse (json_text show_frac (payload_json ?p)) = Some (payload_json ?p)"
    by (rule json_parse_text)
  show ?thesis
    using parse base64url_no_dot
    by (simp add: verify_session_token_def sign_session_token_def Let_def split_on_append split_on_no_sep
        base64url_decode_encode signature_diff_zero utf8_decode_encode payload_roundtrip)
qed

lemma guard_console_requestD:
  assumes "guard_console_request hmac url_host secret pv trust_proxy now_s r = Inr p"
  shows "verify_session_token hmac (read_cookie r SESSION_COOKIE_NAME) secret pv now_s = Inr p"
    and "rq_method r \<notin> set SAFE_METHODS \<Longrightarrow>
      str_includes (or_empty (jm_get (rq_headers r) ''content-type'')) ''application/json'' \<and>
      is_same_origin_request url_host r trust_proxy"
  using assms
  by (auto simp: guard_console_request_def Let_def requires_json_content_type_def
      split: if_splits sum.splits token_failure.splits)

subsection \<open>The limiter's bound and its lock\<close>

definition login_ok :: "int \<Rightarrow> login_limiter \<Rightarrow> bool" where
  "login_ok max_tracked m \<longleftrightarrow> jm_wf m \<and> int (length m) \<le> max_tracked"

lemma resolve_login_max_pos: "0 < resolve_login_max_tracked_ips configured rss"
  by (auto simp: resolve_login_max_tracked_ips_def Let_def)

lemma login_entry_of_get:
  "login_entry_of k ip now_ms m = (m', e) \<Longrightarrow> jm_get m' ip = Some e \<and> now_ms < le_window_start e + LOGIN_WINDOW_MS"
  by (auto simp: login_entry_of_def Let_def LOGIN_WINDOW_MS_def split: option.splits if_splits)

lemma login_ok_set: "login_ok k m \<Longrightarrow> jm_get m ip = Some e \<Longrightarrow> login_ok k (jm_set ip e' m)"
  by (auto simp: login_ok_def length_jm_set jm_has_def)

lemma login_ok_entry:
  assumes "login_ok k m" "0 < k" "login_entry_of k ip now_ms m = (m', e)"
  shows "login_ok k m'"
  using assms
  by (auto simp: login_entry_of_def login_ok_def Let_def length_jm_set length_jm_evict_oldest of_nat_diff
      split: option.splits if_splits)

lemma login_ok_check: "login_ok k m \<Longrightarrow> 0 < k \<Longrightarrow> login_ok k (fst (login_check dev k ip now_ms m))"
  by (auto simp: login_check_def Let_def split: prod.splits option.splits
      intro: login_ok_entry login_ok_set dest: login_entry_of_get)

lemma login_ok_failure: "login_ok k m \<Longrightarrow> 0 < k \<Longrightarrow> login_ok k (fst (login_record_failure dev k ip now_ms m))"
  by (auto simp: login_record_failure_def Let_def split: prod.splits
      intro: login_ok_entry login_ok_set dest: login_entry_of_get)

lemma login_ok_success: "login_ok k m \<Longrightarrow> login_ok k (login_record_success ip m)"
  using zle_int [THEN iffD2, OF length_jm_delete_le [of ip m]]
  by (simp add: login_ok_def login_record_success_def del: length_jm_delete_le)

lemma login_locked:
  assumes "login_record_failure False k ip t m = (m', a)" and "\<not> la_allowed a"
  shows "\<exists>e. jm_get m' ip = Some e \<and> le_locked_until e = Some (t + LOGIN_LOCK_MS) \<and>
    t < le_window_start e + LOGIN_WINDOW_MS"
  using assms
  by (auto simp: login_record_failure_def Let_def login_allow_def split: prod.splits if_splits
      dest: login_entry_of_get)

lemma login_check_locked:
  assumes "jm_get m ip = Some e" "le_locked_until e = Some (t + LOGIN_LOCK_MS)" "t' < t + LOGIN_LOCK_MS"
  shows "la_allowed (snd (login_check False k ip t' m)) \<longleftrightarrow> le_window_start e + LOGIN_WINDOW_MS \<le> t'"
  using assms by (auto simp: login_check_def login_entry_of_def Let_def login_allow_def)

lemma login_failure_counts:
  assumes "jm_get m ip = Some e" "now_ms < le_window_start e + LOGIN_WINDOW_MS"
  shows "login_record_failure False k ip now_ms m =
    (if 4 \<le> le_failures e
     then (jm_set ip (e\<lparr>le_failures := 0, le_locked_until := Some (now_ms + LOGIN_LOCK_MS)\<rparr>) m,
           \<lparr>la_allowed = False, la_retry_after_sec = Some 900\<rparr>)
     else (jm_set ip (e\<lparr>le_failures := Suc (le_failures e)\<rparr>) m, login_allow))"
  using assms
  by (auto simp: login_record_failure_def login_entry_of_def Let_def LOGIN_MAX_FAILURES_def LOGIN_LOCK_MS_def)

text \<open>Failed logins in a row, at the given times.\<close>

definition fail_logins :: "int \<Rightarrow> string \<Rightarrow> int list \<Rightarrow> login_limiter \<Rightarrow> login_limiter" where
  "fail_logins k ip ts m = fold (\<lambda>t m. fst (login_record_failure False k ip t m)) ts m"

lemma fail_logins_count:
  assumes "jm_get m ip = Some \<lparr>le_failures = n, le_window_start = t0, le_locked_until = None\<rparr>"
    and "n + length ts \<le> 4" and "\<forall>t \<in> set ts. t < t0 + LOGIN_WINDOW_MS"
  shows "jm_get (fail_logins k ip ts m) ip =
    Some \<lparr>le_failures = n + length ts, le_window_start = t0, le_locked_until = None\<rparr>"
  using assms
proof (induction ts arbitrary: m n)
  case Nil
  then show ?case by (simp add: fail_logins_def)
next
  case (Cons t ts)
  let ?m = "fst (login_record_failure False k ip t m)"
  have "jm_get ?m ip = Some \<lparr>le_failures = Suc n, le_window_start = t0, le_locked_until = None\<rparr>"
    using Cons.prems by (simp add: login_failure_counts [OF Cons.prems(1)])
  then have "jm_get (fail_logins k ip ts ?m) ip =
      Some \<lparr>le_failures = Suc n + length ts, le_window_start = t0, le_locked_until = None\<rparr>"
    by (rule Cons.IH) (use Cons.prems in auto)
  then show ?case by (simp add: fail_logins_def)
qed

lemma first_failure:
  assumes "jm_get m ip = None"
  shows "jm_get (fst (login_record_failure False k ip t0 m)) ip =
    Some \<lparr>le_failures = 1, le_window_start = t0, le_locked_until = None\<rparr>"
  using assms by (simp add: login_record_failure_def login_entry_of_def Let_def LOGIN_MAX_FAILURES_def)

lemma fifth_failure:
  assumes "jm_get m ip = None" and "length ts = 3" and "\<forall>t \<in> set ts. t < t0 + LOGIN_WINDOW_MS"
    and "t5 < t0 + LOGIN_WINDOW_MS"
  shows "jm_get (fail_logins k ip ((t0 # ts) @ [t5]) m) ip =
    Some \<lparr>le_failures = 0, le_window_start = t0, le_locked_until = Some (t5 + LOGIN_LOCK_MS)\<rparr>"
proof -
  let ?m = "fail_logins k ip ts (fst (login_record_failure False k ip t0 m))"
  have four: "jm_get ?m ip = Some \<lparr>le_failures = 4, le_window_start = t0, le_locked_until = None\<rparr>"
    using fail_logins_count [OF first_failure [OF assms(1), of k t0], of ts k] assms(2,3) by simp
  have "fail_logins k ip ((t0 # ts) @ [t5]) m = fst (login_record_failure False k ip t5 ?m)"
    by (simp add: fail_logins_def)
  then show ?thesis using login_failure_counts [OF four] assms(4) by simp
qed

datatype login_event = LeCheck string int | LeFailure string int | LeSuccess string

fun login_step :: "int \<Rightarrow> login_event \<Rightarrow> login_limiter \<Rightarrow> login_limiter" where
  "login_step k (LeCheck ip t) m = fst (login_check False k ip t m)"
| "login_step k (LeFailure ip t) m = fst (login_record_failure False k ip t m)"
| "login_step k (LeSuccess ip) m = login_record_success ip m"

subsection \<open>Properties\<close>

text \<open>
  C26: Session tokens round-trip: a token that was signed is accepted by the verifier with the same
  secret as long as it has not expired and the password version is unchanged, and gives back
  exactly the payload that was signed; after that it is refused as expired or as stale. This goes
  through the real JSON text, UTF-8 and base64url encodings, for any MAC.
\<close>

theorem session_token_roundtrip:
  assumes "plain_number pv" and "plain_number now_s" and "plain_number (now_s + ttl)"
  shows "verify_session_token hmac (Some (sign_session_token hmac show_frac secret pv ttl now_s uuid)) secret epv later =
    (if now_s + ttl \<le> later then Inl TfExpired
     else if pv \<noteq> epv then Inl TfStalePv
     else Inr \<lparr>sp_pv = pv, sp_jti = uuid, sp_iat = now_s, sp_exp = now_s + ttl\<rparr>)"
  using assms by (rule sign_then_verify)

theorem session_token_roundtrip_witness:
  "verify_session_token (\<lambda>k d. rev k @ d) (Some (sign_session_token (\<lambda>k d. rev k @ d) (\<lambda>q. []) ''s'' 3 60 100 ''u'')) ''s'' 3 159 =
     Inr \<lparr>sp_pv = 3, sp_jti = ''u'', sp_iat = 100, sp_exp = 160\<rparr>"
  using session_token_roundtrip [of 3 100 60 "\<lambda>k d. rev k @ d" "\<lambda>q. []" "''s''" "''u''" 3 159]
  by (simp add: plain_number_def is_integer_rat_def)

text \<open>
  C27: The console guard lets through only authentic requests: the session cookie is a token whose
  signature is the MAC of its header and body under the console's secret, and the session it returns is
  the one in that body, with the role of an administrator, the current password version and an expiry
  that is still to come. A request that changes state has a JSON content type and, when it has an
  Origin header, that origin's host is the console's own: the forwarded host behind a trusted proxy, else
  the Host header, else the host of the URL. A request without an Origin header is not refused for its
  origin.
\<close>

theorem guarded_request_is_authentic:
  assumes "guard_console_request hmac url_host secret pv trust_proxy now_s r = Inr p"
  shows "(\<exists>h b s bytes fs. read_cookie r SESSION_COOKIE_NAME = Some (h @ ''.'' @ b @ ''.'' @ s) \<and>
      base64url_decode s = Some (hmac (utf8_encode secret) (utf8_encode (h @ ''.'' @ b))) \<and>
      base64url_decode b = Some bytes \<and> json_parse (utf8_decode bytes) = Some (JObj fs) \<and>
      js_field fs ''role'' = Some (JStr ''admin'') \<and> js_field fs ''pv'' = Some (JNum (Num (sp_pv p))) \<and>
      js_field fs ''exp'' = Some (JNum (Num (sp_exp p))) \<and> payload_of_json (JObj fs) = Some p) \<and>
    now_s < sp_exp p \<and> sp_pv p = pv \<and>
    (rq_method r \<notin> set SAFE_METHODS \<longrightarrow>
      str_includes (or_empty (jm_get (rq_headers r) ''content-type'')) ''application/json'' \<and>
      (\<forall>origin. jm_get (rq_headers r) ''origin'' = Some origin \<longrightarrow>
        (\<exists>host. url_host origin = Some host \<and>
          Some host = (if trust_proxy \<and> jm_get (rq_headers r) ''x-forwarded-host'' \<noteq> None then jm_get (rq_headers r) ''x-forwarded-host''
            else if jm_get (rq_headers r) ''host'' \<noteq> None then jm_get (rq_headers r) ''host'' else url_host (rq_url r)))))"
proof -
  have fields: "js_field fs ''role'' = Some (JStr ''admin'') \<and> js_field fs ''pv'' = Some (JNum (Num (sp_pv p))) \<and>
      js_field fs ''exp'' = Some (JNum (Num (sp_exp p)))" if "payload_of_json (JObj fs) = Some p" for fs
    using that by (auto simp: payload_of_json_def split: if_splits option.splits json.splits js_num.splits)
  obtain h b s bytes v where token: "read_cookie r SESSION_COOKIE_NAME = Some (h @ ''.'' @ b @ ''.'' @ s)"
      "base64url_decode s = Some (hmac (utf8_encode secret) (utf8_encode (h @ ''.'' @ b)))"
      "base64url_decode b = Some bytes" "json_parse (utf8_decode bytes) = Some v" "payload_of_json v = Some p"
    and fresh: "now_s < sp_exp p" "sp_pv p = pv"
    using verify_session_tokenD [OF guard_console_requestD(1) [OF assms]] by blast
  obtain fs where "v = JObj fs" using token(5) by (cases v) (auto simp: payload_of_json_def)
  then have session: "\<exists>h b s bytes fs. read_cookie r SESSION_COOKIE_NAME = Some (h @ ''.'' @ b @ ''.'' @ s) \<and>
      base64url_decode s = Some (hmac (utf8_encode secret) (utf8_encode (h @ ''.'' @ b))) \<and>
      base64url_decode b = Some bytes \<and> json_parse (utf8_decode bytes) = Some (JObj fs) \<and>
      js_field fs ''role'' = Some (JStr ''admin'') \<and> js_field fs ''pv'' = Some (JNum (Num (sp_pv p))) \<and>
      js_field fs ''exp'' = Some (JNum (Num (sp_exp p))) \<and> payload_of_json (JObj fs) = Some p"
    using token fields by blast
  have origin: "\<exists>host. url_host origin = Some host \<and>
      Some host = (if trust_proxy \<and> jm_get (rq_headers r) ''x-forwarded-host'' \<noteq> None then jm_get (rq_headers r) ''x-forwarded-host''
        else if jm_get (rq_headers r) ''host'' \<noteq> None then jm_get (rq_headers r) ''host'' else url_host (rq_url r))"
    if "is_same_origin_request url_host r trust_proxy" "jm_get (rq_headers r) ''origin'' = Some origin" for origin
    using that by (auto simp: is_same_origin_request_def split: option.splits if_splits)
  show ?thesis using session fresh guard_console_requestD(2) [OF assms] origin by blast
qed

definition sample_mac :: hmac where
  "sample_mac key text = rev key"

definition sample_request :: http_request where
  "sample_request = \<lparr>rq_method = ''POST'', rq_url = ''http://localhost/console/api'',
     rq_headers = [(''content-type'', ''application/json''), (''cookie'',
       ''a=b; wokroute_console=e30.eyJyb2xlIjoiYWRtaW4iLCJwdiI6MSwiZXhwIjo5fQ.aw'')]\<rparr>"

theorem guarded_request_is_authentic_witness:
  "\<exists>p. guard_console_request sample_mac (\<lambda>u. None) ''k'' 1 False 8 sample_request = Inr p \<and> sp_exp p = 9 \<and> 8 < sp_exp p"
proof -
  have accepted: "guard_console_request sample_mac (\<lambda>u. None) ''k'' 1 False 8 sample_request =
      Inr \<lparr>sp_pv = 1, sp_jti = [], sp_iat = 0, sp_exp = 9\<rparr>"
    by code_simp
  show ?thesis using accepted guarded_request_is_authentic [OF accepted] by simp
qed

text \<open>
  The login limiter's memory is bounded: whatever addresses log in, fail or are checked, and
  whenever, it never tracks more addresses than its cap, and never one of them twice.
\<close>

theorem login_limiter_bounded:
  assumes "0 < k"
  shows "login_ok k (fold (login_step k) es [])"
proof -
  have step: "login_ok k m \<Longrightarrow> login_ok k (login_step k e m)" for e m
    by (cases e) (simp_all add: login_ok_check login_ok_failure login_ok_success assms)
  have run: "login_ok k m \<Longrightarrow> login_ok k (fold (login_step k) es m)" for m
  proof (induction es arbitrary: m)
    case (Cons e es)
    show ?case using Cons.IH [OF step [OF Cons.prems]] by simp
  qed simp
  have start: "login_ok k []" using assms by (simp add: login_ok_def)
  show ?thesis by (rule run [OF start])
qed

theorem login_limiter_bounded_witness:
  "login_ok 2 (fold (login_step 2) [LeFailure ''a'' 0, LeFailure ''b'' 1, LeCheck ''c'' 2, LeSuccess ''b''] [])"
  by (rule login_limiter_bounded) simp

text \<open>
  Five failed logins lock an address out: after five failures in one window every login check is
  refused until the window that began with the first of them ends. That is the end of the lock
  as well, although the lock is recorded for fifteen minutes from the fifth failure.
\<close>

theorem five_failures_lock_out:
  assumes "jm_get m ip = None" and "length ts = 3" and "\<forall>t \<in> set ts. t < t0 + LOGIN_WINDOW_MS"
    and "t5 < t0 + LOGIN_WINDOW_MS" and "later < t5 + LOGIN_LOCK_MS"
  shows "la_allowed (snd (login_check False k ip later (fail_logins k ip ((t0 # ts) @ [t5]) m))) \<longleftrightarrow>
    t0 + LOGIN_WINDOW_MS \<le> later"
  using login_check_locked [OF fifth_failure [OF assms(1-4)]] assms(5) by simp

theorem five_failures_lock_out_witness:
  "\<not> la_allowed (snd (login_check False 10 ''a'' 599999 (fail_logins 10 ''a'' [0, 1, 2, 3, 599990] []))) \<and>
   la_allowed (snd (login_check False 10 ''a'' 600000 (fail_logins 10 ''a'' [0, 1, 2, 3, 599990] [])))"
  using five_failures_lock_out [of "[]" "''a''" "[1, 2, 3]" 0 599990 599999 10]
    five_failures_lock_out [of "[]" "''a''" "[1, 2, 3]" 0 599990 600000 10]
  by (auto simp: LOGIN_WINDOW_MS_def LOGIN_LOCK_MS_def)

end
