(* ===== verification/Recovery.thy ===== *)
theory Recovery imports Contracts begin

text \<open>
  The retry machine of a request (\<open>src/app/recovery.ts\<close>) and the presentation of its outcome
  (\<open>src/app/response.ts\<close>). Promises and async generators become functions that append to a trace
  of effects: the attempts made, the failure hooks and waits called, the events yielded to the
  consumer and the runs of the cleanup stack. The provider attempts, the hooks, the abort signal
  and the consumer are the fields of an environment; an attempt is a function of its index because
  no index is ever used twice.
\<close>

subsection \<open>The stream lifecycle\<close>

record lifecycle =
  lc_headers_committed :: bool
  lc_meaningful_output :: bool
  lc_terminal_seen :: bool
  lc_closed :: bool

definition create_stream_lifecycle :: lifecycle where
  "create_stream_lifecycle = \<lparr>lc_headers_committed = False, lc_meaningful_output = False,
     lc_terminal_seen = False, lc_closed = False\<rparr>"

definition mark_headers_committed :: "lifecycle \<Rightarrow> lifecycle" where
  "mark_headers_committed l = l\<lparr>lc_headers_committed := True\<rparr>"

text \<open>\<open>close\<close> answers whether \<open>onClose\<close> is called.\<close>

definition lifecycle_close :: "lifecycle \<Rightarrow> lifecycle \<times> bool" where
  "lifecycle_close l = (if lc_closed l then (l, False) else (l\<lparr>lc_closed := True\<rparr>, True))"

fun is_meaningful_event :: "stream_event \<Rightarrow> bool" where
  "is_meaningful_event (TextDelta t) = True"
| "is_meaningful_event (ThinkingDelta t) = True"
| "is_meaningful_event (ToolCallStart i n) = True"
| "is_meaningful_event (ToolCallDelta i d) = True"
| "is_meaningful_event _ = False"

text \<open>What \<open>trackStream\<close> records before it yields an event.\<close>

definition track_event :: "stream_event \<Rightarrow> lifecycle \<Rightarrow> lifecycle" where
  "track_event ev l =
     (let l1 = (if is_meaningful_event ev then l\<lparr>lc_meaningful_output := True\<rparr> else l)
      in if is_terminal_event ev then l1\<lparr>lc_terminal_seen := True\<rparr> else l1)"

subsection \<open>Typed failures\<close>

text \<open>
  A thrown value: an object that converts itself, an object with the fields of a call error, or
  anything else.
\<close>

datatype thrown_value = TvConvertible call_error | TvShaped call_error | TvOther thrown

definition is_provider_call_error :: "thrown_value \<Rightarrow> bool" where
  "is_provider_call_error v = (case v of TvShaped e \<Rightarrow> True | _ \<Rightarrow> False)"

definition internal_call_error :: "thrown \<Rightarrow> call_error" where
  "internal_call_error v = \<lparr>ce_status_code = None, ce_kind = InternalError, ce_retryable = False,
     ce_route_scope = None, ce_source = derive_error_source InternalError None,
     ce_message = sanitize_message v, ce_retry_at = None\<rparr>"

definition to_provider_call_error ::
  "(thrown_value \<Rightarrow> call_error) option \<Rightarrow> thrown_value \<Rightarrow> call_error" where
  "to_provider_call_error map_error v =
     (case map_error of
        Some f \<Rightarrow> f v
      | None \<Rightarrow> (case v of
            TvConvertible e \<Rightarrow> e
          | TvShaped e \<Rightarrow> e
          | TvOther t \<Rightarrow> internal_call_error t))"

definition client_aborted_call_error :: call_error where
  "client_aborted_call_error = \<lparr>ce_status_code = None, ce_kind = ClientAborted, ce_retryable = False,
     ce_route_scope = None, ce_source = derive_error_source ClientAborted None,
     ce_message = ''Request aborted by client'', ce_retry_at = None\<rparr>"

text \<open>\<open>StreamDecodeError\<close> (\<open>src/domain/protocols/errors.ts\<close>) as a call error.\<close>

datatype decode_kind = DkProtocol | DkTruncated | DkAborted

definition decode_error_kind :: "decode_kind \<Rightarrow> error_kind" where
  "decode_error_kind k = (case k of
     DkProtocol \<Rightarrow> ProviderProtocolError | DkTruncated \<Rightarrow> StreamTruncated | DkAborted \<Rightarrow> ClientAborted)"

definition stream_decode_error :: "decode_kind \<Rightarrow> string \<Rightarrow> int option \<Rightarrow> call_error" where
  "stream_decode_error k msg status =
     (let scope = (if k = DkAborted then None else Some ScProvider)
      in \<lparr>ce_status_code = status, ce_kind = decode_error_kind k, ce_retryable = False,
          ce_route_scope = scope, ce_source = derive_error_source (decode_error_kind k) scope,
          ce_message = sanitize_message (ThrownError msg), ce_retry_at = None\<rparr>)"

definition truncated_call_error :: call_error where
  "truncated_call_error = stream_decode_error DkTruncated ''Stream ended before a terminal event'' None"

subsection \<open>The delay before a retry\<close>

text \<open>\<open>random\<close> is the \<open>Math.random()\<close> drawn, between 0 and 1.\<close>

definition retry_delay :: "call_error \<Rightarrow> nat \<Rightarrow> int \<Rightarrow> rat \<Rightarrow> int" where
  "retry_delay err retry_index now_ms random =
     (let base_ms = min 2000 (50 * 2 ^ min retry_index 6)
      in case Option.bind (ce_retry_at err) parse_iso of
           Some t \<Rightarrow> max 0 (min 5000 (t - now_ms))
         | None \<Rightarrow> base_ms + \<lfloor>random * of_int (min 50 (max 1 (base_ms div 4)))\<rfloor>)"

text \<open>
  The wait ends at the delay, or throws at once when the signal is aborted at the start or fires
  after \<open>abort_in\<close> milliseconds, before the timer. The second component is the time it took.
\<close>

definition wait_before_retry ::
  "call_error \<Rightarrow> nat \<Rightarrow> int \<Rightarrow> rat \<Rightarrow> bool \<Rightarrow> int option \<Rightarrow> call_error option \<times> int" where
  "wait_before_retry err retry_index now_ms random aborted abort_in =
     (if aborted then (Some client_aborted_call_error, 0)
      else let delay_ms = retry_delay err retry_index now_ms random
           in if delay_ms \<le> 0 then (None, 0)
              else case abort_in of
                Some t \<Rightarrow> if t < delay_ms then (Some client_aborted_call_error, max 0 t) else (None, delay_ms)
              | None \<Rightarrow> (None, delay_ms))"

subsection \<open>The environment and the trace\<close>

text \<open>How an event iterable ends: normally, or by throwing.\<close>

datatype stream_end = StreamEnds | StreamThrows thrown_value

datatype attempt_result =
    AttemptThrows thrown_value
  | AttemptBody "(string \<times> json) list" "provider_usage option"
  | AttemptStream "stream_event list" stream_end "provider_usage option"

record recover_env =
  rv_attempt :: "nat \<Rightarrow> attempt_result"
  rv_max_attempts :: int
  rv_aborted :: "nat \<Rightarrow> bool"                            \<comment> \<open>the signal, at its n-th reading\<close>
  rv_map_error :: "(thrown_value \<Rightarrow> call_error) option"
  rv_should_retry :: "(call_error \<Rightarrow> bool) option"
  rv_on_failure :: "call_error \<Rightarrow> nat \<Rightarrow> thrown_value option"  \<comment> \<open>what the hook throws\<close>
  rv_wait :: "call_error \<Rightarrow> nat \<Rightarrow> call_error option"          \<comment> \<open>what the wait throws\<close>
  rv_pulls :: "nat \<Rightarrow> bool"          \<comment> \<open>after n events: pull on, or return\<close>

datatype effect =
    EfAttempt nat
  | EfFailure call_error nat
  | EfWait call_error nat
  | EfYield stream_event
  | EfClose                    \<comment> \<open>the iteration of the last attempt's stream ends\<close>
  | EfCleanup

record recover_state =
  rs_readings :: nat
  rs_lifecycle :: lifecycle
  rs_trace :: "effect list"

definition emit_effect :: "effect \<Rightarrow> recover_state \<Rightarrow> recover_state" where
  "emit_effect ef s = s\<lparr>rs_trace := rs_trace s @ [ef]\<rparr>"

definition read_signal :: "recover_env \<Rightarrow> recover_state \<Rightarrow> bool \<times> recover_state" where
  "read_signal env s = (rv_aborted env (rs_readings s), s\<lparr>rs_readings := Suc (rs_readings s)\<rparr>)"

text \<open>The caller's \<open>shouldRetry\<close>, or the default: retryable and not aborted.\<close>

definition should_retry :: "recover_env \<Rightarrow> call_error \<Rightarrow> recover_state \<Rightarrow> bool \<times> recover_state" where
  "should_retry env failure s =
     (case rv_should_retry env of
        Some f \<Rightarrow> (f failure, s)
      | None \<Rightarrow> if ce_retryable failure then (let (a, s') = read_signal env s in (\<not> a, s')) else (False, s))"

subsection \<open>The pre-stream loop\<close>

text \<open>The last message has a dash outside Latin-1 in the source; it is a hyphen here.\<close>

datatype call_result =
    CallBody "(string \<times> json) list" "provider_usage option"
  | CallStream "stream_event list" stream_end nat    \<comment> \<open>the live stream and its start index\<close>
  | CallThrows call_error
  | CallRaises thrown_value                          \<comment> \<open>what a hook threw\<close>

text \<open>One turn of the \<open>for\<close> loop: the call's result, or the failure it goes on with.\<close>

definition recover_turn :: "recover_env \<Rightarrow> nat \<Rightarrow> recover_state \<Rightarrow> (call_result + call_error) \<times> recover_state" where
  "recover_turn env index s =
     (let (aborted, s) = read_signal env s
      in if aborted then (Inl (CallThrows client_aborted_call_error), emit_effect EfCleanup s)
      else let s = emit_effect (EfAttempt index) s
      in case rv_attempt env index of
           AttemptBody body usage \<Rightarrow> (Inl (CallBody body usage), emit_effect EfCleanup s)
         | AttemptStream events fin usage \<Rightarrow> (Inl (CallStream events fin (index + 1)), s)
         | AttemptThrows v \<Rightarrow>
             (let failure = to_provider_call_error (rv_map_error env) v;
                  s = emit_effect (EfFailure failure index) s
              in case rv_on_failure env failure index of
                   Some x \<Rightarrow> (Inl (CallRaises x), s)
                 | None \<Rightarrow>
                     (let (retry, s) = should_retry env failure s
                      in if \<not> retry \<or> rv_max_attempts env \<le> int index + 1
                         then (Inl (CallThrows failure), emit_effect EfCleanup s)
                         else let s = emit_effect (EfWait failure (index + 1)) s
                         in case rv_wait env failure (index + 1) of
                              Some e \<Rightarrow> (Inl (CallThrows e), s)
                            | None \<Rightarrow> (Inr failure, s))))"

function recover_from :: "recover_env \<Rightarrow> nat \<Rightarrow> call_error option \<Rightarrow> recover_state \<Rightarrow> call_result \<times> recover_state" where
  "recover_from env index last_error s =
     (if \<not> int index < rv_max_attempts env
      then (CallThrows (case last_error of Some e \<Rightarrow> e
              | None \<Rightarrow> internal_call_error (ThrownString ''All retry attempts exhausted without a captured error - this indicates an internal state bug in the recovery loop'')),
            emit_effect EfCleanup s)
      else case recover_turn env index s of
             (Inl r, s) \<Rightarrow> (r, s)
           | (Inr failure, s) \<Rightarrow> recover_from env (index + 1) (Some failure) s)"
  by pat_completeness auto
termination
  by (relation "measure (\<lambda>(env, index, l, s). nat (rv_max_attempts env - int index))") auto

declare recover_from.simps [simp del]

definition recover_call :: "recover_env \<Rightarrow> recover_state \<Rightarrow> call_result \<times> recover_state" where
  "recover_call env s = recover_from env 0 None s"

definition recover_start :: recover_state where
  "recover_start = \<lparr>rs_readings = 0, rs_lifecycle = create_stream_lifecycle, rs_trace = []\<rparr>"

subsection \<open>The recoverable stream\<close>

definition yields :: "effect list \<Rightarrow> stream_event list" where
  "yields tr = concat (map (\<lambda>ef. case ef of EfYield ev \<Rightarrow> [ev] | _ \<Rightarrow> []) tr)"

definition attempts :: "effect list \<Rightarrow> nat list" where
  "attempts tr = concat (map (\<lambda>ef. case ef of EfAttempt i \<Rightarrow> [i] | _ \<Rightarrow> []) tr)"

datatype play_result = PlayedTerminal | PlayCancelled | PlayExhausted

text \<open>The \<open>for await\<close> over one provider stream; a consumer that returns stops it at the yield.\<close>

fun play_events :: "recover_env \<Rightarrow> stream_event list \<Rightarrow> recover_state \<Rightarrow> play_result \<times> recover_state" where
  "play_events env [] s = (PlayExhausted, s)"
| "play_events env (ev # evs) s =
     (let s = emit_effect (EfYield ev) (s\<lparr>rs_lifecycle := track_event ev (rs_lifecycle s)\<rparr>)
      in if \<not> rv_pulls env (length (yields (rs_trace s))) then (PlayCancelled, s)
         else if is_terminal_event ev then (PlayedTerminal, s)
         else play_events env evs s)"

text \<open>The retry gate: attempts left, nothing meaningful or terminal sent, the policy, no abort.\<close>

definition stream_retryable :: "recover_env \<Rightarrow> nat \<Rightarrow> call_error \<Rightarrow> recover_state \<Rightarrow> bool \<times> recover_state" where
  "stream_retryable env index failure s =
     (if int index < rv_max_attempts env \<and> \<not> lc_meaningful_output (rs_lifecycle s) \<and>
         \<not> lc_terminal_seen (rs_lifecycle s)
      then (let (retry, s) = should_retry env failure s
            in if retry then (let (a, s') = read_signal env s in (\<not> a, s')) else (False, s))
      else (False, s))"

datatype stream_result =
    SrFinished | SrCancelled | SrThrows call_error | SrRaises thrown_value

text \<open>Reports a failure and waits: \<open>None\<close> when the loop goes on.\<close>

definition fail_and_wait :: "recover_env \<Rightarrow> nat \<Rightarrow> call_error \<Rightarrow> recover_state \<Rightarrow> stream_result option \<times> recover_state" where
  "fail_and_wait env index failure s =
     (let (retry, s) = stream_retryable env index failure s
      in if \<not> retry then (Some (SrThrows failure), s)
         else let s = emit_effect (EfFailure failure index) s
         in case rv_on_failure env failure index of
              Some x \<Rightarrow> (Some (SrRaises x), s)
            | None \<Rightarrow>
                let s = emit_effect (EfWait failure (index + 1)) s
                in (map_option SrThrows (rv_wait env failure (index + 1)), s))"

lemma fail_and_wait_goes_on:
  "fail_and_wait env index failure s = (None, s') \<Longrightarrow> int index < rv_max_attempts env"
  by (auto simp: fail_and_wait_def stream_retryable_def Let_def split: prod.splits if_splits option.splits)

text \<open>
  One turn of the \<open>while (true)\<close>: a live stream is played first, then the next attempt is made.
  The turn ends the generator, or leaves a live stream (or none) and the index for the next turn.
  The \<open>finally\<close> of the generator is in \<open>recoverable_events\<close> below.
\<close>

type_synonym live_stream = "(stream_event list \<times> stream_end) option"

definition play_stream :: "recover_env \<Rightarrow> stream_event list \<Rightarrow> recover_state \<Rightarrow> play_result \<times> recover_state" where
  "play_stream env evs s = (case play_events env evs s of (p, s') \<Rightarrow> (p, emit_effect EfClose s'))"

definition play_live ::
  "recover_env \<Rightarrow> live_stream \<Rightarrow> nat \<Rightarrow> recover_state \<Rightarrow> (stream_result + nat) \<times> recover_state" where
  "play_live env live index s =
     (case live of
        None \<Rightarrow> (Inr index, s)
      | Some (events, fin) \<Rightarrow>
          (case play_stream env events s of
             (PlayedTerminal, s) \<Rightarrow> (Inl SrFinished, s)
           | (PlayCancelled, s) \<Rightarrow> (Inl SrCancelled, s)
           | (PlayExhausted, s) \<Rightarrow>
               (case fail_and_wait env index
                  (case fin of StreamEnds \<Rightarrow> truncated_call_error
                   | StreamThrows v \<Rightarrow> to_provider_call_error (rv_map_error env) v) s of
                  (Some r, s) \<Rightarrow> (Inl r, s)
                | (None, s) \<Rightarrow> (Inr (index + 1), s))))"

definition attempt_again ::
  "recover_env \<Rightarrow> nat \<Rightarrow> recover_state \<Rightarrow> (stream_result + live_stream \<times> nat) \<times> recover_state" where
  "attempt_again env index s =
     (let s = emit_effect (EfAttempt index) s
      in case rv_attempt env index of
           AttemptThrows v \<Rightarrow>
             (case fail_and_wait env index (to_provider_call_error (rv_map_error env) v) s of
                (Some r, s) \<Rightarrow> (Inl r, s)
              | (None, s) \<Rightarrow> (Inr (None, index + 1), s))
         | AttemptBody body usage \<Rightarrow>
             (Inl (SrThrows (stream_decode_error DkProtocol
                ''Provider returned a non-stream response for a stream request'' None)), s)
         | AttemptStream events fin usage \<Rightarrow> (Inr (Some (events, fin), index), s))"

definition stream_turn ::
  "recover_env \<Rightarrow> live_stream \<Rightarrow> nat \<Rightarrow> recover_state \<Rightarrow> (stream_result + live_stream \<times> nat) \<times> recover_state" where
  "stream_turn env live index s =
     (let (aborted, s) = read_signal env s
      in if aborted then (Inl (SrThrows client_aborted_call_error), s)
      else case play_live env live index s of
             (Inl r, s) \<Rightarrow> (Inl r, s)
           | (Inr j, s) \<Rightarrow> attempt_again env j s)"

definition turns_left :: "recover_env \<Rightarrow> live_stream \<Rightarrow> nat \<Rightarrow> nat" where
  "turns_left env live index = 2 * nat (rv_max_attempts env - int index) + (if live = None then 1 else 0)"

lemma play_live_index:
  "play_live env live index s = (Inr j, s') \<Longrightarrow>
   j = (if live = None then index else index + 1) \<and> (live \<noteq> None \<longrightarrow> int index < rv_max_attempts env)"
  by (auto simp: play_live_def dest: fail_and_wait_goes_on
      split: option.splits prod.splits play_result.splits)

lemma attempt_again_index:
  "attempt_again env index s = (Inr (live, j), s') \<Longrightarrow>
   j = (if live = None then index + 1 else index) \<and> (live = None \<longrightarrow> int index < rv_max_attempts env)"
  by (auto simp: attempt_again_def Let_def dest: fail_and_wait_goes_on
      split: attempt_result.splits option.splits prod.splits)

lemma stream_turn_decreases:
  "stream_turn env live index s = (Inr (live', j), s') \<Longrightarrow> turns_left env live' j < turns_left env live index"
  by (auto simp: stream_turn_def turns_left_def Let_def split: prod.splits if_splits sum.splits
      dest!: play_live_index attempt_again_index)

function stream_loop ::
  "recover_env \<Rightarrow> live_stream \<Rightarrow> nat \<Rightarrow> recover_state \<Rightarrow> stream_result \<times> recover_state" where
  "stream_loop env live index s =
     (case stream_turn env live index s of
        (Inl r, s) \<Rightarrow> (r, s)
      | (Inr (live', j), s) \<Rightarrow> stream_loop env live' j s)"
  by pat_completeness auto
termination
  by (relation "measure (\<lambda>(env, live, index, s). turns_left env live index)")
    (auto dest!: stream_turn_decreases stream_turn_decreases [OF sym])

declare stream_loop.simps [simp del]

text \<open>A generator that is never pulled never starts, and its \<open>finally\<close> never runs.\<close>

definition recoverable_events ::
  "recover_env \<Rightarrow> stream_event list \<Rightarrow> stream_end \<Rightarrow> nat \<Rightarrow> recover_state \<Rightarrow> stream_result \<times> recover_state" where
  "recoverable_events env events fin start_index s =
     (if \<not> rv_pulls env 0 then (SrCancelled, s)
      else let (r, s') = stream_loop env (Some (events, fin)) start_index s
           in (r, emit_effect EfCleanup s'))"

text \<open>A call whose stream, if it has one, is consumed.\<close>

datatype consumed = ConsumedCall call_result | ConsumedStream stream_result

definition recover_and_consume :: "recover_env \<Rightarrow> recover_state \<Rightarrow> consumed \<times> recover_state" where
  "recover_and_consume env s =
     (case recover_call env s of
        (CallStream events fin start, s') \<Rightarrow>
          (case recoverable_events env events fin start s' of (r, s'') \<Rightarrow> (ConsumedStream r, s''))
      | (r, s') \<Rightarrow> (ConsumedCall r, s'))"

subsection \<open>Presentation\<close>

datatype response_body =
    BodyJson "(string \<times> json) list"
  | BodyError public_error
  | BodyStream "stream_event list"

record presented_response =
  pr_status :: int
  pr_headers :: headers
  pr_body :: response_body

definition DEFAULT_STREAM_CONTENT_TYPE :: string where
  "DEFAULT_STREAM_CONTENT_TYPE = ''text/event-stream''"

definition json_headers :: headers where
  "json_headers = [(''content-type'', ''application/json''), (''cache-control'', ''no-store'')]"

definition write_non_stream_response :: "(string \<times> json) list \<Rightarrow> presented_response" where
  "write_non_stream_response body = \<lparr>pr_status = 200, pr_headers = json_headers, pr_body = BodyJson body\<rparr>"

text \<open>Presenting a stream commits the headers of the lifecycle it is given.\<close>

definition write_stream_response ::
  "string option \<Rightarrow> stream_event list \<Rightarrow> lifecycle option \<Rightarrow> lifecycle option \<times> presented_response" where
  "write_stream_response content_type events l =
     (map_option mark_headers_committed l,
      \<lparr>pr_status = 200,
       pr_headers = [(''content-type'', case content_type of Some c \<Rightarrow> c | None \<Rightarrow> DEFAULT_STREAM_CONTENT_TYPE),
         (''cache-control'', ''no-cache, no-transform''), (''x-accel-buffering'', ''no'')],
       pr_body = BodyStream events\<rparr>)"

fun write_response ::
  "string option \<Rightarrow> provider_output \<Rightarrow> lifecycle option \<Rightarrow> lifecycle option \<times> presented_response" where
  "write_response content_type (NonStream body usage) l = (l, write_non_stream_response body)"
| "write_response content_type (Streamed events usage) l = write_stream_response content_type events l"

definition write_error_response :: "call_error \<Rightarrow> string \<Rightarrow> presented_response" where
  "write_error_response err request_id =
     \<lparr>pr_status = (case ce_status_code err of Some c \<Rightarrow> c | None \<Rightarrow> 502),
      pr_headers = json_headers, pr_body = BodyError (public_error_body err request_id)\<rparr>"

definition terminal_error_event :: stream_event where
  "terminal_error_event = MessageStop SrError"

text \<open>The events a consumer sees that reads to the end, and what \<open>onError\<close> receives.\<close>

definition append_terminal_error ::
  "stream_event list \<Rightarrow> stream_end \<Rightarrow> stream_event list \<times> thrown_value option" where
  "append_terminal_error events fin =
     (let terminal = list_ex is_terminal_event events
      in (events @ (if terminal then [] else [terminal_error_event]),
          case fin of StreamEnds \<Rightarrow> None | StreamThrows v \<Rightarrow> Some v))"

subsection \<open>Effects on the trace\<close>

named_theorems trace_simps \<open>how an operation extends the trace\<close>

definition cleanups :: "effect list \<Rightarrow> nat" where
  "cleanups tr = length (filter (\<lambda>ef. ef = EfCleanup) tr)"

lemma projections_append [trace_simps]:
  "attempts (tr @ us) = attempts tr @ attempts us" "yields (tr @ us) = yields tr @ yields us"
  "cleanups (tr @ us) = cleanups tr + cleanups us"
  by (simp_all add: attempts_def yields_def cleanups_def)

lemma projections_Cons [trace_simps]:
  "attempts (ef # tr) = (case ef of EfAttempt i \<Rightarrow> [i] | _ \<Rightarrow> []) @ attempts tr"
  "yields (ef # tr) = (case ef of EfYield ev \<Rightarrow> [ev] | _ \<Rightarrow> []) @ yields tr"
  "cleanups (ef # tr) = (if ef = EfCleanup then 1 else 0) + cleanups tr"
  "attempts [] = []" "yields [] = []" "cleanups [] = 0"
  by (simp_all add: attempts_def yields_def cleanups_def)

lemma emit_trace [trace_simps]:
  "rs_trace (emit_effect ef s) = rs_trace s @ [ef]" "rs_lifecycle (emit_effect ef s) = rs_lifecycle s"
  by (simp_all add: emit_effect_def)

lemma read_signal_trace:
  "read_signal env s = (a, s') \<Longrightarrow> rs_trace s' = rs_trace s \<and> rs_lifecycle s' = rs_lifecycle s"
  by (auto simp: read_signal_def)

lemma should_retry_trace:
  "should_retry env failure s = (a, s') \<Longrightarrow> rs_trace s' = rs_trace s \<and> rs_lifecycle s' = rs_lifecycle s"
  by (auto simp: should_retry_def Let_def split: option.splits if_splits prod.splits dest!: read_signal_trace)

lemma stream_retryable_trace:
  "stream_retryable env index failure s = (a, s') \<Longrightarrow> rs_trace s' = rs_trace s \<and> rs_lifecycle s' = rs_lifecycle s"
  by (auto simp: stream_retryable_def Let_def split: if_splits prod.splits
      dest!: read_signal_trace should_retry_trace)

lemma stream_retryableD:
  "stream_retryable env index failure s = (True, s') \<Longrightarrow>
   int index < rv_max_attempts env \<and> \<not> lc_meaningful_output (rs_lifecycle s) \<and> \<not> lc_terminal_seen (rs_lifecycle s)"
  by (auto simp: stream_retryable_def split: if_splits)

text \<open>A step that reports a failure adds no attempt, no event and no cleanup.\<close>

lemma fail_and_wait_trace:
  assumes "fail_and_wait env index failure s = (r, s')"
  shows "attempts (rs_trace s') = attempts (rs_trace s)" and "yields (rs_trace s') = yields (rs_trace s)"
    and "cleanups (rs_trace s') = cleanups (rs_trace s)" and "rs_lifecycle s' = rs_lifecycle s"
  using assms
  by (auto simp: fail_and_wait_def Let_def trace_simps split: prod.splits if_splits option.splits
      dest!: stream_retryable_trace)

lemma fail_and_wait_gate:
  "fail_and_wait env index failure s = (None, s') \<Longrightarrow>
   \<not> lc_meaningful_output (rs_lifecycle s) \<and> \<not> lc_terminal_seen (rs_lifecycle s)"
  by (auto simp: fail_and_wait_def Let_def split: prod.splits if_splits option.splits dest!: stream_retryableD)

lemma play_events_trace:
  "play_events env evs s = (r, s') \<Longrightarrow>
   attempts (rs_trace s') = attempts (rs_trace s) \<and> cleanups (rs_trace s') = cleanups (rs_trace s)"
  by (induction evs arbitrary: s) (auto simp: Let_def trace_simps split: if_splits)

lemma play_stream_trace:
  "play_stream env evs s = (r, s') \<Longrightarrow>
   attempts (rs_trace s') = attempts (rs_trace s) \<and> cleanups (rs_trace s') = cleanups (rs_trace s)"
  by (auto simp: play_stream_def trace_simps split: prod.splits dest!: play_events_trace)

lemma recover_turn_Inr:
  assumes "recover_turn env index s = (Inr failure, s')"
  shows "attempts (rs_trace s') = attempts (rs_trace s) @ [index]" "yields (rs_trace s') = yields (rs_trace s)"
    "cleanups (rs_trace s') = cleanups (rs_trace s)" "rs_lifecycle s' = rs_lifecycle s"
    "int index + 1 < rv_max_attempts env"
  using assms
  by (auto simp: recover_turn_def Let_def trace_simps dest!: read_signal_trace should_retry_trace
      split: prod.splits if_splits attempt_result.splits option.splits)

lemma recover_turn_Inl:
  assumes "recover_turn env index s = (Inl r, s')"
  shows "attempts (rs_trace s') = attempts (rs_trace s) @ [index] \<or>
      attempts (rs_trace s') = attempts (rs_trace s) \<and> r = CallThrows client_aborted_call_error"
    "yields (rs_trace s') = yields (rs_trace s)" "rs_lifecycle s' = rs_lifecycle s"
    "r = CallStream evs fin start \<Longrightarrow> start = index + 1 \<and> attempts (rs_trace s') = attempts (rs_trace s) @ [index]"
    "r = CallStream evs fin start \<Longrightarrow> cleanups (rs_trace s') = cleanups (rs_trace s)"
    "r = CallBody b u \<Longrightarrow> cleanups (rs_trace s') = Suc (cleanups (rs_trace s))"
    "r = CallThrows e \<Longrightarrow> \<forall>e n. rv_wait env e n = None \<Longrightarrow> cleanups (rs_trace s') = Suc (cleanups (rs_trace s))"
  using assms
  by (auto simp: recover_turn_def Let_def trace_simps dest!: read_signal_trace should_retry_trace
      split: prod.splits if_splits attempt_result.splits option.splits)

subsection \<open>Both loops along their turns\<close>

lemma recover_from_attempts:
  "recover_from env index l s = (r, s') \<Longrightarrow>
   \<exists>j \<ge> index. attempts (rs_trace s') = attempts (rs_trace s) @ [index..<j] \<and>
     (int index \<le> rv_max_attempts env \<longrightarrow> int j \<le> rv_max_attempts env) \<and>
     (\<forall>evs fin start. r = CallStream evs fin start \<longrightarrow> start = j)"
proof (induction env index l s rule: recover_from.induct)
  case (1 env index l s)
  show ?case
  proof (cases "int index < rv_max_attempts env")
    case False
    then show ?thesis using "1.prems"
      by (intro exI [of _ index]) (auto simp: recover_from.simps [of env index] trace_simps)
  next
    case more: True
    obtain t s1 where turn: "recover_turn env index s = (t, s1)" by (cases "recover_turn env index s")
    show ?thesis
    proof (cases t)
      case (Inl r')
      then have "r' = r" "s1 = s'" using "1.prems" turn more by (simp_all add: recover_from.simps [of env index])
      then have "recover_turn env index s = (Inl r, s')" using turn Inl by simp
      from recover_turn_Inl(1) [OF this] recover_turn_Inl(4) [OF this] show ?thesis
        using more by (elim disjE) (auto intro: exI [of _ "index + 1"] exI [of _ index])
    next
      case (Inr failure)
      then have turn': "recover_turn env index s = (Inr failure, s1)" using turn by simp
      have "recover_from env (index + 1) (Some failure) s1 = (r, s')"
        using "1.prems" turn' more by (simp add: recover_from.simps [of env index])
      from "1.IH" [OF _ turn' [symmetric] _ this] more obtain j where
        "j \<ge> index + 1" "attempts (rs_trace s') = attempts (rs_trace s1) @ [index + 1..<j]"
        "int (index + 1) \<le> rv_max_attempts env \<longrightarrow> int j \<le> rv_max_attempts env"
        "\<forall>evs fin start. r = CallStream evs fin start \<longrightarrow> start = j" by auto
      then show ?thesis using recover_turn_Inr(1,5) [OF turn'] more
        by (intro exI [of _ j]) (simp add: upt_conv_Cons)
    qed
  qed
qed

lemma recover_from_quiet:
  "recover_from env index l s = (r, s') \<Longrightarrow>
   yields (rs_trace s') = yields (rs_trace s) \<and> rs_lifecycle s' = rs_lifecycle s"
proof (induction env index l s rule: recover_from.induct)
  case (1 env index l s)
  show ?case
  proof (cases "int index < rv_max_attempts env")
    case False
    then show ?thesis using "1.prems" by (auto simp: recover_from.simps [of env index] trace_simps)
  next
    case True
    then show ?thesis using "1.prems" "1.IH" recover_turn_Inl(2,3) recover_turn_Inr(2,4)
      by (fastforce simp: recover_from.simps [of env index] split: prod.splits sum.splits)
  qed
qed

lemma recover_from_cleanups:
  assumes "\<forall>e n. rv_wait env e n = None" and "\<forall>e n. rv_on_failure env e n = None"
  shows "recover_from env index l s = (r, s') \<Longrightarrow>
   cleanups (rs_trace s') = cleanups (rs_trace s) + (case r of CallStream evs fin start \<Rightarrow> 0 | _ \<Rightarrow> 1)"
  using assms
proof (induction env index l s rule: recover_from.induct)
  case (1 env index l s)
  have no_raise: "recover_turn env index s \<noteq> (Inl (CallRaises x), s2)" for x s2
    using "1.prems"(3) by (auto simp: recover_turn_def Let_def
        split: prod.splits if_splits attempt_result.splits option.splits)
  show ?case
  proof (cases "int index < rv_max_attempts env")
    case False
    then show ?thesis using "1.prems" by (auto simp: recover_from.simps [of env index] trace_simps)
  next
    case more: True
    obtain t s1 where turn: "recover_turn env index s = (t, s1)" by (cases "recover_turn env index s")
    show ?thesis
    proof (cases t)
      case (Inl r')
      then have "recover_turn env index s = (Inl r, s')"
        using "1.prems" turn more by (simp add: recover_from.simps [of env index])
      from recover_turn_Inl(5-7) [OF this] no_raise this "1.prems"(2) show ?thesis by (cases r) auto
    next
      case (Inr failure)
      then have turn': "recover_turn env index s = (Inr failure, s1)" using turn by simp
      have "recover_from env (index + 1) (Some failure) s1 = (r, s')"
        using "1.prems" turn' more by (simp add: recover_from.simps [of env index])
      then show ?thesis using "1.IH" [OF _ turn' [symmetric]] "1.prems"(2,3) more recover_turn_Inr(3) [OF turn'] by simp
    qed
  qed
qed

text \<open>An invariant of the turns holds when the stream loop ends.\<close>

lemma stream_loop_invariant:
  assumes step: "\<And>live index s live' j s'. I live index s \<Longrightarrow>
      stream_turn env live index s = (Inr (live', j), s') \<Longrightarrow> I live' j s'"
    and final: "\<And>live index s r s'. I live index s \<Longrightarrow> stream_turn env live index s = (Inl r, s') \<Longrightarrow> Q r s'"
  shows "I live index s \<Longrightarrow> stream_loop env live index s = (r, s') \<Longrightarrow> Q r s'"
proof (induction "turns_left env live index" arbitrary: live index s rule: less_induct)
  case less
  obtain t s1 where turn: "stream_turn env live index s = (t, s1)" by (cases "stream_turn env live index s")
  show ?case
  proof (cases t)
    case (Inl r')
    then show ?thesis using less.prems turn final by (auto simp: stream_loop.simps [of env live index])
  next
    case (Inr x)
    then obtain live' j where x: "t = Inr (live', j)" by (cases x) auto
    have "stream_loop env live' j s1 = (r, s')"
      using less.prems(2) turn x by (simp add: stream_loop.simps [of env live index])
    then show ?thesis
      using less.hyps [OF stream_turn_decreases step] less.prems(1) turn x by blast
  qed
qed

lemma play_live_trace:
  "play_live env live index s = (r, s') \<Longrightarrow>
   attempts (rs_trace s') = attempts (rs_trace s) \<and> cleanups (rs_trace s') = cleanups (rs_trace s)"
  by (auto simp: play_live_def split: option.splits prod.splits play_result.splits
      dest!: play_stream_trace dest: fail_and_wait_trace)

lemma attempt_again_trace:
  "attempt_again env index s = (r, s') \<Longrightarrow>
   attempts (rs_trace s') = attempts (rs_trace s) @ [index] \<and> yields (rs_trace s') = yields (rs_trace s) \<and>
   cleanups (rs_trace s') = cleanups (rs_trace s) \<and> rs_lifecycle s' = rs_lifecycle s"
  by (auto simp: attempt_again_def Let_def trace_simps dest: fail_and_wait_trace
      split: attempt_result.splits prod.splits option.splits)

lemma stream_turn_cases:
  assumes "stream_turn env live index s = (x, s')"
  obtains "x = Inl (SrThrows client_aborted_call_error)" "rs_trace s' = rs_trace s" "rs_lifecycle s' = rs_lifecycle s"
  | r s0 where "rs_trace s0 = rs_trace s" "rs_lifecycle s0 = rs_lifecycle s"
      "x = Inl r" "play_live env live index s0 = (Inl r, s')"
  | j s0 s1 where "rs_trace s0 = rs_trace s" "rs_lifecycle s0 = rs_lifecycle s"
      "play_live env live index s0 = (Inr j, s1)" "attempt_again env j s1 = (x, s')"
  using assms that
  by (auto simp: stream_turn_def split: prod.splits if_splits sum.splits dest!: read_signal_trace)

lemma stream_turn_cleanups:
  assumes "stream_turn env live index s = (x, s')"
  shows "cleanups (rs_trace s') = cleanups (rs_trace s)"
  using assms by (cases rule: stream_turn_cases) (auto dest!: play_live_trace attempt_again_trace)

text \<open>
  With a live stream at index \<open>i\<close> at most \<open>i\<close> attempts were made, without one at most \<open>i - 1\<close>.
\<close>

definition attempts_within :: "recover_env \<Rightarrow> live_stream \<Rightarrow> nat \<Rightarrow> recover_state \<Rightarrow> bool" where
  "attempts_within env live index s \<longleftrightarrow> int index \<le> rv_max_attempts env \<and>
     length (attempts (rs_trace s)) + (if live = None then 1 else 0) \<le> index"

lemma stream_turn_within:
  assumes "attempts_within env live index s" and "stream_turn env live index s = (Inr (live', j), s')"
  shows "attempts_within env live' j s'"
  using assms(2)
proof (cases rule: stream_turn_cases)
  case (3 i s0 s1)
  then show ?thesis
    using assms(1) play_live_trace [OF 3(3)] play_live_index [OF 3(3)]
      attempt_again_trace [OF 3(4)] attempt_again_index [OF 3(4)]
    by (auto simp: attempts_within_def split: if_splits)
qed auto

lemma stream_turn_ends_within:
  assumes "attempts_within env live index s" and "stream_turn env live index s = (Inl r, s')"
  shows "int (length (attempts (rs_trace s'))) \<le> rv_max_attempts env"
  using assms(2)
proof (cases rule: stream_turn_cases)
  case (3 i s0 s1)
  then show ?thesis
    using assms(1) play_live_trace [OF 3(3)] play_live_index [OF 3(3)] attempt_again_trace [OF 3(4)]
    by (auto simp: attempts_within_def split: if_splits)
qed (use assms(1) in \<open>auto simp: attempts_within_def dest!: play_live_trace\<close>)

subsection \<open>What the consumer sees\<close>

text \<open>
  An event commits the response when a retry could no longer hide it; after a committing event no
  attempt is made (\<open>gate_holds\<close>), and nothing follows a terminal event (\<open>ends_terminal\<close>).
\<close>

definition commits :: "stream_event \<Rightarrow> bool" where
  "commits ev \<longleftrightarrow> is_meaningful_event ev \<or> is_terminal_event ev"

definition gate_holds :: "effect list \<Rightarrow> bool" where
  "gate_holds tr \<longleftrightarrow> (\<forall>pre ev post. tr = pre @ EfYield ev # post \<and> commits ev \<longrightarrow> attempts post = [])"

definition ends_terminal :: "stream_event list \<Rightarrow> bool" where
  "ends_terminal evs \<longleftrightarrow> (\<forall>pre ev post. evs = pre @ ev # post \<and> is_terminal_event ev \<longrightarrow> post = [])"

lemma gate_holds_Nil [simp]: "gate_holds []"
  by (simp add: gate_holds_def)

lemma yields_mem: "ev \<in> set (yields tr) \<longleftrightarrow> EfYield ev \<in> set tr"
  by (induction tr) (auto simp: trace_simps split: effect.splits)

lemma gate_holds_snoc:
  "gate_holds (tr @ [ef]) \<longleftrightarrow>
   gate_holds tr \<and> (\<forall>i. ef = EfAttempt i \<longrightarrow> \<not> list_ex commits (yields tr))"
proof
  assume g: "gate_holds (tr @ [ef])"
  have "gate_holds tr"
    unfolding gate_holds_def
  proof (intro allI impI)
    fix pre ev post assume "tr = pre @ EfYield ev # post \<and> commits ev"
    then have "attempts (post @ [ef]) = []" using g unfolding gate_holds_def by (metis append.assoc append_Cons)
    then show "attempts post = []" by (simp add: trace_simps)
  qed
  moreover have "\<not> list_ex commits (yields tr)" if "ef = EfAttempt i" for i
  proof
    assume "list_ex commits (yields tr)"
    then obtain ev where "commits ev" "EfYield ev \<in> set tr" by (auto simp: list_ex_iff yields_mem)
    then obtain pre post where "tr = pre @ EfYield ev # post" by (meson split_list)
    then have "attempts (post @ [ef]) = []" using g \<open>commits ev\<close> unfolding gate_holds_def by (metis append.assoc append_Cons)
    then show False using that by (simp add: trace_simps)
  qed
  ultimately show "gate_holds tr \<and> (\<forall>i. ef = EfAttempt i \<longrightarrow> \<not> list_ex commits (yields tr))" by blast
next
  assume g: "gate_holds tr \<and> (\<forall>i. ef = EfAttempt i \<longrightarrow> \<not> list_ex commits (yields tr))"
  show "gate_holds (tr @ [ef])"
    unfolding gate_holds_def
  proof (intro allI impI)
    fix pre ev post assume s: "tr @ [ef] = pre @ EfYield ev # post \<and> commits ev"
    show "attempts post = []"
    proof (cases post rule: rev_cases)
      case Nil
      then show ?thesis by (simp add: trace_simps)
    next
      case (snoc post' x)
      then have tr: "tr = pre @ EfYield ev # post'" "x = ef" using s by simp_all
      then have "list_ex commits (yields tr)" using s by (auto simp: list_ex_iff yields_mem)
      moreover have "attempts post' = []" using g tr s unfolding gate_holds_def by blast
      ultimately show ?thesis using g snoc tr(2) by (cases ef) (auto simp: trace_simps)
    qed
  qed
qed

lemma gate_holds_quiet:
  "gate_holds tr \<Longrightarrow> attempts us = [] \<Longrightarrow> gate_holds (tr @ us)"
  by (induction us rule: rev_induct)
    (auto simp: trace_simps gate_holds_snoc simp flip: append_assoc)

lemma ends_terminal_snoc:
  "\<not> list_ex is_terminal_event evs \<Longrightarrow> ends_terminal (evs @ [ev])"
  unfolding ends_terminal_def
proof (intro allI impI)
  fix pre e post assume no: "\<not> list_ex is_terminal_event evs" and s: "evs @ [ev] = pre @ e # post \<and> is_terminal_event e"
  show "post = []"
  proof (cases post rule: rev_cases)
    case (snoc post' x)
    then have "e \<in> set evs" using s by (metis append.assoc append_Cons append_eq_append_conv_if butlast_snoc in_set_conv_decomp)
    then show ?thesis using no s by (auto simp: list_ex_iff)
  qed
qed

lemma ends_terminal_none: "\<not> list_ex is_terminal_event evs \<Longrightarrow> ends_terminal evs"
  by (auto simp: ends_terminal_def list_ex_iff)

text \<open>The invariant between two turns of the stream loop.\<close>

definition stream_ok :: "recover_state \<Rightarrow> bool" where
  "stream_ok s \<longleftrightarrow> gate_holds (rs_trace s) \<and> \<not> list_ex is_terminal_event (yields (rs_trace s)) \<and>
     (list_ex commits (yields (rs_trace s)) \<longrightarrow>
        lc_meaningful_output (rs_lifecycle s) \<or> lc_terminal_seen (rs_lifecycle s))"

text \<open>The state a finished generator leaves, by its result.\<close>

definition stream_done :: "stream_result \<Rightarrow> recover_state \<Rightarrow> bool" where
  "stream_done r s \<longleftrightarrow> gate_holds (rs_trace s) \<and> ends_terminal (yields (rs_trace s)) \<and>
     (r = SrFinished \<longrightarrow> list_ex is_terminal_event (yields (rs_trace s))) \<and>
     (r \<noteq> SrFinished \<and> r \<noteq> SrCancelled \<longrightarrow> \<not> list_ex is_terminal_event (yields (rs_trace s)))"

lemma track_event_lifecycle:
  "commits ev \<Longrightarrow> lc_meaningful_output (track_event ev l) \<or> lc_terminal_seen (track_event ev l)"
  "lc_meaningful_output l \<Longrightarrow> lc_meaningful_output (track_event ev l)"
  "lc_terminal_seen l \<Longrightarrow> lc_terminal_seen (track_event ev l)"
  by (auto simp: track_event_def commits_def Let_def)

lemma play_events_ok:
  "play_events env evs s = (r, s') \<Longrightarrow> stream_ok s \<Longrightarrow>
   (r = PlayExhausted \<longrightarrow> stream_ok s') \<and> (r = PlayedTerminal \<longrightarrow> stream_done SrFinished s') \<and>
   (r = PlayCancelled \<longrightarrow> stream_done SrCancelled s')"
proof (induction evs arbitrary: s)
  case (Cons ev evs)
  define s1 where "s1 = emit_effect (EfYield ev) (s\<lparr>rs_lifecycle := track_event ev (rs_lifecycle s)\<rparr>)"
  have tr: "rs_trace s1 = rs_trace s @ [EfYield ev]" "rs_lifecycle s1 = track_event ev (rs_lifecycle s)"
    by (simp_all add: s1_def emit_effect_def)
  have gate: "gate_holds (rs_trace s1)" using Cons.prems(2) by (simp add: tr gate_holds_snoc stream_ok_def)
  have ends: "ends_terminal (yields (rs_trace s1))"
    using Cons.prems(2) by (simp add: tr trace_simps stream_ok_def ends_terminal_snoc)
  have ok: "\<not> is_terminal_event ev \<Longrightarrow> stream_ok s1"
    using Cons.prems(2) track_event_lifecycle [where ev = ev and l = "rs_lifecycle s"] gate
    by (auto simp: stream_ok_def tr trace_simps)
  consider "r = PlayCancelled" "s' = s1" | "r = PlayedTerminal" "s' = s1" "is_terminal_event ev"
    | "\<not> is_terminal_event ev" "play_events env evs s1 = (r, s')"
    using Cons.prems(1) by (auto simp: s1_def [symmetric] Let_def split: if_splits)
  then show ?case
    using Cons.IH ok gate ends by cases (auto simp: stream_done_def tr trace_simps)
qed auto

lemma play_stream_ok:
  assumes "play_stream env evs s = (r, s')" "stream_ok s"
  shows "(r = PlayExhausted \<longrightarrow> stream_ok s') \<and> (r = PlayedTerminal \<longrightarrow> stream_done SrFinished s') \<and>
    (r = PlayCancelled \<longrightarrow> stream_done SrCancelled s')"
proof -
  obtain s1 where s1: "play_events env evs s = (r, s1)" "s' = emit_effect EfClose s1"
    using assms(1) by (auto simp: play_stream_def split: prod.splits)
  then show ?thesis using play_events_ok [OF s1(1) assms(2)]
    by (simp add: stream_ok_def stream_done_def trace_simps gate_holds_snoc)
qed

lemma fail_and_wait_ok:
  assumes "fail_and_wait env index failure s = (r, s')" and "stream_ok s"
  shows "stream_ok s'" and "r = Some x \<Longrightarrow> stream_done x s' \<and> x \<noteq> SrFinished \<and> x \<noteq> SrCancelled"
proof -
  obtain us where us: "rs_trace s' = rs_trace s @ us" "attempts us = []" "yields us = []"
    using assms(1)
    by (auto simp: fail_and_wait_def Let_def trace_simps split: prod.splits if_splits option.splits
        dest!: stream_retryable_trace)
  then show ok: "stream_ok s'"
    using assms(2) fail_and_wait_trace(4) [OF assms(1)]
    by (auto simp: stream_ok_def trace_simps gate_holds_quiet)
  assume "r = Some x"
  then have "x \<noteq> SrFinished \<and> x \<noteq> SrCancelled" using assms(1)
    by (auto simp: fail_and_wait_def Let_def split: prod.splits if_splits option.splits)
  then show "stream_done x s' \<and> x \<noteq> SrFinished \<and> x \<noteq> SrCancelled"
    using ok by (simp add: stream_ok_def stream_done_def ends_terminal_none)
qed

lemma stream_ok_cong:
  "rs_trace t = rs_trace s \<Longrightarrow> rs_lifecycle t = rs_lifecycle s \<Longrightarrow> stream_ok t = stream_ok s"
  by (simp add: stream_ok_def)

text \<open>Without a live stream the last failure found nothing committed.\<close>

definition turn_ok :: "live_stream \<Rightarrow> recover_state \<Rightarrow> bool" where
  "turn_ok live s \<longleftrightarrow> stream_ok s \<and> (live = None \<longrightarrow> \<not> list_ex commits (yields (rs_trace s)))"

lemma fail_and_wait_uncommitted:
  "fail_and_wait env index failure s = (None, s') \<Longrightarrow> stream_ok s \<Longrightarrow> \<not> list_ex commits (yields (rs_trace s'))"
  using fail_and_wait_gate [of env index failure s s'] fail_and_wait_trace(2) [of env index failure s None s']
  by (auto simp: stream_ok_def)

lemma play_live_ok:
  assumes "turn_ok live s"
  shows "play_live env live index s = (Inl r, s') \<Longrightarrow> stream_done r s'"
    and "play_live env live index s = (Inr j, s') \<Longrightarrow> turn_ok None s'"
  using assms
  by (auto simp: play_live_def turn_ok_def dest: play_stream_ok fail_and_wait_ok fail_and_wait_uncommitted
      split: option.splits prod.splits play_result.splits)

lemma attempt_again_ok:
  assumes "turn_ok None s"
  shows "attempt_again env index s = (Inl r, s') \<Longrightarrow> stream_done r s'"
    and "attempt_again env index s = (Inr (live, j), s') \<Longrightarrow> turn_ok live s'"
proof -
  let ?s = "emit_effect (EfAttempt index) s"
  have ok: "stream_ok ?s" using assms
    by (simp add: turn_ok_def stream_ok_def trace_simps gate_holds_snoc)
  then have fin: "stream_done (SrThrows e) ?s" for e
    by (simp add: stream_ok_def stream_done_def ends_terminal_none)
  show "attempt_again env index s = (Inl r, s') \<Longrightarrow> stream_done r s'"
    using ok fin by (auto simp: attempt_again_def Let_def dest: fail_and_wait_ok
        split: attempt_result.splits prod.splits option.splits)
  show "attempt_again env index s = (Inr (live, j), s') \<Longrightarrow> turn_ok live s'"
    using ok by (auto simp: attempt_again_def Let_def turn_ok_def dest: fail_and_wait_ok fail_and_wait_uncommitted
        split: attempt_result.splits prod.splits option.splits)
qed

lemma stream_turn_ok:
  assumes "turn_ok live s"
  shows "stream_turn env live index s = (Inr (live', j), s') \<Longrightarrow> turn_ok live' s'"
    and "stream_turn env live index s = (Inl r, s') \<Longrightarrow> stream_done r s'"
proof -
  have ok: "turn_ok live s0" if "rs_trace s0 = rs_trace s" "rs_lifecycle s0 = rs_lifecycle s" for s0
    using assms that by (simp add: turn_ok_def stream_ok_cong [OF that])
  show "stream_turn env live index s = (Inr (live', j), s') \<Longrightarrow> turn_ok live' s'"
    by (erule stream_turn_cases) (auto dest!: ok dest: play_live_ok attempt_again_ok)
  assume "stream_turn env live index s = (Inl r, s')"
  then show "stream_done r s'"
  proof (cases rule: stream_turn_cases)
    case 1
    then have "turn_ok live s'" by (intro ok)
    then show ?thesis using 1 by (simp add: turn_ok_def stream_ok_def stream_done_def ends_terminal_none)
  next
    case (2 x s0)
    then show ?thesis using play_live_ok(1) [OF ok] by blast
  next
    case (3 i s0 s1)
    then show ?thesis using play_live_ok(2) [OF ok] attempt_again_ok(1) by blast
  qed
qed

lemma recover_start_simps [simp]:
  "rs_trace recover_start = []" "rs_lifecycle recover_start = create_stream_lifecycle"
  by (simp_all add: recover_start_def)

text \<open>A call in one equation per way it ends.\<close>

lemma recover_and_consume_cases:
  assumes "recover_and_consume env s = (c, s')"
  obtains r where "c = ConsumedCall r" "recover_call env s = (r, s')"
      "\<And>evs fin start. r \<noteq> CallStream evs fin start"
  | evs fin start where "recover_call env s = (CallStream evs fin start, s')" "\<not> rv_pulls env 0"
      "c = ConsumedStream SrCancelled"
  | evs fin start s1 r s2 where "recover_call env s = (CallStream evs fin start, s1)" "rv_pulls env 0"
      "stream_loop env (Some (evs, fin)) start s1 = (r, s2)" "s' = emit_effect EfCleanup s2" "c = ConsumedStream r"
  using assms that
  by (auto simp: recover_and_consume_def recoverable_events_def split: prod.splits call_result.splits if_splits)

lemma gate_holds_unyielded: "yields tr = [] \<Longrightarrow> gate_holds tr"
  by (auto simp: gate_holds_def trace_simps)

lemma recovered_within:
  assumes "recover_and_consume env recover_start = (c, s')"
  shows "int (length (attempts (rs_trace s'))) \<le> max 0 (rv_max_attempts env)"
proof -
  have call: "int (length (attempts (rs_trace s1))) \<le> max 0 (rv_max_attempts env) \<and>
      (\<forall>evs fin start. r = CallStream evs fin start \<longrightarrow> attempts_within env (Some (evs, fin)) start s1)"
    if c: "recover_call env recover_start = (r, s1)" for r s1
  proof (cases "0 \<le> rv_max_attempts env")
    case True
    then show ?thesis using recover_from_attempts [OF c [unfolded recover_call_def]]
      by (auto simp: attempts_within_def trace_simps)
  next
    case False
    then show ?thesis using c by (auto simp: recover_call_def recover_from.simps [of env 0] trace_simps)
  qed
  show ?thesis
    using assms
  proof (cases rule: recover_and_consume_cases)
    case (3 evs fin start s1 r s2)
    have "int (length (attempts (rs_trace s2))) \<le> rv_max_attempts env"
    proof (rule stream_loop_invariant [where I = "attempts_within env" and
            Q = "\<lambda>r s. int (length (attempts (rs_trace s))) \<le> rv_max_attempts env", OF _ _ _ 3(3)])
      show "attempts_within env (Some (evs, fin)) start s1" using call [OF 3(1)] by simp
    qed (erule (1) stream_turn_within stream_turn_ends_within)+
    then show ?thesis by (simp add: 3(4) trace_simps)
  qed (use call in auto)
qed

lemma stream_loop_done:
  assumes "recover_call env recover_start = (CallStream evs fin start, s1)"
    and "stream_loop env (Some (evs, fin)) start s1 = (r, s2)"
  shows "stream_done r s2"
proof (rule stream_loop_invariant [where I = "\<lambda>live j. turn_ok live" and Q = stream_done, OF _ _ _ assms(2)])
  have q: "yields (rs_trace s1) = [] \<and> rs_lifecycle s1 = create_stream_lifecycle"
    using recover_from_quiet [OF assms(1) [unfolded recover_call_def]] by (simp add: trace_simps)
  then have "gate_holds (rs_trace s1)" by (simp add: gate_holds_unyielded)
  then show "turn_ok (Some (evs, fin)) s1" using q by (simp add: turn_ok_def stream_ok_def)
qed (use stream_turn_ok in blast)+

lemma recovered_gate:
  assumes "recover_and_consume env recover_start = (c, s')"
  shows "gate_holds (rs_trace s') \<and> ends_terminal (yields (rs_trace s'))"
proof -
  have quiet: "gate_holds (rs_trace s1) \<and> ends_terminal (yields (rs_trace s1))"
    if "recover_call env recover_start = (r, s1)" for r s1
  proof -
    have y: "yields (rs_trace s1) = []"
      using recover_from_quiet [OF that [unfolded recover_call_def]] by (simp add: trace_simps)
    then show ?thesis by (simp add: gate_holds_unyielded ends_terminal_none)
  qed
  show ?thesis
    using assms
  proof (cases rule: recover_and_consume_cases)
    case (3 evs fin start s1 r s2)
    then show ?thesis using stream_loop_done [OF 3(1,3)]
      by (simp add: stream_done_def trace_simps gate_holds_snoc)
  qed (use quiet in blast)+
qed

lemma recovered_cleanup:
  assumes "recover_and_consume env recover_start = (c, s')"
    and "\<forall>e n. rv_wait env e n = None" and "\<forall>e n. rv_on_failure env e n = None" and "rv_pulls env 0"
  shows "cleanups (rs_trace s') = 1"
proof -
  have call: "cleanups (rs_trace s1) = (case r of CallStream evs fin start \<Rightarrow> 0 | _ \<Rightarrow> 1)"
    if "recover_call env recover_start = (r, s1)" for r s1
    using recover_from_cleanups [OF assms(2,3) that [unfolded recover_call_def]] by (simp add: trace_simps)
  show ?thesis
    using assms(1)
  proof (cases rule: recover_and_consume_cases)
    case (1 r)
    then show ?thesis using call by (cases r) auto
  next
    case (3 evs fin start s1 r s2)
    have "cleanups (rs_trace s2) = cleanups (rs_trace s1)"
      by (rule stream_loop_invariant [where I = "\<lambda>live j s. cleanups (rs_trace s) = cleanups (rs_trace s1)" and
            Q = "\<lambda>r s. cleanups (rs_trace s) = cleanups (rs_trace s1)", OF _ _ _ 3(3)])
        (auto dest: stream_turn_cleanups)
    then show ?thesis using call [OF 3(1)] by (simp add: 3(4) trace_simps)
  qed (use assms(4) in auto)
qed

text \<open>How a finished generator looks to the iterator that reads it.\<close>

fun result_end :: "stream_result \<Rightarrow> stream_end" where
  "result_end (SrThrows e) = StreamThrows (TvShaped e)"
| "result_end (SrRaises v) = StreamThrows v"
| "result_end _ = StreamEnds"

lemma ends_terminal_split:
  assumes "ends_terminal evs" and "list_ex is_terminal_event evs"
  shows "\<exists>body t. evs = body @ [t] \<and> is_terminal_event t \<and> \<not> list_ex is_terminal_event body"
proof -
  obtain t where "t \<in> set evs" "is_terminal_event t" using assms(2) by (auto simp: list_ex_iff)
  then obtain us vs where split: "evs = us @ t # vs" using split_list by fast
  then have "vs = []" using assms(1) \<open>is_terminal_event t\<close> unfolding ends_terminal_def by blast
  moreover have "\<not> list_ex is_terminal_event us"
  proof
    assume "list_ex is_terminal_event us"
    then obtain u ps qs where "us = ps @ u # qs" "is_terminal_event u"
      by (auto simp: list_ex_iff dest: split_list)
    then have "evs = ps @ u # (qs @ t # vs)" "is_terminal_event u" using split by simp_all
    then show False using assms(1) unfolding ends_terminal_def by blast
  qed
  ultimately show ?thesis using split \<open>is_terminal_event t\<close> by auto
qed

lemma retry_delay_bounds:
  assumes "0 \<le> random" and "random < 1"
  shows "0 \<le> retry_delay err n now_ms random \<and> retry_delay err n now_ms random \<le> 5000"
proof (cases "Option.bind (ce_retry_at err) parse_iso")
  case (Some t)
  then show ?thesis by (simp add: retry_delay_def Let_def)
next
  case None
  define base :: int where "base = min 2000 (50 * 2 ^ min n 6)"
  define j :: int where "j = min 50 (max 1 (base div 4))"
  have j: "0 \<le> j" "j \<le> 50" by (simp_all add: j_def)
  have "0 \<le> random * of_int j" using assms(1) j by simp
  moreover have "random * of_int j \<le> 1 * of_int j" using assms(2) j by (intro mult_right_mono) auto
  ultimately have "0 \<le> \<lfloor>random * of_int j\<rfloor>" "\<lfloor>random * of_int j\<rfloor> \<le> j"
    by (simp_all add: floor_le_iff)
  moreover have "0 \<le> base" "base \<le> 2000" by (simp_all add: base_def)
  ultimately have "0 \<le> base + \<lfloor>random * of_int j\<rfloor>" "base + \<lfloor>random * of_int j\<rfloor> \<le> 5000" using j by linarith+
  then show ?thesis using None by (simp only: retry_delay_def Let_def base_def j_def option.case)
qed

text \<open>An attempt whose failure is passed over: it is retried, and neither the hook nor the wait throws.\<close>

definition passed_over :: "recover_env \<Rightarrow> nat \<Rightarrow> bool" where
  "passed_over env i \<longleftrightarrow> (case rv_attempt env i of
      AttemptThrows v \<Rightarrow> (let e = to_provider_call_error (rv_map_error env) v
        in (case rv_should_retry env of Some f \<Rightarrow> f e | None \<Rightarrow> ce_retryable e) \<and>
           rv_on_failure env e i = None \<and> rv_wait env e (i + 1) = None)
    | _ \<Rightarrow> False)"

lemma recover_from_succeeds:
  assumes "\<forall>n. \<not> rv_aborted env n" and "\<forall>i < k. passed_over env i"
    and "rv_attempt env k = AttemptBody b u" and "int k < rv_max_attempts env"
  shows "index \<le> k \<Longrightarrow> \<exists>s'. recover_from env index l s = (CallBody b u, s') \<and> attempts (rs_trace s') = attempts (rs_trace s) @ [index ..< Suc k]"
proof (induction "k - index" arbitrary: index l s)
  case 0
  then show ?case using assms
    by (simp add: recover_from.simps [of env index] recover_turn_def read_signal_def Let_def trace_simps)
next
  case (Suc m)
  have passed: "passed_over env index" using assms(2) Suc by auto
  then obtain v where v: "rv_attempt env index = AttemptThrows v"
    by (auto simp: passed_over_def split: attempt_result.splits)
  have more: "\<not> rv_max_attempts env \<le> int index + 1" using Suc(2) assms(4) by linarith
  obtain s1 where s1: "recover_turn env index s = (Inr (to_provider_call_error (rv_map_error env) v), s1)"
      "attempts (rs_trace s1) = attempts (rs_trace s) @ [index]"
    using v passed assms(1) more
    by (auto simp: recover_turn_def read_signal_def should_retry_def passed_over_def Let_def trace_simps split: option.splits)
  have "[index ..< Suc k] = index # [Suc index ..< Suc k]" using Suc(2) by (simp add: upt_conv_Cons)
  moreover have "m = k - Suc index" "Suc index \<le> k" using Suc(2) by simp_all
  ultimately show ?case using Suc(1) [of "Suc index"] s1 more by (fastforce simp: recover_from.simps [of env index])
qed

subsection \<open>Properties\<close>

text \<open>Environments for the witnesses: a retryable upstream failure, then a scripted outcome.\<close>

definition sample_failure :: call_error where
  "sample_failure = \<lparr>ce_status_code = Some 503, ce_kind = ProviderUnavailable, ce_retryable = True,
     ce_route_scope = Some ScProvider, ce_source = SourceUpstream, ce_message = ''busy'', ce_retry_at = None\<rparr>"

definition sample_env :: "attempt_result list \<Rightarrow> recover_env" where
  "sample_env script = \<lparr>rv_attempt = (\<lambda>i. if i < length script then script ! i else AttemptThrows (TvShaped sample_failure)),
     rv_max_attempts = 3, rv_aborted = (\<lambda>n. False), rv_map_error = None, rv_should_retry = None,
     rv_on_failure = (\<lambda>e n. None), rv_wait = (\<lambda>e n. None), rv_pulls = (\<lambda>n. True)\<rparr>"

text \<open>
  C16: However the provider attempts, the hooks, the abort signal and the consumer behave, a request
  makes at most \<open>maxAttempts\<close> provider attempts, counting those of the pre-stream loop and those of
  the recoverable stream together, and none when \<open>maxAttempts\<close> is not positive.
\<close>

theorem recover_attempts_bounded:
  "int (length (attempts (rs_trace (snd (recover_and_consume env recover_start))))) \<le> max 0 (rv_max_attempts env)"
  by (rule recovered_within [where c = "fst (recover_and_consume env recover_start)"]) simp

text \<open>
  C17: Retries stop at the first committing event: once a meaningful delta or a terminal event was
  yielded to the consumer, no further provider attempt is made, and nothing is yielded after a
  terminal event. This holds for every trace of a call.
\<close>

theorem recover_never_retries_after_output:
  "gate_holds (rs_trace (snd (recover_and_consume env recover_start))) \<and>
   ends_terminal (yields (rs_trace (snd (recover_and_consume env recover_start))))"
  by (rule recovered_gate [where c = "fst (recover_and_consume env recover_start)"]) simp

text \<open>
  The cleanup stack runs exactly once over a whole call, on every path (body, final failure,
  abort, finished, failed or cancelled stream), provided no failure hook throws, no wait between
  attempts is aborted and a live stream is pulled at least once.
\<close>

theorem recover_cleanup_once:
  assumes "\<forall>e n. rv_wait env e n = None" and "\<forall>e n. rv_on_failure env e n = None" and "rv_pulls env 0"
  shows "cleanups (rs_trace (snd (recover_and_consume env recover_start))) = 1"
  by (rule recovered_cleanup [where c = "fst (recover_and_consume env recover_start)"]) (use assms in simp_all)

theorem recover_cleanup_once_witness:
  "cleanups (rs_trace (snd (recover_and_consume
     (sample_env [AttemptThrows (TvShaped sample_failure),
        AttemptStream [MessageStart ''m'', TextDelta ''hi''] (StreamThrows (TvShaped sample_failure)) None]) recover_start))) = 1"
  by (rule recover_cleanup_once) (simp_all add: sample_env_def)

text \<open>
  C19: The client of a stream always sees exactly one terminal event, and it is the last one: when a
  consumed stream was not cancelled, \<open>appendTerminalError\<close> over the recovered events gives a
  sequence with one terminal event at its end, which is the error event unless the provider
  finished the stream itself.
\<close>

theorem presented_stream_terminates_once:
  assumes "recover_and_consume env recover_start = (ConsumedStream r, s)" and "r \<noteq> SrCancelled"
  shows "\<exists>body t. fst (append_terminal_error (yields (rs_trace s)) (result_end r)) = body @ [t] \<and>
    is_terminal_event t \<and> \<not> list_ex is_terminal_event body \<and>
    (r \<noteq> SrFinished \<longrightarrow> t = terminal_error_event \<and> body = yields (rs_trace s))"
proof -
  from assms obtain evs fin start s1 s2 where
    "recover_call env recover_start = (CallStream evs fin start, s1)"
    "stream_loop env (Some (evs, fin)) start s1 = (r, s2)" and s: "s = emit_effect EfCleanup s2"
    by (auto elim: recover_and_consume_cases)
  then have fin: "stream_done r s2" using stream_loop_done by blast
  have y: "yields (rs_trace s) = yields (rs_trace s2)" by (simp add: s trace_simps)
  show ?thesis
  proof (cases "r = SrFinished")
    case True
    then show ?thesis using fin ends_terminal_split [of "yields (rs_trace s2)"]
      by (auto simp: y stream_done_def append_terminal_error_def Let_def)
  next
    case False
    then show ?thesis using fin assms(2)
      by (auto simp: y stream_done_def append_terminal_error_def terminal_error_event_def Let_def)
  qed
qed

theorem presented_stream_terminates_once_witness:
  "\<exists>body t. fst (append_terminal_error (yields (rs_trace (snd (recover_and_consume
       (sample_env [AttemptStream [TextDelta ''hi''] (StreamThrows (TvShaped sample_failure)) None]) recover_start))))
     (result_end (SrThrows sample_failure))) = body @ [t] \<and> is_terminal_event t \<and> \<not> list_ex is_terminal_event body \<and>
     (SrThrows sample_failure \<noteq> SrFinished \<longrightarrow> t = terminal_error_event \<and> body = yields (rs_trace (snd (recover_and_consume
       (sample_env [AttemptStream [TextDelta ''hi''] (StreamThrows (TvShaped sample_failure)) None]) recover_start))))"
proof (rule presented_stream_terminates_once)
  show "recover_and_consume (sample_env [AttemptStream [TextDelta ''hi''] (StreamThrows (TvShaped sample_failure)) None])
      recover_start = (ConsumedStream (SrThrows sample_failure), snd (recover_and_consume
       (sample_env [AttemptStream [TextDelta ''hi''] (StreamThrows (TvShaped sample_failure)) None]) recover_start))"
    by code_simp
qed simp

text \<open>
  C18: A transient failure does not reach the client: when each of the attempts before the \<open>k\<close>-th fails with
  an error that is retried (by the default rule a retryable one, else one the caller's \<open>shouldRetry\<close>
  accepts), the \<open>k\<close>-th one is within the budget and answers a body, and the client does not go away, the
  call returns that body, after exactly the attempts 0 to \<open>k\<close>. This needs an \<open>onRouteFailure\<close> hook and a
  wait that do not throw for those failures: what they throw ends the call.
\<close>

theorem recover_reaches_success:
  assumes "\<forall>n. \<not> rv_aborted env n"
    and "\<forall>i < k. \<exists>v e. rv_attempt env i = AttemptThrows v \<and> e = to_provider_call_error (rv_map_error env) v \<and>
      (case rv_should_retry env of Some f \<Rightarrow> f e | None \<Rightarrow> ce_retryable e) \<and> rv_on_failure env e i = None \<and> rv_wait env e (i + 1) = None"
    and "rv_attempt env k = AttemptBody b u" and "int k < rv_max_attempts env"
  shows "\<exists>s'. recover_call env s = (CallBody b u, s') \<and> attempts (rs_trace s') = attempts (rs_trace s) @ [0 ..< Suc k]"
proof -
  have "\<forall>i < k. passed_over env i" using assms(2) by (fastforce simp: passed_over_def)
  from recover_from_succeeds [OF assms(1) this assms(3,4)] show ?thesis by (simp add: recover_call_def)
qed

theorem recover_reaches_success_witness:
  "fst (recover_call (sample_env [AttemptThrows (TvShaped sample_failure), AttemptThrows (TvShaped sample_failure),
      AttemptBody [(''ok'', JBool True)] None]) recover_start) = CallBody [(''ok'', JBool True)] None"
proof -
  let ?env = "sample_env [AttemptThrows (TvShaped sample_failure), AttemptThrows (TvShaped sample_failure),
      AttemptBody [(''ok'', JBool True)] None]"
  have "\<exists>s'. recover_call ?env recover_start = (CallBody [(''ok'', JBool True)] None, s') \<and>
      attempts (rs_trace s') = attempts (rs_trace recover_start) @ [0 ..< Suc 2]"
    by (rule recover_reaches_success)
      (auto simp: sample_env_def sample_failure_def to_provider_call_error_def less_2_cases_iff)
  then show ?thesis by auto
qed

text \<open>
  The pause before a retry is never negative and never longer than five seconds, whatever
  \<open>Retry-After\<close> time the error carries, whatever retry it is and whatever jitter is drawn.
\<close>

theorem retry_delay_within:
  assumes "0 \<le> random" and "random < 1"
  shows "0 \<le> retry_delay err n now_ms random \<and> retry_delay err n now_ms random \<le> 5000"
  using assms by (rule retry_delay_bounds)

theorem retry_delay_within_witness:
  "0 \<le> retry_delay sample_failure 3 0 (1 / 2) \<and> retry_delay sample_failure 3 0 (1 / 2) \<le> 5000"
  by (rule retry_delay_within) simp_all

subsection \<open>Where the code departs from its documentation\<close>

text \<open>A client abort during the wait between attempts leaves the cleanup stack alone.\<close>

lemma aborted_wait_skips_cleanup:
  "cleanups (rs_trace (snd (recover_and_consume ((sample_env [AttemptThrows (TvShaped sample_failure)])
      \<lparr>rv_wait := \<lambda>e n. Some client_aborted_call_error\<rparr>) recover_start))) = 0"
  by code_simp

text \<open>
  The retry of a broken stream skips an index: the failure of attempt 0 is reported under index 1
  and attempt 2 follows. The caller picks candidates by index, so with two routes the healthy one
  is blamed and the broken one tried again.
\<close>

lemma stream_retry_skips_index:
  "rs_trace (snd (recover_and_consume (sample_env
      [AttemptStream [MessageStart ''m''] (StreamThrows (TvShaped sample_failure)) None,
       AttemptThrows (TvShaped sample_failure),
       AttemptStream [MessageStop SrCompleted] StreamEnds None]) recover_start)) =
   [EfAttempt 0, EfYield (MessageStart ''m''), EfClose, EfFailure sample_failure 1, EfWait sample_failure 2,
    EfAttempt 2, EfYield (MessageStop SrCompleted), EfClose, EfCleanup]"
  by code_simp

text \<open>A live stream whose consumer returns before the first pull never releases its resources.\<close>

lemma unpulled_stream_skips_cleanup:
  "cleanups (rs_trace (snd (recover_and_consume ((sample_env [AttemptStream [] StreamEnds None])
      \<lparr>rv_pulls := \<lambda>n. False\<rparr>) recover_start))) = 0"
  by code_simp

end
