(* ===== verification/PromptCache.thy ===== *)
theory PromptCache imports JsonText Contracts "HOL-Library.Word" begin

unbundle bit_operations_syntax

text \<open>
  Prompt-cache planning (\<open>src/domain/cache.ts\<close>): which content of a normalized request is stable,
  the last block of the stable prefix, which gets the provider's cache marker, and the fingerprint
  of that prefix. \<open>show_frac\<close> prints a number that is not a plain integer inside \<open>JSON.stringify\<close>.
\<close>

subsection \<open>Stable text\<close>

definition rx_digit :: rx where "rx_digit = Cls is_digit_char"

definition rx_hex :: rx where
  "rx_hex = Cls (\<lambda>c. is_digit_char c \<or> lower_char c \<in> set ''abcdef'')"

definition rx_upper :: rx where
  "rx_upper = Cls (\<lambda>c. 65 \<le> char_code c \<and> char_code c \<le> 90)"

definition ISO_TIMESTAMP :: rx where
  "ISO_TIMESTAMP = rx_seq
    [rx_times 4 rx_digit, lit ''-'', rx_times 2 rx_digit, lit ''-'', rx_times 2 rx_digit, one_of ''T '',
     rx_times 2 rx_digit, lit '':'', rx_times 2 rx_digit,
     rx_opt (rx_seq [lit '':'', rx_times 2 rx_digit, rx_opt (rx_seq [lit ''.'', rx_plus rx_digit])])]"

definition UUID_RX :: rx where
  "UUID_RX = rx_seq
    [rx_times 8 rx_hex, lit ''-'', rx_times 4 rx_hex, lit ''-'', rx_times 4 rx_hex, lit ''-'',
     rx_times 4 rx_hex, lit ''-'', rx_times 12 rx_hex]"

definition PEM_BLOCK :: rx where
  "PEM_BLOCK = rx_seq
    [lit ''-----BEGIN '', rx_upper, Star (Or rx_upper (lit '' '')), lit ''-----'']"

definition looks_stable_text :: "string \<Rightarrow> bool" where
  "looks_stable_text t =
    (if rx_test ISO_TIMESTAMP t then False
     else if rx_test UUID_RX t then False
     else if rx_test PEM_BLOCK t then False
     else True)"

subsection \<open>Sections\<close>

datatype section_kind = SkSystem | SkDeveloper | SkTools | SkStaticContext | SkStableHistory | SkDynamic

record cache_section =
  cs_kind :: section_kind
  cs_message_index :: "nat option"
  cs_block_index :: "nat option"
  cs_stable :: bool
  cs_char_length :: int

definition section_kind_of :: "role \<Rightarrow> bool \<Rightarrow> section_kind" where
  "section_kind_of r saw_assistant = (case r of
      RoSystem \<Rightarrow> SkSystem
    | RoDeveloper \<Rightarrow> SkDeveloper
    | RoUser \<Rightarrow> if saw_assistant then SkStableHistory else SkStaticContext
    | RoAssistant \<Rightarrow> SkStableHistory
    | RoTool \<Rightarrow> SkDynamic)"

definition block_stable :: "role \<Rightarrow> content_block \<Rightarrow> bool" where
  "block_stable r b =
    (let cacheable_role = (r = RoSystem \<or> r = RoDeveloper \<or> r = RoUser \<or> r = RoAssistant);
         is_text = (cb_type b = BtText \<and> cb_text b \<noteq> None)
     in cacheable_role \<and> is_text \<and> looks_stable_text (or_empty (cb_text b)))"

fun mark_blocks :: "role \<Rightarrow> bool \<Rightarrow> nat \<Rightarrow> nat \<Rightarrow> content_block list \<Rightarrow> cache_section list" where
  "mark_blocks r saw i j [] = []"
| "mark_blocks r saw i j (b # bs) =
     \<lparr>cs_kind = section_kind_of r saw, cs_message_index = Some i, cs_block_index = Some j,
      cs_stable = block_stable r b, cs_char_length = int (length (or_empty (cb_text b)))\<rparr>
     # mark_blocks r saw i (Suc j) bs"

fun mark_messages :: "bool \<Rightarrow> nat \<Rightarrow> message list \<Rightarrow> cache_section list" where
  "mark_messages saw i [] = []"
| "mark_messages saw i (m # ms) =
     (let saw = (saw \<or> msg_role m = RoAssistant)
      in mark_blocks (msg_role m) saw i 0 (msg_content m) @ mark_messages saw (Suc i) ms)"

definition insertion_index :: "cache_section list \<Rightarrow> nat" where
  "insertion_index ss = length (takeWhile (\<lambda>x. cs_kind x = SkSystem \<or> cs_kind x = SkDeveloper) ss)"

definition tool_json :: "tool \<Rightarrow> json" where
  "tool_json t = JObj
    ([(''name'', JStr (tl_name t)),
      (''description'', case tl_description t of None \<Rightarrow> JNull | Some d \<Rightarrow> JStr d),
      (''inputSchema'', JObj (tl_schema t))] @
     (case tl_schema_length t of None \<Rightarrow> [] | Some n \<Rightarrow> [(''schemaJsonLength'', JNum (Num (of_int n)))]))"

definition tools_char_length :: "(rat \<Rightarrow> string) \<Rightarrow> tool list \<Rightarrow> int" where
  "tools_char_length show_frac tools = sum_list (map (\<lambda>t.
     int (length (tl_name t)) + int (length (or_empty (tl_description t))) +
     (case tl_schema_length t of
        Some n \<Rightarrow> n
      | None \<Rightarrow> int (length (json_text show_frac (JObj (tl_schema t)))))) tools)"

definition mark_cache_sections :: "(rat \<Rightarrow> string) \<Rightarrow> normalized_request \<Rightarrow> cache_section list" where
  "mark_cache_sections show_frac req =
    (let sections = mark_messages False 0 (nr_messages req)
     in if nr_tools req \<noteq> []
        then let k = insertion_index sections
          in take k sections @
             [\<lparr>cs_kind = SkTools, cs_message_index = None, cs_block_index = None, cs_stable = True,
               cs_char_length = tools_char_length show_frac (nr_tools req)\<rparr>] @ drop k sections
        else sections)"

subsection \<open>The fingerprint\<close>

text \<open>FNV-1a on 64-bit words; \<open>(hash * prime) & mask\<close> is the word product.\<close>

definition fnv64_step :: "64 word \<Rightarrow> char \<Rightarrow> 64 word" where
  "fnv64_step h c =
    (let code = char_code c;
         h = (h XOR word_of_nat (code mod 256)) * 0x100000001b3
     in (h XOR word_of_nat (code div 256)) * 0x100000001b3)"

fun hex_str :: "nat \<Rightarrow> string" where
  "hex_str n = (if n < 16 then [hex_char n] else hex_str (n div 16) @ [hex_char (n mod 16)])"

declare hex_str.simps [simp del]

definition pad_start :: "nat \<Rightarrow> char \<Rightarrow> string \<Rightarrow> string" where
  "pad_start n c s = replicate (n - length s) c @ s"

definition fnv1a64 :: "string \<Rightarrow> string" where
  "fnv1a64 input = pad_start 16 CHR ''0'' (hex_str (unat (foldl fnv64_step 0xcbf29ce484222325 input)))"

subsection \<open>The plan\<close>

record cache_plan =
  cp_sections :: "cache_section list"
  cp_tools_stable :: bool
  cp_has_prefix :: bool
  cp_end_message :: "nat option"
  cp_end_block :: "nat option"
  cp_fingerprint :: "string option"

definition cacheable_section :: "cache_section \<Rightarrow> bool" where
  "cacheable_section x \<longleftrightarrow> cs_kind x = SkSystem \<or> cs_kind x = SkDeveloper \<or> cs_kind x = SkStaticContext \<or> cs_kind x = SkStableHistory"

definition nth_opt :: "'a list \<Rightarrow> nat \<Rightarrow> 'a option" where
  "nth_opt xs i = (if i < length xs then Some (xs ! i) else None)"

definition section_text :: "message list \<Rightarrow> cache_section \<Rightarrow> string" where
  "section_text ms x =
    (case cs_message_index x of
       None \<Rightarrow> []
     | Some i \<Rightarrow> (case nth_opt ms i of
         None \<Rightarrow> []
       | Some m \<Rightarrow> (case cs_block_index x of
           None \<Rightarrow> []
         | Some j \<Rightarrow> (case nth_opt (msg_content m) j of None \<Rightarrow> [] | Some b \<Rightarrow> or_empty (cb_text b)))))"

record plan_scan =
  ps_text :: "string list"
  ps_end_message :: "nat option"
  ps_end_block :: "nat option"
  ps_in_prefix :: bool

definition plan_step :: "message list \<Rightarrow> cache_section \<Rightarrow> plan_scan \<Rightarrow> plan_scan" where
  "plan_step ms x s =
    (if cs_kind x = SkTools then s
     else if \<not> ps_in_prefix s then s
     else if cacheable_section x \<and> cs_stable x
     then s\<lparr>ps_end_message := cs_message_index x, ps_end_block := cs_block_index x,
            ps_text := ps_text s @ [section_text ms x]\<rparr>
     else s\<lparr>ps_in_prefix := False\<rparr>)"

definition plan_scan_start :: plan_scan where
  "plan_scan_start = \<lparr>ps_text = [], ps_end_message = None, ps_end_block = None, ps_in_prefix = True\<rparr>"

definition build_cache_plan :: "(rat \<Rightarrow> string) \<Rightarrow> normalized_request \<Rightarrow> cache_plan" where
  "build_cache_plan show_frac req =
    (let sections = mark_cache_sections show_frac req;
         s = fold (plan_step (nr_messages req)) sections plan_scan_start;
         tools_stable = (nr_tools req \<noteq> []);
         has_prefix = (ps_end_message s \<noteq> None);
         prefix_text = ps_text s @
           (if tools_stable then [json_text show_frac (JArr (map tool_json (nr_tools req)))] else [])
     in \<lparr>cp_sections = sections, cp_tools_stable = tools_stable, cp_has_prefix = has_prefix,
         cp_end_message = ps_end_message s, cp_end_block = ps_end_block s,
         cp_fingerprint = (if has_prefix then Some (fnv1a64 (join_with [CHR 0x00] prefix_text)) else None)\<rparr>)"

definition map_nth :: "('a \<Rightarrow> 'a) \<Rightarrow> nat \<Rightarrow> 'a list \<Rightarrow> 'a list" where
  "map_nth f i xs = map (\<lambda>(k, x). if k \<noteq> i then x else f x) (enumerate 0 xs)"

definition apply_cache_plan :: "normalized_request \<Rightarrow> cache_plan \<Rightarrow> normalized_request" where
  "apply_cache_plan req plan =
    (if \<not> cp_has_prefix plan \<or> cp_fingerprint plan = None then req
     else let keyed = req\<lparr>nr_cache_key := cp_fingerprint plan\<rparr>
       in case (cp_end_message plan, cp_end_block plan) of
         (Some i, Some j) \<Rightarrow>
           (case nth_opt (nr_messages req) i of
              None \<Rightarrow> keyed
            | Some m \<Rightarrow>
              if nth_opt (msg_content m) j = None then keyed
              else keyed\<lparr>nr_messages := map_nth (\<lambda>m. m\<lparr>msg_content :=
                     map_nth (\<lambda>b. b\<lparr>cb_ephemeral := True\<rparr>) j (msg_content m)\<rparr>) i (nr_messages req)\<rparr>)
       | _ \<Rightarrow> keyed)"

subsection \<open>The marked sections\<close>

lemma mark_blocks_mem:
  "x \<in> set (mark_blocks r saw i k bs) \<Longrightarrow> \<exists>j < length bs. x =
     \<lparr>cs_kind = section_kind_of r saw, cs_message_index = Some i, cs_block_index = Some (k + j),
      cs_stable = block_stable r (bs ! j), cs_char_length = int (length (or_empty (cb_text (bs ! j))))\<rparr>"
proof (induction bs arbitrary: k)
  case (Cons b bs)
  consider "x = hd (mark_blocks r saw i k (b # bs))" | "x \<in> set (mark_blocks r saw i (Suc k) bs)"
    using Cons.prems by auto
  then show ?case
  proof cases
    case 1
    then show ?thesis by (intro exI [of _ 0]) simp
  next
    case 2
    then obtain j where "j < length bs" and "x =
       \<lparr>cs_kind = section_kind_of r saw, cs_message_index = Some i, cs_block_index = Some (Suc k + j),
        cs_stable = block_stable r (bs ! j), cs_char_length = int (length (or_empty (cb_text (bs ! j))))\<rparr>"
      using Cons.IH by blast
    then show ?thesis by (intro exI [of _ "Suc j"]) simp
  qed
qed simp

lemma mark_messages_mem:
  "x \<in> set (mark_messages saw k ms) \<Longrightarrow> \<exists>i j saw'. i < length ms \<and> j < length (msg_content (ms ! i)) \<and> x =
     \<lparr>cs_kind = section_kind_of (msg_role (ms ! i)) saw', cs_message_index = Some (k + i), cs_block_index = Some j,
      cs_stable = block_stable (msg_role (ms ! i)) (msg_content (ms ! i) ! j),
      cs_char_length = int (length (or_empty (cb_text (msg_content (ms ! i) ! j))))\<rparr>"
proof (induction ms arbitrary: saw k)
  case (Cons m ms)
  let ?saw = "saw \<or> msg_role m = RoAssistant"
  consider "x \<in> set (mark_blocks (msg_role m) ?saw k 0 (msg_content m))" | "x \<in> set (mark_messages ?saw (Suc k) ms)"
    using Cons.prems by (auto simp: Let_def)
  then show ?case
  proof cases
    case 1
    from mark_blocks_mem [OF this] obtain j where "j < length (msg_content m)" and "x =
     \<lparr>cs_kind = section_kind_of (msg_role m) ?saw, cs_message_index = Some k, cs_block_index = Some (0 + j),
      cs_stable = block_stable (msg_role m) (msg_content m ! j),
      cs_char_length = int (length (or_empty (cb_text (msg_content m ! j))))\<rparr>" by blast
    then show ?thesis by (intro exI [of _ 0] exI [of _ j] exI [of _ ?saw]) simp
  next
    case 2
    from Cons.IH [OF this] obtain i j saw' where "i < length ms" "j < length (msg_content (ms ! i))" and "x =
     \<lparr>cs_kind = section_kind_of (msg_role (ms ! i)) saw', cs_message_index = Some (Suc k + i), cs_block_index = Some j,
      cs_stable = block_stable (msg_role (ms ! i)) (msg_content (ms ! i) ! j),
      cs_char_length = int (length (or_empty (cb_text (msg_content (ms ! i) ! j))))\<rparr>" by blast
    then show ?thesis by (intro exI [of _ "Suc i"] exI [of _ j] exI [of _ saw']) simp
  qed
qed simp

lemma section_kind_of_not_tools [simp]: "section_kind_of r saw \<noteq> SkTools"
  by (cases r) (simp_all add: section_kind_of_def)

lemma mark_messages_append:
  "mark_messages saw k (ms @ ns) = mark_messages saw k ms @
     mark_messages (saw \<or> (\<exists>m \<in> set ms. msg_role m = RoAssistant)) (k + length ms) ns"
  by (induction ms arbitrary: saw k) (auto simp: Let_def)

subsection \<open>The stable prefix\<close>

definition in_stable_prefix :: "cache_section \<Rightarrow> bool" where
  "in_stable_prefix x \<longleftrightarrow> cacheable_section x \<and> cs_stable x"

text \<open>The specification of the scan: the longest prefix of cacheable stable sections.\<close>

definition stable_prefix :: "message list \<Rightarrow> cache_section list" where
  "stable_prefix ms = takeWhile in_stable_prefix (mark_messages False 0 ms)"

lemma plan_fold_out: "\<not> ps_in_prefix s \<Longrightarrow> fold (plan_step ms) xs s = s"
  by (induction xs arbitrary: s) (simp_all add: plan_step_def)

lemma plan_fold:
  assumes "\<forall>x \<in> set xs. cs_kind x \<noteq> SkTools" and "ps_in_prefix s"
  shows "ps_text (fold (plan_step ms) xs s) = ps_text s @ map (section_text ms) (takeWhile in_stable_prefix xs) \<and>
    ps_end_message (fold (plan_step ms) xs s) =
      (case rev (takeWhile in_stable_prefix xs) of [] \<Rightarrow> ps_end_message s | x # _ \<Rightarrow> cs_message_index x) \<and>
    ps_end_block (fold (plan_step ms) xs s) =
      (case rev (takeWhile in_stable_prefix xs) of [] \<Rightarrow> ps_end_block s | x # _ \<Rightarrow> cs_block_index x)"
  using assms
proof (induction xs arbitrary: s)
  case (Cons x xs)
  show ?case
  proof (cases "in_stable_prefix x")
    case True
    let ?s = "s\<lparr>ps_end_message := cs_message_index x, ps_end_block := cs_block_index x, ps_text := ps_text s @ [section_text ms x]\<rparr>"
    have step: "plan_step ms x s = ?s" using True Cons.prems by (simp add: plan_step_def in_stable_prefix_def)
    have "ps_in_prefix ?s" using Cons.prems(2) by simp
    note ih = Cons.IH [OF _ this]
    show ?thesis using ih Cons.prems(1) True step by (auto split: list.split)
  next
    case False
    then have "plan_step ms x s = s\<lparr>ps_in_prefix := False\<rparr>"
      using Cons.prems by (auto simp: plan_step_def in_stable_prefix_def)
    then show ?thesis using False by (simp add: plan_fold_out)
  qed
qed simp

lemma plan_step_tools: "cs_kind x = SkTools \<Longrightarrow> plan_step ms x = id"
  by (simp add: plan_step_def fun_eq_iff)

lemma plan_fold_sections:
  "fold (plan_step ms) (mark_cache_sections show_frac req) s = fold (plan_step ms) (mark_messages False 0 (nr_messages req)) s"
proof -
  let ?xs = "mark_messages False 0 (nr_messages req)" and ?k = "insertion_index (mark_messages False 0 (nr_messages req))"
  have "fold (plan_step ms) ?xs s = fold (plan_step ms) (drop ?k ?xs) (fold (plan_step ms) (take ?k ?xs) s)"
    by (metis append_take_drop_id comp_apply fold_append)
  then show ?thesis by (simp add: mark_cache_sections_def Let_def plan_step_tools)
qed

lemma mark_messages_no_tools: "\<forall>x \<in> set (mark_messages saw k ms). cs_kind x \<noteq> SkTools"
  using mark_messages_mem by fastforce

definition prefix_key :: "(rat \<Rightarrow> string) \<Rightarrow> normalized_request \<Rightarrow> string" where
  "prefix_key show_frac req = join_with [CHR 0x00]
     (map (section_text (nr_messages req)) (stable_prefix (nr_messages req)) @
      (if nr_tools req \<noteq> [] then [json_text show_frac (JArr (map tool_json (nr_tools req)))] else []))"

lemma build_cache_plan_eq:
  "build_cache_plan show_frac req = \<lparr>cp_sections = mark_cache_sections show_frac req, cp_tools_stable = (nr_tools req \<noteq> []),
     cp_has_prefix = (stable_prefix (nr_messages req) \<noteq> []),
     cp_end_message = (case rev (stable_prefix (nr_messages req)) of [] \<Rightarrow> None | x # _ \<Rightarrow> cs_message_index x),
     cp_end_block = (case rev (stable_prefix (nr_messages req)) of [] \<Rightarrow> None | x # _ \<Rightarrow> cs_block_index x),
     cp_fingerprint = (if stable_prefix (nr_messages req) \<noteq> [] then Some (fnv1a64 (prefix_key show_frac req)) else None)\<rparr>"
proof -
  let ?ms = "nr_messages req"
  note f = plan_fold [OF mark_messages_no_tools, of plan_scan_start ?ms False 0 ?ms, folded stable_prefix_def]
  have idx: "x \<in> set (stable_prefix ?ms) \<Longrightarrow> cs_message_index x \<noteq> None" for x
    using mark_messages_mem [of x False 0 ?ms] set_takeWhileD [of x in_stable_prefix]
    by (fastforce simp: stable_prefix_def)
  have has: "ps_end_message (fold (plan_step ?ms) (mark_messages False 0 ?ms) plan_scan_start) \<noteq> None \<longleftrightarrow> stable_prefix ?ms \<noteq> []"
  proof (cases "rev (stable_prefix ?ms)")
    case (Cons x xs)
    then have "x \<in> set (stable_prefix ?ms)" by (metis list.set_intros(1) set_rev)
    then show ?thesis using Cons f idx by (auto simp: plan_scan_start_def)
  qed (use f in \<open>auto simp: plan_scan_start_def\<close>)
  show ?thesis
    unfolding build_cache_plan_def prefix_key_def plan_fold_sections Let_def has
    using f by (simp add: plan_scan_start_def split: list.splits)
qed

lemma map_nth_update: "map_nth f i xs = (if i < length xs then xs[i := f (xs ! i)] else xs)"
  by (auto simp: map_nth_def intro!: nth_equalityI simp: nth_list_update nth_enumerate_eq)

text \<open>The end of the stable prefix is a stable text block of a message that is not a tool result.\<close>

lemma stable_prefix_end:
  assumes "rev (stable_prefix ms) = x # xs"
  shows "\<exists>i j. cs_message_index x = Some i \<and> cs_block_index x = Some j \<and> i < length ms \<and>
    j < length (msg_content (ms ! i)) \<and> block_stable (msg_role (ms ! i)) (msg_content (ms ! i) ! j)"
proof -
  have mem: "x \<in> set (stable_prefix ms)" using assms by (metis list.set_intros(1) set_rev)
  then have "x \<in> set (mark_messages False 0 ms)" and stable: "cs_stable x"
    by (auto simp: stable_prefix_def in_stable_prefix_def dest: set_takeWhileD)
  from mark_messages_mem [OF this(1)] obtain i j where "i < length ms" "j < length (msg_content (ms ! i))"
    "cs_message_index x = Some (0 + i)" "cs_block_index x = Some j"
    "cs_stable x = block_stable (msg_role (ms ! i)) (msg_content (ms ! i) ! j)" by fastforce
  then show ?thesis using stable by auto
qed

definition mark_block :: "nat \<Rightarrow> nat \<Rightarrow> message list \<Rightarrow> message list" where
  "mark_block i j ms = ms[i := (ms ! i)\<lparr>msg_content := (msg_content (ms ! i))[j := (msg_content (ms ! i) ! j)\<lparr>cb_ephemeral := True\<rparr>]\<rparr>]"

lemma apply_built_plan:
  assumes "rev (stable_prefix (nr_messages req)) = x # xs"
    and "cs_message_index x = Some i" and "cs_block_index x = Some j"
    and "i < length (nr_messages req)" and "j < length (msg_content (nr_messages req ! i))"
  shows "apply_cache_plan req (build_cache_plan show_frac req) =
    req\<lparr>nr_cache_key := Some (fnv1a64 (prefix_key show_frac req)), nr_messages := mark_block i j (nr_messages req)\<rparr>"
proof -
  have "stable_prefix (nr_messages req) \<noteq> []" using assms(1) by auto
  then show ?thesis
    using assms by (simp add: apply_cache_plan_def build_cache_plan_eq nth_opt_def map_nth_update mark_block_def Let_def)
qed

lemma apply_empty_plan:
  "stable_prefix (nr_messages req) = [] \<Longrightarrow> apply_cache_plan req (build_cache_plan show_frac req) = req"
  by (simp add: apply_cache_plan_def build_cache_plan_eq)

lemma hex_str_digits: "n < 16 ^ Suc k \<Longrightarrow> length (hex_str n) \<le> Suc k \<and> set (hex_str n) \<subseteq> hex_char ` {..<16}"
proof (induction k arbitrary: n)
  case 0
  then show ?case by (subst (1 2) hex_str.simps) auto
next
  case (Suc k)
  show ?case
  proof (cases "n < 16")
    case False
    have "n div 16 < 16 ^ Suc k" using Suc.prems by (simp add: less_mult_imp_div_less)
    from Suc.IH [OF this] show ?thesis using False by (subst (1 2) hex_str.simps) auto
  qed (subst (1 2) hex_str.simps; auto)
qed

lemma fnv1a64_shape: "length (fnv1a64 s) = 16 \<and> set (fnv1a64 s) \<subseteq> hex_char ` {..<16}"
proof -
  let ?n = "unat (foldl fnv64_step 0xcbf29ce484222325 s)"
  have "?n < 16 ^ Suc 15" using unsigned_less [of "foldl fnv64_step 0xcbf29ce484222325 s"] by simp
  from hex_str_digits [OF this] have h: "length (hex_str ?n) \<le> 16" "set (hex_str ?n) \<subseteq> hex_char ` {..<16}" by auto
  have "CHR ''0'' = hex_char 0" by code_simp
  then show ?thesis using h by (auto simp: fnv1a64_def pad_start_def)
qed

lemma stable_prefix_append:
  assumes "stable_prefix ms \<noteq> mark_messages False 0 ms"
  shows "stable_prefix (ms @ ns) = stable_prefix ms"
proof -
  obtain x where "x \<in> set (mark_messages False 0 ms)" and "\<not> in_stable_prefix x"
    using assms by (metis stable_prefix_def takeWhile_eq_all_conv)
  then show ?thesis by (simp add: stable_prefix_def mark_messages_append takeWhile_append1)
qed

lemma section_text_append:
  "x \<in> set (mark_messages saw 0 ms) \<Longrightarrow> section_text (ms @ ns) x = section_text ms x"
  using mark_messages_mem [of x saw 0 ms] by (auto simp: section_text_def nth_opt_def nth_append)

lemma prefix_key_append:
  assumes "stable_prefix (nr_messages req) \<noteq> mark_messages False 0 (nr_messages req)"
  shows "prefix_key show_frac (req\<lparr>nr_messages := nr_messages req @ ns\<rparr>) = prefix_key show_frac req"
proof -
  have "\<forall>x \<in> set (stable_prefix (nr_messages req)).
      section_text (nr_messages req @ ns) x = section_text (nr_messages req) x"
    using section_text_append [where saw = False] by (auto simp: stable_prefix_def dest: set_takeWhileD)
  then show ?thesis
    by (simp add: prefix_key_def stable_prefix_append [OF assms] cong: map_cong)
qed

subsection \<open>Properties\<close>

text \<open>
  The cache marker goes to exactly one place: planning and applying the plan leaves a request
  without stable prefix as it was, and otherwise sets the cache key and the marker of one block,
  which is stable text of a message that is not a tool result; every other block, text, tool and
  field of the request stays as it was.
\<close>

theorem cache_marks_one_stable_block:
  "let req' = apply_cache_plan req (build_cache_plan show_frac req) in
   (stable_prefix (nr_messages req) = [] \<and> req' = req) \<or>
   (\<exists>i j key. i < length (nr_messages req) \<and> j < length (msg_content (nr_messages req ! i)) \<and>
      block_stable (msg_role (nr_messages req ! i)) (msg_content (nr_messages req ! i) ! j) \<and>
      length key = 16 \<and>
      req' = req\<lparr>nr_cache_key := Some key, nr_messages := mark_block i j (nr_messages req)\<rparr>)"
proof (cases "rev (stable_prefix (nr_messages req))")
  case (Cons x xs)
  from stable_prefix_end [OF Cons] obtain i j where ij: "cs_message_index x = Some i" "cs_block_index x = Some j"
    "i < length (nr_messages req)" "j < length (msg_content (nr_messages req ! i))"
    "block_stable (msg_role (nr_messages req ! i)) (msg_content (nr_messages req ! i) ! j)" by blast
  show ?thesis
    unfolding Let_def apply_built_plan [OF Cons ij(1-4)] using ij fnv1a64_shape by blast
qed (use apply_empty_plan in \<open>simp add: Let_def\<close>)

text \<open>
  C39: The fingerprint identifies the stable prefix only: once the prefix of a conversation has
  ended, turns appended to it change neither the cache key nor the marked block, so later requests
  of the conversation hit the same cache entry.
\<close>

theorem cache_key_survives_new_turns:
  assumes "stable_prefix (nr_messages req) \<noteq> mark_messages False 0 (nr_messages req)"
  shows "cp_fingerprint (build_cache_plan show_frac (req\<lparr>nr_messages := nr_messages req @ ns\<rparr>)) =
      cp_fingerprint (build_cache_plan show_frac req) \<and>
    cp_end_message (build_cache_plan show_frac (req\<lparr>nr_messages := nr_messages req @ ns\<rparr>)) =
      cp_end_message (build_cache_plan show_frac req) \<and>
    cp_end_block (build_cache_plan show_frac (req\<lparr>nr_messages := nr_messages req @ ns\<rparr>)) =
      cp_end_block (build_cache_plan show_frac req)"
  by (simp add: build_cache_plan_eq stable_prefix_append [OF assms] prefix_key_append [OF assms])

definition sample_turns :: "message list" where
  "sample_turns = [\<lparr>msg_role = RoSystem, msg_content = [text_block ''be brief''], msg_reasoning = None\<rparr>,
     \<lparr>msg_role = RoTool, msg_content = [text_block ''42''], msg_reasoning = None\<rparr>]"

definition sample_planned :: normalized_request where
  "sample_planned = \<lparr>nr_model = ''m'', nr_messages = sample_turns, nr_tools = [], nr_stream = False,
     nr_response_format = RfText, nr_reasoning = RmDefault, nr_reasoning_config = None, nr_include = None,
     nr_max_output_tokens = None, nr_images = [], nr_image_operation = None, nr_source_surface = SfChat,
     nr_limits = \<lparr>rl_max_body_bytes = 1, rl_connect_timeout_ms = 1, rl_first_byte_timeout_ms = 1,
       rl_idle_timeout_ms = 1, rl_total_timeout_ms = 1\<rparr>, nr_cache_key = None, nr_metadata_user_id = None\<rparr>"

lemma sample_prefix: "map cs_block_index (stable_prefix sample_turns) = [Some 0]"
  by code_simp

theorem cache_key_survives_new_turns_witness:
  "cp_fingerprint (build_cache_plan (\<lambda>q. []) (sample_planned\<lparr>nr_messages := sample_turns @ sample_turns\<rparr>)) =
   cp_fingerprint (build_cache_plan (\<lambda>q. []) sample_planned)"
proof -
  have "stable_prefix (nr_messages sample_planned) \<noteq> mark_messages False 0 (nr_messages sample_planned)"
    using arg_cong [OF sample_prefix, of length] by (auto simp: sample_planned_def sample_turns_def text_block_def block_of_def)
  from cache_key_survives_new_turns [OF this, of "\<lambda>q. []" sample_turns] show ?thesis
    by (simp add: sample_planned_def)
qed

end
