(* ===== verification/FilterRules.thy ===== *)
theory FilterRules imports Contracts JsText "HOL-Library.Sublist" begin

text \<open>
  The content filter (\<open>src/domain/filter-rules.ts\<close>): pattern and replacement rules over the text
  of a normalized request. \<open>new RegExp(pattern, "gi")\<close> is the argument \<open>compile_rx\<close>: \<open>None\<close> when it
  throws, else the function that maps a replacement and a text to \<open>text.replace(regex, replacement)\<close>.
\<close>

subsection \<open>Rules\<close>

record filter_rule =
  fr_pattern :: string
  fr_replacement :: string
  fr_is_regex :: bool

record filter_config =
  fc_enabled :: bool
  fc_rules :: "filter_rule list"

type_synonym rx_compiler = "string \<Rightarrow> (string \<Rightarrow> string \<Rightarrow> string) option"

datatype compiled_rule = RxRule "string \<Rightarrow> string \<Rightarrow> string" string | LitRule string string

definition compile_rule :: "rx_compiler \<Rightarrow> filter_rule \<Rightarrow> compiled_rule option" where
  "compile_rule compile_rx r =
    (if fr_is_regex r
     then map_option (\<lambda>f. RxRule f (fr_replacement r)) (compile_rx (fr_pattern r))
     else Some (LitRule (fr_pattern r) (fr_replacement r)))"

text \<open>\<open>text.split(pattern)\<close> for a pattern that is not empty: cut at the leftmost occurrences.\<close>

function split_str_from :: "string \<Rightarrow> string \<Rightarrow> string \<Rightarrow> string list" where
  "split_str_from p acc s =
    (if p \<noteq> [] \<and> prefix p s then rev acc # split_str_from p [] (drop (length p) s)
     else case s of [] \<Rightarrow> [rev acc] | c # cs \<Rightarrow> split_str_from p (c # acc) cs)"
  by pat_completeness auto
termination
  by (relation "measure (\<lambda>(p, acc, s). length s)") (auto simp: prefix_def)

declare split_str_from.simps [simp del]

definition split_str :: "string \<Rightarrow> string \<Rightarrow> string list" where
  "split_str p s = split_str_from p [] s"

fun apply_rule :: "compiled_rule \<Rightarrow> string \<Rightarrow> string" where
  "apply_rule (RxRule f rep) s = f rep s"
| "apply_rule (LitRule p rep) s = (if 0 < length p then join_with rep (split_str p s) else s)"

definition filter_text :: "compiled_rule list \<Rightarrow> string \<Rightarrow> string" where
  "filter_text rules s = fold apply_rule rules s"

subsection \<open>Blocks, messages, tools and requests\<close>

definition nonempty :: "string option \<Rightarrow> bool" where
  "nonempty s \<longleftrightarrow> (case s of None \<Rightarrow> False | Some t \<Rightarrow> 0 < length t)"

definition filter_block :: "compiled_rule list \<Rightarrow> content_block \<Rightarrow> content_block" where
  "filter_block rules b =
    (if cb_type b = BtText \<and> nonempty (cb_text b)
     then b\<lparr>cb_text := Some (filter_text rules (the (cb_text b)))\<rparr> else b)"

definition filter_message :: "compiled_rule list \<Rightarrow> message \<Rightarrow> message" where
  "filter_message rules m =
    m\<lparr>msg_content := map (filter_block rules) (msg_content m),
      msg_reasoning := (if nonempty (msg_reasoning m)
        then Some (filter_text rules (the (msg_reasoning m))) else msg_reasoning m)\<rparr>"

definition filter_tool :: "compiled_rule list \<Rightarrow> tool \<Rightarrow> tool" where
  "filter_tool rules t =
    (if nonempty (tl_description t)
     then t\<lparr>tl_description := Some (filter_text rules (the (tl_description t)))\<rparr> else t)"

definition has_text :: "normalized_request \<Rightarrow> bool" where
  "has_text req \<longleftrightarrow>
     list_ex (\<lambda>m. list_ex (\<lambda>b. cb_type b = BtText \<and> nonempty (cb_text b)) (msg_content m)) (nr_messages req) \<or>
     list_ex (\<lambda>t. nonempty (tl_description t)) (nr_tools req)"

text \<open>Objects that did not change are shared; as values the shared and the copied ones are equal.\<close>

definition apply_filter_rules :: "rx_compiler \<Rightarrow> normalized_request \<Rightarrow> filter_config \<Rightarrow> normalized_request" where
  "apply_filter_rules compile_rx req cfg =
    (if \<not> fc_enabled cfg \<or> fc_rules cfg = [] \<or> nr_messages req = [] then req
     else if \<not> has_text req then req
     else let compiled = List.map_filter (compile_rule compile_rx) (fc_rules cfg)
       in if compiled = [] then req
          else req\<lparr>nr_messages := map (filter_message compiled) (nr_messages req),
                   nr_tools := map (filter_tool compiled) (nr_tools req)\<rparr>)"

subsection \<open>Literal rules\<close>

text \<open>Invariant of the cut: no occurrence of the pattern starts before the current position.\<close>

lemma split_str_from_clean:
  assumes "p \<noteq> []" and "\<And>u v. rev acc @ s = u @ p @ v \<Longrightarrow> length acc \<le> length u"
  shows "w \<in> set (split_str_from p acc s) \<Longrightarrow> \<not> str_includes w p"
  using assms
proof (induction p acc s arbitrary: w rule: split_str_from.induct)
  case (1 p acc s)
  have done_clean: "\<not> str_includes (rev acc) p"
  proof
    assume "str_includes (rev acc) p"
    then obtain u v where uv: "rev acc = u @ p @ v" by (auto simp: str_includes_iff)
    then have "length acc \<le> length u" using "1.prems"(3) [of u "v @ s"] by simp
    moreover have "length acc = length u + length p + length v" using arg_cong [OF uv, of length] by simp
    ultimately show False using "1.prems"(2) by simp
  qed
  show ?case
  proof (cases "prefix p s")
    case True
    have split: "split_str_from p acc s = rev acc # split_str_from p [] (drop (length p) s)"
      using True "1.prems"(2) by (subst split_str_from.simps) simp
    show ?thesis
    proof (cases "w = rev acc")
      case False
      then have "w \<in> set (split_str_from p [] (drop (length p) s))" using "1.prems"(1) split by simp
      from "1.IH"(1) [OF _ this "1.prems"(2)] show ?thesis using True "1.prems"(2) by simp
    qed (use done_clean in simp)
  next
    case False
    show ?thesis
    proof (cases s)
      case Nil
      then show ?thesis using False "1.prems"(1) done_clean by (subst (asm) split_str_from.simps) simp
    next
      case (Cons c cs)
      have mem: "w \<in> set (split_str_from p (c # acc) cs)"
        using "1.prems"(1) False Cons by (subst (asm) split_str_from.simps) simp
      have inv: "length (c # acc) \<le> length u" if "rev (c # acc) @ cs = u @ p @ v" for u v
      proof -
        have eq: "rev acc @ s = u @ p @ v" using that Cons by simp
        then have "length acc \<le> length u" by (rule "1.prems"(3))
        moreover have "length acc \<noteq> length u"
        proof
          assume "length acc = length u"
          then have "s = p @ v" using eq by (simp add: append_eq_append_conv)
          then show False using False by simp
        qed
        ultimately show ?thesis by simp
      qed
      show ?thesis using "1.IH"(2) [OF _ Cons mem "1.prems"(2) inv] False by simp
    qed
  qed
qed

lemma split_str_clean: "p \<noteq> [] \<Longrightarrow> w \<in> set (split_str p s) \<Longrightarrow> \<not> str_includes w p"
  unfolding split_str_def by (rule split_str_from_clean) auto

lemma includes_cut:
  assumes "str_includes (a @ x # b) p" and "x \<notin> set p"
  shows "str_includes a p \<or> str_includes b p"
proof -
  obtain u v where "a @ x # b = u @ p @ v" using assms(1) by (auto simp: str_includes_iff)
  then consider us where "a = u @ us" "us @ x # b = p @ v" | us where "a @ us = u" "x # b = us @ p @ v"
    by (auto simp: append_eq_append_conv2)
  then show ?thesis
  proof cases
    case 1
    from 1(2) consider ws where "us = p @ ws" | ws where "us @ ws = p" "x # b = ws @ v"
      by (auto simp: append_eq_append_conv2)
    then show ?thesis
    proof cases
      case 2
      then have "ws = []" using assms(2) by (cases ws) auto
      then have "a = u @ p @ []" using 2 1(1) by simp
      then have "str_includes a p" unfolding str_includes_iff by blast
      then show ?thesis by simp
    qed (use 1(1) in \<open>auto simp: str_includes_iff\<close>)
  next
    case 2
    show ?thesis
    proof (cases us)
      case Nil
      then have "p = []" using 2(2) assms(2) by (cases p) auto
      then show ?thesis by (auto simp: str_includes_iff)
    next
      case (Cons c cs)
      then have "b = cs @ p @ v" using 2(2) by simp
      then show ?thesis by (auto simp: str_includes_iff)
    qed
  qed
qed

lemma includes_cut_word:
  assumes "str_includes (a @ r @ b) p" and "r \<noteq> []" and "set r \<inter> set p = {}" and "p \<noteq> []"
  shows "str_includes a p \<or> str_includes b p"
  using assms
proof (induction r arbitrary: a)
  case (Cons x r)
  have "str_includes a p \<or> str_includes (r @ b) p"
    using includes_cut [of a x "r @ b" p] Cons.prems by simp
  moreover have "str_includes b p" if "str_includes (r @ b) p"
  proof (cases "r = []")
    case False
    then show ?thesis using Cons.IH [of "[]"] that Cons.prems by (cases p) auto
  qed (use that in simp)
  ultimately show ?case by blast
qed simp

lemma join_clean:
  assumes "r \<noteq> []" and "set r \<inter> set p = {}" and "p \<noteq> []"
  shows "\<forall>w \<in> set ws. \<not> str_includes w p \<Longrightarrow> \<not> str_includes (join_with r ws) p"
proof (induction ws rule: induct_list012)
  case 1
  then show ?case using assms(3) by (cases p) auto
next
  case (3 w v ws)
  then show ?case using includes_cut_word [OF _ assms(1,2,3)] by fastforce
qed simp

subsection \<open>Properties\<close>

text \<open>
  A literal rule removes what it names: when its replacement is not empty and shares no
  character with the pattern, the pattern does not occur in any filtered text, wherever it occurred
  before.
\<close>

theorem literal_rule_removes_pattern:
  assumes "0 < length p" and "0 < length rep" and "set rep \<inter> set p = {}"
  shows "\<not> str_includes (apply_rule (LitRule p rep) s) p"
  using join_clean [of rep p "split_str p s"] split_str_clean [of p _ s] assms by auto

theorem literal_rule_removes_pattern_witness:
  "\<not> str_includes (apply_rule (LitRule ''sk-1'' ''***'') ''key sk-1sk-1 end'') ''sk-1''"
  by (rule literal_rule_removes_pattern) simp_all

text \<open>
  Filtering touches text only: the filtered request has the same messages with the same roles
  and the same blocks up to the text of its text blocks, the same tools up to their descriptions,
  and every other field of the request is the original one; with no rule that compiles it is the
  request itself.
\<close>

theorem filter_changes_text_only:
  "map msg_role (nr_messages (apply_filter_rules compile_rx req cfg)) = map msg_role (nr_messages req) \<and>
   map (map (\<lambda>b. b\<lparr>cb_text := (if cb_type b = BtText then None else cb_text b)\<rparr>) \<circ> msg_content)
       (nr_messages (apply_filter_rules compile_rx req cfg)) =
     map (map (\<lambda>b. b\<lparr>cb_text := (if cb_type b = BtText then None else cb_text b)\<rparr>) \<circ> msg_content) (nr_messages req) \<and>
   map (\<lambda>t. t\<lparr>tl_description := None\<rparr>) (nr_tools (apply_filter_rules compile_rx req cfg)) =
     map (\<lambda>t. t\<lparr>tl_description := None\<rparr>) (nr_tools req) \<and>
   (apply_filter_rules compile_rx req cfg)\<lparr>nr_messages := nr_messages req, nr_tools := nr_tools req\<rparr> = req \<and>
   (List.map_filter (compile_rule compile_rx) (fc_rules cfg) = [] \<longrightarrow> apply_filter_rules compile_rx req cfg = req)"
  by (auto simp: apply_filter_rules_def Let_def filter_message_def filter_block_def filter_tool_def)

theorem filter_changes_text_only_witness:
  "\<forall>req. apply_filter_rules (\<lambda>p. None) req
     \<lparr>fc_enabled = True, fc_rules = [\<lparr>fr_pattern = ''('', fr_replacement = [], fr_is_regex = True\<rparr>]\<rparr> = req"
  using filter_changes_text_only [of "\<lambda>p. None" _
      "\<lparr>fc_enabled = True, fc_rules = [\<lparr>fr_pattern = ''('', fr_replacement = [], fr_is_regex = True\<rparr>]\<rparr>"]
  by (simp add: compile_rule_def List.map_filter_def)

subsection \<open>Where the code departs from its comments\<close>

text \<open>A stripped text may still contain the pattern: removing it can join a new occurrence.\<close>

lemma stripping_can_leave_the_pattern:
  "apply_rule (LitRule ''ab'' []) ''aabb'' = ''ab''"
  by (simp add: split_str_def split_str_from.simps)

text \<open>Reasoning content is promised to be filtered, but a request with no other text is passed through.\<close>

lemma reasoning_only_request_is_not_filtered:
  assumes "nr_tools req = []" and "\<forall>m \<in> set (nr_messages req). msg_content m = []"
  shows "apply_filter_rules compile_rx req cfg = req"
  using assms by (auto simp: apply_filter_rules_def has_text_def list_ex_iff)

end
