(* ===== verification/UpstreamErrors.thy ===== *)
theory UpstreamErrors imports RateLimit Narrowing JsonText "HOL-Library.Word" begin

text \<open>
  How a failed upstream call becomes a typed error (\<open>src/providers/shared.ts\<close>): the adapter error
  and its defaults, the classification of HTTP statuses, the bounded \<open>Retry-After\<close> header, the
  reading of an error body and the mapping of any thrown value to a call error. The codec error of
  \<open>src/domain/protocols/errors.ts\<close> has the same defaults.
\<close>

subsection \<open>Adapter errors\<close>

text \<open>
  An optional field of a nullable type is missing (\<open>None\<close>), \<open>null\<close> (\<open>Some None\<close>) or given;
  \<open>x ?? d\<close> replaces the first two by \<open>d\<close>.
\<close>

definition nullish_or :: "'a option option \<Rightarrow> 'a option \<Rightarrow> 'a option" where
  "nullish_or x d = (case x of Some (Some v) \<Rightarrow> Some v | _ \<Rightarrow> d)"

record adapter_error_options =
  ao_kind :: error_kind
  ao_message :: string
  ao_status_code :: "int option option"
  ao_retryable :: "bool option"
  ao_route_scope :: "error_scope option option"
  ao_retry_at :: "string option option"

record adapter_error =
  ae_message :: string
  ae_kind :: error_kind
  ae_status_code :: "int option"
  ae_retryable :: bool
  ae_route_scope :: "error_scope option"
  ae_retry_at :: "string option"

definition adapter_error_of :: "adapter_error_options \<Rightarrow> adapter_error" where
  "adapter_error_of opts = \<lparr>
     ae_message = ao_message opts,
     ae_kind = ao_kind opts,
     ae_status_code = nullish_or (ao_status_code opts) None,
     ae_retryable = (case ao_retryable opts of Some b \<Rightarrow> b | None \<Rightarrow> False),
     ae_route_scope = nullish_or (ao_route_scope opts) (Some ScProvider),
     ae_retry_at = nullish_or (ao_retry_at opts) None\<rparr>"

definition adapter_call_error :: "adapter_error \<Rightarrow> call_error" where
  "adapter_call_error e = \<lparr>
     ce_status_code = ae_status_code e,
     ce_kind = ae_kind e,
     ce_retryable = ae_retryable e,
     ce_route_scope = ae_route_scope e,
     ce_source = derive_error_source (ae_kind e) (ae_route_scope e),
     ce_message = sanitize_message (ThrownError (ae_message e)),
     ce_retry_at = ae_retry_at e\<rparr>"

text \<open>\<open>ProtocolCodecError\<close> takes the same options; its caller supplies the sanitized message.\<close>

definition codec_call_error :: "adapter_error \<Rightarrow> string \<Rightarrow> call_error" where
  "codec_call_error e sanitized = \<lparr>
     ce_status_code = ae_status_code e,
     ce_kind = ae_kind e,
     ce_retryable = ae_retryable e,
     ce_route_scope = ae_route_scope e,
     ce_source = derive_error_source (ae_kind e) (ae_route_scope e),
     ce_message = sanitized,
     ce_retry_at = ae_retry_at e\<rparr>"

text \<open>The options of most call sites: no retry time, the scope given.\<close>

definition adapter_fail :: "error_kind \<Rightarrow> string \<Rightarrow> int option option \<Rightarrow> bool option \<Rightarrow> error_scope option \<Rightarrow> adapter_error" where
  "adapter_fail kind msg status retryable scope = adapter_error_of \<lparr>
     ao_kind = kind, ao_message = msg, ao_status_code = status, ao_retryable = retryable,
     ao_route_scope = Some scope, ao_retry_at = None\<rparr>"

subsection \<open>HTTP statuses\<close>

definition MAX_RETRY_AFTER_DELAY_MS :: int where
  "MAX_RETRY_AFTER_DELAY_MS = 30000"

definition map_upstream_error :: "int \<Rightarrow> string \<Rightarrow> rat option \<Rightarrow> int \<Rightarrow> adapter_error" where
  "map_upstream_error status msg retry_after now_ms =
    (let retry_at = bounded_retry_at (case retry_after of Some s \<Rightarrow> RvNumber (Num s) | None \<Rightarrow> RvOther)
           now_ms MAX_RETRY_AFTER_DELAY_MS;
         fail = (\<lambda>kind retryable scope. adapter_fail kind msg (Some (Some status)) retryable (Some scope));
         limited = (\<lambda>kind scope. adapter_error_of \<lparr>ao_kind = kind, ao_message = msg,
           ao_status_code = Some (Some status), ao_retryable = Some True,
           ao_route_scope = Some (Some scope), ao_retry_at = Some retry_at\<rparr>)
     in if status = 400 then fail InvalidRequest None ScProvider
        else if status = 401 then fail AuthenticationFailed None ScAccount
        else if status = 402 then fail QuotaExceeded (Some True) ScAccount
        else if status = 403 then fail AuthorizationDenied None ScAccount
        else if status = 404 then fail ModelNotFound None ScProvider
        else if status = 407 then fail NetworkUnavailable (Some True) ScProxy
        else if status = 408 then fail ProviderUnavailable (Some True) ScProvider
        else if status = 409 then fail ConcurrencyExceeded (Some True) ScProvider
        else if status = 413 then fail InvalidRequest None ScProvider
        else if status = 422 then fail InvalidRequest None ScProvider
        else if status = 429 then
          (let reason = parse_rate_limit_reason msg;
               quota_hint = reason = QUOTA_EXHAUSTED \<or> is_usage_limit_outcome (Some status) (Some msg)
           in limited (if quota_hint then QuotaExceeded else ProviderRateLimited) ScAccount)
        else if 500 \<le> status then limited ProviderUnavailable ScProvider
        else fail ProviderProtocolError None ScProvider)"

subsection \<open>Retry-After\<close>

definition MAX_RETRY_AFTER_SECONDS :: rat where
  "MAX_RETRY_AFTER_SECONDS = of_int MAX_RETRY_AFTER_DELAY_MS / 1000"

text \<open>
  \<open>Number(s)\<close> of a digit string is infinite from \<open>2\<^sup>1\<^sup>0\<^sup>2\<^sup>4 - 2\<^sup>9\<^sup>7\<^sup>0\<close> on. \<open>date_parse\<close> is \<open>Date.parse\<close>,
  \<open>None\<close> for \<open>NaN\<close>.
\<close>

definition js_infinite_from :: rat where
  "js_infinite_from = 2 ^ 1024 - 2 ^ 970"

definition negative_rx :: "string \<Rightarrow> bool" where
  "negative_rx s = (case s of a # b # _ \<Rightarrow> a = CHR ''-'' \<and> is_digit_char b | _ \<Rightarrow> False)"

definition parse_retry_after_seconds :: "(string \<Rightarrow> int option) \<Rightarrow> string option \<Rightarrow> int \<Rightarrow> rat option" where
  "parse_retry_after_seconds date_parse v now_ms =
    (case v of
       None \<Rightarrow> None
     | Some raw \<Rightarrow>
       (let trimmed = trim raw
        in if trimmed = [] then None
           else if negative_rx trimmed then None
           else let seconds =
               (case decimal_val trimmed of
                  Some q \<Rightarrow> if q < js_infinite_from then Some q else None
                | None \<Rightarrow> map_option (\<lambda>t. max 0 (of_int (t - now_ms) / 1000)) (date_parse trimmed))
             in map_option (\<lambda>s. min s MAX_RETRY_AFTER_SECONDS) seconds))"

subsection \<open>The error body\<close>

text \<open>
  \<open>readBoundedText\<close>: the bytes that reach the decoder. A chunk without bytes is skipped; the chunk
  that crosses the limit is cut and ends the loop.
\<close>

fun read_bounded :: "nat \<Rightarrow> nat \<Rightarrow> 'b list list \<Rightarrow> 'b list" where
  "read_bounded max_bytes bytes_read [] = []"
| "read_bounded max_bytes bytes_read (chunk # chunks) =
     (if chunk = [] then read_bounded max_bytes bytes_read chunks
      else if max_bytes < bytes_read + length chunk then take (max_bytes - bytes_read) chunk
      else chunk @ read_bounded max_bytes (bytes_read + length chunk) chunks)"

definition MAX_ERROR_BODY_BYTES :: nat where
  "MAX_ERROR_BODY_BYTES = 16384"

definition MAX_JSON_BODY_BYTES :: nat where
  "MAX_JSON_BODY_BYTES = 1048576"

definition error_body_message :: "string \<Rightarrow> string" where
  "error_body_message body =
    (if body = [] then []
     else case json_parse body of
       None \<Rightarrow> take 500 body
     | Some parsed \<Rightarrow>
       (case narrow_record (Some parsed) of
          None \<Rightarrow> []
        | Some fs \<Rightarrow>
          (case narrow_record (js_field fs ''error'') of
             Some err \<Rightarrow> or_empty (narrow_text (js_field err ''message''))
           | None \<Rightarrow> or_empty (narrow_text (js_field fs ''message'')))))"

record upstream_response =
  ur_status :: int
  ur_retry_after :: "string option"
  ur_body :: "8 word list list"

definition read_upstream_error ::
  "(string \<Rightarrow> int option) \<Rightarrow> (8 word list \<Rightarrow> string) \<Rightarrow> upstream_response \<Rightarrow> int \<Rightarrow> adapter_error" where
  "read_upstream_error date_parse decode r now_ms =
    (let retry_after = parse_retry_after_seconds date_parse (ur_retry_after r) now_ms;
         body_text = decode (read_bounded MAX_ERROR_BODY_BYTES 0 (ur_body r));
         msg = error_body_message body_text
     in map_upstream_error (ur_status r)
          (if 0 < length msg then msg else ''Upstream provider returned HTTP '' @ int_str (ur_status r))
          retry_after now_ms)"

subsection \<open>Any thrown value\<close>

text \<open>The classes of thrown values \<open>toProviderCallError\<close> tells apart.\<close>

datatype adapter_thrown =
    AtAdapter adapter_error
  | AtCodec adapter_error
  | AtAbort string
  | AtTypeError string
  | AtReferenceError string
  | AtSyntaxError string
  | AtOther thrown

definition adapter_map_error :: "adapter_thrown \<Rightarrow> call_error" where
  "adapter_map_error v =
    (let plain = (\<lambda>kind retryable scope source msg. \<lparr>ce_status_code = None, ce_kind = kind,
           ce_retryable = retryable, ce_route_scope = scope, ce_source = source, ce_message = msg,
           ce_retry_at = None\<rparr>)
     in case v of
       AtAdapter e \<Rightarrow> adapter_call_error e
     | AtCodec e \<Rightarrow> codec_call_error e (sanitize_message (ThrownError (ae_message e)))
     | AtAbort m \<Rightarrow> plain ClientAborted False None SourceClient ''Request aborted''
     | AtTypeError m \<Rightarrow>
         plain NetworkUnavailable True (Some ScProxy) SourceUpstream (sanitize_message (ThrownError m))
     | AtReferenceError m \<Rightarrow> plain InternalError False None SourceInternal (sanitize_message (ThrownError m))
     | AtSyntaxError m \<Rightarrow> plain InternalError False None SourceInternal (sanitize_message (ThrownError m))
     | AtOther t \<Rightarrow>
         plain ProviderProtocolError False (Some ScProvider) SourceUpstream (sanitize_message t))"

subsection \<open>Lemmas\<close>

lemma nullish_or_simps [simp]:
  "nullish_or None d = d" "nullish_or (Some None) d = d" "nullish_or (Some (Some v)) d = Some v"
  by (simp_all add: nullish_or_def)

lemma adapter_fail_fields [simp]:
  "ae_message (adapter_fail kind msg status retryable scope) = msg"
  "ae_kind (adapter_fail kind msg status retryable scope) = kind"
  "ae_status_code (adapter_fail kind msg status retryable scope) = nullish_or status None"
  "ae_retryable (adapter_fail kind msg status retryable scope) = (retryable = Some True)"
  "ae_route_scope (adapter_fail kind msg status retryable scope) = nullish_or (Some scope) (Some ScProvider)"
  "ae_retry_at (adapter_fail kind msg status retryable scope) = None"
  by (auto simp: adapter_fail_def adapter_error_of_def split: option.split)

text \<open>\<open>routeScope: null\<close> cannot be expressed: the constructor's \<open>??\<close> takes it for a missing option.\<close>

lemma null_scope_becomes_provider:
  "ae_route_scope (adapter_fail ClientAborted ''Request aborted by caller'' None (Some False) None) = Some ScProvider"
  by simp

lemma parse_retry_after_range:
  "parse_retry_after_seconds date_parse v now_ms = Some s \<Longrightarrow> s \<le> MAX_RETRY_AFTER_SECONDS"
  by (auto simp: parse_retry_after_seconds_def Let_def split: option.splits if_splits)

lemma decimal_val_nonneg: "decimal_val s = Some q \<Longrightarrow> 0 \<le> q"
  by (auto simp: decimal_val_def Let_def split: if_splits)

lemma parse_retry_after_nonneg:
  "parse_retry_after_seconds date_parse v now_ms = Some s \<Longrightarrow> 0 \<le> s"
  using decimal_val_nonneg
  by (auto simp: parse_retry_after_seconds_def Let_def MAX_RETRY_AFTER_SECONDS_def
      MAX_RETRY_AFTER_DELAY_MS_def split: option.splits if_splits)

lemma read_bounded_prefix:
  "bytes_read \<le> max_bytes \<Longrightarrow> read_bounded max_bytes bytes_read chunks = take (max_bytes - bytes_read) (concat chunks)"
proof (induction chunks arbitrary: bytes_read)
  case Nil
  then show ?case by simp
next
  case (Cons c cs)
  show ?case
  proof (cases "max_bytes < bytes_read + length c")
    case True
    then show ?thesis using Cons.prems Cons.IH [OF Cons.prems] by auto
  next
    case False
    then show ?thesis using Cons.IH [of "bytes_read + length c"] Cons.IH [OF Cons.prems] by auto
  qed
qed

lemma read_bounded_length: "bytes_read \<le> m \<Longrightarrow> length (read_bounded m bytes_read chunks) \<le> m - bytes_read"
  by (simp add: read_bounded_prefix)

text \<open>The classification in one view.\<close>

lemma map_upstream_error_fields:
  "ae_status_code (map_upstream_error status msg ra now_ms) = Some status"
  "ae_message (map_upstream_error status msg ra now_ms) = msg"
  "ae_retryable (map_upstream_error status msg ra now_ms) \<longleftrightarrow>
     status \<in> {402, 407, 408, 409, 429} \<or> 500 \<le> status"
  "ae_route_scope (map_upstream_error status msg ra now_ms) =
     Some (if status \<in> {401, 402, 403, 429} then ScAccount else if status = 407 then ScProxy else ScProvider)"
  "ae_retry_at (map_upstream_error status msg ra now_ms) =
     (if status = 429 \<or> 500 \<le> status
      then bounded_retry_at (case ra of Some s \<Rightarrow> RvNumber (Num s) | None \<Rightarrow> RvOther) now_ms MAX_RETRY_AFTER_DELAY_MS
      else None)"
  by (simp_all add: map_upstream_error_def Let_def adapter_error_of_def)
     (auto split: option.split simp: nullish_or_def)

lemma map_upstream_error_kind:
  "ae_kind (map_upstream_error status msg ra now_ms) =
    (if status = 429
     then (if parse_rate_limit_reason msg = QUOTA_EXHAUSTED \<or> is_usage_limit_outcome (Some status) (Some msg) then QuotaExceeded else ProviderRateLimited)
     else if status \<in> {400, 413, 422} then InvalidRequest else if status = 401 then AuthenticationFailed
     else if status = 402 then QuotaExceeded else if status = 403 then AuthorizationDenied else if status = 404 then ModelNotFound
     else if status = 407 then NetworkUnavailable else if status = 408 \<or> 500 \<le> status then ProviderUnavailable
     else if status = 409 then ConcurrencyExceeded else ProviderProtocolError)"
  by (simp add: map_upstream_error_def Let_def adapter_error_of_def adapter_fail_def)

text \<open>The message of the body, or a stock one.\<close>

definition upstream_message :: "(8 word list \<Rightarrow> string) \<Rightarrow> upstream_response \<Rightarrow> string" where
  "upstream_message decode r =
    (let msg = error_body_message (decode (read_bounded MAX_ERROR_BODY_BYTES 0 (ur_body r)))
     in if 0 < length msg then msg else ''Upstream provider returned HTTP '' @ int_str (ur_status r))"

lemma read_upstream_error_message:
  "read_upstream_error dp decode r now_ms =
    map_upstream_error (ur_status r) (upstream_message decode r) (parse_retry_after_seconds dp (ur_retry_after r) now_ms) now_ms"
  by (simp add: read_upstream_error_def upstream_message_def Let_def)

lemma read_upstream_error_fields:
  "ae_status_code (read_upstream_error dp dec r now_ms) = Some (ur_status r)"
  "ae_retryable (read_upstream_error dp dec r now_ms) \<longleftrightarrow>
     ur_status r \<in> {402, 407, 408, 409, 429} \<or> 500 \<le> ur_status r"
  "ae_route_scope (read_upstream_error dp dec r now_ms) =
     Some (if ur_status r \<in> {401, 402, 403, 429} then ScAccount
           else if ur_status r = 407 then ScProxy else ScProvider)"
  by (simp_all only: read_upstream_error_def Let_def map_upstream_error_fields)

lemma read_upstream_error_retry_at:
  assumes "ae_retry_at (read_upstream_error dp dec r now_ms) = Some s"
  shows "\<exists>v. bounded_retry_at v now_ms MAX_RETRY_AFTER_DELAY_MS = Some s"
  using assms unfolding read_upstream_error_def Let_def map_upstream_error_fields
  by (auto split: if_splits)

subsection \<open>Properties\<close>

text \<open>
  C38: Whatever an upstream answers, the error made of it is bounded and classified by its status: its
  kind, whether it is retryable (exactly for 402, 407, 408, 409, 429 and the 5xx statuses), and what it
  blames, the account for 401, 402, 403 and 429, the proxy for 407 and the provider otherwise. Only the
  kind of a 429 depends on more, the message in the answer: a used-up quota when that speaks of one, else a
  rate limit. The error's message is not empty and at most 240 characters long, and a retry time, which
  only a 429 or a 5xx status has, lies between now and 30 seconds from now however the \<open>Retry-After\<close>
  header reads. The clock is at or after 1970 and within the range of a date.
\<close>

theorem upstream_error_bounded:
  assumes "0 \<le> now_ms" and "iso_range (now_ms + MAX_RETRY_AFTER_DELAY_MS)"
    and "e = adapter_call_error (read_upstream_error date_parse decode r now_ms)"
  shows "ce_status_code e = Some (ur_status r) \<and>
    0 < length (ce_message e) \<and> length (ce_message e) \<le> 240 \<and>
    (ce_retry_at e = None \<or>
      (\<exists>t. Option.bind (ce_retry_at e) parse_iso = Some t \<and> now_ms \<le> t \<and> t \<le> now_ms + 30000)) \<and>
    (ce_retry_at e \<noteq> None \<longrightarrow> ur_status r = 429 \<or> 500 \<le> ur_status r) \<and>
    (ce_retryable e \<longleftrightarrow> ur_status r \<in> {402, 407, 408, 409, 429} \<or> 500 \<le> ur_status r) \<and>
    ce_route_scope e = Some (if ur_status r \<in> {401, 402, 403, 429} then ScAccount
      else if ur_status r = 407 then ScProxy else ScProvider) \<and>
    ce_kind e =
     (if ur_status r = 429
      then (if parse_rate_limit_reason (upstream_message decode r) = QUOTA_EXHAUSTED \<or>
               is_usage_limit_outcome (Some 429) (Some (upstream_message decode r)) then QuotaExceeded else ProviderRateLimited)
      else if ur_status r \<in> {400, 413, 422} then InvalidRequest
      else if ur_status r = 401 then AuthenticationFailed
      else if ur_status r = 402 then QuotaExceeded
      else if ur_status r = 403 then AuthorizationDenied
      else if ur_status r = 404 then ModelNotFound
      else if ur_status r = 407 then NetworkUnavailable
      else if ur_status r = 408 \<or> 500 \<le> ur_status r then ProviderUnavailable
      else if ur_status r = 409 then ConcurrencyExceeded else ProviderProtocolError)"
proof (intro conjI)
  let ?a = "read_upstream_error date_parse decode r now_ms"
  show "ce_status_code e = Some (ur_status r)"
    "ce_retryable e \<longleftrightarrow> ur_status r \<in> {402, 407, 408, 409, 429} \<or> 500 \<le> ur_status r"
    "ce_route_scope e = Some (if ur_status r \<in> {401, 402, 403, 429} then ScAccount
      else if ur_status r = 407 then ScProxy else ScProvider)"
    by (simp_all add: assms(3) adapter_call_error_def read_upstream_error_fields)
  show "ce_retry_at e \<noteq> None \<longrightarrow> ur_status r = 429 \<or> 500 \<le> ur_status r"
    by (simp add: assms(3) adapter_call_error_def read_upstream_error_message map_upstream_error_fields)
  show "ce_kind e =
     (if ur_status r = 429
      then (if parse_rate_limit_reason (upstream_message decode r) = QUOTA_EXHAUSTED \<or>
               is_usage_limit_outcome (Some 429) (Some (upstream_message decode r)) then QuotaExceeded else ProviderRateLimited)
      else if ur_status r \<in> {400, 413, 422} then InvalidRequest
      else if ur_status r = 401 then AuthenticationFailed
      else if ur_status r = 402 then QuotaExceeded
      else if ur_status r = 403 then AuthorizationDenied
      else if ur_status r = 404 then ModelNotFound
      else if ur_status r = 407 then NetworkUnavailable
      else if ur_status r = 408 \<or> 500 \<le> ur_status r then ProviderUnavailable
      else if ur_status r = 409 then ConcurrencyExceeded else ProviderProtocolError)"
    by (simp add: assms(3) adapter_call_error_def read_upstream_error_message map_upstream_error_kind)
  show "0 < length (ce_message e)" "length (ce_message e) \<le> 240"
    using sanitize_message_length [of "ThrownError (ae_message ?a)"]
    by (simp_all add: assms(3) adapter_call_error_def MAX_ERROR_MESSAGE_LENGTH_def)
  show "ce_retry_at e = None \<or>
      (\<exists>t. Option.bind (ce_retry_at e) parse_iso = Some t \<and> now_ms \<le> t \<and> t \<le> now_ms + 30000)"
  proof (cases "ae_retry_at ?a")
    case None
    then show ?thesis by (simp add: assms(3) adapter_call_error_def)
  next
    case (Some s)
    with read_upstream_error_retry_at obtain v
      where "bounded_retry_at v now_ms MAX_RETRY_AFTER_DELAY_MS = Some s" by blast
    with bounded_retry_at_window assms(1,2) show ?thesis
      by (fastforce simp: assms(3) adapter_call_error_def Some MAX_RETRY_AFTER_DELAY_MS_def)
  qed
qed

definition limited_response :: upstream_response where
  "limited_response = \<lparr>ur_status = 429, ur_retry_after = Some ''86400'', ur_body = []\<rparr>"

theorem upstream_error_bounded_witness:
  "ce_retryable (adapter_call_error (read_upstream_error (\<lambda>s. None) (\<lambda>bs. []) limited_response 1700000000000)) \<and>
   ce_route_scope (adapter_call_error (read_upstream_error (\<lambda>s. None) (\<lambda>bs. []) limited_response 1700000000000)) =
     Some ScAccount"
  using upstream_error_bounded [of 1700000000000 _ "\<lambda>s. None" "\<lambda>bs. []" limited_response, OF _ _ refl]
  by (simp add: limited_response_def iso_range_def MAX_RETRY_AFTER_DELAY_MS_def)

lemma retry_after_of_a_day_is_capped:
  "parse_retry_after_seconds (\<lambda>s. None) (Some ''86400'') 0 = Some 30"
  by (simp add: parse_retry_after_seconds_def trim_def is_space_def char_code_def negative_rx_def
      is_digit_char_def decimal_val_def nat_of_digits_def js_infinite_from_def Let_def
      MAX_RETRY_AFTER_SECONDS_def MAX_RETRY_AFTER_DELAY_MS_def)

end
