(* ===== verification/SseDecoder.thy ===== *)
theory SseDecoder imports UpstreamErrors Flights begin

text \<open>
  The server-sent-event decoder every provider stream runs through (\<open>src/providers/shared.ts\<close>).
  The body arrives as chunks of decoded text; a chunk may end anywhere, also inside a line. The
  events yielded before an error are kept beside the error, as the consumer of the generator sees
  them.
\<close>

subsection \<open>Lines and fields\<close>

definition LF :: char where "LF = CHR 0x0A"

definition CR :: char where "CR = CHR 0x0D"

text \<open>\<open>Buffer.byteLength\<close>: the length in UTF-8.\<close>

definition byte_length :: "string \<Rightarrow> nat" where
  "byte_length s = sum_list (map (\<lambda>c. if char_code c < 128 then 1 else 2) s)"

record sse_event =
  se_event :: "string option"
  se_data :: string

record sse_limits =
  sl_line :: nat
  sl_event :: nat

text \<open>\<open>lineLimit\<close> and the two bounds at the head of \<open>decodeSseEvents\<close>.\<close>

definition line_limit :: "request_limits \<Rightarrow> int" where
  "line_limit l = (if 0 < rl_max_body_bytes l then min (rl_max_body_bytes l) 1048576 else 65536)"

definition sse_limits_of :: "int \<Rightarrow> int option \<Rightarrow> memory_limits \<Rightarrow> sse_limits" where
  "sse_limits_of max_line max_event limits = \<lparr>
     sl_line = nat (min max_line (lim_stream_line_bytes limits)),
     sl_event = nat (case max_event of Some n \<Rightarrow> n | None \<Rightarrow> lim_stream_event_bytes limits)\<rparr>"

text \<open>The fields collected for the event being read: its name, its size, its data lines.\<close>

record sse_fields =
  sf_event :: "string option"
  sf_bytes :: nat
  sf_data :: "string list"

definition no_fields :: sse_fields where
  "no_fields = \<lparr>sf_event = None, sf_bytes = 0, sf_data = []\<rparr>"

definition strip_cr :: "string \<Rightarrow> string" where
  "strip_cr raw = (if raw \<noteq> [] \<and> last raw = CR then butlast raw else raw)"

definition field_name :: "string \<Rightarrow> string" where
  "field_name line = takeWhile (\<lambda>c. c \<noteq> CHR '':'') line"

definition field_value :: "string \<Rightarrow> string" where
  "field_value line = (case dropWhile (\<lambda>c. c \<noteq> CHR '':'') line of
      [] \<Rightarrow> []
    | _ # rest \<Rightarrow> (case rest of c # cs \<Rightarrow> if c = CHR '' '' then cs else rest | [] \<Rightarrow> []))"

definition sse_failure :: "string \<Rightarrow> adapter_error" where
  "sse_failure msg = adapter_fail ProviderProtocolError msg None None (Some ScProvider)"

definition line_too_long :: "sse_limits \<Rightarrow> adapter_error" where
  "line_too_long lm = sse_failure (''SSE line exceeds '' @ nat_str (sl_line lm) @ '' bytes'')"

definition event_too_long :: "sse_limits \<Rightarrow> adapter_error" where
  "event_too_long lm = sse_failure (''SSE event exceeds '' @ nat_str (sl_event lm) @ '' bytes'')"

text \<open>An event is yielded when it has data lines and they are not all empty.\<close>

definition emit_event :: "sse_fields \<Rightarrow> sse_event list" where
  "emit_event st = (let data = join_with [LF] (sf_data st)
     in if sf_data st \<noteq> [] \<and> 0 < length data then [\<lparr>se_event = sf_event st, se_data = data\<rparr>] else [])"

definition sse_field :: "string \<Rightarrow> sse_fields \<Rightarrow> sse_fields" where
  "sse_field line st =
    (if prefix '':'' line then st
     else if field_name line = ''event'' then st\<lparr>sf_event := Some (field_value line)\<rparr>
     else if field_name line = ''data'' then st\<lparr>sf_data := sf_data st @ [field_value line]\<rparr>
     else st)"

definition sse_line ::
  "sse_limits \<Rightarrow> string \<Rightarrow> sse_fields \<Rightarrow> sse_event list \<times> (adapter_error + sse_fields)" where
  "sse_line lm raw st =
    (let line = strip_cr raw
     in if sl_line lm < byte_length line then ([], Inl (line_too_long lm))
        else if line = [] then (emit_event st, Inr no_fields)
        else let st' = st\<lparr>sf_bytes := sf_bytes st + byte_length line + 1\<rparr>
          in if sl_event lm < sf_bytes st' then ([], Inl (event_too_long lm))
             else ([], Inr (sse_field line st')))"

subsection \<open>Chunks\<close>

text \<open>The inner loop: complete lines leave the buffer one at a time.\<close>

function sse_drain ::
  "sse_limits \<Rightarrow> string \<Rightarrow> sse_fields \<Rightarrow> sse_event list \<times> (adapter_error + string \<times> sse_fields)" where
  "sse_drain lm buffer st =
    (if LF \<notin> set buffer then ([], Inr (buffer, st))
     else let raw = takeWhile (\<lambda>c. c \<noteq> LF) buffer;
              rest = tl (dropWhile (\<lambda>c. c \<noteq> LF) buffer)
       in case sse_line lm raw st of
            (evs, Inl e) \<Rightarrow> (evs, Inl e)
          | (evs, Inr st') \<Rightarrow> (let (evs', r) = sse_drain lm rest st' in (evs @ evs', r)))"
  by pat_completeness auto
termination
proof (relation "measure (\<lambda>(lm, buffer, st). length buffer)")
  fix lm :: sse_limits and buffer :: string and st st' :: sse_fields and raw rest p evs b
  assume *: "\<not> LF \<notin> set buffer" "rest = tl (dropWhile (\<lambda>c. c \<noteq> LF) buffer)"
  have "length (dropWhile (\<lambda>c. c \<noteq> LF) buffer) \<le> length buffer"
    by (rule length_dropWhile_le)
  moreover have "dropWhile (\<lambda>c. c \<noteq> LF) buffer \<noteq> []" using * by (auto simp: dropWhile_eq_Nil_conv)
  ultimately show "((lm, rest, st'), lm, buffer, st) \<in> measure (\<lambda>(lm, buffer, st). length buffer)"
    using * by (cases "dropWhile (\<lambda>c. c \<noteq> LF) buffer") auto
qed simp

declare sse_drain.simps [simp del]

definition sse_chunk ::
  "sse_limits \<Rightarrow> string \<Rightarrow> string \<times> sse_fields \<Rightarrow> sse_event list \<times> (adapter_error + string \<times> sse_fields)" where
  "sse_chunk lm chunk s =
    (case sse_drain lm (fst s @ chunk) (snd s) of
       (evs, Inl e) \<Rightarrow> (evs, Inl e)
     | (evs, Inr (tail, st)) \<Rightarrow>
         if sl_line lm < byte_length tail then (evs, Inl (line_too_long lm)) else (evs, Inr (tail, st)))"

fun sse_chunks ::
  "sse_limits \<Rightarrow> string list \<Rightarrow> string \<times> sse_fields \<Rightarrow> sse_event list \<times> (adapter_error + string \<times> sse_fields)" where
  "sse_chunks lm [] s = ([], Inr s)"
| "sse_chunks lm (chunk # chunks) s =
     (case sse_chunk lm chunk s of
        (evs, Inl e) \<Rightarrow> (evs, Inl e)
      | (evs, Inr s') \<Rightarrow> (let (evs', r) = sse_chunks lm chunks s' in (evs @ evs', r)))"

text \<open>
  The reads end with the end of the body, where the text decoder flushes what is left of a split
  character, or with an error that \<open>mapStreamAbortError\<close> has classified.
\<close>

datatype read_end = BodyDone string | ReadFailed adapter_error

definition sse_finish ::
  "sse_limits \<Rightarrow> read_end \<Rightarrow> string \<times> sse_fields \<Rightarrow> sse_event list \<times> adapter_error option" where
  "sse_finish lm ending s = (case ending of
      ReadFailed e \<Rightarrow> ([], Some e)
    | BodyDone flush \<Rightarrow>
        if sl_line lm < byte_length (fst s @ flush) then ([], Some (line_too_long lm))
        else (emit_event (snd s), None))"

definition sse_decode ::
  "sse_limits \<Rightarrow> string list \<Rightarrow> read_end \<Rightarrow> sse_event list \<times> adapter_error option" where
  "sse_decode lm chunks ending =
    (case sse_chunks lm chunks ([], no_fields) of
       (evs, Inl e) \<Rightarrow> (evs, Some e)
     | (evs, Inr s) \<Rightarrow> (let (evs', r) = sse_finish lm ending s in (evs @ evs', r)))"

subsection \<open>Mapping to stream events\<close>

definition parse_sse_data :: "string \<Rightarrow> adapter_error + json" where
  "parse_sse_data data =
    (if data = ''[DONE]'' then Inr JNull
     else case json_parse data of
       Some v \<Rightarrow> Inr v
     | None \<Rightarrow> Inl (adapter_fail ProviderProtocolError ''Invalid JSON in stream event'' None (Some False) (Some ScProvider)))"

text \<open>
  A mapper keeps its own state; \<open>null\<close> is the empty list. The loop reads on after a terminal event;
  a body that ends without one is truncated.
\<close>

type_synonym 'm stream_mapper = "'m \<Rightarrow> sse_event \<Rightarrow> adapter_error + 'm \<times> stream_event list"

definition stream_truncated :: adapter_error where
  "stream_truncated = adapter_fail StreamTruncated ''Upstream stream ended before a terminal event'' None
     (Some False) (Some ScProvider)"

fun map_sse_events ::
  "'m stream_mapper \<Rightarrow> 'm \<Rightarrow> sse_event list \<Rightarrow> stream_event list \<times> (adapter_error + 'm)" where
  "map_sse_events mapper m [] = ([], Inr m)"
| "map_sse_events mapper m (sse # rest) =
     (case mapper m sse of
        Inl e \<Rightarrow> ([], Inl e)
      | Inr (m', evs) \<Rightarrow> (let (evs', r) = map_sse_events mapper m' rest in (evs @ evs', r)))"

definition map_sse_stream ::
  "'m stream_mapper \<Rightarrow> 'm \<Rightarrow> sse_event list \<times> adapter_error option \<Rightarrow> stream_event list \<times> adapter_error option" where
  "map_sse_stream mapper m decoded =
    (case map_sse_events mapper m (fst decoded) of
       (evs, Inl e) \<Rightarrow> (evs, Some e)
     | (evs, Inr _) \<Rightarrow> (evs, case snd decoded of
           Some e \<Rightarrow> Some e
         | None \<Rightarrow> if list_ex is_terminal_event evs then None else Some stream_truncated))"

subsection \<open>The decoder as a fold over lines\<close>

text \<open>The reference: what a list of complete lines does to the fields.\<close>

fun sse_lines :: "sse_limits \<Rightarrow> string list \<Rightarrow> sse_fields \<Rightarrow> sse_event list \<times> (adapter_error + sse_fields)" where
  "sse_lines lm [] st = ([], Inr st)"
| "sse_lines lm (raw # raws) st =
     (case sse_line lm raw st of
        (evs, Inl e) \<Rightarrow> (evs, Inl e)
      | (evs, Inr st') \<Rightarrow> (let (evs', r) = sse_lines lm raws st' in (evs @ evs', r)))"

lemma split_first:
  assumes "sep \<in> set s"
  shows "s = takeWhile (\<lambda>c. c \<noteq> sep) s @ sep # tl (dropWhile (\<lambda>c. c \<noteq> sep) s)"
proof -
  have "dropWhile (\<lambda>c. c \<noteq> sep) s \<noteq> []" using assms by (auto simp: dropWhile_eq_Nil_conv)
  then have "dropWhile (\<lambda>c. c \<noteq> sep) s = sep # tl (dropWhile (\<lambda>c. c \<noteq> sep) s)"
    by (metis (mono_tags) hd_Cons_tl hd_dropWhile)
  then show ?thesis by (metis takeWhile_dropWhile_id)
qed

lemma not_in_takeWhile: "sep \<notin> set (takeWhile (\<lambda>c. c \<noteq> sep) s)"
  using set_takeWhileD by force

lemma sse_drain_last: "LF \<notin> set b \<Longrightarrow> sse_drain lm b st = ([], Inr (b, st))"
  by (simp add: sse_drain.simps)

lemma sse_drain_line:
  "LF \<notin> set a \<Longrightarrow> sse_drain lm (a @ LF # b) st =
     (case sse_line lm a st of
        (evs, Inl e) \<Rightarrow> (evs, Inl e)
      | (evs, Inr st') \<Rightarrow> (let (evs', r) = sse_drain lm b st' in (evs @ evs', r)))"
proof -
  assume "LF \<notin> set a"
  then have "takeWhile (\<lambda>c. c \<noteq> LF) (a @ LF # b) = a" "dropWhile (\<lambda>c. c \<noteq> LF) (a @ LF # b) = LF # b"
    by (induction a) auto
  then show ?thesis by (subst sse_drain.simps) (simp add: Let_def)
qed

text \<open>Induction along the complete lines of a buffer.\<close>

lemma line_induct [case_names last line]:
  assumes "\<And>b. LF \<notin> set b \<Longrightarrow> P b"
    and "\<And>a b. LF \<notin> set a \<Longrightarrow> P b \<Longrightarrow> P (a @ LF # b)"
  shows "P s"
proof (induction s rule: length_induct)
  case (1 s)
  show ?case
  proof (cases "LF \<in> set s")
    case True
    define a b where "a = takeWhile (\<lambda>c. c \<noteq> LF) s" and "b = tl (dropWhile (\<lambda>c. c \<noteq> LF) s)"
    have s: "s = a @ LF # b" using split_first [OF True] by (simp add: a_def b_def)
    then have "P b" using 1 by simp
    moreover have "LF \<notin> set a" by (simp add: a_def not_in_takeWhile)
    ultimately show ?thesis using s assms(2) by simp
  qed (rule assms(1))
qed

lemma sse_drain_lines:
  "sse_drain lm s st =
     (case sse_lines lm (butlast (split_on LF s)) st of
        (evs, Inl e) \<Rightarrow> (evs, Inl e)
      | (evs, Inr st') \<Rightarrow> (evs, Inr (last (split_on LF s), st')))"
proof (induction s arbitrary: st rule: line_induct)
  case (last b)
  then show ?case by (simp add: sse_drain_last split_on_no_sep)
next
  case (line a b)
  then show ?case
    by (simp add: sse_drain_line split_on_append split: prod.splits sum.splits)
qed

lemma sse_drain_append:
  "sse_drain lm (s @ t) st =
     (case sse_drain lm s st of
        (evs, Inl e) \<Rightarrow> (evs, Inl e)
      | (evs, Inr (tail, st')) \<Rightarrow> (let (evs', r) = sse_drain lm (tail @ t) st' in (evs @ evs', r)))"
proof (induction s arbitrary: st rule: line_induct)
  case (last b)
  then show ?case by (simp add: sse_drain_last split: prod.split)
next
  case (line a b)
  then show ?case
    by (simp add: sse_drain_line split: prod.splits sum.splits)
qed

subsection \<open>Independence of the chunking\<close>

definition lines_fit :: "sse_limits \<Rightarrow> string \<Rightarrow> bool" where
  "lines_fit lm text \<longleftrightarrow> (\<forall>l \<in> set (split_on LF text). byte_length l \<le> sl_line lm)"

lemma byte_length_append [simp]: "byte_length (a @ b) = byte_length a + byte_length b"
  by (simp add: byte_length_def)

lemma split_on_concat:
  "split_on sep (s @ t) = butlast (split_on sep s) @
     (case split_on sep t of w # ws \<Rightarrow> (last (split_on sep s) @ w) # ws | [] \<Rightarrow> [])"
proof (induction s)
  case Nil
  then show ?case by (auto split: list.split)
next
  case (Cons c s)
  then show ?case
    using split_on_not_Nil [of sep s] split_on_not_Nil [of sep t]
    by (auto split: list.splits simp del: split_on_not_Nil)
qed

lemma lines_fit_tail:
  assumes "lines_fit lm (s @ t)"
  shows "byte_length (last (split_on LF s)) \<le> sl_line lm"
proof -
  obtain w ws where "split_on LF t = w # ws" by (cases "split_on LF t") auto
  then have "last (split_on LF s) @ w \<in> set (split_on LF (s @ t))"
    by (simp add: split_on_concat)
  then show ?thesis using assms by (fastforce simp: lines_fit_def)
qed

lemma split_on_tail_sep: "sep \<notin> set (last (split_on sep s))"
proof (induction s)
  case (Cons c s)
  then show ?case using split_on_not_Nil [of sep s] by (auto split: list.splits)
qed simp

lemma sse_chunks_drain:
  assumes "lines_fit lm (seen @ concat chunks)" and "fst s = last (split_on LF seen)"
  shows "sse_chunks lm chunks s = sse_drain lm (fst s @ concat chunks) (snd s)"
  using assms
proof (induction chunks arbitrary: seen s)
  case Nil
  have "LF \<notin> set (fst s)" using Nil by (simp add: split_on_tail_sep)
  then show ?case by (simp add: sse_drain_last)
next
  case (Cons chunk chunks)
  obtain w ws where w: "split_on LF chunk = w # ws" by (cases "split_on LF chunk") auto
  have tail: "last (split_on LF (fst s @ chunk)) = last (split_on LF (seen @ chunk))"
    using Cons.prems(2) w by (simp add: split_on_concat split_on_no_sep split_on_tail_sep)
  have fit: "byte_length (last (split_on LF (fst s @ chunk))) \<le> sl_line lm"
    using lines_fit_tail [of lm "seen @ chunk" "concat chunks"] Cons.prems(1) tail by simp
  have IH: "sse_chunks lm chunks (last (split_on LF (fst s @ chunk)), st) =
      sse_drain lm (last (split_on LF (fst s @ chunk)) @ concat chunks) st" for st
    using Cons.IH [of "seen @ chunk" "(last (split_on LF (fst s @ chunk)), st)"] Cons.prems(1) tail by simp
  show ?case
    using fit IH sse_drain_append [of lm "fst s @ chunk" "concat chunks" "snd s"]
    by (auto simp: sse_chunk_def sse_drain_lines [of lm "fst s @ chunk"] split: prod.splits sum.splits)
qed

lemma sse_decode_whole:
  assumes "lines_fit lm (concat chunks)"
  shows "sse_decode lm chunks ending =
    (case sse_lines lm (butlast (split_on LF (concat chunks))) no_fields of
       (evs, Inl e) \<Rightarrow> (evs, Some e)
     | (evs, Inr st) \<Rightarrow> (let (evs', r) = sse_finish lm ending (last (split_on LF (concat chunks)), st) in (evs @ evs', r)))"
  using sse_chunks_drain [of lm "[]" chunks "([], no_fields)"] assms
  by (auto simp: sse_decode_def sse_drain_lines split: prod.splits sum.splits)

subsection \<open>Bounded memory\<close>

definition fields_ok :: "sse_limits \<Rightarrow> sse_fields \<Rightarrow> bool" where
  "fields_ok lm st \<longleftrightarrow> sum_list (map (\<lambda>d. byte_length d + 1) (sf_data st)) \<le> sf_bytes st \<and>
     sf_bytes st \<le> sl_event lm \<and>
     (case sf_event st of Some n \<Rightarrow> byte_length n \<le> sl_line lm | None \<Rightarrow> True)"

lemma byte_length_drop: "byte_length (dropWhile P s) \<le> byte_length s"
  by (metis byte_length_append le_add2 takeWhile_dropWhile_id)

lemma byte_length_Cons: "byte_length (c # s) = (if char_code c < 128 then 1 else 2) + byte_length s"
  by (simp add: byte_length_def)

lemma byte_length_Nil [simp]: "byte_length [] = 0"
  by (simp add: byte_length_def)

lemma field_value_le: "byte_length (field_value line) \<le> byte_length line"
  using byte_length_drop [of "\<lambda>c. c \<noteq> CHR '':''" line]
  by (auto simp: field_value_def byte_length_Cons split: list.splits if_splits)

lemma fields_ok_none [simp]: "fields_ok lm no_fields"
  by (simp add: fields_ok_def no_fields_def)

lemma sse_line_ok:
  assumes "fields_ok lm st" and "sse_line lm raw st = (evs, Inr st')"
  shows "fields_ok lm st'"
proof -
  let ?line = "strip_cr raw"
  have "byte_length (field_value ?line) \<le> byte_length ?line" by (rule field_value_le)
  then show ?thesis using assms
    by (auto simp: sse_line_def Let_def sse_field_def fields_ok_def no_fields_def split: if_splits option.splits)
qed

lemma sse_drain_ok:
  "fields_ok lm st \<Longrightarrow> sse_drain lm s st = (evs, Inr (tail, st')) \<Longrightarrow> fields_ok lm st'"
proof (induction s arbitrary: st evs rule: line_induct)
  case (last b)
  then show ?case by (simp add: sse_drain_last)
next
  case (line a b)
  then show ?case
    by (auto simp: sse_drain_line split: prod.splits sum.splits) (meson sse_line_ok)
qed

lemma sse_chunks_ok:
  "fields_ok lm (snd s) \<Longrightarrow> byte_length (fst s) \<le> sl_line lm \<Longrightarrow>
   sse_chunks lm chunks s = (evs, Inr s') \<Longrightarrow> fields_ok lm (snd s') \<and> byte_length (fst s') \<le> sl_line lm"
proof (induction chunks arbitrary: s evs)
  case (Cons c cs)
  obtain evs1 r1 where chunk: "sse_chunk lm c s = (evs1, r1)" by fastforce
  then obtain s1 evs2 where r1: "r1 = Inr s1" "sse_chunks lm cs s1 = (evs2, Inr s')"
    using Cons.prems(3) by (auto split: sum.splits prod.splits)
  have "fields_ok lm (snd s1)" "byte_length (fst s1) \<le> sl_line lm"
    using chunk r1(1) Cons.prems(1)
    by (auto simp: sse_chunk_def split: prod.splits sum.splits if_splits intro: sse_drain_ok)
  then show ?case using Cons.IH r1(2) by blast
qed simp

lemma join_bytes:
  "ds \<noteq> [] \<Longrightarrow> byte_length (join_with [LF] ds) < sum_list (map (\<lambda>d. byte_length d + 1) ds)"
proof (induction "[LF]" ds rule: join_with.induct)
  case (3 w v ws)
  then show ?case by (simp add: byte_length_Cons LF_def char_code_def)
qed simp_all

lemma emit_event_bounded:
  assumes "fields_ok lm st" and "ev \<in> set (emit_event st)"
  shows "byte_length (se_data ev) < sl_event lm"
proof -
  have "sf_data st \<noteq> []" "se_data ev = join_with [LF] (sf_data st)"
    using assms(2) by (auto simp: emit_event_def Let_def split: if_splits)
  then have "byte_length (se_data ev) < sum_list (map (\<lambda>d. byte_length d + 1) (sf_data st))"
    using join_bytes by simp
  then show ?thesis using assms(1) by (simp add: fields_ok_def)
qed

lemma sse_drain_bounded:
  "fields_ok lm st \<Longrightarrow> ev \<in> set (fst (sse_drain lm s st)) \<Longrightarrow> byte_length (se_data ev) < sl_event lm"
proof (induction s arbitrary: st rule: line_induct)
  case (last b)
  then show ?case by (simp add: sse_drain_last)
next
  case (line a b)
  obtain evs r where sl: "sse_line lm a st = (evs, r)" by fastforce
  have now: "ev \<in> set evs \<Longrightarrow> byte_length (se_data ev) < sl_event lm"
    using sl line.prems(1) emit_event_bounded
    by (auto simp: sse_line_def Let_def split: if_splits)
  show ?case
  proof (cases r)
    case (Inl e)
    then show ?thesis using now line by (simp add: sse_drain_line sl)
  next
    case (Inr st')
    then show ?thesis
      using now line sse_line_ok [OF line.prems(1), of a evs st'] by (auto simp: sse_drain_line sl split: prod.splits)
  qed
qed

lemma sse_chunks_bounded:
  "fields_ok lm (snd s) \<Longrightarrow> ev \<in> set (fst (sse_chunks lm chunks s)) \<Longrightarrow> byte_length (se_data ev) < sl_event lm"
proof (induction chunks arbitrary: s)
  case (Cons c cs)
  obtain evs r where dr: "sse_drain lm (fst s @ c) (snd s) = (evs, r)" by fastforce
  have now: "ev \<in> set evs \<Longrightarrow> byte_length (se_data ev) < sl_event lm"
    using sse_drain_bounded [OF Cons.prems(1), of ev "fst s @ c"] dr by simp
  show ?case
  proof (cases r)
    case (Inl e)
    then show ?thesis using now Cons.prems(2) by (simp add: sse_chunk_def dr)
  next
    case (Inr p)
    then have "fields_ok lm (snd p)"
      using sse_drain_ok [OF Cons.prems(1), of "fst s @ c" evs "fst p"] dr by simp
    then show ?thesis
      using now Cons.prems(2) Cons.IH [of p] Inr
      by (cases p) (auto simp: sse_chunk_def dr split: prod.splits if_splits)
  qed
qed simp

subsection \<open>Properties\<close>

text \<open>
  C35: How the transport cuts the body into chunks does not matter: when every line of the body,
  its carriage return included, fits the line limit, the decoder yields the same events and ends
  the same way as if the body had arrived in one piece.
\<close>

theorem sse_chunking_irrelevant:
  assumes "lines_fit lm (concat chunks)"
  shows "sse_decode lm chunks ending = sse_decode lm [concat chunks] ending"
  using sse_decode_whole [of lm chunks] sse_decode_whole [of lm "[concat chunks]"] assms by simp

definition sample_limits :: sse_limits where
  "sample_limits = \<lparr>sl_line = 10, sl_event = 20\<rparr>"

theorem sse_chunking_irrelevant_witness:
  "sse_decode sample_limits [''dat'', ''a: hi'' @ [LF], [LF, CHR ''d'']] (BodyDone []) =
   sse_decode sample_limits [''data: hi'' @ [LF, LF, CHR ''d'']] (BodyDone [])"
  using sse_chunking_irrelevant [of sample_limits "[''dat'', ''a: hi'' @ [LF], [LF, CHR ''d'']]"]
  by (simp add: lines_fit_def sample_limits_def LF_def byte_length_def char_code_def)

text \<open>
  The decoder's memory is bounded whatever the upstream sends: between two chunks it holds a
  partial line of at most the line limit and data of at most the event limit, and every event it
  has yielded carries less data than the event limit.
\<close>

theorem sse_memory_bounded:
  shows "(\<forall>ev \<in> set (fst (sse_decode lm chunks ending)). byte_length (se_data ev) < sl_event lm) \<and>
    (case sse_chunks lm chunks ([], no_fields) of
       (evs, Inr (tail, st)) \<Rightarrow> byte_length tail \<le> sl_line lm \<and>
         byte_length (join_with [LF] (sf_data st)) \<le> sl_event lm
     | _ \<Rightarrow> True)"
proof -
  obtain evs r where run: "sse_chunks lm chunks ([], no_fields) = (evs, r)" by fastforce
  have yielded: "\<forall>ev \<in> set evs. byte_length (se_data ev) < sl_event lm"
    using sse_chunks_bounded [of lm "([], no_fields)" _ chunks] run by simp
  have held: "fields_ok lm (snd s) \<and> byte_length (fst s) \<le> sl_line lm" if "r = Inr s" for s
    using sse_chunks_ok [of lm "([], no_fields)" chunks evs s] run that by simp
  have data: "byte_length (join_with [LF] (sf_data st)) \<le> sl_event lm" if "fields_ok lm st" for st
    using that join_bytes [of "sf_data st"] by (cases "sf_data st") (auto simp: fields_ok_def)
  have last: "byte_length (se_data ev) < sl_event lm"
    if "r = Inr s" "ev \<in> set (fst (sse_finish lm ending s))" for s ev
    using held that emit_event_bounded [of lm "snd s" ev] by (auto simp: sse_finish_def split: read_end.splits if_splits)
  show ?thesis
    using yielded held data last run
    by (auto simp: sse_decode_def split: prod.splits sum.splits)
qed

theorem sse_memory_bounded_witness:
  "sse_decode sample_limits [''data: hi'' @ [LF, LF]] (BodyDone []) = ([\<lparr>se_event = None, se_data = ''hi''\<rparr>], None) \<and>
   2 < sl_event sample_limits"
  using sse_memory_bounded [of sample_limits "[''data: hi'' @ [LF, LF]]" "BodyDone []"]
  by (simp add: sse_decode_def sse_chunk_def sse_drain.simps LF_def sse_line_def strip_cr_def CR_def Let_def
      byte_length_def sample_limits_def sse_field_def field_name_def field_value_def no_fields_def
      emit_event_def sse_finish_def char_code_def)

subsection \<open>Where the code departs from its comments\<close>

text \<open>
  A line of exactly the limit passes, but when the chunk ends between its carriage return and its
  line feed the same line is refused.
\<close>

definition crlf_limits :: sse_limits where
  "crlf_limits = \<lparr>sl_line = 7, sl_event = 100\<rparr>"

lemma chunk_end_after_cr_is_refused:
  "sse_decode crlf_limits [''data: x'' @ [CR, LF, LF]] (BodyDone []) = ([\<lparr>se_event = None, se_data = ''x''\<rparr>], None)"
  "sse_decode crlf_limits [''data: x'' @ [CR], [LF, LF]] (BodyDone []) = ([], Some (line_too_long crlf_limits))"
  by (simp_all add: sse_decode_def sse_chunk_def sse_drain.simps LF_def sse_line_def strip_cr_def CR_def Let_def
      byte_length_def crlf_limits_def sse_field_def field_name_def field_value_def no_fields_def
      emit_event_def sse_finish_def char_code_def)

text \<open>
  At the end of the body a pending event is yielded without its blank line, but a last line
  without its line feed is dropped.
\<close>

lemma unterminated_last_line_is_dropped:
  "sse_decode crlf_limits [''data: x'' @ [LF]] (BodyDone []) = ([\<lparr>se_event = None, se_data = ''x''\<rparr>], None)"
  "sse_decode crlf_limits [''data: x''] (BodyDone []) = ([], None)"
  by (simp_all add: sse_decode_def sse_chunk_def sse_drain.simps LF_def sse_line_def strip_cr_def CR_def Let_def
      byte_length_def crlf_limits_def sse_field_def field_name_def field_value_def no_fields_def
      emit_event_def sse_finish_def char_code_def)

end
