(* ===== verification/StreamMappers.thy ===== *)
theory StreamMappers imports SseDecoder begin

text \<open>
  The mappers from the server-sent events of each provider protocol to the stream events of the
  domain (\<open>src/transport/protocols/openai.ts\<close>, \<open>anthropic.ts\<close>, \<open>gemini.ts\<close>), with the usage mappings
  they call. The variables a mapper closes over are its state record. \<open>uuid\<close> is the UUID drawn where
  one is needed, \<open>show_num\<close> the number in a template literal. A number of a parsed body is finite.
\<close>

subsection \<open>Usage\<close>

text \<open>\<open>total ?? (input !== null && output !== null ? input + output : null)\<close>\<close>

definition sum_tokens :: "rat option \<Rightarrow> rat option \<Rightarrow> rat option" where
  "sum_tokens a b = (case (a, b) of (Some x, Some y) \<Rightarrow> Some (x + y) | _ \<Rightarrow> None)"

definition first_some :: "'a option \<Rightarrow> 'a option \<Rightarrow> 'a option" where
  "first_some a b = (case a of Some x \<Rightarrow> Some x | None \<Rightarrow> b)"

definition nested_number :: "(string \<times> json) list \<Rightarrow> string \<Rightarrow> string \<Rightarrow> rat option" where
  "nested_number fs outer inner =
    (case narrow_record (js_field fs outer) of Some ds \<Rightarrow> nullable_number (js_field ds inner) | None \<Rightarrow> None)"

definition map_chat_usage :: "(string \<times> json) list \<Rightarrow> provider_usage" where
  "map_chat_usage usage =
    (let input = nullable_number (js_field usage ''prompt_tokens'');
         output = nullable_number (js_field usage ''completion_tokens'')
     in \<lparr>us_input = input, us_output = output,
         us_total = first_some (nullable_number (js_field usage ''total_tokens'')) (sum_tokens input output),
         us_cache_read = nested_number usage ''prompt_tokens_details'' ''cached_tokens'',
         us_cache_write = None, us_source = TsProvider\<rparr>)"

definition map_responses_usage :: "(string \<times> json) list \<Rightarrow> provider_usage" where
  "map_responses_usage usage =
    (let input = nullable_number (js_field usage ''input_tokens'');
         output = nullable_number (js_field usage ''output_tokens'')
     in \<lparr>us_input = input, us_output = output,
         us_total = first_some (nullable_number (js_field usage ''total_tokens'')) (sum_tokens input output),
         us_cache_read = nested_number usage ''input_tokens_details'' ''cached_tokens'',
         us_cache_write = None, us_source = TsProvider\<rparr>)"

definition map_anthropic_usage :: "(string \<times> json) list \<Rightarrow> provider_usage" where
  "map_anthropic_usage usage =
    (let input = nullable_number (js_field usage ''input_tokens'');
         output = nullable_number (js_field usage ''output_tokens'')
     in \<lparr>us_input = input, us_output = output, us_total = sum_tokens input output,
         us_cache_read = nullable_number (js_field usage ''cache_read_input_tokens''),
         us_cache_write = nullable_number (js_field usage ''cache_creation_input_tokens''),
         us_source = TsProvider\<rparr>)"

definition or_record :: "json option \<Rightarrow> (string \<times> json) list" where
  "or_record v = (case narrow_record v of Some fs \<Rightarrow> fs | None \<Rightarrow> [])"

definition map_gemini_usage :: "(string \<times> json) list \<Rightarrow> provider_usage" where
  "map_gemini_usage body =
    (let usage = or_record (js_field body ''usageMetadata'')
     in \<lparr>us_input = nullable_number (js_field usage ''promptTokenCount''),
         us_output = nullable_number (js_field usage ''candidatesTokenCount''),
         us_total = nullable_number (js_field usage ''totalTokenCount''),
         us_cache_read = nullable_number (js_field usage ''cachedContentTokenCount''),
         us_cache_write = None, us_source = TsProvider\<rparr>)"

text \<open>What every mapper starts with: the JSON object of the event, if it is one.\<close>

definition with_record ::
  "(adapter_error + json) \<Rightarrow> 'm \<Rightarrow> ((string \<times> json) list \<Rightarrow> adapter_error + 'm \<times> stream_event list) \<Rightarrow>
   adapter_error + 'm \<times> stream_event list" where
  "with_record parsed m k = (case parsed of
      Inl e \<Rightarrow> Inl e
    | Inr v \<Rightarrow> (case narrow_record (Some v) of None \<Rightarrow> Inr (m, []) | Some fs \<Rightarrow> k fs))"

definition text_field :: "(string \<times> json) list \<Rightarrow> string \<Rightarrow> string option" where
  "text_field fs name = narrow_text (js_field fs name)"

definition or_text :: "string option \<Rightarrow> string \<Rightarrow> string" where
  "or_text a d = (case a of Some s \<Rightarrow> s | None \<Rightarrow> d)"

subsection \<open>Chat completions\<close>

record chat_mapper =
  cm_started :: bool
  cm_id :: "string option"
  cm_finish :: "string option"
  cm_tools :: "(nat, string) js_map"

definition chat_mapper_start :: chat_mapper where
  "chat_mapper_start = \<lparr>cm_started = False, cm_id = None, cm_finish = None, cm_tools = []\<rparr>"

definition map_chat_finish_reason :: "string option \<Rightarrow> stop_reason" where
  "map_chat_finish_reason r =
    (if r = Some ''length'' then SrLength
     else if r = Some ''tool_calls'' then SrToolCall
     else if r = Some ''content_filter'' then SrContentFilter
     else SrCompleted)"

fun delta_string :: "(string \<times> json) list \<Rightarrow> string list \<Rightarrow> string option" where
  "delta_string delta [] = None"
| "delta_string delta (key # keys) =
     (case text_field delta key of
        Some s \<Rightarrow> if 0 < length s then Some s else delta_string delta keys
      | None \<Rightarrow> delta_string delta keys)"

definition chat_tool_index :: "(string \<times> json) list \<Rightarrow> nat" where
  "chat_tool_index raw = (case nullable_number (js_field raw ''index'') of
      Some q \<Rightarrow> if is_integer_rat q \<and> 0 \<le> q then nat \<lfloor>q\<rfloor> else 0
    | None \<Rightarrow> 0)"

definition chat_tool_call ::
  "(string \<times> json) list \<Rightarrow> (nat, string) js_map \<Rightarrow> (nat, string) js_map \<times> stream_event list" where
  "chat_tool_call raw tools =
    (let index = chat_tool_index raw;
         fn = narrow_record (js_field raw ''function'');
         incoming = (case text_field raw ''id'' of Some s \<Rightarrow> if 0 < length s then Some s else None | None \<Rightarrow> None);
         call_id = or_text (first_some (jm_get tools index) incoming) (''tool_call_'' @ nat_str index);
         name = or_text (Option.bind fn (\<lambda>f. text_field f ''name'')) [];
         args = or_text (Option.bind fn (\<lambda>f. text_field f ''arguments'')) [];
         started = (if jm_has tools index then [] else [ToolCallStart call_id name])
     in (if jm_has tools index then tools else jm_set index call_id tools,
         started @ (if 0 < length args then [ToolCallDelta call_id args] else [])))"

fun chat_tool_calls ::
  "json list \<Rightarrow> (nat, string) js_map \<Rightarrow> (nat, string) js_map \<times> stream_event list" where
  "chat_tool_calls [] tools = (tools, [])"
| "chat_tool_calls (raw # raws) tools =
     (case narrow_record (Some raw) of
        None \<Rightarrow> chat_tool_calls raws tools
      | Some fs \<Rightarrow>
          (let (tools1, evs1) = chat_tool_call fs tools; (tools2, evs2) = chat_tool_calls raws tools1
           in (tools2, evs1 @ evs2)))"

definition chat_delta ::
  "(string \<times> json) list \<Rightarrow> (nat, string) js_map \<Rightarrow> (nat, string) js_map \<times> stream_event list" where
  "chat_delta delta tools =
    (let thinking = delta_string delta [''reasoning_content'', ''reasoning'', ''thinking''];
         content = delta_string delta [''content''];
         (tools', calls) = (case js_field delta ''tool_calls'' of
            Some (JArr raws) \<Rightarrow> chat_tool_calls raws tools | _ \<Rightarrow> (tools, []))
     in (tools', (case thinking of Some s \<Rightarrow> [ThinkingDelta s] | None \<Rightarrow> []) @
                 (case content of Some s \<Rightarrow> [TextDelta s] | None \<Rightarrow> []) @ calls))"

text \<open>\<open>choices[0]\<close>, when it is an object.\<close>

definition first_choice :: "(string \<times> json) list \<Rightarrow> (string \<times> json) list option" where
  "first_choice fs = (case js_field fs ''choices'' of
      Some (JArr (c # _)) \<Rightarrow> narrow_record (Some c) | _ \<Rightarrow> None)"

definition chat_record :: "string \<Rightarrow> chat_mapper \<Rightarrow> (string \<times> json) list \<Rightarrow> chat_mapper \<times> stream_event list" where
  "chat_record uuid m fs =
    (let mid = first_some (text_field fs ''id'') (cm_id m);
         start = (if cm_started m then [] else [MessageStart (or_text mid (''chatcmpl-'' @ uuid))]);
         usage = (case narrow_record (js_field fs ''usage'') of
            Some u \<Rightarrow> [UsageEvent (map_chat_usage u)] | None \<Rightarrow> []);
         m1 = m\<lparr>cm_id := mid, cm_started := True\<rparr>
     in case first_choice fs of
       None \<Rightarrow> (m1, start @ usage)
     | Some choice \<Rightarrow>
       (let m2 = m1\<lparr>cm_finish := first_some (text_field choice ''finish_reason'') (cm_finish m)\<rparr>
        in case narrow_record (js_field choice ''delta'') of
          None \<Rightarrow> (m2, start @ usage)
        | Some delta \<Rightarrow>
          (let (tools', evs) = chat_delta delta (cm_tools m)
           in (m2\<lparr>cm_tools := tools'\<rparr>, start @ usage @ evs))))"

definition chat_map :: "string \<Rightarrow> chat_mapper stream_mapper" where
  "chat_map uuid m sse =
    (if se_data sse = ''[DONE]''
     then Inr (m\<lparr>cm_tools := []\<rparr>,
       map (\<lambda>(_, call_id). ToolCallEnd call_id) (cm_tools m) @ [MessageStop (map_chat_finish_reason (cm_finish m))])
     else with_record (parse_sse_data (se_data sse)) m (\<lambda>fs. Inr (chat_record uuid m fs)))"

subsection \<open>Responses\<close>

text \<open>A \<open>Set\<close> iterates in insertion order.\<close>

definition set_add :: "'a \<Rightarrow> 'a list \<Rightarrow> 'a list" where
  "set_add x xs = (if x \<in> set xs then xs else xs @ [x])"

record responses_mapper =
  rsm_started :: bool
  rsm_id :: "string option"
  rsm_stop :: "stop_reason option"
  rsm_call_ids :: "(rat, string) js_map"
  rsm_active :: "string list"
  rsm_emitted :: "string list"

definition responses_mapper_start :: responses_mapper where
  "responses_mapper_start = \<lparr>rsm_started = False, rsm_id = None, rsm_stop = None, rsm_call_ids = [],
     rsm_active = [], rsm_emitted = []\<rparr>"

definition start_if_needed ::
  "string \<Rightarrow> responses_mapper \<Rightarrow> stream_event list \<Rightarrow> responses_mapper \<times> stream_event list" where
  "start_if_needed uuid m evs =
    (if rsm_started m then (m, evs)
     else (m\<lparr>rsm_started := True\<rparr>, MessageStart (or_text (rsm_id m) (''resp_'' @ uuid)) # evs))"

definition output_index :: "(string \<times> json) list \<Rightarrow> rat" where
  "output_index fs = (case nullable_number (js_field fs ''output_index'') of Some q \<Rightarrow> q | None \<Rightarrow> -1)"

definition function_call_item :: "(string \<times> json) list \<Rightarrow> (string \<times> json) list option" where
  "function_call_item fs = (case narrow_record (js_field fs ''item'') of
      Some item \<Rightarrow> if text_field item ''type'' = Some ''function_call'' then Some item else None
    | None \<Rightarrow> None)"

definition delta_event ::
  "(string \<Rightarrow> stream_event) \<Rightarrow> responses_mapper \<Rightarrow> (string \<times> json) list \<Rightarrow> responses_mapper \<times> stream_event list" where
  "delta_event mk m fs = (case text_field fs ''delta'' of
      Some s \<Rightarrow> (m, if 0 < length s then [mk s] else []) | None \<Rightarrow> (m, []))"

definition responses_arguments_delta ::
  "(rat \<Rightarrow> string) \<Rightarrow> responses_mapper \<Rightarrow> (string \<times> json) list \<Rightarrow> responses_mapper \<times> stream_event list" where
  "responses_arguments_delta show_num m fs =
    (let delta = or_text (text_field fs ''delta'') [];
         call_id = or_text (first_some (text_field fs ''item_id'') (jm_get (rsm_call_ids m) (output_index fs)))
           (''call_'' @ show_num (output_index fs))
     in if delta = [] then (m, [])
        else (m\<lparr>rsm_emitted := set_add call_id (rsm_emitted m)\<rparr>, [ToolCallDelta call_id delta]))"

definition responses_item_added ::
  "(rat \<Rightarrow> string) \<Rightarrow> string \<Rightarrow> responses_mapper \<Rightarrow> (string \<times> json) list \<Rightarrow> responses_mapper \<times> stream_event list" where
  "responses_item_added show_num uuid m fs =
    (case function_call_item fs of
       None \<Rightarrow> (m, [])
     | Some item \<Rightarrow>
       (let call_id = or_text (first_some (text_field item ''call_id'') (text_field item ''id''))
              (''call_'' @ show_num (output_index fs));
            m1 = m\<lparr>rsm_call_ids := jm_set (output_index fs) call_id (rsm_call_ids m),
                   rsm_active := set_add call_id (rsm_active m)\<rparr>
        in start_if_needed uuid m1 [ToolCallStart call_id (or_text (text_field item ''name'') [])]))"

definition responses_item_done ::
  "(rat \<Rightarrow> string) \<Rightarrow> string \<Rightarrow> responses_mapper \<Rightarrow> (string \<times> json) list \<Rightarrow> responses_mapper \<times> stream_event list" where
  "responses_item_done show_num uuid m fs =
    (case function_call_item fs of
       None \<Rightarrow> (m, [])
     | Some item \<Rightarrow>
       (let call_id = or_text (first_some (jm_get (rsm_call_ids m) (output_index fs)) (text_field item ''call_id''))
              (''call_'' @ show_num (output_index fs));
            args = or_text (text_field item ''arguments'') [];
            late = 0 < length args \<and> call_id \<notin> set (rsm_emitted m);
            active = call_id \<in> set (rsm_active m);
            m1 = m\<lparr>rsm_emitted := (if late then set_add call_id (rsm_emitted m) else rsm_emitted m),
                   rsm_active := removeAll call_id (rsm_active m)\<rparr>;
            evs = (if late then [ToolCallDelta call_id args] else []) @ (if active then [ToolCallEnd call_id] else [])
        in if evs = [] then (m1, []) else start_if_needed uuid m1 evs))"

definition close_calls :: "responses_mapper \<Rightarrow> stream_event list" where
  "close_calls m = map ToolCallEnd (rsm_active m)"

definition responses_completed ::
  "string \<Rightarrow> responses_mapper \<Rightarrow> (string \<times> json) list \<Rightarrow> responses_mapper \<times> stream_event list" where
  "responses_completed uuid m fs =
    (let response = narrow_record (js_field fs ''response'');
         usage = (case Option.bind response (\<lambda>r. narrow_record (js_field r ''usage'')) of
            Some u \<Rightarrow> [UsageEvent (map_responses_usage u)] | None \<Rightarrow> []);
         stop = (case rsm_stop m of
            Some r \<Rightarrow> r
          | None \<Rightarrow> (case response of
                None \<Rightarrow> SrCompleted
              | Some r \<Rightarrow>
                (let status = or_text (text_field r ''status'') []
                 in if status = ''completed'' then SrCompleted
                    else if status = ''incomplete'' then SrLength else SrError)))
     in start_if_needed uuid (m\<lparr>rsm_stop := Some stop, rsm_active := []\<rparr>)
          (usage @ close_calls m @ [MessageStop stop]))"

definition responses_error :: "(string \<times> json) list \<Rightarrow> adapter_error" where
  "responses_error fs = adapter_fail
     (if text_field fs ''code'' = Some ''max_output_tokens'' then StreamTruncated else ProviderProtocolError)
     (or_text (text_field fs ''message'') ''Upstream responses stream errored'')
     None (Some False) (Some ScProvider)"

definition responses_record ::
  "(rat \<Rightarrow> string) \<Rightarrow> string \<Rightarrow> responses_mapper \<Rightarrow> (string \<times> json) list \<Rightarrow>
   adapter_error + responses_mapper \<times> stream_event list" where
  "responses_record show_num uuid m fs =
    (case text_field fs ''type'' of
       None \<Rightarrow> Inr (m, [])
     | Some ty \<Rightarrow>
       if ty = ''response.created'' then
         (let mid = first_some (Option.bind (narrow_record (js_field fs ''response'')) (\<lambda>r. text_field r ''id'')) (rsm_id m);
              m1 = m\<lparr>rsm_id := mid\<rparr>
          in Inr (if rsm_started m then (m1, []) else start_if_needed uuid m1 []))
       else if ty = ''response.output_text.delta'' then Inr (delta_event TextDelta m fs)
       else if ty = ''response.reasoning_text.delta'' \<or> ty = ''response.reasoning_summary_text.delta''
         then Inr (delta_event ThinkingDelta m fs)
       else if ty = ''response.function_call_arguments.delta'' then Inr (responses_arguments_delta show_num m fs)
       else if ty = ''response.output_item.added'' then Inr (responses_item_added show_num uuid m fs)
       else if ty = ''response.output_item.done'' then Inr (responses_item_done show_num uuid m fs)
       else if ty = ''response.incomplete'' then Inr (m\<lparr>rsm_stop := Some SrLength\<rparr>, [])
       else if ty = ''response.failed'' then
         Inr (start_if_needed uuid (m\<lparr>rsm_stop := Some SrError, rsm_active := []\<rparr>)
           (close_calls m @ [MessageStop SrError]))
       else if ty = ''response.usage'' then
         Inr (m, case narrow_record (js_field fs ''usage'') of
            Some u \<Rightarrow> [UsageEvent (map_responses_usage u)] | None \<Rightarrow> [])
       else if ty = ''response.completed'' then Inr (responses_completed uuid m fs)
       else if ty = ''response.error'' then Inl (responses_error fs)
       else Inr (m, []))"

definition responses_map :: "(rat \<Rightarrow> string) \<Rightarrow> string \<Rightarrow> responses_mapper stream_mapper" where
  "responses_map show_num uuid m sse =
    with_record (parse_sse_data (se_data sse)) m (responses_record show_num uuid m)"

subsection \<open>Messages\<close>

record anthropic_mapper =
  anm_started :: bool
  anm_id :: "string option"
  anm_input :: "rat option"
  anm_cache_read :: "rat option"
  anm_cache_write :: "rat option"
  anm_output :: "rat option"
  anm_stop :: "stop_reason option"
  anm_tools :: "(rat, string) js_map"

definition anthropic_mapper_start :: anthropic_mapper where
  "anthropic_mapper_start = \<lparr>anm_started = False, anm_id = None, anm_input = None, anm_cache_read = None,
     anm_cache_write = None, anm_output = None, anm_stop = None, anm_tools = []\<rparr>"

definition map_anthropic_stop_reason :: "string \<Rightarrow> stop_reason" where
  "map_anthropic_stop_reason r =
    (if r = ''max_tokens'' then SrLength
     else if r = ''tool_use'' then SrToolCall
     else if r = ''refusal'' then SrContentFilter
     else SrCompleted)"

definition block_index :: "(string \<times> json) list \<Rightarrow> rat" where
  "block_index fs = (case nullable_number (js_field fs ''index'') of Some q \<Rightarrow> q | None \<Rightarrow> -1)"

definition anthropic_message_start ::
  "string \<Rightarrow> anthropic_mapper \<Rightarrow> (string \<times> json) list \<Rightarrow> anthropic_mapper \<times> stream_event list" where
  "anthropic_message_start uuid m fs =
    (let m1 = (case narrow_record (js_field fs ''message'') of
           None \<Rightarrow> m
         | Some msg \<Rightarrow>
           (let m0 = m\<lparr>anm_id := first_some (text_field msg ''id'') (anm_id m)\<rparr>
            in case narrow_record (js_field msg ''usage'') of
              None \<Rightarrow> m0
            | Some u \<Rightarrow> m0\<lparr>anm_input := nullable_number (js_field u ''input_tokens''),
                anm_cache_read := nullable_number (js_field u ''cache_read_input_tokens''),
                anm_cache_write := nullable_number (js_field u ''cache_creation_input_tokens'')\<rparr>))
     in if anm_started m then (m1, [])
        else (m1\<lparr>anm_started := True\<rparr>, [MessageStart (or_text (anm_id m1) (''msg_'' @ uuid))]))"

definition anthropic_block_start ::
  "(string \<Rightarrow> string) \<Rightarrow> anthropic_mapper \<Rightarrow> (string \<times> json) list \<Rightarrow> anthropic_mapper \<times> stream_event list" where
  "anthropic_block_start name_transform m fs =
    (case narrow_record (js_field fs ''content_block'') of
       None \<Rightarrow> (m, [])
     | Some block \<Rightarrow>
       (case text_field block ''id'' of
          None \<Rightarrow> (m, [])
        | Some call_id \<Rightarrow>
          if text_field block ''type'' = Some ''tool_use''
          then (m\<lparr>anm_tools := jm_set (block_index fs) call_id (anm_tools m)\<rparr>,
                [ToolCallStart call_id (name_transform (or_text (text_field block ''name'') []))])
          else (m, [])))"

definition nonempty_event :: "(string \<Rightarrow> stream_event) \<Rightarrow> string option \<Rightarrow> stream_event list" where
  "nonempty_event mk s = (case s of Some t \<Rightarrow> if 0 < length t then [mk t] else [] | None \<Rightarrow> [])"

definition anthropic_block_delta ::
  "(rat \<Rightarrow> string) \<Rightarrow> anthropic_mapper \<Rightarrow> (string \<times> json) list \<Rightarrow> stream_event list" where
  "anthropic_block_delta show_num m fs =
    (case narrow_record (js_field fs ''delta'') of
       None \<Rightarrow> []
     | Some delta \<Rightarrow>
       (let ty = text_field delta ''type''
        in if ty = Some ''text_delta'' then nonempty_event TextDelta (text_field delta ''text'')
           else if ty = Some ''thinking_delta'' then nonempty_event ThinkingDelta (text_field delta ''thinking'')
           else if ty = Some ''input_json_delta'' then
             nonempty_event (ToolCallDelta (or_text (jm_get (anm_tools m) (block_index fs))
               (''tool_'' @ show_num (block_index fs)))) (text_field delta ''partial_json'')
           else []))"

definition anthropic_block_stop ::
  "anthropic_mapper \<Rightarrow> (string \<times> json) list \<Rightarrow> anthropic_mapper \<times> stream_event list" where
  "anthropic_block_stop m fs =
    (case jm_get (anm_tools m) (block_index fs) of
       None \<Rightarrow> (m, [])
     | Some call_id \<Rightarrow> (m\<lparr>anm_tools := jm_delete (block_index fs) (anm_tools m)\<rparr>, [ToolCallEnd call_id]))"

definition anthropic_message_delta ::
  "anthropic_mapper \<Rightarrow> (string \<times> json) list \<Rightarrow> anthropic_mapper \<times> stream_event list" where
  "anthropic_message_delta m fs =
    (let m1 = (case Option.bind (narrow_record (js_field fs ''delta'')) (\<lambda>d. text_field d ''stop_reason'') of
           Some r \<Rightarrow> m\<lparr>anm_stop := Some (map_anthropic_stop_reason r)\<rparr> | None \<Rightarrow> m);
         m2 = (case narrow_record (js_field fs ''usage'') of
           Some u \<Rightarrow> m1\<lparr>anm_output := nullable_number (js_field u ''output_tokens'')\<rparr> | None \<Rightarrow> m1)
     in (m2, [UsageEvent \<lparr>us_input = anm_input m2, us_output = anm_output m2,
          us_total = sum_tokens (anm_input m2) (anm_output m2), us_cache_read = anm_cache_read m2,
          us_cache_write = anm_cache_write m2, us_source = TsProvider\<rparr>]))"

definition anthropic_stream_error :: "(string \<times> json) list \<Rightarrow> adapter_error" where
  "anthropic_stream_error fs =
    (let err = narrow_record (js_field fs ''error'');
         ty = Option.bind err (\<lambda>e. text_field e ''type'');
         limited = ty = Some ''rate_limit_error'' \<or> ty = Some ''overloaded_error''
     in adapter_fail (if limited then ProviderRateLimited else ProviderProtocolError)
          (or_text (Option.bind err (\<lambda>e. text_field e ''message'')) ''Upstream stream error'')
          None (Some limited) (Some (if limited then ScAccount else ScProvider)))"

definition anthropic_record ::
  "(string \<Rightarrow> string) \<Rightarrow> (rat \<Rightarrow> string) \<Rightarrow> string \<Rightarrow> anthropic_mapper \<Rightarrow> (string \<times> json) list \<Rightarrow>
   adapter_error + anthropic_mapper \<times> stream_event list" where
  "anthropic_record name_transform show_num uuid m fs =
    (case text_field fs ''type'' of
       None \<Rightarrow> Inr (m, [])
     | Some ty \<Rightarrow>
       if ty = ''message_start'' then Inr (anthropic_message_start uuid m fs)
       else if ty = ''content_block_start'' then Inr (anthropic_block_start name_transform m fs)
       else if ty = ''content_block_delta'' then Inr (m, anthropic_block_delta show_num m fs)
       else if ty = ''content_block_stop'' then Inr (anthropic_block_stop m fs)
       else if ty = ''message_delta'' then Inr (anthropic_message_delta m fs)
       else if ty = ''message_stop'' then
         Inr (m, [MessageStop (case anm_stop m of Some r \<Rightarrow> r | None \<Rightarrow> SrCompleted)])
       else if ty = ''error'' then Inl (anthropic_stream_error fs)
       else Inr (m, []))"

definition anthropic_map ::
  "(string \<Rightarrow> string) \<Rightarrow> (rat \<Rightarrow> string) \<Rightarrow> string \<Rightarrow> anthropic_mapper stream_mapper" where
  "anthropic_map name_transform show_num uuid m sse =
    with_record (parse_sse_data (se_data sse)) m (anthropic_record name_transform show_num uuid m)"

subsection \<open>Gemini\<close>

record gemini_parts =
  gp_response :: "(string \<times> json) list"
  gp_candidate :: "(string \<times> json) list"
  gp_parts :: "(string \<times> json) list list"

definition gemini_candidate :: "(string \<times> json) list \<Rightarrow> gemini_parts" where
  "gemini_candidate body =
    (let response = (case narrow_record (js_field body ''response'') of Some r \<Rightarrow> r | None \<Rightarrow> body);
         candidate = (case js_field response ''candidates'' of
            Some (JArr (c # _)) \<Rightarrow> or_record (Some c) | _ \<Rightarrow> []);
         content = or_record (js_field candidate ''content'');
         parts = List.map_filter (\<lambda>p. narrow_record (Some p)) (narrow_list (js_field content ''parts''))
     in \<lparr>gp_response = response, gp_candidate = candidate, gp_parts = parts\<rparr>)"

record gemini_call =
  gc_id :: string
  gc_name :: string
  gc_args :: "(string \<times> json) list"

record gemini_output =
  go_text :: string
  go_calls :: "gemini_call list"
  go_thought :: string

text \<open>A call without an id draws a UUID: \<open>uuid n\<close> is the n-th one, \<open>draws\<close> the number drawn so far.\<close>

definition gemini_part_call ::
  "(nat \<Rightarrow> string) \<Rightarrow> nat \<Rightarrow> (string \<times> json) list \<Rightarrow> nat \<times> gemini_call list" where
  "gemini_part_call uuid draws part =
    (case narrow_record (js_field part ''functionCall'') of
       None \<Rightarrow> (draws, [])
     | Some fc \<Rightarrow>
       (case text_field fc ''name'' of
          None \<Rightarrow> (draws, [])
        | Some name \<Rightarrow>
          (let args = or_record (js_field fc ''args'')
           in case text_field fc ''id'' of
             Some i \<Rightarrow> (draws, [\<lparr>gc_id = i, gc_name = name, gc_args = args\<rparr>])
           | None \<Rightarrow> (Suc draws, [\<lparr>gc_id = ''call_'' @ uuid draws, gc_name = name, gc_args = args\<rparr>]))))"

fun gemini_calls ::
  "(nat \<Rightarrow> string) \<Rightarrow> nat \<Rightarrow> (string \<times> json) list list \<Rightarrow> nat \<times> gemini_call list" where
  "gemini_calls uuid draws [] = (draws, [])"
| "gemini_calls uuid draws (part # parts) =
     (let (draws1, cs) = gemini_part_call uuid draws part; (draws2, cs') = gemini_calls uuid draws1 parts
      in (draws2, cs @ cs'))"

definition is_thought :: "(string \<times> json) list \<Rightarrow> bool" where
  "is_thought part \<longleftrightarrow> js_field part ''thought'' = Some (JBool True)"

definition response_parts ::
  "(nat \<Rightarrow> string) \<Rightarrow> nat \<Rightarrow> (string \<times> json) list list \<Rightarrow> nat \<times> gemini_output" where
  "response_parts uuid draws parts =
    (let texts = (\<lambda>ps. concat (List.map_filter (\<lambda>p. text_field p ''text'') ps));
         (draws', calls) = gemini_calls uuid draws parts
     in (draws', \<lparr>go_text = texts (filter (\<lambda>p. \<not> is_thought p) parts), go_calls = calls,
                  go_thought = texts (filter is_thought parts)\<rparr>))"

record gemini_mapper =
  gem_started :: bool
  gem_stopped :: bool
  gem_active :: "string list"
  gem_draws :: nat

definition gemini_mapper_start :: gemini_mapper where
  "gemini_mapper_start = \<lparr>gem_started = False, gem_stopped = False, gem_active = [], gem_draws = 0\<rparr>"

fun gemini_call_events ::
  "(rat \<Rightarrow> string) \<Rightarrow> gemini_call list \<Rightarrow> string list \<Rightarrow> string list \<times> stream_event list" where
  "gemini_call_events show_num [] active = (active, [])"
| "gemini_call_events show_num (c # cs) active =
     (let start = (if gc_id c \<in> set active then [] else [ToolCallStart (gc_id c) (gc_name c)]);
          args = json_text show_num (JObj (gc_args c));
          delta = (if 0 < length args \<and> args \<noteq> ''{}'' then [ToolCallDelta (gc_id c) args] else []);
          (active', evs) = gemini_call_events show_num cs (set_add (gc_id c) active)
      in (active', start @ delta @ evs))"

definition gemini_usage_event :: "(string \<times> json) list \<Rightarrow> stream_event list" where
  "gemini_usage_event fs =
    (let usage = map_gemini_usage fs
     in if is_record (js_field fs ''usageMetadata'') \<and>
           (us_total usage \<noteq> None \<or> us_input usage \<noteq> None \<or> us_output usage \<noteq> None)
        then [UsageEvent usage] else [])"

definition gemini_stop :: "gemini_mapper \<Rightarrow> (string \<times> json) list \<Rightarrow> bool \<Rightarrow> gemini_mapper \<times> stream_event list" where
  "gemini_stop m candidate has_calls =
    (case text_field candidate ''finishReason'' of
       None \<Rightarrow> (m, [])
     | Some r \<Rightarrow>
       if gem_stopped m then (m, [])
       else (m\<lparr>gem_stopped := True, gem_active := []\<rparr>,
             map ToolCallEnd (gem_active m) @
             [MessageStop (if r = ''MAX_TOKENS'' then SrLength else if has_calls then SrToolCall else SrCompleted)]))"

definition gemini_record ::
  "(rat \<Rightarrow> string) \<Rightarrow> (nat \<Rightarrow> string) \<Rightarrow> gemini_mapper \<Rightarrow> (string \<times> json) list \<Rightarrow>
   adapter_error + gemini_mapper \<times> stream_event list" where
  "gemini_record show_num uuid m fs =
    (case narrow_record (js_field fs ''error'') of
       Some err \<Rightarrow> Inl (adapter_fail ProviderProtocolError
           (or_text (text_field err ''message'') ''Gemini stream returned an error'') None None (Some ScProvider))
     | None \<Rightarrow>
       (let g = gemini_candidate fs;
            (draws1, output) = response_parts uuid (gem_draws m) (gp_parts g);
            named = text_field (gp_response g) ''responseId'';
            drawn = \<not> gem_started m \<and> named = None;
            start = (if gem_started m then [] else [MessageStart (or_text named (''gemini-'' @ uuid draws1))]);
            (active1, calls) = gemini_call_events show_num (go_calls output) (gem_active m);
            m1 = m\<lparr>gem_started := True, gem_active := active1, gem_draws := (if drawn then Suc draws1 else draws1)\<rparr>;
            (m2, stop) = gemini_stop m1 (gp_candidate g) (go_calls output \<noteq> [])
        in Inr (m2, start @ nonempty_event ThinkingDelta (Some (go_thought output)) @
             nonempty_event TextDelta (Some (go_text output)) @ calls @ gemini_usage_event fs @ stop)))"

definition gemini_map :: "(rat \<Rightarrow> string) \<Rightarrow> (nat \<Rightarrow> string) \<Rightarrow> gemini_mapper stream_mapper" where
  "gemini_map show_num uuid m sse =
    (case Option.bind (json_parse (se_data sse)) (\<lambda>v. narrow_record (Some v)) of
       None \<Rightarrow> Inr (m, [])
     | Some fs \<Rightarrow> gemini_record show_num uuid m fs)"

subsection \<open>The grammar of stream events\<close>

text \<open>
  A call is opened by its start, takes deltas while it is open and is closed once; nothing is open
  at a message stop. The calls are counted because two of them may carry one id.
\<close>

fun tool_trace :: "string multiset \<Rightarrow> stream_event list \<Rightarrow> bool" where
  "tool_trace opened [] = True"
| "tool_trace opened (ToolCallStart c n # evs) = tool_trace (add_mset c opened) evs"
| "tool_trace opened (ToolCallDelta c d # evs) = (c \<in># opened \<and> tool_trace opened evs)"
| "tool_trace opened (ToolCallEnd c # evs) = (c \<in># opened \<and> tool_trace (opened - {#c#}) evs)"
| "tool_trace opened (MessageStop r # evs) = (opened = {#} \<and> tool_trace opened evs)"
| "tool_trace opened (_ # evs) = tool_trace opened evs"

fun opened_after :: "string multiset \<Rightarrow> stream_event list \<Rightarrow> string multiset" where
  "opened_after opened [] = opened"
| "opened_after opened (ToolCallStart c n # evs) = opened_after (add_mset c opened) evs"
| "opened_after opened (ToolCallEnd c # evs) = opened_after (opened - {#c#}) evs"
| "opened_after opened (_ # evs) = opened_after opened evs"

text \<open>One message start, before everything but a message stop.\<close>

fun start_trace :: "bool \<Rightarrow> stream_event list \<Rightarrow> bool" where
  "start_trace started [] = True"
| "start_trace started (MessageStart i # evs) = (\<not> started \<and> start_trace True evs)"
| "start_trace started (MessageStop r # evs) = start_trace started evs"
| "start_trace started (_ # evs) = (started \<and> start_trace started evs)"

fun is_start :: "stream_event \<Rightarrow> bool" where
  "is_start (MessageStart i) = True"
| "is_start _ = False"

lemma tool_trace_append [simp]:
  "tool_trace opened (a @ b) \<longleftrightarrow> tool_trace opened a \<and> tool_trace (opened_after opened a) b"
  by (induction opened a rule: tool_trace.induct) auto

lemma opened_after_append [simp]:
  "opened_after opened (a @ b) = opened_after (opened_after opened a) b"
  by (induction opened a rule: opened_after.induct) auto

lemma start_trace_append [simp]:
  "start_trace started (a @ b) \<longleftrightarrow> start_trace started a \<and> start_trace (started \<or> list_ex is_start a) b"
  by (induction started a rule: start_trace.induct) auto

lemma close_all [simp]:
  "tool_trace (mset cs) (map ToolCallEnd cs)" "opened_after (mset cs) (map ToolCallEnd cs) = {#}"
  "start_trace True (map ToolCallEnd cs)" "\<not> list_ex is_start (map ToolCallEnd cs)"
  by (induction cs) auto

text \<open>What a mapper owes for its events to obey the grammar.\<close>

locale traced_mapper =
  fixes step :: "'m stream_mapper" and init :: 'm
    and opened :: "'m \<Rightarrow> string multiset" and started :: "'m \<Rightarrow> bool" and ok :: "'m \<Rightarrow> bool"
  assumes init: "ok init" "opened init = {#}" "\<not> started init"
    and step_ok: "ok m \<Longrightarrow> step m sse = Inr (m', evs) \<Longrightarrow> ok m'"
    and step_tools: "ok m \<Longrightarrow> step m sse = Inr (m', evs) \<Longrightarrow>
      tool_trace (opened m) evs \<and> opened_after (opened m) evs = opened m'"
    and step_start: "ok m \<Longrightarrow> step m sse = Inr (m', evs) \<Longrightarrow>
      start_trace (started m) evs \<and> (started m \<or> list_ex is_start evs) = started m'"
begin

lemma run_traced:
  "ok m \<Longrightarrow> tool_trace (opened m) (fst (map_sse_events step m es)) \<and>
     start_trace (started m) (fst (map_sse_events step m es))"
proof (induction es arbitrary: m)
  case (Cons e es)
  show ?case
  proof (cases "step m e")
    case (Inr p)
    obtain m' evs where p: "p = (m', evs)" by fastforce
    then have s: "step m e = Inr (m', evs)" using Inr by simp
    obtain evs' r where run: "map_sse_events step m' es = (evs', r)" by fastforce
    have "tool_trace (opened m') evs' \<and> start_trace (started m') evs'"
      using Cons.IH [OF step_ok [OF Cons.prems s]] run by simp
    then show ?thesis
      using s run step_tools [OF Cons.prems s] step_start [OF Cons.prems s] by simp
  qed simp
qed simp

lemma stream_traced:
  "tool_trace {#} (fst (map_sse_stream step init decoded)) \<and> start_trace False (fst (map_sse_stream step init decoded))"
  using run_traced [of init "fst decoded"] init
  by (cases "map_sse_events step init (fst decoded)") (simp add: map_sse_stream_def split: sum.split)

end

lemma with_record_Inr:
  "with_record parsed m k = Inr r \<Longrightarrow> r = (m, []) \<or> (\<exists>fs. k fs = Inr r)"
  by (auto simp: with_record_def split: sum.splits option.splits)

subsection \<open>The chat mapper obeys the grammar\<close>

definition chat_open :: "(nat, string) js_map \<Rightarrow> string multiset" where
  "chat_open tools = mset (map snd tools)"

lemma jm_set_new: "\<not> jm_has m k \<Longrightarrow> jm_set k v m = m @ [(k, v)]"
  by (induction m) (auto simp: jm_set_def jm_has_def jm_get_def)

lemma first_some_simps [simp]: "first_some None b = b" "first_some (Some x) b = Some x"
  by (simp_all add: first_some_def)

lemma or_text_simps [simp]: "or_text None d = d" "or_text (Some x) d = x"
  by (simp_all add: or_text_def)

lemma chat_tool_call_traced:
  assumes "chat_tool_call raw tools = (tools', evs)"
  shows "tool_trace (chat_open tools) evs" "opened_after (chat_open tools) evs = chat_open tools'"
    "start_trace True evs" "\<not> list_ex is_start evs"
proof -
  let ?i = "chat_tool_index raw"
  have "tool_trace (chat_open tools) evs \<and> opened_after (chat_open tools) evs = chat_open tools' \<and>
    start_trace True evs \<and> \<not> list_ex is_start evs"
  proof (cases "jm_get tools ?i")
    case None
    then have "\<not> jm_has tools ?i" by (simp add: jm_has_def)
    then show ?thesis using assms
      by (auto simp: None chat_tool_call_def Let_def jm_set_new chat_open_def cong: if_cong split: if_splits)
  next
    case (Some c)
    then have "c \<in># chat_open tools" using jm_get_SomeD [OF Some] by (force simp: chat_open_def)
    then show ?thesis using assms
      by (auto simp: Some chat_tool_call_def Let_def jm_has_def cong: if_cong split: if_splits)
  qed
  then show "tool_trace (chat_open tools) evs" "opened_after (chat_open tools) evs = chat_open tools'"
    "start_trace True evs" "\<not> list_ex is_start evs" by blast+
qed

lemma chat_tool_calls_traced:
  "chat_tool_calls raws tools = (tools', evs) \<Longrightarrow>
   tool_trace (chat_open tools) evs \<and> opened_after (chat_open tools) evs = chat_open tools' \<and>
   start_trace True evs \<and> \<not> list_ex is_start evs"
proof (induction raws arbitrary: tools tools' evs)
  case (Cons raw raws)
  show ?case
  proof (cases "narrow_record (Some raw)")
    case (Some fs)
    obtain t1 e1 where c: "chat_tool_call fs tools = (t1, e1)" by fastforce
    obtain t2 e2 where cs: "chat_tool_calls raws t1 = (t2, e2)" by fastforce
    show ?thesis using Cons.prems Some c cs Cons.IH [OF cs] chat_tool_call_traced [OF c] by auto
  qed (use Cons in simp)
qed simp

lemma chat_delta_traced:
  assumes "chat_delta delta tools = (tools', evs)"
  shows "tool_trace (chat_open tools) evs \<and> opened_after (chat_open tools) evs = chat_open tools' \<and>
   start_trace True evs \<and> \<not> list_ex is_start evs"
proof -
  let ?calls = "case js_field delta ''tool_calls'' of Some (JArr raws) \<Rightarrow> chat_tool_calls raws tools | _ \<Rightarrow> (tools, [])"
  obtain t c where tc: "?calls = (t, c)" by fastforce
  have "tool_trace (chat_open tools) c \<and> opened_after (chat_open tools) c = chat_open t \<and>
      start_trace True c \<and> \<not> list_ex is_start c"
    using tc chat_tool_calls_traced by (auto split: option.splits json.splits)
  then show ?thesis using assms unfolding chat_delta_def Let_def tc
    by (auto split: option.splits)
qed

lemma chat_record_traced:
  assumes "chat_record uuid m fs = (m', evs)"
  shows "cm_started m' \<and> tool_trace (chat_open (cm_tools m)) evs \<and>
    opened_after (chat_open (cm_tools m)) evs = chat_open (cm_tools m') \<and>
    start_trace (cm_started m) evs \<and> (cm_started m \<or> list_ex is_start evs)"
proof (cases "first_choice fs")
  case None
  then show ?thesis using assms by (auto simp: chat_record_def Let_def split: option.splits if_splits)
next
  case (Some choice)
  show ?thesis
  proof (cases "narrow_record (js_field choice ''delta'')")
    case None
    with Some show ?thesis using assms by (auto simp: chat_record_def Let_def split: option.splits if_splits)
  next
    case (Some delta)
    obtain tools' devs where d: "chat_delta delta (cm_tools m) = (tools', devs)" by fastforce
    show ?thesis using assms chat_delta_traced [OF d] \<open>first_choice fs = Some choice\<close> Some
      by (auto simp: chat_record_def Let_def d split: option.splits if_splits)
  qed
qed

lemma chat_map_cases:
  assumes "chat_map uuid m sse = Inr (m', evs)"
  obtains (stop) "m' = m\<lparr>cm_tools := []\<rparr>"
      "evs = map ToolCallEnd (map snd (cm_tools m)) @ [MessageStop (map_chat_finish_reason (cm_finish m))]"
  | (skip) "m' = m" "evs = []"
  | (fields) fs where "chat_record uuid m fs = (m', evs)"
  using assms with_record_Inr
  by (fastforce simp: chat_map_def case_prod_unfold split: if_splits)

interpretation chat: traced_mapper "chat_map uuid" chat_mapper_start "\<lambda>m. chat_open (cm_tools m)" cm_started
  "\<lambda>m. cm_started m \<or> cm_tools m = []" for uuid
proof unfold_locales
  fix m m' :: chat_mapper and sse evs
  assume ok: "cm_started m \<or> cm_tools m = []" and s: "chat_map uuid m sse = Inr (m', evs)"
  show "cm_started m' \<or> cm_tools m' = []"
    using s ok by (cases rule: chat_map_cases) (auto dest: chat_record_traced)
  show "tool_trace (chat_open (cm_tools m)) evs \<and> opened_after (chat_open (cm_tools m)) evs = chat_open (cm_tools m')"
    using s by (cases rule: chat_map_cases) (auto dest: chat_record_traced simp: chat_open_def simp del: map_map mset_map)
  show "start_trace (cm_started m) evs \<and> (cm_started m \<or> list_ex is_start evs) = cm_started m'"
    using s
  proof (cases rule: chat_map_cases)
    case stop
    then show ?thesis using ok by (cases "cm_started m") (auto simp del: map_map)
  qed (auto dest: chat_record_traced)
qed (simp_all add: chat_mapper_start_def chat_open_def)

subsection \<open>The Gemini mapper obeys the grammar\<close>

lemma set_add_set [simp]: "set (set_add x xs) = insert x (set xs)"
  by (auto simp: set_add_def)

lemma mset_set_add: "mset (set_add x xs) = (if x \<in> set xs then mset xs else add_mset x (mset xs))"
  by (simp add: set_add_def)

lemma gemini_call_events_traced:
  "gemini_call_events show_num cs active = (active', evs) \<Longrightarrow>
   tool_trace (mset active) evs \<and> opened_after (mset active) evs = mset active' \<and>
   start_trace True evs \<and> \<not> list_ex is_start evs"
proof (induction cs arbitrary: active active' evs)
  case (Cons c cs)
  obtain a e where rest: "gemini_call_events show_num cs (set_add (gc_id c) active) = (a, e)" by fastforce
  from Cons.IH [OF rest] show ?case
    using Cons.prems by (auto simp: rest Let_def mset_set_add split: if_splits)
qed simp

lemma nonempty_event_traced [simp]:
  "tool_trace opened (nonempty_event ThinkingDelta s)" "opened_after opened (nonempty_event ThinkingDelta s) = opened"
  "start_trace True (nonempty_event ThinkingDelta s)" "\<not> list_ex is_start (nonempty_event ThinkingDelta s)"
  "tool_trace opened (nonempty_event TextDelta s)" "opened_after opened (nonempty_event TextDelta s) = opened"
  "start_trace True (nonempty_event TextDelta s)" "\<not> list_ex is_start (nonempty_event TextDelta s)"
  by (auto simp: nonempty_event_def split: option.splits)

lemma gemini_usage_event_traced [simp]:
  "tool_trace opened (gemini_usage_event fs)" "opened_after opened (gemini_usage_event fs) = opened"
  "start_trace True (gemini_usage_event fs)" "\<not> list_ex is_start (gemini_usage_event fs)"
  by (auto simp: gemini_usage_event_def Let_def)

lemma gemini_stop_traced:
  assumes "gemini_stop m candidate calls = (m', evs)"
  shows "tool_trace (mset (gem_active m)) evs \<and> opened_after (mset (gem_active m)) evs = mset (gem_active m') \<and>
    start_trace True evs \<and> \<not> list_ex is_start evs \<and> gem_started m' = gem_started m"
  using assms by (auto simp: gemini_stop_def split: option.splits if_splits)

lemma gemini_record_traced:
  assumes "gemini_record show_num uuid m fs = Inr (m', evs)"
  shows "tool_trace (mset (gem_active m)) evs \<and> opened_after (mset (gem_active m)) evs = mset (gem_active m') \<and>
    start_trace (gem_started m) evs \<and> (gem_started m \<or> list_ex is_start evs) = gem_started m'"
proof -
  have no_err: "narrow_record (js_field fs ''error'') = None"
    using assms by (auto simp: gemini_record_def split: option.splits)
  let ?g = "gemini_candidate fs"
  obtain draws outp where parts: "response_parts uuid (gem_draws m) (gp_parts ?g) = (draws, outp)" by fastforce
  obtain active calls where ce: "gemini_call_events show_num (go_calls outp) (gem_active m) = (active, calls)"
    by fastforce
  let ?m1 = "\<lambda>n. m\<lparr>gem_started := True, gem_active := active, gem_draws := n\<rparr>"
  have stop: "tool_trace (mset active) sevs \<and> opened_after (mset active) sevs = mset (gem_active m2) \<and>
      start_trace True sevs \<and> \<not> list_ex is_start sevs \<and> gem_started m2"
    if "gemini_stop (?m1 n) (gp_candidate ?g) (go_calls outp \<noteq> []) = (m2, sevs)" for n m2 sevs
    using gemini_stop_traced [OF that] by simp
  show ?thesis
    using assms gemini_call_events_traced [OF ce] stop
    by (simp add: gemini_record_def no_err parts ce Let_def split: prod.splits if_splits) auto
qed

interpretation gemini: traced_mapper "gemini_map show_num uuid" gemini_mapper_start "\<lambda>m. mset (gem_active m)"
  gem_started "\<lambda>_. True" for show_num uuid
proof unfold_locales
  fix m m' :: gemini_mapper and sse evs
  assume "gemini_map show_num uuid m sse = Inr (m', evs)"
  then have "m' = m \<and> evs = [] \<or> (\<exists>fs. gemini_record show_num uuid m fs = Inr (m', evs))"
    by (auto simp: gemini_map_def split: option.splits)
  then show "tool_trace (mset (gem_active m)) evs \<and> opened_after (mset (gem_active m)) evs = mset (gem_active m')"
    and "start_trace (gem_started m) evs \<and> (gem_started m \<or> list_ex is_start evs) = gem_started m'"
    by (auto dest: gemini_record_traced)
qed (simp_all add: gemini_mapper_start_def)

subsection \<open>Properties\<close>

text \<open>
  C36: Whatever a chat-completions or Gemini upstream streams, the events handed on obey the event
  grammar: at most one message start, before everything but a message stop; argument deltas and an end
  only for a tool call that was started and has not ended, so that each start is ended at most once; no
  call is open at a message stop. A call may stay open in a stream that has no message stop after it, when
  the upstream cuts the stream or names a call after its finish reason.
\<close>

theorem mapped_streams_obey_grammar:
  "tool_trace {#} (fst (map_sse_stream (chat_map uuid) chat_mapper_start decoded)) \<and>
   start_trace False (fst (map_sse_stream (chat_map uuid) chat_mapper_start decoded)) \<and>
   tool_trace {#} (fst (map_sse_stream (gemini_map show_num uuids) gemini_mapper_start decoded)) \<and>
   start_trace False (fst (map_sse_stream (gemini_map show_num uuids) gemini_mapper_start decoded))"
  using chat.stream_traced gemini.stream_traced by blast

subsection \<open>Where the Responses mapper departs from the grammar\<close>

text \<open>
  The upstream names a function call by its \<open>call_id\<close> and its item by another id. The start of the
  call takes the first, the argument deltas take the second, and the arguments are emitted a second
  time, under the first, when the item is done.
\<close>

definition call_item :: "string \<Rightarrow> json" where
  "call_item args = JObj [(''type'', JStr ''function_call''), (''id'', JStr ''fc_1''), (''call_id'', JStr ''call_1''),
     (''name'', JStr ''f''), (''arguments'', JStr args)]"

definition call_run :: "(string \<times> json) list list" where
  "call_run =
    [[(''type'', JStr ''response.output_item.added''), (''output_index'', JNum (Num 0)), (''item'', call_item '''')],
     [(''type'', JStr ''response.function_call_arguments.delta''), (''output_index'', JNum (Num 0)),
      (''item_id'', JStr ''fc_1''), (''delta'', JStr ''{}'')],
     [(''type'', JStr ''response.output_item.done''), (''output_index'', JNum (Num 0)), (''item'', call_item ''{}'')]]"

fun run_records :: "responses_mapper \<Rightarrow> (string \<times> json) list list \<Rightarrow> stream_event list" where
  "run_records m [] = []"
| "run_records m (fs # rest) = (case responses_record (\<lambda>q. []) ''u'' m fs of
      Inl e \<Rightarrow> [] | Inr (m', evs) \<Rightarrow> evs @ run_records m' rest)"

lemma responses_deltas_use_item_id:
  "run_records responses_mapper_start call_run =
     [MessageStart ''resp_u'', ToolCallStart ''call_1'' ''f'', ToolCallDelta ''fc_1'' ''{}'',
      ToolCallDelta ''call_1'' ''{}'', ToolCallEnd ''call_1'']"
  by (simp add: call_run_def call_item_def responses_record_def responses_mapper_start_def text_field_def
      js_field_def jm_get_def narrow_text_def narrow_record_def responses_item_added_def function_call_item_def
      responses_arguments_delta_def responses_item_done_def output_index_def nullable_number_def
      start_if_needed_def set_add_def Let_def jm_set_def)

text \<open>A response cut at the token limit ends with \<open>response.incomplete\<close>, which is not taken for an end.\<close>

lemma incomplete_response_is_not_terminal:
  "responses_record show_num uuid m [(''type'', JStr ''response.incomplete'')] =
     Inr (m\<lparr>rsm_stop := Some SrLength\<rparr>, [])"
  by (simp add: responses_record_def text_field_def js_field_def jm_get_def narrow_text_def)

end
