(* ===== verification/SurfaceEncoder.thy ===== *)
theory SurfaceEncoder imports StreamMappers begin

text \<open>
  The stream encoders of the client surfaces (\<open>src/providers/surfaces/index.ts\<close>): chat completions,
  messages and responses. The variables a generator keeps are its state record, a \<open>yield\<close> is a frame
  of the answer, the loop is a fold over the events with a closing step. \<open>created\<close> is the clock in
  seconds, \<open>uuid\<close> the UUID drawn for a missing id.
\<close>

subsection \<open>Frames\<close>

datatype wire_data = WireJson json | WireText string

record wire_frame =
  wf_event :: "string option"
  wf_data :: wire_data

definition wire_text :: "(rat \<Rightarrow> string) \<Rightarrow> wire_data \<Rightarrow> string" where
  "wire_text show_num d = (case d of WireText s \<Rightarrow> s | WireJson v \<Rightarrow> json_text show_num v)"

definition frame_text :: "(rat \<Rightarrow> string) \<Rightarrow> wire_frame \<Rightarrow> string" where
  "frame_text show_num f =
    (case wf_event f of None \<Rightarrow> [] | Some name \<Rightarrow> ''event: '' @ name @ [LF]) @
    ''data: '' @ wire_text show_num (wf_data f) @ [LF, LF]"

definition data_frame :: "(string \<times> json) list \<Rightarrow> wire_frame" where
  "data_frame fs = \<lparr>wf_event = None, wf_data = WireJson (JObj fs)\<rparr>"

definition named_frame :: "string \<Rightarrow> (string \<times> json) list \<Rightarrow> wire_frame" where
  "named_frame name fs = \<lparr>wf_event = Some name, wf_data = WireJson (JObj fs)\<rparr>"

definition done_frame :: wire_frame where
  "done_frame = \<lparr>wf_event = None, wf_data = WireText ''[DONE]''\<rparr>"

definition int_json :: "int \<Rightarrow> json" where
  "int_json k = JNum (Num (of_int k))"

definition usage_number :: "rat option \<Rightarrow> int" where
  "usage_number v = (case v of Some q \<Rightarrow> if 0 \<le> q then js_trunc q else 0 | None \<Rightarrow> 0)"

definition openai_stop :: "stop_reason \<Rightarrow> bool \<Rightarrow> string" where
  "openai_stop reason has_tool_call =
    (if reason = SrError then ''error''
     else if reason = SrLength then ''length''
     else if reason = SrToolCall \<or> has_tool_call then ''tool_calls''
     else if reason = SrContentFilter then ''content_filter''
     else ''stop'')"

definition anthropic_stop :: "stop_reason \<Rightarrow> string" where
  "anthropic_stop reason =
    (if reason = SrLength then ''max_tokens''
     else if reason = SrToolCall then ''tool_use''
     else if reason = SrContentFilter then ''refusal''
     else ''end_turn'')"

datatype response_status = RsCompleted | RsIncomplete | RsFailed

definition response_status_of :: "stop_reason \<Rightarrow> response_status" where
  "response_status_of reason =
    (if reason = SrError then RsFailed
     else if reason = SrLength \<or> reason = SrContentFilter then RsIncomplete else RsCompleted)"

definition status_text :: "response_status \<Rightarrow> string" where
  "status_text s = (case s of RsCompleted \<Rightarrow> ''completed'' | RsIncomplete \<Rightarrow> ''incomplete'' | RsFailed \<Rightarrow> ''failed'')"

definition response_incomplete_reason :: "stop_reason \<Rightarrow> string option" where
  "response_incomplete_reason reason =
    (if reason = SrLength then Some ''max_output_tokens''
     else if reason = SrContentFilter then Some ''content_filter'' else None)"

definition response_usage :: "provider_usage \<Rightarrow> (string \<times> json) list" where
  "response_usage u =
    (let input = usage_number (us_input u); outp = usage_number (us_output u);
         total = usage_number (us_total u)
     in [(''input_tokens'', int_json input), (''output_tokens'', int_json outp),
         (''total_tokens'', int_json (if total \<noteq> 0 then total else input + outp)),
         (''input_tokens_details'', JObj [(''cached_tokens'', int_json (usage_number (us_cache_read u)))]),
         (''output_tokens_details'', JObj [(''reasoning_tokens'', int_json 0)])])"

subsection \<open>Chat completions\<close>

record chat_encoder =
  che_id :: string
  che_started :: bool
  che_finished :: bool
  che_saw_tool :: bool
  che_next :: nat
  che_index :: "(string, nat) js_map"
  che_args :: "string list"

definition chat_encoder_start :: "string \<Rightarrow> chat_encoder" where
  "chat_encoder_start uuid = \<lparr>che_id = ''chatcmpl-'' @ uuid, che_started = False, che_finished = False,
     che_saw_tool = False, che_next = 0, che_index = [], che_args = []\<rparr>"

definition chat_chunk ::
  "string \<Rightarrow> int \<Rightarrow> string \<Rightarrow> (string \<times> json) list \<Rightarrow> string option \<Rightarrow> (string \<times> json) list option \<Rightarrow> wire_frame" where
  "chat_chunk model created cid delta finish usage = data_frame
    ([(''id'', JStr cid), (''object'', JStr ''chat.completion.chunk''), (''created'', int_json created),
      (''model'', JStr model),
      (''choices'', JArr [JObj [(''index'', int_json 0), (''delta'', JObj delta),
         (''finish_reason'', case finish of None \<Rightarrow> JNull | Some r \<Rightarrow> JStr r)]])] @
     (case usage of None \<Rightarrow> [] | Some u \<Rightarrow> [(''usage'', JObj u)]))"

definition role_delta :: "(string \<times> json) list" where
  "role_delta = [(''role'', JStr ''assistant''), (''content'', JStr [])]"

definition tool_call_delta :: "(string \<times> json) list \<Rightarrow> (string \<times> json) list" where
  "tool_call_delta call = [(''tool_calls'', JArr [JObj call])]"

definition arguments_delta :: "nat \<Rightarrow> string \<Rightarrow> (string \<times> json) list" where
  "arguments_delta index args =
    tool_call_delta [(''index'', int_json (int index)), (''function'', JObj [(''arguments'', JStr args)])]"

definition chat_usage_json :: "provider_usage \<Rightarrow> (string \<times> json) list" where
  "chat_usage_json u =
    [(''prompt_tokens'', int_json (usage_number (us_input u) + usage_number (us_cache_read u))),
     (''completion_tokens'', int_json (usage_number (us_output u))),
     (''total_tokens'', int_json (usage_number (us_input u) + usage_number (us_cache_read u) + usage_number (us_output u))),
     (''prompt_tokens_details'', JObj [(''cached_tokens'', int_json (usage_number (us_cache_read u)))])]"

definition chat_error_frame :: wire_frame where
  "chat_error_frame = data_frame
    [(''error'', JObj [(''message'', JStr ''Stream interrupted''), (''type'', JStr ''stream_error'')]),
     (''choices'', JArr [JObj [(''index'', int_json 0), (''delta'', JObj []), (''finish_reason'', JStr ''error'')]])]"

definition or_id :: "string \<Rightarrow> string \<Rightarrow> string" where
  "or_id a b = (if a \<noteq> [] then a else b)"

text \<open>The events after the message has been started.\<close>

fun chat_encode_body ::
  "string \<Rightarrow> int \<Rightarrow> stream_event \<Rightarrow> chat_encoder \<Rightarrow> chat_encoder \<times> wire_frame list" where
  "chat_encode_body model created (ThinkingDelta t) e =
     (e, [chat_chunk model created (che_id e) [(''reasoning_content'', JStr t)] None None])"
| "chat_encode_body model created (TextDelta t) e =
     (e, [chat_chunk model created (che_id e) [(''content'', JStr t)] None None])"
| "chat_encode_body model created (ToolCallStart c n) e =
     (e\<lparr>che_saw_tool := True, che_next := Suc (che_next e), che_index := jm_set c (che_next e) (che_index e)\<rparr>,
      [chat_chunk model created (che_id e)
        (tool_call_delta [(''index'', int_json (int (che_next e))), (''id'', JStr c), (''type'', JStr ''function''),
           (''function'', JObj [(''name'', JStr n), (''arguments'', JStr [])])]) None None])"
| "chat_encode_body model created (ToolCallDelta c d) e =
     (let index = (case jm_get (che_index e) c of Some i \<Rightarrow> i | None \<Rightarrow> che_next e);
          nxt = (if jm_has (che_index e) c then che_next e else Suc (che_next e))
      in (e\<lparr>che_saw_tool := True, che_next := nxt, che_index := jm_set c index (che_index e),
            che_args := set_add c (che_args e)\<rparr>,
          [chat_chunk model created (che_id e) (arguments_delta index d) None None]))"
| "chat_encode_body model created (ToolCallEnd c) e =
     (e, case jm_get (che_index e) c of
           Some index \<Rightarrow>
             if c \<notin> set (che_args e) then [chat_chunk model created (che_id e) (arguments_delta index ''{}'') None None]
             else []
         | None \<Rightarrow> [])"
| "chat_encode_body model created (UsageEvent u) e =
     (e, [chat_chunk model created (che_id e) [] None (Some (chat_usage_json u))])"
| "chat_encode_body model created (MessageStop r) e =
     (if che_finished e then (e, [])
      else (e\<lparr>che_finished := True\<rparr>,
        [if r = SrError then chat_error_frame
         else chat_chunk model created (che_id e) [] (Some (openai_stop r (che_saw_tool e))) None,
         done_frame]))"
| "chat_encode_body model created (MessageStart i) e = (e, [])"

definition chat_begin ::
  "string \<Rightarrow> int \<Rightarrow> chat_encoder \<Rightarrow> chat_encoder \<times> wire_frame list" where
  "chat_begin model created e =
    (if che_started e then (e, [])
     else (e\<lparr>che_started := True\<rparr>, [chat_chunk model created (che_id e) role_delta None None]))"

definition chat_encode_event ::
  "string \<Rightarrow> int \<Rightarrow> stream_event \<Rightarrow> chat_encoder \<Rightarrow> chat_encoder \<times> wire_frame list" where
  "chat_encode_event model created ev e =
    (case ev of
       MessageStart i \<Rightarrow> chat_begin model created (e\<lparr>che_id := or_id i (che_id e)\<rparr>)
     | _ \<Rightarrow> (let (e1, fs1) = chat_begin model created e; (e2, fs2) = chat_encode_body model created ev e1
             in (e2, fs1 @ fs2)))"

definition chat_encode_end :: "string \<Rightarrow> int \<Rightarrow> chat_encoder \<Rightarrow> wire_frame list" where
  "chat_encode_end model created e =
    (if che_finished e then [] else [chat_chunk model created (che_id e) [] (Some ''error'') None, done_frame])"

fun encode_openai_chat ::
  "string \<Rightarrow> int \<Rightarrow> chat_encoder \<Rightarrow> stream_event list \<Rightarrow> wire_frame list" where
  "encode_openai_chat model created e [] = chat_encode_end model created e"
| "encode_openai_chat model created e (ev # evs) =
     (let (e', fs) = chat_encode_event model created ev e in fs @ encode_openai_chat model created e' evs)"

subsection \<open>Messages\<close>

text \<open>\<open>ane_next\<close> is \<open>blockIndex + 1\<close>, the index the next block gets.\<close>

record anthropic_encoder =
  ane_id :: string
  ane_started :: bool
  ane_finished :: bool
  ane_next :: nat
  ane_text :: "nat option"
  ane_thinking :: "nat option"
  ane_tools :: "(string, nat) js_map"

definition anthropic_encoder_start :: "string \<Rightarrow> anthropic_encoder" where
  "anthropic_encoder_start uuid = \<lparr>ane_id = ''msg_'' @ uuid, ane_started = False, ane_finished = False,
     ane_next = 0, ane_text = None, ane_thinking = None, ane_tools = []\<rparr>"

definition typed_frame :: "string \<Rightarrow> (string \<times> json) list \<Rightarrow> wire_frame" where
  "typed_frame ty fs = named_frame ty ((''type'', JStr ty) # fs)"

definition start_message_frame :: "string \<Rightarrow> string \<Rightarrow> wire_frame" where
  "start_message_frame model mid = typed_frame ''message_start''
    [(''message'', JObj [(''id'', JStr mid), (''type'', JStr ''message''), (''role'', JStr ''assistant''),
       (''model'', JStr model), (''content'', JArr []), (''stop_reason'', JNull), (''stop_sequence'', JNull),
       (''usage'', JObj [(''input_tokens'', int_json 0), (''output_tokens'', int_json 0)])])]"

definition start_block_frame :: "nat \<Rightarrow> (string \<times> json) list \<Rightarrow> wire_frame" where
  "start_block_frame index block =
    typed_frame ''content_block_start'' [(''index'', int_json (int index)), (''content_block'', JObj block)]"

definition delta_block_frame :: "nat \<Rightarrow> (string \<times> json) list \<Rightarrow> wire_frame" where
  "delta_block_frame index delta =
    typed_frame ''content_block_delta'' [(''index'', int_json (int index)), (''delta'', JObj delta)]"

definition stop_block_frame :: "nat \<Rightarrow> wire_frame" where
  "stop_block_frame index = typed_frame ''content_block_stop'' [(''index'', int_json (int index))]"

definition anthropic_error_frame :: wire_frame where
  "anthropic_error_frame = typed_frame ''error''
    [(''error'', JObj [(''type'', JStr ''stream_error''), (''message'', JStr ''Stream interrupted'')])]"

definition opt_list :: "'a option \<Rightarrow> 'a list" where
  "opt_list x = (case x of None \<Rightarrow> [] | Some a \<Rightarrow> [a])"

definition close_text_blocks :: "anthropic_encoder \<Rightarrow> anthropic_encoder \<times> wire_frame list" where
  "close_text_blocks e =
    (e\<lparr>ane_text := None, ane_thinking := None\<rparr>,
     map stop_block_frame (opt_list (ane_thinking e) @ opt_list (ane_text e)))"

definition open_block ::
  "(string \<times> json) list \<Rightarrow> anthropic_encoder \<Rightarrow> nat \<times> anthropic_encoder \<times> wire_frame list" where
  "open_block block e =
    (let (e1, closed) = close_text_blocks e; index = ane_next e1
     in (index, e1\<lparr>ane_next := Suc index\<rparr>, closed @ [start_block_frame index block]))"

definition anthropic_usage_frame :: "provider_usage \<Rightarrow> wire_frame" where
  "anthropic_usage_frame u = typed_frame ''message_delta''
    [(''delta'', JObj []),
     (''usage'', JObj [(''input_tokens'', int_json (usage_number (us_input u))),
        (''output_tokens'', int_json (usage_number (us_output u))),
        (''cache_read_input_tokens'', int_json (usage_number (us_cache_read u))),
        (''cache_creation_input_tokens'', int_json (usage_number (us_cache_write u)))])]"

definition anthropic_stop_frames :: "stop_reason \<Rightarrow> wire_frame list" where
  "anthropic_stop_frames r =
    (if r = SrError then [anthropic_error_frame]
     else [typed_frame ''message_delta''
             [(''delta'', JObj [(''stop_reason'', JStr (anthropic_stop r)), (''stop_sequence'', JNull)]), (''usage'', JObj [])],
           typed_frame ''message_stop'' []])"

fun anthropic_encode_body :: "stream_event \<Rightarrow> anthropic_encoder \<Rightarrow> anthropic_encoder \<times> wire_frame list" where
  "anthropic_encode_body (ThinkingDelta t) e =
     (let delta = (\<lambda>i. delta_block_frame i [(''type'', JStr ''thinking_delta''), (''thinking'', JStr t)])
      in case ane_thinking e of
        Some i \<Rightarrow> (e, [delta i])
      | None \<Rightarrow> (let (i, e1, fs) = open_block [(''type'', JStr ''thinking''), (''thinking'', JStr [])] e
                in (e1\<lparr>ane_thinking := Some i\<rparr>, fs @ [delta i])))"
| "anthropic_encode_body (TextDelta t) e =
     (let delta = (\<lambda>i. delta_block_frame i [(''type'', JStr ''text_delta''), (''text'', JStr t)])
      in case ane_text e of
        Some i \<Rightarrow> (e, [delta i])
      | None \<Rightarrow> (let (i, e1, fs) = open_block [(''type'', JStr ''text''), (''text'', JStr [])] e
                in (e1\<lparr>ane_text := Some i\<rparr>, fs @ [delta i])))"
| "anthropic_encode_body (ToolCallStart c n) e =
     (let (i, e1, fs) = open_block [(''type'', JStr ''tool_use''), (''id'', JStr c), (''name'', JStr n), (''input'', JObj [])] e
      in (e1\<lparr>ane_tools := jm_set c i (ane_tools e1)\<rparr>, fs))"
| "anthropic_encode_body (ToolCallDelta c d) e =
     (e, case jm_get (ane_tools e) c of
           Some i \<Rightarrow> [delta_block_frame i [(''type'', JStr ''input_json_delta''), (''partial_json'', JStr d)]]
         | None \<Rightarrow> [])"
| "anthropic_encode_body (ToolCallEnd c) e =
     (case jm_get (ane_tools e) c of
        Some i \<Rightarrow> (e\<lparr>ane_tools := jm_delete c (ane_tools e)\<rparr>, [stop_block_frame i])
      | None \<Rightarrow> (e, []))"
| "anthropic_encode_body (UsageEvent u) e = (e, [anthropic_usage_frame u])"
| "anthropic_encode_body (MessageStop r) e =
     (if ane_finished e then (e, [])
      else (let (e1, closed) = close_text_blocks (e\<lparr>ane_finished := True\<rparr>)
            in (e1\<lparr>ane_tools := []\<rparr>,
                closed @ map (\<lambda>(_, i). stop_block_frame i) (ane_tools e1) @ anthropic_stop_frames r)))"
| "anthropic_encode_body (MessageStart i) e = (e, [])"

definition anthropic_begin :: "string \<Rightarrow> anthropic_encoder \<Rightarrow> anthropic_encoder \<times> wire_frame list" where
  "anthropic_begin model e =
    (if ane_started e then (e, []) else (e\<lparr>ane_started := True\<rparr>, [start_message_frame model (ane_id e)]))"

definition anthropic_encode_event ::
  "string \<Rightarrow> stream_event \<Rightarrow> anthropic_encoder \<Rightarrow> anthropic_encoder \<times> wire_frame list" where
  "anthropic_encode_event model ev e =
    (case ev of
       MessageStart i \<Rightarrow> anthropic_begin model (e\<lparr>ane_id := or_id i (ane_id e)\<rparr>)
     | _ \<Rightarrow> (let (e1, fs1) = anthropic_begin model e; (e2, fs2) = anthropic_encode_body ev e1 in (e2, fs1 @ fs2)))"

fun encode_anthropic :: "string \<Rightarrow> anthropic_encoder \<Rightarrow> stream_event list \<Rightarrow> wire_frame list" where
  "encode_anthropic model e [] = (if ane_finished e then [] else [anthropic_error_frame])"
| "encode_anthropic model e (ev # evs) =
     (let (e', fs) = anthropic_encode_event model ev e in fs @ encode_anthropic model e' evs)"

subsection \<open>Responses\<close>

record responses_encoder =
  ree_id :: string
  ree_started :: bool
  ree_finished :: bool
  ree_sequence :: nat
  ree_text :: string
  ree_final :: stop_reason
  ree_usage :: "provider_usage option"
  ree_active :: "string list"

definition responses_encoder_start :: "string \<Rightarrow> responses_encoder" where
  "responses_encoder_start uuid = \<lparr>ree_id = ''resp_'' @ uuid, ree_started = False, ree_finished = False,
     ree_sequence = 0, ree_text = [], ree_final = SrCompleted, ree_usage = None, ree_active = []\<rparr>"

text \<open>A frame that takes the next sequence number.\<close>

definition numbered_frame ::
  "string \<Rightarrow> (string \<times> json) list \<Rightarrow> responses_encoder \<Rightarrow> responses_encoder \<times> wire_frame" where
  "numbered_frame ty fs e =
    (e\<lparr>ree_sequence := Suc (ree_sequence e)\<rparr>,
     data_frame ([(''type'', JStr ty), (''sequence_number'', int_json (int (ree_sequence e)))] @ fs))"

definition one_frame ::
  "string \<Rightarrow> (string \<times> json) list \<Rightarrow> responses_encoder \<Rightarrow> responses_encoder \<times> wire_frame list" where
  "one_frame ty fs e = (let (e', f) = numbered_frame ty fs e in (e', [f]))"

definition responses_begin ::
  "string \<Rightarrow> int \<Rightarrow> responses_encoder \<Rightarrow> responses_encoder \<times> wire_frame list" where
  "responses_begin model created e =
    (if ree_started e then (e, [])
     else one_frame ''response.created''
       [(''response'', JObj [(''id'', JStr (ree_id e)), (''object'', JStr ''response''), (''created_at'', int_json created),
          (''model'', JStr model), (''status'', JStr ''in_progress'')])] (e\<lparr>ree_started := True\<rparr>))"

fun done_frames :: "string list \<Rightarrow> responses_encoder \<Rightarrow> responses_encoder \<times> wire_frame list" where
  "done_frames [] e = (e, [])"
| "done_frames (c # cs) e =
     (let (e1, f) = numbered_frame ''response.function_call_arguments.done'' [(''item_id'', JStr c)] e;
          (e2, fs) = done_frames cs e1
      in (e2, f # fs))"

definition final_response ::
  "string \<Rightarrow> int \<Rightarrow> stop_reason \<Rightarrow> responses_encoder \<Rightarrow> (string \<times> json) list" where
  "final_response model created r e =
    [(''id'', JStr (ree_id e)), (''object'', JStr ''response''), (''created_at'', int_json created),
     (''model'', JStr model), (''status'', JStr (status_text (response_status_of r))), (''output_text'', JStr (ree_text e))] @
    (case ree_usage e of None \<Rightarrow> [] | Some u \<Rightarrow> [(''usage'', JObj (response_usage u))]) @
    (case response_incomplete_reason r of
       None \<Rightarrow> [] | Some reason \<Rightarrow> [(''incomplete_details'', JObj [(''reason'', JStr reason)])])"

definition responses_stop ::
  "string \<Rightarrow> int \<Rightarrow> stop_reason \<Rightarrow> responses_encoder \<Rightarrow> responses_encoder \<times> wire_frame list" where
  "responses_stop model created r e =
    (if ree_finished e then (e, [])
     else (let (e1, dones) = done_frames (ree_active e) (e\<lparr>ree_finished := True, ree_final := r\<rparr>);
               status = response_status_of r;
               (e2, f) = (if status = RsFailed
                 then numbered_frame ''response.failed''
                   [(''response'', JObj [(''id'', JStr (ree_id e)), (''object'', JStr ''response''), (''status'', JStr ''failed''),
                      (''error'', JObj [(''message'', JStr ''Stream interrupted'')])])] (e1\<lparr>ree_active := []\<rparr>)
                 else numbered_frame (if status = RsCompleted then ''response.completed'' else ''response.incomplete'')
                   [(''response'', JObj (final_response model created r e))] (e1\<lparr>ree_active := []\<rparr>))
           in (e2, dones @ [f, done_frame])))"

fun responses_encode_body ::
  "string \<Rightarrow> int \<Rightarrow> stream_event \<Rightarrow> responses_encoder \<Rightarrow> responses_encoder \<times> wire_frame list" where
  "responses_encode_body model created (TextDelta t) e =
     one_frame ''response.output_text.delta'' [(''item_id'', JStr (ree_id e)), (''delta'', JStr t)]
       (e\<lparr>ree_text := ree_text e @ t\<rparr>)"
| "responses_encode_body model created (ThinkingDelta t) e =
     one_frame ''response.reasoning_summary_text.delta'' [(''item_id'', JStr (ree_id e)), (''delta'', JStr t)] e"
| "responses_encode_body model created (ToolCallStart c n) e =
     one_frame ''response.output_item.added''
       [(''item'', JObj [(''type'', JStr ''function_call''), (''call_id'', JStr c), (''name'', JStr n), (''arguments'', JStr [])])]
       (e\<lparr>ree_active := set_add c (ree_active e)\<rparr>)"
| "responses_encode_body model created (ToolCallDelta c d) e =
     one_frame ''response.function_call_arguments.delta'' [(''item_id'', JStr c), (''delta'', JStr d)]
       (e\<lparr>ree_active := set_add c (ree_active e)\<rparr>)"
| "responses_encode_body model created (ToolCallEnd c) e =
     one_frame ''response.function_call_arguments.done'' [(''item_id'', JStr c)]
       (e\<lparr>ree_active := removeAll c (ree_active e)\<rparr>)"
| "responses_encode_body model created (UsageEvent u) e = (e\<lparr>ree_usage := Some u\<rparr>, [])"
| "responses_encode_body model created (MessageStop r) e = responses_stop model created r e"
| "responses_encode_body model created (MessageStart i) e = (e, [])"

definition responses_encode_event ::
  "string \<Rightarrow> int \<Rightarrow> stream_event \<Rightarrow> responses_encoder \<Rightarrow> responses_encoder \<times> wire_frame list" where
  "responses_encode_event model created ev e =
    (case ev of
       MessageStart i \<Rightarrow> responses_begin model created (e\<lparr>ree_id := or_id i (ree_id e)\<rparr>)
     | _ \<Rightarrow> (let (e1, fs1) = responses_begin model created e;
                 (e2, fs2) = responses_encode_body model created ev e1
             in (e2, fs1 @ fs2)))"

definition responses_encode_end :: "string \<Rightarrow> responses_encoder \<Rightarrow> wire_frame list" where
  "responses_encode_end model e =
    (if ree_finished e then []
     else (let status = response_status_of (ree_final e)
           in snd (one_frame (if status = RsFailed then ''response.failed'' else ''response.incomplete'')
                [(''response'', JObj [(''id'', JStr (ree_id e)), (''object'', JStr ''response''), (''model'', JStr model),
                   (''status'', JStr (status_text status))])] e) @ [done_frame]))"

fun encode_responses :: "string \<Rightarrow> int \<Rightarrow> responses_encoder \<Rightarrow> stream_event list \<Rightarrow> wire_frame list" where
  "encode_responses model created e [] = responses_encode_end model e"
| "encode_responses model created e (ev # evs) =
     (let (e', fs) = responses_encode_event model created ev e in fs @ encode_responses model created e' evs)"

subsection \<open>Any surface\<close>

definition nullable_json :: "rat option \<Rightarrow> json" where
  "nullable_json v = (case v of None \<Rightarrow> JNull | Some q \<Rightarrow> JNum (Num q))"

definition source_text :: "token_source \<Rightarrow> string" where
  "source_text s = (case s of TsProvider \<Rightarrow> ''provider'' | TsTokenizer \<Rightarrow> ''tokenizer'' | TsUnknown \<Rightarrow> ''unknown'')"

definition reason_text :: "stop_reason \<Rightarrow> string" where
  "reason_text r = (case r of SrCompleted \<Rightarrow> ''completed'' | SrLength \<Rightarrow> ''length'' | SrToolCall \<Rightarrow> ''tool_call''
     | SrContentFilter \<Rightarrow> ''content_filter'' | SrError \<Rightarrow> ''error'')"

fun event_json :: "stream_event \<Rightarrow> (string \<times> json) list" where
  "event_json (MessageStart i) = [(''type'', JStr ''message_start''), (''id'', JStr i)]"
| "event_json (ThinkingDelta t) = [(''type'', JStr ''thinking_delta''), (''text'', JStr t)]"
| "event_json (TextDelta t) = [(''type'', JStr ''text_delta''), (''text'', JStr t)]"
| "event_json (ToolCallStart c n) = [(''type'', JStr ''tool_call_start''), (''callId'', JStr c), (''name'', JStr n)]"
| "event_json (ToolCallDelta c d) = [(''type'', JStr ''tool_call_delta''), (''callId'', JStr c), (''delta'', JStr d)]"
| "event_json (ToolCallEnd c) = [(''type'', JStr ''tool_call_end''), (''callId'', JStr c)]"
| "event_json (UsageEvent u) = [(''type'', JStr ''usage''), (''usage'', JObj
     [(''inputTokens'', nullable_json (us_input u)), (''outputTokens'', nullable_json (us_output u)),
      (''totalTokens'', nullable_json (us_total u)), (''cacheReadTokens'', nullable_json (us_cache_read u)),
      (''cacheWriteTokens'', nullable_json (us_cache_write u)), (''source'', JStr (source_text (us_source u)))])]"
| "event_json (MessageStop r) = [(''type'', JStr ''message_stop''), (''reason'', JStr (reason_text r))]"

definition encode_surface_stream ::
  "surface \<Rightarrow> string \<Rightarrow> int \<Rightarrow> string \<Rightarrow> stream_event list \<Rightarrow> wire_frame list" where
  "encode_surface_stream surface model created uuid evs =
    (if surface = SfChat then encode_openai_chat model created (chat_encoder_start uuid) evs
     else if surface = SfResponses then encode_responses model created (responses_encoder_start uuid) evs
     else if surface = SfMessages then encode_anthropic model (anthropic_encoder_start uuid) evs
     else map (\<lambda>ev. data_frame (event_json ev)) evs)"

subsection \<open>Messages blocks are used by the rules\<close>

text \<open>
  The client's view of a messages stream: block indices count up from 0, a delta or a stop names an
  open block and a block is stopped once. \<open>bs_open\<close> are the open blocks, \<open>bs_next\<close> the next index.
\<close>

record block_state =
  bs_next :: nat
  bs_open :: "nat list"

definition frame_type :: "wire_frame \<Rightarrow> string option" where
  "frame_type f = (case wf_data f of WireJson (JObj fs) \<Rightarrow> text_field fs ''type'' | _ \<Rightarrow> None)"

definition frame_index :: "wire_frame \<Rightarrow> rat option" where
  "frame_index f = (case wf_data f of WireJson (JObj fs) \<Rightarrow> nullable_number (js_field fs ''index'') | _ \<Rightarrow> None)"

text \<open>One frame; \<open>None\<close> when it breaks the rules.\<close>

definition block_step :: "wire_frame \<Rightarrow> block_state \<Rightarrow> block_state option" where
  "block_step f s =
    (case frame_index f of
       None \<Rightarrow> Some s
     | Some q \<Rightarrow>
       (let i = nat \<lfloor>q\<rfloor>; ty = frame_type f
        in if ty = Some ''content_block_start''
           then (if i = bs_next s then Some \<lparr>bs_next = Suc i, bs_open = i # bs_open s\<rparr> else None)
           else if ty = Some ''content_block_delta'' then (if i \<in> set (bs_open s) then Some s else None)
           else if ty = Some ''content_block_stop''
           then (if i \<in> set (bs_open s) then Some (s\<lparr>bs_open := removeAll i (bs_open s)\<rparr>) else None)
           else Some s))"

fun block_run :: "wire_frame list \<Rightarrow> block_state \<Rightarrow> block_state option" where
  "block_run [] s = Some s"
| "block_run (f # fs) s = Option.bind (block_step f s) (block_run fs)"

lemma block_run_append: "block_run (fs @ gs) s = Option.bind (block_run fs s) (block_run gs)"
  by (induction fs arbitrary: s) (auto split: Option.bind_splits)

lemma block_step_frames [simp]:
  "block_step (start_block_frame i block) s =
     (if i = bs_next s then Some \<lparr>bs_next = Suc i, bs_open = i # bs_open s\<rparr> else None)"
  "block_step (delta_block_frame i delta) s = (if i \<in> set (bs_open s) then Some s else None)"
  "block_step (stop_block_frame i) s =
     (if i \<in> set (bs_open s) then Some (s\<lparr>bs_open := removeAll i (bs_open s)\<rparr>) else None)"
  "block_step (start_message_frame model mid) s = Some s"
  "block_step anthropic_error_frame s = Some s"
  "block_step (anthropic_usage_frame u) s = Some s"
  by (simp_all add: block_step_def frame_index_def frame_type_def start_block_frame_def delta_block_frame_def
      stop_block_frame_def start_message_frame_def anthropic_error_frame_def anthropic_usage_frame_def
      typed_frame_def named_frame_def text_field_def js_field_def jm_get_def narrow_text_def nullable_number_def
      int_json_def Let_def)

lemma block_run_stop_frames [simp]: "block_run (anthropic_stop_frames r) s = Some s"
proof (cases "r = SrError")
  case False
  then show ?thesis
    by (simp add: anthropic_stop_frames_def block_step_def frame_index_def frame_type_def
        typed_frame_def named_frame_def js_field_def jm_get_def nullable_number_def)
qed (simp add: anthropic_stop_frames_def)

text \<open>
  The blocks the encoder tracks are open at the client, numbered below the next index; \<open>exact\<close> says
  that no other block is open there.
\<close>

definition block_view :: "bool \<Rightarrow> nat \<Rightarrow> nat list \<Rightarrow> block_state \<Rightarrow> bool" where
  "block_view exact n tr s \<longleftrightarrow> bs_next s = n \<and> distinct tr \<and> set tr \<subseteq> set (bs_open s) \<and>
     (\<forall>i \<in> set tr. i < n) \<and> (exact \<longrightarrow> set (bs_open s) \<subseteq> set tr)"

lemma block_view_stop:
  assumes "block_view exact n (a @ b) s"
  shows "\<exists>s1. block_run (map stop_block_frame a) s = Some s1 \<and> block_view exact n b s1"
  using assms
proof (induction a arbitrary: s)
  case (Cons i a)
  let ?s = "s\<lparr>bs_open := removeAll i (bs_open s)\<rparr>"
  have "block_view exact n (a @ b) ?s" using Cons.prems by (auto simp: block_view_def)
  moreover have "block_step (stop_block_frame i) s = Some ?s" using Cons.prems by (simp add: block_view_def)
  ultimately show ?case using Cons.IH by simp
qed simp

lemma block_view_start:
  assumes "block_view exact n tr s"
  shows "\<exists>s1. block_step (start_block_frame n block) s = Some s1 \<and> block_view exact (Suc n) (n # tr) s1"
  using assms by (force simp: block_view_def)

lemma block_view_perm: "block_view exact n tr s \<Longrightarrow> mset tr' = mset tr \<Longrightarrow> block_view exact n tr' s"
  by (metis block_view_def mset_eq_imp_distinct_iff mset_eq_setD)

lemma block_view_mono: "block_view exact n tr s \<Longrightarrow> distinct tr' \<Longrightarrow> set tr' \<subseteq> set tr \<Longrightarrow> block_view False n tr' s"
  by (auto simp: block_view_def)

lemma block_view_mem: "block_view exact n tr s \<Longrightarrow> i \<in> set tr \<Longrightarrow> i \<in> set (bs_open s)"
  by (auto simp: block_view_def)

definition tracked :: "anthropic_encoder \<Rightarrow> nat list" where
  "tracked e = opt_list (ane_thinking e) @ opt_list (ane_text e) @ map snd (ane_tools e)"

definition blocks_rel :: "bool \<Rightarrow> anthropic_encoder \<Rightarrow> block_state \<Rightarrow> bool" where
  "blocks_rel exact e s \<longleftrightarrow> jm_wf (ane_tools e) \<and> block_view exact (ane_next e) (tracked e) s"

lemma opt_list_simps [simp]: "opt_list None = []" "opt_list (Some a) = [a]"
  by (simp_all add: opt_list_def)

lemma open_block_rel:
  assumes "blocks_rel exact e s"
  shows "\<exists>e1 fs s1. open_block block e = (ane_next e, e1, fs) \<and>
    block_run fs s = Some s1 \<and> jm_wf (ane_tools e) \<and> block_view exact (Suc (ane_next e)) (ane_next e # map snd (ane_tools e)) s1 \<and>
    e1 = e\<lparr>ane_text := None, ane_thinking := None, ane_next := Suc (ane_next e)\<rparr>"
proof -
  let ?is = "opt_list (ane_thinking e) @ opt_list (ane_text e)"
  have "block_view exact (ane_next e) (?is @ map snd (ane_tools e)) s"
    using assms by (simp add: blocks_rel_def tracked_def)
  from block_view_stop [OF this] obtain s0 where s0: "block_run (map stop_block_frame ?is) s = Some s0"
    "block_view exact (ane_next e) (map snd (ane_tools e)) s0" by blast
  from block_view_start [OF s0(2)] obtain s1 where s1: "block_step (start_block_frame (ane_next e) block) s0 = Some s1"
    "block_view exact (Suc (ane_next e)) (ane_next e # map snd (ane_tools e)) s1" by blast
  have "block_run (map stop_block_frame ?is @ [start_block_frame (ane_next e) block]) s = Some s1"
    by (simp only: block_run_append s0(1) Option.bind.simps block_run.simps s1(1))
  then show ?thesis using s1(2) assms
    by (simp add: open_block_def close_text_blocks_def Let_def blocks_rel_def)
qed

lemma in_tools: "jm_get tools c = Some i \<Longrightarrow> i \<in> set (map snd tools)"
  by (drule jm_get_SomeD) force

lemma set_snd_jm_set: "set (map snd (jm_set c i m)) \<subseteq> insert i (set (map snd m))"
  by (induction m) (auto simp: jm_set_def)

lemma distinct_jm_set: "distinct (map snd m) \<Longrightarrow> i \<notin> set (map snd m) \<Longrightarrow> distinct (map snd (jm_set c i m))"
proof (induction m)
  case (Cons p m)
  obtain k v where p: "p = (k, v)" by fastforce
  have "set (map snd (jm_set c i m)) \<subseteq> insert i (set (map snd m))" by (rule set_snd_jm_set)
  then have "v \<notin> set (map snd (jm_set c i m))" using Cons.prems p by auto
  then show ?case using Cons p by (simp add: jm_set_def)
qed (simp add: jm_set_def)

lemma jm_delete_snd:
  assumes "jm_wf m" and "jm_get m c = Some i"
  shows "mset (map snd m) = add_mset i (mset (map snd (jm_delete c m)))"
  using assms
proof (induction m)
  case (Cons p m)
  obtain k v where p: "p = (k, v)" by fastforce
  show ?case
  proof (cases "k = c")
    case True
    then have "jm_delete c m = m" using Cons.prems(1) p
      by (intro jm_delete_absent) (simp add: jm_has_iff jm_wf_def jm_keys_def)
    then show ?thesis using Cons.prems(2) p True by (simp add: jm_delete_def jm_get_def)
  next
    case False
    then show ?thesis using Cons p by (simp add: jm_delete_def jm_get_def jm_wf_def jm_keys_def)
  qed
qed simp

text \<open>The calls that are open in the encoder; \<open>fresh_calls\<close>: no call starts while it is open.\<close>

fun fresh_calls :: "string list \<Rightarrow> stream_event list \<Rightarrow> bool" where
  "fresh_calls cs [] = True"
| "fresh_calls cs (ToolCallStart c n # evs) = (c \<notin> set cs \<and> fresh_calls (c # cs) evs)"
| "fresh_calls cs (ToolCallEnd c # evs) = fresh_calls (removeAll c cs) evs"
| "fresh_calls cs (_ # evs) = fresh_calls cs evs"

lemma encode_text_rel:
  assumes "blocks_rel exact e s"
  shows "\<exists>s1. block_run (snd (anthropic_encode_body (TextDelta t) e)) s = Some s1 \<and>
      blocks_rel exact (fst (anthropic_encode_body (TextDelta t) e)) s1 \<and>
      ane_tools (fst (anthropic_encode_body (TextDelta t) e)) = ane_tools e \<and>
      ane_finished (fst (anthropic_encode_body (TextDelta t) e)) = ane_finished e"
    and "\<exists>s1. block_run (snd (anthropic_encode_body (ThinkingDelta t) e)) s = Some s1 \<and>
      blocks_rel exact (fst (anthropic_encode_body (ThinkingDelta t) e)) s1 \<and>
      ane_tools (fst (anthropic_encode_body (ThinkingDelta t) e)) = ane_tools e \<and>
      ane_finished (fst (anthropic_encode_body (ThinkingDelta t) e)) = ane_finished e"
proof -
  note ob = open_block_rel [OF assms]
  show "\<exists>s1. block_run (snd (anthropic_encode_body (TextDelta t) e)) s = Some s1 \<and>
      blocks_rel exact (fst (anthropic_encode_body (TextDelta t) e)) s1 \<and>
      ane_tools (fst (anthropic_encode_body (TextDelta t) e)) = ane_tools e \<and>
      ane_finished (fst (anthropic_encode_body (TextDelta t) e)) = ane_finished e"
  proof (cases "ane_text e")
    case None
    obtain e1 fs s1 where o: "open_block [(''type'', JStr ''text''), (''text'', JStr [])] e = (ane_next e, e1, fs)"
      "block_run fs s = Some s1" "jm_wf (ane_tools e)"
      "block_view exact (Suc (ane_next e)) (ane_next e # map snd (ane_tools e)) s1"
      "e1 = e\<lparr>ane_text := None, ane_thinking := None, ane_next := Suc (ane_next e)\<rparr>"
      using ob [of "[(''type'', JStr ''text''), (''text'', JStr [])]"] by blast
    show ?thesis using o block_view_mem [OF o(4), of "ane_next e"]
      by (simp add: None block_run_append blocks_rel_def tracked_def)
  next
    case (Some i)
    then have "i \<in> set (bs_open s)" using assms by (auto simp: blocks_rel_def tracked_def dest: block_view_mem)
    then show ?thesis using assms by (simp add: Some)
  qed
  show "\<exists>s1. block_run (snd (anthropic_encode_body (ThinkingDelta t) e)) s = Some s1 \<and>
      blocks_rel exact (fst (anthropic_encode_body (ThinkingDelta t) e)) s1 \<and>
      ane_tools (fst (anthropic_encode_body (ThinkingDelta t) e)) = ane_tools e \<and>
      ane_finished (fst (anthropic_encode_body (ThinkingDelta t) e)) = ane_finished e"
  proof (cases "ane_thinking e")
    case None
    obtain e1 fs s1 where o: "open_block [(''type'', JStr ''thinking''), (''thinking'', JStr [])] e = (ane_next e, e1, fs)"
      "block_run fs s = Some s1" "jm_wf (ane_tools e)"
      "block_view exact (Suc (ane_next e)) (ane_next e # map snd (ane_tools e)) s1"
      "e1 = e\<lparr>ane_text := None, ane_thinking := None, ane_next := Suc (ane_next e)\<rparr>"
      using ob [of "[(''type'', JStr ''thinking''), (''thinking'', JStr [])]"] by blast
    show ?thesis using o block_view_mem [OF o(4), of "ane_next e"]
      by (simp add: None block_run_append blocks_rel_def tracked_def)
  next
    case (Some i)
    then have "i \<in> set (bs_open s)" using assms by (auto simp: blocks_rel_def tracked_def dest: block_view_mem)
    then show ?thesis using assms by (simp add: Some)
  qed
qed

lemma tool_start_rel:
  assumes "blocks_rel exact e s" and "exact \<Longrightarrow> \<not> jm_has (ane_tools e) c"
  shows "\<exists>s1. block_run (snd (anthropic_encode_body (ToolCallStart c n) e)) s = Some s1 \<and>
    blocks_rel exact (fst (anthropic_encode_body (ToolCallStart c n) e)) s1 \<and>
    ane_tools (fst (anthropic_encode_body (ToolCallStart c n) e)) = jm_set c (ane_next e) (ane_tools e) \<and>
    ane_finished (fst (anthropic_encode_body (ToolCallStart c n) e)) = ane_finished e"
proof -
  let ?block = "[(''type'', JStr ''tool_use''), (''id'', JStr c), (''name'', JStr n), (''input'', JObj [])]"
  obtain e1 fs s1 where o: "open_block ?block e = (ane_next e, e1, fs)" "block_run fs s = Some s1"
    "jm_wf (ane_tools e)" "block_view exact (Suc (ane_next e)) (ane_next e # map snd (ane_tools e)) s1"
    "e1 = e\<lparr>ane_text := None, ane_thinking := None, ane_next := Suc (ane_next e)\<rparr>"
    using open_block_rel [OF assms(1), of ?block] by blast
  let ?tools = "jm_set c (ane_next e) (ane_tools e)"
  have d: "distinct (map snd (ane_tools e))" "ane_next e \<notin> set (map snd (ane_tools e))"
    using o(4) by (simp_all add: block_view_def)
  have "block_view exact (Suc (ane_next e)) (map snd ?tools) s1"
  proof (cases "jm_has (ane_tools e) c")
    case True
    then have "\<not> exact" using assms(2) by blast
    moreover have "block_view False (Suc (ane_next e)) (map snd ?tools) s1"
      by (rule block_view_mono [OF o(4) distinct_jm_set [OF d]])
        (simp only: list.map list.set set_snd_jm_set)
    ultimately show ?thesis by simp
  next
    case False
    then show ?thesis by (intro block_view_perm [OF o(4)]) (simp add: jm_set_new)
  qed
  then show ?thesis using o by (simp add: blocks_rel_def tracked_def jm_wf_set)
qed

lemma tool_end_rel:
  assumes "blocks_rel exact e s"
  shows "\<exists>s1. block_run (snd (anthropic_encode_body (ToolCallEnd c) e)) s = Some s1 \<and>
    blocks_rel exact (fst (anthropic_encode_body (ToolCallEnd c) e)) s1 \<and>
    ane_tools (fst (anthropic_encode_body (ToolCallEnd c) e)) = jm_delete c (ane_tools e) \<and>
    ane_finished (fst (anthropic_encode_body (ToolCallEnd c) e)) = ane_finished e"
proof (cases "jm_get (ane_tools e) c")
  case None
  then show ?thesis using assms by (simp add: jm_delete_absent jm_has_def)
next
  case (Some i)
  let ?rest = "opt_list (ane_thinking e) @ opt_list (ane_text e) @ map snd (jm_delete c (ane_tools e))"
  have wf: "jm_wf (ane_tools e)" using assms by (simp add: blocks_rel_def)
  have "block_view exact (ane_next e) ([i] @ ?rest) s"
    by (rule block_view_perm [of _ _ "tracked e"])
      (use assms jm_delete_snd [OF wf Some] in \<open>simp_all add: blocks_rel_def tracked_def\<close>)
  from block_view_stop [OF this] show ?thesis
    using wf by (simp add: Some blocks_rel_def tracked_def jm_wf_delete)
qed

lemma stop_rel:
  assumes "blocks_rel exact e s" and "\<not> ane_finished e"
  shows "\<exists>s1. block_run (snd (anthropic_encode_body (MessageStop r) e)) s = Some s1 \<and>
    blocks_rel exact (fst (anthropic_encode_body (MessageStop r) e)) s1 \<and>
    tracked (fst (anthropic_encode_body (MessageStop r) e)) = [] \<and>
    ane_tools (fst (anthropic_encode_body (MessageStop r) e)) = [] \<and>
    ane_finished (fst (anthropic_encode_body (MessageStop r) e))"
proof -
  have "block_view exact (ane_next e) (tracked e @ []) s" using assms(1) by (simp add: blocks_rel_def)
  from block_view_stop [OF this] obtain s1 where s1: "block_run (map stop_block_frame (tracked e)) s = Some s1"
    "block_view exact (ane_next e) [] s1" by blast
  have frames: "snd (anthropic_encode_body (MessageStop r) e) = map stop_block_frame (tracked e) @ anthropic_stop_frames r"
    using assms(2) by (simp add: close_text_blocks_def tracked_def Let_def case_prod_unfold comp_def)
  have "block_run (snd (anthropic_encode_body (MessageStop r) e)) s = Some s1"
    unfolding frames by (simp only: block_run_append s1(1) Option.bind.simps block_run_stop_frames)
  then show ?thesis using s1(2) assms(2)
    by (simp add: close_text_blocks_def Let_def blocks_rel_def tracked_def)
qed

text \<open>
  One event keeps the relation; while no call starts twice the encoder's calls stay within the open
  ones, and a first message stop leaves no block open.
\<close>

lemma body_rel:
  assumes "blocks_rel exact e s"
    and calls: "exact \<Longrightarrow> fresh_calls cs (ev # evs) \<and> set (jm_keys (ane_tools e)) \<subseteq> set cs"
  defines "e1 \<equiv> fst (anthropic_encode_body ev e)"
  shows "\<exists>s1 cs1. block_run (snd (anthropic_encode_body ev e)) s = Some s1 \<and> blocks_rel exact e1 s1 \<and>
    (exact \<longrightarrow> fresh_calls cs1 evs \<and> set (jm_keys (ane_tools e1)) \<subseteq> set cs1) \<and>
    (\<not> is_terminal_event ev \<longrightarrow> ane_finished e1 = ane_finished e) \<and>
    (is_terminal_event ev \<and> \<not> ane_finished e \<longrightarrow> ane_finished e1 \<and> (exact \<longrightarrow> bs_open s1 = []))"
proof (cases ev)
  case (ToolCallStart c n)
  have "exact \<Longrightarrow> \<not> jm_has (ane_tools e) c" using calls ToolCallStart by (auto simp: jm_has_iff)
  from tool_start_rel [OF assms(1) this, of n] obtain s1 where s1:
    "block_run (snd (anthropic_encode_body ev e)) s = Some s1" "blocks_rel exact e1 s1"
    "ane_tools e1 = jm_set c (ane_next e) (ane_tools e)" "ane_finished e1 = ane_finished e"
    unfolding e1_def ToolCallStart by blast
  have "exact \<Longrightarrow> fresh_calls (c # cs) evs \<and> set (jm_keys (ane_tools e1)) \<subseteq> set (c # cs)"
    using calls ToolCallStart s1(3) by (auto simp: jm_keys_set)
  then show ?thesis using s1 ToolCallStart by (intro exI [of _ s1] exI [of _ "c # cs"]) simp
next
  case (ToolCallEnd c)
  from tool_end_rel [OF assms(1), of c] obtain s1 where s1:
    "block_run (snd (anthropic_encode_body ev e)) s = Some s1" "blocks_rel exact e1 s1"
    "ane_tools e1 = jm_delete c (ane_tools e)" "ane_finished e1 = ane_finished e"
    unfolding e1_def ToolCallEnd by blast
  have "exact \<Longrightarrow> fresh_calls (removeAll c cs) evs \<and> set (jm_keys (ane_tools e1)) \<subseteq> set (removeAll c cs)"
    using calls ToolCallEnd s1(3) by (auto simp: jm_keys_delete)
  then show ?thesis using s1 ToolCallEnd by (intro exI [of _ s1] exI [of _ "removeAll c cs"]) simp
next
  case (ToolCallDelta c d)
  have run: "block_run (snd (anthropic_encode_body ev e)) s = Some s"
  proof (cases "jm_get (ane_tools e) c")
    case (Some i)
    then have "i \<in> set (tracked e)" using in_tools [OF Some] by (simp add: tracked_def)
    then have "i \<in> set (bs_open s)" using assms(1) block_view_mem unfolding blocks_rel_def by blast
    then show ?thesis by (simp add: ToolCallDelta Some)
  qed (use ToolCallDelta in simp)
  have "e1 = e" by (simp add: e1_def ToolCallDelta)
  then show ?thesis using run assms(1) calls ToolCallDelta by (intro exI [of _ s] exI [of _ cs]) simp
next
  case (MessageStop r)
  show ?thesis
  proof (cases "ane_finished e")
    case True
    then have "e1 = e" "snd (anthropic_encode_body ev e) = []" by (simp_all add: e1_def MessageStop)
    then show ?thesis using assms(1) calls True MessageStop by (intro exI [of _ s] exI [of _ cs]) simp
  next
    case False
    from stop_rel [OF assms(1) False, of r] obtain s1 where s1:
      "block_run (snd (anthropic_encode_body ev e)) s = Some s1" "blocks_rel exact e1 s1"
      "tracked e1 = []" "ane_tools e1 = []" "ane_finished e1"
      unfolding e1_def MessageStop by blast
    have "exact \<Longrightarrow> bs_open s1 = []" using s1(2,3) by (simp add: blocks_rel_def block_view_def)
    then show ?thesis using s1 calls MessageStop
      by (intro exI [of _ s1] exI [of _ cs]) (simp add: jm_keys_def)
  qed
next
  case (TextDelta t)
  from encode_text_rel(1) [OF assms(1), of t] obtain s1 where
    "block_run (snd (anthropic_encode_body ev e)) s = Some s1" "blocks_rel exact e1 s1"
    "ane_tools e1 = ane_tools e" "ane_finished e1 = ane_finished e"
    unfolding e1_def TextDelta by blast
  then show ?thesis using calls TextDelta by (intro exI [of _ s1] exI [of _ cs]) simp
next
  case (ThinkingDelta t)
  from encode_text_rel(2) [OF assms(1), of t] obtain s1 where
    "block_run (snd (anthropic_encode_body ev e)) s = Some s1" "blocks_rel exact e1 s1"
    "ane_tools e1 = ane_tools e" "ane_finished e1 = ane_finished e"
    unfolding e1_def ThinkingDelta by blast
  then show ?thesis using calls ThinkingDelta by (intro exI [of _ s1] exI [of _ cs]) simp
next
  case (UsageEvent u)
  have "e1 = e" by (simp add: e1_def UsageEvent)
  then show ?thesis using assms(1) calls UsageEvent by (intro exI [of _ s] exI [of _ cs]) simp
next
  case (MessageStart i)
  have "e1 = e" by (simp add: e1_def MessageStart)
  then show ?thesis using assms(1) calls MessageStart by (intro exI [of _ s] exI [of _ cs]) simp
qed

lemma begin_rel:
  assumes "anthropic_begin model e = (e1, fs)"
  shows "block_run fs s = Some s" "blocks_rel exact e1 s = blocks_rel exact e s" "ane_tools e1 = ane_tools e"
    "ane_finished e1 = ane_finished e"
  using assms by (auto simp: anthropic_begin_def blocks_rel_def tracked_def split: if_splits)

lemma event_rel:
  assumes "blocks_rel exact e s"
    and calls: "exact \<Longrightarrow> fresh_calls cs (ev # evs) \<and> set (jm_keys (ane_tools e)) \<subseteq> set cs"
    and enc: "anthropic_encode_event model ev e = (e2, fs)"
  shows "\<exists>s1 cs1. block_run fs s = Some s1 \<and> blocks_rel exact e2 s1 \<and>
    (exact \<longrightarrow> fresh_calls cs1 evs \<and> set (jm_keys (ane_tools e2)) \<subseteq> set cs1) \<and>
    (\<not> is_terminal_event ev \<longrightarrow> ane_finished e2 = ane_finished e) \<and>
    (is_terminal_event ev \<and> \<not> ane_finished e \<longrightarrow> ane_finished e2 \<and> (exact \<longrightarrow> bs_open s1 = []))"
proof (cases "\<exists>i. ev = MessageStart i")
  case True
  then obtain i where i: "ev = MessageStart i" by blast
  let ?e = "e\<lparr>ane_id := or_id i (ane_id e)\<rparr>"
  have b: "anthropic_begin model ?e = (e2, fs)" using enc i by (simp add: anthropic_encode_event_def)
  have "blocks_rel exact ?e s" using assms(1) by (simp add: blocks_rel_def tracked_def)
  then show ?thesis using begin_rel [OF b] calls i by (intro exI [of _ s] exI [of _ cs]) simp
next
  case False
  obtain e1 fs1 where b: "anthropic_begin model e = (e1, fs1)" by fastforce
  have r: "blocks_rel exact e1 s" using begin_rel(2) [OF b] assms(1) by simp
  have c: "exact \<Longrightarrow> fresh_calls cs (ev # evs) \<and> set (jm_keys (ane_tools e1)) \<subseteq> set cs"
    using calls begin_rel(3) [OF b] by simp
  have "(e2, fs) = (fst (anthropic_encode_body ev e1), fs1 @ snd (anthropic_encode_body ev e1))"
    using enc False
    by (cases ev) (simp_all add: anthropic_encode_event_def b split: prod.splits del: anthropic_encode_body.simps)
  then have "e2 = fst (anthropic_encode_body ev e1)" "block_run fs s = block_run (snd (anthropic_encode_body ev e1)) s"
    using begin_rel(1) [OF b] by (simp_all add: block_run_append)
  then show ?thesis using body_rel [OF r c] begin_rel(4) [OF b] by simp
qed

lemma start_rel: "blocks_rel exact (anthropic_encoder_start uuid) \<lparr>bs_next = 0, bs_open = []\<rparr>"
  by (simp add: blocks_rel_def block_view_def anthropic_encoder_start_def tracked_def)

lemma encode_anthropic_follows:
  "blocks_rel False e s \<Longrightarrow> \<exists>s1. block_run (encode_anthropic model e evs) s = Some s1"
proof (induction evs arbitrary: e s)
  case Nil
  then show ?case by simp
next
  case (Cons ev evs)
  obtain e1 fs where enc: "anthropic_encode_event model ev e = (e1, fs)" by fastforce
  from event_rel [OF Cons.prems _ this, of "[]" evs] obtain s1
    where "block_run fs s = Some s1" "blocks_rel False e1 s1" by blast
  then show ?case using Cons.IH by (simp add: enc block_run_append)
qed

lemma encode_anthropic_closes:
  "blocks_rel True e s \<Longrightarrow> \<not> ane_finished e \<Longrightarrow> fresh_calls cs (evs @ [MessageStop r]) \<Longrightarrow>
   set (jm_keys (ane_tools e)) \<subseteq> set cs \<Longrightarrow> \<not> list_ex is_terminal_event evs \<Longrightarrow>
   \<exists>n. block_run (encode_anthropic model e (evs @ [MessageStop r])) s = Some \<lparr>bs_next = n, bs_open = []\<rparr>"
proof (induction evs arbitrary: e s cs)
  case Nil
  obtain e1 fs where enc: "anthropic_encode_event model (MessageStop r) e = (e1, fs)" by fastforce
  from event_rel [OF Nil.prems(1) _ this, of cs "[]"] Nil.prems obtain s1
    where "block_run fs s = Some s1" "ane_finished e1" "bs_open s1 = []" by auto
  then show ?case by (simp add: enc) (metis (full_types) block_state.surjective old.unit.exhaust)
next
  case (Cons ev evs)
  obtain e1 fs where enc: "anthropic_encode_event model ev e = (e1, fs)" by fastforce
  from event_rel [OF Cons.prems(1) _ this, of cs "evs @ [MessageStop r]"] Cons.prems obtain s1 cs1
    where "block_run fs s = Some s1" "blocks_rel True e1 s1" "fresh_calls cs1 (evs @ [MessageStop r])"
      "set (jm_keys (ane_tools e1)) \<subseteq> set cs1" "\<not> ane_finished e1" by auto
  then show ?case using Cons.IH [of e1 s1 cs1] Cons.prems by (simp add: enc block_run_append)
qed

subsection \<open>Properties\<close>

text \<open>
  C37: Whatever events a provider streams, the messages encoder numbers its content blocks from 0
  without gaps and only ever writes to or stops an open block; and when no call starts while it is
  open, the frames up to the message stop leave no block open.
\<close>

theorem anthropic_blocks_disciplined:
  "(\<exists>s. block_run (encode_surface_stream SfMessages model created uuid evs) \<lparr>bs_next = 0, bs_open = []\<rparr> = Some s) \<and>
   (fresh_calls [] (pre @ [MessageStop r]) \<and> \<not> list_ex is_terminal_event pre \<longrightarrow>
     (\<exists>n. block_run (encode_surface_stream SfMessages model created uuid (pre @ [MessageStop r]))
        \<lparr>bs_next = 0, bs_open = []\<rparr> = Some \<lparr>bs_next = n, bs_open = []\<rparr>))"
  using encode_anthropic_follows [OF start_rel, of model uuid evs]
    encode_anthropic_closes [OF start_rel, of uuid "[]" pre r model]
  by (auto simp: encode_surface_stream_def anthropic_encoder_start_def jm_keys_def)

definition sample_events :: "stream_event list" where
  "sample_events = [MessageStart ''m'', ThinkingDelta ''t'', TextDelta ''a'', ToolCallStart ''c'' ''f'',
     ToolCallDelta ''c'' ''{}'', TextDelta ''b'']"

theorem anthropic_blocks_disciplined_witness:
  "\<exists>n. block_run (encode_surface_stream SfMessages ''m'' 0 ''u'' (sample_events @ [MessageStop SrCompleted]))
     \<lparr>bs_next = 0, bs_open = []\<rparr> = Some \<lparr>bs_next = n, bs_open = []\<rparr>"
  using anthropic_blocks_disciplined [of "''m''" 0 "''u''" "[]" sample_events SrCompleted]
  by (simp add: sample_events_def)

subsection \<open>Where encoders and mappers do not fit\<close>

text \<open>A call that starts again while it is open loses its first block, which is never stopped.\<close>

lemma restarted_call_leaves_block_open:
  "block_run (encode_anthropic ''m'' (anthropic_encoder_start [])
     [ToolCallStart ''c'' ''f'', ToolCallStart ''c'' ''f'', MessageStop SrCompleted]) \<lparr>bs_next = 0, bs_open = []\<rparr> =
   Some \<lparr>bs_next = 2, bs_open = [0]\<rparr>"
  by (simp add: anthropic_encoder_start_def anthropic_encode_event_def anthropic_begin_def open_block_def
      close_text_blocks_def Let_def jm_set_def block_run_append split: prod.splits)

text \<open>
  A stream that breaks off before its stop is closed as \<open>response.incomplete\<close> with the status
  \<open>completed\<close>: the final reason keeps its initial value.
\<close>

lemma truncated_response_claims_completion:
  "encode_responses model created (responses_encoder_start uuid\<lparr>ree_started := True\<rparr>) [] =
     [data_frame [(''type'', JStr ''response.incomplete''), (''sequence_number'', int_json 0),
        (''response'', JObj [(''id'', JStr (''resp_'' @ uuid)), (''object'', JStr ''response''), (''model'', JStr model),
           (''status'', JStr ''completed'')])], done_frame]"
  by (simp add: responses_encode_end_def responses_encoder_start_def response_status_of_def one_frame_def
      numbered_frame_def status_text_def)

text \<open>
  The usage of a chat upstream counts its cached tokens inside the prompt tokens; the chat encoder
  adds them a second time.
\<close>

lemma chat_usage_counts_cache_twice:
  "us_input (map_chat_usage [(''prompt_tokens'', JNum (Num 100)), (''completion_tokens'', JNum (Num 5)),
     (''prompt_tokens_details'', JObj [(''cached_tokens'', JNum (Num 40))])]) = Some 100"
  "us_input (map_chat_usage (chat_usage_json (map_chat_usage [(''prompt_tokens'', JNum (Num 100)),
     (''completion_tokens'', JNum (Num 5)), (''prompt_tokens_details'', JObj [(''cached_tokens'', JNum (Num 40))])]))) = Some 140"
  by (simp_all add: map_chat_usage_def chat_usage_json_def js_field_def jm_get_def nullable_number_def
      nested_number_def narrow_record_def usage_number_def int_json_def js_trunc_def Let_def)

text \<open>The stop of a broken chat stream is read back as a completed one.\<close>

definition chat_frame_record :: "wire_frame \<Rightarrow> (string \<times> json) list" where
  "chat_frame_record f = (case wf_data f of WireJson (JObj fs) \<Rightarrow> fs | _ \<Rightarrow> [])"

lemma broken_chat_stream_reads_as_completed:
  "map_chat_finish_reason (cm_finish (fst (chat_record uuid m (chat_frame_record chat_error_frame)))) = SrCompleted"
  by (simp add: chat_frame_record_def chat_error_frame_def data_frame_def chat_record_def first_choice_def
      text_field_def js_field_def jm_get_def narrow_text_def narrow_record_def first_some_def
      map_chat_finish_reason_def chat_delta_def Let_def)

text \<open>
  The messages encoder repeats an empty usage in its closing \<open>message_delta\<close>, and the mapper takes the
  missing count for an unknown one: the output tokens reported before are gone.
\<close>

lemma closing_delta_erases_output_tokens:
  assumes "anm_output m = Some 7"
  shows "anm_output (fst (anthropic_message_delta m (chat_frame_record (hd (anthropic_stop_frames SrCompleted))))) = None"
  by (simp add: anthropic_message_delta_def chat_frame_record_def anthropic_stop_frames_def typed_frame_def
      named_frame_def js_field_def jm_get_def narrow_record_def nullable_number_def text_field_def narrow_text_def Let_def)

text \<open>A response that ends at the token limit ends in a frame its own mapper does not take for an end.\<close>

lemma encoded_length_stop_is_not_an_end:
  "\<exists>f. encode_responses model created (responses_encoder_start uuid\<lparr>ree_started := True\<rparr>) [MessageStop SrLength] =
       [f, done_frame] \<and>
     responses_record show_num uuid' m (chat_frame_record f) = Inr (m\<lparr>rsm_stop := Some SrLength\<rparr>, [])"
  by (simp add: responses_encode_event_def responses_begin_def responses_encoder_start_def responses_stop_def
      response_status_of_def numbered_frame_def data_frame_def chat_frame_record_def responses_record_def
      responses_encode_end_def text_field_def js_field_def jm_get_def narrow_text_def Let_def)

end
