(* ===== verification/StreamRoundtrip.thy ===== *)
theory StreamRoundtrip imports SurfaceEncoder begin

text \<open>
  The two ends of a stream against each other: what the encoder of a client surface
  (\<open>src/providers/surfaces/index.ts\<close>) writes, the event decoder of \<open>src/providers/shared.ts\<close> reads
  back, frame by frame and however the transport cuts the bytes; and what the chat encoder writes
  for a stream of events, the chat mapper of \<open>src/transport/protocols/openai.ts\<close> maps to these
  events again. This is the situation of one instance that is the upstream of another.
\<close>

subsection \<open>Printed JSON has no control characters\<close>

definition printable :: "string \<Rightarrow> bool" where
  "printable s \<longleftrightarrow> (\<forall>c \<in> set s. 32 \<le> char_code c)"

lemma printable_append [simp]: "printable (a @ b) \<longleftrightarrow> printable a \<and> printable b"
  by (auto simp: printable_def)

lemma printable_Cons [simp]: "printable (c # s) \<longleftrightarrow> 32 \<le> char_code c \<and> printable s"
  by (simp add: printable_def)

lemma printable_Nil [simp]: "printable []"
  by (simp add: printable_def)

lemma printable_join: "printable sep \<Longrightarrow> \<forall>w \<in> set ws. printable w \<Longrightarrow> printable (join_with sep ws)"
  by (induction sep ws rule: join_with.induct) auto

lemma printable_digits: "list_all is_digit_char s \<Longrightarrow> printable s"
  by (auto simp: printable_def list_all_iff is_digit_char_def)

lemma printable_int_str: "printable (int_str k)"
  using printable_digits nat_str_digits by (simp add: int_str_def char_code_def)

lemma printable_hex: "k < 16 \<Longrightarrow> 32 \<le> char_code (hex_char k)"
  by (auto simp: hex_char_def char_code_def)

lemma printable_escape: "printable (escape_char c)"
proof -
  have "char_code c < 256" by (simp add: char_code_def)
  then have "char_code c div 16 < 16" by simp
  then show ?thesis using printable_hex
    by (auto simp: escape_char_def Let_def) (auto simp: char_code_def)
qed

lemma printable_json_string: "printable (json_string s)"
proof -
  have "printable (concat (map escape_char s))" by (induction s) (auto simp: printable_escape)
  then show ?thesis by (simp add: json_string_def char_code_def)
qed

lemma printable_json_text: "plain_json v \<Longrightarrow> printable (json_text f v)"
proof (induction v)
  case (JNum n)
  then show ?case using printable_int_str by (auto simp: num_text_def split: js_num.splits)
next
  case (JArr xs)
  then have "\<forall>x \<in> set xs. printable (json_text f x)" by (simp add: list_all_iff)
  then have "printable (join_with '','' (map (json_text f) xs))"
    by (intro printable_join) (auto simp: char_code_def)
  then show ?case by (simp add: char_code_def)
next
  case (JObj ps)
  then have "\<forall>p \<in> set ps. printable (json_text f (snd p))"
    by (fastforce simp: list_all_iff)
  then have "printable (join_with '','' (map (\<lambda>(k, v). json_string k @ '':'' @ json_text f v) ps))"
    by (intro printable_join) (auto simp: char_code_def printable_json_string)
  then show ?case by (simp add: char_code_def)
qed (simp_all add: char_code_def printable_json_string)

lemma printable_no_break: "printable s \<Longrightarrow> LF \<notin> set s \<and> CR \<notin> set s"
  by (fastforce simp: printable_def LF_def CR_def char_code_def)

subsection \<open>Frames\<close>

definition frame_event :: "(rat \<Rightarrow> string) \<Rightarrow> wire_frame \<Rightarrow> sse_event" where
  "frame_event show_num f = \<lparr>se_event = wf_event f, se_data = wire_text show_num (wf_data f)\<rparr>"

text \<open>The lines of a frame, without their ends.\<close>

definition frame_lines :: "(rat \<Rightarrow> string) \<Rightarrow> wire_frame \<Rightarrow> string list" where
  "frame_lines show_num f =
    (case wf_event f of None \<Rightarrow> [] | Some name \<Rightarrow> [''event: '' @ name]) @
    [''data: '' @ wire_text show_num (wf_data f), []]"

text \<open>
  A frame the decoder accepts: its data is the end mark or a value \<open>stringify\<close> writes exactly, its
  name is printable, its lines fit the line limit and together the event limit.
\<close>

definition plain_wire :: "wire_data \<Rightarrow> bool" where
  "plain_wire d = (case d of WireText s \<Rightarrow> s = ''[DONE]'' | WireJson v \<Rightarrow> plain_json v)"

definition frame_ok :: "sse_limits \<Rightarrow> (rat \<Rightarrow> string) \<Rightarrow> wire_frame \<Rightarrow> bool" where
  "frame_ok lm show_num f \<longleftrightarrow> plain_wire (wf_data f) \<and>
     (case wf_event f of None \<Rightarrow> True | Some name \<Rightarrow> printable name) \<and>
     (\<forall>l \<in> set (frame_lines show_num f). byte_length l \<le> sl_line lm) \<and>
     sum_list (map (\<lambda>l. byte_length l + 1) (frame_lines show_num f)) \<le> sl_event lm + 1"

lemma wire_text_ok:
  assumes "plain_wire d"
  shows "printable (wire_text f d)" "0 < length (wire_text f d)"
proof -
  show "printable (wire_text f d)"
    using assms printable_json_text by (auto simp: plain_wire_def wire_text_def char_code_def split: wire_data.splits)
  have "0 < length (json_text f v)" if "plain_json v" for v
    using json_text_hd [OF that, of f] by (metis length_greater_0_conv list.distinct(1))
  then show "0 < length (wire_text f d)"
    using assms by (auto simp: plain_wire_def wire_text_def split: wire_data.splits)
qed

lemma strip_cr_printable: "printable s \<Longrightarrow> strip_cr s = s"
  using printable_no_break last_in_set by (fastforce simp: strip_cr_def)

lemma sse_event_line:
  assumes "printable name" and "byte_length (''event: '' @ name) \<le> sl_line lm"
    and "sf_bytes st + byte_length (''event: '' @ name) + 1 \<le> sl_event lm"
  shows "sse_line lm (''event: '' @ name) st =
    ([], Inr (st\<lparr>sf_bytes := sf_bytes st + byte_length (''event: '' @ name) + 1, sf_event := Some name\<rparr>))"
proof -
  have "strip_cr (''event: '' @ name) = ''event: '' @ name"
    by (rule strip_cr_printable) (use assms(1) in \<open>simp add: char_code_def\<close>)
  then show ?thesis using assms
    by (simp add: sse_line_def Let_def sse_field_def field_name_def field_value_def)
qed

lemma sse_data_line:
  assumes "printable data" and "byte_length (''data: '' @ data) \<le> sl_line lm"
    and "sf_bytes st + byte_length (''data: '' @ data) + 1 \<le> sl_event lm"
  shows "sse_line lm (''data: '' @ data) st =
    ([], Inr (st\<lparr>sf_bytes := sf_bytes st + byte_length (''data: '' @ data) + 1, sf_data := sf_data st @ [data]\<rparr>))"
proof -
  have "strip_cr (''data: '' @ data) = ''data: '' @ data"
    by (rule strip_cr_printable) (use assms(1) in \<open>simp add: char_code_def\<close>)
  then show ?thesis using assms
    by (simp add: sse_line_def Let_def sse_field_def field_name_def field_value_def)
qed

lemma sse_blank_line: "sse_line lm [] st = (emit_event st, Inr no_fields)"
  by (simp add: sse_line_def strip_cr_def Let_def)

lemma sse_lines_frame:
  assumes "frame_ok lm show_num f"
  shows "sse_lines lm (frame_lines show_num f @ rest) no_fields =
    (let (evs, r) = sse_lines lm rest no_fields in (frame_event show_num f # evs, r))"
proof -
  let ?data = "wire_text show_num (wf_data f)"
  have d: "printable ?data" "0 < length ?data"
    using assms wire_text_ok by (auto simp: frame_ok_def)
  show ?thesis
  proof (cases "wf_event f")
    case None
    then have "byte_length (''data: '' @ ?data) \<le> sl_line lm"
      "sf_bytes no_fields + byte_length (''data: '' @ ?data) + 1 \<le> sl_event lm"
      using assms by (simp_all add: frame_ok_def frame_lines_def no_fields_def)
    from sse_data_line [OF d(1) this] show ?thesis using None d(2)
      by (simp add: frame_lines_def sse_blank_line emit_event_def frame_event_def no_fields_def split: prod.split)
  next
    case (Some name)
    let ?e = "''event: '' @ name"
    have n: "printable name" "byte_length ?e \<le> sl_line lm" "byte_length (''data: '' @ ?data) \<le> sl_line lm"
      "byte_length ?e + 1 + byte_length (''data: '' @ ?data) + 1 \<le> sl_event lm"
      using assms Some by (simp_all add: frame_ok_def frame_lines_def)
    let ?st = "no_fields\<lparr>sf_bytes := byte_length ?e + 1, sf_event := Some name\<rparr>"
    have l1: "sse_line lm ?e no_fields = ([], Inr ?st)"
      using sse_event_line [OF n(1,2), of no_fields] n(4) by (simp add: no_fields_def)
    have l2: "sse_line lm (''data: '' @ ?data) ?st =
        ([], Inr (?st\<lparr>sf_bytes := sf_bytes ?st + byte_length (''data: '' @ ?data) + 1, sf_data := [?data]\<rparr>))"
      using sse_data_line [OF d(1) n(3), of ?st] n(4) by (simp add: no_fields_def)
    have lines: "frame_lines show_num f @ rest = ?e # (''data: '' @ ?data) # [] # rest"
      by (simp add: frame_lines_def Some)
    have "sse_lines lm (frame_lines show_num f @ rest) no_fields =
        (let (evs, r) = sse_lines lm rest no_fields
         in (emit_event (?st\<lparr>sf_bytes := sf_bytes ?st + byte_length (''data: '' @ ?data) + 1, sf_data := [?data]\<rparr>) @ evs, r))"
      by (cases "sse_lines lm rest no_fields")
        (simp only: lines sse_lines.simps l1 l2 sse_blank_line prod.case sum.case Let_def append_Nil)
    then show ?thesis using d(2) by (simp add: emit_event_def frame_event_def Some)
  qed
qed

lemma sse_lines_frames:
  "\<forall>f \<in> set frames. frame_ok lm show_num f \<Longrightarrow>
   sse_lines lm (concat (map (frame_lines show_num) frames)) no_fields = (map (frame_event show_num) frames, Inr no_fields)"
  by (induction frames) (simp_all add: sse_lines_frame)

lemma frame_text_lines:
  assumes "frame_ok lm show_num f"
  shows "split_on LF (frame_text show_num f @ rest) = frame_lines show_num f @ split_on LF rest"
proof -
  have "LF \<notin> set (''data: '' @ wire_text show_num (wf_data f))"
    using assms wire_text_ok(1) [of "wf_data f" show_num] printable_no_break
    by (auto simp: frame_ok_def LF_def)
  moreover have "LF \<notin> set (''event: '' @ name)" if "wf_event f = Some name" for name
    using assms that printable_no_break by (auto simp: frame_ok_def LF_def)
  moreover have "split_on LF ((''data: '' @ wire_text show_num (wf_data f)) @ LF # [] @ LF # rest) =
      (''data: '' @ wire_text show_num (wf_data f)) # [] # split_on LF rest"
    using calculation(1) by (simp only: split_on_append list.set empty_iff not_False_eq_True)
  moreover have "split_on LF ((''event: '' @ name) @ LF # r) = (''event: '' @ name) # split_on LF r"
    if "wf_event f = Some name" for name r
    using calculation(2) [OF that] by (simp only: split_on_append not_False_eq_True)
  ultimately show ?thesis
    by (cases "wf_event f") (simp_all add: frame_text_def frame_lines_def)
qed

lemma frames_text_lines:
  "\<forall>f \<in> set frames. frame_ok lm show_num f \<Longrightarrow>
   split_on LF (concat (map (frame_text show_num) frames)) = concat (map (frame_lines show_num) frames) @ [[]]"
proof (induction frames)
  case (Cons f frames)
  then show ?case using frame_text_lines [of lm show_num f] by simp
qed simp

lemma emit_no_fields [simp]: "emit_event no_fields = []"
  by (simp add: emit_event_def no_fields_def)

lemma frames_decode:
  assumes "\<forall>f \<in> set frames. frame_ok lm show_num f"
    and "concat chunks = concat (map (frame_text show_num) frames)"
  shows "sse_decode lm chunks (BodyDone []) = (map (frame_event show_num) frames, None)"
proof -
  have "lines_fit lm (concat chunks)"
    using assms(1) by (auto simp: lines_fit_def assms(2) frames_text_lines [OF assms(1)] frame_ok_def)
  then show ?thesis
    by (simp add: sse_decode_whole assms(2) frames_text_lines [OF assms(1)] sse_lines_frames [OF assms(1)]
        sse_finish_def)
qed

subsection \<open>A chat chunk read back\<close>

text \<open>What a reader of the chat encoder's stream sees: the calls in the order of their starts and the calls with arguments so far.\<close>

definition read_back_usage :: "provider_usage \<Rightarrow> provider_usage" where
  "read_back_usage u =
    (let input = usage_number (us_input u) + usage_number (us_cache_read u); outp = usage_number (us_output u)
     in \<lparr>us_input = Some (of_int input), us_output = Some (of_int outp), us_total = Some (of_int (input + outp)),
         us_cache_read = Some (of_int (usage_number (us_cache_read u))), us_cache_write = None, us_source = TsProvider\<rparr>)"

definition read_back_reason :: "stop_reason \<Rightarrow> bool \<Rightarrow> stop_reason" where
  "read_back_reason r has_calls =
    (if r = SrError then SrCompleted
     else if r = SrLength then SrLength
     else if r = SrToolCall \<or> has_calls then SrToolCall else r)"

definition read_back_stop :: "string list \<Rightarrow> stop_reason \<Rightarrow> stream_event list" where
  "read_back_stop calls r = map ToolCallEnd calls @ [MessageStop (read_back_reason r (calls \<noteq> []))]"

fun read_back :: "string list \<Rightarrow> string list \<Rightarrow> stream_event list \<Rightarrow> stream_event list" where
  "read_back calls args [] = read_back_stop calls SrError"
| "read_back calls args (ToolCallStart c n # evs) = ToolCallStart c n # read_back (calls @ [c]) args evs"
| "read_back calls args (ToolCallDelta c d # evs) = ToolCallDelta c d # read_back calls (set_add c args) evs"
| "read_back calls args (ToolCallEnd c # evs) =
     (if c \<in> set args then [] else [ToolCallDelta c ''{}'']) @ read_back calls args evs"
| "read_back calls args (UsageEvent u # evs) = UsageEvent (read_back_usage u) # read_back calls args evs"
| "read_back calls args (MessageStop r # evs) = read_back_stop calls r"
| "read_back calls args (ev # evs) = ev # read_back calls args evs"

text \<open>The streams a mapper hands on: no empty deltas, calls with an id that is not used before, one stop, at the end.\<close>

fun chat_source :: "string list \<Rightarrow> stream_event list \<Rightarrow> bool" where
  "chat_source calls [] = True"
| "chat_source calls (MessageStart i # evs) = False"
| "chat_source calls (TextDelta t # evs) = (t \<noteq> [] \<and> chat_source calls evs)"
| "chat_source calls (ThinkingDelta t # evs) = (t \<noteq> [] \<and> chat_source calls evs)"
| "chat_source calls (ToolCallStart c n # evs) = (c \<noteq> [] \<and> c \<notin> set calls \<and> chat_source (calls @ [c]) evs)"
| "chat_source calls (ToolCallDelta c d # evs) = (c \<in> set calls \<and> d \<noteq> [] \<and> chat_source calls evs)"
| "chat_source calls (ToolCallEnd c # evs) = (c \<in> set calls \<and> chat_source calls evs)"
| "chat_source calls (UsageEvent u # evs) = chat_source calls evs"
| "chat_source calls (MessageStop r # evs) = (evs = [])"

lemmas field_simps_chat = text_field_def js_field_def jm_get_def narrow_text_def narrow_record_def

lemma map_sse_append:
  "map_sse_events step m (a @ b) =
     (case map_sse_events step m a of
        (evs, Inl e) \<Rightarrow> (evs, Inl e)
      | (evs, Inr m') \<Rightarrow> (let (evs', r) = map_sse_events step m' b in (evs @ evs', r)))"
  by (induction a arbitrary: m) (auto split: sum.splits prod.splits)

lemma chat_map_frame:
  assumes "plain_wire (wf_data (data_frame fs))"
  shows "chat_map uuid m (frame_event show_num (data_frame fs)) = Inr (chat_record uuid m fs)"
proof -
  have "json_parse (json_text show_num (JObj fs)) = Some (JObj fs)"
    using assms by (intro json_parse_text) (simp add: plain_wire_def data_frame_def)
  moreover have "json_text show_num (JObj fs) \<noteq> ''[DONE]''" by simp
  ultimately show ?thesis
    by (simp add: chat_map_def frame_event_def data_frame_def wire_text_def parse_sse_data_def with_record_def
        narrow_record_def del: json_text.simps)
qed

lemma chat_map_done:
  "chat_map uuid m (frame_event show_num done_frame) =
     Inr (m\<lparr>cm_tools := []\<rparr>, map ToolCallEnd (map snd (cm_tools m)) @ [MessageStop (map_chat_finish_reason (cm_finish m))])"
  by (simp add: chat_map_def frame_event_def done_frame_def wire_text_def case_prod_unfold)

text \<open>Reading one chunk.\<close>

definition chunk_read ::
  "chat_mapper \<Rightarrow> string \<Rightarrow> (string \<times> json) list \<Rightarrow> string option \<Rightarrow> (string \<times> json) list option \<Rightarrow>
   chat_mapper \<times> stream_event list" where
  "chunk_read m cid delta finish usage =
    (let (tools, evs) = chat_delta delta (cm_tools m)
     in (m\<lparr>cm_id := Some cid, cm_started := True, cm_finish := first_some finish (cm_finish m), cm_tools := tools\<rparr>,
         (if cm_started m then [] else [MessageStart cid]) @
         (case usage of None \<Rightarrow> [] | Some u \<Rightarrow> [UsageEvent (map_chat_usage u)]) @ evs))"

lemma chat_map_chunk:
  assumes "plain_wire (wf_data (chat_chunk model created cid delta finish usage))"
  shows "chat_map uuid m (frame_event show_num (chat_chunk model created cid delta finish usage)) =
    Inr (chunk_read m cid delta finish usage)"
proof -
  have "chat_map uuid m (frame_event show_num (chat_chunk model created cid delta finish usage)) =
      Inr (chat_record uuid m (chat_frame_record (chat_chunk model created cid delta finish usage)))"
    using chat_map_frame [of "chat_frame_record (chat_chunk model created cid delta finish usage)" uuid m show_num] assms
    by (simp add: chat_chunk_def chat_frame_record_def data_frame_def)
  also have "chat_record uuid m (chat_frame_record (chat_chunk model created cid delta finish usage)) =
      chunk_read m cid delta finish usage"
    by (cases usage; cases finish)
      (simp_all add: chat_record_def chat_frame_record_def chat_chunk_def data_frame_def chunk_read_def first_choice_def
        field_simps_chat Let_def split: prod.split)
  finally show ?thesis .
qed

lemma chat_delta_simps:
  "chat_delta role_delta tools = (tools, [])"
  "chat_delta [] tools = (tools, [])"
  "t \<noteq> [] \<Longrightarrow> chat_delta [(''reasoning_content'', JStr t)] tools = (tools, [ThinkingDelta t])"
  "t \<noteq> [] \<Longrightarrow> chat_delta [(''content'', JStr t)] tools = (tools, [TextDelta t])"
  by (simp_all add: chat_delta_def role_delta_def field_simps_chat)

lemma chat_tool_index_int: "chat_tool_index ((''index'', int_json (int i)) # fs) = i"
  by (simp add: chat_tool_index_def js_field_def jm_get_def nullable_number_def int_json_def is_integer_rat_def)

lemma text_field_simps [simp]:
  "text_field ((k, v) # fs) k' = (if k' = k then narrow_text (Some v) else text_field fs k')"
  "text_field [] k' = None"
  by (simp_all add: field_simps_chat)

lemma js_field_simps [simp]:
  "js_field ((k, v) # fs) k' = (if k' = k then Some v else js_field fs k')"
  "js_field [] k' = None"
  by (simp_all add: js_field_def jm_get_def)

lemma narrow_simps [simp]:
  "narrow_text (Some (JStr s)) = Some s"
  "narrow_record (Some (JObj fs)) = Some fs"
  by (simp_all add: narrow_text_def narrow_record_def)

lemma chat_delta_tool_start:
  assumes "jm_get tools i = None" and "c \<noteq> []"
  shows "chat_delta (tool_call_delta [(''index'', int_json (int i)), (''id'', JStr c), (''type'', JStr ''function''),
      (''function'', JObj [(''name'', JStr n), (''arguments'', JStr [])])]) tools = (tools @ [(i, c)], [ToolCallStart c n])"
  using assms jm_set_new [of tools i c]
  by (simp add: chat_delta_def tool_call_delta_def chat_tool_call_def chat_tool_index_int jm_has_def Let_def
      first_some_def or_text_def)

lemma chat_delta_arguments:
  assumes "jm_get tools i = Some c" and "d \<noteq> []"
  shows "chat_delta (arguments_delta i d) tools = (tools, [ToolCallDelta c d])"
  using assms
  by (simp add: chat_delta_def arguments_delta_def tool_call_delta_def chat_tool_call_def chat_tool_index_int jm_has_def
      Let_def first_some_def or_text_def)

lemma map_chat_usage_json: "map_chat_usage (chat_usage_json u) = read_back_usage u"
  by (simp add: map_chat_usage_def chat_usage_json_def read_back_usage_def js_field_def jm_get_def nullable_number_def
      nested_number_def narrow_record_def int_json_def Let_def)

lemma finish_reason_back:
  "r \<noteq> SrError \<Longrightarrow> map_chat_finish_reason (Some (openai_stop r b)) = read_back_reason r b"
  by (cases r) (auto simp: map_chat_finish_reason_def openai_stop_def read_back_reason_def)

subsection \<open>Encoder and mapper in step\<close>

lemma jm_set_same: "jm_get m k = Some v \<Longrightarrow> jm_set k v m = m"
  by (induction m) (auto simp: jm_get_def jm_set_def split: if_splits)

definition in_step :: "string list \<Rightarrow> string list \<Rightarrow> chat_encoder \<Rightarrow> chat_mapper \<Rightarrow> bool" where
  "in_step calls args e m \<longleftrightarrow>
     che_started e \<and> \<not> che_finished e \<and> che_saw_tool e = (calls \<noteq> []) \<and> che_next e = length calls \<and>
     che_index e = zip calls [0..<length calls] \<and> che_args e = args \<and>
     cm_started m \<and> cm_finish m = None \<and> cm_tools m = zip [0..<length calls] calls \<and> distinct calls"

lemma call_position:
  assumes "distinct calls" and "c \<in> set calls"
  obtains i where "i < length calls" "calls ! i = c"
    "jm_get (zip calls [0..<length calls]) c = Some i" "jm_get (zip [0..<length calls] calls) i = Some c"
proof -
  obtain i where i: "i < length calls" "calls ! i = c" using assms(2) by (auto simp: in_set_conv_nth)
  have "map_of (zip calls [0..<length calls]) (calls ! i) = Some ([0..<length calls] ! i)"
    using assms(1) i by (intro map_of_zip_nth) auto
  moreover have "map_of (zip [0..<length calls] calls) ([0..<length calls] ! i) = Some (calls ! i)"
    using i by (intro map_of_zip_nth) auto
  ultimately show ?thesis using that i by (simp add: jm_get_def)
qed

lemma no_position: "jm_get (zip [0..<n] calls) n = None"
  by (auto simp: jm_get_None_iff jm_keys_def dest: set_zip_leftD)

lemma new_call_position: "c \<notin> set calls \<Longrightarrow> jm_get (zip calls [0..<length calls]) c = None"
  by (simp add: jm_get_None_iff jm_keys_def)

lemma zip_snoc_index:
  "zip (calls @ [c]) [0..<Suc (length calls)] = zip calls [0..<length calls] @ [(c, length calls)]"
  "zip [0..<Suc (length calls)] (calls @ [c]) = zip [0..<length calls] calls @ [(length calls, c)]"
  by simp_all

lemma in_step_begin: "in_step calls args e m \<Longrightarrow> chat_begin model created e = (e, [])"
  by (simp add: chat_begin_def in_step_def)

lemma in_step_read:
  "in_step calls args e m \<Longrightarrow> chunk_read m cid delta finish usage =
     (let (tools, evs) = chat_delta delta (zip [0..<length calls] calls)
      in (m\<lparr>cm_id := Some cid, cm_finish := finish, cm_tools := tools\<rparr>,
          (case usage of None \<Rightarrow> [] | Some u \<Rightarrow> [UsageEvent (map_chat_usage u)]) @ evs))"
  by (cases finish) (auto simp: chunk_read_def in_step_def first_some_def split: prod.split)

lemma in_step_id [simp]: "in_step calls args e (m\<lparr>cm_id := i\<rparr>) = in_step calls args e m"
  by (simp add: in_step_def)

lemma in_step_stay:
  assumes "in_step calls args e m"
  shows "m\<lparr>cm_id := i, cm_finish := None, cm_tools := zip [0..<length calls] calls\<rparr> = m\<lparr>cm_id := i\<rparr>"
  using assms by (simp add: in_step_def)

lemma in_step_done:
  assumes "in_step calls args e m"
  shows "map_sse_events (chat_map uuid) m [frame_event show_num done_frame] =
    (map ToolCallEnd calls @ [MessageStop (map_chat_finish_reason None)], Inr (m\<lparr>cm_tools := []\<rparr>))"
  using assms by (simp add: chat_map_done in_step_def)

lemma ends_in_order [simp]: "map (ToolCallEnd \<circ> snd) (zip [0..<length calls] calls) = map ToolCallEnd calls"
  by (simp flip: map_map)

lemma in_step_close:
  assumes "in_step calls args e m" and "plain_wire (wf_data (chat_chunk model created cid [] (Some r) None))"
  shows "\<exists>m'. map_sse_events (chat_map uuid) m
      (map (frame_event show_num) [chat_chunk model created cid [] (Some r) None, done_frame]) =
    (map ToolCallEnd calls @ [MessageStop (map_chat_finish_reason (Some r))], Inr m')"
  using assms(2)
  by (simp add: chat_map_chunk in_step_read [OF assms(1)] chat_delta_simps chat_map_done)

lemma in_step_error:
  assumes "in_step calls args e m"
  shows "\<exists>m'. map_sse_events (chat_map uuid) m (map (frame_event show_num) [chat_error_frame, done_frame]) =
    (map ToolCallEnd calls @ [MessageStop SrCompleted], Inr m')"
proof -
  have *: "chat_map uuid m (frame_event show_num chat_error_frame) =
      Inr (chat_record uuid m [(''error'', JObj [(''message'', JStr ''Stream interrupted''), (''type'', JStr ''stream_error'')]),
        (''choices'', JArr [JObj [(''index'', int_json 0), (''delta'', JObj []), (''finish_reason'', JStr ''error'')]])])"
    unfolding chat_error_frame_def
    by (rule chat_map_frame)
      (simp add: plain_wire_def data_frame_def int_json_def is_integer_rat_def)
  show ?thesis using assms
    by (simp add: * chat_record_def first_choice_def chat_delta_simps in_step_def chat_map_done first_some_def
        map_chat_finish_reason_def narrow_text_def narrow_record_def)
qed

lemma in_step_delta:
  assumes "in_step calls args e m" and "plain_wire (wf_data (chat_chunk model created cid delta None usage))"
    and "chat_delta delta (zip [0..<length calls] calls) = (tools, evs)"
  shows "chat_map uuid m (frame_event show_num (chat_chunk model created cid delta None usage)) =
    Inr (m\<lparr>cm_id := Some cid, cm_finish := None, cm_tools := tools\<rparr>,
      (case usage of None \<Rightarrow> [] | Some u \<Rightarrow> [UsageEvent (map_chat_usage u)]) @ evs)"
  using assms(2,3) by (simp add: chat_map_chunk in_step_read [OF assms(1)])

text \<open>One event: the encoder's frames are mapped to what the reader sees, and the two stay in step.\<close>

lemma in_step_text:
  assumes "in_step calls args e m" and "ev = ThinkingDelta t \<or> ev = TextDelta t" and "t \<noteq> []"
    and "chat_encode_event model created ev e = (e', fs)" and "\<forall>f \<in> set fs. plain_wire (wf_data f)"
  shows "\<exists>m'. map_sse_events (chat_map uuid) m (map (frame_event show_num) fs) = ([ev], Inr m') \<and> in_step calls args e' m'"
proof -
  define key where "key = (case ev of ThinkingDelta _ \<Rightarrow> ''reasoning_content'' | _ \<Rightarrow> ''content'')"
  have e: "e' = e" "fs = [chat_chunk model created (che_id e) [(key, JStr t)] None None]"
    using assms(2,4) by (auto simp: chat_encode_event_def in_step_begin [OF assms(1)] key_def)
  have d: "chat_delta [(key, JStr t)] (zip [0..<length calls] calls) = (zip [0..<length calls] calls, [ev])"
    using assms(2,3) by (auto simp: key_def chat_delta_simps)
  show ?thesis
    using assms(1,5) by (simp add: e in_step_delta [OF assms(1) _ d] in_step_stay [OF assms(1)])
qed

lemma in_step_usage:
  assumes "in_step calls args e m"
    and "chat_encode_event model created (UsageEvent u) e = (e', fs)" and "\<forall>f \<in> set fs. plain_wire (wf_data f)"
  shows "\<exists>m'. map_sse_events (chat_map uuid) m (map (frame_event show_num) fs) = ([UsageEvent (read_back_usage u)], Inr m') \<and>
    in_step calls args e' m'"
proof -
  have e: "e' = e" "fs = [chat_chunk model created (che_id e) [] None (Some (chat_usage_json u))]"
    using assms(2) by (auto simp: chat_encode_event_def in_step_begin [OF assms(1)])
  show ?thesis
    using assms(1,3)
    by (simp add: e in_step_delta [OF assms(1) _ chat_delta_simps(2)] in_step_stay [OF assms(1)] map_chat_usage_json)
qed

lemma in_step_call_start:
  assumes "in_step calls args e m" and "c \<noteq> []" and "c \<notin> set calls"
    and "chat_encode_event model created (ToolCallStart c n) e = (e', fs)" and "\<forall>f \<in> set fs. plain_wire (wf_data f)"
  shows "\<exists>m'. map_sse_events (chat_map uuid) m (map (frame_event show_num) fs) = ([ToolCallStart c n], Inr m') \<and>
    in_step (calls @ [c]) args e' m'"
proof -
  have n: "che_next e = length calls" "che_index e = zip calls [0..<length calls]" "che_saw_tool e = (calls \<noteq> [])"
    using assms(1) by (simp_all add: in_step_def)
  have d: "chat_delta (tool_call_delta [(''index'', int_json (int (length calls))), (''id'', JStr c),
        (''type'', JStr ''function''), (''function'', JObj [(''name'', JStr n), (''arguments'', JStr [])])])
      (zip [0..<length calls] calls) = (zip [0..<length calls] calls @ [(length calls, c)], [ToolCallStart c n])"
    by (rule chat_delta_tool_start) (simp_all add: no_position assms(2))
  have e': "e' = e\<lparr>che_saw_tool := True, che_next := Suc (length calls),
      che_index := zip calls [0..<length calls] @ [(c, length calls)]\<rparr>"
    using assms(4) jm_set_new [of "zip calls [0..<length calls]" c "length calls"] new_call_position [OF assms(3)]
    by (simp add: jm_has_def chat_encode_event_def in_step_begin [OF assms(1)] n)
  have "map_sse_events (chat_map uuid) m (map (frame_event show_num) fs) = ([ToolCallStart c n],
      Inr (m\<lparr>cm_id := Some (che_id e), cm_finish := None,
        cm_tools := zip [0..<length calls] calls @ [(length calls, c)]\<rparr>))"
    using assms(4,5) by (auto simp: chat_encode_event_def in_step_begin [OF assms(1)] n in_step_delta [OF assms(1) _ d])
  moreover have "in_step (calls @ [c]) args e' (m\<lparr>cm_id := Some (che_id e), cm_finish := None,
        cm_tools := zip [0..<length calls] calls @ [(length calls, c)]\<rparr>)"
    using assms(1,3) unfolding e' in_step_def by (simp add: zip_snoc_index)
  ultimately show ?thesis by blast
qed

lemma in_step_call_delta:
  assumes "in_step calls args e m" and "c \<in> set calls" and "d \<noteq> []"
    and "chat_encode_event model created (ToolCallDelta c d) e = (e', fs)" and "\<forall>f \<in> set fs. plain_wire (wf_data f)"
  shows "\<exists>m'. map_sse_events (chat_map uuid) m (map (frame_event show_num) fs) = ([ToolCallDelta c d], Inr m') \<and>
    in_step calls (set_add c args) e' m'"
proof -
  have n: "che_next e = length calls" "che_index e = zip calls [0..<length calls]" "che_args e = args"
    "che_saw_tool e" "distinct calls"
    using assms(1,2) by (auto simp: in_step_def)
  obtain i where i: "jm_get (zip calls [0..<length calls]) c = Some i"
    "jm_get (zip [0..<length calls] calls) i = Some c"
    using call_position [OF n(5) assms(2)] by blast
  note d = chat_delta_arguments [OF i(2) assms(3)]
  have e': "e' = e\<lparr>che_args := set_add c args\<rparr>"
    using assms(4) jm_set_same [OF i(1)] n
    by (auto simp: chat_encode_event_def in_step_begin [OF assms(1)] i(1) jm_has_def)
  have "map_sse_events (chat_map uuid) m (map (frame_event show_num) fs) =
      ([ToolCallDelta c d], Inr (m\<lparr>cm_id := Some (che_id e)\<rparr>))"
    using assms(4,5)
    by (auto simp: chat_encode_event_def in_step_begin [OF assms(1)] n i(1) in_step_delta [OF assms(1) _ d]
        in_step_stay [OF assms(1)])
  then show ?thesis using assms(1) by (auto simp: e' in_step_def)
qed

lemma in_step_call_end:
  assumes "in_step calls args e m" and "c \<in> set calls"
    and "chat_encode_event model created (ToolCallEnd c) e = (e', fs)" and "\<forall>f \<in> set fs. plain_wire (wf_data f)"
  shows "\<exists>m'. map_sse_events (chat_map uuid) m (map (frame_event show_num) fs) =
      (if c \<in> set args then [] else [ToolCallDelta c ''{}''], Inr m') \<and> in_step calls args e' m'"
proof -
  have n: "che_index e = zip calls [0..<length calls]" "che_args e = args" "distinct calls"
    using assms(1) by (simp_all add: in_step_def)
  obtain i where i: "jm_get (zip calls [0..<length calls]) c = Some i"
    "jm_get (zip [0..<length calls] calls) i = Some c"
    using call_position [OF n(3) assms(2)] by blast
  have d: "chat_delta (arguments_delta i ''{}'') (zip [0..<length calls] calls) =
      (zip [0..<length calls] calls, [ToolCallDelta c ''{}''])"
    using chat_delta_arguments [OF i(2), of "''{}''"] by simp
  have e': "e' = e" using assms(3) by (simp add: chat_encode_event_def in_step_begin [OF assms(1)])
  show ?thesis
  proof (cases "c \<in> set args")
    case True
    then show ?thesis using assms(1,3) by (auto simp: chat_encode_event_def in_step_begin [OF assms(1)] n i(1))
  next
    case False
    then have fs: "fs = [chat_chunk model created (che_id e) (arguments_delta i ''{}'') None None]"
      using assms(3) by (auto simp: chat_encode_event_def in_step_begin [OF assms(1)] n i(1))
    have "map_sse_events (chat_map uuid) m (map (frame_event show_num) fs) =
        ([ToolCallDelta c ''{}''], Inr (m\<lparr>cm_id := Some (che_id e)\<rparr>))"
      using assms(4) by (simp add: fs in_step_delta [OF assms(1) _ d] in_step_stay [OF assms(1)])
    then show ?thesis using False assms(1) by (simp add: e')
  qed
qed

lemma in_step_call_stop:
  assumes "in_step calls args e m"
    and "chat_encode_event model created (MessageStop r) e = (e', fs)" and "\<forall>f \<in> set fs. plain_wire (wf_data f)"
  shows "(\<exists>m'. map_sse_events (chat_map uuid) m (map (frame_event show_num) fs) = (read_back_stop calls r, Inr m')) \<and>
    che_finished e'"
proof -
  have n: "\<not> che_finished e" "che_saw_tool e = (calls \<noteq> [])" using assms(1) by (simp_all add: in_step_def)
  have e': "e' = e\<lparr>che_finished := True\<rparr>"
    using assms(2) by (simp add: chat_encode_event_def in_step_begin [OF assms(1)] n)
  show ?thesis
  proof (cases "r = SrError")
    case True
    then have "fs = [chat_error_frame, done_frame]"
      using assms(2) by (simp add: chat_encode_event_def in_step_begin [OF assms(1)] n)
    then show ?thesis using True in_step_error [OF assms(1), of uuid show_num]
      by (simp add: e' read_back_stop_def read_back_reason_def)
  next
    case False
    then have fs: "fs = [chat_chunk model created (che_id e) [] (Some (openai_stop r (calls \<noteq> []))) None, done_frame]"
      using assms(2) by (simp add: chat_encode_event_def in_step_begin [OF assms(1)] n)
    then show ?thesis
      using False assms(3) in_step_close [OF assms(1), of model created "che_id e" "openai_stop r (calls \<noteq> [])" uuid show_num]
      by (simp add: e' read_back_stop_def finish_reason_back)
  qed
qed

lemma chat_body_back:
  assumes "in_step calls args e m" and "chat_source calls evs"
    and "\<forall>f \<in> set (encode_openai_chat model created e evs). plain_wire (wf_data f)"
  shows "\<exists>m'. map_sse_events (chat_map uuid) m (map (frame_event show_num) (encode_openai_chat model created e evs)) =
    (read_back calls args evs, Inr m')"
  using assms
proof (induction evs arbitrary: calls args e m)
  case Nil
  then show ?case
    using in_step_close [OF Nil.prems(1), of model created "che_id e" "''error''" uuid show_num]
    by (auto simp: chat_encode_end_def in_step_def read_back_stop_def read_back_reason_def map_chat_finish_reason_def)
next
  case (Cons ev evs)
  obtain e' fs where step: "chat_encode_event model created ev e = (e', fs)" by fastforce
  then have ok: "\<forall>f \<in> set fs. plain_wire (wf_data f)"
    "\<forall>f \<in> set (encode_openai_chat model created e' evs). plain_wire (wf_data f)"
    using Cons.prems(3) by auto
  have goal: ?case
    if "map_sse_events (chat_map uuid) m (map (frame_event show_num) fs) = (out, Inr m1)"
      and "in_step calls' args' e' m1" and "chat_source calls' evs"
      and "read_back calls args (ev # evs) = out @ read_back calls' args' evs" for out m1 calls' args'
    using Cons.IH [OF that(2,3) ok(2)] that(1,4) by (auto simp: step map_sse_append)
  show ?case
  proof (cases ev)
    case (MessageStart i)
    then show ?thesis using Cons.prems(2) by simp
  next
    case (TextDelta t)
    then obtain m1 where "map_sse_events (chat_map uuid) m (map (frame_event show_num) fs) = ([ev], Inr m1)"
      "in_step calls args e' m1"
      using in_step_text [OF Cons.prems(1) _ _ step ok(1), of t uuid show_num] Cons.prems(2) by auto
    then show ?thesis
      by (rule goal) (use TextDelta Cons.prems(2) in simp_all)
  next
    case (ThinkingDelta t)
    then obtain m1 where "map_sse_events (chat_map uuid) m (map (frame_event show_num) fs) = ([ev], Inr m1)"
      "in_step calls args e' m1"
      using in_step_text [OF Cons.prems(1) _ _ step ok(1), of t uuid show_num] Cons.prems(2) by auto
    then show ?thesis
      by (rule goal) (use ThinkingDelta Cons.prems(2) in simp_all)
  next
    case (ToolCallStart c n)
    then obtain m1 where "map_sse_events (chat_map uuid) m (map (frame_event show_num) fs) = ([ev], Inr m1)"
      "in_step (calls @ [c]) args e' m1"
      using in_step_call_start [OF Cons.prems(1) _ _ step [unfolded ToolCallStart] ok(1), of uuid show_num] Cons.prems(2) by auto
    then show ?thesis
      by (rule goal) (use ToolCallStart Cons.prems(2) in simp_all)
  next
    case (ToolCallDelta c d)
    then obtain m1 where "map_sse_events (chat_map uuid) m (map (frame_event show_num) fs) = ([ev], Inr m1)"
      "in_step calls (set_add c args) e' m1"
      using in_step_call_delta [OF Cons.prems(1) _ _ step [unfolded ToolCallDelta] ok(1), of uuid show_num] Cons.prems(2) by auto
    then show ?thesis
      by (rule goal) (use ToolCallDelta Cons.prems(2) in simp_all)
  next
    case (ToolCallEnd c)
    then obtain m1 where "map_sse_events (chat_map uuid) m (map (frame_event show_num) fs) = (if c \<in> set args then [] else [ToolCallDelta c ''{}''], Inr m1)"
      "in_step calls args e' m1"
      using in_step_call_end [OF Cons.prems(1) _ step [unfolded ToolCallEnd] ok(1), of uuid show_num] Cons.prems(2) by auto
    then show ?thesis
      by (rule goal) (use ToolCallEnd Cons.prems(2) in simp_all)
  next
    case (UsageEvent u)
    then obtain m1 where "map_sse_events (chat_map uuid) m (map (frame_event show_num) fs) = ([UsageEvent (read_back_usage u)], Inr m1)"
      "in_step calls args e' m1"
      using in_step_usage [OF Cons.prems(1) step [unfolded UsageEvent] ok(1), of uuid show_num] Cons.prems(2) by auto
    then show ?thesis
      by (rule goal) (use UsageEvent Cons.prems(2) in simp_all)
  next
    case (MessageStop r)
    then show ?thesis
      using in_step_call_stop [OF Cons.prems(1) step [unfolded MessageStop] ok(1), of uuid show_num] Cons.prems(2) step
      by (auto simp: chat_encode_end_def)
  qed
qed

lemma read_back_terminates: "list_ex is_terminal_event (read_back calls args evs)"
  by (induction calls args evs rule: read_back.induct) (simp_all add: read_back_stop_def list_ex_iff)

text \<open>
  C34: One instance as the upstream of another: the stream a chat-completions client gets, cut into
  network chunks at any place, is decoded and mapped to the same message, text, reasoning and tool
  calls in the same order, ending in one stop after the ends of all calls. Usage comes back as the
  whole token counts the encoder writes, a call without arguments with the empty object, and a
  stream that failed or was cut comes back as completed. The events are those of an orderly source
  (\<open>chat_source\<close>): one start with an id, first; no empty text or reasoning; each call started under an
  id of its own that is not empty, and only started calls get argument deltas, not empty, and ends; nothing
  after a stop. A Responses upstream is no such source, as its deltas come under another id (the
  counterexample in \<open>StreamMappers\<close>), and does not read back so. Every frame (\<open>frame_ok\<close>) is within the
  decoder's line and event limits, its numbers are integers below \<open>10\<^sup>2\<^sup>1\<close> and its fields have distinct names.
\<close>

theorem chat_stream_roundtrip:
  assumes "i \<noteq> []" and "chat_source [] body"
    and "\<forall>f \<in> set (encode_openai_chat model created (chat_encoder_start uuid) (MessageStart i # body)). frame_ok lm show_num f"
    and "concat chunks =
      concat (map (frame_text show_num) (encode_openai_chat model created (chat_encoder_start uuid) (MessageStart i # body)))"
  shows "map_sse_stream (chat_map uuid') chat_mapper_start (sse_decode lm chunks (BodyDone [])) =
    (MessageStart i # read_back [] [] body, None)"
proof -
  let ?e = "(chat_encoder_start uuid)\<lparr>che_id := i, che_started := True\<rparr>"
  let ?m = "chat_mapper_start\<lparr>cm_id := Some i, cm_started := True\<rparr>"
  have enc: "encode_openai_chat model created (chat_encoder_start uuid) (MessageStart i # body) =
      chat_chunk model created i role_delta None None # encode_openai_chat model created ?e body"
    using assms(1) by (simp add: chat_encode_event_def chat_begin_def or_id_def chat_encoder_start_def)
  have plain: "\<forall>f \<in> set (encode_openai_chat model created (chat_encoder_start uuid) (MessageStart i # body)).
      plain_wire (wf_data f)"
    using assms(3) by (auto simp: frame_ok_def)
  have first: "chat_map uuid' chat_mapper_start (frame_event show_num (chat_chunk model created i role_delta None None)) =
      Inr (?m, [MessageStart i])"
    using plain unfolding enc
    by (simp add: chat_map_chunk chunk_read_def chat_delta_simps chat_mapper_start_def first_some_def)
  have "in_step [] [] ?e ?m"
    by (simp add: in_step_def chat_encoder_start_def chat_mapper_start_def)
  from chat_body_back [OF this assms(2), of model created uuid' show_num] obtain m' where
    "map_sse_events (chat_map uuid') ?m (map (frame_event show_num) (encode_openai_chat model created ?e body)) =
      (read_back [] [] body, Inr m')"
    using plain unfolding enc by auto
  then show ?thesis unfolding frames_decode [OF assms(3,4)] enc
    by (simp add: map_sse_stream_def first read_back_terminates)
qed

text \<open>Limits that suffice for given frames.\<close>

definition limits_for :: "(rat \<Rightarrow> string) \<Rightarrow> wire_frame list \<Rightarrow> sse_limits" where
  "limits_for show_num frames =
    (let total = sum_list (map (\<lambda>f. sum_list (map (\<lambda>l. byte_length l + 1) (frame_lines show_num f))) frames)
     in \<lparr>sl_line = total, sl_event = total\<rparr>)"

lemma frame_ok_limits_for:
  assumes "f \<in> set frames" and "plain_wire (wf_data f)" and "wf_event f = None"
  shows "frame_ok (limits_for show_num frames) show_num f"
proof -
  let ?size = "\<lambda>f. sum_list (map (\<lambda>l. byte_length l + 1) (frame_lines show_num f))"
  have "?size f \<le> sum_list (map ?size frames)"
    using assms(1) by (intro member_le_sum_list) auto
  moreover have "byte_length l \<le> ?size f" if "l \<in> set (frame_lines show_num f)" for l
    using member_le_sum_list [of "byte_length l + 1" "map (\<lambda>l. byte_length l + 1) (frame_lines show_num f)"] that
    by force
  ultimately have "\<forall>l \<in> set (frame_lines show_num f). byte_length l \<le> sl_line (limits_for show_num frames)"
    "?size f \<le> sl_event (limits_for show_num frames)"
    by (auto simp: limits_for_def Let_def intro: le_trans)
  then show ?thesis using assms(2,3) by (simp add: frame_ok_def)
qed

definition sample_chat :: "wire_frame list" where
  "sample_chat = encode_openai_chat ''m'' 7 (chat_encoder_start ''u'')
     [MessageStart ''x'', TextDelta ''hi'', ToolCallStart ''c'' ''f'', ToolCallEnd ''c'', MessageStop SrCompleted]"

lemma sample_chat_ok: "\<forall>f \<in> set sample_chat. plain_wire (wf_data f) \<and> wf_event f = None"
  by (simp add: sample_chat_def chat_encode_event_def chat_begin_def chat_encoder_start_def chat_chunk_def data_frame_def
      done_frame_def role_delta_def tool_call_delta_def arguments_delta_def jm_set_def jm_get_def openai_stop_def
      plain_wire_def int_json_def is_integer_rat_def chat_encode_end_def Let_def)

theorem chat_stream_roundtrip_witness:
  "\<forall>show_num uuid'. map_sse_stream (chat_map uuid') chat_mapper_start
      (sse_decode (limits_for show_num sample_chat) [concat (map (frame_text show_num) sample_chat)] (BodyDone [])) =
   ([MessageStart ''x'', TextDelta ''hi'', ToolCallStart ''c'' ''f'', ToolCallDelta ''c'' ''{}'', ToolCallEnd ''c'',
     MessageStop SrToolCall], None)"
proof (intro allI)
  fix show_num :: "rat \<Rightarrow> string" and uuid'
  let ?body = "[TextDelta ''hi'', ToolCallStart ''c'' ''f'', ToolCallEnd ''c'', MessageStop SrCompleted]"
  have ok: "\<forall>f \<in> set sample_chat. frame_ok (limits_for show_num sample_chat) show_num f"
    using sample_chat_ok frame_ok_limits_for by blast
  have "chat_source [] ?body" by simp
  from chat_stream_roundtrip [OF _ this ok [unfolded sample_chat_def], of "[concat (map (frame_text show_num) sample_chat)]" uuid']
  show "map_sse_stream (chat_map uuid') chat_mapper_start
      (sse_decode (limits_for show_num sample_chat) [concat (map (frame_text show_num) sample_chat)] (BodyDone [])) =
   ([MessageStart ''x'', TextDelta ''hi'', ToolCallStart ''c'' ''f'', ToolCallDelta ''c'' ''{}'', ToolCallEnd ''c'',
     MessageStop SrToolCall], None)"
    by (simp add: sample_chat_def read_back_stop_def read_back_reason_def del: encode_openai_chat.simps)
qed

end
