(* ===== verification/Registry.thy ===== *)
theory Registry imports Routing NetGuard UpstreamErrors begin

text \<open>
  Provider adapters and their registry (\<open>src/providers/registry.ts\<close>, the catalog helpers and the
  native adapter factory of \<open>src/providers/shared.ts\<close>, \<open>src/providers/custom.ts\<close>) and the choice of the
  wire surface (\<open>wireSurfaceFor\<close> of \<open>src/domain/protocols/translation.ts\<close>). An adapter is a record with
  the identity of its object; a call is modelled up to the request it is about to send: target checks,
  URL, headers, time limit.
\<close>

subsection \<open>Surfaces\<close>

definition surface_name :: "surface \<Rightarrow> string" where
  "surface_name s = (case s of SfChat \<Rightarrow> ''openai-chat'' | SfResponses \<Rightarrow> ''openai-responses''
     | SfMessages \<Rightarrow> ''anthropic-messages'' | SfNative \<Rightarrow> ''native'' | SfImages \<Rightarrow> ''images''
     | SfWebSearch \<Rightarrow> ''web-search'')"

definition wire_surface_for :: "provider_metadata \<Rightarrow> capabilities \<Rightarrow> surface \<Rightarrow> surface option" where
  "wire_surface_for metadata caps client =
    (let has = (\<lambda>s. s \<in> set (cap_surfaces caps)); only = (\<lambda>s. if has s then Some s else None);
         chat_first = (if has SfChat then Some SfChat else only SfResponses)
     in if client = SfImages then only SfImages
        else if client = SfWebSearch then only SfWebSearch
        else if has client then Some client
        else if pm_protocol metadata = PrAnthropic then only SfMessages
        else if pm_protocol metadata = PrGemini then chat_first
        else if pm_protocol metadata = PrExa then only SfWebSearch
        else chat_first)"

subsection \<open>Capabilities and models\<close>

record capability_seed =
  cs_surfaces :: "surface list"
  cs_streaming :: "bool option"
  cs_reasoning :: "bool option"
  cs_tool_calls :: "bool option"
  cs_images :: "bool option"
  cs_explicit_cache :: "bool option"
  cs_prompt_cache_key :: "bool option"

definition flag_or :: "bool option \<Rightarrow> bool \<Rightarrow> bool" where
  "flag_or v d = (case v of Some b \<Rightarrow> b | None \<Rightarrow> d)"

definition capabilities_of :: "capability_seed \<Rightarrow> capabilities" where
  "capabilities_of seed = \<lparr>
     cap_surfaces = cs_surfaces seed,
     cap_streaming = flag_or (cs_streaming seed) True,
     cap_reasoning = flag_or (cs_reasoning seed) False,
     cap_tool_calls = flag_or (cs_tool_calls seed) True,
     cap_images = flag_or (cs_images seed) False,
     cap_explicit_cache = flag_or (cs_explicit_cache seed) False,
     cap_prompt_cache_key = flag_or (cs_prompt_cache_key seed) False\<rparr>"

definition categories_of :: "capabilities \<Rightarrow> capability_category list" where
  "categories_of caps =
    (if cap_images caps then [CcVision] else []) @
    (if list_ex (\<lambda>s. s \<noteq> SfImages) (cap_surfaces caps) then [CcText] else []) @
    (if cap_reasoning caps then [CcReasoning] else [])"

record model_seed =
  mse_upstream_id :: "string option"
  mse_context :: "context_limits option"
  mse_categories :: "capability_category list option"
  mse_pricing :: "token_pricing option"

definition no_seed :: model_seed where
  "no_seed = \<lparr>mse_upstream_id = None, mse_context = None, mse_categories = None, mse_pricing = None\<rparr>"

definition no_context :: context_limits where
  "no_context = \<lparr>cl_input_tokens = None, cl_output_tokens = None\<rparr>"

definition no_pricing :: token_pricing where
  "no_pricing = \<lparr>tp_input = None, tp_output = None\<rparr>"

definition model_of :: "string \<Rightarrow> string \<Rightarrow> capabilities \<Rightarrow> model_seed \<Rightarrow> provider_model" where
  "model_of mid display caps seed = \<lparr>
     pmod_id = mid, pmod_display_name = display, pmod_capabilities = caps,
     pmod_upstream_id = mse_upstream_id seed,
     pmod_context = Some (case mse_context seed of Some c \<Rightarrow> c | None \<Rightarrow> no_context),
     pmod_categories = Some (case mse_categories seed of Some c \<Rightarrow> c | None \<Rightarrow> categories_of caps),
     pmod_pricing = Some (case mse_pricing seed of Some p \<Rightarrow> p | None \<Rightarrow> no_pricing)\<rparr>"

text \<open>A catalog is its list and its lookup; of two models with one id the map keeps the last.\<close>

definition models_by_id :: "provider_model list \<Rightarrow> (string, provider_model) js_map" where
  "models_by_id models = fold (\<lambda>m. jm_set (pmod_id m) m) models []"

definition catalog_get :: "provider_model list \<Rightarrow> string \<Rightarrow> provider_model option" where
  "catalog_get models model_id = jm_get (models_by_id models) model_id"

definition add_surfaces :: "surface list \<Rightarrow> surface list \<Rightarrow> surface list" where
  "add_surfaces new acc = fold (\<lambda>s acc. if s \<in> set acc then acc else acc @ [s]) new acc"

definition no_capabilities :: capabilities where
  "no_capabilities = \<lparr>cap_surfaces = [], cap_streaming = False, cap_reasoning = False, cap_tool_calls = False,
     cap_images = False, cap_explicit_cache = False, cap_prompt_cache_key = False\<rparr>"

definition join_capabilities :: "capabilities \<Rightarrow> capabilities \<Rightarrow> capabilities" where
  "join_capabilities caps acc = \<lparr>
     cap_surfaces = add_surfaces (cap_surfaces caps) (cap_surfaces acc),
     cap_streaming = (cap_streaming acc \<or> cap_streaming caps),
     cap_reasoning = (cap_reasoning acc \<or> cap_reasoning caps),
     cap_tool_calls = (cap_tool_calls acc \<or> cap_tool_calls caps),
     cap_images = (cap_images acc \<or> cap_images caps),
     cap_explicit_cache = (cap_explicit_cache acc \<or> cap_explicit_cache caps),
     cap_prompt_cache_key = (cap_prompt_cache_key acc \<or> cap_prompt_cache_key caps)\<rparr>"

definition aggregate_capabilities :: "provider_model list \<Rightarrow> capabilities \<Rightarrow> capabilities" where
  "aggregate_capabilities models fallback =
    (if models = [] then fallback
     else fold (\<lambda>m. join_capabilities (pmod_capabilities m)) models no_capabilities)"

subsection \<open>Adapters\<close>

record adapter =
  ad_object :: nat
  ad_custom :: bool
  ad_metadata :: provider_metadata
  ad_capabilities :: capabilities
  ad_models :: "provider_model list"
  ad_get_model :: "string \<Rightarrow> provider_model option"
  ad_resolve :: "string \<Rightarrow> surface \<Rightarrow> adapter_error + route_target"

abbreviation ad_id :: "adapter \<Rightarrow> string" where
  "ad_id a \<equiv> pm_id (ad_metadata a)"

definition unsupported :: "string \<Rightarrow> adapter_error" where
  "unsupported msg = adapter_fail CapabilityUnsupported msg (Some (Some 400)) None None"

definition quoted :: "string \<Rightarrow> string" where
  "quoted s = [CHR 0x22] @ s @ [CHR 0x22]"

definition no_surface :: "string \<Rightarrow> surface \<Rightarrow> adapter_error" where
  "no_surface pid s = unsupported (''Provider '' @ quoted pid @ '' does not support surface '' @ quoted (surface_name s))"

definition resolve_target_of ::
  "string \<Rightarrow> capabilities \<Rightarrow> (string \<Rightarrow> provider_model option) \<Rightarrow> string \<Rightarrow> surface \<Rightarrow> adapter_error + route_target" where
  "resolve_target_of pid caps get model_id s =
    (if s \<notin> set (cap_surfaces caps) then Inl (no_surface pid s)
     else Inr \<lparr>rt_provider_id = pid, rt_model_id = model_id,
       rt_upstream_model_id = (case Option.bind (get model_id) pmod_upstream_id of Some u \<Rightarrow> u | None \<Rightarrow> model_id),
       rt_surface = s\<rparr>)"

definition assert_supported :: "string \<Rightarrow> capabilities \<Rightarrow> route_target \<Rightarrow> bool \<Rightarrow> adapter_error option" where
  "assert_supported pid caps target stream =
    (if rt_provider_id target \<noteq> pid
     then Some (unsupported (''Adapter '' @ quoted pid @ '' cannot serve provider '' @ quoted (rt_provider_id target)))
     else if rt_surface target \<notin> set (cap_surfaces caps) then Some (no_surface pid (rt_surface target))
     else if stream \<and> \<not> cap_streaming caps
     then Some (unsupported (''Provider '' @ quoted pid @ '' does not support streaming''))
     else None)"

text \<open>\<open>url.replace(/\/+$/, "")\<close>\<close>

definition strip_slashes :: "string \<Rightarrow> string" where
  "strip_slashes s = rev (dropWhile (\<lambda>c. c = slash) (rev s))"

datatype auth_scheme = AuthBearer | AuthApiKey | AuthNone

record native_config =
  nc_id :: string
  nc_display_name :: string
  nc_base_url :: string
  nc_credential_kind :: credential_kind
  nc_credential_url :: "string option"
  nc_auth :: "auth_scheme option"
  nc_models :: "provider_model list option"

definition NATIVE_SURFACES :: "surface list" where
  "NATIVE_SURFACES = [SfChat, SfResponses]"

definition surfaces_seed :: "surface list \<Rightarrow> capability_seed" where
  "surfaces_seed ss = \<lparr>cs_surfaces = ss, cs_streaming = None, cs_reasoning = None, cs_tool_calls = None,
     cs_images = None, cs_explicit_cache = None, cs_prompt_cache_key = None\<rparr>"

definition NATIVE_FALLBACK_CAPABILITIES :: capabilities where
  "NATIVE_FALLBACK_CAPABILITIES =
     capabilities_of ((surfaces_seed NATIVE_SURFACES)\<lparr>cs_reasoning := Some True, cs_images := Some True\<rparr>)"

definition native_models :: "native_config \<Rightarrow> provider_model list" where
  "native_models c = (case nc_models c of Some ms \<Rightarrow> ms | None \<Rightarrow> [])"

definition native_capabilities :: "native_config \<Rightarrow> capabilities" where
  "native_capabilities c = aggregate_capabilities (native_models c) NATIVE_FALLBACK_CAPABILITIES"

definition make_native_adapter :: "nat \<Rightarrow> native_config \<Rightarrow> adapter" where
  "make_native_adapter obj c = \<lparr>
     ad_object = obj, ad_custom = False,
     ad_metadata = \<lparr>pm_id = nc_id c, pm_display_name = nc_display_name c, pm_protocol = PrNative,
       pm_credential_kind = nc_credential_kind c,
       pm_credential_url = (case nc_credential_url c of Some u \<Rightarrow> if u = [] then None else Some u | None \<Rightarrow> None),
       pm_credential_kinds = None\<rparr>,
     ad_capabilities = native_capabilities c, ad_models = native_models c,
     ad_get_model = catalog_get (native_models c),
     ad_resolve = resolve_target_of (nc_id c) (native_capabilities c) (catalog_get (native_models c))\<rparr>"

definition truthy_text :: "string option \<Rightarrow> string option" where
  "truthy_text v = (case v of Some s \<Rightarrow> if s = [] then None else Some s | None \<Rightarrow> None)"

definition native_headers :: "auth_scheme \<Rightarrow> string \<Rightarrow> bool \<Rightarrow> string option \<Rightarrow> headers" where
  "native_headers auth credential stream user_agent =
    [(''content-type'', ''application/json''),
     (''accept'', if stream then ''text/event-stream'' else ''application/json'')] @
    (case truthy_text user_agent of Some ua \<Rightarrow> [(''user-agent'', ua)] | None \<Rightarrow> []) @
    (if auth = AuthBearer \<and> 0 < length credential then [(''authorization'', ''Bearer '' @ credential)]
     else if auth = AuthApiKey \<and> 0 < length credential then [(''x-api-key'', credential)]
     else [])"

text \<open>What the adapter hands to \<open>callChatCompletionsWire\<close> or \<open>callResponsesWire\<close>.\<close>

record dispatch =
  di_url :: string
  di_headers :: headers

definition native_call ::
  "native_config \<Rightarrow> route_target \<Rightarrow> string \<Rightarrow> bool \<Rightarrow> string option \<Rightarrow> adapter_error + dispatch" where
  "native_call c target credential stream user_agent =
    (case assert_supported (nc_id c) (native_capabilities c) target stream of
       Some e \<Rightarrow> Inl e
     | None \<Rightarrow>
       (let auth = (case nc_auth c of Some a \<Rightarrow> a | None \<Rightarrow> AuthBearer);
            base = strip_slashes (nc_base_url c)
        in Inr \<lparr>di_url = base @ (if rt_surface target = SfResponses then ''/responses'' else ''/chat/completions''),
             di_headers = native_headers auth credential stream user_agent\<rparr>))"

subsection \<open>Custom providers\<close>

datatype custom_type = CtOpenai | CtAnthropic

record custom_provider =
  cp_id :: string
  cp_slug :: string
  cp_name :: string
  cp_type :: custom_type
  cp_base_url :: string
  cp_credential :: string
  cp_timeout_seconds :: rat
  cp_models :: "json list"
  cp_headers :: "(string \<times> string) list"
  cp_updated_at :: string

definition stored_model :: "capabilities \<Rightarrow> json \<Rightarrow> provider_model option" where
  "stored_model caps v =
    (case v of
       JStr s \<Rightarrow> if 0 < length s then Some (model_of s s caps no_seed) else None
     | _ \<Rightarrow> (case narrow_record (Some v) of
         None \<Rightarrow> None
       | Some fs \<Rightarrow> (case narrow_text (js_field fs ''id'') of
           None \<Rightarrow> None
         | Some mid \<Rightarrow>
             if mid = [] then None
             else Some (model_of mid (case narrow_text (js_field fs ''name'') of Some n \<Rightarrow> n
                 | None \<Rightarrow> (case narrow_text (js_field fs ''displayName'') of Some n \<Rightarrow> n | None \<Rightarrow> mid)) caps no_seed))))"

definition stored_models :: "capabilities \<Rightarrow> json list \<Rightarrow> provider_model list" where
  "stored_models caps vs = List.map_filter (stored_model caps) vs"

definition custom_catalog_get :: "provider_model list \<Rightarrow> capabilities \<Rightarrow> string \<Rightarrow> provider_model option" where
  "custom_catalog_get models caps model_id =
    Some (case catalog_get models model_id of Some m \<Rightarrow> m | None \<Rightarrow> model_of model_id model_id caps no_seed)"

definition custom_fallback :: "custom_type \<Rightarrow> capabilities" where
  "custom_fallback ty = capabilities_of (surfaces_seed [if ty = CtAnthropic then SfMessages else SfChat])"

definition custom_models :: "custom_provider \<Rightarrow> provider_model list" where
  "custom_models r = stored_models (custom_fallback (cp_type r)) (cp_models r)"

definition custom_capabilities :: "custom_provider \<Rightarrow> capabilities" where
  "custom_capabilities r = aggregate_capabilities (custom_models r) (custom_fallback (cp_type r))"

definition custom_adapter :: "nat \<Rightarrow> custom_provider \<Rightarrow> adapter" where
  "custom_adapter obj r =
    (let get = custom_catalog_get (custom_models r) (custom_fallback (cp_type r))
     in \<lparr>ad_object = obj, ad_custom = True,
         ad_metadata = \<lparr>pm_id = cp_slug r, pm_display_name = cp_name r,
           pm_protocol = (if cp_type r = CtAnthropic then PrAnthropic else PrOpenai),
           pm_credential_kind = CkApiKey, pm_credential_url = None, pm_credential_kinds = None\<rparr>,
         ad_capabilities = custom_capabilities r, ad_models = custom_models r, ad_get_model = get,
         ad_resolve = resolve_target_of (cp_slug r) (custom_capabilities r) get\<rparr>)"

definition BLOCKED_CUSTOM_HEADERS :: "string list" where
  "BLOCKED_CUSTOM_HEADERS = [''host'', ''authorization'', ''cookie'', ''set-cookie'', ''x-forwarded-for'',
     ''x-forwarded-host'', ''x-forwarded-proto'', ''x-real-ip'', ''origin'', ''referer'', ''content-length'',
     ''transfer-encoding'', ''connection'']"

definition has_line_break :: "string \<Rightarrow> bool" where
  "has_line_break s \<longleftrightarrow> CHR 0x0D \<in> set s \<or> CHR 0x0A \<in> set s"

text \<open>Assigning a string to \<open>headers.__proto__\<close> has no effect.\<close>

definition put_custom_header :: "string \<times> string \<Rightarrow> headers \<Rightarrow> headers" where
  "put_custom_header h hs =
    (let name = fst h; value = snd h; lower = to_lower name
     in if name = [] \<or> lower \<in> set BLOCKED_CUSTOM_HEADERS then hs
        else if has_line_break name \<or> has_line_break value then hs
        else if lower = ''__proto__'' then hs
        else jm_set lower value hs)"

definition custom_base_headers :: "custom_provider \<Rightarrow> string \<Rightarrow> bool \<Rightarrow> string option \<Rightarrow> headers" where
  "custom_base_headers r credential stream user_agent =
    [(''content-type'', ''application/json''),
     (''accept'', if stream then ''text/event-stream'' else ''application/json'')] @
    (if cp_type r = CtAnthropic then [(''x-api-key'', credential), (''anthropic-version'', ''2023-06-01'')]
     else [(''authorization'', ''Bearer '' @ credential)]) @
    (case truthy_text user_agent of Some ua \<Rightarrow> [(''user-agent'', ua)] | None \<Rightarrow> [])"

definition custom_headers :: "custom_provider \<Rightarrow> string \<Rightarrow> bool \<Rightarrow> string option \<Rightarrow> headers" where
  "custom_headers r credential stream user_agent =
     fold put_custom_header (cp_headers r) (custom_base_headers r credential stream user_agent)"

text \<open>
  The call up to its request. \<open>current\<close> is the record the slug has now; a rejected URL is thrown as the
  guard's own error.
\<close>

record custom_dispatch =
  cd_url :: string
  cd_headers :: headers
  cd_total_timeout_ms :: rat

datatype custom_failure = CfAdapter adapter_error | CfUnsafe ssrf_error

definition custom_call ::
  "(string \<Rightarrow> url option) \<Rightarrow> (string \<Rightarrow> string list) \<Rightarrow> custom_provider \<Rightarrow> custom_provider option \<Rightarrow>
   route_target \<Rightarrow> string \<Rightarrow> bool \<Rightarrow> string option \<Rightarrow> rat \<Rightarrow> custom_failure + custom_dispatch" where
  "custom_call parse_url lookup own current target credential stream user_agent total_ms =
    (case assert_supported (cp_slug own) (custom_capabilities own) target stream of
       Some e \<Rightarrow> Inl (CfAdapter e)
     | None \<Rightarrow>
       (case current of
          None \<Rightarrow> Inl (CfAdapter (adapter_fail InvalidRequest
             (''Custom provider '' @ quoted (cp_slug own) @ '' no longer exists.'') (Some (Some 404)) None (Some ScProvider)))
        | Some r \<Rightarrow>
          (let url = strip_slashes (cp_base_url r) @ ''/'' @
             (if cp_type r = CtAnthropic then ''messages'' else ''chat/completions'')
           in case assert_public_url_at_dispatch parse_url lookup None url of
                Inl e \<Rightarrow> Inl (CfUnsafe e)
              | Inr u \<Rightarrow> Inr \<lparr>cd_url = url, cd_headers = custom_headers r credential stream user_agent,
                  cd_total_timeout_ms = min total_ms (max 1 (cp_timeout_seconds r) * 1000)\<rparr>)))"

subsection \<open>The registry\<close>

type_synonym registry = "(string, adapter) js_map"

definition register :: "adapter \<Rightarrow> registry \<Rightarrow> adapter_error + registry" where
  "register a reg =
    (case jm_get reg (ad_id a) of
       Some existing \<Rightarrow>
         if ad_object existing \<noteq> ad_object a
         then Inl (adapter_fail InternalError (''Provider '' @ quoted (ad_id a) @ '' is already registered'') None None None)
         else Inr (jm_set (ad_id a) a reg)
     | None \<Rightarrow> Inr (jm_set (ad_id a) a reg))"

definition registry_get :: "registry \<Rightarrow> string \<Rightarrow> adapter option" where
  "registry_get reg provider_id = jm_get reg provider_id"

definition unregister :: "string \<Rightarrow> registry \<Rightarrow> bool \<times> registry" where
  "unregister provider_id reg = (jm_has reg provider_id, jm_delete provider_id reg)"

definition registry_list :: "registry \<Rightarrow> adapter list" where
  "registry_list reg = map snd reg"

definition supported_surfaces :: "registry \<Rightarrow> surface list" where
  "supported_surfaces reg = fold (\<lambda>a. add_surfaces (cap_surfaces (ad_capabilities a))) (registry_list reg) []"

definition translates :: "surface \<Rightarrow> adapter \<Rightarrow> bool" where
  "translates s a \<longleftrightarrow> wire_surface_for (ad_metadata a) (ad_capabilities a) s \<noteq> None"

definition no_adapter :: "surface \<Rightarrow> adapter_error" where
  "no_adapter s = unsupported (''No provider adapter supports surface '' @ quoted (surface_name s))"

definition adapter_for :: "registry \<Rightarrow> string \<Rightarrow> surface \<Rightarrow> adapter_error + adapter" where
  "adapter_for reg model_id s =
    (let declaring = filter (translates s) (registry_list reg);
         known = filter (\<lambda>a. ad_get_model a model_id \<noteq> None) declaring
     in case known @ declaring of [] \<Rightarrow> Inl (no_adapter s) | pick # _ \<Rightarrow> Inr pick)"

definition registry_resolve_target :: "registry \<Rightarrow> string \<Rightarrow> surface \<Rightarrow> adapter_error + route_target" where
  "registry_resolve_target reg model_id s =
    (case adapter_for reg model_id s of
       Inl e \<Rightarrow> Inl e
     | Inr a \<Rightarrow> (case wire_surface_for (ad_metadata a) (ad_capabilities a) s of
         None \<Rightarrow> Inl (adapter_fail CapabilityUnsupported
           (''Provider '' @ quoted (ad_id a) @ '' cannot translate surface '' @ quoted (surface_name s))
           (Some (Some 400)) None (Some ScProvider))
       | Some wire \<Rightarrow> ad_resolve a model_id wire))"

text \<open>
  \<open>syncCustomAdapters\<close>. \<open>obj\<close> is the identity of the next new object. The first loop stops at the
  first error.
\<close>

fun sync_register :: "nat \<Rightarrow> custom_provider list \<Rightarrow> registry \<Rightarrow> adapter_error + registry" where
  "sync_register obj [] reg = Inr reg"
| "sync_register obj (r # rs) reg =
     (case registry_get reg (cp_slug r) of
        Some existing \<Rightarrow>
          if \<not> ad_custom existing then sync_register obj rs reg
          else (case register (custom_adapter obj r) (snd (unregister (cp_slug r) reg)) of
                  Inl e \<Rightarrow> Inl e | Inr reg' \<Rightarrow> sync_register (Suc obj) rs reg')
      | None \<Rightarrow> (case register (custom_adapter obj r) reg of
                  Inl e \<Rightarrow> Inl e | Inr reg' \<Rightarrow> sync_register (Suc obj) rs reg'))"

definition sync_unregister :: "string list \<Rightarrow> registry \<Rightarrow> registry" where
  "sync_unregister live reg =
     fold (\<lambda>a reg. if ad_custom a \<and> ad_id a \<notin> set live then snd (unregister (ad_id a) reg) else reg)
       (registry_list reg) reg"

definition sync_custom_adapters :: "nat \<Rightarrow> custom_provider list \<Rightarrow> registry \<Rightarrow> adapter_error + registry" where
  "sync_custom_adapters obj records reg =
    (case sync_register obj records reg of
       Inl e \<Rightarrow> Inl e
     | Inr reg' \<Rightarrow> Inr (sync_unregister (map cp_slug records) reg'))"

subsection \<open>Surfaces and targets\<close>

lemma wire_surface_supported:
  "wire_surface_for md caps s = Some w \<Longrightarrow> w \<in> set (cap_surfaces caps)"
  by (auto simp: wire_surface_for_def Let_def split: if_splits)

lemma wire_surface_native: "s \<in> set (cap_surfaces caps) \<Longrightarrow> wire_surface_for md caps s = Some s"
  by (auto simp: wire_surface_for_def Let_def)

lemma set_add_surfaces: "set (add_surfaces new acc) = set acc \<union> set new"
  unfolding add_surfaces_def by (induction new arbitrary: acc) auto

lemma distinct_add_surfaces: "distinct acc \<Longrightarrow> distinct (add_surfaces new acc)"
  unfolding add_surfaces_def by (induction new arbitrary: acc) auto

lemma aggregate_surfaces:
  "models \<noteq> [] \<Longrightarrow> set (cap_surfaces (aggregate_capabilities models fallback)) =
     (\<Union>m \<in> set models. set (cap_surfaces (pmod_capabilities m)))"
proof -
  have "set (cap_surfaces (fold (\<lambda>m. join_capabilities (pmod_capabilities m)) models acc)) =
      set (cap_surfaces acc) \<union> (\<Union>m \<in> set models. set (cap_surfaces (pmod_capabilities m)))" for acc
    by (induction models arbitrary: acc) (auto simp: join_capabilities_def set_add_surfaces)
  then show "models \<noteq> [] \<Longrightarrow> ?thesis" by (simp add: aggregate_capabilities_def no_capabilities_def)
qed

lemma aggregate_streaming:
  "models \<noteq> [] \<Longrightarrow> cap_streaming (aggregate_capabilities models fallback) \<longleftrightarrow>
     (\<exists>m \<in> set models. cap_streaming (pmod_capabilities m))"
proof -
  have "cap_streaming (fold (\<lambda>m. join_capabilities (pmod_capabilities m)) models acc) \<longleftrightarrow>
      cap_streaming acc \<or> (\<exists>m \<in> set models. cap_streaming (pmod_capabilities m))" for acc
    by (induction models arbitrary: acc) (auto simp: join_capabilities_def)
  then show "models \<noteq> [] \<Longrightarrow> ?thesis" by (simp add: aggregate_capabilities_def no_capabilities_def)
qed

text \<open>The contract of an adapter's \<open>resolveTarget\<close>, which both factories meet.\<close>

definition adapter_ok :: "adapter \<Rightarrow> bool" where
  "adapter_ok a \<longleftrightarrow> (\<forall>mid s. ad_resolve a mid s = resolve_target_of (ad_id a) (ad_capabilities a) (ad_get_model a) mid s)"

lemma native_adapter_ok [simp, intro]: "adapter_ok (make_native_adapter obj c)"
  by (simp add: adapter_ok_def make_native_adapter_def)

lemma custom_adapter_ok [simp, intro]: "adapter_ok (custom_adapter obj r)"
  by (simp add: adapter_ok_def custom_adapter_def Let_def)

lemma adapter_ok_resolves:
  assumes "adapter_ok a" and "wire_surface_for (ad_metadata a) (ad_capabilities a) s = Some w"
  shows "\<exists>up. ad_resolve a mid w = Inr \<lparr>rt_provider_id = ad_id a, rt_model_id = mid, rt_upstream_model_id = up, rt_surface = w\<rparr>"
  using assms wire_surface_supported [OF assms(2)] by (simp add: adapter_ok_def resolve_target_of_def)

lemma resolved_is_supported:
  assumes "adapter_ok a" and "ad_resolve a mid w = Inr t" and "stream \<longrightarrow> cap_streaming (ad_capabilities a)"
  shows "assert_supported (ad_id a) (ad_capabilities a) t stream = None"
  using assms by (auto simp: adapter_ok_def resolve_target_of_def assert_supported_def split: if_splits)

lemma adapter_for_translates:
  assumes "adapter_for reg mid s = Inr a"
  shows "a \<in> set (registry_list reg) \<and> translates s a"
proof -
  let ?d = "filter (translates s) (registry_list reg)"
  let ?k = "filter (\<lambda>a. ad_get_model a mid \<noteq> None) ?d"
  from assms obtain rest where "?k @ ?d = a # rest"
    by (auto simp: adapter_for_def Let_def split: list.splits)
  then have "a \<in> set (?k @ ?d)" by simp
  then show ?thesis by auto
qed

lemma adapter_for_Inl: "adapter_for reg mid s = Inl e \<Longrightarrow> filter (translates s) (registry_list reg) = []"
  by (auto simp: adapter_for_def Let_def split: list.splits)

lemma adapter_for_prefers_known:
  assumes "adapter_for reg mid s = Inr a" and "ad_get_model a mid = None"
  shows "\<forall>b \<in> set (registry_list reg). translates s b \<longrightarrow> ad_get_model b mid = None"
proof (rule ccontr)
  let ?d = "filter (translates s) (registry_list reg)"
  let ?k = "filter (\<lambda>a. ad_get_model a mid \<noteq> None) ?d"
  assume "\<not> ?thesis"
  then have "?k \<noteq> []" by (auto simp: filter_empty_conv)
  then obtain x xs where k: "?k = x # xs" by (cases ?k) auto
  then have "x \<in> set ?k" by simp
  then have "ad_get_model x mid \<noteq> None" by auto
  moreover have "a = x" using assms(1) k by (simp add: adapter_for_def Let_def)
  ultimately show False using assms(2) by simp
qed

text \<open>
  Target resolution of the registry is exact: when some registered adapter can serve the
  client's surface, directly or translated, the model gets a target, which names such a provider,
  keeps the model id and carries a wire surface this provider supports; a provider that does not
  know the model is chosen only when none does. When no adapter can serve the surface, the
  resolution fails with the unsupported-capability error.
\<close>

theorem registry_target_exact:
  assumes "\<forall>a \<in> set (registry_list reg). adapter_ok a"
  shows "case registry_resolve_target reg mid s of
      Inl e \<Rightarrow> e = no_adapter s \<and> (\<forall>a \<in> set (registry_list reg). \<not> translates s a)
    | Inr t \<Rightarrow> \<exists>a \<in> set (registry_list reg). rt_provider_id t = ad_id a \<and> rt_model_id t = mid \<and>
        wire_surface_for (ad_metadata a) (ad_capabilities a) s = Some (rt_surface t) \<and>
        rt_surface t \<in> set (cap_surfaces (ad_capabilities a)) \<and>
        (ad_get_model a mid \<noteq> None \<or> (\<forall>b \<in> set (registry_list reg). translates s b \<longrightarrow> ad_get_model b mid = None))"
proof (cases "adapter_for reg mid s")
  case (Inl e)
  then have "e = no_adapter s" by (auto simp: adapter_for_def Let_def split: list.splits)
  then show ?thesis using Inl adapter_for_Inl [OF Inl]
    by (simp add: registry_resolve_target_def filter_empty_conv)
next
  case (Inr a)
  then have a: "a \<in> set (registry_list reg)" "translates s a" using adapter_for_translates by auto
  then obtain w where w: "wire_surface_for (ad_metadata a) (ad_capabilities a) s = Some w"
    by (auto simp: translates_def)
  have "adapter_ok a" using a(1) assms by blast
  from adapter_ok_resolves [OF this w, of mid] obtain up where
    "ad_resolve a mid w = Inr \<lparr>rt_provider_id = ad_id a, rt_model_id = mid, rt_upstream_model_id = up, rt_surface = w\<rparr>" ..
  then show ?thesis
    using a w wire_surface_supported [OF w] adapter_for_prefers_known [OF Inr]
    by (auto simp: registry_resolve_target_def Inr intro!: bexI [of _ a])
qed

definition sample_custom :: custom_provider where
  "sample_custom = \<lparr>cp_id = ''1'', cp_slug = ''acme'', cp_name = ''Acme'', cp_type = CtAnthropic,
     cp_base_url = ''https://a.io/v1/'', cp_credential = ''k'', cp_timeout_seconds = 30,
     cp_models = [JStr ''m''], cp_headers = [(''X-Org'', ''7'')], cp_updated_at = ''t''\<rparr>"

theorem registry_target_exact_witness:
  "registry_resolve_target [(''acme'', custom_adapter 0 sample_custom)] ''m'' SfChat =
     Inr \<lparr>rt_provider_id = ''acme'', rt_model_id = ''m'', rt_upstream_model_id = ''m'', rt_surface = SfMessages\<rparr> \<and>
   translates SfChat (custom_adapter 0 sample_custom)"
proof -
  let ?reg = "[(''acme'', custom_adapter 0 sample_custom)]"
  have ok: "\<forall>a \<in> set (registry_list ?reg). adapter_ok a" by (simp add: registry_list_def)
  have "registry_resolve_target ?reg ''m'' SfChat =
     Inr \<lparr>rt_provider_id = ''acme'', rt_model_id = ''m'', rt_upstream_model_id = ''m'', rt_surface = SfMessages\<rparr>"
    by code_simp
  then show ?thesis using registry_target_exact [OF ok, where mid = "''m''" and s = SfChat] by (auto simp: registry_list_def translates_def)
qed

subsection \<open>Synchronising the custom providers\<close>

definition registry_ok :: "registry \<Rightarrow> bool" where
  "registry_ok reg \<longleftrightarrow> jm_wf reg \<and> (\<forall>(k, a) \<in> set reg. k = ad_id a)"

lemma registry_ok_Nil [simp, intro]: "registry_ok []"
  by (simp add: registry_ok_def)

lemma registry_ok_set: "registry_ok reg \<Longrightarrow> registry_ok (jm_set (ad_id a) a reg)"
  by (auto simp: registry_ok_def set_jm_set)

lemma registry_ok_delete: "registry_ok reg \<Longrightarrow> registry_ok (jm_delete k reg)"
  by (auto simp: registry_ok_def set_jm_delete)

lemma register_ok: "registry_ok reg \<Longrightarrow> register a reg = Inr reg' \<Longrightarrow> registry_ok reg'"
  by (auto simp: register_def registry_ok_set split: option.splits if_splits)

lemma registry_get_id: "registry_ok reg \<Longrightarrow> registry_get reg k = Some a \<Longrightarrow> ad_id a = k"
  by (force simp: registry_ok_def registry_get_def dest: jm_get_SomeD)

lemma custom_adapter_simps [simp]:
  "ad_id (custom_adapter obj r) = cp_slug r" "ad_custom (custom_adapter obj r)" "ad_object (custom_adapter obj r) = obj"
  by (simp_all add: custom_adapter_def Let_def)

text \<open>An adapter without its identity, and what the registry has to hold for an id.\<close>

definition adapter_view :: "adapter \<Rightarrow> adapter" where
  "adapter_view a = a\<lparr>ad_object := 0\<rparr>"

lemma custom_adapter_view [simp]: "adapter_view (custom_adapter obj r) = custom_adapter 0 r"
  by (simp add: adapter_view_def custom_adapter_def Let_def)

definition last_record :: "custom_provider list \<Rightarrow> string \<Rightarrow> custom_provider option" where
  "last_record records slug = map_of (map (\<lambda>r. (cp_slug r, r)) (rev records)) slug"

definition configured :: "registry \<Rightarrow> custom_provider list \<Rightarrow> string \<Rightarrow> adapter option" where
  "configured reg records pid =
    (case registry_get reg pid of
       Some a \<Rightarrow> if ad_custom a then map_option (custom_adapter 0) (last_record records pid) else Some (adapter_view a)
     | None \<Rightarrow> map_option (custom_adapter 0) (last_record records pid))"

lemma last_record_snoc: "last_record (rs @ [r]) pid = (if pid = cp_slug r then Some r else last_record rs pid)"
  by (simp add: last_record_def)

lemma last_record_None: "last_record rs pid = None \<longleftrightarrow> pid \<notin> cp_slug ` set rs"
  by (force simp: last_record_def map_of_eq_None_iff)

text \<open>One step of the first loop replaces the entry of the record, unless a built-in adapter has its slug.\<close>

definition put_custom :: "nat \<Rightarrow> custom_provider \<Rightarrow> registry \<Rightarrow> registry" where
  "put_custom obj r reg =
    (case registry_get reg (cp_slug r) of
       Some a \<Rightarrow> if ad_custom a then jm_set (cp_slug r) (custom_adapter obj r) (jm_delete (cp_slug r) reg) else reg
     | None \<Rightarrow> jm_set (cp_slug r) (custom_adapter obj r) reg)"

lemma sync_register_step:
  "\<exists>obj'. sync_register obj (r # rs) reg = sync_register obj' rs (put_custom obj r reg)"
  by (cases "registry_get reg (cp_slug r)")
    (auto simp: put_custom_def register_def unregister_def registry_get_def)

lemma put_custom_ok: "registry_ok reg \<Longrightarrow> registry_ok (put_custom obj r reg)"
  using registry_ok_set [of reg "custom_adapter obj r"]
    registry_ok_set [of "jm_delete (cp_slug r) reg" "custom_adapter obj r"]
  by (auto simp: put_custom_def registry_ok_delete split: option.split)

lemma put_custom_get:
  "registry_get (put_custom obj r reg) pid =
     (if pid = cp_slug r \<and> (\<forall>a. registry_get reg pid = Some a \<longrightarrow> ad_custom a) then Some (custom_adapter obj r)
      else registry_get reg pid)"
  by (auto simp: put_custom_def registry_get_def split: option.split)

text \<open>Entry by entry, the first loop never fails and installs the last record of each slug.\<close>

lemma sync_register_view:
  assumes "registry_ok reg"
  shows "\<exists>reg'. sync_register obj rs reg = Inr reg' \<and> registry_ok reg' \<and>
    (\<forall>pid. map_option adapter_view (registry_get reg' pid) =
       (case registry_get reg pid of
          Some a \<Rightarrow> if ad_custom a \<and> pid \<in> cp_slug ` set rs then map_option (custom_adapter 0) (last_record rs pid)
                    else Some (adapter_view a)
        | None \<Rightarrow> map_option (custom_adapter 0) (last_record rs pid)))"
  using assms
proof (induction rs arbitrary: obj reg)
  case Nil
  then show ?case by (auto simp: last_record_def split: option.split)
next
  case (Cons r rs)
  obtain obj' where step: "sync_register obj (r # rs) reg = sync_register obj' rs (put_custom obj r reg)"
    using sync_register_step by blast
  have last: "last_record (r # rs) pid = (case last_record rs pid of Some x \<Rightarrow> Some x
      | None \<Rightarrow> if pid = cp_slug r then Some r else None)" for pid
    by (auto simp: last_record_def map_add_def split: option.split)
  from Cons.IH [OF put_custom_ok [OF Cons.prems], of obj' obj r] obtain reg' where reg':
    "sync_register obj' rs (put_custom obj r reg) = Inr reg'" "registry_ok reg'"
    and view: "\<And>pid. map_option adapter_view (registry_get reg' pid) =
       (case registry_get (put_custom obj r reg) pid of
          Some a \<Rightarrow> if ad_custom a \<and> pid \<in> cp_slug ` set rs then map_option (custom_adapter 0) (last_record rs pid)
                    else Some (adapter_view a)
        | None \<Rightarrow> map_option (custom_adapter 0) (last_record rs pid))" by blast
  have "map_option adapter_view (registry_get reg' pid) =
       (case registry_get reg pid of
          Some a \<Rightarrow> if ad_custom a \<and> pid \<in> cp_slug ` set (r # rs) then map_option (custom_adapter 0) (last_record (r # rs) pid)
                    else Some (adapter_view a)
        | None \<Rightarrow> map_option (custom_adapter 0) (last_record (r # rs) pid))" for pid
  proof (cases "last_record rs pid")
    case None
    then have "pid \<notin> cp_slug ` set rs" by (simp add: last_record_None)
    then show ?thesis using None
      by (cases "pid = cp_slug r"; cases "registry_get reg pid") (auto simp: view put_custom_get last)
  next
    case (Some x)
    then have "pid \<in> cp_slug ` set rs" using last_record_None [of rs pid] by auto
    then show ?thesis using Some
      by (cases "pid = cp_slug r"; cases "registry_get reg pid") (simp_all add: view put_custom_get last)
  qed
  then show ?case using reg' unfolding step by blast
qed

lemma delete_stale:
  assumes "registry_ok reg"
  shows "registry_ok (fold (\<lambda>a reg. if ad_custom a \<and> ad_id a \<notin> set live then snd (unregister (ad_id a) reg) else reg) as reg) \<and>
    registry_get (fold (\<lambda>a reg. if ad_custom a \<and> ad_id a \<notin> set live then snd (unregister (ad_id a) reg) else reg) as reg) pid =
     (if \<exists>a \<in> set as. ad_custom a \<and> ad_id a \<notin> set live \<and> ad_id a = pid then None else registry_get reg pid)"
  using assms
proof (induction as arbitrary: reg)
  case (Cons a as)
  let ?reg = "if ad_custom a \<and> ad_id a \<notin> set live then snd (unregister (ad_id a) reg) else reg"
  have "registry_ok ?reg" using Cons.prems by (simp add: unregister_def registry_ok_delete)
  from Cons.IH [OF this] show ?case by (auto simp: unregister_def registry_get_def)
qed simp

lemma sync_unregister_get:
  assumes "registry_ok reg"
  shows "registry_ok (sync_unregister live reg)"
    and "registry_get (sync_unregister live reg) pid =
      (case registry_get reg pid of Some a \<Rightarrow> if ad_custom a \<and> pid \<notin> set live then None else Some a | None \<Rightarrow> None)"
proof -
  have in_list: "(\<exists>a \<in> set (registry_list reg). ad_custom a \<and> ad_id a \<notin> set live \<and> ad_id a = pid) \<longleftrightarrow>
      (\<exists>a. registry_get reg pid = Some a \<and> ad_custom a \<and> pid \<notin> set live)"
  proof
    assume "\<exists>a \<in> set (registry_list reg). ad_custom a \<and> ad_id a \<notin> set live \<and> ad_id a = pid"
    then obtain k a where "(k, a) \<in> set reg" "ad_custom a" "ad_id a \<notin> set live" "ad_id a = pid"
      by (auto simp: registry_list_def)
    then show "\<exists>a. registry_get reg pid = Some a \<and> ad_custom a \<and> pid \<notin> set live"
      using assms by (auto simp: registry_ok_def registry_get_def jm_get_in_iff [symmetric])
  next
    assume "\<exists>a. registry_get reg pid = Some a \<and> ad_custom a \<and> pid \<notin> set live"
    then show "\<exists>a \<in> set (registry_list reg). ad_custom a \<and> ad_id a \<notin> set live \<and> ad_id a = pid"
      using registry_get_id [OF assms] by (force simp: registry_list_def registry_get_def dest: jm_get_SomeD)
  qed
  from delete_stale [OF assms] show "registry_ok (sync_unregister live reg)"
    by (simp add: sync_unregister_def)
  show "registry_get (sync_unregister live reg) pid =
      (case registry_get reg pid of Some a \<Rightarrow> if ad_custom a \<and> pid \<notin> set live then None else Some a | None \<Rightarrow> None)"
    using delete_stale [OF assms, of live "registry_list reg" pid] in_list
    by (auto simp: sync_unregister_def split: option.split)
qed

text \<open>
  C6: The reconciliation refines the declarative registry: whatever the registry held before and
  however often records repeat a slug, it never fails, and afterwards an id has its built-in adapter
  when there is one, else the adapter of the last configured record with that slug, and nothing else.
\<close>

theorem sync_implements_configuration:
  assumes "registry_ok reg"
  shows "\<exists>reg'. sync_custom_adapters obj records reg = Inr reg' \<and> registry_ok reg' \<and>
    (\<forall>pid. map_option adapter_view (registry_get reg' pid) = configured reg records pid)"
proof -
  from sync_register_view [OF assms, of obj records] obtain reg1 where reg1:
    "sync_register obj records reg = Inr reg1" "registry_ok reg1"
    and view: "\<And>pid. map_option adapter_view (registry_get reg1 pid) =
       (case registry_get reg pid of
          Some a \<Rightarrow> if ad_custom a \<and> pid \<in> cp_slug ` set records then map_option (custom_adapter 0) (last_record records pid)
                    else Some (adapter_view a)
        | None \<Rightarrow> map_option (custom_adapter 0) (last_record records pid))" by blast
  let ?reg = "sync_unregister (map cp_slug records) reg1"
  have "map_option adapter_view (registry_get ?reg pid) = configured reg records pid" for pid
  proof (cases "registry_get reg1 pid")
    case None
    then show ?thesis
      using view [of pid] last_record_None [of records pid] sync_unregister_get(2) [OF reg1(2), of "map cp_slug records" pid]
      by (auto simp: configured_def split: option.splits if_splits)
  next
    case (Some a)
    have "ad_custom (adapter_view x) = ad_custom x" for x by (simp add: adapter_view_def)
    then show ?thesis
      using Some view [of pid] last_record_None [of records pid] sync_unregister_get(2) [OF reg1(2), of "map cp_slug records" pid]
      by (auto simp: configured_def split: option.splits if_splits) (metis custom_adapter_simps(2))+
  qed
  then show ?thesis using reg1 sync_unregister_get(1) [OF reg1(2)] by (simp add: sync_custom_adapters_def)
qed

theorem sync_implements_configuration_witness:
  "\<exists>reg'. sync_custom_adapters 1 [sample_custom] [] = Inr reg' \<and>
     map_option adapter_view (registry_get reg' ''acme'') = Some (custom_adapter 0 sample_custom) \<and>
     registry_get reg' ''other'' = None"
proof -
  from sync_implements_configuration [OF registry_ok_Nil, of 1 "[sample_custom]"] obtain reg' where
    reg': "sync_custom_adapters 1 [sample_custom] [] = Inr reg'"
    "\<forall>pid. map_option adapter_view (registry_get reg' pid) = configured [] [sample_custom] pid" by blast
  have "configured [] [sample_custom] ''acme'' = Some (custom_adapter 0 sample_custom)"
    "configured [] [sample_custom] ''other'' = None"
    by (simp_all add: configured_def registry_get_def last_record_def) (simp_all add: sample_custom_def)
  then have "map_option adapter_view (registry_get reg' ''acme'') = Some (custom_adapter 0 sample_custom)"
    "map_option adapter_view (registry_get reg' ''other'') = None"
    using reg'(2) by simp_all
  then show ?thesis using reg'(1) by (intro exI [of _ reg']) simp
qed

subsection \<open>Headers and dispatch of custom providers\<close>

text \<open>The configured headers that reach the request under a name, and those the call always has.\<close>

definition admitted_headers :: "custom_provider \<Rightarrow> string \<Rightarrow> (string \<times> string) list" where
  "admitted_headers r name = filter (\<lambda>(n, v). to_lower n = name \<and> n \<noteq> [] \<and> name \<notin> set BLOCKED_CUSTOM_HEADERS \<and> name \<noteq> ''__proto__'' \<and>
     \<not> has_line_break n \<and> \<not> has_line_break v) (cp_headers r)"

lemma put_custom_header_get:
  "jm_get (put_custom_header h hs) name =
    (if to_lower (fst h) = name \<and> fst h \<noteq> [] \<and> name \<notin> set BLOCKED_CUSTOM_HEADERS \<and> name \<noteq> ''__proto__'' \<and>
        \<not> has_line_break (fst h) \<and> \<not> has_line_break (snd h) then Some (snd h) else jm_get hs name)"
proof -
  define proto where "proto = ''__proto__''"
  show ?thesis
    unfolding put_custom_header_def Let_def proto_def [symmetric] by auto
qed

lemma custom_headers_get:
  "jm_get (custom_headers r credential stream user_agent) name =
    (if admitted_headers r name = [] then jm_get (custom_base_headers r credential stream user_agent) name
     else Some (snd (last (admitted_headers r name))))"
proof -
  define ok where "ok = (\<lambda>h :: string \<times> string. to_lower (fst h) = name \<and> fst h \<noteq> [] \<and> name \<notin> set BLOCKED_CUSTOM_HEADERS \<and>
      name \<noteq> ''__proto__'' \<and> \<not> has_line_break (fst h) \<and> \<not> has_line_break (snd h))"
  have step: "jm_get (put_custom_header h hs) name = (if ok h then Some (snd h) else jm_get hs name)" for h hs
    unfolding ok_def by (rule put_custom_header_get)
  have "jm_get (fold put_custom_header cs hs) name = (if filter ok cs = [] then jm_get hs name else Some (snd (last (filter ok cs))))" for cs hs
    by (induction cs rule: rev_induct) (simp_all add: step)
  moreover have "admitted_headers r name = filter ok (cp_headers r)"
    unfolding admitted_headers_def ok_def by (rule filter_cong) (simp_all add: split_beta)
  ultimately show ?thesis by (simp add: custom_headers_def)
qed

lemma base_header_names:
  "jm_get (custom_base_headers r credential stream user_agent) name \<noteq> None \<Longrightarrow>
    name \<in> {''content-type'', ''accept'', ''x-api-key'', ''anthropic-version'', ''authorization'', ''user-agent''}"
  by (auto simp: custom_base_headers_def jm_get_def split: if_splits option.splits)

lemma base_blocked:
  assumes "name \<in> set BLOCKED_CUSTOM_HEADERS"
  shows "jm_get (custom_base_headers r credential stream user_agent) name =
    (if name = ''authorization'' \<and> cp_type r \<noteq> CtAnthropic then Some (''Bearer '' @ credential) else None)"
proof (cases "name = ''authorization''")
  case True
  then show ?thesis by (simp add: custom_base_headers_def jm_get_def split: option.splits)
next
  case False
  then have "name \<notin> {''content-type'', ''accept'', ''x-api-key'', ''anthropic-version'', ''authorization'', ''user-agent''}"
    using assms by (auto simp: BLOCKED_CUSTOM_HEADERS_def)
  note foreign = this
  have "jm_get (custom_base_headers r credential stream user_agent) name = None"
  proof (rule ccontr)
    assume "jm_get (custom_base_headers r credential stream user_agent) name \<noteq> None"
    from foreign base_header_names [OF this] show False by (rule notE)
  qed
  then show ?thesis using False by (simp only: simp_thms if_False)
qed

lemma admitted_blocked: "name \<in> set BLOCKED_CUSTOM_HEADERS \<Longrightarrow> admitted_headers r name = []"
  by (simp add: admitted_headers_def)

text \<open>
  C15: What an operator configures for a custom provider cannot change the request outside its
  limits. Every dispatched URL passes the public-address guard and the total time is at most the
  request's own limit. Of the headers the code protects (host, authorization, cookies, origin, forwarding,
  framing) the
  call sets none but the bearer token of an OpenAI-compatible provider. Any other header
  (but one named \<open>__proto__\<close>, which is lost) has the value of the last header configured under that very name, letter case aside, whose name and
  value have no line break, and the built-in value where there is none. The credential of an
  Anthropic-compatible provider, \<open>x-api-key\<close>, is not protected: it is the stored one unless a header of
  that name is configured (\<open>custom_header_replaces_api_key\<close> below).
\<close>

theorem custom_dispatch_confined:
  assumes "custom_call parse_url lookup own (Some r) target credential stream user_agent total_ms = Inr d"
  shows "(\<exists>u. assert_public_url_at_dispatch parse_url lookup None (cd_url d) = Inr u) \<and>
    cd_total_timeout_ms d \<le> total_ms \<and>
    (\<forall>name \<in> set BLOCKED_CUSTOM_HEADERS. jm_get (cd_headers d) name =
       (if name = ''authorization'' \<and> cp_type r \<noteq> CtAnthropic then Some (''Bearer '' @ credential) else None)) \<and>
    (\<forall>name. name \<notin> set BLOCKED_CUSTOM_HEADERS \<longrightarrow> jm_get (cd_headers d) name =
       (let configured = filter (\<lambda>(n, v). to_lower n = name \<and> n \<noteq> [] \<and> name \<noteq> ''__proto__'' \<and> \<not> has_line_break n \<and> \<not> has_line_break v)
              (cp_headers r)
        in if configured = [] then jm_get (custom_base_headers r credential stream user_agent) name else Some (snd (last configured)))) \<and>
    (cp_type r = CtAnthropic \<and> (\<forall>(n, v) \<in> set (cp_headers r). to_lower n \<noteq> ''x-api-key'') \<longrightarrow>
       jm_get (cd_headers d) ''x-api-key'' = Some credential)"
proof -
  from assms obtain u where u:
    "assert_public_url_at_dispatch parse_url lookup None (cd_url d) = Inr u"
    "cd_headers d = custom_headers r credential stream user_agent"
    "cd_total_timeout_ms d = min total_ms (max 1 (cp_timeout_seconds r) * 1000)"
    by (auto simp: custom_call_def Let_def split: option.splits sum.splits)
  have blocked: "\<forall>name \<in> set BLOCKED_CUSTOM_HEADERS. jm_get (cd_headers d) name =
       (if name = ''authorization'' \<and> cp_type r \<noteq> CtAnthropic then Some (''Bearer '' @ credential) else None)"
    by (simp add: u(2) custom_headers_get admitted_blocked base_blocked)
  have admitted: "filter (\<lambda>(n, v). to_lower n = name \<and> n \<noteq> [] \<and> name \<noteq> ''__proto__'' \<and> \<not> has_line_break n \<and> \<not> has_line_break v)
      (cp_headers r) = admitted_headers r name" if "name \<notin> set BLOCKED_CUSTOM_HEADERS" for name
    unfolding admitted_headers_def by (rule filter_cong) (simp_all add: that split_beta)
  have "jm_get (cd_headers d) ''x-api-key'' = Some credential"
    if "cp_type r = CtAnthropic" "\<forall>(n, v) \<in> set (cp_headers r). to_lower n \<noteq> ''x-api-key''"
  proof -
    have "admitted_headers r ''x-api-key'' = []"
      unfolding admitted_headers_def filter_empty_conv using that(2) by blast
    then have "jm_get (cd_headers d) ''x-api-key'' = jm_get (custom_base_headers r credential stream user_agent) ''x-api-key''"
      by (simp add: u(2) custom_headers_get)
    then show ?thesis using that(1) by (simp add: custom_base_headers_def jm_get_def)
  qed
  then show ?thesis
    using u(1,3) blocked by (auto simp: admitted custom_headers_get u(2) Let_def)
qed

lemma sample_custom_dispatched:
  "custom_call (\<lambda>u. Some sample_url) (\<lambda>h. []) sample_custom (Some sample_custom)
     \<lparr>rt_provider_id = ''acme'', rt_model_id = ''m'', rt_upstream_model_id = ''m'', rt_surface = SfMessages\<rparr> ''k'' True None 120000 =
   Inr \<lparr>cd_url = ''https://a.io/v1/messages'', cd_headers = custom_headers sample_custom ''k'' True None, cd_total_timeout_ms = 30000\<rparr>"
proof -
  have "assert_supported (cp_slug sample_custom) (custom_capabilities sample_custom)
     \<lparr>rt_provider_id = ''acme'', rt_model_id = ''m'', rt_upstream_model_id = ''m'', rt_surface = SfMessages\<rparr> True = None"
    by code_simp
  moreover have "strip_slashes (cp_base_url sample_custom) = ''https://a.io/v1''" by code_simp
  moreover have "assert_public_url_at_dispatch (\<lambda>u. Some sample_url) (\<lambda>h. []) None ''https://a.io/v1/messages'' = Inr sample_url"
    by (simp add: assert_public_url_at_dispatch_def assert_public_url_def sample_host sample_host_name sample_url_def
      DEFAULT_ALLOWED_PROTOCOLS_def MAX_SSRF_URL_LENGTH_def is_blocked_ip_def)
  moreover have "cp_type sample_custom = CtAnthropic" "cp_timeout_seconds sample_custom = 30"
    by (simp_all add: sample_custom_def)
  ultimately show ?thesis by (simp add: custom_call_def Let_def)
qed

theorem custom_dispatch_confined_witness:
  "30000 \<le> (120000 :: rat) \<and>
   (\<exists>u. assert_public_url_at_dispatch (\<lambda>u. Some sample_url) (\<lambda>h. []) None ''https://a.io/v1/messages'' = Inr u)"
proof -
  note confined = custom_dispatch_confined [OF sample_custom_dispatched]
  show ?thesis using conjunct1 [OF confined] conjunct1 [OF conjunct2 [OF confined]]
    by (simp only: custom_dispatch.simps simp_thms)
qed

text \<open>The credential header of the messages protocol is not among the protected ones.\<close>

lemma custom_header_replaces_api_key:
  "jm_get (custom_headers (sample_custom\<lparr>cp_headers := [(''X-Api-Key'', ''other'')]\<rparr>) ''k'' False None) ''x-api-key'' =
    Some ''other''"
  by code_simp

end
