(* ===== verification/RoutingSnapshot.thy ===== *)
theory RoutingSnapshot imports Registry Health OAuthCoordinator CredentialSelect ConsoleState begin

text \<open>
  From the configuration to the candidates of a request: the versioned snapshot of
  \<open>src/app/routing-snapshot.ts\<close> with its cache, the revision tracking around the repositories, the
  route resolver, the account candidates, the provider routing settings, the reactions to route
  outcomes and the request log line of \<open>src/app/composition.ts\<close>. The storage effect of a repository
  method is an argument; its wrapper is the code's. A snapshot is built in one step (the code has no
  await in it) and published in a later one.
\<close>

subsection \<open>The snapshot\<close>

record snapshot_account =
  sa_id :: string
  sa_provider_id :: string
  sa_kind :: credential_kind
  sa_active :: bool

record combo_row =
  cr_id :: string
  cr_name :: string
  cr_models :: "string list"
  cr_strategy :: string
  cr_sticky_limit :: int

record config_view =
  cv_aliases :: "(string \<times> string) list"
  cv_combos :: "combo_row list"
  cv_accounts :: "snapshot_account list"
  cv_custom :: "custom_provider list"
  cv_provider_models :: "(string \<times> string) list option"

record routing_snapshot =
  sn_revision :: nat
  sn_prefixes :: "(string, string) js_map"
  sn_aliases :: "(string, string) js_map"
  sn_combos :: "(string, combo_definition) js_map"
  sn_accounts :: "(string, snapshot_account list) js_map"
  sn_known :: "(string, string list) js_map"

definition model_prefix :: "string \<Rightarrow> string option" where
  "model_prefix model_id =
    (let pre = takeWhile (\<lambda>c. c \<noteq> slash) model_id
     in if slash \<in> set model_id \<and> pre \<noteq> [] then Some pre else None)"

definition add_model_prefix :: "string \<Rightarrow> string \<Rightarrow> (string, string) js_map \<Rightarrow> (string, string) js_map" where
  "add_model_prefix provider_id model_id m =
    (case model_prefix model_id of
       Some pre \<Rightarrow> if jm_has m pre then m else jm_set pre provider_id m
     | None \<Rightarrow> m)"

definition add_adapter_prefixes :: "adapter \<Rightarrow> (string, string) js_map \<Rightarrow> (string, string) js_map" where
  "add_adapter_prefixes a m =
    (let m1 = jm_set (ad_id a) (ad_id a) m;
         m2 = (if ad_id a = ''opencodeft'' then jm_set ''opencode'' (ad_id a) m1 else m1)
     in fold (\<lambda>x. add_model_prefix (ad_id a) (pmod_id x)) (ad_models a) m2)"

definition provider_model_ids :: "(string \<times> string) list \<Rightarrow> string \<Rightarrow> string list" where
  "provider_model_ids rows provider = map snd (filter (\<lambda>r. fst r = provider) rows)"

definition add_stored_models ::
  "(string \<times> string) list \<Rightarrow> adapter \<Rightarrow> (string, string) js_map \<times> (string, string list) js_map \<Rightarrow>
   (string, string) js_map \<times> (string, string list) js_map" where
  "add_stored_models rows a acc =
    (let ids = provider_model_ids rows (ad_id a)
     in (fold (add_model_prefix (ad_id a)) ids (fst acc),
         if ids \<noteq> [] then jm_set (ad_id a) (remdups ids) (snd acc) else snd acc))"

definition build_prefixes ::
  "adapter list \<Rightarrow> (string \<times> string) list option \<Rightarrow> (string, string) js_map \<times> (string, string list) js_map" where
  "build_prefixes adapters rows =
    (let m = fold add_adapter_prefixes adapters []
     in case rows of None \<Rightarrow> (m, []) | Some rs \<Rightarrow> fold (add_stored_models rs) adapters (m, []))"

definition combo_of_row :: "combo_row \<Rightarrow> combo_definition" where
  "combo_of_row r = \<lparr>co_id = cr_id r, co_models = cr_models r,
     co_strategy = (if cr_strategy r = ''round-robin'' then RoundRobin else Fallback),
     co_sticky_limit = cr_sticky_limit r\<rparr>"

definition group_account ::
  "snapshot_account \<Rightarrow> (string, snapshot_account list) js_map \<Rightarrow> (string, snapshot_account list) js_map" where
  "group_account row m =
    jm_set (sa_provider_id row) ((case jm_get m (sa_provider_id row) of Some rows \<Rightarrow> rows | None \<Rightarrow> []) @ [row]) m"

definition custom_rows ::
  "custom_provider \<Rightarrow> (string, snapshot_account list) js_map \<Rightarrow> (string, snapshot_account list) js_map" where
  "custom_rows c m =
    (case jm_get m (cp_slug c) of
       Some (r # rs) \<Rightarrow> jm_set (cp_slug c) (map (\<lambda>row. row\<lparr>sa_active := True\<rparr>) (r # rs)) m
     | _ \<Rightarrow> jm_set (cp_slug c) [\<lparr>sa_id = ''custom:'' @ cp_slug c, sa_provider_id = cp_slug c,
              sa_kind = CkApiKey, sa_active = True\<rparr>] m)"

definition build_snapshot :: "config_view \<Rightarrow> registry \<Rightarrow> nat \<Rightarrow> routing_snapshot" where
  "build_snapshot cfg reg revision =
    (let (prefixes, known) = build_prefixes (registry_list reg) (cv_provider_models cfg)
     in \<lparr>sn_revision = revision, sn_prefixes = prefixes,
         sn_aliases = fold (\<lambda>(a, m). jm_set a m) (cv_aliases cfg) [],
         sn_combos = fold (\<lambda>r. jm_set (cr_name r) (combo_of_row r)) (cv_combos cfg) [],
         sn_accounts = fold custom_rows (cv_custom cfg) (fold group_account (cv_accounts cfg) []),
         sn_known = known\<rparr>)"

subsection \<open>Revision tracking and the cache\<close>

record routing_state =
  ro_config :: config_view
  ro_registry :: registry
  ro_revision :: nat
  ro_pool_invalidations :: nat
  ro_next_object :: nat
  ro_cached :: "routing_snapshot option"
  ro_pending :: "routing_snapshot list"

datatype tracked_method =
  AliasUpsert | AliasDelete | ComboUpsert | ComboDelete |
  ProxyCreate | ProxyPatch | ProxyDelete | ProxyPatchSettings |
  AccountCreate | AccountPatch | AccountDelete |
  CustomUpsert | CustomDelete | CustomUpdateModels |
  ProviderModelUpsert | ProviderModelDelete

text \<open>The storage effect: the new rows, and whether a row was found.\<close>

type_synonym storage_effect = "config_view \<Rightarrow> config_view \<times> bool"

definition sync_state :: "routing_state \<Rightarrow> routing_state" where
  "sync_state s =
    (case sync_custom_adapters (ro_next_object s) (cv_custom (ro_config s)) (ro_registry s) of
       Inl e \<Rightarrow> s
     | Inr reg \<Rightarrow> s\<lparr>ro_registry := reg, ro_next_object := ro_next_object s + length (cv_custom (ro_config s))\<rparr>)"

definition bump :: "routing_state \<Rightarrow> routing_state" where
  "bump s = s\<lparr>ro_revision := Suc (ro_revision s)\<rparr>"

definition invalidate_proxy_cache :: "routing_state \<Rightarrow> routing_state" where
  "invalidate_proxy_cache s = s\<lparr>ro_pool_invalidations := Suc (ro_pool_invalidations s)\<rparr>"

definition run_tracked :: "tracked_method \<Rightarrow> storage_effect \<Rightarrow> routing_state \<Rightarrow> routing_state" where
  "run_tracked method effect s =
    (let (cfg, found) = effect (ro_config s); s1 = s\<lparr>ro_config := cfg\<rparr>
     in if method \<in> {ProxyCreate, ProxyPatch, ProxyDelete, ProxyPatchSettings} then invalidate_proxy_cache (bump s1)
        else if method = CustomUpsert then sync_state (bump s1)
        else if method \<in> {CustomDelete, CustomUpdateModels} then (if found then sync_state (bump s1) else s1)
        else bump s1)"

text \<open>The batch methods of the account repository are not wrapped.\<close>

definition account_delete_batch :: "string list \<Rightarrow> config_view \<Rightarrow> config_view" where
  "account_delete_batch ids cfg =
    (if ids = [] then cfg else cfg\<lparr>cv_accounts := filter (\<lambda>r. sa_id r \<notin> set ids) (cv_accounts cfg)\<rparr>)"

definition account_set_active_batch :: "string list \<Rightarrow> bool \<Rightarrow> config_view \<Rightarrow> config_view" where
  "account_set_active_batch ids active cfg =
    (if ids = [] then cfg
     else cfg\<lparr>cv_accounts := map (\<lambda>r. if sa_id r \<in> set ids then r\<lparr>sa_active := active\<rparr> else r) (cv_accounts cfg)\<rparr>)"

definition run_untracked :: "(config_view \<Rightarrow> config_view) \<Rightarrow> routing_state \<Rightarrow> routing_state" where
  "run_untracked f s = s\<lparr>ro_config := f (ro_config s)\<rparr>"

text \<open>\<open>get()\<close> up to its await: the cached snapshot, or a new one that is still to be published.\<close>

definition snapshot_get :: "routing_state \<Rightarrow> routing_snapshot \<times> routing_state" where
  "snapshot_get s =
    (case ro_cached s of
       Some c \<Rightarrow>
         if sn_revision c = ro_revision s then (c, s)
         else (let n = build_snapshot (ro_config s) (ro_registry s) (ro_revision s)
               in (n, s\<lparr>ro_pending := ro_pending s @ [n]\<rparr>))
     | None \<Rightarrow>
         (let n = build_snapshot (ro_config s) (ro_registry s) (ro_revision s)
          in (n, s\<lparr>ro_pending := ro_pending s @ [n]\<rparr>)))"

text \<open>The rest of \<open>get()\<close>, for the lookup that built the snapshot at this place of the queue.\<close>

definition snapshot_publish :: "nat \<Rightarrow> routing_state \<Rightarrow> routing_state" where
  "snapshot_publish i s =
    (if i < length (ro_pending s)
     then s\<lparr>ro_cached := Some (ro_pending s ! i), ro_pending := take i (ro_pending s) @ drop (Suc i) (ro_pending s)\<rparr>
     else s)"

datatype routing_event = EvTracked tracked_method storage_effect | EvLookup | EvPublish nat

definition routing_step :: "routing_event \<Rightarrow> routing_state \<Rightarrow> routing_state" where
  "routing_step ev s =
    (case ev of
       EvTracked method effect \<Rightarrow> run_tracked method effect s
     | EvLookup \<Rightarrow> snd (snapshot_get s)
     | EvPublish i \<Rightarrow> snapshot_publish i s)"

subsection \<open>Candidates of a request\<close>

record route_plan =
  rp_affinity :: affinity_key
  rp_candidates :: "route_candidate list"
  rp_requested_model :: string

definition snapshot_reference :: "routing_snapshot \<Rightarrow> reference_config" where
  "snapshot_reference sn = \<lparr>cf_prefixes = sn_prefixes sn, cf_aliases = sn_aliases sn, cf_combos = sn_combos sn\<rparr>"

definition stored_known :: "routing_snapshot \<Rightarrow> string \<Rightarrow> string \<Rightarrow> bool" where
  "stored_known sn provider_id model_id =
    (case jm_get (sn_known sn) provider_id of Some ids \<Rightarrow> model_id \<in> set ids | None \<Rightarrow> False)"

definition candidate_for :: "string \<Rightarrow> string \<Rightarrow> surface \<Rightarrow> route_candidate" where
  "candidate_for provider_id model_id s = \<lparr>rc_id = provider_id @ ''/'' @ model_id, rc_provider_id = provider_id,
     rc_model_id = model_id, rc_surface = s, rc_health = None, rc_enabled = True, rc_authorized = True, rc_compatible = True\<rparr>"

definition chain_candidate :: "routing_snapshot \<Rightarrow> registry \<Rightarrow> surface \<Rightarrow> resolved_model \<Rightarrow> route_candidate option" where
  "chain_candidate sn reg s target =
    (case registry_get reg (rm_provider_id target) of
       None \<Rightarrow> None
     | Some a \<Rightarrow>
         if (ad_models a = [] \<or> ad_get_model a (rm_model_id target) \<noteq> None \<or>
             stored_known sn (rm_provider_id target) (rm_model_id target)) \<and> translates s a
         then Some (candidate_for (rm_provider_id target) (rm_model_id target) s)
         else None)"

definition bare_candidate :: "routing_snapshot \<Rightarrow> surface \<Rightarrow> string \<Rightarrow> adapter \<Rightarrow> route_candidate option" where
  "bare_candidate sn s model a =
    (if translates s a \<and> (ad_get_model a model \<noteq> None \<or> stored_known sn (ad_id a) model)
     then Some (candidate_for (ad_id a) model s) else None)"

definition route_resolver :: "routing_snapshot \<Rightarrow> registry \<Rightarrow> string \<Rightarrow> surface \<Rightarrow> affinity_key \<Rightarrow> route_plan" where
  "route_resolver sn reg model s affinity =
    (let chain = resolve_model_chain model (snapshot_reference sn) (Some affinity);
         direct = List.map_filter (chain_candidate sn reg s) (chain_members chain);
         candidates = (if direct = [] \<and> chain = ChUnresolved
           then List.map_filter (bare_candidate sn s model) (registry_list reg) else direct)
     in \<lparr>rp_affinity = affinity, rp_candidates = candidates, rp_requested_model = model\<rparr>)"

subsection \<open>Account candidates\<close>

definition env_variables :: "string \<Rightarrow> string list" where
  "env_variables provider_id =
    (if provider_id = ''openai'' then [''OPENAI_API_KEY'']
     else if provider_id = ''anthropic'' then [''ANTHROPIC_API_KEY'']
     else if provider_id = ''gemini'' then [''GEMINI_API_KEY'', ''GOOGLE_API_KEY'']
     else [])"

definition env_account_id :: "string \<Rightarrow> string \<Rightarrow> string" where
  "env_account_id provider_id variable = ''env-'' @ provider_id @ ''-'' @ to_lower variable"

definition candidate_rows :: "(string \<Rightarrow> string option) \<Rightarrow> routing_snapshot \<Rightarrow> string \<Rightarrow> snapshot_account list" where
  "candidate_rows env sn provider_id =
    (case jm_get (sn_accounts sn) provider_id of Some rows \<Rightarrow> rows | None \<Rightarrow> []) @
    map (\<lambda>v. \<lparr>sa_id = env_account_id provider_id v, sa_provider_id = provider_id, sa_kind = CkApiKey, sa_active = True\<rparr>)
      (filter (\<lambda>v. truthy_text (env v) \<noteq> None) (env_variables provider_id))"

definition account_candidate_of ::
  "(string, route_health) js_map \<Rightarrow> (string, model_lock list) js_map \<Rightarrow> (string, bool) js_map \<Rightarrow> snapshot_account \<Rightarrow>
   account_candidate" where
  "account_candidate_of healths locks quotas row = \<lparr>
     ac_id = sa_id row, ac_provider_id = sa_provider_id row, ac_credential_kind = sa_kind row,
     ac_health = jm_get healths (sa_id row), ac_enabled = sa_active row,
     ac_quota_available = (case jm_get quotas (sa_id row) of Some b \<Rightarrow> b | None \<Rightarrow> True),
     ac_model_locks = map_option (\<lambda>ls. fold (\<lambda>l. jm_set (ml_model_id l) l) ls []) (jm_get locks (sa_id row))\<rparr>"

definition account_candidates ::
  "(string \<Rightarrow> string option) \<Rightarrow> routing_snapshot \<Rightarrow> int \<Rightarrow> account_store \<Rightarrow> lock_store option \<Rightarrow> quota_store \<Rightarrow> string \<Rightarrow>
   account_candidate list" where
  "account_candidates env sn now_ms healths locks quotas provider_id =
    (let rows = candidate_rows env sn provider_id; ids = map sa_id rows
     in map (account_candidate_of (account_health_batch now_ms ids healths)
            (list_model_locks_for_accounts ids locks) (quota_available_batch ids quotas)) rows)"

text \<open>The credential store that merges the environment, the configuration and the custom providers.\<close>

definition env_account :: "string \<Rightarrow> string \<Rightarrow> string \<Rightarrow> account_config" where
  "env_account provider_id variable secret = \<lparr>acf_id = env_account_id provider_id variable, acf_provider_id = provider_id,
     acf_kind = CkApiKey, acf_secret = Some secret, acf_enabled = True, acf_priority = -100\<rparr>"

definition direct_accounts :: "(string \<Rightarrow> string option) \<Rightarrow> (string, account_config) js_map" where
  "direct_accounts env =
     fold (\<lambda>(p, v) m. case truthy_text (env v) of None \<Rightarrow> m
         | Some secret \<Rightarrow> jm_set (env_account_id p v) (env_account p v secret) m)
       [(''openai'', ''OPENAI_API_KEY''), (''anthropic'', ''ANTHROPIC_API_KEY''),
        (''gemini'', ''GEMINI_API_KEY''), (''gemini'', ''GOOGLE_API_KEY'')] []"

definition custom_account :: "custom_provider \<Rightarrow> account_config" where
  "custom_account r = \<lparr>acf_id = ''custom:'' @ cp_slug r, acf_provider_id = cp_slug r, acf_kind = CkApiKey,
     acf_secret = Some (cp_credential r), acf_enabled = True, acf_priority = 0\<rparr>"

definition get_by_slug :: "custom_provider list \<Rightarrow> string \<Rightarrow> custom_provider option" where
  "get_by_slug customs slug = List.find (\<lambda>r. cp_slug r = slug) customs"

definition env_store_get ::
  "(string \<Rightarrow> string option) \<Rightarrow> custom_provider list \<Rightarrow> (string \<Rightarrow> account_config option) \<Rightarrow> string \<Rightarrow> account_config option" where
  "env_store_get env customs stored account_id =
    (case jm_get (direct_accounts env) account_id of
       Some a \<Rightarrow> Some a
     | None \<Rightarrow> if prefix ''custom:'' account_id
         then map_option custom_account (get_by_slug customs (drop (length ''custom:'') account_id))
         else stored account_id)"

definition env_store_list ::
  "(string \<Rightarrow> string option) \<Rightarrow> custom_provider list \<Rightarrow> account_config list \<Rightarrow> account_config list" where
  "env_store_list env customs stored =
    (let slugs = map cp_slug customs;
         owned = map acf_provider_id (filter (\<lambda>a. acf_provider_id a \<in> set slugs) stored)
     in stored @ map snd (direct_accounts env) @ map custom_account (filter (\<lambda>r. cp_slug r \<notin> set owned) customs))"

subsection \<open>Provider routing settings\<close>

record provider_routing =
  prr_strategy :: selection_strategy
  prr_sticky_limit :: int
  prr_use_sticky_limit :: bool
  prr_preferred_proxy :: "string option"

definition clamp_sticky :: "js_num \<Rightarrow> int" where
  "clamp_sticky n = (case n of Num q \<Rightarrow> max 1 (min 100 (js_round q)) | PosInf \<Rightarrow> 100 | _ \<Rightarrow> 1)"

definition nested_record :: "(string \<times> json) list \<Rightarrow> string \<Rightarrow> (string \<times> json) list" where
  "nested_record fs name = (case narrow_record (js_field fs name) of Some gs \<Rightarrow> gs | None \<Rightarrow> [])"

definition get_provider_routing :: "(string \<times> json) list \<Rightarrow> string \<Rightarrow> provider_routing" where
  "get_provider_routing settings provider_id =
    (let stored = nested_record (nested_record settings ''providerRouting'') provider_id
     in \<lparr>prr_strategy = (if js_field stored ''strategy'' = Some (JStr ''round-robin'') then RoundRobinStrategy else Priority),
         prr_sticky_limit = (case js_field stored ''stickyLimit'' of Some (JNum n) \<Rightarrow> clamp_sticky n | _ \<Rightarrow> 1),
         prr_use_sticky_limit = (js_field stored ''useStickyLimit'' = Some (JBool True)),
         prr_preferred_proxy = (case js_field stored ''preferredProxyId'' of
             Some (JStr s) \<Rightarrow> truthy_text (Some (trim s)) | _ \<Rightarrow> None)\<rparr>)"

subsection \<open>Route outcomes\<close>

record attempt_selection =
  as_account :: "string option"
  as_proxy :: "string option"

definition selected_account :: "attempt_selection option \<Rightarrow> string option" where
  "selected_account selected = Option.bind selected as_account"

record health_state =
  hs_accounts :: account_store
  hs_locks :: "lock_store option"
  hs_proxies :: proxy_store

text \<open>\<open>rnd\<close> gives the random number of each of the three back-offs.\<close>

definition on_route_failure ::
  "(nat \<Rightarrow> rat) \<Rightarrow> int \<Rightarrow> route_candidate \<Rightarrow> call_error \<Rightarrow> attempt_selection option \<Rightarrow> health_state \<Rightarrow> health_state" where
  "on_route_failure rnd now_ms candidate err selected h =
    (let account = selected_account selected;
         tracked = (case account of Some a \<Rightarrow> \<not> prefix ''custom:'' a | None \<Rightarrow> False);
         aid = (case account of Some a \<Rightarrow> a | None \<Rightarrow> []);
         h1 = (if ce_route_scope err = Some ScAccount \<and> tracked
               then h\<lparr>hs_accounts := fst (account_record_failure (rnd 0) now_ms aid (rc_provider_id candidate) err (hs_accounts h))\<rparr>
               else h);
         h2 = (if ce_route_scope err = Some ScAccount \<and> tracked \<and> rc_model_id candidate \<noteq> []
               then h1\<lparr>hs_locks := fst (record_model_lock (rnd 1) now_ms aid (rc_model_id candidate) err (hs_locks h1))\<rparr>
               else h1)
     in case truthy_text (Option.bind selected as_proxy) of
          Some p \<Rightarrow> if ce_route_scope err = Some ScProxy
            then h2\<lparr>hs_proxies := fst (proxy_record_failure (rnd 2) now_ms p err (hs_proxies h2))\<rparr> else h2
        | None \<Rightarrow> h2)"

definition on_route_success ::
  "route_candidate \<Rightarrow> attempt_selection option \<Rightarrow> health_state \<Rightarrow> health_state" where
  "on_route_success candidate selected h =
    (case truthy_text (selected_account selected) of
       None \<Rightarrow> h
     | Some a \<Rightarrow>
         if prefix ''custom:'' a then h
         else (let h1 = h\<lparr>hs_accounts := fst (account_record_success a (rc_provider_id candidate) (hs_accounts h))\<rparr>
               in if rc_model_id candidate \<noteq> [] then h1\<lparr>hs_locks := clear_model_lock a (rc_model_id candidate) (hs_locks h1)\<rparr>
                  else h1))"

subsection \<open>The request log\<close>

datatype log_event = LeIncoming | LeComplete | LeFailed

record request_log =
  lg_event :: log_event
  lg_request_id :: string
  lg_endpoint :: string
  lg_provider_id :: "string option"
  lg_model :: "string option"
  lg_status :: "int option"
  lg_duration_ms :: rat
  lg_input :: "rat option"
  lg_output :: "rat option"
  lg_cached :: "rat option"
  lg_cache_write :: "rat option"
  lg_messages :: nat
  lg_tools :: nat
  lg_client_name :: string
  lg_client_source :: string
  lg_client_ip :: "string option"

datatype log_level = LlInfo | LlWarn | LlError

definition request_log_level :: "request_log \<Rightarrow> log_level" where
  "request_log_level ev =
    (if lg_event ev = LeFailed then LlError
     else if lg_event ev = LeIncoming then LlInfo
     else case lg_status ev of
       Some st \<Rightarrow> if 500 \<le> st then LlError else if 400 \<le> st then LlWarn else LlInfo
     | None \<Rightarrow> LlInfo)"

definition mask_ip :: "string option \<Rightarrow> string" where
  "mask_ip v =
    (case truthy_text v of
       None \<Rightarrow> ''unknown''
     | Some s \<Rightarrow>
       if CHR '':'' \<in> set s
       then (let segments = filter (\<lambda>w. 0 < length w) (split_on (CHR '':'') s)
             in if 1 < length segments then join_with '':'' (take 3 segments) @ ''::*'' else ''masked'')
       else (let segments = split_on (CHR ''.'') s
             in if length segments = 4 then join_with ''.'' (take 3 segments) @ ''.xxx'' else ''masked''))"

definition log_event_name :: "log_event \<Rightarrow> string" where
  "log_event_name e = (case e of LeIncoming \<Rightarrow> ''incoming'' | LeComplete \<Rightarrow> ''complete'' | LeFailed \<Rightarrow> ''failed'')"

definition opt_part :: "string \<Rightarrow> string option \<Rightarrow> string list" where
  "opt_part key v = (case v of None \<Rightarrow> [] | Some s \<Rightarrow> [key @ ''='' @ s])"

definition positive_only :: "rat option \<Rightarrow> rat option" where
  "positive_only v = (case v of Some q \<Rightarrow> if 0 < q then Some q else None | None \<Rightarrow> None)"

definition format_request_log :: "(rat \<Rightarrow> string) \<Rightarrow> request_log \<Rightarrow> privacy_mode \<Rightarrow> string" where
  "format_request_log show_num ev mode =
    (let ip = (if mode = PmFull then (case lg_client_ip ev of Some s \<Rightarrow> s | None \<Rightarrow> ''unknown'') else mask_ip (lg_client_ip ev));
         parts = [log_event_name (lg_event ev) @ '' request'', ''endpoint='' @ lg_endpoint ev] @
           opt_part ''provider'' (lg_provider_id ev) @ opt_part ''model'' (lg_model ev) @
           [''client='' @ lg_client_name ev @ ''/'' @ lg_client_source ev, ''request_id='' @ lg_request_id ev,
            ''ip='' @ ip, ''messages='' @ nat_str (lg_messages ev), ''tools='' @ nat_str (lg_tools ev)] @
           opt_part ''status'' (map_option int_str (lg_status ev)) @
           (if lg_event ev = LeIncoming then []
            else [int_str (js_round (lg_duration_ms ev)) @ ''ms''] @
              opt_part ''in'' (map_option show_num (lg_input ev)) @
              opt_part ''out'' (map_option show_num (lg_output ev)) @
              opt_part ''cached'' (map_option show_num (positive_only (lg_cached ev))) @
              opt_part ''cache_write'' (map_option show_num (positive_only (lg_cache_write ev))))
     in join_with '' '' parts)"

text \<open>\<open>applicationKind\<close> and the proxy health store over the stored route health, which keeps no counts.\<close>

definition application_kind :: "string option \<Rightarrow> error_kind option" where
  "application_kind v = (case v of None \<Rightarrow> None | Some s \<Rightarrow> List.find (\<lambda>k. kind_name k = s)
     [InvalidRequest, AuthenticationFailed, AuthorizationDenied, QuotaExceeded, ConcurrencyExceeded, ModelNotFound,
      CapabilityUnsupported, CredentialUnavailable, NetworkUnavailable, ProviderRateLimited, ProviderUnavailable,
      ProviderProtocolError, StreamTimeout, StreamTruncated, ClientAborted, InternalError])"

text \<open>\<open>parse\<close> is \<open>Date.parse\<close> on a stored retry time.\<close>

definition composed_proxy_record :: "(string \<Rightarrow> rat) \<Rightarrow> string \<Rightarrow> route_health \<Rightarrow> proxy_health" where
  "composed_proxy_record parse proxy_id h = \<lparr>hv_status = rh_status h, hv_status_code = rh_status_code h,
     hv_failure_kind = application_kind (rh_failure_kind h), hv_message = rh_message h,
     hv_occurred_at = rh_occurred_at h, hv_retry_at = rh_retry_at h,
     hv_disabled_until = map_option parse (rh_retry_at h),
     phr_proxy_id = proxy_id, phr_failure_count = 1, phr_generation = 1\<rparr>"

definition composed_proxy_store :: "(string \<Rightarrow> rat) \<Rightarrow> (string, route_health) js_map \<Rightarrow> proxy_store" where
  "composed_proxy_store parse rows = map (\<lambda>(p, h). (p, composed_proxy_record parse p h)) rows"

definition composed_proxy_write :: "proxy_health \<Rightarrow> (string, route_health) js_map \<Rightarrow> (string, route_health) js_map" where
  "composed_proxy_write r rows = jm_set (phr_proxy_id r) \<lparr>rh_scope = RsProxy, rh_status = hv_status r,
     rh_status_code = hv_status_code r, rh_failure_kind = map_option kind_name (hv_failure_kind r),
     rh_message = hv_message r, rh_occurred_at = hv_occurred_at r, rh_retry_at = hv_retry_at r\<rparr> rows"

lemma proxy_failures_never_escalate:
  "snd (proxy_record_failure rnd now_ms p err (composed_proxy_store parse rows)) = Some r \<Longrightarrow> phr_failure_count r \<le> 2"
proof -
  have "jm_get (composed_proxy_store parse rows) p = Some q \<Longrightarrow> phr_failure_count q = 1" for q
    by (induction rows) (auto simp: composed_proxy_store_def composed_proxy_record_def jm_get_def split: if_splits)
  then show "snd (proxy_record_failure rnd now_ms p err (composed_proxy_store parse rows)) = Some r \<Longrightarrow> phr_failure_count r \<le> 2"
    by (auto simp: proxy_record_failure_def proxy_store_get_def Let_def split: if_splits option.splits)
qed

subsection \<open>A versioned cache never serves what is stale\<close>

text \<open>
  The discipline the snapshot cache relies on, for any source: every change of the source moves the
  revision forward.
\<close>

locale versioned_source =
  fixes source :: "'st \<Rightarrow> 'src"
    and revision :: "'st \<Rightarrow> nat"
    and ok :: "'op \<Rightarrow> bool"
    and apply_op :: "'op \<Rightarrow> 'st \<Rightarrow> 'st"
    and build :: "'src \<Rightarrow> nat \<Rightarrow> 'v"
    and version :: "'v \<Rightarrow> nat"
  assumes moves: "ok op \<Longrightarrow> source (apply_op op s) = source s \<and> revision (apply_op op s) = revision s \<or>
      revision s < revision (apply_op op s)"
    and version_build [simp]: "version (build src n) = n"
begin

definition fresh :: "'st \<Rightarrow> 'v \<Rightarrow> bool" where
  "fresh s v \<longleftrightarrow> version v \<le> revision s \<and> (version v = revision s \<longrightarrow> v = build (source s) (revision s))"

lemma fresh_build [simp, intro]: "fresh s (build (source s) (revision s))"
  by (simp add: fresh_def)

lemma fresh_op: "ok op \<Longrightarrow> fresh s v \<Longrightarrow> fresh (apply_op op s) v"
  using moves [of op s] by (auto simp: fresh_def)

lemma fresh_current: "fresh s v \<Longrightarrow> version v = revision s \<Longrightarrow> v = build (source s) (revision s)"
  by (simp add: fresh_def)

end

definition effect_ok :: "tracked_method \<times> storage_effect \<Rightarrow> bool" where
  "effect_ok op \<longleftrightarrow> (fst op \<in> {CustomDelete, CustomUpdateModels} \<longrightarrow> (\<forall>cfg. \<not> snd (snd op cfg) \<longrightarrow> fst (snd op cfg) = cfg))"

lemma sync_state_simps [simp]:
  "ro_revision (sync_state s) = ro_revision s" "ro_cached (sync_state s) = ro_cached s"
  "ro_pending (sync_state s) = ro_pending s" "ro_config (sync_state s) = ro_config s"
  by (simp_all add: sync_state_def split: sum.split)

lemma run_tracked_cache [simp]:
  "ro_cached (run_tracked m f s) = ro_cached s" "ro_pending (run_tracked m f s) = ro_pending s"
  by (simp_all add: run_tracked_def bump_def invalidate_proxy_cache_def Let_def split: prod.split)

lemma run_tracked_moves:
  assumes "effect_ok (m, f)"
  shows "ro_config (run_tracked m f s) = ro_config s \<and> ro_registry (run_tracked m f s) = ro_registry s \<and>
      ro_revision (run_tracked m f s) = ro_revision s \<or>
    ro_revision s < ro_revision (run_tracked m f s)"
proof -
  obtain cfg found where f: "f (ro_config s) = (cfg, found)" by fastforce
  have "cfg = ro_config s" if "m \<in> {CustomDelete, CustomUpdateModels}" "\<not> found"
  proof -
    have "\<forall>cfg. \<not> snd (f cfg) \<longrightarrow> fst (f cfg) = cfg" using assms that(1) by (auto simp: effect_ok_def)
    then have "\<not> snd (f (ro_config s)) \<longrightarrow> fst (f (ro_config s)) = ro_config s" by blast
    then show ?thesis using f that(2) by simp
  qed
  then show ?thesis
    by (auto simp: run_tracked_def f bump_def invalidate_proxy_cache_def Let_def)
qed

interpretation tracked: versioned_source
  "\<lambda>s. (ro_config s, ro_registry s)" ro_revision effect_ok "\<lambda>op. run_tracked (fst op) (snd op)"
  "\<lambda>src n. build_snapshot (fst src) (snd src) n" sn_revision
proof unfold_locales
  fix op s assume "effect_ok op"
  then show "(ro_config (run_tracked (fst op) (snd op) s), ro_registry (run_tracked (fst op) (snd op) s)) =
        (ro_config s, ro_registry s) \<and> ro_revision (run_tracked (fst op) (snd op) s) = ro_revision s \<or>
      ro_revision s < ro_revision (run_tracked (fst op) (snd op) s)"
    using run_tracked_moves [of "fst op" "snd op" s] by auto
next
  fix src :: "config_view \<times> registry" and n
  show "sn_revision (build_snapshot (fst src) (snd src) n) = n"
    by (simp add: build_snapshot_def split: prod.split)
qed

definition routing_ok :: "routing_state \<Rightarrow> bool" where
  "routing_ok s \<longleftrightarrow> (\<forall>v \<in> set_option (ro_cached s) \<union> set (ro_pending s). tracked.fresh s v)"

definition routing_start :: "config_view \<Rightarrow> registry \<Rightarrow> routing_state" where
  "routing_start cfg reg = \<lparr>ro_config = cfg, ro_registry = reg, ro_revision = 0, ro_pool_invalidations = 0,
     ro_next_object = length reg, ro_cached = None, ro_pending = []\<rparr>"

definition event_ok :: "routing_event \<Rightarrow> bool" where
  "event_ok ev \<longleftrightarrow> (case ev of EvTracked m f \<Rightarrow> effect_ok (m, f) | _ \<Rightarrow> True)"

lemma fresh_same:
  "ro_config s' = ro_config s \<Longrightarrow> ro_registry s' = ro_registry s \<Longrightarrow> ro_revision s' = ro_revision s \<Longrightarrow>
   tracked.fresh s' v = tracked.fresh s v"
  by (simp add: tracked.fresh_def)

lemma snapshot_get_state:
  "ro_config (snd (snapshot_get s)) = ro_config s" "ro_registry (snd (snapshot_get s)) = ro_registry s"
  "ro_revision (snd (snapshot_get s)) = ro_revision s" "ro_cached (snd (snapshot_get s)) = ro_cached s"
  "set (ro_pending (snd (snapshot_get s))) \<subseteq>
     insert (build_snapshot (ro_config s) (ro_registry s) (ro_revision s)) (set (ro_pending s))"
  by (auto simp: snapshot_get_def Let_def split: option.splits)

lemma routing_step_ok:
  assumes "routing_ok s" and "event_ok ev"
  shows "routing_ok (routing_step ev s)"
proof (cases ev)
  case (EvTracked m f)
  then show ?thesis
    using assms tracked.fresh_op [of "(m, f)" s] by (auto simp: routing_ok_def routing_step_def event_ok_def)
next
  case EvLookup
  have "tracked.fresh s (build_snapshot (ro_config s) (ro_registry s) (ro_revision s))"
    using tracked.fresh_build [of s] by simp
  then show ?thesis
    using assms(1) snapshot_get_state(5) [of s]
    by (auto simp: EvLookup routing_ok_def routing_step_def snapshot_get_state(1-4)
        fresh_same [of "snd (snapshot_get s)" s, OF snapshot_get_state(1-3)])
next
  case (EvPublish i)
  have "set (take i (ro_pending s) @ drop (Suc i) (ro_pending s)) \<subseteq> set (ro_pending s)"
    using set_take_subset [of i "ro_pending s"] set_drop_subset [of "Suc i" "ro_pending s"] by auto
  moreover have "tracked.fresh (snapshot_publish i s) v = tracked.fresh s v" for v
    by (rule fresh_same) (simp_all add: snapshot_publish_def)
  ultimately show ?thesis
    using assms(1) by (auto simp: EvPublish routing_ok_def routing_step_def) (auto simp: snapshot_publish_def split: if_splits)
qed

lemma routing_ok_lookup:
  assumes "routing_ok s"
  shows "fst (snapshot_get s) = build_snapshot (ro_config s) (ro_registry s) (ro_revision s)"
proof (cases "ro_cached s")
  case None
  then show ?thesis by (simp add: snapshot_get_def Let_def)
next
  case (Some c)
  then have "tracked.fresh s c" using assms by (simp add: routing_ok_def)
  then show ?thesis using Some tracked.fresh_current [of s c] by (simp add: snapshot_get_def Let_def)
qed

text \<open>
  C5: The snapshot cache never serves stale configuration: after any interleaving of mutations
  through the tracked repository methods, lookups and the delayed publications of rebuilt snapshots,
  also of older ones after newer ones, a lookup answers with the snapshot of the configuration and
  registry at that moment.
\<close>

theorem snapshot_always_current:
  assumes "\<forall>ev \<in> set events. event_ok ev" and "s = fold routing_step events (routing_start cfg reg)"
  shows "fst (snapshot_get s) = build_snapshot (ro_config s) (ro_registry s) (ro_revision s)"
proof -
  have "routing_ok (fold routing_step evs s0)" if "routing_ok s0" "\<forall>ev \<in> set evs. event_ok ev" for evs s0
    using that by (induction evs arbitrary: s0) (simp_all add: routing_step_ok)
  moreover have "routing_ok (routing_start cfg reg)" by (simp add: routing_ok_def routing_start_def)
  ultimately show ?thesis using routing_ok_lookup assms by blast
qed

definition empty_config :: config_view where
  "empty_config = \<lparr>cv_aliases = [], cv_combos = [], cv_accounts = [], cv_custom = [], cv_provider_models = None\<rparr>"

definition add_alias :: storage_effect where
  "add_alias cfg = (cfg\<lparr>cv_aliases := [(''fast'', ''openai/m'')]\<rparr>, True)"

theorem snapshot_always_current_witness:
  "sn_aliases (fst (snapshot_get (fold routing_step [EvLookup, EvTracked AliasUpsert add_alias, EvPublish 0]
     (routing_start empty_config [])))) = [(''fast'', ''openai/m'')]"
proof -
  let ?evs = "[EvLookup, EvTracked AliasUpsert add_alias, EvPublish 0]"
  have "\<forall>ev \<in> set ?evs. event_ok ev" by (simp add: event_ok_def effect_ok_def)
  from snapshot_always_current [OF this refl, of empty_config "[]"] show ?thesis
    by (simp add: routing_step_def run_tracked_def bump_def snapshot_get_state(1) snapshot_publish_def
        add_alias_def routing_start_def empty_config_def build_snapshot_def snapshot_get_def jm_set_def Let_def split: prod.splits)
qed

text \<open>The batch methods do not move the revision: an account disabled by one of them stays enabled for requests.\<close>

definition one_account :: config_view where
  "one_account = empty_config\<lparr>cv_accounts := [\<lparr>sa_id = ''a'', sa_provider_id = ''openai'', sa_kind = CkApiKey, sa_active = True\<rparr>]\<rparr>"

lemma disabled_batch_stays_enabled:
  "let s = run_untracked (account_set_active_batch [''a''] False)
       (snapshot_publish 0 (snd (snapshot_get (routing_start one_account []))))
   in map sa_active (cv_accounts (ro_config s)) = [False] \<and>
      map ac_enabled (account_candidates (\<lambda>v. None) (fst (snapshot_get s)) 0 [] None [] ''openai'') = [True]"
  by (simp add: run_untracked_def account_set_active_batch_def snapshot_publish_def snapshot_get_def routing_start_def
      one_account_def empty_config_def build_snapshot_def build_prefixes_def registry_list_def group_account_def jm_set_def
      account_candidates_def candidate_rows_def env_variables_def truthy_text_def account_candidate_of_def jm_get_def Let_def)

subsection \<open>Prefixes\<close>

lemma add_model_prefix_range:
  "(k, v) \<in> set (add_model_prefix p mid m) \<Longrightarrow> jm_wf m \<Longrightarrow> (k, v) \<in> set m \<or> v = p"
  by (auto simp: add_model_prefix_def set_jm_set split: option.splits if_splits)

lemma add_model_prefix_wf [simp]: "jm_wf m \<Longrightarrow> jm_wf (add_model_prefix p mid m)"
  by (auto simp: add_model_prefix_def split: option.split)

lemma fold_model_prefix:
  "jm_wf m \<Longrightarrow> jm_wf (fold (add_model_prefix p) ids m) \<and>
     (\<forall>(k, v) \<in> set (fold (add_model_prefix p) ids m). (k, v) \<in> set m \<or> v = p)"
proof (induction ids arbitrary: m)
  case (Cons i ids)
  have "jm_wf (add_model_prefix p i m)" using Cons.prems by simp
  from Cons.IH [OF this] add_model_prefix_range [OF _ Cons.prems] show ?case by fastforce
qed auto

lemma fold_model_prefix_get:
  "jm_get m k = Some v \<Longrightarrow> jm_get (fold (add_model_prefix p) ids m) k = Some v"
proof (induction ids arbitrary: m)
  case (Cons i ids)
  have "jm_get (add_model_prefix p i m) k = Some v"
    using Cons.prems by (auto simp: add_model_prefix_def jm_has_def split: option.split)
  then show ?case using Cons.IH by simp
qed simp

lemma add_adapter_prefixes_ok:
  assumes "jm_wf m"
  shows "jm_wf (add_adapter_prefixes a m) \<and>
    (\<forall>(k, v) \<in> set (add_adapter_prefixes a m). (k, v) \<in> set m \<or> v = ad_id a)"
proof -
  let ?m1 = "jm_set (ad_id a) (ad_id a) m"
  let ?m2 = "if ad_id a = ''opencodeft'' then jm_set ''opencode'' (ad_id a) ?m1 else ?m1"
  have wf: "jm_wf ?m2" using assms by auto
  have "\<forall>(k, v) \<in> set ?m2. (k, v) \<in> set m \<or> v = ad_id a"
    using assms by (auto simp: set_jm_set)
  moreover have "add_adapter_prefixes a m = fold (add_model_prefix (ad_id a)) (map pmod_id (ad_models a)) ?m2"
    by (simp add: add_adapter_prefixes_def Let_def fold_map comp_def)
  ultimately show ?thesis
    using fold_model_prefix [OF wf, of "ad_id a" "map pmod_id (ad_models a)"] by fastforce
qed

lemma add_adapter_prefixes_own: "jm_get (add_adapter_prefixes a m) (ad_id a) = Some (ad_id a)"
  using fold_model_prefix_get [of _ "ad_id a" "ad_id a" "ad_id a" "map pmod_id (ad_models a)"]
  by (auto simp: add_adapter_prefixes_def Let_def fold_map comp_def)

lemma add_adapter_prefixes_keep:
  assumes "jm_get m k = Some v" and "k \<noteq> ad_id a" and "k \<noteq> ''opencode''"
  shows "jm_get (add_adapter_prefixes a m) k = Some v"
  using assms fold_model_prefix_get [of _ k v "ad_id a" "map pmod_id (ad_models a)"]
  by (auto simp: add_adapter_prefixes_def Let_def fold_map comp_def)

lemma fold_adapter_prefixes_ok:
  "jm_wf m \<Longrightarrow> jm_wf (fold add_adapter_prefixes as m) \<and>
     (\<forall>(k, v) \<in> set (fold add_adapter_prefixes as m). (k, v) \<in> set m \<or> v \<in> ad_id ` set as)"
proof (induction as arbitrary: m)
  case (Cons a as)
  have "jm_wf (add_adapter_prefixes a m)" using add_adapter_prefixes_ok [OF Cons.prems] by blast
  from Cons.IH [OF this] add_adapter_prefixes_ok [OF Cons.prems, of a] show ?case by fastforce
qed auto

lemma fold_adapter_prefixes_own:
  "a \<in> set as \<Longrightarrow> ad_id a \<noteq> ''opencode'' \<Longrightarrow> jm_get (fold add_adapter_prefixes as m) (ad_id a) = Some (ad_id a)"
proof (induction as arbitrary: m)
  case (Cons b as)
  have keep: "jm_get m k = Some k \<Longrightarrow> k \<noteq> ''opencode'' \<Longrightarrow> jm_get (fold add_adapter_prefixes as m) k = Some k" for k m
  proof (induction as arbitrary: m)
    case (Cons c as)
    have "jm_get (add_adapter_prefixes c m) k = Some k"
      using Cons.prems add_adapter_prefixes_own [of c m] add_adapter_prefixes_keep [of m k k c] by (cases "k = ad_id c") auto
    then show ?case using Cons.IH Cons.prems(2) by simp
  qed simp
  show ?case
  proof (cases "a = b")
    case True
    then show ?thesis using keep [OF add_adapter_prefixes_own] Cons.prems(2) by simp
  next
    case False
    then show ?thesis using Cons by simp
  qed
qed simp

lemma fold_stored_models_ok:
  "jm_wf (fst acc) \<Longrightarrow> jm_wf (fst (fold (add_stored_models rows) as acc)) \<and>
     (\<forall>(k, v) \<in> set (fst (fold (add_stored_models rows) as acc)). (k, v) \<in> set (fst acc) \<or> v \<in> ad_id ` set as)"
proof (induction as arbitrary: acc)
  case (Cons a as)
  have "jm_wf (fst (add_stored_models rows a acc))"
    using fold_model_prefix [OF Cons.prems, of "ad_id a"] by (auto simp: add_stored_models_def Let_def)
  from Cons.IH [OF this] fold_model_prefix [OF Cons.prems, of "ad_id a" "provider_model_ids rows (ad_id a)"] show ?case
    by (fastforce simp: add_stored_models_def Let_def)
qed auto

lemma fold_stored_models_keep:
  "jm_get (fst acc) k = Some v \<Longrightarrow> jm_get (fst (fold (add_stored_models rows) as acc)) k = Some v"
  by (induction as arbitrary: acc) (simp_all add: add_stored_models_def fold_model_prefix_get Let_def)

lemma snapshot_prefixes:
  "sn_prefixes (build_snapshot cfg reg n) = fst (build_prefixes (registry_list reg) (cv_provider_models cfg))"
  by (simp add: build_snapshot_def split: prod.split)

text \<open>
  Names resolve to what is registered: every prefix of a snapshot leads to a registered
  provider, and the id of a registered provider always leads to itself, whatever its own or other
  catalogs and the stored models use as a prefix; the one exception is the id opencode, which the
  opencodeft adapter takes.
\<close>

theorem snapshot_prefixes_registered:
  assumes "registry_ok reg"
  shows "(\<forall>(k, v) \<in> set (sn_prefixes (build_snapshot cfg reg n)). registry_get reg v \<noteq> None) \<and>
    (\<forall>a \<in> set (registry_list reg). ad_id a \<noteq> ''opencode'' \<longrightarrow>
       jm_get (sn_prefixes (build_snapshot cfg reg n)) (ad_id a) = Some (ad_id a))"
proof -
  let ?as = "registry_list reg"
  let ?m = "fold add_adapter_prefixes ?as []"
  have m: "jm_wf ?m" "\<forall>(k, v) \<in> set ?m. v \<in> ad_id ` set ?as"
    using fold_adapter_prefixes_ok [of "[]" ?as] by auto
  have own: "jm_get ?m (ad_id a) = Some (ad_id a)" if "a \<in> set ?as" "ad_id a \<noteq> ''opencode''" for a
    using that by (rule fold_adapter_prefixes_own)
  have "\<forall>(k, v) \<in> set (sn_prefixes (build_snapshot cfg reg n)). v \<in> ad_id ` set ?as"
  proof (cases "cv_provider_models cfg")
    case None
    then show ?thesis using m by (simp add: snapshot_prefixes build_prefixes_def)
  next
    case (Some rows)
    then show ?thesis using fold_stored_models_ok [of "(?m, [])" rows ?as] m
      by (fastforce simp: snapshot_prefixes build_prefixes_def)
  qed
  moreover have "registry_get reg v \<noteq> None" if v: "v \<in> ad_id ` set ?as" for v
  proof -
    obtain k a where "(k, a) \<in> set reg" "ad_id a = v" using v by (auto simp: registry_list_def)
    then have "(v, a) \<in> set reg" using assms by (auto simp: registry_ok_def)
    then show ?thesis using assms by (auto simp: registry_ok_def registry_get_def jm_get_in_iff)
  qed
  moreover have "jm_get (sn_prefixes (build_snapshot cfg reg n)) (ad_id a) = Some (ad_id a)"
    if "a \<in> set ?as" "ad_id a \<noteq> ''opencode''" for a
    using own [OF that] fold_stored_models_keep [of "(?m, [])"]
    by (simp add: snapshot_prefixes build_prefixes_def Let_def split: option.split)
  ultimately show ?thesis by blast
qed

theorem snapshot_prefixes_registered_witness:
  "jm_get (sn_prefixes (build_snapshot empty_config [(''acme'', custom_adapter 0 sample_custom)] 0)) ''acme'' = Some ''acme''"
proof -
  have slug: "cp_slug sample_custom = ''acme''" by (simp add: sample_custom_def)
  have "registry_ok [(''acme'', custom_adapter 0 sample_custom)]"
    by (simp add: registry_ok_def jm_wf_def jm_keys_def slug)
  from snapshot_prefixes_registered [OF this, of empty_config 0] show ?thesis
    by (simp add: registry_list_def slug)
qed

subsection \<open>Routed candidates\<close>

lemma chain_candidate_SomeD:
  assumes "chain_candidate sn reg s target = Some c"
  shows "\<exists>a. registry_get reg (rm_provider_id target) = Some a \<and> translates s a \<and>
    (ad_models a = [] \<or> ad_get_model a (rm_model_id target) \<noteq> None \<or> stored_known sn (rm_provider_id target) (rm_model_id target)) \<and>
    c = candidate_for (rm_provider_id target) (rm_model_id target) s"
  using assms by (auto simp: chain_candidate_def split: option.splits if_splits)

lemma bare_candidate_SomeD:
  assumes "bare_candidate sn s model a = Some c"
  shows "translates s a \<and> (ad_get_model a model \<noteq> None \<or> stored_known sn (ad_id a) model) \<and> c = candidate_for (ad_id a) model s"
  using assms by (auto simp: bare_candidate_def split: if_splits)

lemma registry_list_get:
  assumes "registry_ok reg" and "a \<in> set (registry_list reg)"
  shows "registry_get reg (ad_id a) = Some a"
  using assms by (auto simp: registry_list_def registry_ok_def registry_get_def jm_get_in_iff [symmetric])

text \<open>What a candidate guarantees to the request that tries it.\<close>

definition candidate_ok :: "routing_snapshot \<Rightarrow> registry \<Rightarrow> surface \<Rightarrow> route_candidate \<Rightarrow> bool" where
  "candidate_ok sn reg s c \<longleftrightarrow> (\<exists>a. registry_get reg (rc_provider_id c) = Some a \<and> translates s a \<and>
     (ad_models a = [] \<or> ad_get_model a (rc_model_id c) \<noteq> None \<or> stored_known sn (rc_provider_id c) (rc_model_id c)) \<and>
     rc_id c = rc_provider_id c @ ''/'' @ rc_model_id c \<and> rc_surface c = s)"

lemma map_filter_candidates:
  "(\<And>x c. x \<in> set xs \<Longrightarrow> f x = Some c \<Longrightarrow> P c) \<Longrightarrow> \<forall>c \<in> set (List.map_filter f xs). P c"
  by (auto simp: List.map_filter_def)

lemma distinct_map_filter_keys:
  assumes "distinct (map k xs)" and "\<And>x c. f x = Some c \<Longrightarrow> g c = k x"
  shows "distinct (map g (List.map_filter f xs))"
proof -
  have "map g (List.map_filter f xs) = map k (filter (\<lambda>x. f x \<noteq> None) xs)"
    using assms(2) by (induction xs) (auto simp: List.map_filter_simps split: option.splits)
  then show ?thesis using assms(1) by (simp add: distinct_map_filter)
qed

lemma chain_keys_distinct: "chain_ok cfg chain \<Longrightarrow> distinct (map model_key (chain_members chain))"
  by (auto simp: chain_ok_def chain_members_def split: chain_result.splits)

lemma registry_ids: "registry_ok reg \<Longrightarrow> map ad_id (registry_list reg) = jm_keys reg"
  unfolding registry_ok_def registry_list_def jm_keys_def by (induction reg) (auto simp: jm_wf_def jm_keys_def)

lemma candidate_for_simps [simp]:
  "rc_id (candidate_for p m s) = p @ ''/'' @ m" "rc_provider_id (candidate_for p m s) = p"
  "rc_model_id (candidate_for p m s) = m" "rc_surface (candidate_for p m s) = s"
  by (simp_all add: candidate_for_def)

lemma direct_candidates_ok:
  "\<forall>c \<in> set (List.map_filter (chain_candidate sn reg s) ms). candidate_ok sn reg s c"
  by (rule map_filter_candidates) (auto simp: candidate_ok_def dest!: chain_candidate_SomeD)

lemma bare_candidates_ok:
  "registry_ok reg \<Longrightarrow> \<forall>c \<in> set (List.map_filter (bare_candidate sn s model) (registry_list reg)). candidate_ok sn reg s c"
  by (rule map_filter_candidates)
    (auto simp: candidate_ok_def registry_list_get dest!: bare_candidate_SomeD)

lemma candidate_ids_distinct:
  assumes "registry_ok reg"
  shows "distinct (map rc_id (rp_candidates (route_resolver sn reg model s affinity)))"
proof -
  have "distinct (map rc_id (List.map_filter (chain_candidate sn reg s)
      (chain_members (resolve_model_chain model (snapshot_reference sn) (Some affinity)))))"
  proof (rule distinct_map_filter_keys [where k = model_key])
    show "distinct (map model_key (chain_members (resolve_model_chain model (snapshot_reference sn) (Some affinity))))"
      unfolding resolve_model_chain_def by (rule chain_keys_distinct [OF resolve_inner_ok])
  qed (auto simp: model_key_def dest!: chain_candidate_SomeD)
  moreover have "distinct (map rc_id (List.map_filter (bare_candidate sn s model) (registry_list reg)))"
  proof (rule distinct_map_filter_keys [where k = "\<lambda>a. ad_id a @ ''/'' @ model"])
    have "distinct (map ad_id (registry_list reg))"
      using assms by (simp add: registry_ids) (simp add: registry_ok_def jm_wf_def)
    then show "distinct (map (\<lambda>a. ad_id a @ ''/'' @ model) (registry_list reg))"
      by (auto simp: distinct_map inj_on_def)
  qed (auto dest!: bare_candidate_SomeD)
  ultimately show ?thesis by (simp add: route_resolver_def Let_def)
qed

text \<open>
  Every candidate the resolver offers can be tried: its provider is registered, accepts the model
  (by its catalog, by the stored models, or because it has no catalog) and can serve the client's
  surface, so that the target resolution and the support check of a contract-abiding adapter cannot
  fail; and no candidate is offered twice.
\<close>

theorem routed_candidates_can_be_tried:
  assumes "registry_ok reg" and "c \<in> set (rp_candidates (route_resolver sn reg model s affinity))"
  shows "candidate_ok sn reg s c \<and> distinct (map rc_id (rp_candidates (route_resolver sn reg model s affinity))) \<and>
    (\<exists>a w. registry_get reg (rc_provider_id c) = Some a \<and> wire_surface_for (ad_metadata a) (ad_capabilities a) s = Some w \<and>
      (adapter_ok a \<longrightarrow> (\<exists>t. ad_resolve a (rc_model_id c) w = Inr t \<and> rt_provider_id t = rc_provider_id c \<and>
         assert_supported (ad_id a) (ad_capabilities a) t False = None)))"
proof -
  have c: "candidate_ok sn reg s c"
    using assms direct_candidates_ok bare_candidates_ok
    by (auto simp: route_resolver_def Let_def split: if_splits)
  then obtain a where a: "registry_get reg (rc_provider_id c) = Some a" "translates s a" by (auto simp: candidate_ok_def)
  then obtain w where w: "wire_surface_for (ad_metadata a) (ad_capabilities a) s = Some w" by (auto simp: translates_def)
  have "\<exists>t. ad_resolve a (rc_model_id c) w = Inr t \<and> rt_provider_id t = rc_provider_id c \<and>
      assert_supported (ad_id a) (ad_capabilities a) t False = None" if ok: "adapter_ok a"
  proof -
    from adapter_ok_resolves [OF ok w] obtain up where
      t: "ad_resolve a (rc_model_id c) w = Inr \<lparr>rt_provider_id = ad_id a, rt_model_id = rc_model_id c,
        rt_upstream_model_id = up, rt_surface = w\<rparr>" by blast
    have "ad_id a = rc_provider_id c" using registry_get_id [OF assms(1) a(1)] .
    then show ?thesis using t resolved_is_supported [OF ok t, of False] by simp
  qed
  then show ?thesis using a w c candidate_ids_distinct [OF assms(1)] by blast
qed

definition acme_registry :: registry where
  "acme_registry = [(''acme'', custom_adapter 0 sample_custom)]"

definition sample_affinity :: affinity_key where
  "sample_affinity = \<lparr>ak_namespace = AnApiKey, ak_value = ''k''\<rparr>"

lemma acme_registry_ok: "registry_ok acme_registry"
  by (simp add: acme_registry_def registry_ok_def jm_wf_def jm_keys_def) (simp add: sample_custom_def)

lemma acme_candidates:
  "rp_candidates (route_resolver (build_snapshot empty_config acme_registry 0) acme_registry ''acme/x'' SfChat sample_affinity) =
    [candidate_for ''acme'' ''x'' SfChat]"
  by code_simp

theorem routed_candidates_can_be_tried_witness:
  "candidate_ok (build_snapshot empty_config acme_registry 0) acme_registry SfChat (candidate_for ''acme'' ''x'' SfChat)"
  using routed_candidates_can_be_tried [OF acme_registry_ok, of "candidate_for ''acme'' ''x'' SfChat"
      "build_snapshot empty_config acme_registry 0" "''acme/x''" SfChat sample_affinity]
  by (simp add: acme_candidates)

text \<open>
  The fallback for a bare model id is meant to match catalogs exactly; a custom catalog answers every
  id, so an unknown model goes to every custom provider.
\<close>

lemma bare_model_goes_to_custom_provider:
  "rp_candidates (route_resolver (build_snapshot empty_config acme_registry 0) acme_registry ''no-such-model'' SfChat sample_affinity) =
    [candidate_for ''acme'' ''no-such-model'' SfChat]"
  by code_simp

subsection \<open>Masked addresses\<close>

definition plain_octet :: "string \<Rightarrow> bool" where
  "plain_octet w \<longleftrightarrow> w \<noteq> [] \<and> CHR ''.'' \<notin> set w \<and> CHR '':'' \<notin> set w"

lemma mask_ip_dotted:
  assumes "plain_octet a" "plain_octet b" "plain_octet c" "plain_octet d"
  shows "mask_ip (Some (a @ ''.'' @ b @ ''.'' @ c @ ''.'' @ d)) = a @ ''.'' @ b @ ''.'' @ c @ ''.xxx''"
proof -
  have "split_on CHR ''.'' (a @ CHR ''.'' # b @ CHR ''.'' # c @ CHR ''.'' # d) = [a, b, c, d]"
    using assms by (simp add: plain_octet_def split_on_append split_on_no_sep)
  then show ?thesis
    using assms by (auto simp: mask_ip_def truthy_text_def plain_octet_def)
qed

text \<open>
  The masked request log does not tell two hosts of one IPv4 network apart: for a dotted address
  the whole log line, in masked mode, does not depend on the last octet.
\<close>

theorem masked_log_hides_host:
  assumes "plain_octet a" "plain_octet b" "plain_octet c" "plain_octet d" "plain_octet d'"
  shows "format_request_log show_num (ev\<lparr>lg_client_ip := Some (a @ ''.'' @ b @ ''.'' @ c @ ''.'' @ d)\<rparr>) PmMasked =
    format_request_log show_num (ev\<lparr>lg_client_ip := Some (a @ ''.'' @ b @ ''.'' @ c @ ''.'' @ d')\<rparr>) PmMasked"
  using mask_ip_dotted [OF assms(1-4)] mask_ip_dotted [OF assms(1-3,5)]
  by (simp add: format_request_log_def Let_def)

theorem masked_log_hides_host_witness:
  "\<forall>show_num ev. format_request_log show_num (ev\<lparr>lg_client_ip := Some ''10.0.0.7''\<rparr>) PmMasked =
    format_request_log show_num (ev\<lparr>lg_client_ip := Some ''10.0.0.8''\<rparr>) PmMasked"
  using masked_log_hides_host [of "''10''" "''0''" "''0''" "''7''" "''8''"] by (simp add: plain_octet_def)

text \<open>A short or IPv4-mapped IPv6 address has at most three groups, which are all shown.\<close>

lemma mapped_address_is_not_masked:
  "mask_ip (Some ''::ffff:10.0.0.7'') = ''ffff:10.0.0.7::*''"
  "mask_ip (Some ''2001:db8::1'') = ''2001:db8:1::*''"
  by code_simp+

subsection \<open>Reactions to outcomes\<close>

lemma route_account_failure_other:
  "b \<noteq> a \<Longrightarrow> account_store_get b (fst (account_record_failure rnd now_ms a p err st)) = account_store_get b st"
  by (auto simp: account_record_failure_def account_store_get_def account_store_set_def Let_def)

lemma proxy_failure_other:
  "b \<noteq> a \<Longrightarrow> proxy_store_get b (fst (proxy_record_failure rnd now_ms a err st)) = proxy_store_get b st"
  by (auto simp: proxy_record_failure_def proxy_store_get_def proxy_store_set_def Let_def)

lemma model_lock_other_account:
  "lock_key b m \<noteq> lock_key a n \<Longrightarrow>
   is_model_available b m t (fst (record_model_lock rnd now_ms a n err st)) = is_model_available b m t st"
  by (intro record_model_lock_other) auto

text \<open>
  A failed attempt is booked on what it used and nothing else: the health of an account changes
  only when the failure is scoped to accounts and this account made the attempt, never for the
  synthetic accounts of custom providers; the health of a proxy only when the failure is scoped to
  proxies and this proxy carried it; a failure scoped to the provider changes nothing.
\<close>

theorem route_failure_confined:
  "(ce_route_scope err \<noteq> Some ScAccount \<or> selected_account selected \<noteq> Some b \<or> prefix ''custom:'' b \<longrightarrow>
      account_store_get b (hs_accounts (on_route_failure rnd now_ms candidate err selected h)) = account_store_get b (hs_accounts h)) \<and>
   (ce_route_scope err \<noteq> Some ScProxy \<or> Option.bind selected as_proxy \<noteq> Some q \<longrightarrow>
      proxy_store_get q (hs_proxies (on_route_failure rnd now_ms candidate err selected h)) = proxy_store_get q (hs_proxies h)) \<and>
   (ce_route_scope err \<notin> {Some ScAccount, Some ScProxy} \<longrightarrow>
      on_route_failure rnd now_ms candidate err selected h = h)"
proof (intro conjI impI)
  assume "ce_route_scope err \<noteq> Some ScAccount \<or> selected_account selected \<noteq> Some b \<or> prefix ''custom:'' b"
  then show "account_store_get b (hs_accounts (on_route_failure rnd now_ms candidate err selected h)) =
      account_store_get b (hs_accounts h)"
    using route_account_failure_other [of b "the (selected_account selected)"]
    by (cases "selected_account selected") (auto simp: on_route_failure_def Let_def split: option.split)
next
  assume "ce_route_scope err \<noteq> Some ScProxy \<or> Option.bind selected as_proxy \<noteq> Some q"
  then show "proxy_store_get q (hs_proxies (on_route_failure rnd now_ms candidate err selected h)) = proxy_store_get q (hs_proxies h)"
    using proxy_failure_other [of q "the (Option.bind selected as_proxy)"]
    by (cases "Option.bind selected as_proxy") (auto simp: on_route_failure_def truthy_text_def Let_def)
next
  assume "ce_route_scope err \<notin> {Some ScAccount, Some ScProxy}"
  then show "on_route_failure rnd now_ms candidate err selected h = h"
    by (simp add: on_route_failure_def Let_def split: option.split)
qed

definition scoped_error :: "error_scope \<Rightarrow> call_error" where
  "scoped_error scope = \<lparr>ce_status_code = Some 429, ce_kind = ProviderRateLimited, ce_retryable = True,
     ce_route_scope = Some scope, ce_source = SourceUpstream, ce_message = ''slow down'', ce_retry_at = None\<rparr>"

theorem route_failure_confined_witness:
  "\<forall>rnd h. on_route_failure rnd 0 (candidate_for ''p'' ''m'' SfChat) (scoped_error ScProvider)
      (Some \<lparr>as_account = Some ''a'', as_proxy = Some ''x''\<rparr>) h = h \<and>
    account_store_get ''b'' (hs_accounts (on_route_failure rnd 0 (candidate_for ''p'' ''m'' SfChat) (scoped_error ScAccount)
      (Some \<lparr>as_account = Some ''a'', as_proxy = Some ''x''\<rparr>) h)) = account_store_get ''b'' (hs_accounts h)"
  using route_failure_confined [of "scoped_error ScProvider" "Some \<lparr>as_account = Some ''a'', as_proxy = Some ''x''\<rparr>"]
    route_failure_confined [of "scoped_error ScAccount" "Some \<lparr>as_account = Some ''a'', as_proxy = Some ''x''\<rparr>" "''b''"]
  by (simp add: scoped_error_def selected_account_def)

end
