(* ===== verification/Translation.thy ===== *)
theory Translation imports StreamMappers Registry begin

text \<open>
  The translation of a finished response between the wire protocols
  (\<open>src/domain/protocols/translation.ts\<close>): chat completions, messages and responses. The module's id
  counter is threaded as a number, \<open>now_ms\<close> is \<open>Date.now()\<close>, \<open>show_num\<close> prints the numbers that are
  not plain integers. The abstract content of a reply (text, reasoning, tool calls) is what a
  translation has to keep.
\<close>

subsection \<open>Fallback ids\<close>

definition digit36 :: "nat \<Rightarrow> char" where
  "digit36 k = (if k < 10 then char_of (48 + k) else char_of (87 + k))"

fun nat_str36 :: "nat \<Rightarrow> string" where
  "nat_str36 n = (if n < 36 then [digit36 n] else nat_str36 (n div 36) @ [digit36 (n mod 36)])"

declare nat_str36.simps [simp del]

definition int_str36 :: "int \<Rightarrow> string" where
  "int_str36 k = (if k < 0 then ''-'' @ nat_str36 (nat (- k)) else nat_str36 (nat k))"

text \<open>\<open>(n + 1) | 0\<close>\<close>

definition next_counter :: "int \<Rightarrow> int" where
  "next_counter n = (n + 1 + 2 ^ 31) mod 2 ^ 32 - 2 ^ 31"

definition next_fallback_id :: "int \<Rightarrow> string \<Rightarrow> int \<Rightarrow> string \<times> int" where
  "next_fallback_id now_ms pre n =
    (pre @ ''-'' @ int_str36 now_ms @ int_str36 (next_counter n), next_counter n)"

text \<open>\<open>narrowText(v) ?? nextFallbackId(prefix)\<close>\<close>

definition text_or_id :: "int \<Rightarrow> json option \<Rightarrow> string \<Rightarrow> int \<Rightarrow> string \<times> int" where
  "text_or_id now_ms v pre n = (case narrow_text v of Some s \<Rightarrow> (s, n) | None \<Rightarrow> next_fallback_id now_ms pre n)"

definition number_or_zero :: "json option \<Rightarrow> rat" where
  "number_or_zero v = (case nullable_number v of Some q \<Rightarrow> q | None \<Rightarrow> 0)"

definition num_json :: "rat \<Rightarrow> json" where
  "num_json q = JNum (Num q)"

definition sub_field :: "(string \<times> json) list option \<Rightarrow> string \<Rightarrow> json option" where
  "sub_field fs name = Option.bind fs (\<lambda>gs. js_field gs name)"

definition head_option :: "'a list \<Rightarrow> 'a option" where
  "head_option vs = (case vs of [] \<Rightarrow> None | v # _ \<Rightarrow> Some v)"

text \<open>The first choice of a chat body and its message.\<close>

definition chat_choice :: "(string \<times> json) list \<Rightarrow> (string \<times> json) list option" where
  "chat_choice body = narrow_record (head_option (narrow_list (js_field body ''choices'')))"

definition chat_message :: "(string \<times> json) list \<Rightarrow> (string \<times> json) list" where
  "chat_message body = or_record (sub_field (chat_choice body) ''message'')"

definition nonempty_text :: "json option \<Rightarrow> string option" where
  "nonempty_text v = (case narrow_text v of Some s \<Rightarrow> if 0 < length s then Some s else None | None \<Rightarrow> None)"

subsection \<open>Chat completion to message\<close>

definition text_block :: "string \<Rightarrow> json" where
  "text_block s = JObj [(''type'', JStr ''text''), (''text'', JStr s)]"

definition part_text :: "json \<Rightarrow> string option" where
  "part_text raw =
    (case narrow_record (Some raw) of
       None \<Rightarrow> None
     | Some part \<Rightarrow>
       (case first_some (narrow_text (js_field part ''text'')) (narrow_text (js_field part ''content'')) of
          Some s \<Rightarrow> if 0 < length s then Some s else None
        | None \<Rightarrow> None))"

definition call_function :: "json \<Rightarrow> (string \<times> json) list option" where
  "call_function raw = narrow_record (sub_field (narrow_record (Some raw)) ''function'')"

definition call_id_field :: "json \<Rightarrow> json option" where
  "call_id_field raw = sub_field (narrow_record (Some raw)) ''id''"

definition tool_use_block :: "nat \<Rightarrow> json \<Rightarrow> (string \<times> json) list \<Rightarrow> json" where
  "tool_use_block len raw fn = JObj
    [(''type'', JStr ''tool_use''),
     (''id'', JStr (or_text (narrow_text (call_id_field raw)) (''toolu_'' @ nat_str len))),
     (''name'', JStr (or_text (narrow_text (js_field fn ''name'')) [])),
     (''input'', JObj (json_object json_parse (js_field fn ''arguments'')))]"

fun push_tool_uses :: "json list \<Rightarrow> json list \<Rightarrow> json list" where
  "push_tool_uses [] content = content"
| "push_tool_uses (raw # raws) content =
     push_tool_uses raws (case call_function raw of
        Some fn \<Rightarrow> content @ [tool_use_block (length content) raw fn]
      | None \<Rightarrow> content)"

definition chat_content_blocks :: "(string \<times> json) list \<Rightarrow> json list" where
  "chat_content_blocks message =
    (case nonempty_text (js_field message ''reasoning_content'') of
       Some r \<Rightarrow> [JObj [(''type'', JStr ''thinking''), (''thinking'', JStr r)]] | None \<Rightarrow> []) @
    (case nonempty_text (js_field message ''content'') of Some s \<Rightarrow> [text_block s] | None \<Rightarrow> []) @
    map text_block (List.map_filter part_text (narrow_list (js_field message ''content'')))"

definition anthropic_stop_of_finish :: "string option \<Rightarrow> string" where
  "anthropic_stop_of_finish finish =
    (if finish = Some ''tool_calls'' then ''tool_use''
     else if finish = Some ''length'' then ''max_tokens''
     else if finish = Some ''content_filter'' then ''refusal''
     else ''end_turn'')"

definition chat_to_anthropic :: "int \<Rightarrow> (string \<times> json) list \<Rightarrow> int \<Rightarrow> (string \<times> json) list \<times> int" where
  "chat_to_anthropic now_ms body n =
    (let message = chat_message body;
         pushed = push_tool_uses (narrow_list (js_field message ''tool_calls'')) (chat_content_blocks message);
         content = (if pushed = [] then [text_block []] else pushed);
         usage = narrow_record (js_field body ''usage'');
         cached = number_or_zero (sub_field (narrow_record (sub_field usage ''prompt_tokens_details'')) ''cached_tokens'');
         (mid, n') = text_or_id now_ms (js_field body ''id'') ''msg'' n
     in ([(''id'', JStr mid), (''type'', JStr ''message''), (''role'', JStr ''assistant''),
          (''model'', JStr (or_text (narrow_text (js_field body ''model'')) [])),
          (''content'', JArr content),
          (''stop_reason'', JStr (anthropic_stop_of_finish (narrow_text (sub_field (chat_choice body) ''finish_reason'')))),
          (''stop_sequence'', JNull),
          (''usage'', JObj ([(''input_tokens'', num_json (number_or_zero (sub_field usage ''prompt_tokens''))),
             (''output_tokens'', num_json (number_or_zero (sub_field usage ''completion_tokens'')))] @
             (if 0 < cached then [(''cache_read_input_tokens'', num_json cached)] else [])))], n'))"

subsection \<open>Message to chat completion\<close>

definition content_records :: "(string \<times> json) list \<Rightarrow> string \<Rightarrow> (string \<times> json) list list" where
  "content_records body name = List.map_filter (\<lambda>v. narrow_record (Some v)) (narrow_list (js_field body name))"

definition blocks_of_type :: "string \<Rightarrow> (string \<times> json) list list \<Rightarrow> (string \<times> json) list list" where
  "blocks_of_type ty blocks = filter (\<lambda>b. js_field b ''type'' = Some (JStr ty)) blocks"

definition joined_text :: "string \<Rightarrow> (string \<times> json) list list \<Rightarrow> string" where
  "joined_text key blocks = concat (map (\<lambda>b. or_text (narrow_text (js_field b key)) []) blocks)"

definition chat_call :: "string \<Rightarrow> string \<Rightarrow> string \<Rightarrow> json" where
  "chat_call cid name args = JObj
    [(''id'', JStr cid), (''type'', JStr ''function''),
     (''function'', JObj [(''name'', JStr name), (''arguments'', JStr args)])]"

fun tool_use_calls ::
  "(rat \<Rightarrow> string) \<Rightarrow> int \<Rightarrow> (string \<times> json) list list \<Rightarrow> int \<Rightarrow> json list \<times> int" where
  "tool_use_calls show_num now_ms [] n = ([], n)"
| "tool_use_calls show_num now_ms (b # bs) n =
     (let (cid, n1) = (case narrow_text (js_field b ''id'') of Some s \<Rightarrow> (s, n)
            | None \<Rightarrow> (let (f, m) = next_fallback_id now_ms ''toolu'' n in (''toolu_'' @ f, m)));
          (calls, n2) = tool_use_calls show_num now_ms bs n1
      in (chat_call cid (or_text (narrow_text (js_field b ''name'')) [])
            (json_text show_num (JObj (or_record (js_field b ''input'')))) # calls, n2))"

definition finish_of_stop :: "string option \<Rightarrow> string" where
  "finish_of_stop stop =
    (if stop = Some ''tool_use'' then ''tool_calls'' else if stop = Some ''max_tokens'' then ''length'' else ''stop'')"

definition chat_body ::
  "string \<Rightarrow> rat \<Rightarrow> string \<Rightarrow> (string \<times> json) list \<Rightarrow> string \<Rightarrow> rat \<Rightarrow> rat \<Rightarrow> rat \<Rightarrow> (string \<times> json) list" where
  "chat_body cid created model message finish prompt completion tot =
    [(''id'', JStr cid), (''object'', JStr ''chat.completion''), (''created'', num_json created), (''model'', JStr model),
     (''choices'', JArr [JObj [(''index'', num_json 0), (''message'', JObj message), (''finish_reason'', JStr finish)]]),
     (''usage'', JObj [(''prompt_tokens'', num_json prompt), (''completion_tokens'', num_json completion),
        (''total_tokens'', num_json tot)])]"

definition now_seconds :: "int \<Rightarrow> rat" where
  "now_seconds now_ms = of_int (now_ms div 1000)"

definition assistant_message :: "string \<Rightarrow> string \<Rightarrow> json list \<Rightarrow> (string \<times> json) list" where
  "assistant_message content reasoning calls =
    [(''role'', JStr ''assistant''), (''content'', JStr content)] @
    (if 0 < length reasoning then [(''reasoning_content'', JStr reasoning)] else []) @
    (if calls \<noteq> [] then [(''tool_calls'', JArr calls)] else [])"

definition anthropic_to_chat ::
  "(rat \<Rightarrow> string) \<Rightarrow> int \<Rightarrow> (string \<times> json) list \<Rightarrow> int \<Rightarrow> (string \<times> json) list \<times> int" where
  "anthropic_to_chat show_num now_ms body n =
    (let blocks = content_records body ''content'';
         (calls, n1) = tool_use_calls show_num now_ms (blocks_of_type ''tool_use'' blocks) n;
         message = assistant_message (joined_text ''text'' (blocks_of_type ''text'' blocks))
           (joined_text ''thinking'' (blocks_of_type ''thinking'' blocks)) calls;
         usage = narrow_record (js_field body ''usage'');
         input = number_or_zero (sub_field usage ''input_tokens'');
         outp = number_or_zero (sub_field usage ''output_tokens'');
         (cid, n2) = text_or_id now_ms (js_field body ''id'') ''chatcmpl'' n1
     in (chat_body cid (now_seconds now_ms) (or_text (narrow_text (js_field body ''model'')) []) message
           (finish_of_stop (narrow_text (js_field body ''stop_reason''))) input outp (input + outp), n2))"

subsection \<open>Chat completion to response\<close>

definition function_call_json :: "string \<Rightarrow> string \<Rightarrow> (string \<times> json) list \<Rightarrow> json" where
  "function_call_json item_id cid fn = JObj
    [(''type'', JStr ''function_call''), (''id'', JStr item_id), (''call_id'', JStr cid),
     (''name'', JStr (or_text (narrow_text (js_field fn ''name'')) [])),
     (''arguments'', JStr (or_text (narrow_text (js_field fn ''arguments'')) ''{}'')), (''status'', JStr ''completed'')]"

fun response_calls :: "int \<Rightarrow> json list \<Rightarrow> int \<Rightarrow> json list \<times> int" where
  "response_calls now_ms [] n = ([], n)"
| "response_calls now_ms (raw # raws) n =
     (case call_function raw of
        None \<Rightarrow> response_calls now_ms raws n
      | Some fn \<Rightarrow>
          (let (item_id, n1) = text_or_id now_ms (call_id_field raw) ''fc'' n;
               (cid, n2) = text_or_id now_ms (call_id_field raw) ''call'' n1;
               (calls, n3) = response_calls now_ms raws n2
           in (function_call_json item_id cid fn # calls, n3)))"

definition reasoning_item :: "string \<Rightarrow> string \<Rightarrow> json" where
  "reasoning_item rid text = JObj
    [(''type'', JStr ''reasoning''), (''id'', JStr (''rs_'' @ rid)),
     (''summary'', JArr [JObj [(''type'', JStr ''summary_text''), (''text'', JStr text)]])]"

definition message_item :: "string \<Rightarrow> string \<Rightarrow> json" where
  "message_item rid text = JObj
    [(''type'', JStr ''message''), (''id'', JStr (''msg_'' @ rid)), (''role'', JStr ''assistant''), (''status'', JStr ''completed''),
     (''content'', JArr [JObj [(''type'', JStr ''output_text''), (''text'', JStr text), (''annotations'', JArr [])]])]"

definition chat_to_responses :: "int \<Rightarrow> (string \<times> json) list \<Rightarrow> int \<Rightarrow> (string \<times> json) list \<times> int" where
  "chat_to_responses now_ms body n =
    (let message = chat_message body;
         (rid, n1) = text_or_id now_ms (js_field body ''id'') ''resp'' n;
         content = narrow_text (js_field message ''content'');
         (calls, n2) = response_calls now_ms (narrow_list (js_field message ''tool_calls'')) n1;
         items = (case nonempty_text (js_field message ''reasoning_content'') of Some r \<Rightarrow> [reasoning_item rid r] | None \<Rightarrow> []) @
           (case nonempty_text (js_field message ''content'') of Some s \<Rightarrow> [message_item rid s] | None \<Rightarrow> []) @ calls;
         usage = narrow_record (js_field body ''usage'');
         input = number_or_zero (sub_field usage ''prompt_tokens'');
         outp = number_or_zero (sub_field usage ''completion_tokens'')
     in ([(''id'', JStr (if prefix ''chatcmpl-'' rid then ''resp_'' @ rid else rid)), (''object'', JStr ''response''),
          (''created_at'', num_json (case nullable_number (js_field body ''created'') of Some q \<Rightarrow> q | None \<Rightarrow> now_seconds now_ms)),
          (''status'', JStr ''completed''), (''model'', JStr (or_text (narrow_text (js_field body ''model'')) [])),
          (''output'', JArr items), (''output_text'', JStr (or_text content [])),
          (''usage'', JObj [(''input_tokens'', num_json input), (''output_tokens'', num_json outp),
             (''total_tokens'', num_json (case nullable_number (sub_field usage ''total_tokens'') of Some q \<Rightarrow> q
                | None \<Rightarrow> input + outp))])], n2))"

subsection \<open>Response to chat completion\<close>

record response_parts_read =
  rpr_messages :: "string list"
  rpr_reasoning :: "string list"
  rpr_calls :: "json list"

definition no_parts :: response_parts_read where
  "no_parts = \<lparr>rpr_messages = [], rpr_reasoning = [], rpr_calls = []\<rparr>"

definition is_output_text :: "(string \<times> json) list \<Rightarrow> bool" where
  "is_output_text part \<longleftrightarrow> js_field part ''type'' \<in> {Some (JStr ''output_text''), Some (JStr ''text'')}"

definition message_item_text :: "(string \<times> json) list \<Rightarrow> string" where
  "message_item_text item = joined_text ''text'' (filter is_output_text (content_records item ''content''))"

definition summary_texts :: "(string \<times> json) list \<Rightarrow> string list" where
  "summary_texts item = List.map_filter (\<lambda>raw. narrow_text (sub_field (narrow_record (Some raw)) ''text''))
    (narrow_list (js_field item ''summary''))"

definition item_call :: "nat \<Rightarrow> (string \<times> json) list \<Rightarrow> json" where
  "item_call len item = chat_call
    (or_text (first_some (narrow_text (js_field item ''call_id'')) (narrow_text (js_field item ''id'')))
      (''call_'' @ nat_str len))
    (or_text (narrow_text (js_field item ''name'')) [])
    (or_text (narrow_text (js_field item ''arguments'')) ''{}'')"

definition read_item :: "response_parts_read \<Rightarrow> json \<Rightarrow> response_parts_read" where
  "read_item st raw =
    (case narrow_record (Some raw) of
       None \<Rightarrow> st
     | Some item \<Rightarrow>
         if js_field item ''type'' = Some (JStr ''message'')
         then st\<lparr>rpr_messages := rpr_messages st @ [message_item_text item]\<rparr>
         else if js_field item ''type'' = Some (JStr ''reasoning'')
         then st\<lparr>rpr_reasoning := rpr_reasoning st @ summary_texts item\<rparr>
         else if js_field item ''type'' = Some (JStr ''function_call'')
         then st\<lparr>rpr_calls := rpr_calls st @ [item_call (length (rpr_calls st)) item]\<rparr>
         else st)"

definition read_items :: "(string \<times> json) list \<Rightarrow> response_parts_read" where
  "read_items body = foldl read_item no_parts (narrow_list (js_field body ''output''))"

text \<open>The \<open>reasoning_content\<close> key is set when any summary was read, the joined text may be empty.\<close>

definition responses_message :: "(string \<times> json) list \<Rightarrow> response_parts_read \<Rightarrow> (string \<times> json) list" where
  "responses_message body st =
    [(''role'', JStr ''assistant''),
     (''content'', JStr (case rpr_messages st of m # _ \<Rightarrow> m
        | [] \<Rightarrow> or_text (narrow_text (js_field body ''output_text'')) []))] @
    (if rpr_reasoning st \<noteq> [] then [(''reasoning_content'', JStr (concat (rpr_reasoning st)))] else []) @
    (if rpr_calls st \<noteq> [] then [(''tool_calls'', JArr (rpr_calls st))] else [])"

definition responses_to_chat :: "int \<Rightarrow> (string \<times> json) list \<Rightarrow> int \<Rightarrow> (string \<times> json) list \<times> int" where
  "responses_to_chat now_ms body n =
    (let st = read_items body;
         usage = narrow_record (js_field body ''usage'');
         input = number_or_zero (sub_field usage ''input_tokens'');
         outp = number_or_zero (sub_field usage ''output_tokens'');
         (cid, n1) = text_or_id now_ms (js_field body ''id'') ''chatcmpl'' n
     in (chat_body cid (case nullable_number (js_field body ''created_at'') of Some q \<Rightarrow> q | None \<Rightarrow> now_seconds now_ms)
           (or_text (narrow_text (js_field body ''model'')) []) (responses_message body st)
           (if rpr_calls st \<noteq> [] then ''tool_calls'' else ''stop'') input outp
           (case nullable_number (sub_field usage ''total_tokens'') of Some q \<Rightarrow> q | None \<Rightarrow> input + outp), n1))"

subsection \<open>The dispatcher\<close>

definition translate_non_stream ::
  "(rat \<Rightarrow> string) \<Rightarrow> int \<Rightarrow> protocol \<Rightarrow> surface \<Rightarrow> surface \<Rightarrow> (string \<times> json) list \<Rightarrow> int \<Rightarrow>
   (string \<times> json) list \<times> int" where
  "translate_non_stream show_num now_ms proto wire client body n =
    (if wire = client \<or> client = SfImages \<or> proto = PrGemini then (body, n)
     else if proto = PrAnthropic
     then (let (chat, m) = anthropic_to_chat show_num now_ms body n
           in if client = SfResponses then chat_to_responses now_ms chat m else (chat, m))
     else if wire = SfResponses
     then (let (chat, m) = responses_to_chat now_ms body n
           in if client = SfMessages then chat_to_anthropic now_ms chat m else (chat, m))
     else if client = SfMessages then chat_to_anthropic now_ms body n
     else if client = SfResponses then chat_to_responses now_ms body n
     else (body, n))"

subsection \<open>What a reply says\<close>

text \<open>
  The content of a reply, read off a body of each surface. A call is its id, when it has one, its
  name and the parsed arguments.
\<close>

record reply_call =
  rcall_id :: "string option"
  rcall_name :: string
  rcall_args :: "(string \<times> json) list"

record reply =
  reply_text :: string
  reply_thinking :: string
  reply_tools :: "reply_call list"

definition chat_reply_call :: "json \<Rightarrow> reply_call option" where
  "chat_reply_call raw = (case call_function raw of
     None \<Rightarrow> None
   | Some fn \<Rightarrow> Some \<lparr>rcall_id = narrow_text (call_id_field raw), rcall_name = or_text (narrow_text (js_field fn ''name'')) [],
       rcall_args = json_object json_parse (js_field fn ''arguments'')\<rparr>)"

definition chat_reply :: "(string \<times> json) list \<Rightarrow> reply" where
  "chat_reply body =
    (let message = chat_message body; content = js_field message ''content''
     in \<lparr>reply_text = or_text (narrow_text content) [] @ concat (List.map_filter part_text (narrow_list content)),
         reply_thinking = or_text (narrow_text (js_field message ''reasoning_content'')) [],
         reply_tools = List.map_filter chat_reply_call (narrow_list (js_field message ''tool_calls''))\<rparr>)"

definition anthropic_reply_call :: "(string \<times> json) list \<Rightarrow> reply_call" where
  "anthropic_reply_call b = \<lparr>rcall_id = narrow_text (js_field b ''id''),
     rcall_name = or_text (narrow_text (js_field b ''name'')) [], rcall_args = or_record (js_field b ''input'')\<rparr>"

definition anthropic_reply :: "(string \<times> json) list \<Rightarrow> reply" where
  "anthropic_reply body =
    (let blocks = content_records body ''content''
     in \<lparr>reply_text = joined_text ''text'' (blocks_of_type ''text'' blocks),
         reply_thinking = joined_text ''thinking'' (blocks_of_type ''thinking'' blocks),
         reply_tools = map anthropic_reply_call (blocks_of_type ''tool_use'' blocks)\<rparr>)"

definition item_reply_call :: "(string \<times> json) list \<Rightarrow> reply_call" where
  "item_reply_call item = \<lparr>rcall_id = first_some (narrow_text (js_field item ''call_id'')) (narrow_text (js_field item ''id'')),
     rcall_name = or_text (narrow_text (js_field item ''name'')) [],
     rcall_args = json_object json_parse (js_field item ''arguments'')\<rparr>"

definition responses_reply :: "(string \<times> json) list \<Rightarrow> reply" where
  "responses_reply body =
    (let items = content_records body ''output''
     in \<lparr>reply_text = concat (map message_item_text (blocks_of_type ''message'' items)),
         reply_thinking = concat (concat (map summary_texts (blocks_of_type ''reasoning'' items))),
         reply_tools = map item_reply_call (blocks_of_type ''function_call'' items)\<rparr>)"

definition reply_of :: "surface \<Rightarrow> (string \<times> json) list \<Rightarrow> reply" where
  "reply_of s = (if s = SfMessages then anthropic_reply else if s = SfResponses then responses_reply else chat_reply)"

text \<open>A translated reply says the same; a call without an id may be given one.\<close>

definition keeps_call :: "reply_call \<Rightarrow> reply_call \<Rightarrow> bool" where
  "keeps_call c d \<longleftrightarrow> rcall_name d = rcall_name c \<and> rcall_args d = rcall_args c \<and> (rcall_id c = None \<or> rcall_id d = rcall_id c)"

definition keeps_reply :: "reply \<Rightarrow> reply \<Rightarrow> bool" where
  "keeps_reply r r' \<longleftrightarrow> reply_text r' = reply_text r \<and> reply_thinking r' = reply_thinking r \<and> list_all2 keeps_call (reply_tools r) (reply_tools r')"

text \<open>
  The bodies whose whole content the translations read: JSON text that prints back, arguments as
  text, a plain string as content, one message item at most, its text in the item.
\<close>

definition readable_chat :: "(string \<times> json) list \<Rightarrow> bool" where
  "readable_chat body \<longleftrightarrow>
    narrow_list (js_field (chat_message body) ''content'') = [] \<and>
    list_all (\<lambda>raw. case call_function raw of Some fn \<Rightarrow> narrow_record (js_field fn ''arguments'') = None | None \<Rightarrow> True)
      (narrow_list (js_field (chat_message body) ''tool_calls''))"

definition readable_anthropic :: "(string \<times> json) list \<Rightarrow> bool" where
  "readable_anthropic body \<longleftrightarrow>
    list_all (\<lambda>b. plain_json (JObj (or_record (js_field b ''input''))))
      (blocks_of_type ''tool_use'' (content_records body ''content''))"

definition readable_responses :: "(string \<times> json) list \<Rightarrow> bool" where
  "readable_responses body \<longleftrightarrow>
    length (blocks_of_type ''message'' (content_records body ''output'')) \<le> 1 \<and>
    (blocks_of_type ''message'' (content_records body ''output'') = [] \<longrightarrow>
       or_text (narrow_text (js_field body ''output_text'')) [] = []) \<and>
    list_all (\<lambda>item. narrow_record (js_field item ''arguments'') = None)
      (blocks_of_type ''function_call'' (content_records body ''output''))"

definition readable :: "surface \<Rightarrow> (string \<times> json) list \<Rightarrow> bool" where
  "readable s = (if s = SfMessages then readable_anthropic else if s = SfResponses then readable_responses else readable_chat)"

subsection \<open>Reading what was written\<close>

named_theorems reply_simps

lemma map_filter_append [reply_simps]: "List.map_filter f (xs @ ys) = List.map_filter f xs @ List.map_filter f ys"
  by (induction xs) (auto simp: map_filter_simps split: option.splits)

lemma blocks_of_type_append [reply_simps]: "blocks_of_type ty (xs @ ys) = blocks_of_type ty xs @ blocks_of_type ty ys"
  by (simp add: blocks_of_type_def)

lemma joined_text_append [reply_simps]: "joined_text key (xs @ ys) = joined_text key xs @ joined_text key ys"
  by (simp add: joined_text_def)

lemma joined_text_Nil [reply_simps]: "joined_text key [] = []"
  by (simp add: joined_text_def)

lemma blocks_of_type_Nil [reply_simps]: "blocks_of_type ty [] = []"
  by (simp add: blocks_of_type_def)

lemma map_filter_Nil [reply_simps]: "List.map_filter f [] = []"
  by (simp add: map_filter_simps)

definition record_values :: "json list \<Rightarrow> (string \<times> json) list list" where
  "record_values vs = List.map_filter (\<lambda>v. narrow_record (Some v)) vs"

lemma content_records_values: "content_records body name = record_values (narrow_list (js_field body name))"
  by (simp add: content_records_def record_values_def)

lemma record_values_append [reply_simps]: "record_values (xs @ ys) = record_values xs @ record_values ys"
  by (simp add: record_values_def map_filter_append)

lemma record_values_objects [reply_simps]: "record_values (map JObj us) = us"
  by (induction us) (simp_all add: record_values_def map_filter_simps narrow_record_def)

lemma record_values_Cons [reply_simps]: "record_values (v # vs) = (case v of JObj fs \<Rightarrow> fs # record_values vs | _ \<Rightarrow> record_values vs)"
  by (simp add: record_values_def map_filter_simps narrow_record_def split: json.splits)

lemma record_values_Nil [reply_simps]: "record_values [] = []"
  by (simp add: record_values_def map_filter_simps)

lemma js_field_Cons [reply_simps]: "js_field ((k, v) # fs) name = (if name = k then Some v else js_field fs name)"
  by (simp add: js_field_def jm_get_def)

lemma js_field_Nil [reply_simps]: "js_field [] name = None"
  by (simp add: js_field_def jm_get_def)

lemma narrow_reads [reply_simps]:
  "narrow_text (Some (JStr s)) = Some s" "narrow_text None = None" "narrow_list (Some (JArr vs)) = vs" "narrow_list None = []"
  "narrow_record (Some (JObj fs)) = Some fs" "narrow_record None = None" "narrow_record (Some (JStr s)) = None"
  "narrow_list (Some (JStr s)) = []"
  by (simp_all add: narrow_text_def narrow_list_def narrow_record_def)

lemma or_simps [reply_simps]: "or_text (Some s) d = s" "or_text None d = d" "or_record (Some (JObj fs)) = fs" "or_record None = []"
  by (simp_all add: or_text_def or_record_def narrow_record_def)

lemma first_some_reads [reply_simps]: "first_some (Some a) b = Some a" "first_some None b = b"
  by (simp_all add: first_some_def)

lemma sub_field_simps [reply_simps]: "sub_field (Some fs) name = js_field fs name" "sub_field None name = None"
  by (simp_all add: sub_field_def)

lemma chat_message_body [simp]: "chat_message (chat_body cid created model message finish p c t) = message"
  by (simp add: chat_message_def chat_choice_def chat_body_def head_option_def reply_simps)

lemma keeps_call_refl [simp]: "keeps_call c c"
  by (simp add: keeps_call_def)

lemma keeps_call_trans: "keeps_call a b \<Longrightarrow> keeps_call b c \<Longrightarrow> keeps_call a c"
  by (auto simp: keeps_call_def)

lemma keeps_reply_refl: "keeps_reply r r"
  by (simp add: keeps_reply_def list_all2_refl)

lemma keeps_reply_trans: "keeps_reply a b \<Longrightarrow> keeps_reply b c \<Longrightarrow> keeps_reply a c"
  unfolding keeps_reply_def using list_all2_trans [of keeps_call keeps_call keeps_call] keeps_call_trans by metis

subsection \<open>Each translation keeps the reply\<close>

definition tool_block_list :: "(string \<times> json) list list \<Rightarrow> bool" where
  "tool_block_list us \<longleftrightarrow> (\<forall>b\<in>set us. js_field b ''type'' = Some (JStr ''tool_use''))"

lemma tool_block_list_types [reply_simps]:
  assumes "tool_block_list us"
  shows "blocks_of_type ''tool_use'' us = us" "blocks_of_type ''text'' us = []" "blocks_of_type ''thinking'' us = []"
  using assms by (auto simp: tool_block_list_def blocks_of_type_def filter_empty_conv filter_id_conv)

lemma push_tool_uses_kept:
  "\<exists>us. push_tool_uses raws content = content @ map JObj us \<and> tool_block_list us \<and>
        list_all2 keeps_call (List.map_filter chat_reply_call raws) (map anthropic_reply_call us)"
proof (induction raws arbitrary: content)
  case Nil
  then show ?case by (auto intro: exI [of _ "[]"] simp: tool_block_list_def reply_simps)
next
  case (Cons raw raws)
  show ?case
  proof (cases "call_function raw")
    case None
    then show ?thesis using Cons.IH [of content] by (simp add: map_filter_simps chat_reply_call_def)
  next
    case (Some fn)
    obtain b where b: "tool_use_block (length content) raw fn = JObj b" "js_field b ''type'' = Some (JStr ''tool_use'')"
        "keeps_call (the (chat_reply_call raw)) (anthropic_reply_call b)" "chat_reply_call raw \<noteq> None"
      by (auto simp: tool_use_block_def reply_simps anthropic_reply_call_def chat_reply_call_def keeps_call_def Some
            or_text_def split: option.splits)
    obtain us where us: "push_tool_uses raws (content @ [JObj b]) = (content @ [JObj b]) @ map JObj us"
        "tool_block_list us" "list_all2 keeps_call (List.map_filter chat_reply_call raws) (map anthropic_reply_call us)"
      using Cons.IH by blast
    have "push_tool_uses (raw # raws) content = content @ map JObj (b # us)" using us(1) b(1) by (simp add: Some)
    moreover have "tool_block_list (b # us)" using us(2) b(2) by (simp add: tool_block_list_def)
    moreover have "list_all2 keeps_call (List.map_filter chat_reply_call (raw # raws)) (map anthropic_reply_call (b # us))"
      using us(3) b(3,4) by (auto simp: map_filter_simps)
    ultimately show ?thesis by blast
  qed
qed

lemma text_blocks_read:
  "record_values (map text_block ss) = map (\<lambda>s. [(''type'', JStr ''text''), (''text'', JStr s)]) ss"
  by (induction ss) (simp_all add: text_block_def reply_simps)

lemma text_blocks_reply:
  fixes ss :: "string list"
  defines "bs \<equiv> map (\<lambda>s. [(''type'', JStr ''text''), (''text'', JStr s)]) ss"
  shows "joined_text ''text'' (blocks_of_type ''text'' bs) = concat ss"
    and "blocks_of_type ''thinking'' bs = []" and "blocks_of_type ''tool_use'' bs = []"
  unfolding bs_def by (induction ss) (simp_all add: blocks_of_type_def joined_text_def reply_simps)

lemma head_blocks_reply:
  fixes message defines "bs \<equiv> record_values (chat_content_blocks message)"
  shows "joined_text ''text'' (blocks_of_type ''text'' bs) =
           or_text (narrow_text (js_field message ''content'')) [] @ concat (List.map_filter part_text (narrow_list (js_field message ''content'')))"
    and "joined_text ''thinking'' (blocks_of_type ''thinking'' bs) = or_text (narrow_text (js_field message ''reasoning_content'')) []"
    and "blocks_of_type ''tool_use'' bs = []"
  unfolding bs_def chat_content_blocks_def
  by (auto simp: reply_simps text_blocks_read text_blocks_reply nonempty_text_def text_block_def or_text_def
        blocks_of_type_def joined_text_def comp_def
      split: option.splits)

lemma chat_to_anthropic_keeps: "keeps_reply (chat_reply body) (anthropic_reply (fst (chat_to_anthropic now_ms body n)))"
proof -
  define message where "message = chat_message body"
  obtain us where us: "push_tool_uses (narrow_list (js_field message ''tool_calls'')) (chat_content_blocks message) =
        chat_content_blocks message @ map JObj us" "tool_block_list us"
      "list_all2 keeps_call (List.map_filter chat_reply_call (narrow_list (js_field message ''tool_calls''))) (map anthropic_reply_call us)"
    using push_tool_uses_kept by blast
  define bs where "bs = record_values (chat_content_blocks message @ map JObj us)"
  define content where "content = (let p = chat_content_blocks message @ map JObj us in if p = [] then [text_block []] else p)"
  have bs: "joined_text ''text'' (blocks_of_type ''text'' bs) = reply_text (chat_reply body)"
      "joined_text ''thinking'' (blocks_of_type ''thinking'' bs) = reply_thinking (chat_reply body)"
      "blocks_of_type ''tool_use'' bs = us"
    using us(2) by (simp_all add: bs_def reply_simps head_blocks_reply chat_reply_def message_def Let_def)
  have same: "joined_text ''text'' (blocks_of_type ''text'' (record_values content)) = reply_text (chat_reply body)"
      "joined_text ''thinking'' (blocks_of_type ''thinking'' (record_values content)) = reply_thinking (chat_reply body)"
      "blocks_of_type ''tool_use'' (record_values content) = us"
    using bs by (auto simp: content_def Let_def bs_def text_block_def blocks_of_type_def joined_text_def reply_simps)
  have "js_field (fst (chat_to_anthropic now_ms body n)) ''content'' = Some (JArr content)"
    by (simp add: chat_to_anthropic_def Let_def split_beta reply_simps us(1) [unfolded message_def] content_def message_def)
  then have "content_records (fst (chat_to_anthropic now_ms body n)) ''content'' = record_values content"
    by (simp add: content_records_values reply_simps)
  then show ?thesis
    using same us(3) by (simp add: keeps_reply_def anthropic_reply_def Let_def chat_reply_def message_def)
qed

lemma json_object_text:
  "plain_json (JObj fs) \<Longrightarrow> json_object json_parse (Some (JStr (json_text f (JObj fs)))) = fs"
  by (simp only: json_object_def json_parse_text option.case json.case)

lemma call_function_chat_call [reply_simps]:
  "call_function (chat_call cid name args) = Some [(''name'', JStr name), (''arguments'', JStr args)]"
  "call_id_field (chat_call cid name args) = Some (JStr cid)"
  by (simp_all add: call_function_def call_id_field_def chat_call_def reply_simps)

lemma chat_reply_call_made:
  "chat_reply_call (chat_call cid name args) = Some \<lparr>rcall_id = Some cid, rcall_name = name,
     rcall_args = json_object json_parse (Some (JStr args))\<rparr>"
  by (simp add: chat_reply_call_def reply_simps)

text \<open>Every call the translations write can be read again.\<close>

definition made_call :: "json \<Rightarrow> bool" where
  "made_call v \<longleftrightarrow> (\<exists>cid name args. v = chat_call cid name args)"

lemma tool_use_calls_kept:
  assumes "list_all (\<lambda>b. plain_json (JObj (or_record (js_field b ''input'')))) bs"
  shows "list_all2 keeps_call (map anthropic_reply_call bs) (List.map_filter chat_reply_call (fst (tool_use_calls show_num now_ms bs n)))
       \<and> list_all made_call (fst (tool_use_calls show_num now_ms bs n))"
  using assms
proof (induction bs arbitrary: n)
  case Nil
  then show ?case by (simp add: reply_simps)
next
  case (Cons b bs)
  have p: "plain_json (JObj (or_record (js_field b ''input'')))" using Cons.prems by simp
  show ?case
    using Cons.IH Cons.prems json_object_text [OF p, of show_num]
    by (auto simp: split_beta Let_def map_filter_simps chat_reply_call_made keeps_call_def anthropic_reply_call_def made_call_def
          split: option.splits)
qed

lemma assistant_message_read [reply_simps]:
  "js_field (assistant_message content reasoning calls) ''content'' = Some (JStr content)"
  "or_text (narrow_text (js_field (assistant_message content reasoning calls) ''reasoning_content'')) [] = reasoning"
  "narrow_list (js_field (assistant_message content reasoning calls) ''tool_calls'') = calls"
  by (auto simp: assistant_message_def reply_simps)

lemma made_calls_readable:
  "list_all made_call calls \<Longrightarrow>
   list_all (\<lambda>raw. case call_function raw of Some fn \<Rightarrow> narrow_record (js_field fn ''arguments'') = None | None \<Rightarrow> True) calls"
  by (auto simp: list_all_iff made_call_def reply_simps)

lemma anthropic_to_chat_keeps:
  assumes "readable_anthropic body"
  shows "keeps_reply (anthropic_reply body) (chat_reply (fst (anthropic_to_chat show_num now_ms body n)))"
    and "readable_chat (fst (anthropic_to_chat show_num now_ms body n))"
proof -
  define bs where "bs = blocks_of_type ''tool_use'' (content_records body ''content'')"
  have k: "list_all2 keeps_call (map anthropic_reply_call bs) (List.map_filter chat_reply_call (fst (tool_use_calls show_num now_ms bs n)))"
      "list_all made_call (fst (tool_use_calls show_num now_ms bs n))"
    using tool_use_calls_kept assms by (auto simp: readable_anthropic_def bs_def)
  then show "keeps_reply (anthropic_reply body) (chat_reply (fst (anthropic_to_chat show_num now_ms body n)))"
    by (simp add: anthropic_to_chat_def Let_def split_beta keeps_reply_def anthropic_reply_def chat_reply_def reply_simps bs_def)
  show "readable_chat (fst (anthropic_to_chat show_num now_ms body n))"
    using made_calls_readable [OF k(2)]
    by (simp add: anthropic_to_chat_def Let_def split_beta readable_chat_def reply_simps bs_def)
qed

text \<open>Function-call items out of chat calls.\<close>

definition call_item_list :: "(string \<times> json) list list \<Rightarrow> bool" where
  "call_item_list us \<longleftrightarrow> (\<forall>b\<in>set us. js_field b ''type'' = Some (JStr ''function_call''))"

lemma call_item_list_types [reply_simps]:
  assumes "call_item_list us"
  shows "blocks_of_type ''function_call'' us = us" "blocks_of_type ''message'' us = []" "blocks_of_type ''reasoning'' us = []"
  using assms by (auto simp: call_item_list_def blocks_of_type_def filter_empty_conv filter_id_conv)

lemma json_object_or_text:
  "narrow_record v = None \<Longrightarrow> json_object json_parse (Some (JStr (or_text (narrow_text v) ''{}''))) = json_object json_parse v"
proof (cases "narrow_text v")
  case None
  assume n: "narrow_record v = None"
  have "json_parse ''{}'' = Some (JObj [])" by code_simp
  then show ?thesis using None n
    by (auto simp: json_object_def or_text_def narrow_text_def narrow_record_def split: option.splits json.splits)
next
  case (Some s)
  then have "v = Some (JStr s)" by (auto simp: narrow_text_def split: option.splits json.splits)
  then show ?thesis using Some by (simp add: or_text_def)
qed

lemma function_call_item:
  assumes "call_function raw = Some fn" "narrow_record (js_field fn ''arguments'') = None"
  shows "\<exists>b. function_call_json item_id (fst (text_or_id now_ms (call_id_field raw) pre n)) fn = JObj b \<and>
      js_field b ''type'' = Some (JStr ''function_call'') \<and> keeps_call (the (chat_reply_call raw)) (item_reply_call b)"
  using assms json_object_or_text [OF assms(2)]
  by (auto simp: function_call_json_def reply_simps item_reply_call_def chat_reply_call_def keeps_call_def text_or_id_def
      split: option.splits)

lemma response_calls_kept:
  assumes "list_all (\<lambda>raw. case call_function raw of Some fn \<Rightarrow> narrow_record (js_field fn ''arguments'') = None | None \<Rightarrow> True) raws"
  shows "\<exists>us. fst (response_calls now_ms raws n) = map JObj us \<and> call_item_list us \<and>
        list_all2 keeps_call (List.map_filter chat_reply_call raws) (map item_reply_call us)"
  using assms
proof (induction raws arbitrary: n)
  case Nil
  then show ?case by (simp add: call_item_list_def reply_simps)
next
  case (Cons raw raws)
  show ?case
  proof (cases "call_function raw")
    case None
    then show ?thesis using Cons by (simp add: map_filter_simps chat_reply_call_def)
  next
    case (Some fn)
    then have arg: "narrow_record (js_field fn ''arguments'') = None" using Cons.prems by simp
    define item_id where "item_id = fst (text_or_id now_ms (call_id_field raw) ''fc'' n)"
    define n1 where "n1 = snd (text_or_id now_ms (call_id_field raw) ''fc'' n)"
    define n2 where "n2 = snd (text_or_id now_ms (call_id_field raw) ''call'' n1)"
    obtain b where b: "function_call_json item_id (fst (text_or_id now_ms (call_id_field raw) ''call'' n1)) fn = JObj b"
        "js_field b ''type'' = Some (JStr ''function_call'')" "keeps_call (the (chat_reply_call raw)) (item_reply_call b)"
      using function_call_item [OF Some arg] by blast
    obtain us where us: "fst (response_calls now_ms raws n2) = map JObj us" "call_item_list us"
        "list_all2 keeps_call (List.map_filter chat_reply_call raws) (map item_reply_call us)"
      using Cons.IH [of n2] Cons.prems by auto
    have "fst (response_calls now_ms (raw # raws) n) = map JObj (b # us)"
      using b(1) us(1) by (simp add: Some split_beta Let_def item_id_def n1_def n2_def)
    moreover have "call_item_list (b # us)" using b(2) us(2) by (simp add: call_item_list_def)
    moreover have "list_all2 keeps_call (List.map_filter chat_reply_call (raw # raws)) (map item_reply_call (b # us))"
      using us(3) b(3) Some by (simp add: map_filter_simps chat_reply_call_def)
    ultimately show ?thesis by blast
  qed
qed

lemma chat_to_responses_keeps:
  assumes "readable_chat body"
  shows "keeps_reply (chat_reply body) (responses_reply (fst (chat_to_responses now_ms body n)))"
proof -
  define message where "message = chat_message body"
  define n1 where "n1 = snd (text_or_id now_ms (js_field body ''id'') ''resp'' n)"
  obtain us where us: "fst (response_calls now_ms (narrow_list (js_field message ''tool_calls'')) n1) = map JObj us" "call_item_list us"
      "list_all2 keeps_call (List.map_filter chat_reply_call (narrow_list (js_field message ''tool_calls''))) (map item_reply_call us)"
    using response_calls_kept assms unfolding readable_chat_def message_def by meson
  have empty: "narrow_list (js_field message ''content'') = []" using assms by (simp add: readable_chat_def message_def)
  then show ?thesis using us
    by (auto simp: chat_to_responses_def Let_def split_beta keeps_reply_def responses_reply_def chat_reply_def content_records_values
          reply_simps message_def [symmetric] n1_def [symmetric] nonempty_text_def reasoning_item_def message_item_def
          blocks_of_type_def message_item_text_def joined_text_def is_output_text_def summary_texts_def call_item_list_def
          filter_empty_conv filter_id_conv map_filter_simps or_text_def
          split: option.splits)
qed

lemma read_items_kept:
  "rpr_messages (foldl read_item st vs) = rpr_messages st @ map message_item_text (blocks_of_type ''message'' (record_values vs))"
  "rpr_reasoning (foldl read_item st vs) = rpr_reasoning st @ concat (map summary_texts (blocks_of_type ''reasoning'' (record_values vs)))"
  by (induction vs arbitrary: st)
    (auto simp: read_item_def reply_simps blocks_of_type_def narrow_record_def split: json.splits)

lemma item_call_kept:
  "narrow_record (js_field item ''arguments'') = None \<Longrightarrow>
   \<exists>c. chat_reply_call (item_call len item) = Some c \<and> keeps_call (item_reply_call item) c"
  using json_object_or_text [of "js_field item ''arguments''"]
  by (auto simp: item_call_def chat_reply_call_made keeps_call_def item_reply_call_def or_text_def split: option.splits)

lemma read_calls_kept:
  assumes "list_all (\<lambda>item. narrow_record (js_field item ''arguments'') = None) (blocks_of_type ''function_call'' (record_values vs))"
  shows "\<exists>cs. rpr_calls (foldl read_item st vs) = rpr_calls st @ cs \<and>
     list_all2 keeps_call (map item_reply_call (blocks_of_type ''function_call'' (record_values vs))) (List.map_filter chat_reply_call cs)"
  using assms
proof (induction vs arbitrary: st)
  case Nil
  then show ?case by (simp add: reply_simps)
next
  case (Cons v vs)
  show ?case
  proof (cases "\<exists>item. v = JObj item \<and> js_field item ''type'' = Some (JStr ''function_call'')")
    case True
    then obtain item where v: "v = JObj item" "js_field item ''type'' = Some (JStr ''function_call'')" by blast
    have a: "narrow_record (js_field item ''arguments'') = None" using Cons.prems v by (simp add: reply_simps blocks_of_type_def)
    obtain c where c: "chat_reply_call (item_call (length (rpr_calls st)) item) = Some c" "keeps_call (item_reply_call item) c"
      using item_call_kept [OF a] by blast
    have "list_all (\<lambda>item. narrow_record (js_field item ''arguments'') = None) (blocks_of_type ''function_call'' (record_values vs))"
      using Cons.prems v by (simp add: reply_simps blocks_of_type_def)
    from Cons.IH [OF this, of "read_item st v"] obtain cs where cs: "rpr_calls (foldl read_item (read_item st v) vs) = rpr_calls (read_item st v) @ cs"
        "list_all2 keeps_call (map item_reply_call (blocks_of_type ''function_call'' (record_values vs))) (List.map_filter chat_reply_call cs)"
      by blast
    have "rpr_calls (read_item st v) = rpr_calls st @ [item_call (length (rpr_calls st)) item]"
      using v by (simp add: read_item_def reply_simps)
    then have "rpr_calls (foldl read_item st (v # vs)) = rpr_calls st @ (item_call (length (rpr_calls st)) item # cs)"
      using cs(1) by simp
    moreover have "list_all2 keeps_call (map item_reply_call (blocks_of_type ''function_call'' (record_values (v # vs))))
        (List.map_filter chat_reply_call (item_call (length (rpr_calls st)) item # cs))"
      using cs(2) c v by (simp add: reply_simps blocks_of_type_def map_filter_simps)
    ultimately show ?thesis by blast
  next
    case False
    then have "blocks_of_type ''function_call'' (record_values (v # vs)) = blocks_of_type ''function_call'' (record_values vs)"
      by (auto simp: reply_simps blocks_of_type_def split: json.splits)
    moreover have "rpr_calls (read_item st v) = rpr_calls st"
      using False by (auto simp: read_item_def narrow_record_def split: json.splits)
    ultimately show ?thesis using Cons.IH [of "read_item st v"] Cons.prems by simp
  qed
qed

lemma responses_message_read [reply_simps]:
  "js_field (responses_message body st) ''content'' = Some (JStr (case rpr_messages st of m # _ \<Rightarrow> m
      | [] \<Rightarrow> or_text (narrow_text (js_field body ''output_text'')) []))"
  "or_text (narrow_text (js_field (responses_message body st) ''reasoning_content'')) [] = concat (rpr_reasoning st)"
  "narrow_list (js_field (responses_message body st) ''tool_calls'') = rpr_calls st"
  by (auto simp: responses_message_def reply_simps)

lemma responses_to_chat_message:
  "chat_message (fst (responses_to_chat now_ms body n)) = responses_message body (read_items body)"
  by (simp add: responses_to_chat_def Let_def split_beta)

lemma responses_to_chat_keeps:
  assumes "readable_responses body"
  shows "keeps_reply (responses_reply body) (chat_reply (fst (responses_to_chat now_ms body n)))"
proof -
  define vs where "vs = narrow_list (js_field body ''output'')"
  define ms where "ms = blocks_of_type ''message'' (record_values vs)"
  have a: "list_all (\<lambda>item. narrow_record (js_field item ''arguments'') = None) (blocks_of_type ''function_call'' (record_values vs))"
      and m: "length ms \<le> 1" "ms = [] \<Longrightarrow> or_text (narrow_text (js_field body ''output_text'')) [] = []"
    using assms by (simp_all add: readable_responses_def content_records_values vs_def ms_def)
  obtain cs where cs: "rpr_calls (read_items body) = cs"
      "list_all2 keeps_call (map item_reply_call (blocks_of_type ''function_call'' (record_values vs))) (List.map_filter chat_reply_call cs)"
    using read_calls_kept [OF a, of no_parts] by (auto simp: read_items_def vs_def no_parts_def)
  have msgs: "rpr_messages (read_items body) = map message_item_text ms"
      and rs: "rpr_reasoning (read_items body) = concat (map summary_texts (blocks_of_type ''reasoning'' (record_values vs)))"
    using read_items_kept [of no_parts vs] by (simp_all add: read_items_def vs_def ms_def no_parts_def)
  have words: "(case rpr_messages (read_items body) of t # _ \<Rightarrow> t | [] \<Rightarrow> or_text (narrow_text (js_field body ''output_text'')) []) =
      concat (map message_item_text ms)"
    using m msgs by (cases ms) auto
  show ?thesis
    using cs rs words
    by (simp add: keeps_reply_def responses_reply_def chat_reply_def Let_def content_records_values responses_to_chat_message reply_simps
        vs_def [symmetric] ms_def [symmetric])
qed

text \<open>
  C14: whichever way a finished response is translated for the client (a messages provider for a chat
  or responses client, a chat or responses provider for the other surfaces), the reply says the same
  as the provider's: the same text, the same reasoning, the same tool calls in the same order with
  their names, arguments and ids. \<open>readable\<close> leaves out the bodies of which the translations read only
  a part (the lemmas below).
\<close>

theorem translation_keeps_reply:
  assumes "wire_surface_for metadata caps client = Some wire" "readable wire body"
    and "client \<in> {SfChat, SfResponses, SfMessages}" "pm_protocol metadata \<notin> {PrGemini, PrExa}"
  shows "keeps_reply (reply_of wire body)
    (reply_of client (fst (translate_non_stream show_num now_ms (pm_protocol metadata) wire client body n)))"
proof (cases "wire = client")
  case True
  then show ?thesis by (simp add: translate_non_stream_def keeps_reply_refl)
next
  case False
  have wire: "if pm_protocol metadata = PrAnthropic then wire = SfMessages else wire = SfChat \<or> wire = SfResponses"
    using assms(1,3,4) False by (auto simp: wire_surface_for_def Let_def split: if_splits)
  have via: "keeps_reply (reply_of wire body) r'" if "keeps_reply (reply_of wire body) r" "keeps_reply r r'" for r r'
    using keeps_reply_trans that by blast
  consider "pm_protocol metadata = PrAnthropic" "wire = SfMessages"
    | "pm_protocol metadata \<noteq> PrAnthropic" "wire = SfChat" | "pm_protocol metadata \<noteq> PrAnthropic" "wire = SfResponses"
    using wire by (auto split: if_splits)
  then show ?thesis
  proof cases
    case 1
    then have "readable_anthropic body" using assms(2) by (simp add: readable_def)
    from anthropic_to_chat_keeps [OF this, of show_num now_ms n] show ?thesis
      using 1 False assms(3) chat_to_responses_keeps via
      by (auto simp: translate_non_stream_def reply_of_def split_beta)
  next
    case 2
    then show ?thesis
      using False assms(2,3,4) chat_to_responses_keeps chat_to_anthropic_keeps
      by (auto simp: translate_non_stream_def reply_of_def readable_def)
  next
    case 3
    then have "readable_responses body" using assms(2) by (simp add: readable_def)
    from responses_to_chat_keeps [OF this, of now_ms n] show ?thesis
      using 3 False assms(3,4) chat_to_anthropic_keeps via
      by (auto simp: translate_non_stream_def reply_of_def split_beta)
  qed
qed

definition openai_metadata :: provider_metadata where
  "openai_metadata = \<lparr>pm_id = ''deepseek'', pm_display_name = ''DeepSeek'', pm_protocol = PrOpenai, pm_credential_kind = CkApiKey,
     pm_credential_url = None, pm_credential_kinds = None\<rparr>"

definition chat_capabilities :: capabilities where
  "chat_capabilities = no_capabilities\<lparr>cap_surfaces := [SfChat]\<rparr>"

definition sample_chat :: "(string \<times> json) list" where
  "sample_chat = [(''id'', JStr ''c1''), (''choices'', JArr [JObj [(''message'', JObj
     [(''content'', JStr ''hi''), (''tool_calls'', JArr [chat_call ''t1'' ''run'' ''{}''])])]])]"

theorem translation_keeps_reply_witness:
  "keeps_reply (reply_of SfChat sample_chat)
     (reply_of SfMessages (fst (translate_non_stream (\<lambda>_. []) 0 (pm_protocol openai_metadata) SfChat SfMessages sample_chat 0))) \<and>
   reply_text (reply_of SfChat sample_chat) = ''hi'' \<and> map rcall_id (reply_tools (reply_of SfChat sample_chat)) = [Some ''t1'']"
proof -
  have "wire_surface_for openai_metadata chat_capabilities SfMessages = Some SfChat"
    by (simp add: wire_surface_for_def openai_metadata_def chat_capabilities_def no_capabilities_def Let_def)
  moreover have "readable SfChat sample_chat"
    by (simp add: readable_def readable_chat_def sample_chat_def chat_message_def chat_choice_def head_option_def reply_simps)
  ultimately show ?thesis
    using translation_keeps_reply [of openai_metadata chat_capabilities SfMessages SfChat sample_chat "\<lambda>_. []" 0 0]
    by (simp add: openai_metadata_def reply_of_def chat_reply_def sample_chat_def chat_message_def chat_choice_def head_option_def
        chat_reply_call_made map_filter_simps Let_def reply_simps)
qed

subsection \<open>What the translations lose\<close>

text \<open>Of several message items only the first reaches the client (\<open>messages[0]\<close>).\<close>

lemma later_message_items_dropped:
  "let item = (\<lambda>s. JObj [(''type'', JStr ''message''),
         (''content'', JArr [JObj [(''type'', JStr ''output_text''), (''text'', JStr s)]])]);
       body = [(''output'', JArr [item ''one'', item ''two''])]
   in reply_text (responses_reply body) = ''onetwo'' \<and> reply_text (chat_reply (fst (responses_to_chat 0 body 0))) = ''one''"
  by (simp add: responses_reply_def chat_reply_def Let_def responses_to_chat_message read_items_def read_item_def no_parts_def
      content_records_values blocks_of_type_def message_item_text_def is_output_text_def joined_text_def reply_simps)

text \<open>
  An incomplete response is reported as a finished one: the status of a responses body is not read,
  and the status of a translated one is constant.
\<close>

lemma status_is_not_translated:
  "fst (responses_to_chat now_ms ((''status'', st) # body) n) = fst (responses_to_chat now_ms body n)"
  "js_field (fst (chat_to_responses now_ms chat n)) ''status'' = Some (JStr ''completed'')"
  by (simp_all add: responses_to_chat_def chat_to_responses_def read_items_def responses_message_def Let_def split_beta reply_simps
      cong: list.case_cong)

text \<open>A refusal of a messages provider becomes an ordinary stop for a chat client, and back a finished turn.\<close>

lemma refusal_becomes_stop:
  "finish_of_stop (Some ''refusal'') = ''stop''" "anthropic_stop_of_finish (Some ''stop'') = ''end_turn''"
  by (simp_all add: finish_of_stop_def anthropic_stop_of_finish_def)

text \<open>Chat content in parts reaches a messages client but not a responses client.\<close>

lemma content_parts_dropped:
  "let body = [(''choices'', JArr [JObj [(''message'', JObj [(''content'', JArr [JObj [(''text'', JStr ''hi'')]])])]])]
   in reply_text (chat_reply body) = ''hi'' \<and> reply_text (responses_reply (fst (chat_to_responses 0 body 0))) = []"
  by (simp add: responses_reply_def chat_reply_def Let_def split_beta chat_to_responses_def chat_message_def chat_choice_def head_option_def
      part_text_def map_filter_simps nonempty_text_def content_records_values blocks_of_type_def narrow_text_def or_text_def reply_simps)

text \<open>The id made up for a call of a messages provider carries the prefix twice.\<close>

lemma made_up_call_id_prefix:
  "fst (tool_use_calls show_num now_ms [b] n) = [chat_call cid name args] \<Longrightarrow> narrow_text (js_field b ''id'') = None \<Longrightarrow>
   prefix ''toolu_toolu-'' cid"
  by (auto simp: next_fallback_id_def chat_call_def Let_def)

text \<open>The counter of the made-up ids is a signed 32-bit integer.\<close>

lemma next_counter_range: "- (2 ^ 31) \<le> next_counter n \<and> next_counter n < 2 ^ 31"
  unfolding next_counter_def using pos_mod_bound [of "2 ^ 32" "n + 1 + 2 ^ 31"] pos_mod_sign [of "2 ^ 32" "n + 1 + 2 ^ 31"]
  by simp

end
