(* ===== verification/RequestPipeline.thy ===== *)
theory RequestPipeline imports Recovery Translation RoutingSnapshot Admission PromptCache FilterRules begin

text \<open>
  One proxy request from the parsed body to the reply (\<open>src/app/request.ts\<close>): the provider attempt
  with the resources it takes, the recovery loop around it, admission, the request log, telemetry and
  the presentation. What the dependencies answer (the normalization, the routes, a selection, a
  provider call, a hook) are the fields of a record. A run is the list of its effects, in order; the
  effects of the recovery loop are read off its trace, where a stream that is iterated to its end,
  or left, shows as \<open>EfClose\<close>.
\<close>

subsection \<open>What a request throws\<close>

text \<open>
  A thrown value: an error with the shape of a \<open>ProviderCallError\<close>, a protocol error (it has no
  \<open>source\<close>), a value parsed from the client's body, anything else. The status is \<open>JNull\<close> when it is
  missing.
\<close>

datatype raised =
    RaCall call_error
  | RaProtocol protocol_error
  | RaBody "(string \<times> json) list"
  | RaRefused admission_refusal
  | RaOther thrown

record failure =
  fl_status :: json
  fl_kind :: string
  fl_message :: string
  fl_source :: "error_source option"

definition call_failure :: "call_error \<Rightarrow> failure" where
  "call_failure e = \<lparr>fl_status = (case ce_status_code e of Some c \<Rightarrow> JNum (Num (of_int c)) | None \<Rightarrow> JNull),
     fl_kind = kind_name (ce_kind e), fl_message = ce_message e, fl_source = Some (ce_source e)\<rparr>"

definition protocol_failure :: "protocol_error \<Rightarrow> failure" where
  "protocol_failure e = \<lparr>fl_status = JNum (Num (of_int (pre_status e))), fl_kind = kind_name (pre_kind e),
     fl_message = pre_message e, fl_source = None\<rparr>"

definition refusal_message :: "admission_refusal \<Rightarrow> string" where
  "refusal_message r = (case r of
      RpmExceeded \<Rightarrow> ''API key requests-per-minute limit exceeded''
    | ConcurrencyLimit \<Rightarrow> ''API key concurrent request limit exceeded''
    | OneTimeLimit \<Rightarrow> ''API key one-time token limit exceeded''
    | DailyLimit \<Rightarrow> ''API key daily token limit exceeded''
    | MonthlyLimit \<Rightarrow> ''API key monthly token limit exceeded'')"

definition refusal_failure :: "admission_refusal \<Rightarrow> failure" where
  "refusal_failure r = \<lparr>fl_status = JNum (Num 429),
     fl_kind = kind_name (if r = ConcurrencyLimit then ConcurrencyExceeded else QuotaExceeded),
     fl_message = refusal_message r, fl_source = None\<rparr>"

text \<open>\<open>isProviderCallError\<close> on a JSON object.\<close>

definition is_call_error_body :: "(string \<times> json) list \<Rightarrow> bool" where
  "is_call_error_body fs \<longleftrightarrow> narrow_text (js_field fs ''kind'') \<noteq> None \<and>
     narrow_text (js_field fs ''sanitizedMessage'') \<noteq> None \<and>
     (case js_field fs ''retryable'' of Some (JBool b) \<Rightarrow> True | _ \<Rightarrow> False)"

definition body_failure :: "(string \<times> json) list \<Rightarrow> failure" where
  "body_failure fs =
    (if is_call_error_body fs
     then \<lparr>fl_status = (case js_field fs ''statusCode'' of Some v \<Rightarrow> v | None \<Rightarrow> JNull),
           fl_kind = or_text (narrow_text (js_field fs ''kind'')) [],
           fl_message = or_text (narrow_text (js_field fs ''sanitizedMessage'')) [], fl_source = None\<rparr>
     else call_failure (internal_call_error ThrownOther))"

definition rejection :: "narrow_failure \<Rightarrow> raised" where
  "rejection e = (case e of Failed p \<Rightarrow> RaProtocol p | Forged fs \<Rightarrow> RaBody fs)"

text \<open>\<open>normalizeError\<close>, on the values the pipeline throws and on those of an attempt or its stream.\<close>

definition failure_of :: "raised \<Rightarrow> failure" where
  "failure_of r = (case r of
      RaCall e \<Rightarrow> call_failure e
    | RaProtocol e \<Rightarrow> protocol_failure e
    | RaBody fs \<Rightarrow> body_failure fs
    | RaRefused a \<Rightarrow> refusal_failure a
    | RaOther t \<Rightarrow> call_failure (internal_call_error t))"

text \<open>An error object that converts itself is not asked to: it keeps its message only.\<close>

definition normalize_error :: "thrown_value \<Rightarrow> call_error" where
  "normalize_error v = (case v of
      TvShaped e \<Rightarrow> e
    | TvConvertible e \<Rightarrow> (internal_call_error ThrownOther)\<lparr>ce_message := ce_message e\<rparr>
    | TvOther t \<Rightarrow> internal_call_error t)"

definition raised_value :: "thrown_value \<Rightarrow> raised" where
  "raised_value v = RaCall (normalize_error v)"

subsection \<open>The wire surface\<close>

definition BLACKBOX_FORCE_RESPONSES_MODELS :: "string list" where
  "BLACKBOX_FORCE_RESPONSES_MODELS = [''openai/gpt-5.3-codex'', ''openai/gpt-5.4'']"

definition select_wire_surface :: "adapter \<Rightarrow> route_candidate \<Rightarrow> normalized_request \<Rightarrow> surface option" where
  "select_wire_surface a c req =
    (case wire_surface_for (ad_metadata a) (ad_capabilities a) (nr_source_surface req) of
       None \<Rightarrow> None
     | Some resolved \<Rightarrow>
         if ad_id a \<noteq> ''blackboxai'' \<or> nr_source_surface req \<noteq> SfChat \<or> SfResponses \<notin> set (cap_surfaces (ad_capabilities a))
         then Some resolved
         else let model_id = (if rc_model_id c \<noteq> [] then rc_model_id c else nr_model req)
           in Some (if model_id \<in> set BLACKBOX_FORCE_RESPONSES_MODELS then SfResponses else resolved))"

subsection \<open>One attempt\<close>

text \<open>A call of an adapter's \<open>call\<close> holds the in-flight mark of the provider; it is told by its candidate and its target.\<close>

datatype resource = AccountLease string | NetworkLease nat | ProviderCall route_candidate route_target

datatype resource_step = TakeRes resource | FreeRes resource

text \<open>
  What an attempt meets: the adapter of its candidate, the credential and network selections (a
  throw, null or a selection), and the provider's answer; a provider's throw has been through
  \<open>mapError\<close>. \<open>av_ids\<close> is the counter of the made-up ids.
\<close>

record attempt_env =
  av_adapter :: "adapter option"
  av_credential :: "thrown_value + credential_result option"
  av_network :: "thrown_value + string option option"
  av_call :: attempt_result
  av_ids :: int

text \<open>
  What it does: its result, the resource steps until it returns or throws, those left to the
  \<open>finally\<close> of the stream it hands off, the selection it recorded and, when the call succeeded, the id
  of its candidate.
\<close>

record attempt_run =
  ar_result :: attempt_result
  ar_steps :: "resource_step list"
  ar_deferred :: "resource_step list"
  ar_selection :: "attempt_selection option"
  ar_success :: "string option"

definition attempt_error :: "int \<Rightarrow> error_kind \<Rightarrow> bool \<Rightarrow> error_scope \<Rightarrow> string \<Rightarrow> call_error" where
  "attempt_error status k retryable scope msg = \<lparr>ce_status_code = Some status, ce_kind = k, ce_retryable = retryable,
     ce_route_scope = Some scope, ce_source = derive_error_source k (Some scope), ce_message = msg, ce_retry_at = None\<rparr>"

text \<open>The releases of \<open>attemptCleanup.run()\<close>, last added first.\<close>

definition cleanup_steps :: "resource cleanup \<Rightarrow> resource_step list" where
  "cleanup_steps stack = map FreeRes (ck_log (cleanup_run (\<lambda>_. False) stack))"

definition failed_attempt :: "thrown_value \<Rightarrow> resource_step list \<Rightarrow> attempt_selection option \<Rightarrow> attempt_run" where
  "failed_attempt v steps sel = \<lparr>ar_result = AttemptThrows v, ar_steps = steps, ar_deferred = [],
     ar_selection = sel, ar_success = None\<rparr>"

definition call_provider ::
  "(rat \<Rightarrow> string) \<Rightarrow> int \<Rightarrow> normalized_request \<Rightarrow> route_candidate \<Rightarrow> adapter \<Rightarrow> attempt_env \<Rightarrow> route_target \<Rightarrow>
   resource_step list \<Rightarrow> resource_step list \<Rightarrow> attempt_selection \<Rightarrow> attempt_run" where
  "call_provider show_num now_ms req c a env target taken cleanup sel =
    (let call = ProviderCall c target in
     case av_call env of
       AttemptThrows v \<Rightarrow> failed_attempt v (taken @ [TakeRes call, FreeRes call] @ cleanup) (Some sel)
     | AttemptStream events fin usage \<Rightarrow>
         \<lparr>ar_result = AttemptStream events fin usage, ar_steps = taken @ [TakeRes call],
          ar_deferred = FreeRes call # cleanup, ar_selection = Some sel, ar_success = Some (rc_id c)\<rparr>
     | AttemptBody body usage \<Rightarrow>
         \<lparr>ar_result = AttemptBody (if rt_surface target \<noteq> nr_source_surface req
             then fst (translate_non_stream show_num now_ms (pm_protocol (ad_metadata a)) (rt_surface target)
               (nr_source_surface req) body (av_ids env)) else body) usage,
          ar_steps = taken @ [TakeRes call, FreeRes call] @ cleanup, ar_deferred = [],
          ar_selection = Some sel, ar_success = Some (rc_id c)\<rparr>)"

definition attempt_on_network ::
  "(rat \<Rightarrow> string) \<Rightarrow> int \<Rightarrow> normalized_request \<Rightarrow> route_candidate \<Rightarrow> adapter \<Rightarrow> attempt_env \<Rightarrow>
   resource_step list \<Rightarrow> resource_step list \<Rightarrow> attempt_selection \<Rightarrow> attempt_run" where
  "attempt_on_network show_num now_ms req c a env taken cleanup sel =
    (case select_wire_surface a c req of
       None \<Rightarrow> failed_attempt (TvShaped (attempt_error 400 CapabilityUnsupported False ScProvider
         (''Provider '' @ quoted (rc_provider_id c) @ '' cannot translate this protocol surface''))) (taken @ cleanup) (Some sel)
     | Some wire \<Rightarrow>
        (case ad_resolve a (if rc_model_id c \<noteq> [] then rc_model_id c else nr_model req) wire of
           Inl e \<Rightarrow> failed_attempt (TvOther (ThrownError (ae_message e))) (taken @ cleanup) (Some sel)
         | Inr target \<Rightarrow> call_provider show_num now_ms req c a env target taken cleanup sel))"

definition attempt_with_adapter ::
  "(rat \<Rightarrow> string) \<Rightarrow> int \<Rightarrow> normalized_request \<Rightarrow> route_candidate \<Rightarrow> nat \<Rightarrow> adapter \<Rightarrow> attempt_env \<Rightarrow> attempt_run" where
  "attempt_with_adapter show_num now_ms req c index a env =
    (let needs = pm_credential_kind (ad_metadata a) \<noteq> CkNone in
     case (if needs then av_credential env else Inr None) of
       Inl v \<Rightarrow> failed_attempt v [] None
     | Inr credential \<Rightarrow>
         if needs \<and> credential = None
         then failed_attempt (TvShaped (attempt_error 503 CredentialUnavailable True ScAccount ''No eligible account available'')) [] None
         else let account = (case credential of Some r \<Rightarrow> [AccountLease (crr_lease_id r)] | None \<Rightarrow> []);
                  stack = fold cleanup_add account cleanup_empty
           in case av_network env of
                Inl v \<Rightarrow> failed_attempt v (map TakeRes account @ cleanup_steps stack) None
              | Inr None \<Rightarrow> failed_attempt (TvShaped (attempt_error 503 NetworkUnavailable True ScProxy ''No outbound network path available''))
                  (map TakeRes account @ cleanup_steps stack) None
              | Inr (Some proxy) \<Rightarrow>
                  attempt_on_network show_num now_ms req c a env (map TakeRes (account @ [NetworkLease index]))
                    (cleanup_steps (cleanup_add (NetworkLease index) stack))
                    \<lparr>as_account = map_option (\<lambda>r. ac_id (crr_account r)) credential, as_proxy = proxy\<rparr>)"

definition candidate_at :: "route_candidate list \<Rightarrow> nat \<Rightarrow> route_candidate option" where
  "candidate_at candidates index = nth_opt candidates (index mod length candidates)"

definition run_attempt ::
  "(rat \<Rightarrow> string) \<Rightarrow> int \<Rightarrow> normalized_request \<Rightarrow> route_candidate list \<Rightarrow> (nat \<Rightarrow> attempt_env) \<Rightarrow> nat \<Rightarrow> attempt_run" where
  "run_attempt show_num now_ms req candidates envs index =
    (case candidate_at candidates index of
       None \<Rightarrow> failed_attempt (TvShaped (attempt_error 503 ProviderUnavailable True ScProvider ''No route candidate available'')) [] None
     | Some c \<Rightarrow>
        (case av_adapter (envs index) of
           None \<Rightarrow> failed_attempt (TvShaped (attempt_error 503 CredentialUnavailable False ScProvider ''Provider is not configured'')) [] None
         | Some a \<Rightarrow> attempt_with_adapter show_num now_ms req c index a (envs index)))"

subsection \<open>The request and its dependencies\<close>

definition MAX_BODY_BYTES :: nat where "MAX_BODY_BYTES = 10 * 1024 * 1024"

text \<open>\<open>parseRequestBody\<close> (\<open>src/domain/protocols/surface.ts\<close>).\<close>

definition parse_request_body :: "nat \<Rightarrow> string \<Rightarrow> narrow_failure + json" where
  "parse_request_body max_bytes body =
    (if max_bytes < length body then Inl (protocol_fail ''body'' (''request body exceeds '' @ nat_str max_bytes @ '' bytes''))
     else let trimmed = trim body
       in if trimmed = [] then Inl (protocol_fail ''body'' ''request body is empty'')
          else if hd trimmed \<noteq> CHR ''{''
            then Inl (protocol_fail ''body'' ''request body must be a single JSON object (NDJSON batch bodies are not accepted)'')
          else case json_parse trimmed of
                 Some (JObj fs) \<Rightarrow> Inr (JObj fs)
               | Some v \<Rightarrow> Inl (protocol_fail ''body'' ''request body must be a JSON object'')
               | None \<Rightarrow> Inl (protocol_fail ''body'' ''request body is not valid JSON''))"

text \<open>\<open>ProxyRoutePlan\<close>, what \<open>resolveRoutes\<close> answers.\<close>

record proxy_plan =
  pp_affinity :: affinity_key
  pp_candidates :: "route_candidate list"
  pp_requested_model :: "string option"

text \<open>A body still to parse, or one the server has parsed.\<close>

record request_input =
  ri_body :: "string + json"
  ri_endpoint :: endpoint
  ri_acl :: route_acl
  ri_admission :: bool        \<comment> \<open>admission is configured and the request has an API key\<close>

record request_world =
  rw_normalize :: "endpoint \<Rightarrow> json \<Rightarrow> narrow_failure + normalized_request"
  rw_filter :: "(rx_compiler \<times> filter_config) option"
  rw_saver :: "(normalized_request \<Rightarrow> normalized_request) option"
  rw_show :: "rat \<Rightarrow> string"
  rw_admit :: "int \<Rightarrow> admission_refusal + admission_lease"      \<comment> \<open>\<open>acquire\<close> with the estimate\<close>
  rw_routes :: "normalized_request \<Rightarrow> thrown_value + proxy_plan"
  rw_attempts :: "nat \<Rightarrow> attempt_env"
  rw_max_attempts :: "int option"
  rw_now :: int
  rw_aborted :: "nat \<Rightarrow> bool"
  rw_wait :: "call_error \<Rightarrow> nat \<Rightarrow> call_error option"
  rw_pulls :: "nat \<Rightarrow> bool"                                  \<comment> \<open>the client reads on after n events\<close>
  rw_failure_hook :: "call_error \<Rightarrow> nat \<Rightarrow> thrown_value option"   \<comment> \<open>what \<open>onRouteFailure\<close> throws\<close>
  rw_switch_hook :: "call_error \<Rightarrow> nat \<Rightarrow> thrown_value option"
  rw_success_hook :: "thrown_value option"

subsection \<open>Effects\<close>

text \<open>
  \<open>FxSwitch\<close> has the scope, the previous and the replacement route. \<open>FxLog\<close> and \<open>FxFinish\<close> leave out
  the fields copied from the request.
\<close>

datatype request_effect =
    FxStart
  | FxInFlight
  | FxAdmit
  | FxSettle "admission_usage option"                      \<comment> \<open>None releases\<close>
  | FxUse resource_step
  | FxFailure route_candidate call_error "attempt_selection option"
  | FxSwitch error_scope string "string option"
  | FxSuccess route_candidate "attempt_selection option"
  | FxFirstToken
  | FxYield stream_event
  | FxLog log_event "string option" json "provider_usage option"
  | FxFinish json "string option" "provider_usage option"
  | FxCleanup
  | FxDone                                                   \<comment> \<open>\<open>decrementInFlight\<close>\<close>

text \<open>
  The guards of the closures \<open>settleAdmission\<close> and \<open>emitRequestLog\<close>: a lease is settled once, and one
  final line is logged.
\<close>

fun guard_effects :: "bool \<Rightarrow> bool \<Rightarrow> request_effect list \<Rightarrow> request_effect list" where
  "guard_effects held logged [] = []"
| "guard_effects held logged (FxAdmit # fx) = FxAdmit # guard_effects True logged fx"
| "guard_effects held logged (FxSettle u # fx) =
     (if held then FxSettle u # guard_effects False logged fx else guard_effects held logged fx)"
| "guard_effects held logged (FxLog ev provider status usage # fx) =
     (if ev = LeIncoming then FxLog ev provider status usage # guard_effects held logged fx
      else if logged then guard_effects held logged fx
      else FxLog ev provider status usage # guard_effects held True fx)"
| "guard_effects held logged (f # fx) = f # guard_effects held logged fx"

subsection \<open>Up to the routes\<close>

record prepared =
  pd_request :: "normalized_request option"
  pd_estimate :: int
  pd_candidates :: "route_candidate list option"
  pd_effects :: "request_effect list"

definition read_body :: "string + json \<Rightarrow> raised + json" where
  "read_body body =
    (case (case body of Inl s \<Rightarrow> parse_request_body MAX_BODY_BYTES s | Inr v \<Rightarrow> Inr v) of
       Inl e \<Rightarrow> Inl (rejection e)
     | Inr (JObj fs) \<Rightarrow> if is_protocol_error fs then Inl (RaBody fs) else Inr (JObj fs)
     | Inr v \<Rightarrow> Inr v)"

definition shape_request :: "request_world \<Rightarrow> normalized_request \<Rightarrow> normalized_request" where
  "shape_request w req =
    (let filtered = (case rw_filter w of None \<Rightarrow> req | Some (rx, cfg) \<Rightarrow> apply_filter_rules rx req cfg);
         planned = (case rw_saver w of None \<Rightarrow> filtered | Some f \<Rightarrow> f filtered)
     in apply_cache_plan planned (build_cache_plan (rw_show w) planned))"

definition no_route :: "bool \<Rightarrow> call_error" where
  "no_route blocked = attempt_error 404 ModelNotFound False ScProvider
    (if blocked then ''Model or provider is blocked by the API key ACL'' else ''No eligible route found'')"

definition allowed_candidates :: "route_acl \<Rightarrow> proxy_plan \<Rightarrow> route_candidate list" where
  "allowed_candidates acl plan =
    filter (\<lambda>c. is_route_allowed (rc_provider_id c) (rc_model_id c) acl (pp_requested_model plan)) (pp_candidates plan)"

definition prepare_routes :: "request_world \<Rightarrow> request_input \<Rightarrow> normalized_request \<Rightarrow> prepared \<Rightarrow> prepared \<times> raised option" where
  "prepare_routes w i req pd =
    (case rw_routes w req of
       Inl v \<Rightarrow> (pd, Some (raised_value v))
     | Inr plan \<Rightarrow>
        (let cands = allowed_candidates (ri_acl i) plan; pd = pd\<lparr>pd_candidates := Some cands\<rparr>
         in if cands = [] then (pd, Some (RaCall (no_route (pp_candidates plan \<noteq> [])))) else (pd, None)))"

definition prepare :: "request_world \<Rightarrow> request_input \<Rightarrow> prepared \<times> raised option" where
  "prepare w i =
    (let pd = \<lparr>pd_request = None, pd_estimate = 0, pd_candidates = None, pd_effects = [FxStart, FxInFlight]\<rparr>
     in case read_body (ri_body i) of
          Inl r \<Rightarrow> (pd, Some r)
        | Inr body \<Rightarrow>
           (case rw_normalize w (ri_endpoint i) body of
              Inl e \<Rightarrow> (pd, Some (rejection e))
            | Inr normalized \<Rightarrow>
               (let req = shape_request w normalized; pd = pd\<lparr>pd_request := Some req\<rparr>
                in if \<not> ri_admission i then prepare_routes w i req pd
                   else let pd = pd\<lparr>pd_estimate := estimate_request_tokens (or_record (Some body))\<rparr>
                     in case rw_admit w (pd_estimate pd) of
                          Inl refusal \<Rightarrow> (pd, Some (RaRefused refusal))
                        | Inr l \<Rightarrow> prepare_routes w i req (pd\<lparr>pd_effects := pd_effects pd @ [FxAdmit]\<rparr>))))"

subsection \<open>The recovery loop\<close>

definition pipeline_run :: "request_world \<Rightarrow> normalized_request \<Rightarrow> route_candidate list \<Rightarrow> nat \<Rightarrow> attempt_run" where
  "pipeline_run w req cands index = run_attempt (rw_show w) (rw_now w) req cands (rw_attempts w) index"

definition pipeline_max_attempts :: "request_world \<Rightarrow> int" where
  "pipeline_max_attempts w = min (max (case rw_max_attempts w of Some n \<Rightarrow> n | None \<Rightarrow> 2) 1) 6"

definition switches :: "call_error \<Rightarrow> bool" where
  "switches e \<longleftrightarrow> ce_route_scope e = Some ScAccount \<or> ce_route_scope e = Some ScProxy"

definition failure_hook :: "request_world \<Rightarrow> route_candidate list \<Rightarrow> call_error \<Rightarrow> nat \<Rightarrow> thrown_value option" where
  "failure_hook w cands e index =
    (case candidate_at cands index of
       None \<Rightarrow> None
     | Some c \<Rightarrow> (case rw_failure_hook w e index of
          Some x \<Rightarrow> Some x
        | None \<Rightarrow> if switches e then rw_switch_hook w e index else None))"

definition pipeline_env :: "request_world \<Rightarrow> normalized_request \<Rightarrow> route_candidate list \<Rightarrow> recover_env" where
  "pipeline_env w req cands = \<lparr>rv_attempt = \<lambda>index. ar_result (pipeline_run w req cands index),
     rv_max_attempts = pipeline_max_attempts w, rv_aborted = rw_aborted w, rv_map_error = Some normalize_error,
     rv_should_retry = None, rv_on_failure = failure_hook w cands, rv_wait = rw_wait w, rv_pulls = rw_pulls w\<rparr>"

text \<open>\<open>selected\<close> is \<open>selectedAttempts.get(index)\<close>.\<close>

definition failure_effects ::
  "request_world \<Rightarrow> route_candidate list \<Rightarrow> attempt_selection option \<Rightarrow> call_error \<Rightarrow> nat \<Rightarrow> request_effect list" where
  "failure_effects w cands selected e index =
    (case candidate_at cands index of
       None \<Rightarrow> []
     | Some c \<Rightarrow> FxFailure c e selected #
         (if rw_failure_hook w e index = None \<and> switches e
          then [FxSwitch (the (ce_route_scope e)) (rc_id c) (map_option rc_id (nth_opt cands (index + 1)))] else []))"

text \<open>\<open>made\<close> are the indices of the attempts so far, the last one first.\<close>

fun loop_effects ::
  "request_world \<Rightarrow> route_candidate list \<Rightarrow> (nat \<Rightarrow> attempt_run) \<Rightarrow> nat list \<Rightarrow> effect list \<Rightarrow> request_effect list" where
  "loop_effects w cands run made [] = []"
| "loop_effects w cands run made (EfAttempt index # tr) =
     map FxUse (ar_steps (run index)) @ loop_effects w cands run (index # made) tr"
| "loop_effects w cands run made (EfFailure e index # tr) =
     failure_effects w cands (if index \<in> set made then ar_selection (run index) else None) e index @
     loop_effects w cands run made tr"
| "loop_effects w cands run made (EfClose # tr) =
     (case made of index # _ \<Rightarrow> map FxUse (ar_deferred (run index)) | [] \<Rightarrow> []) @ loop_effects w cands run made tr"
| "loop_effects w cands run made (EfYield ev # tr) = FxYield ev # loop_effects w cands run made tr"
| "loop_effects w cands run made (EfCleanup # tr) = FxCleanup # loop_effects w cands run made tr"
| "loop_effects w cands run made (EfWait e index # tr) = loop_effects w cands run made tr"

fun mark_first_token :: "request_effect list \<Rightarrow> request_effect list" where
  "mark_first_token [] = []"
| "mark_first_token (FxYield (TextDelta s) # fx) = FxFirstToken # FxYield (TextDelta s) # fx"
| "mark_first_token (f # fx) = f # mark_first_token fx"

text \<open>\<open>successfulSelection\<close> and \<open>successfulCandidateId\<close>: those of the last call that did not throw.\<close>

definition last_success :: "(nat \<Rightarrow> attempt_run) \<Rightarrow> nat list \<Rightarrow> (string \<times> attempt_selection option) option" where
  "last_success run indices = foldl (\<lambda>acc index. case ar_success (run index) of
     Some cid \<Rightarrow> Some (cid, ar_selection (run index)) | None \<Rightarrow> acc) None indices"

definition success_report :: "route_candidate list \<Rightarrow> (string \<times> attempt_selection option) option \<Rightarrow> request_effect list" where
  "success_report cands success =
    (case success of
       None \<Rightarrow> []
     | Some (cid, sel) \<Rightarrow> (case find (\<lambda>c. rc_id c = cid) cands of Some c \<Rightarrow> [FxSuccess c sel] | None \<Rightarrow> []))"

definition reply_provider :: "route_candidate list \<Rightarrow> (string \<times> attempt_selection option) option \<Rightarrow> string option" where
  "reply_provider cands success =
    (case Option.bind success (\<lambda>(cid, sel). find (\<lambda>c. rc_id c = cid) cands) of
       Some c \<Rightarrow> Some (rc_provider_id c) | None \<Rightarrow> map_option rc_provider_id (head_option cands))"

subsection \<open>The outcome\<close>

datatype request_reply =
    ReplyBody "(string \<times> json) list"
  | ReplyStream "stream_event list"         \<comment> \<open>the events the client read\<close>
  | ReplyError json failure                   \<comment> \<open>the status and the public error\<close>

definition error_status :: "failure \<Rightarrow> json" where
  "error_status f = (if fl_status f = JNull then JNum (Num 502) else fl_status f)"

definition settle_usage :: "int \<Rightarrow> provider_usage option \<Rightarrow> admission_usage" where
  "settle_usage estimate u = (case u of
      None \<Rightarrow> \<lparr>au_input = of_int estimate, au_output = 0\<rparr>
    | Some us \<Rightarrow> \<lparr>au_input = (case us_input us of Some q \<Rightarrow> q | None \<Rightarrow> of_int estimate),
        au_output = (case us_output us of Some q \<Rightarrow> q | None \<Rightarrow> 0)\<rparr>)"

definition prepared_provider :: "prepared \<Rightarrow> string option" where
  "prepared_provider pd = map_option rc_provider_id (Option.bind (pd_candidates pd) head_option)"

text \<open>The \<open>catch\<close> and \<open>finally\<close>.\<close>

definition failure_end :: "prepared \<Rightarrow> raised \<Rightarrow> request_effect list" where
  "failure_end pd r =
    (let f = failure_of r; aborted = (fl_kind f = ''client_aborted'')
     in [FxSettle None, FxLog LeFailed (prepared_provider pd) (error_status f) None,
         FxFinish (if aborted then JNum (Num 0) else error_status f) (if aborted then None else Some (fl_kind f)) None,
         FxCleanup, FxDone])"

definition observed_usage :: "stream_event list \<Rightarrow> provider_usage option" where
  "observed_usage evs = foldl (\<lambda>acc ev. case ev of UsageEvent u \<Rightarrow> Some u | _ \<Rightarrow> acc) None evs"

definition terminal_reason :: "stream_event list \<Rightarrow> stop_reason option" where
  "terminal_reason evs = foldl (\<lambda>acc ev. case ev of MessageStop r \<Rightarrow> Some r | _ \<Rightarrow> acc) None evs"

text \<open>The end of a stream the client started to read; only a stream that ended well reports a success.\<close>

definition stream_end_effects ::
  "prepared \<Rightarrow> route_candidate list \<Rightarrow> (string \<times> attempt_selection option) option \<Rightarrow> stream_event list \<Rightarrow> stream_result \<Rightarrow>
   request_effect list" where
  "stream_end_effects pd cands success evs r =
    (if r = SrFinished \<and> terminal_reason evs \<noteq> None \<and> terminal_reason evs \<noteq> Some SrError then success_report cands success else []) @
    [FxSettle (Some (settle_usage (pd_estimate pd) (observed_usage evs))), FxDone,
     FxLog LeComplete (reply_provider cands success) (JNum (Num 200)) (observed_usage evs),
     FxFinish (JNum (Num 200)) None (observed_usage evs)]"

definition body_end ::
  "request_world \<Rightarrow> prepared \<Rightarrow> route_candidate list \<Rightarrow> (string \<times> attempt_selection option) option \<Rightarrow>
   (string \<times> json) list \<Rightarrow> provider_usage option \<Rightarrow> request_effect list \<times> request_reply" where
  "body_end w pd cands success body usage =
    (let report = success_report cands success;
         fx = [FxSettle (Some (settle_usage (pd_estimate pd) usage)),
               FxLog LeComplete (reply_provider cands success) (JNum (Num 200)) usage,
               FxFinish (JNum (Num 200)) None usage] @ report
     in case (if report = [] then None else rw_success_hook w) of
          None \<Rightarrow> (fx @ [FxDone], ReplyBody body)
        | Some v \<Rightarrow> (fx @ failure_end pd (raised_value v),
            ReplyError (error_status (failure_of (raised_value v))) (failure_of (raised_value v))))"

definition fail_request :: "prepared \<Rightarrow> raised \<Rightarrow> request_effect list \<times> request_reply" where
  "fail_request pd r = (failure_end pd r, ReplyError (error_status (failure_of r)) (failure_of r))"

definition call_request ::
  "request_world \<Rightarrow> prepared \<Rightarrow> normalized_request \<Rightarrow> route_candidate list \<Rightarrow> request_effect list \<times> request_reply" where
  "call_request w pd req cands =
    (let run = pipeline_run w req cands; env = pipeline_env w req cands;
         fx = (\<lambda>s. loop_effects w cands run [] (rs_trace s));
         success = (\<lambda>s. last_success run (attempts (rs_trace s)))
     in case recover_call env recover_start of
          (CallBody body usage, s) \<Rightarrow> apfst ((@) (fx s)) (body_end w pd cands (success s) body usage)
        | (CallThrows e, s) \<Rightarrow> apfst ((@) (fx s)) (fail_request pd (RaCall e))
        | (CallRaises v, s) \<Rightarrow> apfst ((@) (fx s)) (fail_request pd (raised_value v))
        | (CallStream events fin start, s) \<Rightarrow>
            (case recoverable_events env events fin start s of (r, s') \<Rightarrow>
               (mark_first_token (fx s') @
                 (if rw_pulls w 0 then stream_end_effects pd cands (success s') (yields (rs_trace s')) r else []),
                ReplyStream (yields (rs_trace s')))))"

definition run_proxy_request :: "request_world \<Rightarrow> request_input \<Rightarrow> request_effect list \<times> request_reply" where
  "run_proxy_request w i =
    (case prepare w i of
       (pd, Some r) \<Rightarrow> apfst (\<lambda>fx. guard_effects False False (pd_effects pd @ fx)) (fail_request pd r)
     | (pd, None) \<Rightarrow>
        (let cands = the (pd_candidates pd)
         in apfst (\<lambda>fx. guard_effects False False
              (pd_effects pd @ FxLog LeIncoming (prepared_provider pd) JNull None # fx))
            (call_request w pd (the (pd_request pd)) cands)))"

subsection \<open>The resources of a run\<close>

text \<open>
  What is held after some resource steps: \<open>None\<close> when something is released that is not held.
\<close>

fun hold :: "resource_step list \<Rightarrow> resource multiset \<Rightarrow> resource multiset option" where
  "hold [] held = Some held"
| "hold (TakeRes r # steps) held = hold steps (add_mset r held)"
| "hold (FreeRes r # steps) held = (if r \<in># held then hold steps (held - {#r#}) else None)"

lemma hold_append: "hold (xs @ ys) held = Option.bind (hold xs held) (hold ys)"
  by (induction xs held rule: hold.induct) auto

lemma hold_acquires: "hold (map TakeRes rs) held = Some (held + mset rs)"
  by (induction rs arbitrary: held) auto

lemma hold_releases: "hold (map FreeRes rs) (held + mset rs) = Some held"
  by (induction rs arbitrary: held) auto

lemma cleanup_loop_none: "cleanup_loop (\<lambda>_. False) released hs = (released @ hs, [])"
  by (induction hs arbitrary: released) auto

lemma cleanup_steps_stack:
  "cleanup_steps (fold cleanup_add hs cleanup_empty) = map FreeRes (rev hs)"
proof -
  have "ck_handles (fold cleanup_add hs c) = ck_handles c @ hs \<and> ck_log (fold cleanup_add hs c) = ck_log c
      \<and> \<not> ck_finished (fold cleanup_add hs c)" if "\<not> ck_finished c" for c :: "resource cleanup"
    using that by (induction hs arbitrary: c) (auto simp: cleanup_add_def)
  from this [of cleanup_empty] show ?thesis
    by (simp add: cleanup_steps_def cleanup_run_def cleanup_loop_none cleanup_empty_def split_beta)
qed

text \<open>An attempt holds something after it returned only when it hands a stream off.\<close>

definition handed_off :: "attempt_run \<Rightarrow> resource multiset" where
  "handed_off run = mset (List.map_filter (\<lambda>s. case s of FreeRes r \<Rightarrow> Some r | TakeRes r \<Rightarrow> None) (ar_deferred run))"

definition streams :: "attempt_result \<Rightarrow> bool" where
  "streams r \<longleftrightarrow> (case r of AttemptStream evs fin u \<Rightarrow> True | _ \<Rightarrow> False)"

definition run_balanced :: "attempt_run \<Rightarrow> bool" where
  "run_balanced run \<longleftrightarrow>
     (\<forall>held. hold (ar_steps run) held = Some (held + handed_off run) \<and>
        hold (ar_deferred run) (held + handed_off run) = Some held) \<and>
     (\<not> streams (ar_result run) \<longrightarrow> ar_deferred run = [])"

lemma released_resources [simp]: "List.map_filter (case_resource_step (\<lambda>r. None) Some) (map FreeRes rs) = rs"
  by (induction rs) (simp_all add: map_filter_simps)

lemma hold_taken:
  "hold (map TakeRes rs @ map FreeRes (rev rs)) held = Some held"
  "hold (map TakeRes rs @ [TakeRes c, FreeRes c] @ map FreeRes (rev rs)) held = Some held"
  using hold_releases [of "rev rs" held] by (simp_all add: hold_append hold_acquires)

lemma failed_attempt_balanced: "(\<And>held. hold steps held = Some held) \<Longrightarrow> run_balanced (failed_attempt v steps sel)"
  by (simp add: run_balanced_def failed_attempt_def handed_off_def map_filter_simps)

lemma call_provider_balanced:
  "run_balanced (call_provider show_num now_ms req c a env target (map TakeRes rs) (map FreeRes (rev rs)) sel)"
proof (cases "av_call env")
  case (AttemptThrows v)
  then show ?thesis by (simp add: call_provider_def Let_def failed_attempt_balanced hold_taken(2) [simplified])
next
  case (AttemptBody body usage)
  then show ?thesis using hold_taken(2) [of rs "ProviderCall c target"]
    by (simp add: call_provider_def Let_def run_balanced_def handed_off_def map_filter_simps)
next
  case (AttemptStream events fin usage)
  show ?thesis using AttemptStream hold_releases [of "ProviderCall c target # rev rs"]
    by (simp add: call_provider_def Let_def run_balanced_def handed_off_def hold_append hold_acquires streams_def map_filter_simps)
qed

lemma run_attempt_balanced: "run_balanced (run_attempt show_num now_ms req cands envs index)"
proof -
  have net: "run_balanced (attempt_on_network show_num now_ms req c a env (map TakeRes rs) (map FreeRes (rev rs)) sel)" for c a env rs sel
    unfolding attempt_on_network_def
    by (auto intro!: failed_attempt_balanced call_provider_balanced hold_taken(1) split: option.splits sum.splits)
  have stack: "cleanup_steps (cleanup_add h (fold cleanup_add hs cleanup_empty)) = map FreeRes (rev (hs @ [h]))" for h hs
    using cleanup_steps_stack [of "hs @ [h]"] by simp
  have "run_balanced (attempt_with_adapter show_num now_ms req c index a env)" for c a env
  proof (cases "if pm_credential_kind (ad_metadata a) \<noteq> CkNone then av_credential env else Inr None")
    case (Inl v)
    then show ?thesis by (simp only: attempt_with_adapter_def Let_def sum.case failed_attempt_balanced hold.simps)
  next
    case (Inr credential)
    define account where "account = (case credential of Some r \<Rightarrow> [AccountLease (crr_lease_id r)] | None \<Rightarrow> [])"
    show ?thesis
      unfolding attempt_with_adapter_def Let_def Inr sum.case account_def [symmetric] stack cleanup_steps_stack
      by (cases "av_network env"; cases "projr (av_network env)")
        (simp_all only: sum.case sum.sel option.case failed_attempt_balanced hold_taken(1) hold.simps net if_split_eq1 simp_thms split: if_split)
  qed
  then show ?thesis
    unfolding run_attempt_def by (auto intro: failed_attempt_balanced split: option.splits)
qed

text \<open>The stream an attempt handed off that is still to be iterated.\<close>

fun pending :: "(nat \<Rightarrow> bool) \<Rightarrow> nat option \<Rightarrow> effect list \<Rightarrow> nat option option" where
  "pending str p [] = Some p"
| "pending str p (EfAttempt i # tr) = (if p = None then pending str (if str i then Some i else None) tr else None)"
| "pending str p (EfClose # tr) = (if p = None then None else pending str None tr)"
| "pending str p (EfFailure e i # tr) = pending str p tr"
| "pending str p (EfWait e i # tr) = pending str p tr"
| "pending str p (EfYield ev # tr) = pending str p tr"
| "pending str p (EfCleanup # tr) = pending str p tr"

lemma pending_append: "pending str p (xs @ ys) = Option.bind (pending str p xs) (\<lambda>q. pending str q ys)"
  by (induction str p xs rule: pending.induct) auto

fun steps_of :: "request_effect list \<Rightarrow> resource_step list" where
  "steps_of [] = []"
| "steps_of (FxUse s # fx) = s # steps_of fx"
| "steps_of (_ # fx) = steps_of fx"

lemma steps_of_append [simp]: "steps_of (xs @ ys) = steps_of xs @ steps_of ys"
  by (induction xs rule: steps_of.induct) auto

lemma steps_of_uses [simp]: "steps_of (map FxUse ss) = ss"
  by (induction ss) auto

lemma steps_of_failure [simp]: "steps_of (failure_effects w cands sel e index) = []"
  by (auto simp: failure_effects_def split: option.splits)

lemma steps_of_guard [simp]: "steps_of (guard_effects held logged fx) = steps_of fx"
  by (induction held logged fx rule: guard_effects.induct) auto

lemma steps_of_mark [simp]: "steps_of (mark_first_token fx) = steps_of fx"
proof (induction fx rule: mark_first_token.induct)
  case "3_1" then show ?case by simp
qed auto

definition held_by :: "(nat \<Rightarrow> attempt_run) \<Rightarrow> nat option \<Rightarrow> resource multiset" where
  "held_by run p = (case p of Some i \<Rightarrow> handed_off (run i) | None \<Rightarrow> {#})"

lemma loop_effects_hold:
  assumes run: "\<And>i. run_balanced (run i)"
  shows "pending (\<lambda>i. streams (ar_result (run i))) p tr = Some q \<Longrightarrow> (\<And>i. p = Some i \<Longrightarrow> \<exists>rest. made = i # rest) \<Longrightarrow>
    hold (steps_of (loop_effects w cands run made tr)) (held_by run p) = Some (held_by run q)"
proof (induction "\<lambda>i. streams (ar_result (run i))" p tr arbitrary: made rule: pending.induct)
  case (2 p i tr)
  have steps: "hold (ar_steps (run i)) {#} = Some (handed_off (run i))" using run [of i] by (auto simp: run_balanced_def)
  have none: "\<not> streams (ar_result (run i)) \<Longrightarrow> handed_off (run i) = {#}"
    using run [of i] by (simp add: run_balanced_def handed_off_def map_filter_simps)
  have p: "p = None" using "2.prems"(1) by (auto split: if_splits)
  have eq: "held_by run (if streams (ar_result (run i)) then Some i else None) = handed_off (run i)"
    using none by (simp add: held_by_def)
  have "hold (steps_of (loop_effects w cands run (i # made) tr)) (held_by run (if streams (ar_result (run i)) then Some i else None)) = Some (held_by run q)"
    using "2.prems"(1) p by (intro "2.hyps") (auto split: if_splits)
  then show ?case using steps p by (simp add: hold_append eq) (simp add: held_by_def)
next
  case (3 p tr)
  then obtain i rest where p: "p = Some i" "made = i # rest" by (cases p) auto
  have "hold (ar_deferred (run i)) (handed_off (run i)) = Some {#}"
    using run [of i] by (metis (no_types) run_balanced_def add.left_neutral)
  moreover have "hold (steps_of (loop_effects w cands run made tr)) (held_by run None) = Some (held_by run q)"
    using "3.prems"(1) p by (intro "3.hyps") auto
  ultimately show ?case using p by (simp add: hold_append held_by_def)
qed auto

subsection \<open>Which streams are left unread\<close>

definition attempt_streams :: "recover_env \<Rightarrow> nat \<Rightarrow> bool" where
  "attempt_streams env i \<longleftrightarrow> streams (rv_attempt env i)"

abbreviation trace_pending :: "recover_env \<Rightarrow> recover_state \<Rightarrow> nat option option" where
  "trace_pending env s \<equiv> pending (attempt_streams env) None (rs_trace s)"

lemma pending_emit:
  "trace_pending env (emit_effect ef s) = Option.bind (trace_pending env s) (\<lambda>q. pending (attempt_streams env) q [ef])"
  by (simp add: emit_effect_def pending_append)

lemma fail_and_wait_pending:
  "fail_and_wait env index failure s = (r, s') \<Longrightarrow> trace_pending env s' = trace_pending env s"
  by (auto simp: fail_and_wait_def Let_def pending_emit split: prod.splits if_splits option.splits
      dest!: stream_retryable_trace)

lemma recover_turn_pending:
  assumes "recover_turn env index s = (t, s')" "trace_pending env s = Some None"
  shows "trace_pending env s' = Some (case t of Inl (CallStream evs fin start) \<Rightarrow> Some index | _ \<Rightarrow> None)"
  using assms
  by (auto simp: recover_turn_def Let_def pending_emit attempt_streams_def streams_def dest!: read_signal_trace should_retry_trace
      split: prod.splits if_splits attempt_result.splits option.splits)

lemma recover_from_pending:
  "recover_from env index l s = (r, s') \<Longrightarrow> trace_pending env s = Some None \<Longrightarrow>
   \<exists>k. trace_pending env s' = Some (case r of CallStream evs fin start \<Rightarrow> Some k | _ \<Rightarrow> None)"
proof (induction env index l s rule: recover_from.induct)
  case (1 env index l s)
  show ?case
  proof (cases "int index < rv_max_attempts env")
    case False
    then show ?thesis using "1.prems" by (auto simp: recover_from.simps [of env index] pending_emit)
  next
    case more: True
    obtain t s1 where turn: "recover_turn env index s = (t, s1)" by (cases "recover_turn env index s")
    note p = recover_turn_pending [OF turn "1.prems"(2)]
    show ?thesis
    proof (cases t)
      case (Inl r')
      then show ?thesis using "1.prems"(1) turn more p
        by (cases r') (auto simp: recover_from.simps [of env index] split: call_result.splits)
    next
      case (Inr failure)
      then have "recover_from env (index + 1) (Some failure) s1 = (r, s')" "trace_pending env s1 = Some None"
        using "1.prems"(1) turn more p by (simp_all add: recover_from.simps [of env index])
      then show ?thesis using "1.IH" [OF _ turn [symmetric, unfolded Inr] refl] more by auto
    qed
  qed
qed

lemma play_events_pending: "play_events env evs s = (r, s') \<Longrightarrow> trace_pending env s' = trace_pending env s"
proof (induction evs arbitrary: s)
  case (Cons ev evs)
  have "trace_pending env (emit_effect (EfYield ev) (s\<lparr>rs_lifecycle := l\<rparr>)) = trace_pending env s" for l
    by (auto simp: emit_effect_def pending_append)
  then show ?case using Cons by (auto simp: Let_def split: if_splits)
qed simp

lemma play_stream_pending:
  "play_stream env evs s = (r, s') \<Longrightarrow> trace_pending env s = Some (Some k) \<Longrightarrow> trace_pending env s' = Some None"
  by (auto simp: play_stream_def pending_emit split: prod.splits dest!: play_events_pending)

definition live_pending :: "recover_env \<Rightarrow> live_stream \<Rightarrow> recover_state \<Rightarrow> bool" where
  "live_pending env strm s \<longleftrightarrow> (\<exists>p. trace_pending env s = Some p \<and> (p = None \<longleftrightarrow> strm = None))"

lemma play_live_pending:
  assumes "play_live env strm index s = (r, s')" "live_pending env strm s"
  shows "trace_pending env s' = Some None"
  using assms
  by (auto simp: play_live_def live_pending_def dest!: fail_and_wait_pending dest: play_stream_pending
      split: option.splits prod.splits play_result.splits)

lemma attempt_again_pending:
  assumes "attempt_again env index s = (r, s')" "trace_pending env s = Some None"
  shows "case r of Inl x \<Rightarrow> trace_pending env s' = Some None | Inr (strm, j) \<Rightarrow> live_pending env strm s'"
  using assms
  by (auto simp: attempt_again_def Let_def pending_emit attempt_streams_def streams_def live_pending_def dest!: fail_and_wait_pending
      split: attempt_result.splits option.splits prod.splits)

lemma stream_turn_pending:
  assumes "stream_turn env strm index s = (r, s')" "live_pending env strm s"
  shows "case r of
      Inl x \<Rightarrow> (\<exists>p. trace_pending env s' = Some p \<and> (p \<noteq> None \<longrightarrow> (\<exists>n. rv_aborted env n)))
    | Inr (strm', j) \<Rightarrow> live_pending env strm' s'"
proof -
  obtain a s0 where sig: "read_signal env s = (a, s0)" by (cases "read_signal env s")
  have p0: "live_pending env strm s0" "rs_trace s0 = rs_trace s"
    using assms(2) read_signal_trace [OF sig] by (simp_all add: live_pending_def)
  show ?thesis
  proof (cases a)
    case True
    then have "\<exists>n. rv_aborted env n" using sig by (auto simp: read_signal_def)
    then show ?thesis using assms(1) sig True p0 by (auto simp: stream_turn_def live_pending_def)
  next
    case False
    then have t: "(case play_live env strm index s0 of (Inl r, s) \<Rightarrow> (Inl r, s) | (Inr j, s) \<Rightarrow> attempt_again env j s) = (r, s')"
      using assms(1) sig by (simp add: stream_turn_def)
    obtain x s1 where pl: "play_live env strm index s0 = (x, s1)" by (cases "play_live env strm index s0")
    note n = play_live_pending [OF pl p0(1)]
    show ?thesis
      using t pl n attempt_again_pending [of env _ s1 r s'] by (cases x) (auto split: sum.splits)
  qed
qed

lemma stream_loop_pending:
  assumes "live_pending env strm s" "stream_loop env strm index s = (r, s')"
  shows "\<exists>p. trace_pending env s' = Some p \<and> (p \<noteq> None \<longrightarrow> (\<exists>n. rv_aborted env n))"
  using stream_loop_invariant [of "\<lambda>strm index s. live_pending env strm s" env
      "\<lambda>r s. \<exists>p. trace_pending env s = Some p \<and> (p \<noteq> None \<longrightarrow> (\<exists>n. rv_aborted env n))", OF _ _ assms]
    stream_turn_pending by fastforce

lemma recover_call_pending:
  assumes "recover_call env recover_start = (r, s)"
  shows "\<exists>k. trace_pending env s = Some (case r of CallStream evs fin start \<Rightarrow> Some k | _ \<Rightarrow> None)"
  using recover_from_pending [OF assms [unfolded recover_call_def]] by (simp add: recover_start_def)

lemma recoverable_events_pending:
  assumes "recover_call env recover_start = (CallStream evs fin start, s)" "recoverable_events env evs fin start s = (r, s')"
  shows "\<exists>p. trace_pending env s' = Some p \<and> (p \<noteq> None \<longrightarrow> \<not> rv_pulls env 0 \<or> (\<exists>n. rv_aborted env n))"
proof -
  obtain k where k: "trace_pending env s = Some (Some k)" using recover_call_pending [OF assms(1)] by auto
  show ?thesis
  proof (cases "rv_pulls env 0")
    case False
    then show ?thesis using assms(2) k by (auto simp: recoverable_events_def)
  next
    case True
    then obtain s1 where s1: "stream_loop env (Some (evs, fin)) start s = (r, s1)" "s' = emit_effect EfCleanup s1"
      using assms(2) by (auto simp: recoverable_events_def split: prod.splits)
    have "live_pending env (Some (evs, fin)) s" using k by (simp add: live_pending_def)
    from stream_loop_pending [OF this s1(1)] show ?thesis using s1(2) by (auto simp: pending_emit)
  qed
qed

subsection \<open>Case analysis of a run\<close>

lemma pipeline_env_fields:
  "rv_attempt (pipeline_env w req cands) = (\<lambda>i. ar_result (pipeline_run w req cands i))"
  "rv_pulls (pipeline_env w req cands) = rw_pulls w" "rv_aborted (pipeline_env w req cands) = rw_aborted w"
  by (simp_all add: pipeline_env_def)

lemma steps_of_ends [simp]:
  "steps_of (failure_end pd r) = []" "steps_of (success_report cands success) = []"
  "steps_of (stream_end_effects pd cands success evs res) = []" "steps_of (fst (body_end w pd cands success body usage)) = []"
  by (auto simp: failure_end_def stream_end_effects_def success_report_def body_end_def Let_def split: option.splits)

text \<open>The trace the effects of a call are read off, and whether its stream was left unread.\<close>

definition final_trace :: "request_world \<Rightarrow> normalized_request \<Rightarrow> route_candidate list \<Rightarrow> effect list" where
  "final_trace w req cands = rs_trace (snd (recover_and_consume (pipeline_env w req cands) recover_start))"

lemma call_request_steps:
  "steps_of (fst (call_request w pd req cands)) =
   steps_of (loop_effects w cands (pipeline_run w req cands) [] (final_trace w req cands))"
  by (auto simp: call_request_def final_trace_def recover_and_consume_def fail_request_def Let_def split: prod.splits call_result.splits)

lemma final_trace_pending:
  "\<exists>p. pending (\<lambda>i. streams (ar_result (pipeline_run w req cands i))) None (final_trace w req cands) = Some p \<and>
     (p \<noteq> None \<longrightarrow> \<not> rw_pulls w 0 \<or> (\<exists>n. rw_aborted w n))"
proof -
  define env where "env = pipeline_env w req cands"
  obtain r s where c: "recover_call env recover_start = (r, s)" by (cases "recover_call env recover_start")
  have str: "attempt_streams env = (\<lambda>i. streams (ar_result (pipeline_run w req cands i)))"
    by (simp add: attempt_streams_def env_def pipeline_env_fields fun_eq_iff)
  show ?thesis
  proof (cases "\<exists>evs fin start. r = CallStream evs fin start")
    case True
    then obtain evs fin start where r: "r = CallStream evs fin start" by blast
    obtain res s' where e: "recoverable_events env evs fin start s = (res, s')" by (cases "recoverable_events env evs fin start s")
    have "final_trace w req cands = rs_trace s'"
      using c r e by (simp add: final_trace_def recover_and_consume_def env_def [symmetric])
    then show ?thesis using recoverable_events_pending [OF c [unfolded r] e] by (simp add: str) (simp add: env_def pipeline_env_fields)
  next
    case False
    then have "final_trace w req cands = rs_trace s"
      using c by (cases r) (auto simp: final_trace_def recover_and_consume_def env_def [symmetric])
    then show ?thesis using recover_call_pending [OF c] False by (cases r) (auto simp: str)
  qed
qed

lemma call_request_hold:
  "\<exists>p. hold (steps_of (fst (call_request w pd req cands))) {#} = Some (held_by (pipeline_run w req cands) p) \<and>
     (p \<noteq> None \<longrightarrow> \<not> rw_pulls w 0 \<or> (\<exists>n. rw_aborted w n))"
proof -
  obtain p where p: "pending (\<lambda>i. streams (ar_result (pipeline_run w req cands i))) None (final_trace w req cands) = Some p"
      "p \<noteq> None \<longrightarrow> \<not> rw_pulls w 0 \<or> (\<exists>n. rw_aborted w n)"
    using final_trace_pending by blast
  have "\<And>i. run_balanced (pipeline_run w req cands i)" by (simp add: pipeline_run_def run_attempt_balanced)
  from loop_effects_hold [OF this p(1)] show ?thesis
    using p(2) by (intro exI [of _ p]) (simp add: call_request_steps held_by_def)
qed

lemma prepare_effects:
  "prepare w i = (pd, r) \<Longrightarrow> pd_effects pd = [FxStart, FxInFlight] \<or> pd_effects pd = [FxStart, FxInFlight, FxAdmit]"
  by (auto simp: prepare_def prepare_routes_def Let_def split: sum.splits if_splits)

lemma run_request_cases:
  obtains pd r where "prepare w i = (pd, Some r)"
      "run_proxy_request w i = (guard_effects False False (pd_effects pd @ failure_end pd r), ReplyError (error_status (failure_of r)) (failure_of r))"
  | pd fx reply where "prepare w i = (pd, None)" "call_request w pd (the (pd_request pd)) (the (pd_candidates pd)) = (fx, reply)"
      "run_proxy_request w i = (guard_effects False False (pd_effects pd @ FxLog LeIncoming (prepared_provider pd) JNull None # fx), reply)"
proof (cases "prepare w i")
  case (Pair pd r)
  then show thesis using that
    by (cases r; cases "call_request w pd (the (pd_request pd)) (the (pd_candidates pd))")
      (auto simp: run_proxy_request_def fail_request_def)
qed

subsection \<open>What is settled, logged and counted\<close>

definition is_settle :: "request_effect \<Rightarrow> bool" where
  "is_settle f \<longleftrightarrow> (case f of FxSettle u \<Rightarrow> True | _ \<Rightarrow> False)"

definition is_final_log :: "request_effect \<Rightarrow> bool" where
  "is_final_log f \<longleftrightarrow> (case f of FxLog ev provider status usage \<Rightarrow> ev \<noteq> LeIncoming | _ \<Rightarrow> False)"

definition number_of :: "(request_effect \<Rightarrow> bool) \<Rightarrow> request_effect list \<Rightarrow> nat" where
  "number_of f fx = length (filter f fx)"

lemma number_of_simps [simp]:
  "number_of f [] = 0" "number_of f (x # fx) = (if f x then 1 else 0) + number_of f fx"
  "number_of f (xs @ ys) = number_of f xs + number_of f ys"
  by (simp_all add: number_of_def)

lemma effect_kinds [simp]:
  "is_settle (FxSettle u)" "\<not> is_settle FxStart" "\<not> is_settle FxInFlight" "\<not> is_settle FxAdmit" "\<not> is_settle (FxUse s)"
  "\<not> is_settle (FxFailure c e sel)" "\<not> is_settle (FxSwitch sc a b)" "\<not> is_settle (FxSuccess c sel)" "\<not> is_settle FxFirstToken"
  "\<not> is_settle (FxYield evt)" "\<not> is_settle (FxLog ev p st us)" "\<not> is_settle (FxFinish st k us)" "\<not> is_settle FxCleanup" "\<not> is_settle FxDone"
  "is_final_log (FxLog ev p st us) = (ev \<noteq> LeIncoming)" "\<not> is_final_log (FxSettle u)" "\<not> is_final_log FxStart" "\<not> is_final_log FxInFlight"
  "\<not> is_final_log FxAdmit" "\<not> is_final_log (FxUse s)" "\<not> is_final_log (FxFailure c e sel)" "\<not> is_final_log (FxSwitch sc a b)"
  "\<not> is_final_log (FxSuccess c sel)" "\<not> is_final_log FxFirstToken" "\<not> is_final_log (FxYield evt)" "\<not> is_final_log (FxFinish st k us)"
  "\<not> is_final_log FxCleanup" "\<not> is_final_log FxDone"
  by (simp_all add: is_settle_def is_final_log_def)

lemma guard_settles:
  "FxAdmit \<notin> set fx \<Longrightarrow> number_of is_settle (guard_effects held logged fx) = (if held \<and> 0 < number_of is_settle fx then 1 else 0)"
proof (induction fx arbitrary: held logged)
  case (Cons f fx)
  then show ?case by (cases f; cases held) auto
qed simp

lemma guard_logs:
  "number_of is_final_log (guard_effects held logged fx) = (if \<not> logged \<and> 0 < number_of is_final_log fx then 1 else 0)"
proof (induction fx arbitrary: held logged)
  case (Cons f fx)
  then show ?case by (cases f; cases held; cases logged) auto
qed simp

lemma guard_keeps:
  "(\<And>u. \<not> f (FxSettle u)) \<Longrightarrow> (\<And>ev p st us. \<not> f (FxLog ev p st us)) \<Longrightarrow>
   number_of f (guard_effects held logged fx) = number_of f fx"
  by (induction held logged fx rule: guard_effects.induct) auto

text \<open>The loop's effects are none of the final ones.\<close>

definition quiet :: "request_effect \<Rightarrow> bool" where
  "quiet f \<longleftrightarrow> (case f of FxUse s \<Rightarrow> True | FxFailure c e sel \<Rightarrow> True | FxSwitch sc a b \<Rightarrow> True | FxYield ev \<Rightarrow> True
     | FxCleanup \<Rightarrow> True | FxFirstToken \<Rightarrow> True | _ \<Rightarrow> False)"

lemma loop_effects_quiet: "list_all quiet (loop_effects w cands run made tr)"
  by (induction w cands run made tr rule: loop_effects.induct)
    (auto simp: quiet_def failure_effects_def list_all_iff split: option.splits list.splits)

lemma mark_first_token_quiet: "list_all quiet fx \<Longrightarrow> list_all quiet (mark_first_token fx)"
  by (induction fx rule: mark_first_token.induct) (auto simp: quiet_def)

lemma quiet_number: "list_all quiet fx \<Longrightarrow> (\<And>x. quiet x \<Longrightarrow> \<not> f x) \<Longrightarrow> number_of f fx = 0"
  by (auto simp: number_of_def list_all_iff)

lemma quiet_not: "quiet x \<Longrightarrow> \<not> is_settle x \<and> \<not> is_final_log x \<and> x \<noteq> FxDone \<and> x \<noteq> FxAdmit \<and> x \<noteq> FxInFlight"
  by (cases x) (auto simp: quiet_def)

text \<open>
  A call is its loop, which changes none of the books, and an ending that closes all of them; the
  ending is missing when the client never reads the stream.
\<close>

definition closes_books :: "request_effect list \<Rightarrow> bool" where
  "closes_books fx \<longleftrightarrow> 0 < number_of is_settle fx \<and> 0 < number_of is_final_log fx \<and> number_of ((=) FxDone) fx = 1 \<and>
     FxAdmit \<notin> set fx \<and> FxInFlight \<notin> set fx"

lemma endings_close:
  "closes_books (failure_end pd r)" "closes_books (fst (body_end w pd cands success body usage))"
  "closes_books (stream_end_effects pd cands success evs res)"
  by (auto simp: closes_books_def failure_end_def body_end_def stream_end_effects_def success_report_def Let_def
      split: option.splits)

lemma call_request_parts:
  assumes "call_request w pd req cands = (fx, reply)"
  obtains pre ending where "fx = pre @ ending" "list_all quiet pre"
    "if rw_pulls w 0 \<or> (\<forall>evs. reply \<noteq> ReplyStream evs) then closes_books ending else ending = []"
proof -
  have quiet: "list_all quiet (loop_effects w cands run [] tr)" "list_all quiet (mark_first_token (loop_effects w cands run [] tr))" for run tr
    by (simp_all add: loop_effects_quiet mark_first_token_quiet)
  have no_stream: "\<forall>evs. snd (body_end w pd cands success body usage) \<noteq> ReplyStream evs" for success body usage
    by (auto simp: body_end_def Let_def split: option.splits)
  obtain r s where c: "recover_call (pipeline_env w req cands) recover_start = (r, s)"
    by (cases "recover_call (pipeline_env w req cands) recover_start")
  show thesis
  proof (cases r)
    case (CallBody body usage)
    define be where "be = body_end w pd cands (last_success (pipeline_run w req cands) (attempts (rs_trace s))) body usage"
    have "fx = loop_effects w cands (pipeline_run w req cands) [] (rs_trace s) @ fst be" "reply = snd be"
      using assms c CallBody by (simp_all add: call_request_def Let_def be_def apfst_def map_prod_def split_beta)
    then show thesis using quiet(1) endings_close(2) no_stream by (intro that) (simp_all add: be_def)
  next
    case (CallStream evs fin start)
    then show thesis using assms c quiet(2) endings_close(3) that
      by (auto simp: call_request_def Let_def split: prod.splits if_splits)
  next
    case (CallThrows e)
    then show thesis using assms c that quiet(1) endings_close(1)
      by (auto simp: call_request_def fail_request_def Let_def)
  next
    case (CallRaises v)
    then show thesis using assms c that quiet(1) endings_close(1)
      by (auto simp: call_request_def fail_request_def Let_def)
  qed
qed

subsection \<open>Only allowed routes\<close>

lemma candidate_at_mem: "candidate_at cands index = Some c \<Longrightarrow> c \<in> set cands"
  by (auto simp: candidate_at_def nth_opt_def split: if_splits)

lemma cleanup_steps_no_take: "TakeRes r \<notin> set (cleanup_steps stack)"
  by (auto simp: cleanup_steps_def)

text \<open>What an attempt may call: its own candidate, at the model of that candidate.\<close>

definition called_by :: "normalized_request \<Rightarrow> route_candidate list \<Rightarrow> (nat \<Rightarrow> attempt_env) \<Rightarrow> nat \<Rightarrow> route_candidate \<Rightarrow> route_target \<Rightarrow> bool" where
  "called_by req cands envs index c target \<longleftrightarrow> candidate_at cands index = Some c \<and>
     (\<exists>a wire. av_adapter (envs index) = Some a \<and> select_wire_surface a c req = Some wire \<and>
        ad_resolve a (if rc_model_id c \<noteq> [] then rc_model_id c else nr_model req) wire = Inr target)"

lemma run_attempt_calls:
  assumes "TakeRes (ProviderCall c target) \<in> set (ar_steps (run_attempt show_num now_ms req cands envs index)) \<union>
    set (ar_deferred (run_attempt show_num now_ms req cands envs index))"
  shows "called_by req cands envs index c target"
proof -
  let ?resolved = "\<lambda>a d. \<exists>wire. select_wire_surface a d req = Some wire \<and>
        ad_resolve a (if rc_model_id d \<noteq> [] then rc_model_id d else nr_model req) wire = Inr target"
  have call: "TakeRes (ProviderCall c target) \<in> set taken \<union> set cl \<or> (d = c \<and> t = target)"
    if "TakeRes (ProviderCall c target) \<in> set (ar_steps (call_provider show_num now_ms req d a env t taken cl sel)) \<union>
        set (ar_deferred (call_provider show_num now_ms req d a env t taken cl sel))" for d a env t taken cl sel
    using that by (auto simp: call_provider_def failed_attempt_def Let_def split: attempt_result.splits)
  have net: "TakeRes (ProviderCall c target) \<in> set taken \<union> set cl \<or> (d = c \<and> ?resolved a d)"
    if "TakeRes (ProviderCall c target) \<in> set (ar_steps (attempt_on_network show_num now_ms req d a env taken cl sel)) \<union>
        set (ar_deferred (attempt_on_network show_num now_ms req d a env taken cl sel))" for d a env taken cl sel
  proof (cases "select_wire_surface a d req")
    case None
    then show ?thesis using that by (auto simp: attempt_on_network_def failed_attempt_def)
  next
    case (Some wire)
    then show ?thesis using that call
      by (cases "ad_resolve a (if rc_model_id d \<noteq> [] then rc_model_id d else nr_model req) wire")
        (force simp: attempt_on_network_def failed_attempt_def)+
  qed
  have with_adapter: "d = c \<and> ?resolved a d"
    if "TakeRes (ProviderCall c target) \<in> set (ar_steps (attempt_with_adapter show_num now_ms req d index a env)) \<union>
        set (ar_deferred (attempt_with_adapter show_num now_ms req d index a env))" for d a env
    using that by (auto simp: attempt_with_adapter_def Let_def failed_attempt_def cleanup_steps_no_take dest!: net [simplified]
        split: if_splits sum.splits option.splits)
  obtain d where d: "candidate_at cands index = Some d"
    using assms by (cases "candidate_at cands index") (auto simp: run_attempt_def failed_attempt_def)
  moreover obtain a where a: "av_adapter (envs index) = Some a"
    using assms d by (cases "av_adapter (envs index)") (auto simp: run_attempt_def failed_attempt_def)
  moreover have "d = c \<and> ?resolved a d"
    using assms with_adapter by (simp add: run_attempt_def d a)
  ultimately show ?thesis by (auto simp: called_by_def)
qed

lemma loop_effects_calls:
  assumes "\<And>i. set (ar_steps (run i)) \<union> set (ar_deferred (run i)) \<subseteq> S"
  shows "set (steps_of (loop_effects w cands run made tr)) \<subseteq> S"
  using assms by (induction w cands run made tr rule: loop_effects.induct) (auto split: list.splits)

lemma prepare_plan:
  "prepare w i = (pd, None) \<Longrightarrow> \<exists>req plan. pd_request pd = Some req \<and> rw_routes w req = Inr plan \<and>
     pd_candidates pd = Some (allowed_candidates (ri_acl i) plan)"
  by (auto simp: prepare_def prepare_routes_def Let_def split: sum.splits if_splits)

text \<open>The key's lists, one by one.\<close>

lemma route_allowed_lists:
  assumes "is_route_allowed p m acl requested"
  shows "let names = {m, p @ ''/'' @ m} \<union> set_option requested
    in (\<forall>ps. acl_providers acl = Some ps \<and> ps \<noteq> [] \<longrightarrow> p \<in> set ps \<or> ''*'' \<in> set ps) \<and>
       (\<forall>ms. acl_models acl = Some ms \<and> ms \<noteq> [] \<longrightarrow> (\<exists>name\<in>names. name \<in> set ms) \<or> ''*'' \<in> set ms) \<and>
       (\<forall>ds. acl_denied acl = Some ds \<longrightarrow> (\<forall>name\<in>names. name \<notin> set ds) \<and> ''*'' \<notin> set ds)"
proof -
  have one: "names_one es cs \<longleftrightarrow> ''*'' \<in> set es \<or> (\<exists>name\<in>cs. name \<in> set es)" for es cs
    by (auto simp: names_one_def)
  define ns star where ns: "ns = {m, p @ ''/'' @ m} \<union> set_option requested" and star: "star = ''*''"
  have "(acl_providers acl = None \<or> acl_providers acl = Some [] \<or> star \<in> set (the (acl_providers acl)) \<or> p \<in> set (the (acl_providers acl))) \<and>
      (acl_models acl = None \<or> acl_models acl = Some [] \<or> star \<in> set (the (acl_models acl)) \<or> (\<exists>name\<in>ns. name \<in> set (the (acl_models acl)))) \<and>
      (acl_denied acl = None \<or> \<not> (star \<in> set (the (acl_denied acl)) \<or> (\<exists>name\<in>ns. name \<in> set (the (acl_denied acl)))))"
    using assms unfolding is_route_allowed_iff one Let_def ns [symmetric] star [symmetric] by blast
  then show ?thesis unfolding Let_def ns [symmetric] star [symmetric] by force
qed

subsection \<open>Properties\<close>

text \<open>
  C1: no request gives back what it does not hold, and when it ends every credential lease, proxy slot
  and provider in-flight mark of its attempts has been given back exactly once, across retries, hooks
  that throw and broken streams; this needs a client that starts to read its stream and does not
  disconnect (the lemmas below show both leaks).
\<close>

theorem request_resources_returned:
  "\<exists>left. hold (steps_of (fst (run_proxy_request w i))) {#} = Some left \<and>
     (rw_pulls w 0 \<and> (\<forall>n. \<not> rw_aborted w n) \<longrightarrow> left = {#})"
proof (cases rule: run_request_cases [of w i])
  case (1 pd r)
  then show ?thesis using prepare_effects [OF 1(1)] by auto
next
  case (2 pd fx reply)
  obtain p where p: "hold (steps_of fx) {#} = Some (held_by (pipeline_run w (the (pd_request pd)) (the (pd_candidates pd))) p)"
      "p \<noteq> None \<longrightarrow> \<not> rw_pulls w 0 \<or> (\<exists>n. rw_aborted w n)"
    using call_request_hold [of w pd "the (pd_request pd)" "the (pd_candidates pd)"] 2(2) by auto
  have "steps_of (pd_effects pd) = []" using prepare_effects [OF 2(1)] by auto
  then have "steps_of (fst (run_proxy_request w i)) = steps_of fx" by (simp add: 2(3))
  then show ?thesis using p by (cases p) (auto simp: held_by_def)
qed

text \<open>
  C2: a request that does not end in an unread stream closes its books exactly once: one in-flight
  decrement for its increment, one settlement (commit or release) of the admission lease if it was
  granted one, one final line in the request log.
\<close>

theorem request_books_closed:
  assumes "run_proxy_request w i = (fx, reply)" "rw_pulls w 0 \<or> (\<forall>evs. reply \<noteq> ReplyStream evs)"
  shows "number_of ((=) FxInFlight) fx = 1 \<and> number_of ((=) FxDone) fx = 1 \<and>
    number_of is_settle fx = number_of ((=) FxAdmit) fx \<and> number_of is_final_log fx = 1"
proof -
  have closed: ?thesis
    if prep: "pd_effects pd = [FxStart, FxInFlight] \<or> pd_effects pd = [FxStart, FxInFlight, FxAdmit]"
      and pre: "list_all (\<lambda>x. quiet x \<or> (\<exists>p. x = FxLog LeIncoming p JNull None)) pre"
      and closes: "closes_books ending" and fx: "fx = guard_effects False False (pd_effects pd @ pre @ ending)" for pd pre ending
  proof -
    have zero: "number_of f pre = 0" if "\<And>x. quiet x \<Longrightarrow> \<not> f x" "\<And>p. \<not> f (FxLog LeIncoming p JNull None)" for f
      using pre that by (auto simp: number_of_def list_all_iff filter_empty_conv)
    have q: "number_of is_settle pre = 0" "number_of is_final_log pre = 0" "number_of ((=) FxDone) pre = 0"
        "number_of ((=) FxInFlight) pre = 0" "number_of ((=) FxAdmit) pre = 0"
      by (rule zero; auto dest: quiet_not)+
    have a: "FxAdmit \<notin> set pre" using q(5) by (auto simp: number_of_def filter_empty_conv)
    have e: "0 < number_of is_settle ending" "0 < number_of is_final_log ending" "number_of ((=) FxDone) ending = 1"
        "FxAdmit \<notin> set ending" "number_of ((=) FxInFlight) ending = 0" "number_of ((=) FxAdmit) ending = 0"
      using closes by (auto simp: closes_books_def number_of_def filter_empty_conv)
    have "number_of is_settle (guard_effects held False (pre @ ending)) = (if held then 1 else 0)" for held
      using guard_settles [of "pre @ ending"] q a e by simp
    moreover have "number_of is_final_log (guard_effects held False (pre @ ending)) = 1" for held
      using guard_logs [of held False "pre @ ending"] e by simp
    moreover have "number_of ((=) f) (guard_effects held False (pre @ ending)) = number_of ((=) f) (pre @ ending)"
        if "f \<in> {FxDone, FxInFlight, FxAdmit}" for held f
      using that by (intro guard_keeps) auto
    ultimately show ?thesis using prep q e fx by auto
  qed
  show ?thesis
  proof (cases rule: run_request_cases [of w i])
    case (1 pd r)
    then show ?thesis using assms(1) prepare_effects [OF 1(1)] endings_close(1) closed [of pd "[]"] by auto
  next
    case (2 pd fx' reply')
    then have eq: "reply' = reply" "fx = guard_effects False False (pd_effects pd @ FxLog LeIncoming (prepared_provider pd) JNull None # fx')"
      using assms(1) by auto
    obtain pre ending where p: "fx' = pre @ ending" "list_all quiet pre" "closes_books ending"
      using call_request_parts [OF 2(2)] assms(2) eq(1) by metis
    show ?thesis
      by (rule closed [OF prepare_effects [OF 2(1)] _ p(3), of "FxLog LeIncoming (prepared_provider pd) JNull None # pre"])
        (use p eq in \<open>auto simp: list_all_iff\<close>)
  qed
qed

text \<open>
  C3: whatever the retries do, every provider call of a request is made for a candidate of the route
  plan resolved for that very request, at that candidate's own model, and for no candidate the API
  key's lists exclude: its provider is in the provider list, one of its names (model id,
  provider/model, the requested model of the plan when it has one) is in the model list, and no name
  of it is in the denied list. An empty or missing allow list allows everything, an asterisk matches
  everything.
\<close>

theorem blocked_routes_never_called:
  assumes "TakeRes (ProviderCall c target) \<in> set (steps_of (fst (run_proxy_request w i)))"
  shows "\<exists>pd req plan index a wire. prepare w i = (pd, None) \<and> pd_request pd = Some req \<and> rw_routes w req = Inr plan \<and>
    c \<in> set (pp_candidates plan) \<and>
    av_adapter (rw_attempts w index) = Some a \<and> select_wire_surface a c req = Some wire \<and>
    ad_resolve a (if rc_model_id c \<noteq> [] then rc_model_id c else nr_model req) wire = Inr target \<and>
    (let names = {rc_model_id c, rc_provider_id c @ ''/'' @ rc_model_id c} \<union> set_option (pp_requested_model plan)
     in (\<forall>ps. acl_providers (ri_acl i) = Some ps \<and> ps \<noteq> [] \<longrightarrow> rc_provider_id c \<in> set ps \<or> ''*'' \<in> set ps) \<and>
        (\<forall>ms. acl_models (ri_acl i) = Some ms \<and> ms \<noteq> [] \<longrightarrow> (\<exists>name\<in>names. name \<in> set ms) \<or> ''*'' \<in> set ms) \<and>
        (\<forall>ds. acl_denied (ri_acl i) = Some ds \<longrightarrow> (\<forall>name\<in>names. name \<notin> set ds) \<and> ''*'' \<notin> set ds))"
proof (cases rule: run_request_cases [of w i])
  case (1 pd r)
  then show ?thesis using assms prepare_effects [OF 1(1)] by auto
next
  case (2 pd fx reply)
  define cands where "cands = the (pd_candidates pd)"
  obtain req plan where plan: "pd_request pd = Some req" "rw_routes w req = Inr plan" "cands = allowed_candidates (ri_acl i) plan"
    using prepare_plan [OF 2(1)] by (auto simp: cands_def)
  let ?S = "{s. s = TakeRes (ProviderCall c target) \<longrightarrow> (\<exists>index. called_by req cands (rw_attempts w) index c target)}"
  have "set (ar_steps (pipeline_run w req cands n)) \<union> set (ar_deferred (pipeline_run w req cands n)) \<subseteq> ?S" for n
    unfolding pipeline_run_def using run_attempt_calls by blast
  then have "set (steps_of (loop_effects w cands (pipeline_run w req cands) [] tr)) \<subseteq> ?S" for tr
    by (rule loop_effects_calls)
  then have "set (steps_of fx) \<subseteq> ?S"
    using 2(2) call_request_steps [of w pd req cands] plan(1) by (simp add: cands_def)
  moreover have "steps_of (fst (run_proxy_request w i)) = steps_of fx" using 2(3) prepare_effects [OF 2(1)] by auto
  ultimately obtain index where called: "called_by req cands (rw_attempts w) index c target" using assms by auto
  then have "c \<in> set cands" by (auto simp: called_by_def dest: candidate_at_mem)
  then have "c \<in> set (pp_candidates plan)"
      "is_route_allowed (rc_provider_id c) (rc_model_id c) (ri_acl i) (pp_requested_model plan)"
    by (auto simp: plan(3) allowed_candidates_def)
  note listed = this(1) route_allowed_lists [OF this(2)]
  obtain a wire where "av_adapter (rw_attempts w index) = Some a" "select_wire_surface a c req = Some wire"
      "ad_resolve a (if rc_model_id c \<noteq> [] then rc_model_id c else nr_model req) wire = Inr target"
    using called unfolding called_by_def by blast
  then show ?thesis
    using listed 2(1) plan(1,2)
    by (intro exI [of _ pd] exI [of _ req] exI [of _ plan] exI [of _ index] exI [of _ a] exI [of _ wire] conjI)
qed

lemma guard_mem:
  "\<not> is_settle x \<Longrightarrow> (\<And>ev p st us. x \<noteq> FxLog ev p st us) \<Longrightarrow>
   x \<in> set (guard_effects held logged xs) \<longleftrightarrow> x \<in> set xs"
proof (induction xs arbitrary: held logged)
  case (Cons y xs)
  then show ?case by (cases y) auto
qed simp

lemma loop_effects_yields: "FxYield ev \<in> set (loop_effects w cands run made tr) \<longleftrightarrow> ev \<in> set (yields tr)"
  by (induction w cands run made tr rule: loop_effects.induct)
    (auto simp: trace_simps failure_effects_def split: option.splits list.splits)

lemma failure_end_mem: "FxDone \<in> set (failure_end pd r)" "FxYield ev \<notin> set (failure_end pd r)"
  by (auto simp: failure_end_def Let_def)

definition is_finish :: "request_effect \<Rightarrow> bool" where
  "is_finish f \<longleftrightarrow> (case f of FxFinish st k us \<Rightarrow> True | _ \<Rightarrow> False)"

lemma is_finish_simps [simp]:
  "is_finish (FxFinish st k us)" "\<not> is_finish (FxSettle u)" "\<not> is_finish (FxLog ev p st us)" "\<not> is_finish FxStart"
  "\<not> is_finish FxInFlight" "\<not> is_finish FxAdmit" "\<not> is_finish FxCleanup" "\<not> is_finish FxDone" "\<not> is_finish (FxSuccess c sel)"
  by (simp_all add: is_finish_def)

lemma guard_finishes: "filter is_finish (guard_effects held logged fx) = filter is_finish fx"
  by (induction held logged fx rule: guard_effects.induct) auto

lemma loop_finishes: "filter is_finish (loop_effects w cands run made tr) = []"
  using loop_effects_quiet [of w cands run made tr]
  by (auto simp: list_all_iff filter_empty_conv is_finish_def quiet_def split: request_effect.splits)

lemma failure_end_finish:
  "filter is_finish (failure_end pd r) =
    [FxFinish (if fl_kind (failure_of r) = ''client_aborted'' then JNum (Num 0) else error_status (failure_of r))
     (if fl_kind (failure_of r) = ''client_aborted'' then None else Some (fl_kind (failure_of r))) None]"
  by (simp add: failure_end_def Let_def)

lemma success_report_finishes [simp]: "filter is_finish (success_report cands success) = []"
  by (auto simp: success_report_def split: option.splits)

text \<open>What a failing request has recorded before it failed: nothing, or the reply its success hook was told of.\<close>

definition finishes_before :: "request_world \<Rightarrow> request_effect list \<Rightarrow> raised \<Rightarrow> bool" where
  "finishes_before w pre r \<longleftrightarrow> filter is_finish pre = [] \<or>
     (\<exists>v usage. rw_success_hook w = Some v \<and> r = raised_value v \<and> filter is_finish pre = [FxFinish (JNum (Num 200)) None usage])"

lemma body_end_error:
  assumes "body_end w pd cands success body usage = (fx, ReplyError status f)"
  shows "\<exists>pre r. fx = pre @ failure_end pd r \<and> f = failure_of r \<and> status = error_status f \<and> (\<forall>ev. FxYield ev \<notin> set pre) \<and>
    finishes_before w pre r"
proof -
  have "FxYield ev \<notin> set (success_report cands success)" for ev
    by (auto simp: success_report_def split: option.splits)
  then show ?thesis using assms
    by (auto simp: body_end_def Let_def finishes_before_def split: option.splits if_splits
        intro!: exI [of _ "[FxSettle (Some (settle_usage (pd_estimate pd) usage)),
               FxLog LeComplete (reply_provider cands success) (JNum (Num 200)) usage,
               FxFinish (JNum (Num 200)) None usage] @ success_report cands success"])
qed

lemma call_request_error:
  assumes "call_request w pd req cands = (fx, ReplyError status f)"
  shows "\<exists>pre r. fx = pre @ failure_end pd r \<and> f = failure_of r \<and> status = error_status f \<and> (\<forall>ev. FxYield ev \<notin> set pre) \<and>
    finishes_before w pre r"
proof -
  obtain r s where c: "recover_call (pipeline_env w req cands) recover_start = (r, s)"
    by (cases "recover_call (pipeline_env w req cands) recover_start")
  have "yields (rs_trace s) = []"
    using recover_from_quiet [OF c [unfolded recover_call_def]] by (simp add: trace_simps)
  then have none: "\<forall>ev. FxYield ev \<notin> set (loop_effects w cands run [] (rs_trace s))" for run
    by (simp add: loop_effects_yields)
  show ?thesis
  proof (cases r)
    case (CallBody body usage)
    define be where "be = body_end w pd cands (last_success (pipeline_run w req cands) (attempts (rs_trace s))) body usage"
    have fx: "fx = loop_effects w cands (pipeline_run w req cands) [] (rs_trace s) @ fst be" and "be = (fst be, ReplyError status f)"
      using assms c CallBody by (auto simp: call_request_def Let_def be_def apfst_def map_prod_def split_beta prod_eq_iff)
    then obtain pre r where "fst be = pre @ failure_end pd r" "f = failure_of r" "status = error_status f" "\<forall>ev. FxYield ev \<notin> set pre"
        "finishes_before w pre r"
      using body_end_error [of w pd cands "last_success (pipeline_run w req cands) (attempts (rs_trace s))" body usage "fst be" status f]
      by (auto simp: be_def)
    then show ?thesis using fx none
      by (intro exI [of _ "loop_effects w cands (pipeline_run w req cands) [] (rs_trace s) @ pre"] exI [of _ r])
        (simp add: finishes_before_def loop_finishes)
  next
    case (CallStream evs fin start)
    then show ?thesis using assms c by (auto simp: call_request_def Let_def split: prod.splits)
  next
    case (CallThrows e)
    then show ?thesis using assms c none
      by (auto simp: call_request_def fail_request_def Let_def finishes_before_def loop_finishes intro!: exI)
  next
    case (CallRaises v)
    then show ?thesis using assms c none
      by (auto simp: call_request_def fail_request_def Let_def finishes_before_def loop_finishes intro!: exI)
  qed
qed

text \<open>
  C4: a request that fails is answered with a typed error and recorded with it: its status is the
  error's (502 when it has none), and telemetry gets one finish, with that status and kind (0 and no
  kind for a client that went away). Only when the success hook throws after a whole reply does a
  finish with status 200 come first, which the telemetry store keeps, so that this one failure is
  recorded as a success. The in-flight count is given back and no event was sent.
\<close>

theorem failed_request_recorded:
  assumes "run_proxy_request w i = (fx, ReplyError status f)"
  defines "failed \<equiv> FxFinish (if fl_kind f = ''client_aborted'' then JNum (Num 0) else status)
      (if fl_kind f = ''client_aborted'' then None else Some (fl_kind f)) None"
  shows "status = (if fl_status f = JNull then JNum (Num 502) else fl_status f) \<and>
    (filter is_finish fx = [failed] \<or>
     (\<exists>v usage. rw_success_hook w = Some v \<and> f = failure_of (raised_value v) \<and>
        filter is_finish fx = [FxFinish (JNum (Num 200)) None usage, failed])) \<and>
    FxDone \<in> set fx \<and> (\<forall>ev. FxYield ev \<notin> set fx)"
proof -
  obtain pd pre r where run: "fx = guard_effects False False (pd_effects pd @ pre @ failure_end pd r)" "f = failure_of r"
      "status = error_status f" "\<forall>ev. FxYield ev \<notin> set (pd_effects pd @ pre)" "finishes_before w pre r"
      "filter is_finish (pd_effects pd) = []"
  proof (cases rule: run_request_cases [of w i])
    case (1 pd r)
    then show thesis using assms(1) prepare_effects [OF 1(1)] that [of pd "[]" r] by (auto simp: finishes_before_def)
  next
    case (2 pd fx' reply)
    then obtain pre r where "fx' = pre @ failure_end pd r" "f = failure_of r" "status = error_status f"
        "\<forall>ev. FxYield ev \<notin> set pre" "finishes_before w pre r"
      using assms(1) call_request_error [of w pd "the (pd_request pd)" "the (pd_candidates pd)"] by fastforce
    then show thesis using assms(1) 2 prepare_effects [OF 2(1)]
      by (intro that [of pd "FxLog LeIncoming (prepared_provider pd) JNull None # pre" r]) (auto simp: finishes_before_def)
  qed
  have "filter is_finish fx = filter is_finish pre @ [failed]"
    by (simp add: run(1,6) guard_finishes failure_end_finish failed_def run(2,3))
  moreover have "FxDone \<in> set fx"
    using failure_end_mem(1) [of pd r] by (simp add: run(1) guard_mem)
  moreover have "\<forall>ev. FxYield ev \<notin> set fx"
    using run(4) failure_end_mem(2) [of _ pd r] by (auto simp: run(1) guard_mem)
  ultimately show ?thesis
    using run(2,3,5) by (auto simp: error_status_def finishes_before_def)
qed

subsection \<open>Runs on an example\<close>

text \<open>A chat provider without credentials and two routes; the client sends an object it parsed.\<close>

definition sample_adapter :: adapter where
  "sample_adapter = \<lparr>ad_object = 0, ad_custom = False, ad_metadata = openai_metadata\<lparr>pm_credential_kind := CkNone\<rparr>,
     ad_capabilities = chat_capabilities, ad_models = [], ad_get_model = (\<lambda>m. None),
     ad_resolve = (\<lambda>m s. Inr \<lparr>rt_provider_id = ''deepseek'', rt_model_id = m, rt_upstream_model_id = m, rt_surface = s\<rparr>)\<rparr>"

definition sample_target :: route_target where
  "sample_target = \<lparr>rt_provider_id = ''deepseek'', rt_model_id = ''m'', rt_upstream_model_id = ''m'', rt_surface = SfChat\<rparr>"

definition sample_request :: normalized_request where
  "sample_request = \<lparr>nr_model = ''m'', nr_messages = [], nr_tools = [], nr_stream = True, nr_response_format = RfText,
     nr_reasoning = RmDefault, nr_reasoning_config = None, nr_include = None, nr_max_output_tokens = None, nr_images = [],
     nr_image_operation = None, nr_source_surface = SfChat,
     nr_limits = \<lparr>rl_max_body_bytes = 10485760, rl_connect_timeout_ms = 10000, rl_first_byte_timeout_ms = 30000,
       rl_idle_timeout_ms = 30000, rl_total_timeout_ms = 120000\<rparr>,
     nr_cache_key = None, nr_metadata_user_id = None\<rparr>"

definition sample_plan :: proxy_plan where
  "sample_plan = \<lparr>pp_affinity = \<lparr>ak_namespace = AnApiKey, ak_value = ''k''\<rparr>, pp_candidates = [candidate_for ''a'' ''m'' SfChat, candidate_for ''b'' ''m'' SfChat],
     pp_requested_model = Some ''m''\<rparr>"

definition sample_world ::
  "(nat \<Rightarrow> attempt_result) \<Rightarrow> (nat \<Rightarrow> bool) \<Rightarrow> (nat \<Rightarrow> bool) \<Rightarrow> thrown_value option \<Rightarrow> request_world" where
  "sample_world calls pulls aborted hook = \<lparr>rw_normalize = (\<lambda>e body. Inr sample_request), rw_filter = None, rw_saver = None, rw_show = (\<lambda>q. []),
     rw_admit = (\<lambda>n. Inl RpmExceeded), rw_routes = (\<lambda>req. Inr sample_plan),
     rw_attempts = (\<lambda>i. \<lparr>av_adapter = Some sample_adapter, av_credential = Inr None, av_network = Inr (Some None),
       av_call = calls i, av_ids = 0\<rparr>),
     rw_max_attempts = None, rw_now = 0, rw_aborted = aborted, rw_wait = (\<lambda>e n. None), rw_pulls = pulls,
     rw_failure_hook = (\<lambda>e i. None), rw_switch_hook = (\<lambda>e i. None), rw_success_hook = hook\<rparr>"

definition sample_input :: request_input where
  "sample_input = \<lparr>ri_body = Inr (JObj []), ri_endpoint = EpChat,
     ri_acl = \<lparr>acl_providers = None, acl_models = None, acl_denied = None\<rparr>, ri_admission = False\<rparr>"

text \<open>
  The client that goes away before the first read: the stream of the attempt is never iterated, the
  proxy slot and the provider's in-flight mark stay taken.
\<close>

lemma abort_before_first_read_leaks:
  "hold (steps_of (fst (run_proxy_request (sample_world (\<lambda>i. AttemptStream [MessageStop SrCompleted] StreamEnds None)
      (\<lambda>n. True) (\<lambda>n. 0 < n) None) sample_input))) {#} =
   Some {#NetworkLease 0, ProviderCall (candidate_for ''a'' ''m'' SfChat) sample_target#}"
proof -
  have steps: "steps_of (fst (run_proxy_request (sample_world (\<lambda>i. AttemptStream [MessageStop SrCompleted] StreamEnds None)
      (\<lambda>n. True) (\<lambda>n. 0 < n) None) sample_input)) =
    [TakeRes (NetworkLease 0), TakeRes (ProviderCall (candidate_for ''a'' ''m'' SfChat) sample_target)]"
    by code_simp
  show ?thesis by (simp add: steps add_mset_commute)
qed

text \<open>A stream the client never reads: nothing is settled, logged as final or counted down.\<close>

lemma unread_stream_keeps_books_open:
  "fst (run_proxy_request (sample_world (\<lambda>i. AttemptStream [MessageStop SrCompleted] StreamEnds None) (\<lambda>n. False) (\<lambda>n. False) None)
     sample_input) =
   [FxStart, FxInFlight, FxLog LeIncoming (Some ''a'') JNull None, FxUse (TakeRes (NetworkLease 0)), 
     FxUse (TakeRes (ProviderCall (candidate_for ''a'' ''m'' SfChat) sample_target))]"
  by code_simp

text \<open>
  A success hook that throws turns the finished reply of a non-stream request into an error, after it
  was settled, logged and recorded as complete.
\<close>

lemma success_hook_spoils_reply:
  "snd (run_proxy_request (sample_world (\<lambda>i. AttemptBody [] None) (\<lambda>n. True) (\<lambda>n. False) (Some (TvShaped (attempt_error 500 InternalError False ScProvider ''disk full''))))
     sample_input) =
   ReplyError (JNum (Num 500)) (call_failure (attempt_error 500 InternalError False ScProvider ''disk full''))"
  by code_simp

text \<open>A stream that breaks after its first text is recorded as a complete request with status 200 and no error.\<close>

lemma broken_stream_recorded_complete:
  "let fx = fst (run_proxy_request (sample_world (\<lambda>i. AttemptStream [TextDelta ''hi''] (StreamThrows (TvShaped (attempt_error 500 InternalError False ScProvider ''cut''))) None)
        (\<lambda>n. True) (\<lambda>n. False) None) sample_input)
   in filter (\<lambda>f. is_final_log f \<or> is_finish f) fx = [FxLog LeComplete (Some ''a'') (JNum (Num 200)) None, FxFinish (JNum (Num 200)) None None]"
  by code_simp

text \<open>
  An error of a stream that converts itself (an adapter's or decoder's error) is reported as an internal
  one, which is never retried, whatever it says of itself.
\<close>

lemma converting_error_not_retried:
  "ce_kind (normalize_error (TvConvertible e)) = InternalError \<and> \<not> ce_retryable (normalize_error (TvConvertible e))"
  by (simp add: normalize_error_def internal_call_error_def)

text \<open>
  The first route's stream breaks before any text: the second route is blamed, without a selection, and
  the first one is called again.
\<close>

lemma broken_stream_blames_next_route:
  "let e = attempt_error 503 ProviderUnavailable True ScProvider ''x'';
       fx = fst (run_proxy_request (sample_world (\<lambda>i. if i = 0 then AttemptStream [] (StreamThrows (TvShaped e)) None
         else AttemptStream [MessageStop SrCompleted] StreamEnds None) (\<lambda>n. True) (\<lambda>n. False) None) sample_input)
   in List.map_filter (\<lambda>f. case f of FxFailure c e sel \<Rightarrow> Some (rc_provider_id c, e, sel) | _ \<Rightarrow> None) fx = [(''b'', e, None)] \<and>
     List.map_filter (\<lambda>s. case s of TakeRes (ProviderCall c t) \<Rightarrow> Some (rc_provider_id c) | _ \<Rightarrow> None) (steps_of fx) = [''a'', ''a'']"
  by code_simp

text \<open>A client body with the fields of a protocol error chooses the status and the message of the reply.\<close>

lemma body_forges_error:
  "snd (run_proxy_request w (sample_input\<lparr>ri_body := Inr (JObj [(''field'', JNull), (''retryable'', JBool False), (''kind'', JStr ''ok''),
     (''sanitizedMessage'', JStr ''hello''), (''statusCode'', JNum (Num 200))])\<rparr>)) =
   ReplyError (JNum (Num 200)) \<lparr>fl_status = JNum (Num 200), fl_kind = ''ok'', fl_message = ''hello'', fl_source = None\<rparr>"
  by (simp add: run_proxy_request_def prepare_def read_body_def is_protocol_error_def fail_request_def failure_of_def body_failure_def
      is_call_error_body_def error_status_def Let_def reply_simps)

text \<open>A validation error has no source, which the other errors of the pipeline have.\<close>

lemma validation_error_without_source: "fl_source (failure_of (RaProtocol e)) = None" "fl_source (failure_of (RaCall c)) = Some (ce_source c)"
  by (simp_all add: failure_of_def protocol_failure_def call_failure_def)

theorem request_books_closed_witness:
  "\<exists>fx reply. run_proxy_request (sample_world (\<lambda>i. AttemptBody [] None) (\<lambda>n. True) (\<lambda>n. False) None) sample_input = (fx, reply) \<and>
     number_of ((=) FxDone) fx = 1 \<and> number_of is_final_log fx = 1"
proof -
  obtain fx reply where run: "run_proxy_request (sample_world (\<lambda>i. AttemptBody [] None) (\<lambda>n. True) (\<lambda>n. False) None) sample_input = (fx, reply)"
    by (cases "run_proxy_request (sample_world (\<lambda>i. AttemptBody [] None) (\<lambda>n. True) (\<lambda>n. False) None) sample_input")
  have "rw_pulls (sample_world (\<lambda>i. AttemptBody [] None) (\<lambda>n. True) (\<lambda>n. False) None) 0" by (simp add: sample_world_def)
  then show ?thesis using request_books_closed [OF run] run by blast
qed

theorem failed_request_recorded_witness:
  "\<exists>fx f. run_proxy_request (sample_world (\<lambda>i. AttemptThrows (TvShaped (attempt_error 503 ProviderUnavailable False ScProvider ''down''))) (\<lambda>n. True) (\<lambda>n. False) None) sample_input =
     (fx, ReplyError (JNum (Num 503)) f) \<and> FxDone \<in> set fx"
proof -
  have reply: "snd (run_proxy_request (sample_world (\<lambda>i. AttemptThrows (TvShaped (attempt_error 503 ProviderUnavailable False ScProvider ''down''))) (\<lambda>n. True) (\<lambda>n. False) None) sample_input) =
      ReplyError (JNum (Num 503)) (call_failure (attempt_error 503 ProviderUnavailable False ScProvider ''down''))" by code_simp
  then obtain fx where run: "run_proxy_request (sample_world (\<lambda>i. AttemptThrows (TvShaped (attempt_error 503 ProviderUnavailable False ScProvider ''down''))) (\<lambda>n. True) (\<lambda>n. False) None) sample_input =
      (fx, ReplyError (JNum (Num 503)) (call_failure (attempt_error 503 ProviderUnavailable False ScProvider ''down'')))" by (metis prod.collapse)
  from failed_request_recorded [OF run] run show ?thesis by blast
qed

theorem request_resources_returned_witness:
  "hold (steps_of (fst (run_proxy_request (sample_world (\<lambda>i. AttemptBody [] None) (\<lambda>n. True) (\<lambda>n. False) None) sample_input))) {#} = Some {#}"
proof -
  have "rw_pulls (sample_world (\<lambda>i. AttemptBody [] None) (\<lambda>n. True) (\<lambda>n. False) None) 0"
    and "\<forall>n. \<not> rw_aborted (sample_world (\<lambda>i. AttemptBody [] None) (\<lambda>n. True) (\<lambda>n. False) None) n"
    by (simp_all add: sample_world_def)
  then show ?thesis
    using request_resources_returned [of "sample_world (\<lambda>i. AttemptBody [] None) (\<lambda>n. True) (\<lambda>n. False) None" sample_input] by auto
qed

theorem blocked_routes_never_called_witness:
  "\<exists>plan. rw_routes (sample_world (\<lambda>i. AttemptBody [] None) (\<lambda>n. True) (\<lambda>n. False) None) sample_request = Inr plan \<and>
     candidate_for ''a'' ''m'' SfChat \<in> set (pp_candidates plan)"
proof -
  have "TakeRes (ProviderCall (candidate_for ''a'' ''m'' SfChat) sample_target) \<in>
      set (steps_of (fst (run_proxy_request (sample_world (\<lambda>i. AttemptBody [] None) (\<lambda>n. True) (\<lambda>n. False) None) sample_input)))"
    by code_simp
  from blocked_routes_never_called [OF this] show ?thesis
    by (auto simp: sample_world_def)
qed

end
