(* ===== verification/Codec.thy ===== *)
theory Codec imports Narrowing JsonText begin

text \<open>
  What the request codecs of \<open>src/domain/protocols/\<close> share: the early return on an error as the bind
  of a sum, the loop over a wire list, the parser of the \<open>reasoning\<close> object, and the judgement
  \<open>returns\<close>, under which an operation either gives a value with a property or blames the request.
  The environment has \<open>new URL\<close>, the text of a number that is no small integer, and the text that a
  template literal makes of a value.
\<close>

record codec_env =
  cx_parse_url :: "string \<Rightarrow> url option"
  cx_show_num :: "rat \<Rightarrow> string"
  cx_show_json :: "json \<Rightarrow> string"

definition stringify :: "codec_env \<Rightarrow> json \<Rightarrow> string" where
  "stringify cx v = json_text (cx_show_num cx) v"

definition in_quotes :: "string \<Rightarrow> string" where
  "in_quotes s = [CHR 0x22] @ s @ [CHR 0x22]"

subsection \<open>Sequencing\<close>

definition and_then :: "'e + 'a \<Rightarrow> ('a \<Rightarrow> 'e + 'b) \<Rightarrow> 'e + 'b" where
  "and_then m f = (case m of Inl e \<Rightarrow> Inl e | Inr x \<Rightarrow> f x)"

lemma and_then_simps [simp]: "and_then (Inl e) f = Inl e" "and_then (Inr x) f = f x"
  by (simp_all add: and_then_def)

lemma and_then_eq_Inr: "and_then m f = Inr y \<longleftrightarrow> (\<exists>x. m = Inr x \<and> f x = Inr y)"
  by (cases m) auto

lemma and_then_cong [fundef_cong]: "m = m' \<Longrightarrow> (\<And>x. m' = Inr x \<Longrightarrow> f x = g x) \<Longrightarrow> and_then m f = and_then m' g"
  by (cases m') auto

text \<open>The loop of a codec over a list: it stops at the first error and threads the state of the request.\<close>

fun each_item :: "(nat \<Rightarrow> json \<Rightarrow> 's \<Rightarrow> 'e + 'a list \<times> 's) \<Rightarrow> nat \<Rightarrow> json list \<Rightarrow> 's \<Rightarrow> 'e + 'a list \<times> 's" where
  "each_item f i [] s = Inr ([], s)"
| "each_item f i (v # vs) s =
     and_then (f i v s) (\<lambda>(xs, t). and_then (each_item f (Suc i) vs t) (\<lambda>(ys, u). Inr (xs @ ys, u)))"

definition item_at :: "string \<Rightarrow> nat \<Rightarrow> string" where
  "item_at field i = field @ ''['' @ nat_str i @ '']''"

subsection \<open>The judgement\<close>

fun blames_request :: "narrow_failure \<Rightarrow> bool" where
  "blames_request (Failed e) \<longleftrightarrow> pre_kind e = InvalidRequest \<and> pre_status e = 400"
| "blames_request (Forged fs) \<longleftrightarrow> is_protocol_error fs"

definition returns :: "('a \<Rightarrow> bool) \<Rightarrow> narrow_failure + 'a \<Rightarrow> bool" where
  "returns P m = (case m of Inl e \<Rightarrow> blames_request e | Inr x \<Rightarrow> P x)"

named_theorems returns_rules

lemma blames_protocol_fail [simp]: "blames_request (protocol_fail field msg)"
  by (simp add: protocol_fail_def application_error_def)

lemma returns_simps [simp]:
  "returns P (Inl e) \<longleftrightarrow> blames_request e"
  "returns P (Inr x) \<longleftrightarrow> P x"
  by (simp_all add: returns_def)

lemma returns_InrD: "returns P m \<Longrightarrow> m = Inr x \<Longrightarrow> P x"
  by simp

lemma returns_InlD: "returns P m \<Longrightarrow> m = Inl e \<Longrightarrow> blames_request e"
  by simp

lemma returns_and_then: "returns Q m \<Longrightarrow> (\<And>x. Q x \<Longrightarrow> returns P (f x)) \<Longrightarrow> returns P (and_then m f)"
  by (cases m) auto

lemma returns_mono: "returns Q m \<Longrightarrow> (\<And>x. Q x \<Longrightarrow> P x) \<Longrightarrow> returns P m"
  by (cases m) auto

lemma returns_narrow_object [returns_rules]: "returns (\<lambda>fs. v = Some (JObj fs)) (narrow_object v field)"
  by (auto simp: narrow_object_def split: option.splits json.splits)

lemma returns_narrow_string [returns_rules]: "returns (\<lambda>s. v = Some (JStr s) \<and> length s \<le> n) (narrow_string v field n)"
  by (auto simp: narrow_string_def split: option.splits json.splits)

lemma returns_narrow_boolean [returns_rules]: "returns (\<lambda>b. v = Some (JBool b)) (narrow_boolean v field)"
  by (auto simp: narrow_boolean_def split: option.splits json.splits)

lemma returns_normalize_stream [returns_rules]: "returns (\<lambda>b. True) (normalize_stream v)"
  by (auto simp: normalize_stream_def intro: returns_mono [OF returns_narrow_boolean])

lemma returns_narrow_array [returns_rules]: "returns (\<lambda>vs. v = Some (JArr vs) \<and> length vs \<le> n) (narrow_array v field n)"
  by (auto simp: narrow_array_def split: option.splits json.splits)

lemma returns_narrow_number [returns_rules]:
  "returns (\<lambda>q. v = Some (JNum (Num q)) \<and> (no_integer opts \<longrightarrow> is_integer_rat q) \<and>
     (\<forall>m. no_min opts = Some m \<longrightarrow> m \<le> q) \<and> (\<forall>m. no_max opts = Some m \<longrightarrow> q \<le> m)) (narrow_number sh v field opts)"
proof (cases "narrow_number sh v field opts")
  case (Inl e)
  then show ?thesis by (auto simp: narrow_number_def split: option.splits if_splits)
next
  case (Inr q)
  then show ?thesis using narrow_number_InrD [OF Inr] by simp
qed

lemma returns_normalize_tool: "returns (tool_ok ser_len) (normalize_tool ser_len sh opts i v)"
proof (cases "normalize_tool ser_len sh opts i v")
  case (Inr t)
  then show ?thesis using normalize_tool_ok by auto
next
  case (Inl e)
  have "blames_request e" if "narrow_object w field = Inl e" for w field
    using that returns_InlD [OF returns_narrow_object] by blast
  moreover have "blames_request e" if "narrow_string w field n = Inl e" for w field n
    using that returns_InlD [OF returns_narrow_string] by blast
  ultimately show ?thesis using Inl by (auto simp: normalize_tool_def Let_def split: sum.splits if_splits)
qed

lemma returns_normalize_tools: "returns (\<lambda>ts. length ts = length vs \<and> (\<forall>t \<in> set ts. tool_ok ser_len t)) (normalize_tools ser_len sh opts i vs)"
proof (induction vs arbitrary: i)
  case (Cons v vs)
  show ?case using Cons.IH [of "Suc i"] returns_normalize_tool [of ser_len sh opts i v]
    by (auto split: sum.splits)
qed simp

lemma returns_normalize_tool_list [returns_rules]:
  "returns (\<lambda>ts. length ts \<le> MAX_TOOL_COUNT \<and> (\<forall>t \<in> set ts. tool_ok ser_len t)) (normalize_tool_list ser_len sh opts raw)"
proof (cases "narrow_array raw ''tools'' MAX_TOOL_COUNT")
  case (Inl e)
  then show ?thesis using returns_InlD [OF returns_narrow_array Inl] by (simp add: normalize_tool_list_def)
next
  case (Inr vs)
  then have "length vs \<le> MAX_TOOL_COUNT" using returns_InrD [OF returns_narrow_array Inr] by simp
  then have "returns (\<lambda>ts. length ts \<le> MAX_TOOL_COUNT \<and> (\<forall>t \<in> set ts. tool_ok ser_len t)) (normalize_tools ser_len sh opts 0 vs)"
    by (intro returns_mono [OF returns_normalize_tools]) auto
  then show ?thesis using Inr by (simp add: normalize_tool_list_def)
qed

text \<open>The loop keeps an invariant of the threaded state that speaks of what was read so far.\<close>

lemma returns_each_item:
  assumes step: "\<And>i v s. I s \<Longrightarrow> returns (\<lambda>(xs, t). I t \<and> R s xs t \<and> length xs \<le> k) (f i v s)"
    and none: "\<And>s. R s [] s" and more: "\<And>s xs t ys u. R s xs t \<Longrightarrow> R t ys u \<Longrightarrow> R s (xs @ ys) u"
  shows "I s \<Longrightarrow> returns (\<lambda>(xs, t). I t \<and> R s xs t \<and> length xs \<le> k * length vs) (each_item f i vs s)"
proof (induction vs arbitrary: i s)
  case Nil
  then show ?case using none by simp
next
  case (Cons v vs)
  have "returns (\<lambda>(zs, u). I u \<and> R s zs u \<and> length zs \<le> k * length (v # vs))
      (and_then (each_item f (Suc i) vs t) (\<lambda>(ys, u). Inr (xs @ ys, u)))"
    if "I t \<and> R s xs t \<and> length xs \<le> k" for xs t
    using that more by (intro returns_and_then [OF Cons.IH]) auto
  then show ?case using step [OF Cons.prems, of i v] by (auto intro!: returns_and_then [where m = "f i v s"])
qed

text \<open>Reading back a list that was written item by item.\<close>

lemma each_item_map:
  assumes "\<And>i x s. x \<in> set xs \<Longrightarrow> f i (w x) s = Inr ([x], upd x s)"
  shows "each_item f i (map w xs) s = Inr (xs, fold upd xs s)"
  using assms
proof (induction xs arbitrary: i s)
  case (Cons x xs)
  have "each_item f (Suc i) (map w xs) (upd x s) = Inr (xs, fold upd xs (upd x s))" using Cons by simp
  then show ?case using Cons.prems by simp
qed simp

subsection \<open>Blocks\<close>

definition image_block :: "image_reference \<Rightarrow> content_block" where
  "image_block r = (block_of BtImage)\<lparr>cb_image := Some r\<rparr>"

definition unknown_block :: "string option \<Rightarrow> content_block" where
  "unknown_block t = (block_of BtUnknown)\<lparr>cb_text := t\<rparr>"

definition call_block :: "string \<Rightarrow> string \<Rightarrow> string \<Rightarrow> content_block" where
  "call_block name call_id args =
     (block_of BtToolUse)\<lparr>cb_tool_name := Some name, cb_tool_call_id := Some call_id, cb_tool_arguments := Some args\<rparr>"

definition tool_result_block :: "string option \<Rightarrow> string \<Rightarrow> content_block" where
  "tool_result_block t call_id = (block_of BtToolResult)\<lparr>cb_text := t, cb_tool_call_id := Some call_id\<rparr>"

text \<open>The images of the request so far, and whether reasoning was seen in its history.\<close>

type_synonym wire_state = "image_reference list \<times> bool"

definition push_image :: "image_reference \<Rightarrow> string \<Rightarrow> wire_state \<Rightarrow> narrow_failure + image_reference \<times> wire_state" where
  "push_image r field s = and_then (push_image_reference (fst s) r field) (\<lambda>images. Inr (r, images, snd s))"

definition push_classified ::
  "codec_env \<Rightarrow> json option \<Rightarrow> string \<Rightarrow> string \<Rightarrow> wire_state \<Rightarrow> narrow_failure + image_reference \<times> wire_state" where
  "push_classified cx v url_field field s =
     and_then (classify_image_reference (cx_parse_url cx) v url_field) (\<lambda>r. push_image r field s)"

definition bounded_text :: "string \<Rightarrow> string \<Rightarrow> narrow_failure + string" where
  "bounded_text field s =
    (if MAX_TEXT_BLOCK_LENGTH < length s
     then Inl (protocol_fail field (field @ '': text exceeds '' @ nat_str MAX_TEXT_BLOCK_LENGTH @ '' characters''))
     else Inr s)"

subsection \<open>The bounds of a request\<close>

definition public_url :: "url \<Rightarrow> bool" where
  "public_url u \<longleftrightarrow> (url_protocol u = ''http:'' \<or> url_protocol u = ''https:'') \<and> url_username u = [] \<and> url_password u = [] \<and>
     (\<exists>h. normalize_hostname (url_hostname u) = Some h \<and> \<not> is_private_use_name h \<and>
        (is_ip_literal h \<longrightarrow> \<not> is_unsafe_ip h) \<and> (\<not> is_ip_literal h \<longrightarrow> CHR ''.'' \<in> set h))"

definition safe_image :: "codec_env \<Rightarrow> image_reference \<Rightarrow> bool" where
  "safe_image cx r \<longleftrightarrow>
     im_kind r = IkData \<and> length (im_value r) \<le> MAX_DATA_URL_LENGTH \<and>
       (\<forall>m. im_media_type r = Some m \<longrightarrow> length m \<le> MAX_MEDIA_TYPE_LENGTH) \<or>
     im_kind r = IkUrl \<and> length (im_value r) \<le> MAX_IMAGE_URL_LENGTH \<and>
       (\<exists>u. cx_parse_url cx (im_value r) = Some u \<and> public_url u)"

definition block_ok :: "codec_env \<Rightarrow> content_block \<Rightarrow> bool" where
  "block_ok cx b \<longleftrightarrow> (\<forall>r. cb_image b = Some r \<longrightarrow> safe_image cx r) \<and>
     (case cb_type b of
        BtText \<Rightarrow> \<exists>t. cb_text b = Some t \<and> length t \<le> MAX_TEXT_BLOCK_LENGTH
      | BtImage \<Rightarrow> cb_image b \<noteq> None
      | BtToolUse \<Rightarrow> \<exists>name call_id args. cb_tool_name b = Some name \<and> trim name \<noteq> [] \<and> length name \<le> MAX_TOOL_NAME_LENGTH \<and>
          cb_tool_call_id b = Some call_id \<and> call_id \<noteq> [] \<and> length call_id \<le> 128 \<and>
          cb_tool_arguments b = Some args \<and> length args \<le> MAX_TOOL_ARGUMENT_LENGTH
      | BtToolResult \<Rightarrow> \<exists>call_id. cb_tool_call_id b = Some call_id \<and> length call_id \<le> 128
      | BtUnknown \<Rightarrow> True)"

definition images_of :: "content_block list \<Rightarrow> image_reference list" where
  "images_of bs = concat (map (\<lambda>b. case cb_image b of Some r \<Rightarrow> [r] | None \<Rightarrow> []) bs)"

definition images_in :: "message list \<Rightarrow> image_reference list" where
  "images_in ms = concat (map (\<lambda>m. images_of (msg_content m)) ms)"

definition token_bound :: "rat option \<Rightarrow> bool" where
  "token_bound q = (case q of Some n \<Rightarrow> is_integer_rat n \<and> 0 \<le> n \<and> n \<le> MAX_OUTPUT_TOKENS | None \<Rightarrow> True)"

text \<open>
  A tool result of the Messages surface is a list of blocks itself, so a message may have the square
  of the number of blocks the limit names.
\<close>

definition message_ok :: "codec_env \<Rightarrow> message \<Rightarrow> bool" where
  "message_ok cx m \<longleftrightarrow> length (msg_content m) \<le> MAX_BLOCKS_PER_MESSAGE * MAX_BLOCKS_PER_MESSAGE \<and>
     (\<forall>b \<in> set (msg_content m). block_ok cx b)"

definition request_ok :: "codec_env \<Rightarrow> normalized_request \<Rightarrow> bool" where
  "request_ok cx r \<longleftrightarrow>
     trim (nr_model r) \<noteq> [] \<and> length (nr_model r) \<le> MAX_MODEL_LENGTH \<and>
     length (nr_messages r) \<le> Suc MAX_MESSAGE_COUNT \<and> (\<forall>m \<in> set (nr_messages r). message_ok cx m) \<and>
     length (nr_tools r) \<le> MAX_TOOL_COUNT \<and>
     (\<forall>t \<in> set (nr_tools r). tool_ok (\<lambda>v. length (stringify cx v)) t) \<and>
     token_bound (nr_max_output_tokens r) \<and>
     (\<forall>c. nr_reasoning_config r = Some c \<longrightarrow> token_bound (rcf_max_tokens c)) \<and>
     nr_images r = images_in (nr_messages r) \<and> length (nr_images r) \<le> MAX_IMAGE_COUNT"

lemma images_of_simps [simp]: "images_of [] = []" "images_of (xs @ ys) = images_of xs @ images_of ys"
  by (simp_all add: images_of_def)

lemma images_of_Cons [simp]: "images_of (b # bs) = (case cb_image b of Some r \<Rightarrow> [r] | None \<Rightarrow> []) @ images_of bs"
  by (simp add: images_of_def)

lemma images_in_simps [simp]:
  "images_in [] = []" "images_in (xs @ ys) = images_in xs @ images_in ys" "images_in (m # ms) = images_of (msg_content m) @ images_in ms"
  by (simp_all add: images_in_def)

lemma block_simps [simp]:
  "cb_image (text_block t) = None" "cb_image (image_block r) = Some r" "cb_image (unknown_block u) = None"
  "cb_image (call_block n c a) = None" "cb_image (tool_result_block u c) = None"
  "cb_type (text_block t) = BtText" "cb_type (image_block r) = BtImage" "cb_type (unknown_block u) = BtUnknown"
  "cb_type (call_block n c a) = BtToolUse" "cb_type (tool_result_block u c) = BtToolResult"
  "cb_text (text_block t) = Some t" "cb_text (unknown_block u) = u" "cb_text (tool_result_block u c) = u"
  "cb_tool_name (call_block n c a) = Some n" "cb_tool_arguments (call_block n c a) = Some a"
  "cb_tool_call_id (call_block n c a) = Some c" "cb_tool_call_id (tool_result_block u c) = Some c"
  by (simp_all add: text_block_def image_block_def unknown_block_def call_block_def tool_result_block_def block_of_def)

lemma block_ok_simps [simp]:
  "block_ok cx (text_block t) \<longleftrightarrow> length t \<le> MAX_TEXT_BLOCK_LENGTH"
  "block_ok cx (image_block r) \<longleftrightarrow> safe_image cx r"
  "block_ok cx (unknown_block u)"
  "block_ok cx (call_block n c a) \<longleftrightarrow> trim n \<noteq> [] \<and> length n \<le> MAX_TOOL_NAME_LENGTH \<and> c \<noteq> [] \<and> length c \<le> 128 \<and>
     length a \<le> MAX_TOOL_ARGUMENT_LENGTH"
  "block_ok cx (tool_result_block u c) \<longleftrightarrow> length c \<le> 128"
  by (auto simp: block_ok_def)

text \<open>The state of a request within its bounds, and what a step from \<open>s\<close> to \<open>t\<close> adds to it.\<close>

definition state_ok :: "wire_state \<Rightarrow> bool" where
  "state_ok s \<longleftrightarrow> length (fst s) \<le> MAX_IMAGE_COUNT"

definition adds_blocks :: "codec_env \<Rightarrow> wire_state \<Rightarrow> content_block list \<Rightarrow> wire_state \<Rightarrow> bool" where
  "adds_blocks cx s bs t \<longleftrightarrow> fst t = fst s @ images_of bs \<and> (\<forall>b \<in> set bs. block_ok cx b)"

definition adds_messages :: "codec_env \<Rightarrow> wire_state \<Rightarrow> message list \<Rightarrow> wire_state \<Rightarrow> bool" where
  "adds_messages cx s ms t \<longleftrightarrow> fst t = fst s @ images_in ms \<and> (\<forall>m \<in> set ms. message_ok cx m)"

lemma adds_blocks_simps [simp]:
  "adds_blocks cx s [] s"
  "adds_blocks cx s [b] t \<longleftrightarrow> fst t = fst s @ images_of [b] \<and> block_ok cx b"
  by (auto simp: adds_blocks_def)

lemma adds_blocks_append: "adds_blocks cx s xs t \<Longrightarrow> adds_blocks cx t ys u \<Longrightarrow> adds_blocks cx s (xs @ ys) u"
  by (auto simp: adds_blocks_def)

lemma adds_messages_Nil [simp]: "adds_messages cx s [] s"
  by (simp add: adds_messages_def)

lemma adds_messages_append: "adds_messages cx s xs t \<Longrightarrow> adds_messages cx t ys u \<Longrightarrow> adds_messages cx s (xs @ ys) u"
  by (auto simp: adds_messages_def)

lemma returns_blocks_loop:
  assumes "\<And>i v s. state_ok s \<Longrightarrow> returns (\<lambda>(bs, t). state_ok t \<and> adds_blocks cx s bs t \<and> length bs \<le> k) (f i v s)"
    and "state_ok s"
  shows "returns (\<lambda>(bs, t). state_ok t \<and> adds_blocks cx s bs t \<and> length bs \<le> k * length vs) (each_item f i vs s)"
  by (rule returns_each_item [where I = state_ok and R = "adds_blocks cx"]) (use assms adds_blocks_append in auto)

lemma returns_messages_loop:
  assumes "\<And>i v s. state_ok s \<Longrightarrow> returns (\<lambda>(ms, t). state_ok t \<and> adds_messages cx s ms t \<and> length ms \<le> k) (f i v s)"
    and "state_ok s"
  shows "returns (\<lambda>(ms, t). state_ok t \<and> adds_messages cx s ms t \<and> length ms \<le> k * length vs) (each_item f i vs s)"
  by (rule returns_each_item [where I = state_ok and R = "adds_messages cx"]) (use assms adds_messages_append in auto)

lemma returns_bounded_text [returns_rules]: "returns (\<lambda>t. t = s \<and> length t \<le> MAX_TEXT_BLOCK_LENGTH) (bounded_text field s)"
  by (simp add: bounded_text_def)

lemma returns_classify_image [returns_rules]: "returns (safe_image cx) (classify_image_reference (cx_parse_url cx) v field)"
proof -
  have data: "returns (safe_image cx) (classify_data_url s field)" for s
    by (auto simp: classify_data_url_def parse_media_type_def Let_def safe_image_def split: sum.splits)
  have http: "returns (safe_image cx) (classify_http_url (cx_parse_url cx) s field)" for s
  proof (cases "classify_http_url (cx_parse_url cx) s field")
    case (Inl e)
    then show ?thesis by (auto simp: classify_http_url_def Let_def split: if_splits option.splits)
  next
    case (Inr r)
    then have "length s \<le> MAX_IMAGE_URL_LENGTH" by (auto simp: classify_http_url_def Let_def split: if_splits)
    then show ?thesis using classify_http_url_safe [OF Inr] Inr by (auto simp: safe_image_def public_url_def)
  qed
  show ?thesis using data http by (auto simp: classify_image_reference_def Let_def split: option.splits json.splits)
qed

lemma returns_push_image [returns_rules]:
  "returns (\<lambda>(r', t). r' = r \<and> state_ok t \<and> fst t = fst s @ [r]) (push_image r field s)"
  by (auto simp: push_image_def push_image_reference_def state_ok_def)

lemma returns_push_classified [returns_rules]:
  "returns (\<lambda>(r, t). state_ok t \<and> fst t = fst s @ [r] \<and> safe_image cx r) (push_classified cx v url_field field s)"
  unfolding push_classified_def
  by (rule returns_and_then [OF returns_classify_image], rule returns_mono [OF returns_push_image]) auto

subsection \<open>Numbers and reasoning\<close>

definition token_options :: "rat \<Rightarrow> number_options" where
  "token_options low = \<lparr>no_min = Some low, no_max = Some MAX_OUTPUT_TOKENS, no_integer = True\<rparr>"

definition optional_tokens :: "codec_env \<Rightarrow> json option \<Rightarrow> string \<Rightarrow> narrow_failure + rat option" where
  "optional_tokens cx v field =
    (if is_nullish v then Inr None
     else and_then (narrow_number (cx_show_num cx) v field (token_options 0)) (\<lambda>q. Inr (Some q)))"

definition effort_name :: "reasoning_effort \<Rightarrow> string" where
  "effort_name e = (case e of
      ReXhigh \<Rightarrow> ''xhigh'' | ReHigh \<Rightarrow> ''high'' | ReMedium \<Rightarrow> ''medium'' | ReLow \<Rightarrow> ''low''
    | ReMinimal \<Rightarrow> ''minimal'' | ReNone \<Rightarrow> ''none'')"

definition REASONING_EFFORTS :: "reasoning_effort list" where
  "REASONING_EFFORTS = [ReXhigh, ReHigh, ReMedium, ReLow, ReMinimal, ReNone]"

definition summary_name :: "reasoning_summary \<Rightarrow> string" where
  "summary_name s = (case s of RsumAuto \<Rightarrow> ''auto'' | RsumConcise \<Rightarrow> ''concise'' | RsumDetailed \<Rightarrow> ''detailed'')"

definition REASONING_SUMMARIES :: "reasoning_summary list" where
  "REASONING_SUMMARIES = [RsumAuto, RsumConcise, RsumDetailed]"

definition find_effort :: "string \<Rightarrow> reasoning_effort option" where
  "find_effort s = find (\<lambda>e. effort_name e = s) REASONING_EFFORTS"

definition find_summary :: "string \<Rightarrow> reasoning_summary option" where
  "find_summary s = find (\<lambda>e. summary_name e = s) REASONING_SUMMARIES"

definition parse_effort :: "json option \<Rightarrow> string \<Rightarrow> narrow_failure + reasoning_effort option" where
  "parse_effort v field =
    (case v of
       Some (JStr s) \<Rightarrow>
         if s = [] then Inr None
         else (case find_effort s of
             Some e \<Rightarrow> Inr (Some e)
           | None \<Rightarrow> Inl (protocol_fail field (field @ '': unsupported value '' @ in_quotes s)))
     | _ \<Rightarrow> Inr None)"

definition parse_summary :: "json option \<Rightarrow> string \<Rightarrow> narrow_failure + reasoning_summary option" where
  "parse_summary v field =
    (case v of
       None \<Rightarrow> Inr None
     | Some JNull \<Rightarrow> Inr None
     | Some (JStr s) \<Rightarrow> (case find_summary s of
           Some x \<Rightarrow> Inr (Some x)
         | None \<Rightarrow> Inl (protocol_fail field (field @ '': unsupported value '' @ in_quotes s)))
     | _ \<Rightarrow> Inl (protocol_fail field (field @ '': expected a string'')))"

definition no_reasoning :: reasoning_config where
  "no_reasoning = \<lparr>rcf_effort = None, rcf_max_tokens = None, rcf_exclude = None, rcf_enabled = None, rcf_summary = None\<rparr>"

definition some_config :: "reasoning_config \<Rightarrow> reasoning_config option" where
  "some_config c = (if c = no_reasoning then None else Some c)"

text \<open>\<open>parseReasoningConfig\<close> (\<open>openai-responses.ts\<close>), which the Chat codec calls too.\<close>

definition parse_reasoning_config ::
  "codec_env \<Rightarrow> (string \<times> json) list \<Rightarrow> string \<Rightarrow> json option \<Rightarrow> narrow_failure + reasoning_mode \<times> reasoning_config option" where
  "parse_reasoning_config cx obj pre enabled =
    (if enabled = Some (JBool False) then Inr (RmDisabled, Some (no_reasoning\<lparr>rcf_enabled := Some False\<rparr>))
     else and_then (parse_effort (js_field obj ''effort'') (pre @ ''.effort'')) (\<lambda>effort.
       and_then (parse_summary (js_field obj ''summary'') (pre @ ''.summary'')) (\<lambda>summary.
       and_then (optional_tokens cx (js_field obj ''max_tokens'') (pre @ ''.max_tokens'')) (\<lambda>tokens.
         Inr (if effort \<noteq> None \<or> enabled = Some (JBool True) \<or> tokens \<noteq> None then RmEnabled else RmDefault,
              some_config \<lparr>rcf_effort = effort, rcf_max_tokens = tokens,
                rcf_exclude = (case js_field obj ''exclude'' of Some (JBool b) \<Rightarrow> Some b | _ \<Rightarrow> None),
                rcf_enabled = (if enabled = Some (JBool True) then Some True else None), rcf_summary = summary\<rparr>)))))"

definition config_ok :: "reasoning_config option \<Rightarrow> bool" where
  "config_ok c \<longleftrightarrow> (\<forall>r. c = Some r \<longrightarrow> token_bound (rcf_max_tokens r))"

lemma config_ok_simps [simp]:
  "config_ok None" "config_ok (Some r) \<longleftrightarrow> token_bound (rcf_max_tokens r)"
  "config_ok (some_config r) \<longleftrightarrow> token_bound (rcf_max_tokens r)"
  by (auto simp: config_ok_def some_config_def no_reasoning_def token_bound_def)

lemma returns_optional_tokens [returns_rules]: "returns token_bound (optional_tokens cx v field)"
  by (auto simp: optional_tokens_def token_bound_def token_options_def
      intro!: returns_and_then [OF returns_narrow_number])

lemma returns_parse_effort [returns_rules]: "returns (\<lambda>e. True) (parse_effort v field)"
  by (auto simp: parse_effort_def split: option.splits json.splits)

lemma returns_parse_summary [returns_rules]: "returns (\<lambda>e. True) (parse_summary v field)"
  by (auto simp: parse_summary_def split: option.splits json.splits)

lemma returns_parse_reasoning_config [returns_rules]:
  "returns (\<lambda>(flag, c). config_ok c) (parse_reasoning_config cx obj pre enabled)"
  unfolding parse_reasoning_config_def
  by (auto simp: no_reasoning_def token_bound_def intro!: returns_and_then [OF returns_parse_effort]
      returns_and_then [OF returns_parse_summary] returns_and_then [OF returns_optional_tokens])

lemma find_effort_name [simp]: "find_effort (effort_name e) = Some e"
  by (cases e) (simp_all add: find_effort_def REASONING_EFFORTS_def effort_name_def)

lemma find_summary_name [simp]: "find_summary (summary_name e) = Some e"
  by (cases e) (simp_all add: find_summary_def REASONING_SUMMARIES_def summary_name_def)

lemma effort_name_nonempty [simp]: "effort_name e \<noteq> []"
  by (cases e) (simp_all add: effort_name_def)

subsection \<open>Writing a payload\<close>

text \<open>\<open>ProtocolCodecError\<close> (\<open>errors.ts\<close>); its conversion to the error of a provider call is in \<open>UpstreamErrors\<close>.\<close>

record codec_error =
  xe_kind :: error_kind
  xe_status :: "int option"
  xe_retryable :: bool
  xe_scope :: "error_scope option"
  xe_retry_at :: "string option"
  xe_message :: string

definition request_codec_error :: "error_kind \<Rightarrow> string \<Rightarrow> codec_error" where
  "request_codec_error k msg = \<lparr>xe_kind = k, xe_status = Some 400, xe_retryable = False, xe_scope = None,
     xe_retry_at = None, xe_message = msg\<rparr>"

fun map_ok :: "('a \<Rightarrow> 'e + 'b) \<Rightarrow> 'a list \<Rightarrow> 'e + 'b list" where
  "map_ok w [] = Inr []"
| "map_ok w (x # xs) = and_then (w x) (\<lambda>v. and_then (map_ok w xs) (\<lambda>vs. Inr (v # vs)))"

text \<open>\<open>flatMap\<close> with a callback that may throw.\<close>

definition flat_map_ok :: "('a \<Rightarrow> 'e + 'b list) \<Rightarrow> 'a list \<Rightarrow> 'e + 'b list" where
  "flat_map_ok w xs = and_then (map_ok w xs) (\<lambda>vs. Inr (concat vs))"

definition opt_json :: "string \<Rightarrow> json option \<Rightarrow> (string \<times> json) list" where
  "opt_json k v = (case v of Some x \<Rightarrow> [(k, x)] | None \<Rightarrow> [])"

definition when_json :: "bool \<Rightarrow> string \<Rightarrow> json \<Rightarrow> (string \<times> json) list" where
  "when_json c k v = (if c then [(k, v)] else [])"

definition has_image :: "message \<Rightarrow> bool" where
  "has_image m \<longleftrightarrow> (\<exists>b \<in> set (msg_content m). cb_type b = BtImage)"

definition tool_uses :: "message \<Rightarrow> content_block list" where
  "tool_uses m = filter (\<lambda>b. cb_type b = BtToolUse) (msg_content m)"

definition first_block :: "message \<Rightarrow> content_block option" where
  "first_block m = (case msg_content m of [] \<Rightarrow> None | b # _ \<Rightarrow> Some b)"

text \<open>\<open>block.toolArguments ?? block.text ?? "{}"\<close>\<close>

definition tool_arguments :: "content_block \<Rightarrow> string" where
  "tool_arguments b = (case cb_tool_arguments b of Some a \<Rightarrow> a
     | None \<Rightarrow> (case cb_text b of Some t \<Rightarrow> t | None \<Rightarrow> ''{}''))"

text \<open>Reading back what was written, while the images fit.\<close>

lemma each_item_map_ok:
  fixes used :: "'s \<Rightarrow> nat" and cost :: "'a \<Rightarrow> nat"
  assumes "\<And>i x s v. x \<in> set xs \<Longrightarrow> w x = Inr v \<Longrightarrow> used s + cost x \<le> n \<Longrightarrow> f i v s = Inr ([x], upd x s)"
    and "\<And>x s. used (upd x s) = used s + cost x"
  shows "map_ok w xs = Inr vs \<Longrightarrow> used s + sum_list (map cost xs) \<le> n \<Longrightarrow> each_item f i vs s = Inr (xs, fold upd xs s)"
  using assms(1)
proof (induction xs arbitrary: i s vs)
  case (Cons x xs)
  from Cons.prems(1) obtain v us where v: "w x = Inr v" and us: "map_ok w xs = Inr us" and vs: "vs = v # us"
    by (auto simp: and_then_eq_Inr)
  have "f i v s = Inr ([x], upd x s)" using Cons.prems(2,3) v by simp
  moreover have "each_item f (Suc i) us (upd x s) = Inr (xs, fold upd xs (upd x s))"
    using Cons.IH [OF us] Cons.prems(2,3) assms(2) by simp
  ultimately show ?case using vs by simp
qed simp

lemma map_ok_length: "map_ok w xs = Inr vs \<Longrightarrow> length vs = length xs"
  by (induction xs arbitrary: vs) (auto simp: and_then_eq_Inr)

end
