(* ===== verification/ChatCodec.thy ===== *)
theory ChatCodec imports Codec begin

text \<open>
  The request codec of OpenAI Chat Completions (\<open>src/domain/protocols/openai-chat.ts\<close>): the strict
  normalization of a client body and the payload written for an upstream. A request within the
  bounds is what the first returns, and reading a written payload gives the request back.
\<close>

subsection \<open>Normalization\<close>

definition role_name :: "role \<Rightarrow> string" where
  "role_name r = (case r of RoSystem \<Rightarrow> ''system'' | RoDeveloper \<Rightarrow> ''developer'' | RoUser \<Rightarrow> ''user''
     | RoAssistant \<Rightarrow> ''assistant'' | RoTool \<Rightarrow> ''tool'')"

definition normalize_chat_format :: "json option \<Rightarrow> narrow_failure + response_format" where
  "normalize_chat_format raw =
    (if is_nullish raw then Inr RfText
     else and_then (narrow_object raw ''response_format'') (\<lambda>format.
       let ty = js_field format ''type'' in
       if ty = Some (JStr ''text'') then Inr RfText
       else if ty = Some (JStr ''json_object'') then Inr RfJsonObject
       else if ty = Some (JStr ''json_schema'') then Inr RfJsonSchema
       else case ty of
           Some (JStr s) \<Rightarrow> Inl (protocol_fail ''response_format.type'' (''response_format.type: unsupported format '' @ in_quotes s))
         | _ \<Rightarrow> Inl (protocol_fail ''response_format.type'' (''response_format.type: expected '' @ in_quotes ''text'' @ '', '' @
             in_quotes ''json_object'' @ '', or '' @ in_quotes ''json_schema''))))"

definition normalize_chat_max_tokens :: "codec_env \<Rightarrow> (string \<times> json) list \<Rightarrow> narrow_failure + rat option" where
  "normalize_chat_max_tokens cx top_obj =
    (let field = (if js_field top_obj ''max_completion_tokens'' \<noteq> None then ''max_completion_tokens'' else ''max_tokens'');
         raw = (if is_nullish (js_field top_obj ''max_completion_tokens'') then js_field top_obj ''max_tokens''
                else js_field top_obj ''max_completion_tokens'')
     in optional_tokens cx raw field)"

definition parsed_reasoning ::
  "codec_env \<Rightarrow> json option \<Rightarrow> narrow_failure + (reasoning_mode \<times> reasoning_config option) option" where
  "parsed_reasoning cx reasoning =
    (case reasoning of
       Some (JObj obj) \<Rightarrow> and_then (parse_reasoning_config cx obj ''reasoning'' (js_field obj ''enabled'')) (\<lambda>p. Inr (Some p))
     | _ \<Rightarrow> if is_nullish reasoning then Inr None else Inl (protocol_fail ''reasoning'' ''reasoning: expected an object''))"

definition add_top_effort :: "json option \<Rightarrow> reasoning_config \<Rightarrow> narrow_failure + reasoning_config" where
  "add_top_effort v config =
    (if rcf_effort config \<noteq> None then Inr config
     else and_then (parse_effort v ''reasoning_effort'') (\<lambda>e. Inr (config\<lparr>rcf_effort := e\<rparr>)))"

definition parsed_config :: "(reasoning_mode \<times> reasoning_config option) option \<Rightarrow> reasoning_config" where
  "parsed_config parsed = (case parsed of Some (_, Some c) \<Rightarrow> c | _ \<Rightarrow> no_reasoning)"

definition finalize_reasoning ::
  "codec_env \<Rightarrow> (string \<times> json) list \<Rightarrow> bool \<Rightarrow> narrow_failure + reasoning_mode \<times> reasoning_config option" where
  "finalize_reasoning cx top_obj seen =
    and_then (parsed_reasoning cx (js_field top_obj ''reasoning'')) (\<lambda>parsed.
    and_then (add_top_effort (js_field top_obj ''reasoning_effort'') (parsed_config parsed)) (\<lambda>config.
      Inr (if seen \<or> rcf_effort config \<noteq> None \<or> rcf_enabled config = Some True \<or> rcf_max_tokens config \<noteq> None
           then RmEnabled
           else (case parsed of Some (flag, _) \<Rightarrow> flag | None \<Rightarrow> RmDefault),
           some_config config)))"

definition normalize_chat_block ::
  "codec_env \<Rightarrow> string \<Rightarrow> nat \<Rightarrow> json \<Rightarrow> wire_state \<Rightarrow> narrow_failure + content_block list \<times> wire_state" where
  "normalize_chat_block cx field i item s =
    (let f = item_at field i in
     and_then (narrow_object (Some item) f) (\<lambda>obj.
       let ty = js_field obj ''type'' in
       if ty = Some (JStr ''text'') \<or> ty = Some (JStr ''input_text'') \<or> ty = Some (JStr ''output_text'')
       then and_then (narrow_string (js_field obj ''text'') (f @ ''.text'') MAX_TEXT_BLOCK_LENGTH) (\<lambda>t. Inr ([text_block t], s))
       else if ty = Some (JStr ''image_url'')
       then let raw = js_field obj ''image_url'';
                url = (case raw of Some (JObj fs) \<Rightarrow> js_field fs ''url'' | _ \<Rightarrow> raw)
            in and_then (push_classified cx url (f @ ''.image_url.url'') (f @ ''.image_url'') s) (\<lambda>(r, t). Inr ([image_block r], t))
       else case ty of
           Some (JStr _) \<Rightarrow> Inr ([unknown_block (narrow_text (js_field obj ''text''))], s)
         | _ \<Rightarrow> Inl (protocol_fail (f @ ''.type'') ''content block type must be a string'')))"

definition normalize_chat_content ::
  "codec_env \<Rightarrow> json option \<Rightarrow> string \<Rightarrow> wire_state \<Rightarrow> narrow_failure + content_block list \<times> wire_state" where
  "normalize_chat_content cx raw field s =
    (case raw of
       None \<Rightarrow> Inr ([], s)
     | Some JNull \<Rightarrow> Inr ([], s)
     | Some (JStr t) \<Rightarrow> and_then (bounded_text field t) (\<lambda>t. Inr ([text_block t], s))
     | _ \<Rightarrow> and_then (narrow_array raw field MAX_BLOCKS_PER_MESSAGE) (\<lambda>items. each_item (normalize_chat_block cx field) 0 items s))"

text \<open>\<open>fn["arguments"] ?? "{}"\<close>\<close>

definition or_braces :: "json option \<Rightarrow> json option" where
  "or_braces v = (if is_nullish v then Some (JStr ''{}'') else v)"

definition normalize_chat_call ::
  "codec_env \<Rightarrow> string \<Rightarrow> nat \<Rightarrow> json \<Rightarrow> unit \<Rightarrow> narrow_failure + content_block list \<times> unit" where
  "normalize_chat_call cx field i item s =
    (let f = item_at field i in
     and_then (narrow_object (Some item) f) (\<lambda>obj.
       if js_field obj ''type'' \<noteq> None \<and> js_field obj ''type'' \<noteq> Some (JStr ''function'')
       then Inl (protocol_fail (f @ ''.type'') (''unsupported tool call type '' @ in_quotes (cx_show_json cx (the (js_field obj ''type'')))))
       else and_then (narrow_object (js_field obj ''function'') (f @ ''.function'')) (\<lambda>fn.
         and_then (narrow_string (js_field fn ''name'') (f @ ''.function.name'') MAX_TOOL_NAME_LENGTH) (\<lambda>name.
           if trim name = [] then Inl (protocol_fail (f @ ''.function.name'') ''tool call name must not be empty'')
           else and_then (narrow_string (js_field obj ''id'') (f @ ''.id'') 128) (\<lambda>call_id.
             if call_id = [] then Inl (protocol_fail (f @ ''.id'') ''tool call id must not be empty'')
             else and_then (narrow_string (or_braces (js_field fn ''arguments'')) (f @ ''.function.arguments'') MAX_TOOL_ARGUMENT_LENGTH)
               (\<lambda>args. Inr ([call_block name call_id args], s)))))))"

definition normalize_chat_calls :: "codec_env \<Rightarrow> json option \<Rightarrow> string \<Rightarrow> narrow_failure + content_block list" where
  "normalize_chat_calls cx raw field =
    (if is_nullish raw then Inr []
     else and_then (narrow_array raw field MAX_TOOL_CALLS_PER_MESSAGE) (\<lambda>items.
       and_then (each_item (normalize_chat_call cx field) 0 items ()) (\<lambda>(bs, _). Inr bs)))"

definition chat_role :: "string \<Rightarrow> role option" where
  "chat_role s = find (\<lambda>r. role_name r = s) [RoSystem, RoDeveloper, RoUser, RoAssistant, RoTool]"

definition normalize_chat_message ::
  "codec_env \<Rightarrow> nat \<Rightarrow> json \<Rightarrow> wire_state \<Rightarrow> narrow_failure + message list \<times> wire_state" where
  "normalize_chat_message cx i item s =
    (let f = item_at ''messages'' i in
     and_then (narrow_object (Some item) f) (\<lambda>obj.
     and_then (narrow_string (js_field obj ''role'') (f @ ''.role'') 32) (\<lambda>name.
       case chat_role name of
         None \<Rightarrow> Inl (protocol_fail (f @ ''.role'') (''unsupported role '' @ in_quotes name))
       | Some role \<Rightarrow>
         and_then (normalize_chat_content cx (js_field obj ''content'') (f @ ''.content'') s) (\<lambda>(content, t).
           if role = RoAssistant
           then and_then (normalize_chat_calls cx (js_field obj ''tool_calls'') (f @ ''.tool_calls'')) (\<lambda>calls.
             let thought = (case narrow_text (js_field obj ''reasoning_content'') of
                   Some x \<Rightarrow> if x = [] then None else Some x
                 | None \<Rightarrow> None)
             in Inr ([\<lparr>msg_role = role, msg_content = content @ calls, msg_reasoning = thought\<rparr>],
                     fst t, snd t \<or> thought \<noteq> None))
           else if role = RoTool
           then and_then (narrow_string (js_field obj ''tool_call_id'') (f @ ''.tool_call_id'') 128) (\<lambda>call_id.
             Inr ([\<lparr>msg_role = role,
                    msg_content = map (\<lambda>b. b\<lparr>cb_type := BtToolResult, cb_tool_call_id := Some call_id\<rparr>) content,
                    msg_reasoning = None\<rparr>], t))
           else Inr ([\<lparr>msg_role = role, msg_content = content, msg_reasoning = None\<rparr>], t)))))"

definition normalize_chat_messages ::
  "codec_env \<Rightarrow> json option \<Rightarrow> wire_state \<Rightarrow> narrow_failure + message list \<times> wire_state" where
  "normalize_chat_messages cx raw s =
    and_then (narrow_array raw ''messages'' MAX_MESSAGE_COUNT) (\<lambda>items. each_item (normalize_chat_message cx) 0 items s)"

definition chat_tool_options :: tool_list_options where
  "chat_tool_options = \<lparr>tlo_unwrap_function = True, tlo_schema_field = ''parameters'', tlo_schema_required = False\<rparr>"

definition normalize_model :: "(string \<times> json) list \<Rightarrow> narrow_failure + string" where
  "normalize_model top_obj =
    and_then (narrow_string (js_field top_obj ''model'') ''model'' MAX_MODEL_LENGTH) (\<lambda>model.
      if trim model = [] then Inl (protocol_fail ''model'' ''model: must not be empty'') else Inr model)"

definition codec_tools :: "codec_env \<Rightarrow> tool_list_options \<Rightarrow> json option \<Rightarrow> narrow_failure + tool list" where
  "codec_tools cx opts raw = normalize_tool_list (\<lambda>v. length (stringify cx v)) (cx_show_json cx) opts raw"

definition normalize_chat_body :: "codec_env \<Rightarrow> request_limits \<Rightarrow> json option \<Rightarrow> narrow_failure + normalized_request" where
  "normalize_chat_body cx limits body =
    and_then (narrow_object body ''body'') (\<lambda>top_obj.
    and_then (normalize_model top_obj) (\<lambda>model.
    and_then (normalize_stream (js_field top_obj ''stream'')) (\<lambda>stream.
    and_then (normalize_chat_format (js_field top_obj ''response_format'')) (\<lambda>format.
    and_then (normalize_chat_messages cx (js_field top_obj ''messages'') ([], False)) (\<lambda>(messages, images, seen).
    and_then (codec_tools cx chat_tool_options (js_field top_obj ''tools'')) (\<lambda>tools.
    and_then (finalize_reasoning cx top_obj seen) (\<lambda>(flag, config).
    and_then (normalize_chat_max_tokens cx top_obj) (\<lambda>max_tokens.
      Inr \<lparr>nr_model = model, nr_messages = messages, nr_tools = tools, nr_stream = stream, nr_response_format = format,
        nr_reasoning = (if seen \<and> flag = RmDefault then RmEnabled else flag), nr_reasoning_config = config,
        nr_include = None, nr_max_output_tokens = max_tokens, nr_images = images, nr_image_operation = None,
        nr_source_surface = SfChat, nr_limits = limits, nr_cache_key = None, nr_metadata_user_id = None\<rparr>))))))))"

definition normalize_chat_request ::
  "codec_env \<Rightarrow> request_limits \<Rightarrow> bool \<Rightarrow> json option \<Rightarrow> narrow_failure + normalized_request" where
  "normalize_chat_request cx limits aborted body =
    (case aborted_error aborted of Some e \<Rightarrow> Inl e | None \<Rightarrow> normalize_chat_body cx limits body)"

subsection \<open>Accepted requests\<close>

lemma returns_normalize_model [returns_rules]:
  "returns (\<lambda>m. trim m \<noteq> [] \<and> length m \<le> MAX_MODEL_LENGTH) (normalize_model top_obj)"
  unfolding normalize_model_def by (rule returns_and_then [OF returns_narrow_string]) auto

lemma returns_codec_tools [returns_rules]:
  "returns (\<lambda>ts. length ts \<le> MAX_TOOL_COUNT \<and> (\<forall>t \<in> set ts. tool_ok (\<lambda>v. length (stringify cx v)) t)) (codec_tools cx opts raw)"
  unfolding codec_tools_def by (rule returns_normalize_tool_list)

lemma returns_chat_format [returns_rules]: "returns (\<lambda>f. True) (normalize_chat_format raw)"
  unfolding normalize_chat_format_def
  by (auto simp: Let_def intro!: returns_and_then [OF returns_narrow_object] split: option.splits json.splits)

lemma returns_chat_max_tokens [returns_rules]: "returns token_bound (normalize_chat_max_tokens cx top_obj)"
  unfolding normalize_chat_max_tokens_def Let_def by (rule returns_optional_tokens)

lemma returns_parsed_reasoning:
  "returns (\<lambda>p. token_bound (rcf_max_tokens (parsed_config p))) (parsed_reasoning cx reasoning)"
  by (auto simp: parsed_reasoning_def parsed_config_def no_reasoning_def token_bound_def config_ok_def
      intro!: returns_and_then [OF returns_parse_reasoning_config] split: option.splits json.splits)

lemma returns_add_top_effort:
  "token_bound (rcf_max_tokens c) \<Longrightarrow> returns (\<lambda>d. token_bound (rcf_max_tokens d)) (add_top_effort v c)"
  by (auto simp: add_top_effort_def intro!: returns_and_then [OF returns_parse_effort])

lemma returns_finalize_reasoning [returns_rules]: "returns (\<lambda>(flag, c). config_ok c) (finalize_reasoning cx top_obj seen)"
  unfolding finalize_reasoning_def
  by (auto intro!: returns_and_then [OF returns_parsed_reasoning] returns_and_then [OF returns_add_top_effort])

lemma returns_chat_block: "state_ok s \<Longrightarrow>
    returns (\<lambda>(bs, t). state_ok t \<and> adds_blocks cx s bs t \<and> length bs \<le> 1) (normalize_chat_block cx field i item s)"
  unfolding normalize_chat_block_def Let_def
  by (auto intro!: returns_and_then [OF returns_narrow_object] returns_and_then [OF returns_narrow_string]
      returns_and_then [OF returns_push_classified] split: option.splits json.splits)

lemma returns_chat_content: "state_ok s \<Longrightarrow>
    returns (\<lambda>(bs, t). state_ok t \<and> adds_blocks cx s bs t \<and> length bs \<le> MAX_BLOCKS_PER_MESSAGE) (normalize_chat_content cx raw field s)"
proof -
  assume ok: "state_ok s"
  have loop: "returns (\<lambda>(bs, t). state_ok t \<and> adds_blocks cx s bs t \<and> length bs \<le> MAX_BLOCKS_PER_MESSAGE)
      (each_item (normalize_chat_block cx field) 0 items s)" if "length items \<le> MAX_BLOCKS_PER_MESSAGE" for items
    using that by (intro returns_mono [OF returns_blocks_loop [OF returns_chat_block ok]]) auto
  have one: "(1::nat) \<le> MAX_BLOCKS_PER_MESSAGE" by (simp add: MAX_BLOCKS_PER_MESSAGE_def)
  show ?thesis using ok one unfolding normalize_chat_content_def
    by (auto intro!: returns_and_then [OF returns_bounded_text] returns_and_then [OF returns_narrow_array] loop
        split: option.splits json.splits)
qed

lemma returns_chat_calls: "returns (\<lambda>bs. (\<forall>b \<in> set bs. block_ok cx b \<and> cb_image b = None) \<and> length bs \<le> MAX_TOOL_CALLS_PER_MESSAGE)
    (normalize_chat_calls cx raw field)"
proof -
  have call: "returns (\<lambda>(bs, t). True \<and> (\<forall>b \<in> set bs. block_ok cx b \<and> cb_image b = None) \<and> length bs \<le> 1) (normalize_chat_call cx field i item s)"
    for i item s
    unfolding normalize_chat_call_def Let_def
    by (auto intro!: returns_and_then [OF returns_narrow_object] returns_and_then [OF returns_narrow_string])
  have loop: "returns (\<lambda>(bs, t). True \<and> (\<forall>b \<in> set bs. block_ok cx b \<and> cb_image b = None) \<and> length bs \<le> 1 * length items)
      (each_item (normalize_chat_call cx field) 0 items ())" for items
    by (rule returns_each_item [where I = "\<lambda>s. True" and R = "\<lambda>s bs t. \<forall>b \<in> set bs. block_ok cx b \<and> cb_image b = None"])
      (use call in auto)
  show ?thesis unfolding normalize_chat_calls_def
    by (auto intro!: returns_and_then [OF returns_narrow_array] returns_and_then [OF loop])
qed

lemma tool_result_retyped:
  assumes "block_ok cx b" and "length call_id \<le> 128"
  shows "block_ok cx (b\<lparr>cb_type := BtToolResult, cb_tool_call_id := Some call_id\<rparr>)"
  using assms by (auto simp: block_ok_def)

lemma images_of_retyped [simp]:
  "images_of (map (\<lambda>b. b\<lparr>cb_type := ty, cb_tool_call_id := c\<rparr>) bs) = images_of bs"
  by (simp add: images_of_def comp_def)

lemma images_of_none: "\<forall>b \<in> set bs. cb_image b = None \<Longrightarrow> images_of bs = []"
  by (induction bs) (auto simp: images_of_def)

lemma chat_message_size [simp]: "n \<le> MAX_BLOCKS_PER_MESSAGE \<Longrightarrow> k \<le> MAX_TOOL_CALLS_PER_MESSAGE \<Longrightarrow>
    n + k \<le> MAX_BLOCKS_PER_MESSAGE * MAX_BLOCKS_PER_MESSAGE"
  by (simp add: MAX_BLOCKS_PER_MESSAGE_def MAX_TOOL_CALLS_PER_MESSAGE_def)

lemma chat_content_size [simp]: "n \<le> MAX_BLOCKS_PER_MESSAGE \<Longrightarrow> n \<le> MAX_BLOCKS_PER_MESSAGE * MAX_BLOCKS_PER_MESSAGE"
  by (simp add: MAX_BLOCKS_PER_MESSAGE_def)

lemma returns_chat_message: "state_ok s \<Longrightarrow>
    returns (\<lambda>(ms, t). state_ok t \<and> adds_messages cx s ms t \<and> length ms \<le> 1) (normalize_chat_message cx i item s)"
  unfolding normalize_chat_message_def Let_def
  by (auto simp: adds_blocks_def adds_messages_def message_ok_def state_ok_def images_of_none
      intro!: returns_and_then [OF returns_narrow_object] returns_and_then [OF returns_narrow_string]
        returns_and_then [OF returns_chat_content] returns_and_then [OF returns_chat_calls] tool_result_retyped
      split: option.splits)

lemma returns_chat_messages: "state_ok s \<Longrightarrow>
    returns (\<lambda>(ms, t). state_ok t \<and> adds_messages cx s ms t \<and> length ms \<le> MAX_MESSAGE_COUNT) (normalize_chat_messages cx raw s)"
proof -
  assume ok: "state_ok s"
  have loop: "returns (\<lambda>(ms, t). state_ok t \<and> adds_messages cx s ms t \<and> length ms \<le> MAX_MESSAGE_COUNT)
      (each_item (normalize_chat_message cx) 0 items s)" if "length items \<le> MAX_MESSAGE_COUNT" for items
    using that by (intro returns_mono [OF returns_messages_loop [OF returns_chat_message ok]]) auto
  show ?thesis unfolding normalize_chat_messages_def
    by (auto intro!: returns_and_then [OF returns_narrow_array] loop)
qed

lemma state_ok_start [simp]: "state_ok ([], seen)"
  by (simp add: state_ok_def)

lemma returns_chat_body: "returns (\<lambda>r. request_ok cx r \<and> nr_source_surface r = SfChat \<and> nr_limits r = limits) (normalize_chat_body cx limits body)"
proof -
  have "n \<le> MAX_MESSAGE_COUNT \<Longrightarrow> n \<le> Suc MAX_MESSAGE_COUNT" for n by simp
  then show ?thesis unfolding normalize_chat_body_def
    by (auto simp: request_ok_def adds_messages_def state_ok_def config_ok_def
        intro!: returns_and_then [OF returns_narrow_object] returns_and_then [OF returns_normalize_model]
          returns_and_then [OF returns_normalize_stream] returns_and_then [OF returns_chat_format]
          returns_and_then [OF returns_chat_messages [OF state_ok_start]] returns_and_then [OF returns_codec_tools]
          returns_and_then [OF returns_finalize_reasoning] returns_and_then [OF returns_chat_max_tokens])
qed

text \<open>The calls of a message, which only the Chat surface counts.\<close>

definition call_count :: "message \<Rightarrow> nat" where
  "call_count m = length (filter (\<lambda>b. cb_type b = BtToolUse) (msg_content m))"

lemma returns_chat_content_calls:
  "returns (\<lambda>(bs, t). \<forall>b \<in> set bs. cb_type b \<noteq> BtToolUse) (normalize_chat_content cx raw field s)"
proof -
  let ?P = "\<lambda>bs. \<forall>b \<in> set bs. cb_type b \<noteq> BtToolUse"
  have block: "returns (\<lambda>(bs, t). True \<and> ?P bs \<and> length bs \<le> 1) (normalize_chat_block cx field i item s)" for i item s
    unfolding normalize_chat_block_def Let_def
    by (auto intro!: returns_and_then [OF returns_narrow_object] returns_and_then [OF returns_narrow_string]
        returns_and_then [OF returns_push_classified] split: option.splits json.splits)
  have loop: "returns (\<lambda>(bs, t). True \<and> ?P bs \<and> length bs \<le> 1 * length items) (each_item (normalize_chat_block cx field) 0 items s)" for items
    by (rule returns_each_item [where I = "\<lambda>s. True" and R = "\<lambda>s bs t. ?P bs"]) (use block in auto)
  show ?thesis unfolding normalize_chat_content_def
    by (auto intro!: returns_and_then [OF returns_bounded_text] returns_and_then [OF returns_narrow_array] returns_mono [OF loop]
        split: option.splits json.splits)
qed

lemma returns_chat_call_count:
  "returns (\<lambda>r. \<forall>m \<in> set (nr_messages r). call_count m \<le> MAX_TOOL_CALLS_PER_MESSAGE) (normalize_chat_body cx limits body)"
proof -
  let ?P = "\<lambda>ms. \<forall>m \<in> set ms. call_count m \<le> MAX_TOOL_CALLS_PER_MESSAGE"
  have counted: "call_count \<lparr>msg_role = ro, msg_content = content @ calls, msg_reasoning = x\<rparr> \<le> MAX_TOOL_CALLS_PER_MESSAGE"
    if "\<forall>b \<in> set content. cb_type b \<noteq> BtToolUse" "length calls \<le> MAX_TOOL_CALLS_PER_MESSAGE" for ro content calls x
    using that le_trans [OF length_filter_le that(2)] by (simp add: call_count_def)
  have results: "call_count \<lparr>msg_role = ro, msg_content = map (\<lambda>b. b\<lparr>cb_type := BtToolResult, cb_tool_call_id := c\<rparr>) bs, msg_reasoning = x\<rparr> = 0" for ro bs c x
    by (simp add: call_count_def comp_def filter_map)
  have plain: "call_count \<lparr>msg_role = ro, msg_content = content, msg_reasoning = x\<rparr> = 0"
    if "\<forall>b \<in> set content. cb_type b \<noteq> BtToolUse" for ro content x
    using that by (simp add: call_count_def)
  have message: "returns (\<lambda>(ms, t). True \<and> ?P ms \<and> length ms \<le> 1) (normalize_chat_message cx i item s)" for i item s
    unfolding normalize_chat_message_def Let_def
    by (auto simp: results plain intro!: returns_and_then [OF returns_narrow_object] returns_and_then [OF returns_narrow_string]
        returns_and_then [OF returns_chat_content_calls] returns_and_then [OF returns_chat_calls] counted split: option.splits)
  have loop: "returns (\<lambda>(ms, t). True \<and> ?P ms \<and> length ms \<le> 1 * length items) (each_item (normalize_chat_message cx) 0 items s)" for items s
    by (rule returns_each_item [where I = "\<lambda>s. True" and R = "\<lambda>s ms t. ?P ms"]) (use message in auto)
  have messages: "returns (\<lambda>(ms, t). ?P ms) (normalize_chat_messages cx raw s)" for raw s
    unfolding normalize_chat_messages_def
    by (rule returns_and_then [OF returns_narrow_array], rule returns_mono [OF loop]) auto
  show ?thesis unfolding normalize_chat_body_def
    by (auto intro!: returns_and_then [OF returns_narrow_object] returns_and_then [OF returns_normalize_model]
        returns_and_then [OF returns_normalize_stream] returns_and_then [OF returns_chat_format]
        returns_and_then [OF messages] returns_and_then [OF returns_codec_tools]
        returns_and_then [OF returns_finalize_reasoning] returns_and_then [OF returns_chat_max_tokens])
qed

subsection \<open>The upstream payload\<close>

definition to_openai_image_url :: "image_reference option \<Rightarrow> codec_error + string" where
  "to_openai_image_url img =
    (case img of
       None \<Rightarrow> Inr []
     | Some r \<Rightarrow> (case im_kind r of
           IkUrl \<Rightarrow> Inr (im_value r)
         | IkData \<Rightarrow>
             if take 5 (im_value r) = ''data:'' then Inr (im_value r)
             else Inr (''data:'' @ (case im_media_type r of Some m \<Rightarrow> m | None \<Rightarrow> ''image/png'') @ '';base64,'' @ im_value r)
         | IkFile \<Rightarrow> Inl (request_codec_error CapabilityUnsupported ''file-kind image references cannot be inlined to upstream providers'')))"

definition to_chat_user_block :: "content_block \<Rightarrow> codec_error + json list" where
  "to_chat_user_block b = (case cb_type b of
      BtText \<Rightarrow> Inr [JObj [(''type'', JStr ''text''), (''text'', JStr (or_empty (cb_text b)))]]
    | BtImage \<Rightarrow> and_then (to_openai_image_url (cb_image b)) (\<lambda>url.
        Inr [JObj [(''type'', JStr ''image_url''), (''image_url'', JObj [(''url'', JStr url)])]])
    | BtToolResult \<Rightarrow> Inr [JObj [(''type'', JStr ''text''), (''text'', JStr (or_empty (cb_text b)))]]
    | _ \<Rightarrow> Inr [])"

definition to_chat_tool_call :: "content_block \<Rightarrow> json" where
  "to_chat_tool_call b =
    (let name = or_empty (cb_tool_name b) in
     JObj [(''id'', JStr (case cb_tool_call_id b of Some c \<Rightarrow> c | None \<Rightarrow> ''call_'' @ name)),
           (''type'', JStr ''function''),
           (''function'', JObj [(''name'', JStr name), (''arguments'', JStr (tool_arguments b))])])"

definition to_chat_message :: "message \<Rightarrow> codec_error + json" where
  "to_chat_message m = (case msg_role m of
      RoSystem \<Rightarrow> Inr (JObj [(''role'', JStr ''system''), (''content'', JStr (message_text m))])
    | RoDeveloper \<Rightarrow> Inr (JObj [(''role'', JStr ''system''), (''content'', JStr (message_text m))])
    | RoUser \<Rightarrow>
        if \<not> has_image m then Inr (JObj [(''role'', JStr ''user''), (''content'', JStr (message_text m))])
        else and_then (flat_map_ok to_chat_user_block (msg_content m)) (\<lambda>bs.
          Inr (JObj [(''role'', JStr ''user''), (''content'', JArr bs)]))
    | RoAssistant \<Rightarrow>
        (let t = message_text m; calls = map to_chat_tool_call (tool_uses m) in
         Inr (JObj ([(''role'', JStr ''assistant''),
             (''content'', if 0 < length t then JStr t else if 0 < length calls then JNull else JStr [])] @
           when_json (0 < length calls) ''tool_calls'' (JArr calls) @
           opt_json ''reasoning_content'' (map_option JStr (msg_reasoning m)))))
    | RoTool \<Rightarrow>
        Inr (JObj [(''role'', JStr ''tool''),
          (''tool_call_id'', JStr (or_empty (Option.bind (first_block m) cb_tool_call_id))),
          (''content'', JStr (or_empty (Option.bind (first_block m) cb_text)))]))"

definition chat_tool :: "tool \<Rightarrow> json" where
  "chat_tool t = JObj [(''type'', JStr ''function''),
     (''function'', JObj ([(''name'', JStr (tl_name t))] @ opt_json ''description'' (map_option JStr (tl_description t)) @
       [(''parameters'', JObj (tl_schema t))]))]"

definition token_json :: "rat \<Rightarrow> json" where
  "token_json q = JNum (Num q)"

text \<open>The fields of a reasoning object after the effort, which the Responses codec writes too.\<close>

definition reasoning_fields :: "reasoning_config \<Rightarrow> (string \<times> json) list" where
  "reasoning_fields c =
     opt_json ''summary'' (map_option (\<lambda>s. JStr (summary_name s)) (rcf_summary c)) @
     opt_json ''max_tokens'' (map_option token_json (rcf_max_tokens c)) @
     opt_json ''exclude'' (map_option JBool (rcf_exclude c)) @
     opt_json ''enabled'' (map_option JBool (rcf_enabled c))"

definition chat_reasoning :: "reasoning_mode \<Rightarrow> reasoning_config option \<Rightarrow> (string \<times> json) list" where
  "chat_reasoning flag config =
    (if flag = RmEnabled \<or> config \<noteq> None
     then (case Option.bind config rcf_effort of
             Some e \<Rightarrow> [(''reasoning_effort'', JStr (effort_name e))]
           | None \<Rightarrow> when_json (flag = RmEnabled) ''reasoning_effort'' (JStr ''medium'')) @
          (case config of
             Some c \<Rightarrow> when_json (rcf_summary c \<noteq> None \<or> rcf_max_tokens c \<noteq> None \<or> rcf_exclude c \<noteq> None \<or> rcf_enabled c \<noteq> None)
                 ''reasoning'' (JObj (reasoning_fields c))
           | None \<Rightarrow> [])
     else [])"

definition build_chat_payload :: "normalized_request \<Rightarrow> codec_error + json" where
  "build_chat_payload r =
    and_then (map_ok to_chat_message (nr_messages r)) (\<lambda>messages.
      Inr (JObj ([(''model'', JStr (nr_model r)), (''stream'', JBool (nr_stream r)), (''messages'', JArr messages)] @
        when_json (nr_tools r \<noteq> []) ''tools'' (JArr (map chat_tool (nr_tools r))) @
        opt_json ''max_tokens'' (map_option token_json (nr_max_output_tokens r)) @
        opt_json ''prompt_cache_key'' (map_option JStr (nr_cache_key r)) @
        when_json (nr_response_format r \<noteq> RfText) ''response_format'' (JObj [(''type'', JStr ''json_object'')]) @
        chat_reasoning (nr_reasoning r) (nr_reasoning_config r) @
        when_json (nr_stream r) ''stream_options'' (JObj [(''include_usage'', JBool True)]))))"

subsection \<open>Reading a written payload\<close>

definition wire_image :: "codec_env \<Rightarrow> image_reference \<Rightarrow> bool" where
  "wire_image cx r \<longleftrightarrow> (im_kind r = IkUrl \<or> im_kind r = IkData \<and> take 5 (im_value r) = ''data:'') \<and>
     (\<forall>field. classify_image_reference (cx_parse_url cx) (Some (JStr (im_value r))) field = Inr r)"

definition plain_block :: "content_block \<Rightarrow> bool" where
  "plain_block b \<longleftrightarrow> (\<exists>t. b = text_block t \<and> length t \<le> MAX_TEXT_BLOCK_LENGTH)"

definition plain_chat_message :: "codec_env \<Rightarrow> message \<Rightarrow> bool" where
  "plain_chat_message cx m = (case msg_role m of
      RoSystem \<Rightarrow> msg_reasoning m = None \<and> (\<exists>b. msg_content m = [b] \<and> plain_block b)
    | RoDeveloper \<Rightarrow> False
    | RoUser \<Rightarrow> msg_reasoning m = None \<and>
        ((\<exists>b. msg_content m = [b] \<and> plain_block b) \<or>
         has_image m \<and> length (msg_content m) \<le> MAX_BLOCKS_PER_MESSAGE \<and>
         (\<forall>b \<in> set (msg_content m). plain_block b \<or> (\<exists>r. b = image_block r \<and> wire_image cx r)))
    | RoAssistant \<Rightarrow> msg_reasoning m \<noteq> Some [] \<and>
        (\<exists>t calls. length t \<le> MAX_TEXT_BLOCK_LENGTH \<and> length calls \<le> MAX_TOOL_CALLS_PER_MESSAGE \<and>
           msg_content m = (if t \<noteq> [] \<or> calls = [] then [text_block t] else []) @ calls \<and>
           (\<forall>b \<in> set calls. block_ok cx b \<and> (\<exists>n c a. b = call_block n c a)))
    | RoTool \<Rightarrow> msg_reasoning m = None \<and>
        (\<exists>t c. msg_content m = [tool_result_block (Some t) c] \<and> length t \<le> MAX_TEXT_BLOCK_LENGTH \<and> length c \<le> 128))"

definition chat_history_reasons :: "message list \<Rightarrow> bool" where
  "chat_history_reasons ms \<longleftrightarrow> (\<exists>m \<in> set ms. msg_reasoning m \<noteq> None)"

text \<open>
  The reasoning settings a payload can carry: an enabled request names its effort, since a missing one
  is written as \<open>medium\<close>, and a disabled one says nothing else.
\<close>

definition chat_reasoning_ok :: "normalized_request \<Rightarrow> bool" where
  "chat_reasoning_ok r = (let seen = chat_history_reasons (nr_messages r) in
     case nr_reasoning_config r of
       None \<Rightarrow> nr_reasoning r = RmDefault \<and> \<not> seen
     | Some c \<Rightarrow> token_bound (rcf_max_tokens c) \<and> c \<noteq> no_reasoning \<and>
         (if rcf_enabled c = Some False
          then c = no_reasoning\<lparr>rcf_enabled := Some False\<rparr> \<and> nr_reasoning r = RmDisabled \<and> \<not> seen
          else if seen \<or> rcf_effort c \<noteq> None \<or> rcf_enabled c = Some True \<or> rcf_max_tokens c \<noteq> None
          then rcf_effort c \<noteq> None \<and> nr_reasoning r = RmEnabled
          else nr_reasoning r = RmDefault))"

definition chat_request :: "codec_env \<Rightarrow> normalized_request \<Rightarrow> bool" where
  "chat_request cx r \<longleftrightarrow>
     trim (nr_model r) \<noteq> [] \<and> length (nr_model r) \<le> MAX_MODEL_LENGTH \<and>
     length (nr_messages r) \<le> MAX_MESSAGE_COUNT \<and> (\<forall>m \<in> set (nr_messages r). plain_chat_message cx m) \<and>
     length (nr_tools r) \<le> MAX_TOOL_COUNT \<and>
     (\<forall>t \<in> set (nr_tools r). tool_ok (\<lambda>v. length (stringify cx v)) t \<and> \<not> is_protocol_error (tl_schema t)) \<and>
     nr_response_format r \<noteq> RfJsonSchema \<and> chat_reasoning_ok r \<and> token_bound (nr_max_output_tokens r) \<and>
     nr_include r = None \<and> nr_image_operation r = None \<and> nr_source_surface r = SfChat \<and>
     nr_cache_key r = None \<and> nr_metadata_user_id r = None \<and>
     nr_images r = images_in (nr_messages r) \<and> length (nr_images r) \<le> MAX_IMAGE_COUNT"

lemma js_field_step [simp]: "js_field [] n = None" "js_field ((k, v) # fs) n = (if k = n then Some v else js_field fs n)"
  by (simp_all add: js_field_def jm_get_def)

lemma js_field_append [simp]: "js_field (xs @ ys) n = (case js_field xs n of Some v \<Rightarrow> Some v | None \<Rightarrow> js_field ys n)"
  by (induction xs) auto

lemma js_field_opt_json [simp]: "js_field (opt_json k v) n = (if k = n then v else None)"
  by (simp add: opt_json_def split: option.splits)

lemma js_field_when_json [simp]: "js_field (when_json c k v) n = (if c \<and> k = n then Some v else None)"
  by (simp add: when_json_def)

lemma not_forged [simp]: "js_field fs ''field'' = None \<Longrightarrow> \<not> is_protocol_error fs"
  by (simp add: is_protocol_error_def)

lemma narrow_object_obj: "\<not> is_protocol_error fs \<Longrightarrow> narrow_object (Some (JObj fs)) field = Inr fs"
  by (simp add: narrow_object_def)

lemma narrow_string_str: "length s \<le> n \<Longrightarrow> narrow_string (Some (JStr s)) field n = Inr s"
  by (simp add: narrow_string_def)

lemma narrow_array_arr: "length vs \<le> n \<Longrightarrow> narrow_array (Some (JArr vs)) field n = Inr vs"
  by (simp add: narrow_array_def)

lemmas narrow_written = narrow_object_obj narrow_string_str narrow_array_arr

lemma message_text_one [simp]: "msg_content m = [text_block t] \<Longrightarrow> message_text m = t"
  by (simp add: message_text_def or_empty_def)

lemma read_plain_block:
  "plain_block b \<Longrightarrow> to_chat_user_block b = Inr [v] \<Longrightarrow> normalize_chat_block cx field i v s = Inr ([b], s)"
  by (auto simp: plain_block_def to_chat_user_block_def normalize_chat_block_def narrow_written or_empty_def Let_def)

lemma read_image_block:
  assumes "wire_image cx r" and "to_chat_user_block (image_block r) = Inr [v]" and "length (fst s) < MAX_IMAGE_COUNT"
  shows "normalize_chat_block cx field i v s = Inr ([image_block r], fst s @ [r], snd s)"
  using assms by (auto simp: wire_image_def to_chat_user_block_def to_openai_image_url_def normalize_chat_block_def narrow_written
      push_classified_def push_image_def push_image_reference_def Let_def)

lemma flat_map_single:
  assumes "\<And>x v. x \<in> set xs \<Longrightarrow> w x = Inr v \<Longrightarrow> \<exists>u. v = [u]"
  shows "flat_map_ok w xs = Inr vs \<Longrightarrow> map_ok (\<lambda>x. and_then (w x) (\<lambda>v. Inr (hd v))) xs = Inr vs"
  using assms
proof (induction xs arbitrary: vs)
  case (Cons x xs)
  from Cons.prems(1) obtain v us where v: "w x = Inr v" and us: "flat_map_ok w xs = Inr us" and vs: "vs = v @ us"
    by (auto simp: flat_map_ok_def and_then_eq_Inr)
  obtain u where "v = [u]" using Cons.prems(2) [of x v] v by auto
  moreover have "map_ok (\<lambda>x. and_then (w x) (\<lambda>v. Inr (hd v))) xs = Inr us" by (intro Cons.IH [OF us], rule Cons.prems(2)) auto
  ultimately show ?case using v vs by simp
qed (simp add: flat_map_ok_def)

lemma user_block_single:
  assumes "plain_block b \<or> (\<exists>r. b = image_block r \<and> wire_image cx r)" and "to_chat_user_block b = Inr v"
  shows "\<exists>u. v = [u]"
  using assms(1)
proof
  assume "plain_block b"
  then show ?thesis using assms(2) by (auto simp: to_chat_user_block_def plain_block_def)
next
  assume "\<exists>r. b = image_block r \<and> wire_image cx r"
  then show ?thesis using assms(2) by (auto simp: to_chat_user_block_def and_then_eq_Inr)
qed

lemma read_blocks:
  fixes s :: wire_state
  assumes single: "\<And>b v. b \<in> set bs \<Longrightarrow> w b = Inr v \<Longrightarrow> \<exists>u. v = [u]"
    and step: "\<And>b v i (s :: wire_state). b \<in> set bs \<Longrightarrow> w b = Inr [v] \<Longrightarrow> length (fst s) + length (images_of [b]) \<le> MAX_IMAGE_COUNT \<Longrightarrow>
      rd i v s = Inr ([b], fst s @ images_of [b], snd s)"
    and written: "flat_map_ok w bs = Inr vs" and room: "length (fst s) + length (images_of bs) \<le> MAX_IMAGE_COUNT"
  shows "each_item rd i vs s = Inr (bs, fst s @ images_of bs, snd s)"
proof -
  define upd :: "content_block \<Rightarrow> wire_state \<Rightarrow> wire_state" where "upd b s = (fst s @ images_of [b], snd s)" for b s
  have fold_upd: "fold upd bs s = (fst s @ images_of bs, snd s)" for s
    by (induction bs arbitrary: s) (auto simp: upd_def split: option.splits)
  have cost: "sum_list (map (\<lambda>b. length (images_of [b])) bs) = length (images_of bs)"
    by (induction bs) (auto split: option.splits)
  have one: "rd i v s = Inr ([b], upd b s)"
    if b: "b \<in> set bs" and v: "and_then (w b) (\<lambda>v. Inr (hd v)) = Inr v"
      and fits: "length (fst s) + length (images_of [b]) \<le> MAX_IMAGE_COUNT" for b v i and s :: wire_state
  proof -
    obtain us where us: "w b = Inr us" and "v = hd us" using v by (auto simp: and_then_eq_Inr)
    then have "w b = Inr [v]" using single [OF b us] by auto
    then show ?thesis using step [OF b _ fits] by (simp add: upd_def)
  qed
  have "each_item rd i vs s = Inr (bs, fold upd bs s)"
    by (rule each_item_map_ok [where used = "\<lambda>s. length (fst s)" and cost = "\<lambda>b. length (images_of [b])" and n = MAX_IMAGE_COUNT,
          OF one _ flat_map_single [OF single written]])
      (use room cost in \<open>auto simp: upd_def\<close>)
  then show ?thesis by (simp add: fold_upd)
qed

lemma read_chat_blocks:
  assumes blocks: "\<forall>b \<in> set bs. plain_block b \<or> (\<exists>r. b = image_block r \<and> wire_image cx r)"
    and "flat_map_ok to_chat_user_block bs = Inr vs" and "length (fst s) + length (images_of bs) \<le> MAX_IMAGE_COUNT"
  shows "each_item (normalize_chat_block cx field) i vs s = Inr (bs, fst s @ images_of bs, snd s)"
proof (rule read_blocks [OF _ _ assms(2,3)])
  fix b v
  assume "b \<in> set bs" "to_chat_user_block b = Inr v"
  then show "\<exists>u. v = [u]" using blocks user_block_single by blast
next
  fix b v i and s :: wire_state
  assume b: "b \<in> set bs" and v: "to_chat_user_block b = Inr [v]" and room: "length (fst s) + length (images_of [b]) \<le> MAX_IMAGE_COUNT"
  from blocks b consider "plain_block b" | r where "b = image_block r" "wire_image cx r" by blast
  then show "normalize_chat_block cx field i v s = Inr ([b], fst s @ images_of [b], snd s)"
  proof cases
    case 1
    then have "cb_image b = None" by (auto simp: plain_block_def)
    then show ?thesis using read_plain_block [OF 1 v] by simp
  next
    case 2
    then show ?thesis using read_image_block [OF 2(2)] v room by simp
  qed
qed

lemma read_chat_call:
  assumes "block_ok cx (call_block n c a)"
  shows "normalize_chat_call cx field i (to_chat_tool_call (call_block n c a)) s = Inr ([call_block n c a], s)"
  using assms by (simp add: normalize_chat_call_def to_chat_tool_call_def narrow_written Let_def or_empty_def or_braces_def
      is_nullish_def tool_arguments_def)

lemma read_chat_calls:
  assumes calls: "\<forall>b \<in> set bs. block_ok cx b \<and> (\<exists>n c a. b = call_block n c a)" and "length bs \<le> MAX_TOOL_CALLS_PER_MESSAGE"
  shows "normalize_chat_calls cx (Some (JArr (map to_chat_tool_call bs))) field = Inr bs"
proof -
  have "each_item (normalize_chat_call cx field) 0 (map to_chat_tool_call bs) () = Inr (bs, fold (\<lambda>b s. s) bs ())"
    by (rule each_item_map) (use calls read_chat_call in \<open>fastforce\<close>)
  then show ?thesis using assms(2) by (simp add: normalize_chat_calls_def is_nullish_def narrow_array_arr)
qed

lemma tool_uses_only:
  assumes "\<forall>b \<in> set calls. \<exists>n c a. b = call_block n c a"
  shows "filter (\<lambda>b. cb_type b = BtToolUse) calls = calls" and "filter (\<lambda>b. cb_type b = BtText) calls = []"
    and "images_of calls = []"
proof -
  have "\<forall>b \<in> set calls. cb_type b = BtToolUse \<and> cb_image b = None" using assms by force
  then show "filter (\<lambda>b. cb_type b = BtToolUse) calls = calls" and "filter (\<lambda>b. cb_type b = BtText) calls = []"
    and "images_of calls = []" by (auto simp: filter_empty_conv images_of_none)
qed

lemma chat_role_name [simp]: "chat_role (role_name r) = Some r"
  by (cases r) (simp_all add: chat_role_def role_name_def)

lemma chat_roles [simp]:
  "chat_role ''system'' = Some RoSystem" "chat_role ''user'' = Some RoUser"
  "chat_role ''assistant'' = Some RoAssistant" "chat_role ''tool'' = Some RoTool"
  by (simp_all add: chat_role_def role_name_def)

lemma read_assistant:
  assumes t: "length t \<le> MAX_TEXT_BLOCK_LENGTH" and few: "length calls \<le> MAX_TOOL_CALLS_PER_MESSAGE"
    and m: "msg_role m = RoAssistant" "msg_reasoning m \<noteq> Some []"
      "msg_content m = (if t \<noteq> [] \<or> calls = [] then [text_block t] else []) @ calls"
    and calls: "\<forall>b \<in> set calls. block_ok cx b \<and> (\<exists>n c a. b = call_block n c a)"
    and v: "to_chat_message m = Inr v"
  shows "normalize_chat_message cx i v s = Inr ([m], fst s @ images_of (msg_content m), snd s \<or> msg_reasoning m \<noteq> None)"
proof -
  have only: "\<forall>b \<in> set calls. \<exists>n c a. b = call_block n c a" using calls by blast
  have mt: "message_text m = t"
    using m(3) tool_uses_only(2) [OF only] by (auto simp: message_text_def or_empty_def split: if_splits)
  have tu: "tool_uses m = calls"
    using m(3) tool_uses_only(1) [OF only] by (auto simp: tool_uses_def split: if_splits)
  have none: "normalize_chat_calls cx None field = Inr []" for field by (simp add: normalize_chat_calls_def is_nullish_def)
  have thought: "(case narrow_text (map_option JStr (msg_reasoning m)) of Some x \<Rightarrow> if x = [] then None else Some x | None \<Rightarrow> None) = msg_reasoning m"
    using m(2) by (cases "msg_reasoning m") (auto simp: narrow_text_def)
  have whole: "\<lparr>msg_role = RoAssistant, msg_content = msg_content m, msg_reasoning = msg_reasoning m\<rparr> = m" using m(1) by simp
  show ?thesis using v m(1) t none read_chat_calls [OF calls few] tool_uses_only(3) [OF only] whole [unfolded m(3)]
    by (cases "t = []"; cases "calls = []")
      (auto simp: to_chat_message_def mt tu thought m(3) normalize_chat_message_def Let_def narrow_written
        normalize_chat_content_def bounded_text_def)
qed

lemma read_chat_message:
  assumes ok: "plain_chat_message cx m" and v: "to_chat_message m = Inr v"
    and room: "length (fst s) + length (images_of (msg_content m)) \<le> MAX_IMAGE_COUNT"
  shows "normalize_chat_message cx i v s = Inr ([m], fst s @ images_of (msg_content m), snd s \<or> msg_reasoning m \<noteq> None)"
proof (cases "msg_role m")
  case RoSystem
  then obtain t where "msg_content m = [text_block t]" "length t \<le> MAX_TEXT_BLOCK_LENGTH" "msg_reasoning m = None"
    using ok by (auto simp: plain_chat_message_def plain_block_def)
  then show ?thesis using v RoSystem
    by (cases m) (auto simp: to_chat_message_def normalize_chat_message_def Let_def narrow_written normalize_chat_content_def bounded_text_def)
next
  case RoDeveloper
  then show ?thesis using ok by (simp add: plain_chat_message_def)
next
  case RoUser
  have none: "msg_reasoning m = None" using ok RoUser by (simp add: plain_chat_message_def)
  show ?thesis
  proof (cases "has_image m")
    case False
    then obtain t where "msg_content m = [text_block t]" "length t \<le> MAX_TEXT_BLOCK_LENGTH"
      using ok RoUser by (auto simp: plain_chat_message_def plain_block_def)
    then show ?thesis using v RoUser none False
      by (cases m) (auto simp: to_chat_message_def normalize_chat_message_def Let_def narrow_written normalize_chat_content_def bounded_text_def)
  next
    case True
    then have blocks: "\<forall>b \<in> set (msg_content m). plain_block b \<or> (\<exists>r. b = image_block r \<and> wire_image cx r)"
      and few: "length (msg_content m) \<le> MAX_BLOCKS_PER_MESSAGE"
      using ok RoUser by (auto simp: plain_chat_message_def has_image_def plain_block_def MAX_BLOCKS_PER_MESSAGE_def)
    obtain vs where vs: "flat_map_ok to_chat_user_block (msg_content m) = Inr vs"
      and w: "v = JObj [(''role'', JStr ''user''), (''content'', JArr vs)]"
      using v RoUser True by (auto simp: to_chat_message_def and_then_eq_Inr)
    have "length vs = length (msg_content m)"
    proof -
      have "\<exists>u. v = [u]" if "b \<in> set (msg_content m)" and "to_chat_user_block b = Inr v" for b v
        using that blocks user_block_single by blast
      then show ?thesis using map_ok_length [OF flat_map_single [OF _ vs]] by blast
    qed
    then show ?thesis using read_chat_blocks [OF blocks vs room] w RoUser none few
      by (cases m) (auto simp: normalize_chat_message_def Let_def narrow_written normalize_chat_content_def)
  qed
next
  case RoAssistant
  then obtain t calls where "length t \<le> MAX_TEXT_BLOCK_LENGTH" "length calls \<le> MAX_TOOL_CALLS_PER_MESSAGE"
      "msg_reasoning m \<noteq> Some []" "msg_content m = (if t \<noteq> [] \<or> calls = [] then [text_block t] else []) @ calls"
      "\<forall>b \<in> set calls. block_ok cx b \<and> (\<exists>n c a. b = call_block n c a)"
    using ok by (auto simp: plain_chat_message_def)
  then show ?thesis using read_assistant RoAssistant v by blast
next
  case RoTool
  then obtain t c where "msg_content m = [tool_result_block (Some t) c]" "length t \<le> MAX_TEXT_BLOCK_LENGTH" "length c \<le> 128"
      "msg_reasoning m = None" using ok by (auto simp: plain_chat_message_def)
  then show ?thesis using v RoTool
    by (cases m) (auto simp: to_chat_message_def normalize_chat_message_def Let_def narrow_written normalize_chat_content_def
        bounded_text_def first_block_def or_empty_def tool_result_block_def text_block_def block_of_def)
qed

lemma read_chat_messages:
  assumes ok: "\<forall>m \<in> set ms. plain_chat_message cx m" and vs: "map_ok to_chat_message ms = Inr vs"
    and room: "length (images_in ms) \<le> MAX_IMAGE_COUNT" and few: "length ms \<le> MAX_MESSAGE_COUNT"
  shows "normalize_chat_messages cx (Some (JArr vs)) ([], False) = Inr (ms, images_in ms, chat_history_reasons ms)"
proof -
  define upd :: "message \<Rightarrow> wire_state \<Rightarrow> wire_state"
    where "upd m s = (fst s @ images_of (msg_content m), snd s \<or> msg_reasoning m \<noteq> None)" for m s
  have fold_upd: "fold upd ms s = (fst s @ images_in ms, snd s \<or> chat_history_reasons ms)" for s
    by (induction ms arbitrary: s) (auto simp: upd_def chat_history_reasons_def)
  have cost: "sum_list (map (\<lambda>m. length (images_of (msg_content m))) ms) = length (images_in ms)"
    by (induction ms) simp_all
  have step: "normalize_chat_message cx i v s = Inr ([m], upd m s)"
    if "m \<in> set ms" and "to_chat_message m = Inr v" and "length (fst s) + length (images_of (msg_content m)) \<le> MAX_IMAGE_COUNT" for i m s v
    using that ok read_chat_message unfolding upd_def by blast
  have "each_item (normalize_chat_message cx) 0 vs ([], False) = Inr (ms, fold upd ms ([], False))"
    by (rule each_item_map_ok [where used = "\<lambda>s. length (fst s)" and cost = "\<lambda>m. length (images_of (msg_content m))" and n = MAX_IMAGE_COUNT,
          OF step _ vs]) (use room cost in \<open>auto simp: upd_def\<close>)
  then show ?thesis using few map_ok_length [OF vs] by (simp add: normalize_chat_messages_def narrow_array_arr fold_upd)
qed

lemma read_chat_tool:
  assumes ok: "tool_ok (\<lambda>v. length (stringify cx v)) t" and "\<not> is_protocol_error (tl_schema t)"
  shows "normalize_tool (\<lambda>v. length (stringify cx v)) sh chat_tool_options i (chat_tool t) = Inr t"
proof -
  have "\<lparr>tl_name = tl_name t, tl_description = tl_description t, tl_schema = tl_schema t,
      tl_schema_length = Some (int (length (stringify cx (JObj (tl_schema t)))))\<rparr> = t"
    using ok by (cases t) (simp add: tool_ok_def)
  then show ?thesis using assms
    by (cases "tl_description t")
      (simp_all add: normalize_tool_def chat_tool_def chat_tool_options_def narrow_written Let_def tool_ok_def is_nullish_def)
qed

lemma read_tools:
  assumes "\<And>i t. t \<in> set ts \<Longrightarrow> normalize_tool ser sh opts i (w t) = Inr t"
  shows "normalize_tools ser sh opts i (map w ts) = Inr ts"
  using assms by (induction ts arbitrary: i) simp_all

lemma read_chat_tools:
  assumes "length ts \<le> MAX_TOOL_COUNT"
    and "\<forall>t \<in> set ts. tool_ok (\<lambda>v. length (stringify cx v)) t \<and> \<not> is_protocol_error (tl_schema t)"
  shows "codec_tools cx chat_tool_options (if ts \<noteq> [] then Some (JArr (map chat_tool ts)) else None) = Inr ts"
  using assms by (simp add: codec_tools_def normalize_tool_list_def is_nullish_def narrow_array_arr read_tools read_chat_tool)

lemma read_tokens:
  assumes "token_bound q"
  shows "optional_tokens cx (map_option token_json q) field = Inr q"
  using assms by (cases q) (auto simp: optional_tokens_def is_nullish_def token_json_def narrow_number_def nullable_number_def
      token_options_def token_bound_def)

lemma read_reasoning_fields:
  assumes c: "token_bound (rcf_max_tokens c)" "rcf_effort c = None" "rcf_enabled c \<noteq> Some False"
  shows "parse_reasoning_config cx (reasoning_fields c) pre (js_field (reasoning_fields c) ''enabled'') =
    Inr (if rcf_enabled c = Some True \<or> rcf_max_tokens c \<noteq> None then RmEnabled else RmDefault, some_config c)"
proof -
  have tokens: "optional_tokens cx (case rcf_max_tokens c of Some q \<Rightarrow> Some (token_json q) | None \<Rightarrow> None) field = Inr (rcf_max_tokens c)" for field
    using read_tokens [OF c(1)] by (simp add: map_option_case)
  have summary: "parse_summary (map_option (\<lambda>s. JStr (summary_name s)) (rcf_summary c)) field = Inr (rcf_summary c)" for field
    by (cases "rcf_summary c") (simp_all add: parse_summary_def)
  show ?thesis using c tokens summary
    by (cases c; cases "rcf_summary c"; cases "rcf_max_tokens c"; cases "rcf_exclude c"; cases "rcf_enabled c")
      (auto simp: parse_reasoning_config_def reasoning_fields_def parse_effort_def)
qed

lemma some_config_case: "(case some_config c of Some d \<Rightarrow> d | None \<Rightarrow> no_reasoning) = c"
  by (simp add: some_config_def)

lemma read_chat_reasoning:
  assumes ok: "chat_reasoning_ok r"
    and reasoning: "js_field top_obj ''reasoning'' = js_field (chat_reasoning (nr_reasoning r) (nr_reasoning_config r)) ''reasoning''"
    and effort: "js_field top_obj ''reasoning_effort'' = js_field (chat_reasoning (nr_reasoning r) (nr_reasoning_config r)) ''reasoning_effort''"
  shows "finalize_reasoning cx top_obj (chat_history_reasons (nr_messages r)) = Inr (nr_reasoning r, nr_reasoning_config r)"
proof (cases "nr_reasoning_config r")
  case None
  then show ?thesis using ok reasoning effort
    by (simp add: chat_reasoning_ok_def chat_reasoning_def finalize_reasoning_def parsed_reasoning_def parsed_config_def add_top_effort_def is_nullish_def no_reasoning_def parse_effort_def some_config_def)
next
  case (Some c)
  let ?seen = "chat_history_reasons (nr_messages r)" and ?c = "c\<lparr>rcf_effort := None\<rparr>"
  show ?thesis
  proof (cases "rcf_enabled c = Some False")
    case True
    then have "c = no_reasoning\<lparr>rcf_enabled := Some False\<rparr>" "nr_reasoning r = RmDisabled" "\<not> ?seen"
      using ok Some by (simp_all add: chat_reasoning_ok_def Let_def)
    then show ?thesis using reasoning effort Some
      by (simp add: chat_reasoning_def finalize_reasoning_def parsed_reasoning_def parsed_config_def add_top_effort_def is_nullish_def is_record_def no_reasoning_def parse_effort_def
          some_config_def reasoning_fields_def parse_reasoning_config_def)
  next
    case False
    have c: "token_bound (rcf_max_tokens c)" "c \<noteq> no_reasoning" using ok Some by (simp_all add: chat_reasoning_ok_def Let_def)
    have flag: "nr_reasoning r = (if ?seen \<or> rcf_effort c \<noteq> None \<or> rcf_enabled c = Some True \<or> rcf_max_tokens c \<noteq> None then RmEnabled else RmDefault)"
      and named: "?seen \<or> rcf_enabled c = Some True \<or> rcf_max_tokens c \<noteq> None \<Longrightarrow> rcf_effort c \<noteq> None"
      using ok Some False by (auto simp: chat_reasoning_ok_def Let_def split: if_splits)
    have eff: "parse_effort (js_field top_obj ''reasoning_effort'') field = Inr (rcf_effort c)" for field
      using effort Some flag named by (cases "rcf_effort c") (auto simp: chat_reasoning_def parse_effort_def)
    have restored: "?c\<lparr>rcf_effort := rcf_effort c\<rparr> = c" by simp
    show ?thesis
    proof (cases "rcf_summary c \<noteq> None \<or> rcf_max_tokens c \<noteq> None \<or> rcf_exclude c \<noteq> None \<or> rcf_enabled c \<noteq> None")
      case True
      have obj: "js_field top_obj ''reasoning'' = Some (JObj (reasoning_fields ?c))"
        using reasoning Some True by (cases "rcf_effort c") (auto simp: chat_reasoning_def reasoning_fields_def)
      have parsed: "parse_reasoning_config cx (reasoning_fields ?c) ''reasoning'' (js_field (reasoning_fields ?c) ''enabled'') =
          Inr (if rcf_enabled c = Some True \<or> rcf_max_tokens c \<noteq> None then RmEnabled else RmDefault, some_config ?c)"
        using c(1) False read_reasoning_fields [of ?c cx "''reasoning''"] by simp
      have same: "(case some_config ?c of None \<Rightarrow> no_reasoning | Some d \<Rightarrow> d) = ?c" by (rule some_config_case)
      have cfg: "(case Some (flag, some_config ?c) of Some (_, Some d) \<Rightarrow> d | _ \<Rightarrow> no_reasoning) = ?c" for flag :: reasoning_mode
        using same by (simp split: option.splits)
      show ?thesis unfolding finalize_reasoning_def parsed_reasoning_def parsed_config_def add_top_effort_def Let_def obj
        using cfg eff c(2) Some flag
        by (simp add: is_nullish_def is_record_def parsed some_config_def restored)
    next
      case False
      then have plain: "no_reasoning\<lparr>rcf_effort := rcf_effort c\<rparr> = c" by (cases c) (simp add: no_reasoning_def)
      then have "rcf_effort c \<noteq> None" using c(2) by (cases c) (auto simp: no_reasoning_def)
      moreover have "js_field top_obj ''reasoning'' = None" using reasoning Some False by (auto simp: chat_reasoning_def split: option.splits)
      moreover have "rcf_effort no_reasoning = None" by (simp add: no_reasoning_def)
      ultimately show ?thesis using eff plain c(2) Some flag
        by (simp add: finalize_reasoning_def parsed_reasoning_def parsed_config_def add_top_effort_def is_nullish_def is_record_def some_config_def)
    qed
  qed
qed

lemma chat_reasoning_only [simp]:
  "n \<noteq> ''reasoning'' \<Longrightarrow> n \<noteq> ''reasoning_effort'' \<Longrightarrow> js_field (chat_reasoning flag c) n = None"
  by (simp add: chat_reasoning_def split: option.splits)

lemma map_ok_total: "\<forall>x \<in> set xs. \<exists>v. w x = Inr v \<Longrightarrow> \<exists>vs. map_ok w xs = Inr vs"
  by (induction xs) force+

lemma chat_message_written:
  assumes "plain_chat_message cx m"
  shows "\<exists>v. to_chat_message m = Inr v"
proof (cases "msg_role m = RoUser \<and> has_image m")
  case True
  then have blocks: "\<forall>b \<in> set (msg_content m). plain_block b \<or> (\<exists>r. b = image_block r \<and> wire_image cx r)"
    using assms by (auto simp: plain_chat_message_def has_image_def plain_block_def)
  have "\<exists>v. to_chat_user_block b = Inr v" if b: "plain_block b \<or> (\<exists>r. b = image_block r \<and> wire_image cx r)" for b
    using b by (auto simp: plain_block_def to_chat_user_block_def to_openai_image_url_def wire_image_def)
  then obtain vs where "map_ok to_chat_user_block (msg_content m) = Inr vs" using map_ok_total blocks by meson
  then show ?thesis using True by (simp add: to_chat_message_def flat_map_ok_def)
qed (cases "msg_role m"; auto simp: to_chat_message_def Let_def)

text \<open>
  C10: A Chat request of the shape the codec writes survives its upstream payload: the normalizer, given
  the payload, returns the very request, with messages, tools, tokens and reasoning. The shape
  (\<open>chat_request\<close>) is within the bounds of the reader and has: system messages of one text; user messages
  of one text, or of texts and images of which one at least is an image, each a URL or a \<open>data:\<close> URL;
  assistant messages of at most one text, then their tool calls with name, id and arguments, and their
  reasoning text; tool messages of one text with its call id; a text or plain JSON response format; a
  reasoning setting that names its effort when it is enabled; tools whose schema has not the fields of a
  protocol error; no include list, cache key or user id. Left
  out, since the payload changes or loses them (lemmas below and at the writer), are developer messages,
  several texts in a message without an image, tool results in user messages and the later parts of tool messages, blocks
  of an unknown type, file images and JSON schemas.
\<close>

theorem chat_payload_roundtrip:
  assumes ok: "chat_request cx r"
  shows "\<exists>payload. build_chat_payload r = Inr payload \<and> normalize_chat_request cx (nr_limits r) False (Some payload) = Inr r"
proof -
  have r: "trim (nr_model r) \<noteq> []" "length (nr_model r) \<le> MAX_MODEL_LENGTH" "length (nr_messages r) \<le> MAX_MESSAGE_COUNT"
    "\<forall>m \<in> set (nr_messages r). plain_chat_message cx m" "length (nr_tools r) \<le> MAX_TOOL_COUNT"
    "\<forall>t \<in> set (nr_tools r). tool_ok (\<lambda>v. length (stringify cx v)) t \<and> \<not> is_protocol_error (tl_schema t)"
    "nr_response_format r \<noteq> RfJsonSchema" "chat_reasoning_ok r" "token_bound (nr_max_output_tokens r)"
    and rest: "nr_include r = None" "nr_image_operation r = None" "nr_source_surface r = SfChat" "nr_cache_key r = None"
    "nr_metadata_user_id r = None" "nr_images r = images_in (nr_messages r)" "length (images_in (nr_messages r)) \<le> MAX_IMAGE_COUNT"
    using ok by (auto simp: chat_request_def)
  obtain vs where vs: "map_ok to_chat_message (nr_messages r) = Inr vs"
    using map_ok_total chat_message_written r(4) by meson
  then obtain payload where written: "build_chat_payload r = Inr payload" by (simp add: build_chat_payload_def)
  obtain top_obj where top_obj: "payload = JObj top_obj" and fields:
    "js_field top_obj ''field'' = None" "js_field top_obj ''model'' = Some (JStr (nr_model r))" "js_field top_obj ''stream'' = Some (JBool (nr_stream r))"
    "js_field top_obj ''messages'' = Some (JArr vs)"
    "js_field top_obj ''tools'' = (if nr_tools r \<noteq> [] then Some (JArr (map chat_tool (nr_tools r))) else None)"
    "js_field top_obj ''max_tokens'' = map_option token_json (nr_max_output_tokens r)" "js_field top_obj ''max_completion_tokens'' = None"
    "js_field top_obj ''response_format'' = (if nr_response_format r \<noteq> RfText then Some (JObj [(''type'', JStr ''json_object'')]) else None)"
    "js_field top_obj ''reasoning'' = js_field (chat_reasoning (nr_reasoning r) (nr_reasoning_config r)) ''reasoning''"
    "js_field top_obj ''reasoning_effort'' = js_field (chat_reasoning (nr_reasoning r) (nr_reasoning_config r)) ''reasoning_effort''"
    using written vs by (auto simp: build_chat_payload_def split: option.splits)
  have model: "normalize_model top_obj = Inr (nr_model r)" using fields(2) r(1,2) by (simp add: normalize_model_def narrow_written)
  have stream: "normalize_stream (Some (JBool (nr_stream r))) = Inr (nr_stream r)" by (simp add: normalize_stream_def narrow_boolean_def)
  have format: "normalize_chat_format (js_field top_obj ''response_format'') = Inr (nr_response_format r)"
    using fields(8) r(7) by (cases "nr_response_format r") (simp_all add: normalize_chat_format_def is_nullish_def narrow_written)
  have tokens: "normalize_chat_max_tokens cx top_obj = Inr (nr_max_output_tokens r)"
    using fields(6,7) read_tokens [OF r(9)] by (simp add: normalize_chat_max_tokens_def is_nullish_def)
  have never_default: "\<not> (chat_history_reasons (nr_messages r) \<and> nr_reasoning r = RmDefault)"
    using r(8) by (auto simp: chat_reasoning_ok_def Let_def split: option.splits if_splits)
  have "normalize_chat_request cx (nr_limits r) False (Some payload) = Inr r" unfolding top_obj
    using fields(1,3,4,5) model stream format tokens never_default rest read_chat_messages [OF r(4) vs rest(7) r(3)]
      read_chat_reasoning [OF r(8) fields(9,10)] read_chat_tools [OF r(5,6)]
    by (cases r) (simp add: normalize_chat_request_def aborted_error_def normalize_chat_body_def narrow_written)
  then show ?thesis using written by blast
qed

definition plain_env :: codec_env where
  "plain_env = \<lparr>cx_parse_url = (\<lambda>s. None), cx_show_num = (\<lambda>q. []), cx_show_json = (\<lambda>v. [])\<rparr>"

definition plain_limits :: request_limits where
  "plain_limits = \<lparr>rl_max_body_bytes = 1, rl_connect_timeout_ms = 1, rl_first_byte_timeout_ms = 1, rl_idle_timeout_ms = 1, rl_total_timeout_ms = 1\<rparr>"

definition sample_chat_request :: normalized_request where
  "sample_chat_request = \<lparr>nr_model = ''m'',
     nr_messages =
       [\<lparr>msg_role = RoUser, msg_content = [text_block ''hi''], msg_reasoning = None\<rparr>,
        \<lparr>msg_role = RoAssistant, msg_content = [call_block ''f'' ''c'' ''{}''], msg_reasoning = Some ''why''\<rparr>,
        \<lparr>msg_role = RoTool, msg_content = [tool_result_block (Some ''ok'') ''c''], msg_reasoning = None\<rparr>],
     nr_tools = [\<lparr>tl_name = ''f'', tl_description = None, tl_schema = [], tl_schema_length = Some 2\<rparr>],
     nr_stream = True, nr_response_format = RfJsonObject, nr_reasoning = RmEnabled,
     nr_reasoning_config = Some (no_reasoning\<lparr>rcf_effort := Some ReHigh\<rparr>), nr_include = None,
     nr_max_output_tokens = Some 64, nr_images = [], nr_image_operation = None, nr_source_surface = SfChat,
     nr_limits = plain_limits, nr_cache_key = None, nr_metadata_user_id = None\<rparr>"

lemma sample_chat_canonical: "chat_request plain_env sample_chat_request"
proof -
  have user: "plain_chat_message plain_env \<lparr>msg_role = RoUser, msg_content = [text_block ''hi''], msg_reasoning = None\<rparr>"
    by (auto simp: plain_chat_message_def plain_block_def MAX_TEXT_BLOCK_LENGTH_def)
  have call: "block_ok plain_env (call_block ''f'' ''c'' ''{}'')"
    by (simp add: trim_def is_space_def char_code_def MAX_TOOL_NAME_LENGTH_def MAX_TOOL_ARGUMENT_LENGTH_def)
  have "\<exists>t calls. length t \<le> MAX_TEXT_BLOCK_LENGTH \<and> length calls \<le> MAX_TOOL_CALLS_PER_MESSAGE \<and>
      [call_block ''f'' ''c'' ''{}''] = (if t \<noteq> [] \<or> calls = [] then [text_block t] else []) @ calls \<and>
      (\<forall>b \<in> set calls. block_ok plain_env b \<and> (\<exists>n c a. b = call_block n c a))"
    by (rule exI [of _ "[]"], rule exI [of _ "[call_block ''f'' ''c'' ''{}'']"])
      (use call in \<open>auto simp: MAX_TOOL_CALLS_PER_MESSAGE_def simp del: block_ok_simps\<close>)
  then have assistant: "plain_chat_message plain_env \<lparr>msg_role = RoAssistant, msg_content = [call_block ''f'' ''c'' ''{}''], msg_reasoning = Some ''why''\<rparr>"
    by (simp add: plain_chat_message_def)
  have tool: "plain_chat_message plain_env \<lparr>msg_role = RoTool, msg_content = [tool_result_block (Some ''ok'') ''c''], msg_reasoning = None\<rparr>"
    by (auto simp: plain_chat_message_def MAX_TEXT_BLOCK_LENGTH_def intro!: exI)
  have schema: "tool_ok (\<lambda>v. length (stringify plain_env v)) \<lparr>tl_name = ''f'', tl_description = None, tl_schema = [], tl_schema_length = Some 2\<rparr>"
    by (simp add: tool_ok_def stringify_def trim_def is_space_def char_code_def MAX_TOOL_NAME_LENGTH_def MAX_TOOL_SCHEMA_LENGTH_def)
  show ?thesis using user assistant tool schema
    by (simp add: chat_request_def sample_chat_request_def trim_def is_space_def char_code_def MAX_MODEL_LENGTH_def MAX_MESSAGE_COUNT_def
        MAX_TOOL_COUNT_def MAX_IMAGE_COUNT_def chat_reasoning_ok_def chat_history_reasons_def no_reasoning_def token_bound_def
        MAX_OUTPUT_TOKENS_def is_integer_rat_def)
qed

theorem chat_payload_roundtrip_witness:
  "\<exists>payload. build_chat_payload sample_chat_request = Inr payload \<and> normalize_chat_request plain_env plain_limits False (Some payload) = Inr sample_chat_request"
  using chat_payload_roundtrip [OF sample_chat_canonical] by (simp add: sample_chat_request_def)

subsection \<open>What a payload loses\<close>

text \<open>The results a user message carries reach a Chat upstream only when an image accompanies them.\<close>

lemma user_tool_results_vanish:
  "to_chat_message \<lparr>msg_role = RoUser, msg_content = [tool_result_block (Some t) c], msg_reasoning = None\<rparr> =
     Inr (JObj [(''role'', JStr ''user''), (''content'', JStr [])])"
  by (simp add: to_chat_message_def has_image_def message_text_def)

text \<open>Of a tool message with several parts the first is sent.\<close>

lemma later_tool_parts_vanish:
  "to_chat_message \<lparr>msg_role = RoTool, msg_content = tool_result_block (Some t) c # bs, msg_reasoning = None\<rparr> =
     to_chat_message \<lparr>msg_role = RoTool, msg_content = [tool_result_block (Some t) c], msg_reasoning = None\<rparr>"
  by (simp add: to_chat_message_def first_block_def)

text \<open>A tool message without content loses its call.\<close>

lemma empty_tool_message_loses_call:
  assumes "length c \<le> 128"
  shows "normalize_chat_message cx 0 (JObj [(''role'', JStr ''tool''), (''content'', JNull), (''tool_call_id'', JStr c)]) s =
      Inr ([\<lparr>msg_role = RoTool, msg_content = [], msg_reasoning = None\<rparr>], s)"
    and "to_chat_message \<lparr>msg_role = RoTool, msg_content = [], msg_reasoning = None\<rparr> =
      Inr (JObj [(''role'', JStr ''tool''), (''tool_call_id'', JStr []), (''content'', JStr [])])"
  using assms by (simp_all add: normalize_chat_message_def narrow_written normalize_chat_content_def to_chat_message_def
      first_block_def or_empty_def Let_def)

text \<open>A data URL whose scheme is in capitals is accepted and then wrapped in a second data URL.\<close>

lemma upper_case_data_url_wrapped:
  "classify_image_reference parse (Some (JStr ''DATA:image/png;base64,AA'')) f =
     Inr \<lparr>im_kind = IkData, im_value = ''DATA:image/png;base64,AA'', im_media_type = Some ''image/png''\<rparr>"
  "to_openai_image_url (Some \<lparr>im_kind = IkData, im_value = ''DATA:image/png;base64,AA'', im_media_type = Some ''image/png''\<rparr>) =
     Inr ''data:image/png;base64,DATA:image/png;base64,AA''"
proof -
  have "trim ''DATA:image/png;base64,AA'' = ''DATA:image/png;base64,AA''" by code_simp
  moreover have "to_lower (take 5 ''DATA:image/png;base64,AA'') = ''data:''" by code_simp
  moreover have "parse_media_type ''image/png;base64'' f = Inr (Some ''image/png'')"
  proof -
    have "to_lower ''image/png'' = ''image/png''" by code_simp
    then show ?thesis by (simp add: parse_media_type_def MAX_MEDIA_TYPE_LENGTH_def Let_def)
  qed
  ultimately show "classify_image_reference parse (Some (JStr ''DATA:image/png;base64,AA'')) f =
     Inr \<lparr>im_kind = IkData, im_value = ''DATA:image/png;base64,AA'', im_media_type = Some ''image/png''\<rparr>"
    by (simp add: classify_image_reference_def classify_data_url_def MAX_DATA_URL_LENGTH_def Let_def)
qed (simp add: to_openai_image_url_def)

text \<open>A part of an unknown type is kept whole, and its text is no longer bounded when it becomes a tool result.\<close>

lemma unknown_text_unbounded:
  assumes "length c \<le> 128"
  shows "normalize_chat_message cx 0 (JObj [(''role'', JStr ''tool''), (''tool_call_id'', JStr c),
      (''content'', JArr [JObj [(''type'', JStr ''x''), (''text'', JStr t)]])]) s =
    Inr ([\<lparr>msg_role = RoTool, msg_content = [tool_result_block (Some t) c], msg_reasoning = None\<rparr>], s)"
  using assms by (simp add: normalize_chat_message_def narrow_written normalize_chat_content_def normalize_chat_block_def
      MAX_BLOCKS_PER_MESSAGE_def Let_def narrow_text_def unknown_block_def tool_result_block_def block_of_def)

text \<open>A message with the fields of a protocol error is taken for the error of the request.\<close>

lemma message_forges_error:
  assumes "is_protocol_error fs"
  shows "normalize_chat_messages cx (Some (JArr [JObj fs])) s = Inl (Forged fs)"
  using assms by (simp add: normalize_chat_messages_def narrow_array_def MAX_MESSAGE_COUNT_def normalize_chat_message_def
      narrow_object_def Let_def)

end
