(* ===== verification/MessagesCodec.thy ===== *)
theory MessagesCodec imports ChatCodec begin

text \<open>
  The request codec of Anthropic Messages (\<open>src/domain/protocols/anthropic-messages.ts\<close>): the strict
  normalization of a client body and the payload written for an upstream, with the cache marks.
\<close>

subsection \<open>Normalization\<close>

definition normalize_messages_max_tokens :: "codec_env \<Rightarrow> (string \<times> json) list \<Rightarrow> narrow_failure + rat" where
  "normalize_messages_max_tokens cx top_obj =
    (let raw = js_field top_obj ''max_tokens'' in
     if is_nullish raw then Inl (protocol_fail ''max_tokens'' ''max_tokens: is required for Anthropic Messages'')
     else narrow_number (cx_show_num cx) raw ''max_tokens'' (token_options 1))"

definition normalize_thinking :: "json option \<Rightarrow> narrow_failure + reasoning_mode" where
  "normalize_thinking raw =
    (if is_nullish raw then Inr RmDefault
     else and_then (narrow_object raw ''thinking'') (\<lambda>obj.
       let ty = js_field obj ''type'' in
       if ty = Some (JStr ''enabled'') then Inr RmEnabled
       else if ty = Some (JStr ''disabled'') then Inr RmDisabled
       else case ty of
           Some (JStr s) \<Rightarrow> Inl (protocol_fail ''thinking.type'' (''thinking.type: unsupported mode '' @ in_quotes s))
         | _ \<Rightarrow> Inl (protocol_fail ''thinking.type'' (''thinking.type: expected '' @ in_quotes ''enabled'' @ '' or '' @ in_quotes ''disabled''))))"

definition normalize_system_block :: "nat \<Rightarrow> json \<Rightarrow> unit \<Rightarrow> narrow_failure + content_block list \<times> unit" where
  "normalize_system_block i item s =
    (let f = item_at ''system'' i in
     and_then (narrow_object (Some item) f) (\<lambda>obj.
       case js_field obj ''type'' of
         Some (JStr ty) \<Rightarrow>
           if ty = ''text''
           then and_then (narrow_string (js_field obj ''text'') (f @ ''.text'') MAX_TEXT_BLOCK_LENGTH) (\<lambda>t. Inr ([text_block t], s))
           else Inr ([unknown_block (narrow_text (js_field obj ''text''))], s)
       | _ \<Rightarrow> Inl (protocol_fail (f @ ''.type'') ''system block type must be a string'')))"

definition normalize_system :: "json option \<Rightarrow> narrow_failure + message list" where
  "normalize_system raw =
    (case raw of
       None \<Rightarrow> Inr []
     | Some JNull \<Rightarrow> Inr []
     | Some (JStr t) \<Rightarrow> and_then (bounded_text ''system'' t) (\<lambda>t.
         Inr [\<lparr>msg_role = RoSystem, msg_content = [text_block t], msg_reasoning = None\<rparr>])
     | _ \<Rightarrow> and_then (narrow_array raw ''system'' MAX_BLOCKS_PER_MESSAGE) (\<lambda>items.
         and_then (each_item normalize_system_block 0 items ()) (\<lambda>(bs, _).
           Inr [\<lparr>msg_role = RoSystem, msg_content = bs, msg_reasoning = None\<rparr>])))"

definition normalize_base64_image ::
  "(string \<times> json) list \<Rightarrow> string \<Rightarrow> wire_state \<Rightarrow> narrow_failure + image_reference \<times> wire_state" where
  "normalize_base64_image source field s =
    and_then (narrow_string (js_field source ''media_type'') (field @ ''.media_type'') MAX_MEDIA_TYPE_LENGTH) (\<lambda>media_type.
      if media_type = [] then Inl (protocol_fail (field @ ''.media_type'') ''media_type must not be empty'')
      else and_then (narrow_string (js_field source ''data'') (field @ ''.data'') MAX_DATA_URL_LENGTH) (\<lambda>image_data.
        if image_data = [] then Inl (protocol_fail (field @ ''.data'') ''base64 data must not be empty'')
        else push_image \<lparr>im_kind = IkData, im_value = image_data, im_media_type = Some media_type\<rparr> field s))"

definition normalize_image ::
  "codec_env \<Rightarrow> json option \<Rightarrow> string \<Rightarrow> wire_state \<Rightarrow> narrow_failure + image_reference \<times> wire_state" where
  "normalize_image cx raw field s =
    and_then (narrow_object raw field) (\<lambda>source.
      case js_field source ''type'' of
        Some (JStr ty) \<Rightarrow>
          if ty = ''base64''
          then normalize_base64_image source field s
          else if ty = ''url'' then push_classified cx (js_field source ''url'') (field @ ''.url'') field s
          else Inl (protocol_fail (field @ ''.type'') (''unsupported image source type '' @ in_quotes ty))
      | _ \<Rightarrow> Inl (protocol_fail (field @ ''.type'') ''image source type must be a string''))"

definition normalize_result_item ::
  "codec_env \<Rightarrow> string \<Rightarrow> string \<Rightarrow> nat \<Rightarrow> json \<Rightarrow> wire_state \<Rightarrow> narrow_failure + content_block list \<times> wire_state" where
  "normalize_result_item cx field call_id i item s =
    (let f = item_at field i in
     and_then (narrow_object (Some item) f) (\<lambda>obj.
       case js_field obj ''type'' of
         Some (JStr ty) \<Rightarrow>
           if ty = ''text''
           then and_then (narrow_string (js_field obj ''text'') (f @ ''.text'') MAX_TEXT_BLOCK_LENGTH) (\<lambda>t.
             Inr ([tool_result_block (Some t) call_id], s))
           else if ty = ''image''
           then and_then (normalize_image cx (js_field obj ''source'') (f @ ''.source'') s) (\<lambda>(r, t).
             Inr ([(tool_result_block None call_id)\<lparr>cb_image := Some r\<rparr>], t))
           else Inr ([tool_result_block (narrow_text (js_field obj ''text'')) call_id], s)
       | _ \<Rightarrow> Inl (protocol_fail (f @ ''.type'') ''tool result block type must be a string'')))"

definition normalize_tool_result ::
  "codec_env \<Rightarrow> json option \<Rightarrow> string \<Rightarrow> string \<Rightarrow> wire_state \<Rightarrow> narrow_failure + content_block list \<times> wire_state" where
  "normalize_tool_result cx raw field call_id s =
    (case raw of
       None \<Rightarrow> Inr ([tool_result_block None call_id], s)
     | Some JNull \<Rightarrow> Inr ([tool_result_block None call_id], s)
     | Some (JStr t) \<Rightarrow> and_then (bounded_text field t) (\<lambda>t. Inr ([tool_result_block (Some t) call_id], s))
     | _ \<Rightarrow> and_then (narrow_array raw field MAX_BLOCKS_PER_MESSAGE) (\<lambda>items.
         each_item (normalize_result_item cx field call_id) 0 items s))"

definition normalize_messages_block ::
  "codec_env \<Rightarrow> json \<Rightarrow> string \<Rightarrow> wire_state \<Rightarrow> narrow_failure + content_block list \<times> wire_state" where
  "normalize_messages_block cx item field s =
    and_then (narrow_object (Some item) field) (\<lambda>obj.
      case js_field obj ''type'' of
        Some (JStr ty) \<Rightarrow>
          if ty = ''text''
          then and_then (narrow_string (js_field obj ''text'') (field @ ''.text'') MAX_TEXT_BLOCK_LENGTH) (\<lambda>t. Inr ([text_block t], s))
          else if ty = ''image''
          then and_then (normalize_image cx (js_field obj ''source'') (field @ ''.source'') s) (\<lambda>(r, t). Inr ([image_block r], t))
          else if ty = ''tool_use''
          then and_then (narrow_string (js_field obj ''id'') (field @ ''.id'') 128) (\<lambda>call_id.
            if call_id = [] then Inl (protocol_fail (field @ ''.id'') ''tool use id must not be empty'')
            else and_then (narrow_string (js_field obj ''name'') (field @ ''.name'') MAX_TOOL_NAME_LENGTH) (\<lambda>name.
              if trim name = [] then Inl (protocol_fail (field @ ''.name'') ''tool use name must not be empty'')
              else and_then (narrow_object (if is_nullish (js_field obj ''input'') then Some (JObj []) else js_field obj ''input'') (field @ ''.input''))
                (\<lambda>inp. case bound_json_length (\<lambda>v. length (stringify cx v)) (JObj inp) (field @ ''.input'') MAX_TOOL_ARGUMENT_LENGTH of
                    Some e \<Rightarrow> Inl e
                  | None \<Rightarrow> Inr ([call_block name call_id (stringify cx (JObj inp))], s))))
          else Inr ([unknown_block (narrow_text (js_field obj ''text''))], s)
      | _ \<Rightarrow> Inl (protocol_fail (field @ ''.type'') ''content block type must be a string''))"

definition typed_record :: "json \<Rightarrow> string \<Rightarrow> (string \<times> json) list option" where
  "typed_record item ty = (case item of
      JObj obj \<Rightarrow> if js_field obj ''type'' = Some (JStr ty) then Some obj else None
    | _ \<Rightarrow> None)"

definition normalize_messages_item ::
  "codec_env \<Rightarrow> string \<Rightarrow> nat \<Rightarrow> json \<Rightarrow> wire_state \<Rightarrow> narrow_failure + content_block list \<times> wire_state" where
  "normalize_messages_item cx field i item s =
    (let f = item_at field i in
     if typed_record item ''thinking'' \<noteq> None then Inr ([], fst s, True)
     else case typed_record item ''tool_result'' of
       Some obj \<Rightarrow>
         and_then (narrow_string (js_field obj ''tool_use_id'') (f @ ''.tool_use_id'') 128) (\<lambda>call_id.
           if call_id = [] then Inl (protocol_fail (f @ ''.tool_use_id'') ''tool_use_id must not be empty'')
           else and_then (normalize_tool_result cx (js_field obj ''content'') f call_id s) (\<lambda>(bs, t).
             Inr (if js_field obj ''is_error'' = Some (JBool True) then map (\<lambda>b. b\<lparr>cb_tool_error := Some True\<rparr>) bs else bs, t)))
     | None \<Rightarrow> normalize_messages_block cx item f s)"

definition normalize_messages_content ::
  "codec_env \<Rightarrow> json option \<Rightarrow> string \<Rightarrow> wire_state \<Rightarrow> narrow_failure + content_block list \<times> wire_state" where
  "normalize_messages_content cx raw field s =
    (case raw of
       Some (JStr t) \<Rightarrow> and_then (bounded_text field t) (\<lambda>t. Inr ([text_block t], s))
     | _ \<Rightarrow> and_then (narrow_array raw field MAX_BLOCKS_PER_MESSAGE) (\<lambda>items. each_item (normalize_messages_item cx field) 0 items s))"

definition normalize_messages_message ::
  "codec_env \<Rightarrow> nat \<Rightarrow> json \<Rightarrow> wire_state \<Rightarrow> narrow_failure + message list \<times> wire_state" where
  "normalize_messages_message cx i item s =
    (let f = item_at ''messages'' i in
     and_then (narrow_object (Some item) f) (\<lambda>obj.
     and_then (narrow_string (js_field obj ''role'') (f @ ''.role'') 32) (\<lambda>name.
       case find (\<lambda>r. role_name r = name) [RoUser, RoAssistant] of
         None \<Rightarrow> Inl (protocol_fail (f @ ''.role'') (''unsupported role '' @ in_quotes name @ '' (Anthropic messages use only '' @
           in_quotes ''user'' @ '' and '' @ in_quotes ''assistant'' @ '')''))
       | Some role \<Rightarrow> and_then (normalize_messages_content cx (js_field obj ''content'') (f @ ''.content'') s) (\<lambda>(content, t).
           Inr ([\<lparr>msg_role = role, msg_content = content, msg_reasoning = None\<rparr>], t)))))"

definition normalize_messages_list ::
  "codec_env \<Rightarrow> json option \<Rightarrow> wire_state \<Rightarrow> narrow_failure + message list \<times> wire_state" where
  "normalize_messages_list cx raw s =
    and_then (narrow_array raw ''messages'' MAX_MESSAGE_COUNT) (\<lambda>items. each_item (normalize_messages_message cx) 0 items s)"

definition messages_tool_options :: tool_list_options where
  "messages_tool_options = \<lparr>tlo_unwrap_function = False, tlo_schema_field = ''input_schema'', tlo_schema_required = True\<rparr>"

definition metadata_user_id :: "json option \<Rightarrow> string option" where
  "metadata_user_id metadata = (case metadata of
      Some (JObj fs) \<Rightarrow> (case js_field fs ''user_id'' of
          Some (JStr u) \<Rightarrow> if length u \<le> 4096 then Some u else None
        | _ \<Rightarrow> None)
    | _ \<Rightarrow> None)"

definition normalize_messages_body :: "codec_env \<Rightarrow> request_limits \<Rightarrow> json option \<Rightarrow> narrow_failure + normalized_request" where
  "normalize_messages_body cx limits body =
    and_then (narrow_object body ''body'') (\<lambda>top_obj.
    and_then (normalize_model top_obj) (\<lambda>model.
    and_then (normalize_stream (js_field top_obj ''stream'')) (\<lambda>stream.
    and_then (normalize_messages_max_tokens cx top_obj) (\<lambda>max_tokens.
    and_then (normalize_thinking (js_field top_obj ''thinking'')) (\<lambda>thinking.
    and_then (normalize_messages_list cx (js_field top_obj ''messages'') ([], False)) (\<lambda>(messages, images, seen).
    and_then (normalize_system (js_field top_obj ''system'')) (\<lambda>system.
    and_then (codec_tools cx messages_tool_options (js_field top_obj ''tools'')) (\<lambda>tools.
      Inr \<lparr>nr_model = model, nr_messages = system @ messages, nr_tools = tools, nr_stream = stream, nr_response_format = RfText,
        nr_reasoning = (if seen then RmEnabled else thinking), nr_reasoning_config = None,
        nr_include = None, nr_max_output_tokens = Some max_tokens, nr_images = images, nr_image_operation = None,
        nr_source_surface = SfMessages, nr_limits = limits, nr_cache_key = None,
        nr_metadata_user_id = metadata_user_id (js_field top_obj ''metadata'')\<rparr>))))))))"

definition normalize_messages_request ::
  "codec_env \<Rightarrow> request_limits \<Rightarrow> bool \<Rightarrow> json option \<Rightarrow> narrow_failure + normalized_request" where
  "normalize_messages_request cx limits aborted body =
    (case aborted_error aborted of Some e \<Rightarrow> Inl e | None \<Rightarrow> normalize_messages_body cx limits body)"

subsection \<open>Accepted requests\<close>

lemma returns_messages_max_tokens [returns_rules]: "returns (\<lambda>q. token_bound (Some q)) (normalize_messages_max_tokens cx top_obj)"
  unfolding normalize_messages_max_tokens_def Let_def
  by (auto simp: token_options_def token_bound_def intro!: returns_mono [OF returns_narrow_number])

lemma returns_thinking [returns_rules]: "returns (\<lambda>f. True) (normalize_thinking raw)"
  unfolding normalize_thinking_def
  by (auto simp: Let_def intro!: returns_and_then [OF returns_narrow_object] split: option.splits json.splits)

lemma returns_system_block: "returns (\<lambda>(bs, t). True \<and> (\<forall>b \<in> set bs. block_ok cx b \<and> cb_image b = None) \<and> length bs \<le> 1)
    (normalize_system_block i item s)"
  unfolding normalize_system_block_def Let_def
  by (auto intro!: returns_and_then [OF returns_narrow_object] returns_and_then [OF returns_narrow_string]
      split: option.splits json.splits)

lemma returns_system: "returns (\<lambda>ms. images_in ms = [] \<and> length ms \<le> 1 \<and> (\<forall>m \<in> set ms. message_ok cx m)) (normalize_system raw)"
proof -
  have loop: "returns (\<lambda>(bs, t). True \<and> (\<forall>b \<in> set bs. block_ok cx b \<and> cb_image b = None) \<and> length bs \<le> 1 * length items)
      (each_item normalize_system_block 0 items ())" for items
    by (rule returns_each_item [where I = "\<lambda>s. True" and R = "\<lambda>s bs t. \<forall>b \<in> set bs. block_ok cx b \<and> cb_image b = None"])
      (use returns_system_block in auto)
  have one: "Suc 0 \<le> MAX_BLOCKS_PER_MESSAGE" by (simp add: MAX_BLOCKS_PER_MESSAGE_def)
  show ?thesis unfolding normalize_system_def
    by (auto simp: message_ok_def images_of_none one intro!: returns_and_then [OF returns_bounded_text]
        returns_and_then [OF returns_narrow_array] returns_and_then [OF loop] chat_content_size split: option.splits json.splits)
qed

lemma returns_image: "returns (\<lambda>(r, t). state_ok t \<and> fst t = fst s @ [r] \<and> safe_image cx r) (normalize_image cx raw field s)"
proof -
  let ?P = "\<lambda>(r, t). state_ok t \<and> fst t = fst s @ [r] \<and> safe_image cx r"
  have pushed: "returns ?P (push_image \<lparr>im_kind = IkData, im_value = v, im_media_type = Some m\<rparr> field s)"
    if "length v \<le> MAX_DATA_URL_LENGTH" "length m \<le> MAX_MEDIA_TYPE_LENGTH" for v m
    using that by (auto intro!: returns_mono [OF returns_push_image] simp: safe_image_def)
  have inline: "returns ?P (normalize_base64_image source field s)" for source
    unfolding normalize_base64_image_def
    by (auto intro!: returns_and_then [OF returns_narrow_string] pushed)
  show ?thesis unfolding normalize_image_def
    by (rule returns_and_then [OF returns_narrow_object]) (simp add: inline returns_push_classified split: option.split json.split)
qed

lemma block_ok_result_image: "block_ok cx ((tool_result_block u c)\<lparr>cb_image := Some r\<rparr>) \<longleftrightarrow> safe_image cx r \<and> length c \<le> 128"
  by (auto simp: block_ok_def tool_result_block_def block_of_def)

lemma returns_result_item: "state_ok s \<Longrightarrow> length call_id \<le> 128 \<Longrightarrow>
    returns (\<lambda>(bs, t). state_ok t \<and> adds_blocks cx s bs t \<and> length bs \<le> 1) (normalize_result_item cx field call_id i item s)"
  unfolding normalize_result_item_def Let_def
  by (auto simp: block_ok_result_image intro!: returns_and_then [OF returns_narrow_object] returns_and_then [OF returns_narrow_string]
      returns_and_then [OF returns_image] split: option.splits json.splits)

lemma returns_tool_result: "state_ok s \<Longrightarrow> length call_id \<le> 128 \<Longrightarrow>
    returns (\<lambda>(bs, t). state_ok t \<and> adds_blocks cx s bs t \<and> length bs \<le> MAX_BLOCKS_PER_MESSAGE)
      (normalize_tool_result cx raw field call_id s)"
proof -
  assume ok: "state_ok s" and c: "length call_id \<le> 128"
  have loop: "returns (\<lambda>(bs, t). state_ok t \<and> adds_blocks cx s bs t \<and> length bs \<le> MAX_BLOCKS_PER_MESSAGE)
      (each_item (normalize_result_item cx field call_id) 0 items s)" if "length items \<le> MAX_BLOCKS_PER_MESSAGE" for items
    using that by (intro returns_mono [OF returns_blocks_loop [OF returns_result_item [OF _ c] ok]]) auto
  have one: "(1::nat) \<le> MAX_BLOCKS_PER_MESSAGE" by (simp add: MAX_BLOCKS_PER_MESSAGE_def)
  show ?thesis using ok one c unfolding normalize_tool_result_def
    by (auto intro!: returns_and_then [OF returns_bounded_text] returns_and_then [OF returns_narrow_array] loop
        split: option.splits json.splits)
qed

lemma returns_messages_block: "state_ok s \<Longrightarrow>
    returns (\<lambda>(bs, t). state_ok t \<and> adds_blocks cx s bs t \<and> length bs \<le> 1) (normalize_messages_block cx item field s)"
  unfolding normalize_messages_block_def bound_json_length_def
  by (auto intro!: returns_and_then [OF returns_narrow_object] returns_and_then [OF returns_narrow_string]
      returns_and_then [OF returns_image] split: option.splits json.splits)

lemma images_of_flagged [simp]: "images_of (map (\<lambda>b. b\<lparr>cb_tool_error := e\<rparr>) bs) = images_of bs"
  by (simp add: images_of_def comp_def)

lemma block_ok_flagged [simp]: "block_ok cx (b\<lparr>cb_tool_error := e\<rparr>) = block_ok cx b"
  by (cases "cb_type b") (simp_all add: block_ok_def)

lemma adds_blocks_flagged: "adds_blocks cx s bs t \<Longrightarrow> adds_blocks cx s (map (\<lambda>b. b\<lparr>cb_tool_error := e\<rparr>) bs) t"
  by (auto simp: adds_blocks_def)

lemma adds_blocks_none: "fst t = fst s \<Longrightarrow> adds_blocks cx s [] t"
  by (simp add: adds_blocks_def)

lemma returns_messages_item: "state_ok s \<Longrightarrow>
    returns (\<lambda>(bs, t). state_ok t \<and> adds_blocks cx s bs t \<and> length bs \<le> MAX_BLOCKS_PER_MESSAGE) (normalize_messages_item cx field i item s)"
proof -
  assume ok: "state_ok s"
  have one: "n \<le> 1 \<Longrightarrow> n \<le> MAX_BLOCKS_PER_MESSAGE" for n :: nat by (simp add: MAX_BLOCKS_PER_MESSAGE_def)
  have block: "returns (\<lambda>(bs, t). state_ok t \<and> adds_blocks cx s bs t \<and> length bs \<le> MAX_BLOCKS_PER_MESSAGE) (normalize_messages_block cx item f s)" for f
    by (rule returns_mono [OF returns_messages_block [OF ok]]) (auto intro: one)
  have thought: "state_ok (fst s, True)" using ok by (simp add: state_ok_def)
  show ?thesis unfolding normalize_messages_item_def Let_def
    by (auto intro!: returns_and_then [OF returns_narrow_string] returns_and_then [OF returns_tool_result [OF ok]] block thought
        adds_blocks_flagged adds_blocks_none split: option.splits)
qed

lemma returns_messages_content: "state_ok s \<Longrightarrow>
    returns (\<lambda>(bs, t). state_ok t \<and> adds_blocks cx s bs t \<and> length bs \<le> MAX_BLOCKS_PER_MESSAGE * MAX_BLOCKS_PER_MESSAGE)
      (normalize_messages_content cx raw field s)"
proof -
  assume ok: "state_ok s"
  have loop: "returns (\<lambda>(bs, t). state_ok t \<and> adds_blocks cx s bs t \<and> length bs \<le> MAX_BLOCKS_PER_MESSAGE * MAX_BLOCKS_PER_MESSAGE)
      (each_item (normalize_messages_item cx field) 0 items s)" if "length items \<le> MAX_BLOCKS_PER_MESSAGE" for items
    using that by (intro returns_mono [OF returns_blocks_loop [OF returns_messages_item ok]]) (auto intro: order_trans mult_le_mono2)
  have one: "Suc 0 \<le> MAX_BLOCKS_PER_MESSAGE" by (simp add: MAX_BLOCKS_PER_MESSAGE_def)
  show ?thesis using ok one unfolding normalize_messages_content_def
    by (auto intro!: returns_and_then [OF returns_bounded_text] returns_and_then [OF returns_narrow_array] loop
        split: option.splits json.splits)
qed

lemma returns_messages_message: "state_ok s \<Longrightarrow>
    returns (\<lambda>(ms, t). state_ok t \<and> adds_messages cx s ms t \<and> length ms \<le> 1) (normalize_messages_message cx i item s)"
  unfolding normalize_messages_message_def Let_def
  by (auto simp: adds_blocks_def adds_messages_def message_ok_def
      intro!: returns_and_then [OF returns_narrow_object] returns_and_then [OF returns_narrow_string]
        returns_and_then [OF returns_messages_content]
      split: option.splits)

lemma returns_messages_list: "state_ok s \<Longrightarrow>
    returns (\<lambda>(ms, t). state_ok t \<and> adds_messages cx s ms t \<and> length ms \<le> MAX_MESSAGE_COUNT) (normalize_messages_list cx raw s)"
proof -
  assume ok: "state_ok s"
  have loop: "returns (\<lambda>(ms, t). state_ok t \<and> adds_messages cx s ms t \<and> length ms \<le> MAX_MESSAGE_COUNT)
      (each_item (normalize_messages_message cx) 0 items s)" if "length items \<le> MAX_MESSAGE_COUNT" for items
    using that by (intro returns_mono [OF returns_messages_loop [OF returns_messages_message ok]]) auto
  show ?thesis unfolding normalize_messages_list_def
    by (auto intro!: returns_and_then [OF returns_narrow_array] loop)
qed

lemma returns_messages_body:
  "returns (\<lambda>r. request_ok cx r \<and> nr_source_surface r = SfMessages \<and> nr_limits r = limits) (normalize_messages_body cx limits body)"
  unfolding normalize_messages_body_def
  by (auto simp: request_ok_def adds_messages_def state_ok_def
      intro!: returns_and_then [OF returns_narrow_object] returns_and_then [OF returns_normalize_model]
        returns_and_then [OF returns_normalize_stream] returns_and_then [OF returns_messages_max_tokens]
        returns_and_then [OF returns_thinking] returns_and_then [OF returns_messages_list [OF state_ok_start]]
        returns_and_then [OF returns_system [where cx = cx]] returns_and_then [OF returns_codec_tools])

subsection \<open>The upstream payload\<close>

definition DEFAULT_MAX_TOKENS :: rat where "DEFAULT_MAX_TOKENS = 4096"
definition MAX_THINKING_BUDGET :: rat where "MAX_THINKING_BUDGET = 32000"

definition to_anthropic_image_source :: "image_reference option \<Rightarrow> codec_error + json" where
  "to_anthropic_image_source img =
    (case img of
       None \<Rightarrow> Inr (JObj [(''type'', JStr ''url''), (''url'', JStr [])])
     | Some r \<Rightarrow> (case im_kind r of
           IkUrl \<Rightarrow> Inr (JObj [(''type'', JStr ''url''), (''url'', JStr (im_value r))])
         | IkData \<Rightarrow>
             (let v = im_value r; media = (case im_media_type r of Some m \<Rightarrow> m | None \<Rightarrow> ''image/png'') in
              if take 5 v = ''data:'' \<and> CHR '','' \<in> set v
              then let meta = drop 5 (takeWhile (\<lambda>c. c \<noteq> CHR '','') v);
                       extracted = hd (split_on CHR '';'' meta)
                   in Inr (JObj [(''type'', JStr ''base64''), (''media_type'', JStr (if extracted \<noteq> [] then extracted else media)),
                        (''data'', JStr (tl (dropWhile (\<lambda>c. c \<noteq> CHR '','') v)))])
              else Inr (JObj [(''type'', JStr ''base64''), (''media_type'', JStr media), (''data'', JStr v)]))
         | IkFile \<Rightarrow> Inl (request_codec_error CapabilityUnsupported ''file-kind image references cannot be inlined to upstream providers'')))"

definition anthropic_tool_result :: "content_block option \<Rightarrow> json" where
  "anthropic_tool_result b =
    JObj ([(''type'', JStr ''tool_result''), (''tool_use_id'', JStr (or_empty (Option.bind b cb_tool_call_id))),
           (''content'', JStr (or_empty (Option.bind b cb_text)))] @
          when_json (Option.bind b cb_tool_error = Some True) ''is_error'' (JBool True))"

definition to_anthropic_tool_use :: "content_block \<Rightarrow> codec_error + json" where
  "to_anthropic_tool_use b =
    (let name = or_empty (cb_tool_name b) in
     case json_parse (tool_arguments b) of
       None \<Rightarrow> Inl (request_codec_error InvalidRequest (''Tool_use arguments for '' @ in_quotes name @ '' are not valid JSON''))
     | Some inp \<Rightarrow> Inr (JObj [(''type'', JStr ''tool_use''),
         (''id'', JStr (case cb_tool_call_id b of Some c \<Rightarrow> c | None \<Rightarrow> ''toolu_'' @ name)), (''name'', JStr name),
         (''input'', case inp of JObj fs \<Rightarrow> JObj fs | _ \<Rightarrow> JObj [])]))"

definition to_anthropic_user_block :: "content_block \<Rightarrow> codec_error + json list" where
  "to_anthropic_user_block b = (case cb_type b of
      BtText \<Rightarrow> Inr [JObj [(''type'', JStr ''text''), (''text'', JStr (or_empty (cb_text b)))]]
    | BtImage \<Rightarrow> and_then (to_anthropic_image_source (cb_image b)) (\<lambda>src.
        Inr [JObj [(''type'', JStr ''image''), (''source'', src)]])
    | BtToolResult \<Rightarrow> Inr [anthropic_tool_result (Some b)]
    | _ \<Rightarrow> Inr [])"

definition to_anthropic_assistant_block :: "content_block \<Rightarrow> codec_error + json list" where
  "to_anthropic_assistant_block b = (case cb_type b of
      BtText \<Rightarrow> Inr [JObj [(''type'', JStr ''text''), (''text'', JStr (or_empty (cb_text b)))]]
    | BtToolUse \<Rightarrow> and_then (to_anthropic_tool_use b) (\<lambda>v. Inr [v])
    | _ \<Rightarrow> Inr [])"

definition anthropic_message :: "string \<Rightarrow> json list \<Rightarrow> json" where
  "anthropic_message role_text content = JObj [(''role'', JStr role_text), (''content'', JArr content)]"

definition to_anthropic_message :: "message \<Rightarrow> codec_error + json" where
  "to_anthropic_message m = (case msg_role m of
      RoUser \<Rightarrow> and_then (flat_map_ok to_anthropic_user_block (msg_content m)) (\<lambda>bs. Inr (anthropic_message ''user'' bs))
    | RoAssistant \<Rightarrow> and_then (flat_map_ok to_anthropic_assistant_block (msg_content m)) (\<lambda>bs. Inr (anthropic_message ''assistant'' bs))
    | RoTool \<Rightarrow> Inr (anthropic_message ''user'' [anthropic_tool_result (first_block m)])
    | _ \<Rightarrow> Inr (anthropic_message ''user'' [JObj [(''type'', JStr ''text''), (''text'', JStr (message_text m))]]))"

definition is_system :: "message \<Rightarrow> bool" where
  "is_system m \<longleftrightarrow> msg_role m = RoSystem \<or> msg_role m = RoDeveloper"

definition system_text :: "message list \<Rightarrow> string" where
  "system_text ms = join_with [CHR 0x0A, CHR 0x0A] (filter (\<lambda>t. 0 < length t) (map message_text (filter is_system ms)))"

definition ephemeral_mark :: json where
  "ephemeral_mark = JObj [(''type'', JStr ''ephemeral'')]"

definition mark_cached :: "json \<Rightarrow> json option" where
  "mark_cached v = (case v of
      JObj fs \<Rightarrow> if js_field fs ''type'' = Some (JStr ''text'') then Some (JObj (jm_set ''cache_control'' ephemeral_mark fs)) else None
    | _ \<Rightarrow> None)"

text \<open>The search from the back: the last element that \<open>f\<close> changes is changed.\<close>

fun update_last :: "('a \<Rightarrow> 'a option) \<Rightarrow> 'a list \<Rightarrow> 'a list option" where
  "update_last f [] = None"
| "update_last f (x # xs) = (case update_last f xs of
      Some ys \<Rightarrow> Some (x # ys)
    | None \<Rightarrow> map_option (\<lambda>y. y # xs) (f x))"

definition mark_message :: "json \<Rightarrow> json option" where
  "mark_message v = (case v of
      JObj fs \<Rightarrow> if js_field fs ''role'' = Some (JStr ''user'')
        then (case js_field fs ''content'' of
            Some (JArr bs) \<Rightarrow> map_option (\<lambda>cs. JObj (jm_set ''content'' (JArr cs) fs)) (update_last mark_cached bs)
          | _ \<Rightarrow> None)
        else None
    | _ \<Rightarrow> None)"

definition apply_last_user_cache_control :: "json list \<Rightarrow> json list" where
  "apply_last_user_cache_control ms = (case update_last mark_message ms of Some ns \<Rightarrow> ns | None \<Rightarrow> ms)"

definition messages_tool :: "tool \<Rightarrow> json" where
  "messages_tool t = JObj ([(''name'', JStr (tl_name t))] @ opt_json ''description'' (map_option JStr (tl_description t)) @
     [(''input_schema'', JObj (tl_schema t))])"

definition build_messages_payload :: "normalized_request \<Rightarrow> capabilities \<Rightarrow> codec_error + json" where
  "build_messages_payload r cap =
    (let sys = system_text (nr_messages r);
         cached = cap_explicit_cache cap \<and> cap_prompt_cache_key cap \<and> nr_cache_key r \<noteq> None;
         limit = (case nr_max_output_tokens r of Some q \<Rightarrow> q | None \<Rightarrow> DEFAULT_MAX_TOKENS)
     in and_then (map_ok to_anthropic_message (filter (\<lambda>m. \<not> is_system m) (nr_messages r))) (\<lambda>messages.
      Inr (JObj ([(''model'', JStr (nr_model r)), (''max_tokens'', token_json limit), (''stream'', JBool (nr_stream r)),
          (''messages'', JArr (if cached then apply_last_user_cache_control messages else messages))] @
        when_json (0 < length sys) ''system''
          (if cached then JArr [JObj [(''type'', JStr ''text''), (''text'', JStr sys), (''cache_control'', ephemeral_mark)]] else JStr sys) @
        opt_json ''metadata'' (map_option (\<lambda>u. JObj [(''user_id'', JStr u)]) (nr_metadata_user_id r)) @
        when_json (nr_tools r \<noteq> []) ''tools'' (JArr (map messages_tool (nr_tools r))) @
        when_json (nr_reasoning r = RmEnabled \<and> cap_reasoning cap) ''thinking''
          (JObj [(''type'', JStr ''enabled''), (''budget_tokens'', token_json (min limit MAX_THINKING_BUDGET))])))))"

subsection \<open>Reading a written payload\<close>

definition messages_image :: "codec_env \<Rightarrow> image_reference \<Rightarrow> bool" where
  "messages_image cx r \<longleftrightarrow>
     im_kind r = IkUrl \<and> wire_image cx r \<or>
     im_kind r = IkData \<and> im_value r \<noteq> [] \<and> length (im_value r) \<le> MAX_DATA_URL_LENGTH \<and>
       \<not> (take 5 (im_value r) = ''data:'' \<and> CHR '','' \<in> set (im_value r)) \<and>
       (\<exists>m. im_media_type r = Some m \<and> m \<noteq> [] \<and> length m \<le> MAX_MEDIA_TYPE_LENGTH)"

definition messages_result :: "content_block \<Rightarrow> bool" where
  "messages_result b \<longleftrightarrow> (\<exists>t c. (b = tool_result_block (Some t) c \<or> b = (tool_result_block (Some t) c)\<lparr>cb_tool_error := Some True\<rparr>) \<and>
     length t \<le> MAX_TEXT_BLOCK_LENGTH \<and> c \<noteq> [] \<and> length c \<le> 128)"

definition messages_call :: "codec_env \<Rightarrow> content_block \<Rightarrow> bool" where
  "messages_call cx b \<longleftrightarrow> (\<exists>n c fs. b = call_block n c (stringify cx (JObj fs)) \<and> block_ok cx b \<and>
     json_parse (stringify cx (JObj fs)) = Some (JObj fs) \<and> \<not> is_protocol_error fs)"

definition messages_message :: "codec_env \<Rightarrow> message \<Rightarrow> bool" where
  "messages_message cx m \<longleftrightarrow> msg_reasoning m = None \<and> length (msg_content m) \<le> MAX_BLOCKS_PER_MESSAGE \<and>
     (msg_role m = RoUser \<and>
        (\<forall>b \<in> set (msg_content m). plain_block b \<or> messages_result b \<or> (\<exists>r. b = image_block r \<and> messages_image cx r)) \<or>
      msg_role m = RoAssistant \<and> (\<forall>b \<in> set (msg_content m). plain_block b \<or> messages_call cx b))"

definition messages_request :: "codec_env \<Rightarrow> capabilities \<Rightarrow> normalized_request \<Rightarrow> bool" where
  "messages_request cx cap r \<longleftrightarrow>
     trim (nr_model r) \<noteq> [] \<and> length (nr_model r) \<le> MAX_MODEL_LENGTH \<and>
     (\<exists>sys ms. nr_messages r = sys @ ms \<and> length ms \<le> MAX_MESSAGE_COUNT \<and> (\<forall>m \<in> set ms. messages_message cx m) \<and>
        (sys = [] \<or> (\<exists>t. sys = [\<lparr>msg_role = RoSystem, msg_content = [text_block t], msg_reasoning = None\<rparr>] \<and>
           t \<noteq> [] \<and> length t \<le> MAX_TEXT_BLOCK_LENGTH))) \<and>
     length (nr_tools r) \<le> MAX_TOOL_COUNT \<and>
     (\<forall>t \<in> set (nr_tools r). tool_ok (\<lambda>v. length (stringify cx v)) t \<and> \<not> is_protocol_error (tl_schema t)) \<and>
     nr_response_format r = RfText \<and> nr_reasoning_config r = None \<and>
     (nr_reasoning r = RmEnabled \<and> cap_reasoning cap \<or> nr_reasoning r = RmDefault) \<and>
     (\<exists>q. nr_max_output_tokens r = Some q \<and> is_integer_rat q \<and> 1 \<le> q \<and> q \<le> MAX_OUTPUT_TOKENS) \<and>
     nr_include r = None \<and> nr_image_operation r = None \<and> nr_source_surface r = SfMessages \<and>
     nr_cache_key r = None \<and> (\<forall>u. nr_metadata_user_id r = Some u \<longrightarrow> length u \<le> 4096) \<and>
     nr_images r = images_in (nr_messages r) \<and> length (nr_images r) \<le> MAX_IMAGE_COUNT"

lemma read_image_source:
  assumes "messages_image cx r" and "to_anthropic_image_source (Some r) = Inr src" and "length (fst s) < MAX_IMAGE_COUNT"
  shows "normalize_image cx (Some src) field s = Inr (r, fst s @ [r], snd s)"
proof -
  from assms(1) consider "im_kind r = IkUrl" "wire_image cx r" | m where "im_kind r = IkData" "im_value r \<noteq> []"
      "length (im_value r) \<le> MAX_DATA_URL_LENGTH" "\<not> (take 5 (im_value r) = ''data:'' \<and> CHR '','' \<in> set (im_value r))"
      "im_media_type r = Some m" "m \<noteq> []" "length m \<le> MAX_MEDIA_TYPE_LENGTH"
    by (auto simp: messages_image_def)
  then show ?thesis
  proof cases
    case 1
    then show ?thesis using assms(2,3)
      by (auto simp: to_anthropic_image_source_def normalize_image_def narrow_written push_classified_def wire_image_def
          push_image_def push_image_reference_def)
  next
    case 2
    have "\<lparr>im_kind = IkData, im_value = im_value r, im_media_type = Some m\<rparr> = r" using 2(1,5) by (cases r) simp
    then show ?thesis using assms(2,3) 2
      by (auto simp: to_anthropic_image_source_def Let_def normalize_image_def normalize_base64_image_def narrow_written
          push_image_def push_image_reference_def split: if_splits)
  qed
qed

lemma typed_record_obj [simp]: "typed_record (JObj fs) ty = (if js_field fs ''type'' = Some (JStr ty) then Some fs else None)"
  by (simp add: typed_record_def)

lemma read_user_item:
  assumes "plain_block b \<or> messages_result b \<or> (\<exists>r. b = image_block r \<and> messages_image cx r)"
    and v: "to_anthropic_user_block b = Inr [v]" and room: "length (fst s) + length (images_of [b]) \<le> MAX_IMAGE_COUNT"
  shows "normalize_messages_item cx field i v s = Inr ([b], fst s @ images_of [b], snd s)"
proof -
  from assms(1) consider t where "b = text_block t" "length t \<le> MAX_TEXT_BLOCK_LENGTH" | "messages_result b"
    | r where "b = image_block r" "messages_image cx r"
    by (auto simp: plain_block_def)
  then show ?thesis
  proof cases
    case 1
    then show ?thesis using v by (auto simp: to_anthropic_user_block_def normalize_messages_item_def Let_def
        normalize_messages_block_def narrow_written or_empty_def)
  next
    case 2
    then show ?thesis using v by (auto simp: messages_result_def to_anthropic_user_block_def anthropic_tool_result_def
        normalize_messages_item_def Let_def narrow_written normalize_tool_result_def bounded_text_def or_empty_def
        tool_result_block_def block_of_def)
  next
    case 3
    then obtain src where src: "to_anthropic_image_source (Some r) = Inr src"
      and w: "v = JObj [(''type'', JStr ''image''), (''source'', src)]"
      using v by (auto simp: to_anthropic_user_block_def and_then_eq_Inr)
    have "length (fst s) < MAX_IMAGE_COUNT" using room 3(1) by simp
    then show ?thesis using 3 w read_image_source [OF 3(2) src]
      by (simp add: normalize_messages_item_def Let_def normalize_messages_block_def narrow_written)
  qed
qed

lemma read_assistant_item:
  assumes "plain_block b \<or> messages_call cx b" and v: "to_anthropic_assistant_block b = Inr [v]"
  shows "normalize_messages_item cx field i v s = Inr ([b], fst s @ images_of [b], snd s)"
proof -
  from assms(1) consider t where "b = text_block t" "length t \<le> MAX_TEXT_BLOCK_LENGTH" | "messages_call cx b"
    by (auto simp: plain_block_def)
  then show ?thesis
  proof cases
    case 1
    then show ?thesis using v by (auto simp: to_anthropic_assistant_block_def normalize_messages_item_def Let_def
        normalize_messages_block_def narrow_written or_empty_def)
  next
    case 2
    then show ?thesis using v by (auto simp: messages_call_def to_anthropic_assistant_block_def to_anthropic_tool_use_def
        tool_arguments_def normalize_messages_item_def Let_def normalize_messages_block_def narrow_written or_empty_def
        is_nullish_def bound_json_length_def)
  qed
qed

lemma user_item_single: "to_anthropic_user_block b = Inr v \<Longrightarrow>
    plain_block b \<or> messages_result b \<or> (\<exists>r. b = image_block r \<and> messages_image cx r) \<Longrightarrow> \<exists>u. v = [u]"
  by (auto simp: to_anthropic_user_block_def and_then_eq_Inr plain_block_def messages_result_def)

lemma assistant_item_single: "to_anthropic_assistant_block b = Inr v \<Longrightarrow> plain_block b \<or> messages_call cx b \<Longrightarrow> \<exists>u. v = [u]"
  by (auto simp: to_anthropic_assistant_block_def and_then_eq_Inr plain_block_def messages_call_def)

lemma read_messages_message:
  assumes ok: "messages_message cx m" and v: "to_anthropic_message m = Inr v"
    and room: "length (fst s) + length (images_of (msg_content m)) \<le> MAX_IMAGE_COUNT"
  shows "normalize_messages_message cx i v s = Inr ([m], fst s @ images_of (msg_content m), snd s)"
proof -
  have m: "msg_reasoning m = None" "length (msg_content m) \<le> MAX_BLOCKS_PER_MESSAGE" using ok by (simp_all add: messages_message_def)
  have whole: "\<lparr>msg_role = msg_role m, msg_content = msg_content m, msg_reasoning = None\<rparr> = m" using m(1) by (cases m) simp
  from ok consider (user) "msg_role m = RoUser"
      "\<forall>b \<in> set (msg_content m). plain_block b \<or> messages_result b \<or> (\<exists>r. b = image_block r \<and> messages_image cx r)"
    | (assistant) "msg_role m = RoAssistant" "\<forall>b \<in> set (msg_content m). plain_block b \<or> messages_call cx b"
    by (auto simp: messages_message_def)
  then show ?thesis
  proof cases
    case user
    then obtain vs where vs: "flat_map_ok to_anthropic_user_block (msg_content m) = Inr vs" and w: "v = anthropic_message ''user'' vs"
      using v by (auto simp: to_anthropic_message_def and_then_eq_Inr)
    have single: "\<exists>u. v = [u]" if "b \<in> set (msg_content m)" "to_anthropic_user_block b = Inr v" for b v
      using that user(2) user_item_single by blast
    have "each_item (normalize_messages_item cx field) 0 vs s = Inr (msg_content m, fst s @ images_of (msg_content m), snd s)" for field
      by (rule read_blocks [OF single _ vs room]) (use user(2) read_user_item in blast)+
    moreover have "length vs \<le> MAX_BLOCKS_PER_MESSAGE" using map_ok_length [OF flat_map_single [OF single vs]] m(2) by simp
    ultimately show ?thesis using w user(1) whole
      by (simp add: normalize_messages_message_def anthropic_message_def narrow_written Let_def normalize_messages_content_def role_name_def)
  next
    case assistant
    then obtain vs where vs: "flat_map_ok to_anthropic_assistant_block (msg_content m) = Inr vs" and w: "v = anthropic_message ''assistant'' vs"
      using v by (auto simp: to_anthropic_message_def and_then_eq_Inr)
    have single: "\<exists>u. v = [u]" if "b \<in> set (msg_content m)" "to_anthropic_assistant_block b = Inr v" for b v
      using that assistant(2) assistant_item_single by blast
    have "each_item (normalize_messages_item cx field) 0 vs s = Inr (msg_content m, fst s @ images_of (msg_content m), snd s)" for field
      by (rule read_blocks [OF single _ vs room]) (use assistant(2) read_assistant_item in blast)+
    moreover have "length vs \<le> MAX_BLOCKS_PER_MESSAGE" using map_ok_length [OF flat_map_single [OF single vs]] m(2) by simp
    ultimately show ?thesis using w assistant(1) whole
      by (simp add: normalize_messages_message_def anthropic_message_def narrow_written Let_def normalize_messages_content_def role_name_def)
  qed
qed

lemma read_messages_list:
  assumes ok: "\<forall>m \<in> set ms. messages_message cx m" and vs: "map_ok to_anthropic_message ms = Inr vs"
    and room: "length (images_in ms) \<le> MAX_IMAGE_COUNT" and few: "length ms \<le> MAX_MESSAGE_COUNT"
  shows "normalize_messages_list cx (Some (JArr vs)) ([], False) = Inr (ms, images_in ms, False)"
proof -
  define upd :: "message \<Rightarrow> wire_state \<Rightarrow> wire_state" where "upd m s = (fst s @ images_of (msg_content m), snd s)" for m s
  have fold_upd: "fold upd ms s = (fst s @ images_in ms, snd s)" for s
    by (induction ms arbitrary: s) (auto simp: upd_def)
  have cost: "sum_list (map (\<lambda>m. length (images_of (msg_content m))) ms) = length (images_in ms)"
    by (induction ms) simp_all
  have step: "normalize_messages_message cx i v s = Inr ([m], upd m s)"
    if "m \<in> set ms" and "to_anthropic_message m = Inr v" and "length (fst s) + length (images_of (msg_content m)) \<le> MAX_IMAGE_COUNT"
    for i m s v
    using that ok read_messages_message unfolding upd_def by blast
  have "each_item (normalize_messages_message cx) 0 vs ([], False) = Inr (ms, fold upd ms ([], False))"
    by (rule each_item_map_ok [where used = "\<lambda>s. length (fst s)" and cost = "\<lambda>m. length (images_of (msg_content m))" and n = MAX_IMAGE_COUNT,
          OF step _ vs]) (use room cost in \<open>auto simp: upd_def\<close>)
  then show ?thesis using few map_ok_length [OF vs] by (simp add: normalize_messages_list_def narrow_array_arr fold_upd)
qed

lemma flat_map_total: "\<forall>x \<in> set xs. \<exists>v. w x = Inr v \<Longrightarrow> \<exists>vs. flat_map_ok w xs = Inr vs"
  using map_ok_total [of xs w] by (auto simp: flat_map_ok_def)

lemma messages_message_written:
  assumes "messages_message cx m"
  shows "\<exists>v. to_anthropic_message m = Inr v"
proof -
  have user: "\<exists>v. to_anthropic_user_block b = Inr v"
    if "plain_block b \<or> messages_result b \<or> (\<exists>r. b = image_block r \<and> messages_image cx r)" for b
    using that by (auto simp: to_anthropic_user_block_def plain_block_def messages_result_def messages_image_def
        to_anthropic_image_source_def Let_def)
  have assistant: "\<exists>v. to_anthropic_assistant_block b = Inr v" if "plain_block b \<or> messages_call cx b" for b
    using that by (auto simp: to_anthropic_assistant_block_def plain_block_def messages_call_def to_anthropic_tool_use_def
        tool_arguments_def Let_def)
  have "\<exists>vs. flat_map_ok to_anthropic_user_block (msg_content m) = Inr vs" if "msg_role m = RoUser"
    using that assms user by (intro flat_map_total) (auto simp: messages_message_def)
  moreover have "\<exists>vs. flat_map_ok to_anthropic_assistant_block (msg_content m) = Inr vs" if "msg_role m = RoAssistant"
    using that assms assistant by (intro flat_map_total) (auto simp: messages_message_def)
  ultimately show ?thesis using assms by (auto simp: messages_message_def to_anthropic_message_def)
qed

lemma read_messages_tool:
  assumes ok: "tool_ok (\<lambda>v. length (stringify cx v)) t" and "\<not> is_protocol_error (tl_schema t)"
  shows "normalize_tool (\<lambda>v. length (stringify cx v)) sh messages_tool_options i (messages_tool t) = Inr t"
proof -
  have "\<lparr>tl_name = tl_name t, tl_description = tl_description t, tl_schema = tl_schema t,
      tl_schema_length = Some (int (length (stringify cx (JObj (tl_schema t)))))\<rparr> = t"
    using ok by (cases t) (simp add: tool_ok_def)
  then show ?thesis using assms
    by (cases "tl_description t")
      (simp_all add: normalize_tool_def messages_tool_def messages_tool_options_def narrow_written Let_def tool_ok_def is_nullish_def)
qed

lemma read_messages_tools:
  assumes "length ts \<le> MAX_TOOL_COUNT"
    and "\<forall>t \<in> set ts. tool_ok (\<lambda>v. length (stringify cx v)) t \<and> \<not> is_protocol_error (tl_schema t)"
  shows "codec_tools cx messages_tool_options (if ts \<noteq> [] then Some (JArr (map messages_tool ts)) else None) = Inr ts"
  using assms by (simp add: codec_tools_def normalize_tool_list_def is_nullish_def narrow_array_arr read_tools read_messages_tool)

text \<open>
  C11: A Messages request of the shape the codec writes survives its Anthropic payload: the normalizer, given
  the payload, returns the very request. The shape (\<open>messages_request\<close>) is within the bounds of the
  reader and has: at most one system text, which comes first; user messages of texts, images (a URL, or
  base64 data with its media type) and tool results of one text each, with their error flag; assistant
  messages of texts and tool calls whose arguments are the serialization of an object; an output limit of
  at least 1; reasoning that is enabled on a model that has it, or left to its default; tools whose schema
  has not the fields of a protocol error. Left out, since the
  payload changes or loses them (lemmas below), are disabled thinking, tool results with an image, with
  several parts or without a text, reasoning texts, reasoning settings and a cache key.
\<close>

theorem messages_payload_roundtrip:
  assumes ok: "messages_request cx cap r"
  shows "\<exists>payload. build_messages_payload r cap = Inr payload \<and> normalize_messages_request cx (nr_limits r) False (Some payload) = Inr r"
proof -
  obtain sys ms q where sys: "nr_messages r = sys @ ms" "sys = [] \<or> (\<exists>t. sys = [\<lparr>msg_role = RoSystem, msg_content = [text_block t], msg_reasoning = None\<rparr>] \<and>
           t \<noteq> [] \<and> length t \<le> MAX_TEXT_BLOCK_LENGTH)" "length ms \<le> MAX_MESSAGE_COUNT" "\<forall>m \<in> set ms. messages_message cx m"
    and q: "nr_max_output_tokens r = Some q" "is_integer_rat q" "1 \<le> q" "q \<le> MAX_OUTPUT_TOKENS"
    using ok unfolding messages_request_def by blast
  have r: "trim (nr_model r) \<noteq> []" "length (nr_model r) \<le> MAX_MODEL_LENGTH" "length (nr_tools r) \<le> MAX_TOOL_COUNT"
    "\<forall>t \<in> set (nr_tools r). tool_ok (\<lambda>v. length (stringify cx v)) t \<and> \<not> is_protocol_error (tl_schema t)"
    and flag: "nr_reasoning r = RmEnabled \<and> cap_reasoning cap \<or> nr_reasoning r = RmDefault"
    and rest: "nr_response_format r = RfText" "nr_reasoning_config r = None" "nr_include r = None" "nr_image_operation r = None"
    "nr_source_surface r = SfMessages" "nr_cache_key r = None" "\<forall>u. nr_metadata_user_id r = Some u \<longrightarrow> length u \<le> 4096"
    "nr_images r = images_in (nr_messages r)" "length (nr_images r) \<le> MAX_IMAGE_COUNT"
    using ok unfolding messages_request_def by blast+
  have none: "images_in sys = []" using sys(2) by auto
  have "\<forall>m \<in> set ms. \<not> is_system m" using sys(4) by (auto simp: messages_message_def is_system_def)
  moreover have "\<forall>m \<in> set sys. is_system m" using sys(2) by (auto simp: is_system_def)
  ultimately have talk: "filter (\<lambda>m. \<not> is_system m) (nr_messages r) = ms" and spoken: "filter is_system (nr_messages r) = sys"
    using sys(1) by (simp_all add: filter_empty_conv filter_id_conv)
  have read_sys: "normalize_system (if system_text (nr_messages r) \<noteq> [] then Some (JStr (system_text (nr_messages r))) else None) = Inr sys"
    using sys(2) by (auto simp: system_text_def spoken normalize_system_def bounded_text_def)
  obtain vs where vs: "map_ok to_anthropic_message ms = Inr vs"
    using map_ok_total messages_message_written sys(4) by meson
  then obtain payload where written: "build_messages_payload r cap = Inr payload"
    by (simp add: build_messages_payload_def talk Let_def)
  obtain top_obj where top_obj: "payload = JObj top_obj" and fields:
    "js_field top_obj ''field'' = None" "js_field top_obj ''model'' = Some (JStr (nr_model r))" "js_field top_obj ''stream'' = Some (JBool (nr_stream r))"
    "js_field top_obj ''messages'' = Some (JArr vs)" "js_field top_obj ''max_tokens'' = Some (token_json q)"
    "js_field top_obj ''system'' = (if system_text (nr_messages r) \<noteq> [] then Some (JStr (system_text (nr_messages r))) else None)"
    "js_field top_obj ''metadata'' = map_option (\<lambda>u. JObj [(''user_id'', JStr u)]) (nr_metadata_user_id r)"
    "js_field top_obj ''tools'' = (if nr_tools r \<noteq> [] then Some (JArr (map messages_tool (nr_tools r))) else None)"
    "js_field top_obj ''thinking'' = (if nr_reasoning r = RmEnabled \<and> cap_reasoning cap
       then Some (JObj [(''type'', JStr ''enabled''), (''budget_tokens'', token_json (min q MAX_THINKING_BUDGET))]) else None)"
    using written vs rest(6) q(1) by (auto simp: build_messages_payload_def talk Let_def split: option.splits)
  have model: "normalize_model top_obj = Inr (nr_model r)" using fields(2) r(1,2) by (simp add: normalize_model_def narrow_written)
  have stream: "normalize_stream (Some (JBool (nr_stream r))) = Inr (nr_stream r)" by (simp add: normalize_stream_def narrow_boolean_def)
  have tokens: "normalize_messages_max_tokens cx top_obj = Inr q"
    using fields(5) q by (simp add: normalize_messages_max_tokens_def is_nullish_def token_json_def narrow_number_def nullable_number_def
        token_options_def)
  have thinking: "normalize_thinking (js_field top_obj ''thinking'') = Inr (nr_reasoning r)"
    using fields(9) flag by (auto simp: normalize_thinking_def is_nullish_def narrow_written)
  have user: "metadata_user_id (js_field top_obj ''metadata'') = nr_metadata_user_id r"
    using fields(7) rest(7) by (cases "nr_metadata_user_id r") (auto simp: metadata_user_id_def)
  have listed: "normalize_messages_list cx (Some (JArr vs)) ([], False) = Inr (ms, images_in ms, False)"
    using read_messages_list [OF sys(4) vs _ sys(3)] rest(8,9) sys(1) none by simp
  have "normalize_messages_request cx (nr_limits r) False (Some payload) = Inr r" unfolding top_obj
    using fields(1,3,4) model stream tokens thinking user listed read_sys [folded fields(6)] read_messages_tools [OF r(3,4), folded fields(8)]
      rest sys(1) none q(1)
    by (cases r) (simp add: normalize_messages_request_def aborted_error_def normalize_messages_body_def narrow_written)
  then show ?thesis using written by blast
qed

definition sample_messages :: normalized_request where
  "sample_messages = sample_chat_request\<lparr>nr_messages :=
       [\<lparr>msg_role = RoSystem, msg_content = [text_block ''be brief''], msg_reasoning = None\<rparr>,
        \<lparr>msg_role = RoUser, msg_content = [text_block ''hi'', (tool_result_block (Some ''no'') ''c'')\<lparr>cb_tool_error := Some True\<rparr>], msg_reasoning = None\<rparr>,
        \<lparr>msg_role = RoAssistant, msg_content = [call_block ''f'' ''c'' ''{}''], msg_reasoning = None\<rparr>],
     nr_response_format := RfText, nr_reasoning_config := None, nr_source_surface := SfMessages, nr_metadata_user_id := Some ''u''\<rparr>"

definition sample_capabilities :: capabilities where
  "sample_capabilities = \<lparr>cap_surfaces = [SfMessages], cap_streaming = True, cap_reasoning = True, cap_tool_calls = True,
     cap_images = True, cap_explicit_cache = True, cap_prompt_cache_key = True\<rparr>"

lemma sample_messages_canonical: "messages_request plain_env sample_capabilities sample_messages"
proof -
  have one: "Suc 0 \<le> MAX_BLOCKS_PER_MESSAGE" "2 \<le> MAX_BLOCKS_PER_MESSAGE" by (simp_all add: MAX_BLOCKS_PER_MESSAGE_def)
  have result: "messages_result ((tool_result_block (Some ''no'') ''c'')\<lparr>cb_tool_error := Some True\<rparr>)"
    unfolding messages_result_def by (rule exI [of _ "''no''"], rule exI [of _ "''c''"]) (simp add: MAX_TEXT_BLOCK_LENGTH_def)
  have user: "messages_message plain_env \<lparr>msg_role = RoUser,
      msg_content = [text_block ''hi'', (tool_result_block (Some ''no'') ''c'')\<lparr>cb_tool_error := Some True\<rparr>], msg_reasoning = None\<rparr>"
    using result one by (auto simp: messages_message_def plain_block_def MAX_TEXT_BLOCK_LENGTH_def)
  have braces: "stringify plain_env (JObj []) = ''{}''" by (simp add: stringify_def)
  have "json_parse ''{}'' = Some (JObj [])" by code_simp
  then have "messages_call plain_env (call_block ''f'' ''c'' ''{}'')"
    unfolding messages_call_def
    by (intro exI [of _ "''f''"] exI [of _ "''c''"] exI [of _ "[]"])
      (simp add: braces trim_def is_space_def char_code_def MAX_TOOL_NAME_LENGTH_def MAX_TOOL_ARGUMENT_LENGTH_def)
  then have assistant: "messages_message plain_env \<lparr>msg_role = RoAssistant, msg_content = [call_block ''f'' ''c'' ''{}''], msg_reasoning = None\<rparr>"
    using one by (simp add: messages_message_def)
  have schema: "tool_ok (\<lambda>v. length (stringify plain_env v)) \<lparr>tl_name = ''f'', tl_description = None, tl_schema = [], tl_schema_length = Some 2\<rparr>"
    by (simp add: tool_ok_def stringify_def trim_def is_space_def char_code_def MAX_TOOL_NAME_LENGTH_def MAX_TOOL_SCHEMA_LENGTH_def)
  have "\<exists>sys ms. nr_messages sample_messages = sys @ ms \<and> length ms \<le> MAX_MESSAGE_COUNT \<and> (\<forall>m \<in> set ms. messages_message plain_env m) \<and>
      (sys = [] \<or> (\<exists>t. sys = [\<lparr>msg_role = RoSystem, msg_content = [text_block t], msg_reasoning = None\<rparr>] \<and> t \<noteq> [] \<and> length t \<le> MAX_TEXT_BLOCK_LENGTH))"
    by (rule exI [of _ "[hd (nr_messages sample_messages)]"], rule exI [of _ "tl (nr_messages sample_messages)"])
      (use user assistant in \<open>auto simp: sample_messages_def sample_chat_request_def MAX_MESSAGE_COUNT_def MAX_TEXT_BLOCK_LENGTH_def\<close>)
  then show ?thesis unfolding messages_request_def using schema
    by (simp add: sample_messages_def sample_chat_request_def sample_capabilities_def trim_def is_space_def char_code_def MAX_MODEL_LENGTH_def
        MAX_TOOL_COUNT_def MAX_IMAGE_COUNT_def MAX_OUTPUT_TOKENS_def is_integer_rat_def)
qed

theorem messages_payload_roundtrip_witness:
  "\<exists>payload. build_messages_payload sample_messages sample_capabilities = Inr payload \<and>
     normalize_messages_request plain_env plain_limits False (Some payload) = Inr sample_messages"
  using messages_payload_roundtrip [OF sample_messages_canonical] by (simp add: sample_messages_def sample_chat_request_def)

subsection \<open>Cache marks\<close>

definition text_json :: "string \<Rightarrow> json" where
  "text_json t = JObj [(''type'', JStr ''text''), (''text'', JStr t)]"

definition marked_text :: "string \<Rightarrow> json" where
  "marked_text t = JObj [(''type'', JStr ''text''), (''text'', JStr t), (''cache_control'', ephemeral_mark)]"

definition is_text_json :: "json \<Rightarrow> bool" where
  "is_text_json v = (case v of JObj fs \<Rightarrow> js_field fs ''type'' = Some (JStr ''text'') | _ \<Rightarrow> False)"

definition has_user_text :: "json \<Rightarrow> bool" where
  "has_user_text v \<longleftrightarrow> (\<exists>bs. v = anthropic_message ''user'' bs \<and> (\<exists>b \<in> set bs. is_text_json b))"

lemma update_last_None: "update_last f xs = None \<longleftrightarrow> (\<forall>x \<in> set xs. f x = None)"
  by (induction xs) (auto split: option.splits)

lemma update_last_Some:
  "update_last f xs = Some ys \<Longrightarrow> \<exists>as x bs y. xs = as @ x # bs \<and> f x = Some y \<and> (\<forall>z \<in> set bs. f z = None) \<and> ys = as @ y # bs"
proof (induction xs arbitrary: ys)
  case (Cons x xs)
  show ?case
  proof (cases "update_last f xs")
    case None
    then obtain y where "f x = Some y" "ys = y # xs" using Cons.prems by auto
    then show ?thesis using None unfolding update_last_None by (intro exI [of _ "[]"]) auto
  next
    case (Some zs)
    then have ys: "ys = x # zs" using Cons.prems by simp
    from Cons.IH [OF Some] obtain as u bs y where "xs = as @ u # bs" "f u = Some y" "\<forall>z \<in> set bs. f z = None" "zs = as @ y # bs" by blast
    then show ?thesis unfolding ys by (intro exI [of _ "x # as"]) auto
  qed
qed simp

lemma mark_anthropic_message:
  "mark_message (anthropic_message r bs) = (if r = ''user'' then map_option (anthropic_message r) (update_last mark_cached bs) else None)"
  by (auto simp: mark_message_def anthropic_message_def jm_set_def fun_eq_iff intro!: arg_cong [where f = "\<lambda>g. map_option g _"])

lemma mark_block_none: "mark_cached v = None \<longleftrightarrow> \<not> is_text_json v"
  by (auto simp: mark_cached_def is_text_json_def split: json.splits)

lemma mark_text_json [simp]: "mark_cached (text_json t) = Some (marked_text t)"
  by (simp add: mark_cached_def text_json_def marked_text_def jm_set_def)

definition written_block :: "json \<Rightarrow> bool" where
  "written_block v \<longleftrightarrow> (is_text_json v \<longrightarrow> (\<exists>t. v = text_json t))"

lemma flat_map_written:
  assumes "\<And>b v. b \<in> set bs \<Longrightarrow> w b = Inr v \<Longrightarrow> \<forall>x \<in> set v. P x"
  shows "flat_map_ok w bs = Inr vs \<Longrightarrow> \<forall>x \<in> set vs. P x"
  using assms
proof (induction bs arbitrary: vs)
  case (Cons b bs)
  from Cons.prems(1) obtain v us where v: "w b = Inr v" and us: "flat_map_ok w bs = Inr us" and vs: "vs = v @ us"
    by (auto simp: flat_map_ok_def and_then_eq_Inr)
  have "\<forall>x \<in> set us. P x" by (intro Cons.IH [OF us], rule Cons.prems(2)) auto
  moreover have "\<forall>x \<in> set v. P x" by (rule Cons.prems(2) [OF _ v]) simp
  ultimately show ?case using vs by auto
qed (simp add: flat_map_ok_def)

lemma written_blocks:
  "to_anthropic_user_block b = Inr v \<Longrightarrow> \<forall>x \<in> set v. written_block x"
  "to_anthropic_assistant_block b = Inr v \<Longrightarrow> \<forall>x \<in> set v. written_block x"
  "written_block (anthropic_tool_result r)" "written_block (text_json t)"
  by (auto simp: to_anthropic_user_block_def to_anthropic_assistant_block_def written_block_def is_text_json_def text_json_def
      and_then_eq_Inr anthropic_tool_result_def to_anthropic_tool_use_def Let_def split: block_type.splits option.splits)

lemma written_message:
  assumes "to_anthropic_message m = Inr v"
  shows "\<exists>r bs. v = anthropic_message r bs \<and> (\<forall>b \<in> set bs. written_block b)"
proof -
  have user: "\<forall>b \<in> set vs. written_block b" if "flat_map_ok to_anthropic_user_block bs = Inr vs" for bs vs
    by (rule flat_map_written [OF _ that]) (rule written_blocks(1))
  have assistant: "\<forall>b \<in> set vs. written_block b" if "flat_map_ok to_anthropic_assistant_block bs = Inr vs" for bs vs
    by (rule flat_map_written [OF _ that]) (rule written_blocks(2))
  have one: "\<forall>b \<in> set [JObj [(''type'', JStr ''text''), (''text'', JStr t)]]. written_block b" for t
    using written_blocks(4) by (simp add: text_json_def)
  show ?thesis
  proof (cases "msg_role m")
    case RoUser
    then obtain bs where "flat_map_ok to_anthropic_user_block (msg_content m) = Inr bs" "v = anthropic_message ''user'' bs"
      using assms by (auto simp: to_anthropic_message_def and_then_eq_Inr)
    then show ?thesis using user by blast
  next
    case RoAssistant
    then obtain bs where "flat_map_ok to_anthropic_assistant_block (msg_content m) = Inr bs" "v = anthropic_message ''assistant'' bs"
      using assms by (auto simp: to_anthropic_message_def and_then_eq_Inr)
    then show ?thesis using assistant by blast
  next
    case RoTool
    then have "v = anthropic_message ''user'' [anthropic_tool_result (first_block m)]"
      using assms by (simp add: to_anthropic_message_def)
    moreover have "\<forall>b \<in> set [anthropic_tool_result (first_block m)]. written_block b" using written_blocks(3) by simp
    ultimately show ?thesis by blast
  next
    case RoSystem
    then have "v = anthropic_message ''user'' [JObj [(''type'', JStr ''text''), (''text'', JStr (message_text m))]]"
      using assms by (simp add: to_anthropic_message_def)
    then show ?thesis using one by blast
  next
    case RoDeveloper
    then have "v = anthropic_message ''user'' [JObj [(''type'', JStr ''text''), (''text'', JStr (message_text m))]]"
      using assms by (simp add: to_anthropic_message_def)
    then show ?thesis using one by blast
  qed
qed

lemma user_text_written:
  assumes "to_anthropic_message m = Inr v" and "msg_role m = RoUser" and "b \<in> set (msg_content m)" and "cb_type b = BtText"
  shows "has_user_text v"
proof -
  obtain bs where bs: "flat_map_ok to_anthropic_user_block (msg_content m) = Inr bs" and v: "v = anthropic_message ''user'' bs"
    using assms(1,2) by (auto simp: to_anthropic_message_def and_then_eq_Inr)
  have "\<exists>x \<in> set vs. is_text_json x" if "flat_map_ok to_anthropic_user_block cs = Inr vs" "b \<in> set cs" for cs vs
    using that assms(4)
    by (induction cs arbitrary: vs) (fastforce simp: flat_map_ok_def and_then_eq_Inr to_anthropic_user_block_def is_text_json_def)+
  then show ?thesis using bs assms(3) v by (auto simp: has_user_text_def)
qed

lemma map_ok_member: "map_ok w xs = Inr vs \<Longrightarrow> x \<in> set xs \<Longrightarrow> \<exists>v \<in> set vs. w x = Inr v"
  by (induction xs arbitrary: vs) (auto simp: and_then_eq_Inr)

lemma map_ok_source: "map_ok w xs = Inr vs \<Longrightarrow> v \<in> set vs \<Longrightarrow> \<exists>x \<in> set xs. w x = Inr v"
  by (induction xs arbitrary: vs) (auto simp: and_then_eq_Inr)

text \<open>
  C40: With prompt caching the last text of the last user message that has one is marked, and nothing else of the
  conversation changes.
\<close>

theorem cache_mark_on_last_user_text:
  assumes written: "map_ok to_anthropic_message ms = Inr vs"
    and "m \<in> set ms" and "msg_role m = RoUser" and "b \<in> set (msg_content m)" and "cb_type b = BtText"
  shows "\<exists>before as t bs after. vs = before @ anthropic_message ''user'' (as @ text_json t # bs) # after \<and>
    apply_last_user_cache_control vs = before @ anthropic_message ''user'' (as @ marked_text t # bs) # after \<and>
    (\<forall>x \<in> set bs. \<not> is_text_json x) \<and> (\<forall>v \<in> set after. \<not> has_user_text v)"
proof -
  obtain v where v: "v \<in> set vs" "has_user_text v"
    using map_ok_member [OF written assms(2)] user_text_written assms(3-5) by blast
  have marked: "mark_message u \<noteq> None" if asked: "has_user_text u" for u
  proof -
    obtain bs c where u: "u = anthropic_message ''user'' bs" "c \<in> set bs" "is_text_json c" using asked by (auto simp: has_user_text_def)
    then have "update_last mark_cached bs \<noteq> None" using update_last_None [of mark_cached bs] mark_block_none by blast
    then show ?thesis using u(1) by (simp add: mark_anthropic_message)
  qed
  then obtain ns where ns: "update_last mark_message vs = Some ns"
    using v(1) marked [OF v(2)] update_last_None [of mark_message vs] by (cases "update_last mark_message vs") auto
  then obtain before x after y where x: "vs = before @ x # after" "mark_message x = Some y" "\<forall>z \<in> set after. mark_message z = None"
      "ns = before @ y # after" using update_last_Some by blast
  obtain m' where "to_anthropic_message m' = Inr x" using map_ok_source [OF written, of x] x(1) by auto
  then obtain r cs where cs: "x = anthropic_message r cs" "\<forall>b \<in> set cs. written_block b" using written_message by blast
  then obtain ds where r: "r = ''user''" and ds: "update_last mark_cached cs = Some ds" and y: "y = anthropic_message r ds"
    using x(2) by (auto simp: mark_anthropic_message split: if_splits)
  obtain as c bs d where c: "cs = as @ c # bs" "mark_cached c = Some d" "\<forall>z \<in> set bs. mark_cached z = None" "ds = as @ d # bs"
    using update_last_Some [OF ds] by blast
  have "is_text_json c" using c(2) mark_block_none [of c] by auto
  then obtain t where t: "c = text_json t" using cs(2) c(1) by (auto simp: written_block_def)
  then have "d = marked_text t" using c(2) by simp
  moreover have "\<forall>v \<in> set after. \<not> has_user_text v" using x(3) marked by blast
  moreover have "\<forall>x \<in> set bs. \<not> is_text_json x" using c(3) mark_block_none by auto
  ultimately show ?thesis using x(1,4) cs(1) r y c(1,4) t ns
    by (intro exI [of _ before] exI [of _ as] exI [of _ t] exI [of _ bs] exI [of _ after]) (simp add: apply_last_user_cache_control_def)
qed

theorem cache_mark_on_last_user_text_witness:
  "\<exists>before as t bs after. [anthropic_message ''user'' [text_json ''hi'']] = before @ anthropic_message ''user'' (as @ text_json t # bs) # after \<and>
    apply_last_user_cache_control [anthropic_message ''user'' [text_json ''hi'']] =
      before @ anthropic_message ''user'' (as @ marked_text t # bs) # after"
proof -
  have "map_ok to_anthropic_message [\<lparr>msg_role = RoUser, msg_content = [text_block ''hi''], msg_reasoning = None\<rparr>] =
      Inr [anthropic_message ''user'' [text_json ''hi'']]"
    by (simp add: to_anthropic_message_def flat_map_ok_def to_anthropic_user_block_def or_empty_def text_json_def)
  from cache_mark_on_last_user_text [OF this, of _ "text_block ''hi''"] show ?thesis by fastforce
qed

subsection \<open>What a payload loses\<close>

text \<open>Of a tool message with several parts the first is sent, and the image of a result never.\<close>

lemma later_result_parts_vanish:
  "to_anthropic_message \<lparr>msg_role = RoTool, msg_content = b # bs, msg_reasoning = None\<rparr> =
     to_anthropic_message \<lparr>msg_role = RoTool, msg_content = [b], msg_reasoning = None\<rparr>"
  by (simp add: to_anthropic_message_def first_block_def)

lemma result_image_vanishes:
  "to_anthropic_user_block ((tool_result_block None c)\<lparr>cb_image := Some r\<rparr>) = to_anthropic_user_block (tool_result_block None c)"
  by (simp add: to_anthropic_user_block_def anthropic_tool_result_def tool_result_block_def block_of_def)

text \<open>An answer whose content is an empty list disappears, although the call it answers stays.\<close>

lemma empty_result_vanishes:
  assumes "c \<noteq> []" "length c \<le> 128"
  shows "normalize_messages_item cx field i (JObj [(''type'', JStr ''tool_result''), (''tool_use_id'', JStr c), (''content'', JArr [])]) s = Inr ([], s)"
  using assms by (simp add: normalize_messages_item_def Let_def narrow_written normalize_tool_result_def)

text \<open>Arguments that are JSON but no object are replaced by an empty object.\<close>

lemma other_arguments_replaced:
  assumes "json_parse a = Some (JStr x)"
  shows "to_anthropic_tool_use (call_block n c a) =
    Inr (JObj [(''type'', JStr ''tool_use''), (''id'', JStr c), (''name'', JStr n), (''input'', JObj [])])"
  using assms by (simp add: to_anthropic_tool_use_def tool_arguments_def or_empty_def Let_def)

text \<open>The budget for thinking is the whole limit of the answer when that is not large.\<close>

lemma thinking_takes_all_tokens: "q \<le> MAX_THINKING_BUDGET \<Longrightarrow> min q MAX_THINKING_BUDGET = q"
  by simp

end
