(* ===== verification/ResponsesCodec.thy ===== *)
theory ResponsesCodec imports ChatCodec begin

text \<open>
  The request codec of OpenAI Responses (\<open>src/domain/protocols/openai-responses.ts\<close>): the strict
  normalization of a client body and the payload written for an upstream.
\<close>

subsection \<open>Normalization\<close>

definition user_text :: "role \<Rightarrow> string \<Rightarrow> message" where
  "user_text r t = \<lparr>msg_role = r, msg_content = [text_block t], msg_reasoning = None\<rparr>"

definition normalize_instructions :: "json option \<Rightarrow> narrow_failure + message list" where
  "normalize_instructions raw =
    (case raw of
       None \<Rightarrow> Inr []
     | Some JNull \<Rightarrow> Inr []
     | Some (JStr t) \<Rightarrow> and_then (bounded_text ''instructions'' t) (\<lambda>t. Inr [user_text RoSystem t])
     | _ \<Rightarrow> Inl (protocol_fail ''instructions'' ''instructions: expected a string''))"

definition normalize_responses_format :: "json option \<Rightarrow> narrow_failure + response_format" where
  "normalize_responses_format raw =
    (if is_nullish raw then Inr RfText
     else and_then (narrow_object raw ''text'') (\<lambda>txt.
       if is_nullish (js_field txt ''format'') then Inr RfText
       else and_then (narrow_object (js_field txt ''format'') ''text.format'') (\<lambda>format.
         let ty = js_field format ''type'' in
         if ty = Some (JStr ''text'') then Inr RfText
         else if ty = Some (JStr ''json_object'') then Inr RfJsonObject
         else if ty = Some (JStr ''json_schema'') then Inr RfJsonSchema
         else case ty of
             Some (JStr s) \<Rightarrow> Inl (protocol_fail ''text.format.type'' (''text.format.type: unsupported format '' @ in_quotes s))
           | _ \<Rightarrow> Inl (protocol_fail ''text.format.type'' (''text.format.type: expected '' @ in_quotes ''text'' @ '', '' @
               in_quotes ''json_object'' @ '', or '' @ in_quotes ''json_schema'')))))"

definition normalize_reasoning :: "codec_env \<Rightarrow> json option \<Rightarrow> narrow_failure + reasoning_mode \<times> reasoning_config option" where
  "normalize_reasoning cx raw =
    (if is_nullish raw then Inr (RmDefault, None)
     else and_then (narrow_object raw ''reasoning'') (\<lambda>obj.
       parse_reasoning_config cx obj ''reasoning'' (js_field obj ''enabled'')))"

fun include_items :: "nat \<Rightarrow> json list \<Rightarrow> string list \<Rightarrow> narrow_failure + string list" where
  "include_items i [] items = Inr items"
| "include_items i (v # vs) items =
     (case v of
        JStr s \<Rightarrow>
          if s = [] then Inl (protocol_fail (item_at ''include'' i) ''include: expected a non-empty string'')
          else if 128 < length s
          then Inl (protocol_fail (item_at ''include'' i) (item_at ''include'' i @ '': exceeds maximum length of 128 characters''))
          else include_items (Suc i) vs (if s \<in> set items then items else items @ [s])
      | _ \<Rightarrow> Inl (protocol_fail (item_at ''include'' i) ''include: expected a non-empty string''))"

definition normalize_include :: "json option \<Rightarrow> narrow_failure + string list" where
  "normalize_include raw =
    (case raw of
       None \<Rightarrow> Inr []
     | Some JNull \<Rightarrow> Inr []
     | Some (JArr vs) \<Rightarrow> include_items 0 vs []
     | _ \<Rightarrow> Inl (protocol_fail ''include'' ''include: expected an array of strings''))"

definition read_call_id :: "(string \<times> json) list \<Rightarrow> string \<Rightarrow> narrow_failure + string" where
  "read_call_id obj field =
    and_then (narrow_string (js_field obj ''call_id'') (field @ ''.call_id'') 128) (\<lambda>c.
      if c = [] then Inl (protocol_fail (field @ ''.call_id'') ''call_id must not be empty'') else Inr c)"

definition normalize_function_call_item :: "(string \<times> json) list \<Rightarrow> string \<Rightarrow> narrow_failure + content_block" where
  "normalize_function_call_item obj field =
    and_then (read_call_id obj field) (\<lambda>call_id.
    and_then (narrow_string (js_field obj ''name'') (field @ ''.name'') MAX_TOOL_NAME_LENGTH) (\<lambda>name.
      if trim name = [] then Inl (protocol_fail (field @ ''.name'') ''function call name must not be empty'')
      else and_then (narrow_string (or_braces (js_field obj ''arguments'')) (field @ ''.arguments'') MAX_TOOL_ARGUMENT_LENGTH)
        (\<lambda>args. Inr (call_block name call_id args))))"

definition normalize_function_call_output_item :: "(string \<times> json) list \<Rightarrow> string \<Rightarrow> narrow_failure + content_block" where
  "normalize_function_call_output_item obj field =
    and_then (read_call_id obj field) (\<lambda>call_id.
    and_then (narrow_string (js_field obj ''output'') (field @ ''.output'') MAX_TEXT_BLOCK_LENGTH) (\<lambda>out.
      Inr (tool_result_block (Some out) call_id)))"

definition normalize_input_image ::
  "codec_env \<Rightarrow> json option \<Rightarrow> string \<Rightarrow> wire_state \<Rightarrow> narrow_failure + image_reference \<times> wire_state" where
  "normalize_input_image cx raw field s =
    push_classified cx (case raw of Some (JObj fs) \<Rightarrow> js_field fs ''url'' | _ \<Rightarrow> raw) field field s"

definition normalize_response_block ::
  "codec_env \<Rightarrow> json \<Rightarrow> string \<Rightarrow> wire_state \<Rightarrow> narrow_failure + content_block \<times> wire_state" where
  "normalize_response_block cx item field s =
    and_then (narrow_object (Some item) field) (\<lambda>obj.
      case js_field obj ''type'' of
        Some (JStr ty) \<Rightarrow>
          if ty = ''input_text'' \<or> ty = ''output_text''
          then and_then (narrow_string (js_field obj ''text'') (field @ ''.text'') MAX_TEXT_BLOCK_LENGTH) (\<lambda>t. Inr (text_block t, s))
          else if ty = ''input_image''
          then and_then (normalize_input_image cx (js_field obj ''image_url'') (field @ ''.image_url'') s) (\<lambda>(r, t). Inr (image_block r, t))
          else if ty = ''function_call'' then and_then (normalize_function_call_item obj field) (\<lambda>b. Inr (b, s))
          else if ty = ''function_call_output'' then and_then (normalize_function_call_output_item obj field) (\<lambda>b. Inr (b, s))
          else if ty = ''refusal'' then Inr (unknown_block None, s)
          else Inr (unknown_block (narrow_text (js_field obj ''text'')), s)
      | _ \<Rightarrow> Inl (protocol_fail (field @ ''.type'') ''content block type must be a string''))"

definition typed_reasoning :: "json \<Rightarrow> bool" where
  "typed_reasoning item = (case item of JObj obj \<Rightarrow> js_field obj ''type'' = Some (JStr ''reasoning'') | _ \<Rightarrow> False)"

definition normalize_response_part ::
  "codec_env \<Rightarrow> string \<Rightarrow> nat \<Rightarrow> json \<Rightarrow> wire_state \<Rightarrow> narrow_failure + content_block list \<times> wire_state" where
  "normalize_response_part cx field i item s =
    (if typed_reasoning item then Inr ([], fst s, True)
     else and_then (normalize_response_block cx item (item_at field i) s) (\<lambda>(b, t). Inr ([b], t)))"

definition normalize_message_content ::
  "codec_env \<Rightarrow> json option \<Rightarrow> string \<Rightarrow> wire_state \<Rightarrow> narrow_failure + content_block list \<times> wire_state" where
  "normalize_message_content cx raw field s =
    (if is_nullish raw then Inr ([], s)
     else and_then (narrow_array raw field MAX_BLOCKS_PER_MESSAGE) (\<lambda>items. each_item (normalize_response_part cx field) 0 items s))"

definition normalize_message_item ::
  "codec_env \<Rightarrow> (string \<times> json) list \<Rightarrow> string \<Rightarrow> wire_state \<Rightarrow> narrow_failure + message list \<times> wire_state" where
  "normalize_message_item cx obj field s =
    and_then (narrow_string (js_field obj ''role'') (field @ ''.role'') 32) (\<lambda>name.
      case find (\<lambda>r. role_name r = name) [RoSystem, RoDeveloper, RoUser, RoAssistant] of
        None \<Rightarrow> Inl (protocol_fail (field @ ''.role'') (''unsupported message role '' @ in_quotes name))
      | Some r \<Rightarrow> and_then (normalize_message_content cx (js_field obj ''content'') (field @ ''.content'') s) (\<lambda>(content, t).
          Inr ([\<lparr>msg_role = r, msg_content = content, msg_reasoning = None\<rparr>], t)))"

definition normalize_input_object ::
  "codec_env \<Rightarrow> (string \<times> json) list \<Rightarrow> string \<Rightarrow> wire_state \<Rightarrow> narrow_failure + message list \<times> wire_state" where
  "normalize_input_object cx obj f s =
    (let ty = js_field obj ''type'' in
     if ty = Some (JStr ''message'') \<or> (ty = None \<and> narrow_text (js_field obj ''role'') \<noteq> None)
     then normalize_message_item cx obj f s
     else case ty of
         Some (JStr n) \<Rightarrow>
           if n = ''function_call''
           then and_then (normalize_function_call_item obj f) (\<lambda>b.
             Inr ([\<lparr>msg_role = RoAssistant, msg_content = [b], msg_reasoning = None\<rparr>], s))
           else if n = ''function_call_output''
           then and_then (normalize_function_call_output_item obj f) (\<lambda>b.
             Inr ([\<lparr>msg_role = RoTool, msg_content = [b], msg_reasoning = None\<rparr>], s))
           else if n = ''reasoning'' then Inr ([], fst s, True)
           else Inl (protocol_fail (f @ ''.type'') (''unsupported input item type '' @ in_quotes n))
       | _ \<Rightarrow> Inl (protocol_fail (f @ ''.type'') ''input item type must be a string''))"

definition normalize_input_item ::
  "codec_env \<Rightarrow> nat \<Rightarrow> json \<Rightarrow> wire_state \<Rightarrow> narrow_failure + message list \<times> wire_state" where
  "normalize_input_item cx i item s =
    (let f = item_at ''input'' i in
     case item of
       JStr t \<Rightarrow> and_then (bounded_text f t) (\<lambda>t. Inr ([user_text RoUser t], s))
     | _ \<Rightarrow> and_then (narrow_object (Some item) f) (\<lambda>obj. normalize_input_object cx obj f s))"

definition normalize_input ::
  "codec_env \<Rightarrow> json option \<Rightarrow> wire_state \<Rightarrow> narrow_failure + message list \<times> wire_state" where
  "normalize_input cx raw s =
    (case raw of
       Some (JStr t) \<Rightarrow> and_then (bounded_text ''input'' t) (\<lambda>t. Inr ([user_text RoUser t], s))
     | _ \<Rightarrow> and_then (narrow_array raw ''input'' MAX_MESSAGE_COUNT) (\<lambda>items. each_item (normalize_input_item cx) 0 items s))"

definition responses_tool_options :: tool_list_options where
  "responses_tool_options = \<lparr>tlo_unwrap_function = False, tlo_schema_field = ''parameters'', tlo_schema_required = False\<rparr>"

definition normalize_responses_body :: "codec_env \<Rightarrow> request_limits \<Rightarrow> json option \<Rightarrow> narrow_failure + normalized_request" where
  "normalize_responses_body cx limits body =
    and_then (narrow_object body ''body'') (\<lambda>top_obj.
    and_then (normalize_model top_obj) (\<lambda>model.
    and_then (normalize_stream (js_field top_obj ''stream'')) (\<lambda>stream.
    and_then (normalize_responses_format (js_field top_obj ''text'')) (\<lambda>format.
    and_then (normalize_reasoning cx (js_field top_obj ''reasoning'')) (\<lambda>(flag, config).
    and_then (optional_tokens cx (js_field top_obj ''max_output_tokens'') ''max_output_tokens'') (\<lambda>max_tokens.
    and_then (normalize_input cx (js_field top_obj ''input'') ([], False)) (\<lambda>(messages, images, seen).
    and_then (normalize_instructions (js_field top_obj ''instructions'')) (\<lambda>instructions.
    and_then (codec_tools cx responses_tool_options (js_field top_obj ''tools'')) (\<lambda>tools.
    and_then (normalize_include (js_field top_obj ''include'')) (\<lambda>inc.
      Inr \<lparr>nr_model = model, nr_messages = instructions @ messages, nr_tools = tools, nr_stream = stream,
        nr_response_format = format, nr_reasoning = (if seen then RmEnabled else flag), nr_reasoning_config = config,
        nr_include = Some inc, nr_max_output_tokens = max_tokens, nr_images = images, nr_image_operation = None,
        nr_source_surface = SfResponses, nr_limits = limits, nr_cache_key = None, nr_metadata_user_id = None\<rparr>))))))))))"

definition normalize_responses_request ::
  "codec_env \<Rightarrow> request_limits \<Rightarrow> bool \<Rightarrow> json option \<Rightarrow> narrow_failure + normalized_request" where
  "normalize_responses_request cx limits aborted body =
    (case aborted_error aborted of Some e \<Rightarrow> Inl e | None \<Rightarrow> normalize_responses_body cx limits body)"

subsection \<open>Accepted requests\<close>

lemma returns_instructions: "returns (\<lambda>ms. images_in ms = [] \<and> length ms \<le> 1 \<and> (\<forall>m \<in> set ms. message_ok cx m)) (normalize_instructions raw)"
proof -
  have one: "Suc 0 \<le> MAX_BLOCKS_PER_MESSAGE" by (simp add: MAX_BLOCKS_PER_MESSAGE_def)
  show ?thesis unfolding normalize_instructions_def
    by (auto simp: user_text_def message_ok_def one intro!: returns_and_then [OF returns_bounded_text] split: option.splits json.splits)
qed

lemma returns_responses_format [returns_rules]: "returns (\<lambda>f. True) (normalize_responses_format raw)"
  unfolding normalize_responses_format_def
  by (auto simp: Let_def intro!: returns_and_then [OF returns_narrow_object] split: option.splits json.splits)

lemma returns_normalize_reasoning [returns_rules]: "returns (\<lambda>(flag, c). config_ok c) (normalize_reasoning cx raw)"
  unfolding normalize_reasoning_def
  by (auto intro!: returns_and_then [OF returns_narrow_object] returns_parse_reasoning_config)

lemma returns_include_items: "distinct items \<Longrightarrow> returns distinct (include_items i vs items)"
  by (induction i vs items rule: include_items.induct) (auto split: json.splits)

lemma returns_include: "returns distinct (normalize_include raw)"
  unfolding normalize_include_def by (auto intro: returns_include_items split: option.splits json.splits)

lemma returns_call_id [returns_rules]: "returns (\<lambda>c. c \<noteq> [] \<and> length c \<le> 128) (read_call_id obj field)"
  unfolding read_call_id_def by (auto intro!: returns_and_then [OF returns_narrow_string])

lemma returns_function_call [returns_rules]: "returns (\<lambda>b. block_ok cx b \<and> cb_image b = None) (normalize_function_call_item obj field)"
  unfolding normalize_function_call_item_def
  by (auto intro!: returns_and_then [OF returns_call_id] returns_and_then [OF returns_narrow_string])

lemma returns_function_call_output [returns_rules]:
  "returns (\<lambda>b. block_ok cx b \<and> cb_image b = None) (normalize_function_call_output_item obj field)"
  unfolding normalize_function_call_output_item_def
  by (auto intro!: returns_and_then [OF returns_call_id] returns_and_then [OF returns_narrow_string])

lemma returns_input_image: "returns (\<lambda>(r, t). state_ok t \<and> fst t = fst s @ [r] \<and> safe_image cx r) (normalize_input_image cx raw field s)"
  unfolding normalize_input_image_def by (rule returns_push_classified)

lemma returns_response_block: "state_ok s \<Longrightarrow>
    returns (\<lambda>(b, t). state_ok t \<and> adds_blocks cx s [b] t) (normalize_response_block cx item field s)"
proof -
  assume ok: "state_ok s"
  let ?P = "\<lambda>(b, t). state_ok t \<and> adds_blocks cx s [b] t"
  have words: "returns ?P (and_then (narrow_string v f MAX_TEXT_BLOCK_LENGTH) (\<lambda>t. Inr (text_block t, s)))" for v f
    by (rule returns_and_then [OF returns_narrow_string]) (simp add: ok)
  have img: "returns ?P (and_then (normalize_input_image cx v f s) (\<lambda>(r, t). Inr (image_block r, t)))" for v f
    by (rule returns_and_then [OF returns_input_image]) auto
  have call: "returns ?P (and_then (normalize_function_call_item obj field) (\<lambda>b. Inr (b, s)))" for obj
    by (rule returns_and_then [OF returns_function_call [where cx = cx]]) (simp add: ok)
  have out: "returns ?P (and_then (normalize_function_call_output_item obj field) (\<lambda>b. Inr (b, s)))" for obj
    by (rule returns_and_then [OF returns_function_call_output [where cx = cx]]) (simp add: ok)
  have other: "adds_blocks cx s [unknown_block u] s" for u by simp
  show ?thesis unfolding normalize_response_block_def
    by (rule returns_and_then [OF returns_narrow_object])
      (auto simp del: adds_blocks_simps simp: words call out img ok other split: option.split json.split)
qed

lemma adds_blocks_seen [simp]: "adds_blocks cx s [] (fst s, b)"
  by (simp add: adds_blocks_def)

lemma adds_messages_seen [simp]: "adds_messages cx s [] (fst s, b)"
  by (simp add: adds_messages_def)

lemma state_ok_seen [simp]: "state_ok (fst s, b) = state_ok s"
  by (simp add: state_ok_def)

lemma returns_response_part: "state_ok s \<Longrightarrow>
    returns (\<lambda>(bs, t). state_ok t \<and> adds_blocks cx s bs t \<and> length bs \<le> 1) (normalize_response_part cx field i item s)"
  unfolding normalize_response_part_def
  by (auto simp del: adds_blocks_simps intro!: returns_and_then [OF returns_response_block])

lemma returns_message_content: "state_ok s \<Longrightarrow>
    returns (\<lambda>(bs, t). state_ok t \<and> adds_blocks cx s bs t \<and> length bs \<le> MAX_BLOCKS_PER_MESSAGE) (normalize_message_content cx raw field s)"
proof -
  assume ok: "state_ok s"
  have loop: "returns (\<lambda>(bs, t). state_ok t \<and> adds_blocks cx s bs t \<and> length bs \<le> MAX_BLOCKS_PER_MESSAGE)
      (each_item (normalize_response_part cx field) 0 items s)" if "length items \<le> MAX_BLOCKS_PER_MESSAGE" for items
    using that by (intro returns_mono [OF returns_blocks_loop [OF returns_response_part ok]]) auto
  show ?thesis using ok unfolding normalize_message_content_def
    by (auto intro!: returns_and_then [OF returns_narrow_array] loop)
qed

lemma returns_message_item: "state_ok s \<Longrightarrow>
    returns (\<lambda>(ms, t). state_ok t \<and> adds_messages cx s ms t \<and> length ms \<le> 1) (normalize_message_item cx obj field s)"
  unfolding normalize_message_item_def
  by (auto simp: adds_blocks_def adds_messages_def message_ok_def intro!: returns_and_then [OF returns_narrow_string]
      returns_and_then [OF returns_message_content] split: option.splits)

lemma adds_user_text: "length t \<le> MAX_TEXT_BLOCK_LENGTH \<Longrightarrow> adds_messages cx s [user_text r t] s"
  by (simp add: adds_messages_def message_ok_def user_text_def MAX_BLOCKS_PER_MESSAGE_def)

lemma adds_one_block: "block_ok cx b \<Longrightarrow> cb_image b = None \<Longrightarrow>
    adds_messages cx s [\<lparr>msg_role = r, msg_content = [b], msg_reasoning = None\<rparr>] s"
  by (simp add: adds_messages_def message_ok_def MAX_BLOCKS_PER_MESSAGE_def)

lemma returns_input_item: "state_ok s \<Longrightarrow>
    returns (\<lambda>(ms, t). state_ok t \<and> adds_messages cx s ms t \<and> length ms \<le> 1) (normalize_input_item cx i item s)"
proof -
  assume ok: "state_ok s"
  let ?P = "\<lambda>(ms, t). state_ok t \<and> adds_messages cx s ms t \<and> length ms \<le> 1"
  have words: "returns ?P (and_then (bounded_text f t) (\<lambda>t. Inr ([user_text RoUser t], s)))" for f t
    by (rule returns_and_then [OF returns_bounded_text]) (simp add: ok adds_user_text)
  have call: "returns ?P (and_then (normalize_function_call_item obj f)
      (\<lambda>b. Inr ([\<lparr>msg_role = RoAssistant, msg_content = [b], msg_reasoning = None\<rparr>], s)))" for obj f
    by (rule returns_and_then [OF returns_function_call [where cx = cx]]) (simp add: ok adds_one_block)
  have out: "returns ?P (and_then (normalize_function_call_output_item obj f)
      (\<lambda>b. Inr ([\<lparr>msg_role = RoTool, msg_content = [b], msg_reasoning = None\<rparr>], s)))" for obj f
    by (rule returns_and_then [OF returns_function_call_output [where cx = cx]]) (simp add: ok adds_one_block)
  have item: "returns ?P (normalize_message_item cx obj f s)" for obj f using returns_message_item [OF ok] .
  have kinds: "returns ?P (normalize_input_object cx obj f s)" for obj f
  proof (cases "js_field obj ''type'' = Some (JStr ''message'') \<or> (js_field obj ''type'' = None \<and> narrow_text (js_field obj ''role'') \<noteq> None)")
    case True
    show ?thesis unfolding normalize_input_object_def Let_def if_P [OF True] by (rule item)
  next
    case False
    show ?thesis unfolding normalize_input_object_def Let_def if_not_P [OF False]
      using call [of obj f] out [of obj f] ok
      by (cases "js_field obj ''type''"; simp; cases "the (js_field obj ''type'')"; simp)
  qed
  have object: "returns ?P (and_then (narrow_object v f) (\<lambda>obj. normalize_input_object cx obj f s))" for v f
    by (rule returns_and_then [OF returns_narrow_object], rule kinds)
  show ?thesis unfolding normalize_input_item_def Let_def using words object by (cases item) simp_all
qed

lemma returns_input: "state_ok s \<Longrightarrow>
    returns (\<lambda>(ms, t). state_ok t \<and> adds_messages cx s ms t \<and> length ms \<le> MAX_MESSAGE_COUNT) (normalize_input cx raw s)"
proof -
  assume ok: "state_ok s"
  have loop: "returns (\<lambda>(ms, t). state_ok t \<and> adds_messages cx s ms t \<and> length ms \<le> MAX_MESSAGE_COUNT)
      (each_item (normalize_input_item cx) 0 items s)" if "length items \<le> MAX_MESSAGE_COUNT" for items
    using that by (intro returns_mono [OF returns_messages_loop [OF returns_input_item ok]]) auto
  have one: "Suc 0 \<le> MAX_MESSAGE_COUNT" by (simp add: MAX_MESSAGE_COUNT_def)
  show ?thesis using ok one unfolding normalize_input_def
    by (auto intro!: returns_and_then [OF returns_bounded_text] returns_and_then [OF returns_narrow_array] loop adds_user_text
        split: option.splits json.splits)
qed

lemma returns_responses_body:
  "returns (\<lambda>r. request_ok cx r \<and> nr_source_surface r = SfResponses \<and> nr_limits r = limits) (normalize_responses_body cx limits body)"
  unfolding normalize_responses_body_def
  by (auto simp: request_ok_def adds_messages_def state_ok_def config_ok_def
      intro!: returns_and_then [OF returns_narrow_object] returns_and_then [OF returns_normalize_model]
        returns_and_then [OF returns_normalize_stream] returns_and_then [OF returns_responses_format]
        returns_and_then [OF returns_normalize_reasoning] returns_and_then [OF returns_optional_tokens]
        returns_and_then [OF returns_input [OF state_ok_start]] returns_and_then [OF returns_instructions [where cx = cx]]
        returns_and_then [OF returns_codec_tools] returns_and_then [OF returns_include])

subsection \<open>The upstream payload\<close>

definition responses_user_part :: "content_block \<Rightarrow> codec_error + json list" where
  "responses_user_part b = (case cb_type b of
      BtText \<Rightarrow> Inr [JObj [(''type'', JStr ''input_text''), (''text'', JStr (or_empty (cb_text b)))]]
    | BtImage \<Rightarrow> and_then (to_openai_image_url (cb_image b)) (\<lambda>url.
        Inr [JObj [(''type'', JStr ''input_image''), (''image_url'', JStr url)]])
    | _ \<Rightarrow> Inr [])"

definition responses_call :: "content_block \<Rightarrow> json" where
  "responses_call b =
    (let name = or_empty (cb_tool_name b) in
     JObj [(''type'', JStr ''function_call''),
           (''call_id'', JStr (case cb_tool_call_id b of Some c \<Rightarrow> c | None \<Rightarrow> ''call_'' @ name)),
           (''name'', JStr name), (''arguments'', JStr (tool_arguments b))])"

definition role_item :: "string \<Rightarrow> json \<Rightarrow> json" where
  "role_item r content = JObj [(''role'', JStr r), (''content'', content)]"

definition to_responses_item :: "message \<Rightarrow> codec_error + json list" where
  "to_responses_item m = (case msg_role m of
      RoSystem \<Rightarrow> Inr [role_item (role_name (msg_role m)) (JStr (message_text m))]
    | RoDeveloper \<Rightarrow> Inr [role_item (role_name (msg_role m)) (JStr (message_text m))]
    | RoUser \<Rightarrow>
        if \<not> has_image m then Inr [role_item ''user'' (JStr (message_text m))]
        else and_then (flat_map_ok responses_user_part (msg_content m)) (\<lambda>bs. Inr [role_item ''user'' (JArr bs)])
    | RoAssistant \<Rightarrow>
        (let t = message_text m; calls = tool_uses m in
         Inr ((if 0 < length t \<or> calls = []
               then [role_item ''assistant'' (JArr [JObj [(''type'', JStr ''output_text''), (''text'', JStr t)]])]
               else []) @ map responses_call calls))
    | RoTool \<Rightarrow>
        Inr [role_item ''user'' (JArr [JObj [(''type'', JStr ''function_call_output''),
          (''call_id'', JStr (or_empty (Option.bind (first_block m) cb_tool_call_id))),
          (''output'', JStr (or_empty (Option.bind (first_block m) cb_text)))]])])"

definition build_reasoning_wire :: "reasoning_mode \<Rightarrow> reasoning_config option \<Rightarrow> json" where
  "build_reasoning_wire flag config =
    (case config of
       Some c \<Rightarrow>
         (let wire = opt_json ''effort'' (map_option (\<lambda>e. JStr (effort_name e)) (rcf_effort c)) @ reasoning_fields c
          in JObj (if 0 < length wire then wire else [(''effort'', JStr ''medium'')]))
     | None \<Rightarrow> JObj (if flag = RmEnabled then [(''effort'', JStr ''medium'')] else [(''enabled'', JBool False)]))"

definition responses_tool :: "tool \<Rightarrow> json" where
  "responses_tool t = JObj ([(''type'', JStr ''function''), (''name'', JStr (tl_name t))] @
     opt_json ''description'' (map_option JStr (tl_description t)) @ [(''parameters'', JObj (tl_schema t))])"

definition build_responses_payload :: "normalized_request \<Rightarrow> codec_error + json" where
  "build_responses_payload r =
    and_then (flat_map_ok to_responses_item (nr_messages r)) (\<lambda>items.
      Inr (JObj ([(''model'', JStr (nr_model r)), (''stream'', JBool (nr_stream r)), (''input'', JArr items)] @
        when_json (nr_tools r \<noteq> []) ''tools'' (JArr (map responses_tool (nr_tools r))) @
        opt_json ''max_output_tokens'' (map_option token_json (nr_max_output_tokens r)) @
        opt_json ''prompt_cache_key'' (map_option JStr (nr_cache_key r)) @
        when_json (nr_response_format r \<noteq> RfText) ''text'' (JObj [(''format'', JObj [(''type'', JStr ''json_object'')])]) @
        when_json (nr_reasoning r = RmEnabled \<or> nr_reasoning_config r \<noteq> None) ''reasoning''
          (build_reasoning_wire (nr_reasoning r) (nr_reasoning_config r)) @
        (case nr_include r of
           Some inc \<Rightarrow> when_json (0 < length inc) ''include'' (JArr (map JStr inc))
         | None \<Rightarrow> []))))"

subsection \<open>What a payload keeps\<close>

text \<open>The function calls among the items of a payload.\<close>

definition is_call_item :: "json \<Rightarrow> bool" where
  "is_call_item v = (case v of JObj fs \<Rightarrow> js_field fs ''type'' = Some (JStr ''function_call'') | _ \<Rightarrow> False)"

definition assistant_calls :: "message list \<Rightarrow> content_block list" where
  "assistant_calls ms = concat (map (\<lambda>m. if msg_role m = RoAssistant then tool_uses m else []) ms)"

lemma is_call_item_simps [simp]: "is_call_item (responses_call b)" "\<not> is_call_item (role_item r v)"
  by (simp_all add: is_call_item_def responses_call_def role_item_def Let_def)

lemma call_items_written [simp]: "filter is_call_item (map responses_call bs) = map responses_call bs"
  by (induction bs) simp_all

lemma item_calls_kept:
  assumes "to_responses_item m = Inr vs"
  shows "filter is_call_item vs = map responses_call (if msg_role m = RoAssistant then tool_uses m else [])"
  using assms by (cases "msg_role m") (auto simp: to_responses_item_def Let_def and_then_eq_Inr split: if_splits)

lemma items_calls_kept:
  "flat_map_ok to_responses_item ms = Inr items \<Longrightarrow> filter is_call_item items = map responses_call (assistant_calls ms)"
proof (induction ms arbitrary: items)
  case (Cons m ms)
  from Cons.prems obtain vs us where vs: "to_responses_item m = Inr vs" and us: "flat_map_ok to_responses_item ms = Inr us" and "items = vs @ us"
    by (auto simp: flat_map_ok_def and_then_eq_Inr)
  then show ?case using Cons.IH [OF us] item_calls_kept [OF vs] by (simp add: assistant_calls_def)
qed (simp add: flat_map_ok_def assistant_calls_def)

lemma read_call_item:
  assumes "block_ok cx b" and "\<exists>n c a. b = call_block n c a"
  shows "normalize_input_item cx i (responses_call b) s = Inr ([\<lparr>msg_role = RoAssistant, msg_content = [b], msg_reasoning = None\<rparr>], s)"
  using assms
  by (auto simp: responses_call_def normalize_input_item_def normalize_input_object_def normalize_function_call_item_def
      read_call_id_def narrow_written or_empty_def tool_arguments_def or_braces_def is_nullish_def narrow_text_def Let_def)

lemma read_call_items:
  assumes "\<forall>b \<in> set bs. block_ok cx b \<and> (\<exists>n c a. b = call_block n c a)"
  shows "each_item (normalize_input_item cx) i (map responses_call bs) s =
    Inr (map (\<lambda>b. \<lparr>msg_role = RoAssistant, msg_content = [b], msg_reasoning = None\<rparr>) bs, s)"
  using assms by (induction bs arbitrary: i) (simp_all add: read_call_item)

text \<open>
  C12: The input of a Responses payload has every tool call of the conversation's assistant messages once
  and in order, and nothing else as a call: the normalizer, given these items, reads back the very calls,
  with id, name and arguments, each as an assistant message of its own. The calls are those a normalizer
  accepts (with a name and an id, within the limits); tool calls in a message of another role, which the
  Messages surface lets a user write, are not sent.
\<close>

theorem responses_payload_keeps_calls:
  assumes "build_responses_payload r = Inr payload"
    and "\<forall>m \<in> set (nr_messages r). \<forall>b \<in> set (tool_uses m). block_ok cx b \<and> (\<exists>n c a. b = call_block n c a)"
  shows "\<exists>fs items. payload = JObj fs \<and> js_field fs ''input'' = Some (JArr items) \<and>
    each_item (normalize_input_item cx) i (filter is_call_item items) s =
      Inr (map (\<lambda>b. \<lparr>msg_role = RoAssistant, msg_content = [b], msg_reasoning = None\<rparr>)
        (concat (map tool_uses (filter (\<lambda>m. msg_role m = RoAssistant) (nr_messages r)))), s)"
proof -
  obtain items fs where items: "flat_map_ok to_responses_item (nr_messages r) = Inr items"
    and payload: "payload = JObj fs" "js_field fs ''input'' = Some (JArr items)"
    using assms(1) by (auto simp: build_responses_payload_def and_then_eq_Inr)
  have calls: "assistant_calls ms = concat (map tool_uses (filter (\<lambda>m. msg_role m = RoAssistant) ms))" for ms
    by (induction ms) (simp_all add: assistant_calls_def)
  have "each_item (normalize_input_item cx) i (map responses_call (assistant_calls (nr_messages r))) s =
      Inr (map (\<lambda>b. \<lparr>msg_role = RoAssistant, msg_content = [b], msg_reasoning = None\<rparr>) (assistant_calls (nr_messages r)), s)"
    by (rule read_call_items) (use assms(2) in \<open>auto simp: assistant_calls_def split: if_splits\<close>)
  then show ?thesis using payload items_calls_kept [OF items] calls by auto
qed

theorem responses_payload_keeps_calls_witness:
  "\<exists>fs items ms. build_responses_payload sample_chat_request = Inr (JObj fs) \<and> js_field fs ''input'' = Some (JArr items) \<and>
     each_item (normalize_input_item plain_env) 0 (filter is_call_item items) ([], False) = Inr (ms, [], False) \<and>
     map msg_content ms = [[call_block ''f'' ''c'' ''{}'']]"
proof -
  have none: "tool_uses \<lparr>msg_role = ro, msg_content = [text_block t], msg_reasoning = x\<rparr> = []" for ro t x by (simp add: tool_uses_def)
  have tools: "tool_uses \<lparr>msg_role = RoAssistant, msg_content = [call_block ''f'' ''c'' ''{}''], msg_reasoning = Some ''why''\<rparr> =
      [call_block ''f'' ''c'' ''{}'']" by (simp add: tool_uses_def)
  have call: "block_ok plain_env (call_block ''f'' ''c'' ''{}'')"
    by (simp add: MAX_TOOL_NAME_LENGTH_def MAX_TOOL_ARGUMENT_LENGTH_def) code_simp
  obtain payload where payload: "build_responses_payload sample_chat_request = Inr payload"
    by (simp add: sample_chat_request_def build_responses_payload_def flat_map_ok_def to_responses_item_def has_image_def Let_def)
  have "\<forall>m \<in> set (nr_messages sample_chat_request). \<forall>b \<in> set (tool_uses m). block_ok plain_env b \<and> (\<exists>n c a. b = call_block n c a)"
    using call by (auto simp: sample_chat_request_def tool_uses_def simp del: block_ok_simps)
  from responses_payload_keeps_calls [OF payload this, of 0 "([], False)"] show ?thesis
    using payload by (fastforce simp: sample_chat_request_def tools tool_uses_def)
qed

subsection \<open>What a payload loses\<close>

text \<open>A message whose content is a string, as the payload writer makes it, is not read.\<close>

lemma string_content_rejected:
  "normalize_message_item cx [(''role'', JStr ''user''), (''content'', JStr t)] field s =
     Inl (protocol_fail (field @ ''.content'') (field @ ''.content: expected an array''))"
  by (simp add: normalize_message_item_def narrow_written role_name_def normalize_message_content_def is_nullish_def narrow_array_def)

text \<open>The answer of a tool is written as a part of a user message, and read back as one.\<close>

lemma tool_answer_changes_role:
  assumes "c \<noteq> []" "length c \<le> 128" "length t \<le> MAX_TEXT_BLOCK_LENGTH"
  shows "to_responses_item \<lparr>msg_role = RoTool, msg_content = [tool_result_block (Some t) c], msg_reasoning = None\<rparr> =
      Inr [role_item ''user'' (JArr [JObj [(''type'', JStr ''function_call_output''), (''call_id'', JStr c), (''output'', JStr t)]])]"
    and "normalize_input_item cx i (role_item ''user'' (JArr [JObj [(''type'', JStr ''function_call_output''), (''call_id'', JStr c), (''output'', JStr t)]])) s =
      Inr ([\<lparr>msg_role = RoUser, msg_content = [tool_result_block (Some t) c], msg_reasoning = None\<rparr>], s)"
  using assms by (simp_all add: to_responses_item_def first_block_def or_empty_def role_item_def normalize_input_item_def narrow_written
      normalize_input_object_def narrow_text_def normalize_message_item_def role_name_def normalize_message_content_def is_nullish_def
      MAX_BLOCKS_PER_MESSAGE_def normalize_response_part_def typed_reasoning_def normalize_response_block_def
      normalize_function_call_output_item_def read_call_id_def Let_def)

text \<open>The results that a user message of the Messages surface carries are not sent.\<close>

lemma user_results_vanish:
  "to_responses_item \<lparr>msg_role = RoUser, msg_content = [tool_result_block (Some t) c], msg_reasoning = None\<rparr> =
     Inr [role_item ''user'' (JStr [])]"
  by (simp add: to_responses_item_def has_image_def message_text_def)

text \<open>A text part of type \<open>text\<close> is not taken for text.\<close>

lemma text_type_unknown:
  "normalize_response_block cx (JObj [(''type'', JStr ''text''), (''text'', JStr t)]) field s = Inr (unknown_block (Some t), s)"
  by (simp add: normalize_response_block_def narrow_written narrow_text_def)

end
