(* ===== verification/Surfaces.thy ===== *)
theory Surfaces imports ChatCodec MessagesCodec ResponsesCodec begin

text \<open>
  The client surfaces (\<open>src/domain/protocols/surface.ts\<close>, \<open>images.ts\<close>, \<open>body.ts\<close>): which endpoint a
  path is, the dispatch of a body to the normalizer of its endpoint, the normalizer of image requests
  and the bounded reader of JSON bodies. Whatever the endpoint, a request that is let in is within the
  bounds of \<open>Codec\<close>, and a rejection blames the request.
\<close>

subsection \<open>Image requests\<close>

definition image_inputs :: "(string \<times> json) list \<Rightarrow> json list" where
  "image_inputs top_obj =
    (case (if is_nullish (js_field top_obj ''images'') then js_field top_obj ''image'' else js_field top_obj ''images'') of
       None \<Rightarrow> []
     | Some (JArr vs) \<Rightarrow> vs
     | Some v \<Rightarrow> [v])"

definition normalize_image_input ::
  "codec_env \<Rightarrow> nat \<Rightarrow> json \<Rightarrow> wire_state \<Rightarrow> narrow_failure + image_reference list \<times> wire_state" where
  "normalize_image_input cx i v s =
    (let f = item_at ''image'' i in and_then (push_classified cx (Some v) f f s) (\<lambda>(r, t). Inr ([r], t)))"

definition normalize_image_inputs ::
  "codec_env \<Rightarrow> image_operation \<Rightarrow> (string \<times> json) list \<Rightarrow> narrow_failure + image_reference list" where
  "normalize_image_inputs cx op top_obj =
    (if op = IoGenerate then Inr []
     else let inputs = image_inputs top_obj in
       if inputs = [] then Inl (protocol_fail ''image'' ''image: at least one input image is required'')
       else and_then (narrow_array (Some (JArr inputs)) ''image'' MAX_IMAGE_COUNT) (\<lambda>items.
         and_then (each_item (normalize_image_input cx) 0 items ([], False)) (\<lambda>(_, t). Inr (fst t))))"

definition normalize_prompt :: "(string \<times> json) list \<Rightarrow> narrow_failure + string" where
  "normalize_prompt top_obj =
    and_then (narrow_string (js_field top_obj ''prompt'') ''prompt'' MAX_TEXT_BLOCK_LENGTH) (\<lambda>prompt.
      if trim prompt = [] then Inl (protocol_fail ''prompt'' ''prompt: must not be empty'') else Inr prompt)"

definition normalize_image_request ::
  "codec_env \<Rightarrow> request_limits \<Rightarrow> bool \<Rightarrow> image_operation \<Rightarrow> json option \<Rightarrow> narrow_failure + normalized_request" where
  "normalize_image_request cx limits aborted op body =
    (if aborted then Inl (protocol_fail ''request'' ''request was aborted'')
     else and_then (narrow_object body ''body'') (\<lambda>top_obj.
      and_then (normalize_model top_obj) (\<lambda>model.
      and_then (normalize_prompt top_obj) (\<lambda>prompt.
      and_then (normalize_image_inputs cx op top_obj) (\<lambda>images.
        Inr \<lparr>nr_model = model,
          nr_messages = [\<lparr>msg_role = RoUser, msg_content = text_block prompt # map image_block images, msg_reasoning = None\<rparr>],
          nr_tools = [], nr_stream = False, nr_response_format = RfText, nr_reasoning = RmDefault,
          nr_reasoning_config = None, nr_include = None, nr_max_output_tokens = None, nr_images = images,
          nr_image_operation = Some op, nr_source_surface = SfImages, nr_limits = limits, nr_cache_key = None,
          nr_metadata_user_id = None\<rparr>)))))"

subsection \<open>Endpoints\<close>

definition lookup_proxy_endpoint :: "string \<Rightarrow> (endpoint \<times> surface) option" where
  "lookup_proxy_endpoint path =
    (if path = ''/v1/chat/completions'' then Some (EpChat, SfChat)
     else if path = ''/v1/messages'' then Some (EpMessages, SfMessages)
     else if path = ''/v1/responses'' then Some (EpResponses, SfResponses)
     else if path = ''/v1/images/generations'' then Some (EpImageGen, SfImages)
     else if path = ''/v1/images/edits'' then Some (EpImageEdit, SfImages)
     else None)"

definition detect_surface :: "endpoint \<Rightarrow> surface option" where
  "detect_surface e = (case e of
      EpChat \<Rightarrow> Some SfChat | EpMessages \<Rightarrow> Some SfMessages | EpResponses \<Rightarrow> Some SfResponses
    | EpImageGen \<Rightarrow> Some SfImages | EpImageEdit \<Rightarrow> Some SfImages | EpModels \<Rightarrow> None)"

definition normalize_request ::
  "codec_env \<Rightarrow> request_limits \<Rightarrow> bool \<Rightarrow> endpoint \<Rightarrow> json option \<Rightarrow> narrow_failure + normalized_request" where
  "normalize_request cx limits aborted e body = (case e of
      EpChat \<Rightarrow> normalize_chat_request cx limits aborted body
    | EpMessages \<Rightarrow> normalize_messages_request cx limits aborted body
    | EpResponses \<Rightarrow> normalize_responses_request cx limits aborted body
    | EpImageGen \<Rightarrow> normalize_image_request cx limits aborted IoGenerate body
    | EpImageEdit \<Rightarrow> normalize_image_request cx limits aborted IoEdit body
    | EpModels \<Rightarrow> Inl (protocol_fail ''endpoint'' ''model listing has no request body to normalize''))"

subsection \<open>The bounded reader of a body\<close>

datatype body_chunk = ReadChunk string | ReadDone | ReadFails

datatype body_result = BodyValue json | BodyTooLarge | BodyInvalid

text \<open>
  The body is a stream of byte chunks, which need not end. With a declared length the chunks go into a
  buffer of that length, and one that does not fit throws.
\<close>

partial_function (option) read_chunks ::
  "(nat \<Rightarrow> body_chunk) \<Rightarrow> nat \<Rightarrow> nat option \<Rightarrow> nat \<Rightarrow> string \<Rightarrow> (body_result + string) option" where
  "read_chunks src max_bytes expected i acc =
    (case src i of
       ReadDone \<Rightarrow> Some (Inr acc)
     | ReadFails \<Rightarrow> Some (Inl BodyInvalid)
     | ReadChunk bs \<Rightarrow>
         if max_bytes < length (acc @ bs) then Some (Inl BodyTooLarge)
         else if (case expected of Some n \<Rightarrow> n < length (acc @ bs) | None \<Rightarrow> False) then Some (Inl BodyInvalid)
         else read_chunks src max_bytes expected (Suc i) (acc @ bs))"

definition expected_bytes :: "js_num option \<Rightarrow> nat option" where
  "expected_bytes content_length = (case content_length of
      Some (Num q) \<Rightarrow> if is_integer_rat q \<and> 0 \<le> q then Some (nat \<lfloor>q\<rfloor>) else None
    | _ \<Rightarrow> None)"

text \<open>\<open>content_length\<close> is \<open>Number\<close> of the header, \<open>decode\<close> the fatal UTF-8 decoder.\<close>

definition read_bounded_json ::
  "(string \<Rightarrow> string option) \<Rightarrow> nat \<Rightarrow> js_num option \<Rightarrow> (nat \<Rightarrow> body_chunk) option \<Rightarrow> body_result option" where
  "read_bounded_json decode max_bytes content_length body =
    (if (case content_length of Some (Num q) \<Rightarrow> of_nat max_bytes < q | _ \<Rightarrow> False) then Some BodyTooLarge
     else case body of
       None \<Rightarrow> Some BodyInvalid
     | Some src \<Rightarrow> map_option
         (\<lambda>r. case r of
            Inl failed \<Rightarrow> failed
          | Inr bytes \<Rightarrow> (case Option.bind (decode bytes) json_parse of Some v \<Rightarrow> BodyValue v | None \<Rightarrow> BodyInvalid))
         (read_chunks src max_bytes (expected_bytes content_length) 0 []))"

subsection \<open>What is let in, and what is not\<close>

lemma returns_prompt: "returns (\<lambda>p. length p \<le> MAX_TEXT_BLOCK_LENGTH) (normalize_prompt top_obj)"
  unfolding normalize_prompt_def by (auto intro!: returns_and_then [OF returns_narrow_string])

lemma returns_image_input: "state_ok s \<Longrightarrow>
    returns (\<lambda>(rs, t). state_ok t \<and> (fst t = fst s @ rs \<and> (\<forall>r \<in> set rs. safe_image cx r)) \<and> length rs \<le> 1) (normalize_image_input cx i v s)"
  unfolding normalize_image_input_def Let_def by (auto intro!: returns_and_then [OF returns_push_classified])

lemma returns_image_inputs: "returns (\<lambda>rs. length rs \<le> MAX_IMAGE_COUNT \<and> (\<forall>r \<in> set rs. safe_image cx r)) (normalize_image_inputs cx op top_obj)"
proof -
  have loop: "returns (\<lambda>(rs, t). state_ok t \<and> (fst t = fst s @ rs \<and> (\<forall>r \<in> set rs. safe_image cx r)) \<and> length rs \<le> 1 * length items)
      (each_item (normalize_image_input cx) 0 items s)" if "state_ok s" for items s
    by (rule returns_each_item [where I = state_ok and R = "\<lambda>s rs t. fst t = fst s @ rs \<and> (\<forall>r \<in> set rs. safe_image cx r)"])
      (use that returns_image_input in auto)
  show ?thesis unfolding normalize_image_inputs_def Let_def
    by (auto simp: state_ok_def intro!: returns_and_then [OF returns_narrow_array] returns_and_then [OF loop [OF state_ok_start]])
qed

lemma images_of_image_blocks [simp]: "images_of (map image_block rs) = rs"
  by (induction rs) auto

lemma returns_image_request: "returns (\<lambda>r. request_ok cx r \<and> nr_source_surface r = SfImages \<and> nr_limits r = limits \<and> \<not> aborted)
    (normalize_image_request cx limits aborted op body)"
proof -
  have size: "n \<le> MAX_IMAGE_COUNT \<Longrightarrow> Suc n \<le> MAX_BLOCKS_PER_MESSAGE * MAX_BLOCKS_PER_MESSAGE" for n
    by (simp add: MAX_IMAGE_COUNT_def MAX_BLOCKS_PER_MESSAGE_def)
  show ?thesis unfolding normalize_image_request_def
    by (auto simp: request_ok_def message_ok_def token_bound_def size
        intro!: returns_and_then [OF returns_narrow_object] returns_and_then [OF returns_normalize_model]
          returns_and_then [OF returns_prompt] returns_and_then [OF returns_image_inputs])
qed

text \<open>The failure of a request that the client abandoned, which image requests report as an invalid one.\<close>

definition abandoned :: "bool \<Rightarrow> narrow_failure \<Rightarrow> bool" where
  "abandoned aborted e \<longleftrightarrow> aborted \<and> (\<exists>p. e = Failed p \<and> pre_kind p = ClientAborted \<and> pre_status p = 499)"

definition dispatched :: "codec_env \<Rightarrow> request_limits \<Rightarrow> bool \<Rightarrow> surface option \<Rightarrow> narrow_failure + normalized_request \<Rightarrow> bool" where
  "dispatched cx limits aborted sf m = (case m of
      Inl err \<Rightarrow> abandoned aborted err \<or> blames_request err
    | Inr r \<Rightarrow> request_ok cx r \<and> sf = Some (nr_source_surface r) \<and> nr_limits r = limits \<and> \<not> aborted)"

lemma dispatched_text:
  assumes "returns (\<lambda>r. request_ok cx r \<and> nr_source_surface r = sf \<and> nr_limits r = limits) m"
  shows "dispatched cx limits aborted (Some sf) (case aborted_error aborted of Some err \<Rightarrow> Inl err | None \<Rightarrow> m)"
  using assms by (cases aborted; cases m) (auto simp: dispatched_def aborted_error_def abandoned_def application_error_def)

lemma dispatched_image: "dispatched cx limits aborted (Some SfImages) (normalize_image_request cx limits aborted op body)"
  using returns_image_request [of cx limits aborted op body]
  by (cases "normalize_image_request cx limits aborted op body") (auto simp: dispatched_def)

lemma normalize_request_dispatched:
  "dispatched cx limits aborted (detect_surface e) (normalize_request cx limits aborted e body)"
  by (cases e) (simp_all add: normalize_request_def detect_surface_def normalize_chat_request_def normalize_messages_request_def
      normalize_responses_request_def dispatched_image dispatched_text [OF returns_chat_body] dispatched_text [OF returns_messages_body]
      dispatched_text [OF returns_responses_body], simp add: dispatched_def)

lemma chat_call_count:
  assumes "normalize_request cx limits aborted e (Some body) = Inr r" and "nr_source_surface r = SfChat"
  shows "\<forall>m \<in> set (nr_messages r). call_count m \<le> MAX_TOOL_CALLS_PER_MESSAGE"
proof -
  have e: "detect_surface e = Some SfChat"
    using normalize_request_dispatched [of cx limits aborted e "Some body"] assms by (simp add: dispatched_def)
  then have "normalize_chat_body cx limits (Some body) = Inr r"
    using assms(1) by (cases e) (auto simp: normalize_request_def normalize_chat_request_def detect_surface_def split: option.splits)
  then show ?thesis using returns_InrD [OF returns_chat_call_count] by blast
qed

text \<open>
  C7: A body that is let in, on any endpoint, becomes a request within these bounds: a model name that is
  not blank, the numbers of messages, blocks, tools and images, the tool declarations, the output and
  reasoning tokens, the names, ids and arguments of tool calls, the text of text blocks; on the Chat
  surface, the only one with such a limit, at most 64 tool calls in a message. Every image is safe to pass
  on and the images are those of the messages in their order. Not bounded (other than by the size of the
  body) are the text of a block of an unknown type, the text of a tool result, which may come from such a
  block, and reasoning text; the blocks of a message may be the square of the limit, as a tool result is a
  list of blocks itself.
\<close>

theorem accepted_request_bounded:
  assumes "normalize_request cx limits aborted e (Some body) = Inr r"
  shows "request_ok cx r \<and> detect_surface e = Some (nr_source_surface r) \<and> nr_limits r = limits \<and> \<not> aborted \<and>
    (nr_source_surface r = SfChat \<longrightarrow> (\<forall>m \<in> set (nr_messages r). call_count m \<le> MAX_TOOL_CALLS_PER_MESSAGE))"
  using normalize_request_dispatched [of cx limits aborted e "Some body"] chat_call_count [OF assms] assms by (simp add: dispatched_def)

text \<open>
  C8: A request that is not let in is the client's fault: the failure is an invalid request with status 400, or the
  client abandoned the request, or the client wrote the failure itself.
\<close>

theorem rejected_request_blames_client:
  assumes "normalize_request cx limits aborted e body = Inl err"
  shows "case err of
      Failed p \<Rightarrow> pre_kind p = InvalidRequest \<and> pre_status p = 400 \<or> aborted \<and> pre_kind p = ClientAborted \<and> pre_status p = 499
    | Forged fs \<Rightarrow> is_protocol_error fs"
  using normalize_request_dispatched [of cx limits aborted e body] assms by (cases err) (auto simp: dispatched_def abandoned_def)

definition sample_edit :: json where
  "sample_edit = JObj [(''model'', JStr ''m''), (''prompt'', JStr ''p''), (''image'', JArr [JStr ''data:,A''])]"

lemma sample_edit_accepted: "\<exists>r. normalize_request plain_env plain_limits False EpImageEdit (Some sample_edit) = Inr r \<and>
    nr_images r = [\<lparr>im_kind = IkData, im_value = ''data:,A'', im_media_type = None\<rparr>]"
proof -
  have "trim ''data:,A'' = ''data:,A''" by code_simp
  moreover have "to_lower (take 5 ''data:,A'') = ''data:''" by code_simp
  moreover have "classify_data_url ''data:,A'' f = Inr \<lparr>im_kind = IkData, im_value = ''data:,A'', im_media_type = None\<rparr>" for f
    by (simp add: classify_data_url_def parse_media_type_def MAX_DATA_URL_LENGTH_def Let_def)
  ultimately have image: "classify_image_reference parse (Some (JStr ''data:,A'')) f = Inr \<lparr>im_kind = IkData, im_value = ''data:,A'', im_media_type = None\<rparr>" for parse f
    by (simp add: classify_image_reference_def Let_def)
  have "trim ''m'' = ''m''" "trim ''p'' = ''p''" by code_simp+
  then show ?thesis
    by (simp add: normalize_request_def normalize_image_request_def sample_edit_def narrow_written normalize_model_def normalize_prompt_def
        normalize_image_inputs_def image_inputs_def is_nullish_def normalize_image_input_def push_classified_def image push_image_def
        push_image_reference_def MAX_MODEL_LENGTH_def MAX_TEXT_BLOCK_LENGTH_def MAX_IMAGE_COUNT_def Let_def)
qed

theorem accepted_request_bounded_witness:
  "\<exists>r. normalize_request plain_env plain_limits False EpImageEdit (Some sample_edit) = Inr r \<and> nr_images r \<noteq> [] \<and>
    request_ok plain_env r \<and> nr_source_surface r = SfImages"
proof -
  obtain r where r: "normalize_request plain_env plain_limits False EpImageEdit (Some sample_edit) = Inr r" "nr_images r \<noteq> []"
    using sample_edit_accepted by fastforce
  show ?thesis using accepted_request_bounded [OF r(1)] r by (auto simp: detect_surface_def)
qed

theorem rejected_request_blames_client_witness:
  "\<exists>p. normalize_request plain_env plain_limits False EpChat None = Inl (Failed p) \<and> pre_kind p = InvalidRequest \<and> pre_status p = 400"
proof -
  obtain p where p: "normalize_request plain_env plain_limits False EpChat None = Inl (Failed p)"
    by (simp add: normalize_request_def normalize_chat_request_def aborted_error_def normalize_chat_body_def narrow_object_def protocol_fail_def)
  show ?thesis using rejected_request_blames_client [OF p] p by simp
qed

text \<open>A path that is routed leads to the normalizer of its surface.\<close>

lemma looked_up_surface: "lookup_proxy_endpoint path = Some (e, sf) \<Longrightarrow> detect_surface e = Some sf"
  by (auto simp: lookup_proxy_endpoint_def detect_surface_def split: if_splits)

text \<open>An abandoned image request is reported as an invalid one, the others with status 499.\<close>

lemma abandoned_image_request_is_invalid:
  "normalize_request cx limits True EpImageGen body = Inl (protocol_fail ''request'' ''request was aborted'')"
  by (simp add: normalize_request_def normalize_image_request_def)

subsection \<open>The reader of a body\<close>

definition chunks_before :: "(nat \<Rightarrow> body_chunk) \<Rightarrow> nat \<Rightarrow> nat \<Rightarrow> string" where
  "chunks_before src i n = concat (map (\<lambda>k. case src k of ReadChunk bs \<Rightarrow> bs | _ \<Rightarrow> []) [i ..< n])"

lemma chunks_before_step: "src i = ReadChunk bs \<Longrightarrow> i < n \<Longrightarrow> chunks_before src i n = bs @ chunks_before src (Suc i) n"
  by (simp add: chunks_before_def upt_conv_Cons)

lemma chunks_before_empty [simp]: "chunks_before src i i = []"
  by (simp add: chunks_before_def)

lemmas read_chunks_induct = read_chunks.raw_induct [rotated, consumes 1, case_names step]

lemma read_chunks_result:
  "read_chunks src max_bytes expected i acc = Some r \<Longrightarrow> length acc \<le> max_bytes \<Longrightarrow>
    (case r of
       Inl failed \<Rightarrow> failed = BodyTooLarge \<or> failed = BodyInvalid
     | Inr bytes \<Rightarrow> length bytes \<le> max_bytes \<and> (\<exists>n\<ge>i. src n = ReadDone \<and> bytes = acc @ chunks_before src i n \<and>
         (\<forall>k. i \<le> k \<longrightarrow> k < n \<longrightarrow> (\<exists>bs. src k = ReadChunk bs))))"
proof (induction rule: read_chunks_induct)
  case (step reads src max_bytes expected i acc r)
  show ?case
  proof (cases "src i")
    case (ReadChunk bs)
    show ?thesis
    proof (cases "length (acc @ bs) \<le> max_bytes \<and> \<not> (case expected of Some n \<Rightarrow> n < length (acc @ bs) | None \<Rightarrow> False)")
      case True
      then have more: "reads src max_bytes expected (Suc i) (acc @ bs) = Some r" and small: "length (acc @ bs) \<le> max_bytes"
        using step.prems step.hyps ReadChunk step(2) by auto
      from step.IH [OF more small] show ?thesis
      proof (cases r)
        case (Inr bytes)
        with step.IH [OF more small] obtain n where n: "length bytes \<le> max_bytes" "Suc i \<le> n" "src n = ReadDone"
            "bytes = (acc @ bs) @ chunks_before src (Suc i) n" "\<forall>k. Suc i \<le> k \<longrightarrow> k < n \<longrightarrow> (\<exists>bs. src k = ReadChunk bs)" by auto
        have "\<exists>bs. src k = ReadChunk bs" if "i \<le> k" "k < n" for k
          using that n(5) ReadChunk by (cases "k = i") auto
        moreover have "bytes = acc @ chunks_before src i n" using n(2,4) chunks_before_step [of src i bs n] ReadChunk by simp
        ultimately show ?thesis using Inr n(1,2,3) by (auto intro!: exI [of _ n])
      qed auto
    next
      case False
      then show ?thesis using step ReadChunk by (auto split: if_splits)
    qed
  next
    case ReadDone
    then show ?thesis using step by (auto intro!: exI [of _ i])
  next
    case ReadFails
    then show ?thesis using step by auto
  qed
qed

lemma read_chunks_returns:
  assumes "\<And>k. src k \<noteq> ReadChunk []"
  shows "length acc \<le> max_bytes \<Longrightarrow> \<exists>r. read_chunks src max_bytes expected i acc = Some r"
proof (induction "max_bytes - length acc" arbitrary: acc i rule: less_induct)
  case less
  show ?case
  proof (cases "src i")
    case (ReadChunk bs)
    then have "bs \<noteq> []" using assms [of i] by auto
    then have "length (acc @ bs) \<le> max_bytes \<Longrightarrow> max_bytes - length (acc @ bs) < max_bytes - length acc"
      by (cases bs) auto
    then have "length (acc @ bs) \<le> max_bytes \<Longrightarrow> \<exists>r. read_chunks src max_bytes expected (Suc i) (acc @ bs) = Some r"
      using less.hyps by blast
    then show ?thesis using ReadChunk by (subst read_chunks.simps) auto
  qed (subst read_chunks.simps; simp)+
qed

text \<open>
  C13: The body reader always answers, even on a body without an end, as long as each chunk has a byte.
\<close>

theorem body_read_returns:
  assumes "\<And>k. src k \<noteq> ReadChunk []"
  shows "\<exists>r. read_bounded_json decode max_bytes content_length (Some src) = Some r"
  using read_chunks_returns [OF assms, where acc = "[]" and max_bytes = max_bytes and expected = "expected_bytes content_length" and i = 0]
  by (auto simp: read_bounded_json_def)

theorem body_read_returns_witness:
  "\<exists>r. read_bounded_json Some 4 None (Some (\<lambda>k. ReadChunk ''a'')) = Some r"
  by (rule body_read_returns) simp

lemma endless_body_too_large: "read_bounded_json Some 2 None (Some (\<lambda>k. ReadChunk ''a'')) = Some BodyTooLarge"
  by (simp add: read_bounded_json_def expected_bytes_def read_chunks.simps)

text \<open>A body with empty chunks for ever is read for ever.\<close>

lemma empty_chunks_never_answered: "read_chunks (\<lambda>k. ReadChunk []) max_bytes None i [] = None"
proof (rule ccontr)
  assume "read_chunks (\<lambda>k. ReadChunk []) max_bytes None i [] \<noteq> None"
  then obtain r where r: "read_chunks (\<lambda>k. ReadChunk []) max_bytes None i [] = Some r" by auto
  have "read_chunks src m e i acc = Some r \<Longrightarrow> src = (\<lambda>k. ReadChunk []) \<Longrightarrow> acc = [] \<Longrightarrow> e = None \<Longrightarrow> False" for src m e i acc r
  proof (induction rule: read_chunks_induct)
    case (step reads src m e i acc r)
    then show ?case by auto
  qed
  then show False using r by blast
qed

text \<open>
  A value that the body reader returns is the parsed text of the whole body, which is within the limit.
\<close>

theorem body_value_is_whole_body:
  assumes "read_bounded_json decode max_bytes content_length (Some src) = Some (BodyValue v)"
  shows "\<exists>n t. src n = ReadDone \<and> (\<forall>k < n. \<exists>bs. src k = ReadChunk bs) \<and> length (chunks_before src 0 n) \<le> max_bytes \<and>
    decode (chunks_before src 0 n) = Some t \<and> json_parse t = Some v"
proof -
  obtain out where out: "read_chunks src max_bytes (expected_bytes content_length) 0 [] = Some out"
    using assms by (auto simp: read_bounded_json_def split: if_splits)
  note result = read_chunks_result [OF out]
  show ?thesis
  proof (cases out)
    case (Inl failed)
    then show ?thesis using result out assms by (auto simp: read_bounded_json_def split: if_splits)
  next
    case (Inr bytes)
    then obtain n where "src n = ReadDone" "bytes = chunks_before src 0 n" "length bytes \<le> max_bytes" "\<forall>k < n. \<exists>bs. src k = ReadChunk bs"
      using result by auto
    then show ?thesis using out Inr assms
      by (auto simp: read_bounded_json_def Option.bind_eq_Some_conv split: if_splits option.splits)
  qed
qed

definition one_chunk :: "nat \<Rightarrow> body_chunk" where
  "one_chunk k = (if k = 0 then ReadChunk ''null'' else ReadDone)"

theorem body_value_is_whole_body_witness:
  "\<exists>n t. one_chunk n = ReadDone \<and> length (chunks_before one_chunk 0 n) \<le> 9 \<and> Some (chunks_before one_chunk 0 n) = Some t \<and> json_parse t = Some JNull"
proof -
  have "json_parse ''null'' = Some JNull" by code_simp
  then have "read_bounded_json Some 9 None (Some one_chunk) = Some (BodyValue JNull)"
    by (simp add: read_bounded_json_def expected_bytes_def read_chunks.simps one_chunk_def)
  from body_value_is_whole_body [OF this] show ?thesis by blast
qed

end
