(* ===== verification/Intake.thy ===== *)
theory Intake imports RequestPipeline Surfaces begin

text \<open>
  The request pipeline (\<open>RequestPipeline\<close>) over the normalizers (\<open>Surfaces\<close>): the dependency
  \<open>rw_normalize\<close> of the pipeline is the codec of the endpoint, as \<open>src/app/request.ts\<close> calls it.
\<close>

definition codec_world :: "codec_env \<Rightarrow> request_limits \<Rightarrow> bool \<Rightarrow> request_world \<Rightarrow> request_world" where
  "codec_world cx limits aborted w = w\<lparr>rw_normalize := (\<lambda>e body. normalize_request cx limits aborted e (Some body))\<rparr>"

lemma codec_world_normalize [simp]:
  "rw_normalize (codec_world cx limits aborted w) e body = normalize_request cx limits aborted e (Some body)"
  by (simp add: codec_world_def)

lemma codec_world_shape [simp]: "shape_request (codec_world cx limits aborted w) = shape_request w"
  by (simp add: codec_world_def shape_request_def fun_eq_iff)

lemma prepare_routes_request: "prepare_routes w i req pd = (pd', x) \<Longrightarrow> pd_request pd' = pd_request pd"
  by (auto simp: prepare_routes_def Let_def split: sum.splits if_splits)

lemma prepared_request:
  assumes "prepare w i = (pd, x)" and "pd_request pd = Some req"
  shows "\<exists>body r. read_body (ri_body i) = Inr body \<and> rw_normalize w (ri_endpoint i) body = Inr r \<and> req = shape_request w r"
  using assms by (auto simp: prepare_def Let_def dest!: prepare_routes_request split: sum.splits if_splits)

text \<open>
  What the pipeline works on is a request within the bounds, rewritten by the filter rules, the token saver and
  the cache plan only.
\<close>

theorem prepared_request_bounded:
  assumes "prepare (codec_world cx limits aborted w) i = (pd, x)" and "pd_request pd = Some req"
  shows "\<exists>r. request_ok cx r \<and> req = shape_request w r \<and> detect_surface (ri_endpoint i) = Some (nr_source_surface r) \<and> \<not> aborted"
proof -
  obtain body r where r: "normalize_request cx limits aborted (ri_endpoint i) (Some body) = Inr r" "req = shape_request w r"
    using prepared_request [OF assms] by auto
  have "dispatched cx limits aborted (detect_surface (ri_endpoint i)) (Inr r)"
    using normalize_request_dispatched [of cx limits aborted "ri_endpoint i" "Some body"] r(1) by simp
  then show ?thesis using r(2) by (auto simp: dispatched_def)
qed




definition intake_world :: request_world where
  "intake_world = sample_world (\<lambda>i. AttemptBody [] None) (\<lambda>n. True) (\<lambda>n. False) None"

definition intake_input :: "json \<Rightarrow> request_input" where
  "intake_input v = sample_input\<lparr>ri_body := Inr v, ri_endpoint := EpImageEdit\<rparr>"

theorem prepared_request_bounded_witness:
  "\<exists>pd x req r. prepare (codec_world plain_env plain_limits False intake_world) (intake_input sample_edit) = (pd, x) \<and>
     pd_request pd = Some req \<and> request_ok plain_env r \<and> req = shape_request intake_world r"
proof -
  let ?w = "codec_world plain_env plain_limits False intake_world"
  obtain r where r: "normalize_request plain_env plain_limits False EpImageEdit (Some sample_edit) = Inr r"
    using sample_edit_accepted by blast
  have body: "read_body (ri_body (intake_input sample_edit)) = Inr sample_edit"
    by (simp add: intake_input_def read_body_def sample_edit_def)
  obtain pd x where run: "prepare ?w (intake_input sample_edit) = (pd, x)" by (cases "prepare ?w (intake_input sample_edit)")
  have "pd_request pd = Some (shape_request intake_world r)"
    using run body r by (auto simp: prepare_def intake_input_def Let_def dest!: prepare_routes_request split: sum.splits if_splits)
  from prepared_request_bounded [OF run this] show ?thesis using run \<open>pd_request pd = _\<close> by blast
qed


end
