(* ===== verification/GeminiCodec.thy ===== *)
theory GeminiCodec imports Translation MessagesCodec begin

text \<open>
  The codec of Gemini providers (\<open>src/domain/protocols/gemini-generate-content.ts\<close>): the payload written
  from a normalized request and the translation of a finished response into the body of the client's
  surface. The reading of a response (\<open>geminiCandidate\<close>, \<open>responseParts\<close>, the usage) is in
  \<open>StreamMappers\<close>; the \<open>n\<close>-th UUID is \<open>uuid n\<close>.
\<close>

subsection \<open>The upstream payload\<close>

definition parse_json_object :: "string \<Rightarrow> (string \<times> json) list" where
  "parse_json_object v = (case json_parse v of
      Some (JObj fs) \<Rightarrow> fs
    | Some _ \<Rightarrow> [(''content'', JStr v)]
    | None \<Rightarrow> if 0 < length v then [(''content'', JStr v)] else [])"

text \<open>The replacement of \<open>/^data:[^;,]+;base64,/\<close> by nothing.\<close>

definition strip_data_prefix :: "string \<Rightarrow> string" where
  "strip_data_prefix v =
    (let rest = drop 5 v; meta = takeWhile (\<lambda>c. c \<noteq> CHR '';'' \<and> c \<noteq> CHR '','') rest; after = drop (length meta) rest
     in if take 5 v = ''data:'' \<and> meta \<noteq> [] \<and> take 8 after = '';base64,'' then drop 8 after else v)"

definition to_gemini_image :: "image_reference \<Rightarrow> json" where
  "to_gemini_image r =
    (if im_kind r = IkData
     then JObj [(''inlineData'', JObj [(''mimeType'', JStr (or_text (im_media_type r) ''image/png'')),
            (''data'', JStr (strip_data_prefix (im_value r)))])]
     else JObj [(''fileData'', JObj [(''fileUri'', JStr (im_value r)),
            (''mimeType'', JStr (or_text (im_media_type r) ''application/octet-stream''))])])"

definition to_gemini_part :: "content_block \<Rightarrow> json list" where
  "to_gemini_part b = (case cb_type b of
      BtText \<Rightarrow> [JObj [(''text'', JStr (or_empty (cb_text b)))]]
    | BtImage \<Rightarrow> (case cb_image b of Some r \<Rightarrow> [to_gemini_image r] | None \<Rightarrow> [])
    | BtToolUse \<Rightarrow> [JObj [(''functionCall'', JObj ([(''name'', JStr (or_empty (cb_tool_name b))),
          (''args'', JObj (parse_json_object (tool_arguments b)))] @
          when_json (or_empty (cb_tool_call_id b) \<noteq> []) ''id'' (JStr (or_empty (cb_tool_call_id b)))))]]
    | BtToolResult \<Rightarrow> [JObj [(''functionResponse'', JObj [
          (''name'', JStr (case cb_tool_name b of Some n \<Rightarrow> n | None \<Rightarrow> or_text (cb_tool_call_id b) ''tool'')),
          (''response'', JObj (parse_json_object (or_empty (cb_text b))))])]]
    | BtUnknown \<Rightarrow> [])"

definition gemini_content :: "message \<Rightarrow> json" where
  "gemini_content m = JObj [(''role'', JStr (if msg_role m = RoAssistant then ''model'' else ''user'')),
     (''parts'', JArr (concat (map to_gemini_part (msg_content m))))]"

definition gemini_system :: "message list \<Rightarrow> json list" where
  "gemini_system ms = map (\<lambda>m. JObj [(''text'', JStr (message_text m))])
     (filter (\<lambda>m. message_text m \<noteq> []) (filter is_system ms))"

definition gemini_generation :: "normalized_request \<Rightarrow> (string \<times> json) list" where
  "gemini_generation r =
     opt_json ''maxOutputTokens'' (map_option token_json (nr_max_output_tokens r)) @
     when_json (nr_response_format r \<noteq> RfText) ''responseMimeType'' (JStr ''application/json'') @
     when_json (nr_reasoning r = RmEnabled) ''thinkingConfig''
       (JObj [(''thinkingBudget'', token_json (min (case nr_max_output_tokens r of Some q \<Rightarrow> q | None \<Rightarrow> 8192) 32768))]) @
     when_json (nr_source_surface r = SfImages) ''responseModalities'' (JArr [JStr ''TEXT'', JStr ''IMAGE''])"

definition gemini_tool :: "tool \<Rightarrow> json" where
  "gemini_tool t = JObj [(''name'', JStr (tl_name t)), (''description'', JStr (or_empty (tl_description t))),
     (''parameters'', JObj (tl_schema t))]"

definition build_gemini_payload :: "normalized_request \<Rightarrow> json" where
  "build_gemini_payload r =
    (let system = gemini_system (nr_messages r); generation = gemini_generation r in
     JObj ([(''contents'', JArr (map gemini_content (filter (\<lambda>m. \<not> is_system m) (nr_messages r))))] @
       when_json (0 < length system) ''systemInstruction'' (JObj [(''role'', JStr ''user''), (''parts'', JArr system)]) @
       when_json (nr_tools r \<noteq> []) ''tools'' (JArr [JObj [(''functionDeclarations'', JArr (map gemini_tool (nr_tools r)))]]) @
       when_json (0 < length generation) ''generationConfig'' (JObj generation)))"

subsection \<open>The client's body\<close>

datatype gemini_stop_reason = GsToolCall | GsLength | GsCompleted

definition gemini_stop_of :: "gemini_output \<Rightarrow> (string \<times> json) list \<Rightarrow> gemini_stop_reason" where
  "gemini_stop_of out candidate =
    (if 0 < length (go_calls out) then GsToolCall
     else if js_field candidate ''finishReason'' = Some (JStr ''MAX_TOKENS'') then GsLength else GsCompleted)"

definition usage_or_zero :: "rat option \<Rightarrow> json" where
  "usage_or_zero q = token_json (case q of Some n \<Rightarrow> n | None \<Rightarrow> 0)"

definition gemini_messages_body ::
  "string \<Rightarrow> string \<Rightarrow> gemini_output \<Rightarrow> gemini_stop_reason \<Rightarrow> provider_usage \<Rightarrow> (string \<times> json) list" where
  "gemini_messages_body i model out stop usage =
    [(''id'', JStr i), (''type'', JStr ''message''), (''role'', JStr ''assistant''), (''model'', JStr model),
     (''content'', JArr (
        (if go_thought out \<noteq> [] then [JObj [(''type'', JStr ''thinking''), (''thinking'', JStr (go_thought out))]] else []) @
        (if go_text out \<noteq> [] then [JObj [(''type'', JStr ''text''), (''text'', JStr (go_text out))]] else []) @
        map (\<lambda>c. JObj [(''type'', JStr ''tool_use''), (''id'', JStr (gc_id c)), (''name'', JStr (gc_name c)),
          (''input'', JObj (gc_args c))]) (go_calls out))),
     (''stop_reason'', JStr (case stop of GsToolCall \<Rightarrow> ''tool_use'' | GsLength \<Rightarrow> ''max_tokens'' | GsCompleted \<Rightarrow> ''end_turn'')),
     (''stop_sequence'', JNull),
     (''usage'', JObj [(''input_tokens'', usage_or_zero (us_input usage)), (''output_tokens'', usage_or_zero (us_output usage))])]"

definition gemini_responses_body ::
  "(rat \<Rightarrow> string) \<Rightarrow> int \<Rightarrow> string \<Rightarrow> string \<Rightarrow> gemini_output \<Rightarrow> provider_usage \<Rightarrow> (string \<times> json) list" where
  "gemini_responses_body show_num now_ms i model out usage =
    [(''id'', JStr i), (''object'', JStr ''response''), (''created_at'', token_json (of_int (now_ms div 1000))),
     (''status'', JStr ''completed''), (''model'', JStr model),
     (''output'', JArr (
        JObj [(''type'', JStr ''message''), (''id'', JStr (i @ ''-message'')), (''role'', JStr ''assistant''),
          (''content'', JArr [JObj [(''type'', JStr ''output_text''), (''text'', JStr (go_text out)), (''annotations'', JArr [])]])] #
        map (\<lambda>c. JObj [(''type'', JStr ''function_call''), (''call_id'', JStr (gc_id c)), (''name'', JStr (gc_name c)),
          (''arguments'', JStr (json_text show_num (JObj (gc_args c))))]) (go_calls out))),
     (''output_text'', JStr (go_text out)),
     (''usage'', JObj [(''input_tokens'', usage_or_zero (us_input usage)), (''output_tokens'', usage_or_zero (us_output usage)),
        (''total_tokens'', usage_or_zero (us_total usage))])]"

definition gemini_chat_body ::
  "(rat \<Rightarrow> string) \<Rightarrow> int \<Rightarrow> string \<Rightarrow> string \<Rightarrow> gemini_output \<Rightarrow> gemini_stop_reason \<Rightarrow> provider_usage \<Rightarrow> (string \<times> json) list" where
  "gemini_chat_body show_num now_ms i model out stop usage =
    [(''id'', JStr i), (''object'', JStr ''chat.completion''), (''created'', token_json (of_int (now_ms div 1000))),
     (''model'', JStr model),
     (''choices'', JArr [JObj [(''index'', token_json 0),
        (''message'', JObj ([(''role'', JStr ''assistant''),
            (''content'', if go_text out = [] then JNull else JStr (go_text out))] @
          when_json (0 < length (go_calls out)) ''tool_calls'' (JArr (map (\<lambda>c. chat_call (gc_id c) (gc_name c) (json_text show_num (JObj (gc_args c)))) (go_calls out))))),
        (''finish_reason'', JStr (case stop of GsToolCall \<Rightarrow> ''tool_calls'' | GsLength \<Rightarrow> ''length'' | GsCompleted \<Rightarrow> ''stop''))]]),
     (''usage'', JObj [(''prompt_tokens'', usage_or_zero (us_input usage)), (''completion_tokens'', usage_or_zero (us_output usage)),
        (''total_tokens'', usage_or_zero (us_total usage))])]"

definition translate_gemini_response ::
  "(rat \<Rightarrow> string) \<Rightarrow> (nat \<Rightarrow> string) \<Rightarrow> int \<Rightarrow> (string \<times> json) list \<Rightarrow> surface \<Rightarrow> string \<Rightarrow> (string \<times> json) list" where
  "translate_gemini_response show_num uuid now_ms body client model =
    (let g = gemini_candidate body;
         (draws, out) = response_parts uuid 0 (gp_parts g);
         usage = map_gemini_usage body;
         i = (case narrow_text (js_field (gp_response g) ''responseId'') of Some s \<Rightarrow> s | None \<Rightarrow> ''gemini-'' @ uuid draws);
         stop = gemini_stop_of out (gp_candidate g)
     in if client = SfMessages then gemini_messages_body i model out stop usage
        else if client = SfResponses then gemini_responses_body show_num now_ms i model out usage
        else gemini_chat_body show_num now_ms i model out stop usage)"

subsection \<open>What the client reads\<close>

definition gemini_reply :: "(nat \<Rightarrow> string) \<Rightarrow> (string \<times> json) list \<Rightarrow> reply" where
  "gemini_reply uuid body =
    (let out = snd (response_parts uuid 0 (gp_parts (gemini_candidate body)))
     in \<lparr>reply_text = go_text out, reply_thinking = go_thought out,
         reply_tools = map (\<lambda>c. \<lparr>rcall_id = Some (gc_id c), rcall_name = gc_name c, rcall_args = gc_args c\<rparr>) (go_calls out)\<rparr>)"

text \<open>Arguments that print as JSON text and parse back; ids and names are strings of the provider.\<close>

definition gemini_readable :: "(nat \<Rightarrow> string) \<Rightarrow> (string \<times> json) list \<Rightarrow> bool" where
  "gemini_readable uuid body \<longleftrightarrow>
     list_all (\<lambda>c. plain_json (JObj (rcall_args c))) (reply_tools (gemini_reply uuid body))"

subsection \<open>The client reads what Gemini said\<close>

lemma null_reads [reply_simps]: "narrow_text (Some JNull) = None" "narrow_list (Some JNull) = []"
  by (simp_all add: narrow_text_def narrow_list_def)

lemma blocks_of_type_Cons:
  "blocks_of_type ty (b # bs) = (if js_field b ''type'' = Some (JStr ty) then b # blocks_of_type ty bs else blocks_of_type ty bs)"
  by (simp add: blocks_of_type_def)

lemma gemini_chat_calls_read:
  "list_all (\<lambda>c. plain_json (JObj (gc_args c))) cs \<Longrightarrow>
   List.map_filter chat_reply_call (map (\<lambda>c. chat_call (gc_id c) (gc_name c) (json_text show_num (JObj (gc_args c)))) cs) =
   map (\<lambda>c. \<lparr>rcall_id = Some (gc_id c), rcall_name = gc_name c, rcall_args = gc_args c\<rparr>) cs"
proof (induction cs)
  case Nil
  then show ?case by (simp add: reply_simps)
next
  case (Cons c cs)
  have p: "plain_json (JObj (gc_args c))" using Cons.prems by simp
  show ?case using Cons json_object_text [OF p, of show_num]
    by (simp add: map_filter_simps chat_reply_call_made del: plain_json.simps json_text.simps)
qed

lemma gemini_chat_reply:
  assumes "list_all (\<lambda>c. plain_json (JObj (gc_args c))) (go_calls out)"
  shows "reply_text (chat_reply (gemini_chat_body show_num now_ms i model out stop usage)) = go_text out"
    and "reply_tools (chat_reply (gemini_chat_body show_num now_ms i model out stop usage)) =
         map (\<lambda>c. \<lparr>rcall_id = Some (gc_id c), rcall_name = gc_name c, rcall_args = gc_args c\<rparr>) (go_calls out)"
  using gemini_chat_calls_read [OF assms, of show_num]
  by (auto simp: chat_reply_def gemini_chat_body_def chat_message_def chat_choice_def head_option_def Let_def when_json_def reply_simps)

lemma gemini_messages_reply:
  "anthropic_reply (gemini_messages_body i model out stop usage) =
     \<lparr>reply_text = go_text out, reply_thinking = go_thought out,
      reply_tools = map (\<lambda>c. \<lparr>rcall_id = Some (gc_id c), rcall_name = gc_name c, rcall_args = gc_args c\<rparr>) (go_calls out)\<rparr>"
proof -
  define us where "us = map (\<lambda>c. [(''type'', JStr ''tool_use''), (''id'', JStr (gc_id c)), (''name'', JStr (gc_name c)),
          (''input'', JObj (gc_args c))]) (go_calls out)"
  have "map (\<lambda>c. JObj [(''type'', JStr ''tool_use''), (''id'', JStr (gc_id c)), (''name'', JStr (gc_name c)),
          (''input'', JObj (gc_args c))]) (go_calls out) = map JObj us"
    by (simp add: us_def comp_def)
  moreover have "tool_block_list us" by (auto simp: us_def tool_block_list_def reply_simps)
  moreover have "map anthropic_reply_call us =
      map (\<lambda>c. \<lparr>rcall_id = Some (gc_id c), rcall_name = gc_name c, rcall_args = gc_args c\<rparr>) (go_calls out)"
    by (simp add: us_def anthropic_reply_call_def reply_simps)
  ultimately show ?thesis
    by (simp add: anthropic_reply_def gemini_messages_body_def content_records_values reply_simps)
       (simp add: blocks_of_type_def joined_text_def reply_simps)
qed

lemma gemini_responses_reply:
  assumes "list_all (\<lambda>c. plain_json (JObj (gc_args c))) (go_calls out)"
  shows "reply_text (responses_reply (gemini_responses_body show_num now_ms i model out usage)) = go_text out"
    and "reply_tools (responses_reply (gemini_responses_body show_num now_ms i model out usage)) =
         map (\<lambda>c. \<lparr>rcall_id = Some (gc_id c), rcall_name = gc_name c, rcall_args = gc_args c\<rparr>) (go_calls out)"
proof -
  define call_item where "call_item (c :: gemini_call) = [(''type'', JStr ''function_call''), (''call_id'', JStr (gc_id c)),
     (''name'', JStr (gc_name c)), (''arguments'', JStr (json_text show_num (JObj (gc_args c))))]" for c
  define head where "head = [(''type'', JStr ''message''), (''id'', JStr (i @ ''-message'')), (''role'', JStr ''assistant''),
     (''content'', JArr [JObj [(''type'', JStr ''output_text''), (''text'', JStr (go_text out)), (''annotations'', JArr [])]])]"
  have items: "content_records (gemini_responses_body show_num now_ms i model out usage) ''output'' = head # map call_item (go_calls out)"
    using record_values_objects [of "map call_item (go_calls out)"]
    by (simp add: gemini_responses_body_def content_records_values reply_simps head_def call_item_def [abs_def] comp_def
        del: json_text.simps)
  have types: "js_field (call_item c) ''type'' = Some (JStr ''function_call'')" "js_field head ''type'' = Some (JStr ''message'')" for c
    by (simp_all add: call_item_def head_def reply_simps)
  have calls: "call_item_list (map call_item (go_calls out))" by (simp add: call_item_list_def types)
  have said: "message_item_text head = go_text out"
    by (simp add: message_item_text_def head_def content_records_values is_output_text_def joined_text_def reply_simps)
  have tool: "item_reply_call (call_item c) = \<lparr>rcall_id = Some (gc_id c), rcall_name = gc_name c, rcall_args = gc_args c\<rparr>"
    if "plain_json (JObj (gc_args c))" for c
    using json_object_text [OF that, of show_num]
    by (simp add: item_reply_call_def call_item_def reply_simps del: plain_json.simps json_text.simps)
  have "blocks_of_type ''message'' (head # map call_item (go_calls out)) = [head]"
       "blocks_of_type ''function_call'' (head # map call_item (go_calls out)) = map call_item (go_calls out)"
    using calls by (simp_all add: call_item_list_types blocks_of_type_Cons types)
  then show "reply_text (responses_reply (gemini_responses_body show_num now_ms i model out usage)) = go_text out"
    and "reply_tools (responses_reply (gemini_responses_body show_num now_ms i model out usage)) =
         map (\<lambda>c. \<lparr>rcall_id = Some (gc_id c), rcall_name = gc_name c, rcall_args = gc_args c\<rparr>) (go_calls out)"
    using assms by (simp_all add: responses_reply_def items said tool list_all_iff del: plain_json.simps)
qed

text \<open>
  a client of any surface reads in the translation of a Gemini response the text that Gemini sent, without
  the thoughts, and its function calls, in order, each with its id, its name and its arguments.\<close>

theorem gemini_reply_kept:
  assumes "gemini_readable uuid body"
  shows "reply_text (reply_of client (translate_gemini_response show_num uuid now_ms body client model)) = reply_text (gemini_reply uuid body)"
    and "reply_tools (reply_of client (translate_gemini_response show_num uuid now_ms body client model)) = reply_tools (gemini_reply uuid body)"
proof -
  define out where "out = snd (response_parts uuid 0 (gp_parts (gemini_candidate body)))"
  have "list_all (\<lambda>c. plain_json (JObj (gc_args c))) (go_calls out)"
    using assms by (simp add: gemini_readable_def gemini_reply_def Let_def list_all_iff out_def del: plain_json.simps)
  note read = gemini_chat_reply [OF this] gemini_responses_reply [OF this] gemini_messages_reply
  show "reply_text (reply_of client (translate_gemini_response show_num uuid now_ms body client model)) = reply_text (gemini_reply uuid body)"
    and "reply_tools (reply_of client (translate_gemini_response show_num uuid now_ms body client model)) = reply_tools (gemini_reply uuid body)"
    by (auto simp: translate_gemini_response_def gemini_reply_def reply_of_def Let_def split_beta read out_def [symmetric])
qed

definition sample_gemini :: "(string \<times> json) list" where
  "sample_gemini = [(''responseId'', JStr ''r1''), (''candidates'', JArr [JObj [(''finishReason'', JStr ''STOP''),
     (''content'', JObj [(''parts'', JArr [JObj [(''text'', JStr ''hi'')], JObj [(''thought'', JBool True), (''text'', JStr ''hm'')],
        JObj [(''functionCall'', JObj [(''name'', JStr ''ls''), (''args'', JObj [(''p'', JStr ''x'')])])]])])]])]"

theorem gemini_reply_kept_witness:
  "reply_text (reply_of SfResponses (translate_gemini_response (\<lambda>_. []) (\<lambda>_. ''u'') 0 sample_gemini SfResponses ''m'')) = ''hi'' \<and>
   map rcall_id (reply_tools (gemini_reply (\<lambda>_. ''u'') sample_gemini)) = [Some ''call_u'']"
proof -
  have "gemini_reply (\<lambda>_. ''u'') sample_gemini = \<lparr>reply_text = ''hi'', reply_thinking = ''hm'',
     reply_tools = [\<lparr>rcall_id = Some ''call_u'', rcall_name = ''ls'', rcall_args = [(''p'', JStr ''x'')]\<rparr>]\<rparr>"
    by code_simp
  then show ?thesis
    using gemini_reply_kept [of "\<lambda>_. ''u''" sample_gemini SfResponses "\<lambda>_. []" 0 "''m''"]
    by (simp add: gemini_readable_def)
qed

subsection \<open>What a Gemini provider does not receive, and what its client is not told\<close>

text \<open>A tool result names no tool once it is normalized: Gemini gets the call's id as the function's name.\<close>

lemma function_response_named_by_id:
  "cb_type b = BtToolResult \<Longrightarrow> cb_tool_name b = None \<Longrightarrow> cb_tool_call_id b = Some i \<Longrightarrow>
   to_gemini_part b = [JObj [(''functionResponse'', JObj [(''name'', JStr i), (''response'', JObj (parse_json_object (or_empty (cb_text b))))])]]"
  by (simp add: to_gemini_part_def or_text_def)

text \<open>A reply cut off, or refused by a safety filter, is reported to a client of the Responses API as completed.\<close>

lemma gemini_always_completed:
  "js_field (gemini_responses_body show_num now_ms i model out usage) ''status'' = Some (JStr ''completed'')"
  by (simp add: gemini_responses_body_def reply_simps)

lemma safety_stop_is_completed:
  "go_calls out = [] \<Longrightarrow> js_field candidate ''finishReason'' = Some (JStr ''SAFETY'') \<Longrightarrow> gemini_stop_of out candidate = GsCompleted"
  by (simp add: gemini_stop_of_def)

text \<open>The usage inside a wrapped response is not counted: it is read from the outer body.\<close>

lemma wrapped_usage_unread:
  "map_gemini_usage [(''response'', JObj fs)] = map_gemini_usage []"
  by (simp add: map_gemini_usage_def reply_simps)

text \<open>The thoughts of the model reach the clients of the Messages API only.\<close>

lemma gemini_thoughts_of_messages_only:
  "reply_thinking (chat_reply (gemini_chat_body show_num now_ms i model out stop usage)) = []"
  "reply_thinking (responses_reply (gemini_responses_body show_num now_ms i model out usage)) = []"
proof -
  show "reply_thinking (chat_reply (gemini_chat_body show_num now_ms i model out stop usage)) = []"
    by (auto simp: chat_reply_def gemini_chat_body_def chat_message_def chat_choice_def head_option_def Let_def when_json_def reply_simps)
  have none: "js_field b ''type'' \<noteq> Some (JStr ''reasoning'')"
    if "b \<in> set (content_records (gemini_responses_body show_num now_ms i model out usage) ''output'')" for b
    using that by (auto simp: gemini_responses_body_def content_records_values record_values_def List.map_filter_def reply_simps
        simp del: json_text.simps)
  have empty: "blocks_of_type ''reasoning'' (content_records (gemini_responses_body show_num now_ms i model out usage) ''output'') = []"
    by (auto simp: blocks_of_type_def filter_empty_conv dest: none)
  show "reply_thinking (responses_reply (gemini_responses_body show_num now_ms i model out usage)) = []"
    by (simp add: responses_reply_def Let_def empty)
qed

end
