(* ===== verification/OAuthSessions.thy ===== *)
theory OAuthSessions imports OAuthState CredentialSelect JsText begin

text \<open>
  Interactive OAuth logins (\<open>src/auth/oauth-sessions.ts\<close>) over the one-time states of \<open>OAuthState\<close> and the
  driver registry of \<open>CredentialSelect\<close>. A session object outlives its entry in the map while a call of the
  driver waits for it, so objects live in a list and the map holds their addresses. \<open>poll\<close> and
  \<open>complete\<close> are split where they wait for the driver; the driver's answer is an argument of the second
  half. Arguments are also the clock, the random identifiers, the parsers of a URL's query and of percent
  escapes, and the ellipsis character, which is not Latin-1.
\<close>

subsection \<open>Data\<close>

record token_set =
  ts_access :: string
  ts_refresh :: "string option"
  ts_expires_at :: "string option"
  ts_scope :: "string option"
  ts_account :: "string option"
  ts_email :: "string option"
  ts_org_id :: "string option"
  ts_org_name :: "string option"

datatype session_status = Waiting | Exchanging | Completed | LoginFailed | Cancelled | Expired

primrec status_name :: "session_status \<Rightarrow> string" where
  "status_name Waiting = ''waiting-for-user''"
| "status_name Exchanging = ''exchanging-code''"
| "status_name Completed = ''completed''"
| "status_name LoginFailed = ''failed''"
| "status_name Cancelled = ''cancelled''"
| "status_name Expired = ''expired''"

datatype session_fault = NotFound | Conflict | BadRequest | StateMismatch | Denied | SessionExpired | DriverUnavailable

record session_error =
  se_kind :: session_fault
  se_message :: string
  se_status :: int

text \<open>What a driver throws: its own error, with message, status and whether a retry may help, or anything else.\<close>

datatype driver_failure = DriverError string int bool | OtherThrow

text \<open>The optional methods of a driver.\<close>

record auth_driver =
  dr_start :: bool
  dr_poll :: bool
  dr_exchange :: bool
  dr_refresh :: bool

record start_input =
  sti_provider_id :: string
  sti_name :: string
  sti_redirect_uri :: "string option"

record start_result =
  sr_authorization_url :: string
  sr_state :: string
  sr_expires_at :: int
  sr_user_code :: "string option"
  sr_verification_uri :: "string option"
  sr_interval :: "int option"

datatype poll_result = PollWaits | PollTokens "token_set option" | PollExpires

record complete_input =
  cmp_code :: "string option"
  cmp_state :: "string option"
  cmp_error :: "string option"
  cmp_verifier :: "string option"
  cmp_redirect :: "string option"
  cmp_value :: "string option"

record exchange_input =
  ex_provider_id :: string
  ex_code :: string
  ex_state :: string
  ex_redirect_uri :: "string option"
  ex_verifier :: "string option"

record login_session =
  ls_id :: string
  ls_provider_id :: string
  ls_name :: string
  ls_state :: string
  ls_state_record :: oauth_state
  ls_redirect_uri :: "string option"
  ls_user_code :: "string option"
  ls_verification_uri :: "string option"
  ls_interval :: "int option"
  ls_created_at :: int
  ls_expires_at :: int
  ls_status :: session_status
  ls_account_id :: "string option"
  ls_error :: "(session_fault \<times> string) option"
  ls_token_set :: "token_set option"
  ls_authorization_url :: string
  ls_device_flow :: bool

record session_env =
  sv_drivers :: "auth_driver driver_registry"
  sv_states :: oauth_state_config
  sv_ttl_ms :: int
  sv_max_sessions :: nat
  sv_ellipsis :: string
  sv_url_search :: "string \<Rightarrow> string option"
  sv_unescape :: "string \<Rightarrow> string"

record session_manager =
  sm_states :: oauth_states
  sm_sessions :: "(string, nat) js_map"
  sm_objects :: "login_session list"
  sm_polls :: "nat list"
  sm_exchanges :: "nat list"

text \<open>The constructor clamps its options.\<close>

definition session_limits :: "int option \<Rightarrow> int option \<Rightarrow> int \<times> nat" where
  "session_limits ttl max_sessions =
    (max 1 (case ttl of None \<Rightarrow> 15 * 60000 | Some t \<Rightarrow> t), nat (max 1 (case max_sessions of None \<Rightarrow> 500 | Some m \<Rightarrow> m)))"

definition no_sessions :: session_manager where
  "no_sessions = \<lparr>sm_states = [], sm_sessions = [], sm_objects = [], sm_polls = [], sm_exchanges = []\<rparr>"

text \<open>A view is the session without its state, its state record and its tokens.\<close>

record session_view =
  vw_id :: string
  vw_provider_id :: string
  vw_name :: string
  vw_status :: session_status
  vw_authorization_url :: string
  vw_redirect_uri :: "string option"
  vw_user_code :: "string option"
  vw_verification_uri :: "string option"
  vw_interval :: "int option"
  vw_account_id :: "string option"
  vw_error :: "(session_fault \<times> string) option"
  vw_device_flow :: bool
  vw_created_at :: int
  vw_expires_at :: int

definition session_view_of :: "login_session \<Rightarrow> session_view" where
  "session_view_of s = \<lparr>vw_id = ls_id s, vw_provider_id = ls_provider_id s, vw_name = ls_name s, vw_status = ls_status s,
     vw_authorization_url = ls_authorization_url s, vw_redirect_uri = ls_redirect_uri s, vw_user_code = ls_user_code s,
     vw_verification_uri = ls_verification_uri s, vw_interval = ls_interval s, vw_account_id = ls_account_id s,
     vw_error = ls_error s, vw_device_flow = ls_device_flow s, vw_created_at = ls_created_at s, vw_expires_at = ls_expires_at s\<rparr>"

record start_view =
  sw_id :: string
  sw_provider_id :: string
  sw_name :: string
  sw_status :: session_status
  sw_authorization_url :: string
  sw_redirect_uri :: "string option"
  sw_user_code :: "string option"
  sw_verification_uri :: "string option"
  sw_interval :: "int option"
  sw_device_flow :: bool
  sw_state :: string
  sw_expires_at :: int

definition start_view_of :: "login_session \<Rightarrow> start_view" where
  "start_view_of s = \<lparr>sw_id = ls_id s, sw_provider_id = ls_provider_id s, sw_name = ls_name s, sw_status = ls_status s,
     sw_authorization_url = ls_authorization_url s, sw_redirect_uri = ls_redirect_uri s, sw_user_code = ls_user_code s,
     sw_verification_uri = ls_verification_uri s, sw_interval = ls_interval s, sw_device_flow = ls_device_flow s,
     sw_state = ls_state s, sw_expires_at = ls_expires_at s\<rparr>"

subsection \<open>The callback value\<close>

text \<open>The pairs of \<open>URLSearchParams\<close>: \<open>+\<close> is a space, then the percent escapes are decoded.\<close>

definition query_pair :: "(string \<Rightarrow> string) \<Rightarrow> string \<Rightarrow> string \<times> string" where
  "query_pair unescape w =
    (let name = takeWhile (\<lambda>c. c \<noteq> CHR ''='') w;
         plus = map (\<lambda>c. if c = CHR ''+'' then CHR '' '' else c)
     in (unescape (plus name), unescape (plus (drop (Suc (length name)) w))))"

definition query_pairs :: "(string \<Rightarrow> string) \<Rightarrow> string \<Rightarrow> (string \<times> string) list" where
  "query_pairs unescape q = map (query_pair unescape) (filter (\<lambda>w. w \<noteq> []) (split_on CHR ''&'' (if prefix ''?'' q then drop 1 q else q)))"

definition trimmed_value :: "string option \<Rightarrow> string option" where
  "trimmed_value v = (case v of None \<Rightarrow> None | Some s \<Rightarrow> if 0 < length (trim s) then Some (trim s) else None)"

record callback_parts =
  cb_code :: "string option"
  cb_state :: "string option"
  cb_error :: "string option"

definition no_parts :: callback_parts where
  "no_parts = \<lparr>cb_code = None, cb_state = None, cb_error = None\<rparr>"

definition callback_query :: "session_env \<Rightarrow> string \<Rightarrow> string option" where
  "callback_query ev v =
    (if prefix ''?'' v \<or> prefix ''&'' v then Some (drop 1 v)
     else if str_includes v ''='' \<and> \<not> str_includes v ''://'' then Some v
     else map_option (drop 1) (sv_url_search ev v))"

definition parse_oauth_callback_value :: "session_env \<Rightarrow> string \<Rightarrow> callback_parts" where
  "parse_oauth_callback_value ev v =
    (if trim v = [] then no_parts
     else case callback_query ev (trim v) of
       None \<Rightarrow> no_parts
     | Some q \<Rightarrow>
         let parts = query_pairs (sv_unescape ev) q;
             code = (case map_of parts ''code'' of Some c \<Rightarrow> Some c | None \<Rightarrow> map_of parts ''token'')
         in \<lparr>cb_code = trimmed_value code, cb_state = trimmed_value (map_of parts ''state''),
             cb_error = trimmed_value (map_of parts ''error'')\<rparr>)"

subsection \<open>The session table\<close>

abbreviation session_of :: "session_manager \<Rightarrow> nat \<Rightarrow> login_session" where
  "session_of m a \<equiv> sm_objects m ! a"

definition update_session :: "nat \<Rightarrow> (login_session \<Rightarrow> login_session) \<Rightarrow> session_manager \<Rightarrow> session_manager" where
  "update_session a f m = m\<lparr>sm_objects := (sm_objects m)[a := f (session_of m a)]\<rparr>"

definition set_status :: "session_status \<Rightarrow> nat \<Rightarrow> session_manager \<Rightarrow> session_manager" where
  "set_status s a = update_session a (ls_status_update (\<lambda>_. s))"

definition fail_session :: "session_fault \<Rightarrow> string \<Rightarrow> nat \<Rightarrow> session_manager \<Rightarrow> session_manager" where
  "fail_session k msg a = update_session a (\<lambda>s. s\<lparr>ls_status := LoginFailed, ls_error := Some (k, msg)\<rparr>)"

definition session_expired :: "int \<Rightarrow> login_session \<Rightarrow> bool" where
  "session_expired now_ms s \<longleftrightarrow> ls_expires_at s \<le> now_ms"

definition evict_expired :: "int \<Rightarrow> session_manager \<Rightarrow> session_manager" where
  "evict_expired now_ms m = m\<lparr>sm_sessions := jm_retain (\<lambda>k a. \<not> session_expired now_ms (session_of m a)) (sm_sessions m)\<rparr>"

text \<open>The first of the sessions with the smallest creation time.\<close>

fun oldest_session :: "login_session list \<Rightarrow> (string, nat) js_map \<Rightarrow> (string \<times> int) option \<Rightarrow> (string \<times> int) option" where
  "oldest_session objs [] best = best"
| "oldest_session objs ((k, a) # m) best =
     oldest_session objs m (case best of
        None \<Rightarrow> Some (k, ls_created_at (objs ! a))
      | Some (b, t) \<Rightarrow> if ls_created_at (objs ! a) < t then Some (k, ls_created_at (objs ! a)) else best)"

definition evict_oldest_session :: "login_session list \<Rightarrow> (string, nat) js_map \<Rightarrow> (string, nat) js_map" where
  "evict_oldest_session objs m = (case oldest_session objs m None of None \<Rightarrow> m | Some (k, t) \<Rightarrow> jm_delete k m)"

text \<open>\<open>while (size >= maxSessions) evictOldest()\<close>; every round removes an entry, so \<open>size\<close> rounds suffice.\<close>

primrec session_rounds :: "nat \<Rightarrow> nat \<Rightarrow> login_session list \<Rightarrow> (string, nat) js_map \<Rightarrow> (string, nat) js_map" where
  "session_rounds 0 max_sessions objs m = m"
| "session_rounds (Suc n) max_sessions objs m =
     (if max_sessions \<le> length m then session_rounds n max_sessions objs (evict_oldest_session objs m) else m)"

subsection \<open>Starting a login\<close>

definition session_error :: "session_fault \<Rightarrow> string \<Rightarrow> int \<Rightarrow> session_error" where
  "session_error k msg status = \<lparr>se_kind = k, se_message = msg, se_status = status\<rparr>"

definition line_breaks :: rx where
  "line_breaks = rx_plus (one_of [CHR 0x0D, CHR 0x0A])"

definition bounded_name :: "session_env \<Rightarrow> string \<Rightarrow> string" where
  "bounded_name ev raw =
    (let name = rx_replace line_breaks '' '' (trim raw)
     in if 120 < length name then take 120 name @ sv_ellipsis ev else name)"

definition driver_start_failure :: "driver_failure \<Rightarrow> string \<Rightarrow> session_error" where
  "driver_start_failure e provider_id = (case e of
      DriverError msg status retryable \<Rightarrow> session_error BadRequest (provider_id @ '' OAuth login could not be started: '' @ msg)
        (if 500 \<le> status then 502 else 400)
    | OtherThrow \<Rightarrow> session_error DriverUnavailable (provider_id @ '' OAuth login could not be started'') 502)"

definition new_session ::
  "session_env \<Rightarrow> int \<Rightarrow> string \<Rightarrow> start_input \<Rightarrow> auth_driver \<Rightarrow> oauth_state \<Rightarrow> start_result \<Rightarrow> login_session" where
  "new_session ev now_ms sid inp d st r =
    \<lparr>ls_id = sid, ls_provider_id = sti_provider_id inp, ls_name = bounded_name ev (sti_name inp), ls_state = sr_state r,
     ls_state_record = st, ls_redirect_uri = sti_redirect_uri inp, ls_user_code = sr_user_code r,
     ls_verification_uri = sr_verification_uri r, ls_interval = sr_interval r, ls_created_at = now_ms,
     ls_expires_at = min (sr_expires_at r) (now_ms + sv_ttl_ms ev), ls_status = Waiting, ls_account_id = None,
     ls_error = None, ls_token_set = None, ls_authorization_url = sr_authorization_url r, ls_device_flow = dr_poll d\<rparr>"

text \<open>The part of \<open>start\<close> after the driver's answer touches the tables without waiting.\<close>

definition add_session ::
  "session_env \<Rightarrow> int \<Rightarrow> string \<Rightarrow> string \<Rightarrow> string \<Rightarrow> start_input \<Rightarrow> auth_driver \<Rightarrow> start_result \<Rightarrow> session_manager \<Rightarrow>
   session_manager \<times> login_session" where
  "add_session ev now_ms random_state verifier sid inp d r m =
    (let (states, st) = state_create (sv_states ev) random_state
           \<lparr>cin_provider_id = sti_provider_id inp, cin_redirect_uri = sti_redirect_uri inp,
            cin_code_verifier = Some verifier, cin_state = Some (sr_state r)\<rparr> now_ms (sm_states m);
         m1 = evict_expired now_ms m;
         kept = session_rounds (length (sm_sessions m1)) (sv_max_sessions ev) (sm_objects m1) (sm_sessions m1);
         s = new_session ev now_ms sid inp d st r
     in (m1\<lparr>sm_states := states, sm_sessions := jm_set sid (length (sm_objects m)) kept, sm_objects := sm_objects m @ [s]\<rparr>, s))"

definition session_start ::
  "session_env \<Rightarrow> int \<Rightarrow> string \<Rightarrow> string \<Rightarrow> string \<Rightarrow> start_input \<Rightarrow> driver_failure + start_result \<Rightarrow> session_manager \<Rightarrow>
   session_manager \<times> (session_error + start_view)" where
  "session_start ev now_ms random_state verifier sid inp answer m =
    (if bounded_name ev (sti_name inp) = [] then (m, Inl (session_error BadRequest ''Account name is required.'' 400))
     else case driver_get (sti_provider_id inp) (sv_drivers ev) of
       None \<Rightarrow> (m, Inl (session_error BadRequest ''provider does not support OAuth login'' 400))
     | Some d \<Rightarrow>
         if \<not> dr_start d then (m, Inl (session_error BadRequest ''provider does not support an interactive OAuth login'' 400))
         else case answer of
           Inl e \<Rightarrow> (m, Inl (driver_start_failure e (sti_provider_id inp)))
         | Inr r \<Rightarrow> (let (m', s) = add_session ev now_ms random_state verifier sid inp d r m in (m', Inr (start_view_of s))))"

subsection \<open>Reading, cancelling, attaching\<close>

definition session_get :: "int \<Rightarrow> string \<Rightarrow> session_manager \<Rightarrow> session_manager \<times> session_view option" where
  "session_get now_ms sid m = (case jm_get (sm_sessions m) sid of
      None \<Rightarrow> (m, None)
    | Some a \<Rightarrow> (let m' = (if session_expired now_ms (session_of m a) then set_status Expired a m else m)
        in (m', Some (session_view_of (session_of m' a)))))"

definition session_cancel :: "string \<Rightarrow> session_manager \<Rightarrow> session_manager \<times> bool" where
  "session_cancel sid m = (case jm_get (sm_sessions m) sid of
      None \<Rightarrow> (m, False)
    | Some a \<Rightarrow> (if ls_status (session_of m a) = Waiting then set_status Cancelled a m else m, True))"

definition attach_account_id :: "string \<Rightarrow> string \<Rightarrow> session_manager \<Rightarrow> session_manager \<times> bool" where
  "attach_account_id sid account_id m = (case jm_get (sm_sessions m) sid of
      None \<Rightarrow> (m, False)
    | Some a \<Rightarrow> if ls_status (session_of m a) \<noteq> Completed then (m, False)
        else (update_session a (\<lambda>s. s\<lparr>ls_account_id := Some account_id\<rparr>) m, True))"

definition sessions_size :: "int \<Rightarrow> session_manager \<Rightarrow> session_manager \<times> nat" where
  "sessions_size now_ms m = (let m' = evict_expired now_ms m in (m', length (sm_sessions m')))"

subsection \<open>Polling a device login\<close>

definition driver_exchange_failure :: "session_env \<Rightarrow> driver_failure \<Rightarrow> string \<Rightarrow> session_error" where
  "driver_exchange_failure ev e provider_id = (case e of
      DriverError msg status retryable \<Rightarrow> session_error (if status = 401 \<or> status = 403 then Denied else BadRequest)
        (provider_id @ '' OAuth exchange failed: '' @ (if 240 < length msg then take 240 msg @ sv_ellipsis ev else msg))
        (if 400 \<le> status \<and> status < 500 then status else 502)
    | OtherThrow \<Rightarrow> session_error DriverUnavailable (provider_id @ '' OAuth exchange failed'') 502)"

datatype 'a session_answer = Answered "session_error + 'a" | AwaitsDriver nat

definition session_poll :: "session_env \<Rightarrow> int \<Rightarrow> string \<Rightarrow> session_manager \<Rightarrow> session_manager \<times> session_view session_answer" where
  "session_poll ev now_ms sid m = (case jm_get (sm_sessions m) sid of
      None \<Rightarrow> (m, Answered (Inl (session_error NotFound ''OAuth login session not found'' 404)))
    | Some a \<Rightarrow>
        if session_expired now_ms (session_of m a)
        then (let m' = set_status Expired a m in (m', Answered (Inr (session_view_of (session_of m' a)))))
        else if ls_status (session_of m a) \<noteq> Waiting then (m, Answered (Inr (session_view_of (session_of m a))))
        else case driver_get (ls_provider_id (session_of m a)) (sv_drivers ev) of
          None \<Rightarrow> (m, Answered (Inr (session_view_of (session_of m a))))
        | Some d \<Rightarrow> if dr_poll d then (m\<lparr>sm_polls := sm_polls m @ [a]\<rparr>, AwaitsDriver a)
            else (m, Answered (Inr (session_view_of (session_of m a)))))"

definition drop_at :: "nat \<Rightarrow> 'a list \<Rightarrow> 'a list" where
  "drop_at i xs = take i xs @ drop (Suc i) xs"

definition poll_settle ::
  "session_env \<Rightarrow> nat \<Rightarrow> driver_failure + poll_result \<Rightarrow> session_manager \<Rightarrow> session_manager \<times> (session_error + session_view)" where
  "poll_settle ev a answer m = (case answer of
      Inl e \<Rightarrow> (let err = driver_exchange_failure ev e (ls_provider_id (session_of m a))
        in (fail_session (se_kind err) (se_message err) a m, Inl err))
    | Inr r \<Rightarrow> (let m' = (case r of
          PollTokens (Some t) \<Rightarrow> update_session a (\<lambda>s. s\<lparr>ls_status := Completed, ls_token_set := Some t\<rparr>) m
        | PollExpires \<Rightarrow> set_status Expired a m
        | _ \<Rightarrow> m)
        in (m', Inr (session_view_of (session_of m' a)))))"

subsection \<open>Completing a login\<close>

definition refuse ::
  "session_fault \<Rightarrow> string \<Rightarrow> string \<Rightarrow> int \<Rightarrow> nat \<Rightarrow> session_manager \<Rightarrow>
   session_manager \<times> (session_view \<times> token_set) session_answer \<times> exchange_input option" where
  "refuse k stored msg status a m = (fail_session k stored a m, Answered (Inl (session_error k msg status)), None)"

definition exchange_input_of ::
  "login_session \<Rightarrow> complete_input \<Rightarrow> oauth_state \<Rightarrow> string \<Rightarrow> string \<Rightarrow> exchange_input" where
  "exchange_input_of s inp r code state =
    \<lparr>ex_provider_id = ls_provider_id s, ex_code = code, ex_state = state,
     ex_redirect_uri = (case cmp_redirect inp of Some u \<Rightarrow> Some u | None \<Rightarrow> ls_redirect_uri s),
     ex_verifier = (case cmp_verifier inp of Some v \<Rightarrow> Some v | None \<Rightarrow> os_code_verifier r)\<rparr>"

text \<open>What \<open>complete\<close> does with a waiting session once the parts of the callback are known.\<close>

definition exchange_begin ::
  "session_env \<Rightarrow> int \<Rightarrow> nat \<Rightarrow> complete_input \<Rightarrow> string option \<Rightarrow> string option \<Rightarrow> session_manager \<Rightarrow>
   session_manager \<times> (session_view \<times> token_set) session_answer \<times> exchange_input option" where
  "exchange_begin ev now_ms a inp code state m =
    (let s = session_of m a in
     if state \<noteq> Some (ls_state s)
     then refuse StateMismatch ''OAuth state did not match.'' ''OAuth state did not match.'' 400 a m
     else
       let (states, consumed) = state_consume (ls_state s) (ls_provider_id s) now_ms (sm_states m);
           m1 = m\<lparr>sm_states := states\<rparr>
       in case consumed of
            None \<Rightarrow> refuse StateMismatch ''OAuth authorization state is invalid, expired, or already used.''
              ''OAuth authorization state is invalid, expired, or already used.'' 400 a m1
          | Some rec \<Rightarrow>
              if code = None \<or> code = Some []
              then refuse BadRequest ''Authorization code is required.'' ''Authorization code or redirect URL is required.'' 400 a m1
              else if (case driver_get (ls_provider_id s) (sv_drivers ev) of Some d \<Rightarrow> \<not> dr_exchange d | None \<Rightarrow> True)
              then refuse DriverUnavailable ''Provider OAuth exchange is unavailable.'' ''Provider OAuth exchange is unavailable.'' 503 a m1
              else ((set_status Exchanging a m1)\<lparr>sm_exchanges := sm_exchanges m1 @ [a]\<rparr>, AwaitsDriver a,
                    Some (exchange_input_of s inp rec (the code) (ls_state s))))"

definition first_given :: "string option \<Rightarrow> string option \<Rightarrow> string option" where
  "first_given x y = (case x of Some v \<Rightarrow> Some v | None \<Rightarrow> y)"

definition session_complete ::
  "session_env \<Rightarrow> int \<Rightarrow> string \<Rightarrow> complete_input \<Rightarrow> session_manager \<Rightarrow>
   session_manager \<times> (session_view \<times> token_set) session_answer \<times> exchange_input option" where
  "session_complete ev now_ms sid inp m = (case jm_get (sm_sessions m) sid of
      None \<Rightarrow> (m, Answered (Inl (session_error NotFound ''OAuth login session not found'' 404)), None)
    | Some a \<Rightarrow>
       (let s = session_of m a in
        if session_expired now_ms s
        then (m\<lparr>sm_sessions := jm_delete sid (sm_sessions m)\<rparr>, Answered (Inl (session_error SessionExpired ''OAuth login session expired'' 400)), None)
        else if ls_device_flow s \<and> ls_status s = Completed \<and> ls_token_set s \<noteq> None
        then (m, Answered (Inr (session_view_of s, the (ls_token_set s))), None)
        else if ls_status s \<noteq> Waiting
        then (m, Answered (Inl (session_error Conflict (''OAuth login session is '' @ status_name (ls_status s)) 409)), None)
        else
          let parsed = (case cmp_value inp of Some v \<Rightarrow> parse_oauth_callback_value ev v | None \<Rightarrow> no_parts)
          in if first_given (cmp_error inp) (cb_error parsed) \<noteq> None
             then refuse Denied ''OAuth authorization was denied.'' ''OAuth authorization was denied.'' 400 a m
             else exchange_begin ev now_ms a inp (first_given (cmp_code inp) (cb_code parsed)) (first_given (cmp_state inp) (cb_state parsed)) m))"

definition exchange_settle ::
  "session_env \<Rightarrow> nat \<Rightarrow> driver_failure + token_set \<Rightarrow> session_manager \<Rightarrow> session_manager \<times> (session_error + session_view \<times> token_set)" where
  "exchange_settle ev a answer m = (case answer of
      Inl e \<Rightarrow> (let err = driver_exchange_failure ev e (ls_provider_id (session_of m a))
        in (fail_session (se_kind err) (se_message err) a m, Inl err))
    | Inr t \<Rightarrow> (let m' = update_session a (\<lambda>s. s\<lparr>ls_status := Completed, ls_token_set := Some t\<rparr>) m
        in (m', Inr (session_view_of (session_of m' a), t))))"

subsection \<open>Every interleaving\<close>

text \<open>An event is a call, or the driver's answer to a call that waits.\<close>

datatype session_event =
    EvStart int string string string start_input "driver_failure + start_result"
  | EvGet int string
  | EvCancel string
  | EvAttach string string
  | EvSize int
  | EvPoll int string
  | EvPolled nat "driver_failure + poll_result"
  | EvComplete int string complete_input
  | EvExchanged nat "driver_failure + token_set"

definition session_step :: "session_env \<Rightarrow> session_event \<Rightarrow> session_manager \<Rightarrow> session_manager \<times> (nat \<times> exchange_input) list" where
  "session_step ev e m = (case e of
      EvStart now rnd verifier sid inp answer \<Rightarrow> (fst (session_start ev now rnd verifier sid inp answer m), [])
    | EvGet now sid \<Rightarrow> (fst (session_get now sid m), [])
    | EvCancel sid \<Rightarrow> (fst (session_cancel sid m), [])
    | EvAttach sid acct \<Rightarrow> (fst (attach_account_id sid acct m), [])
    | EvSize now \<Rightarrow> (fst (sessions_size now m), [])
    | EvPoll now sid \<Rightarrow> (fst (session_poll ev now sid m), [])
    | EvPolled i answer \<Rightarrow>
        if i < length (sm_polls m)
        then (fst (poll_settle ev (sm_polls m ! i) answer (m\<lparr>sm_polls := drop_at i (sm_polls m)\<rparr>)), []) else (m, [])
    | EvComplete now sid inp \<Rightarrow>
        (case session_complete ev now sid inp m of
           (m', AwaitsDriver a, Some x) \<Rightarrow> (m', [(a, x)])
         | (m', _, _) \<Rightarrow> (m', []))
    | EvExchanged i answer \<Rightarrow>
        if i < length (sm_exchanges m)
        then (fst (exchange_settle ev (sm_exchanges m ! i) answer (m\<lparr>sm_exchanges := drop_at i (sm_exchanges m)\<rparr>)), []) else (m, []))"

text \<open>A run and the exchanges it asked of the drivers, in order.\<close>

fun session_run :: "session_env \<Rightarrow> session_event list \<Rightarrow> session_manager \<Rightarrow> session_manager \<times> (nat \<times> exchange_input) list" where
  "session_run ev [] m = (m, [])"
| "session_run ev (e # es) m =
     (let (m1, xs) = session_step ev e m; (m2, ys) = session_run ev es m1 in (m2, xs @ ys))"

subsection \<open>What every step keeps\<close>

named_theorems session_ops

lemmas [session_ops] = session_start_def session_get_def session_cancel_def attach_account_id_def sessions_size_def session_poll_def
  poll_settle_def session_complete_def exchange_begin_def exchange_settle_def refuse_def add_session_def evict_expired_def Let_def

lemma update_session_simps [simp]:
  "sm_states (update_session a f m) = sm_states m" "sm_sessions (update_session a f m) = sm_sessions m"
  "length (sm_objects (update_session a f m)) = length (sm_objects m)"
  "sm_polls (update_session a f m) = sm_polls m" "sm_exchanges (update_session a f m) = sm_exchanges m"
  by (simp_all add: update_session_def)

lemma update_session_of [simp]:
  "b < length (sm_objects m) \<Longrightarrow> session_of (update_session a f m) b = (if b = a then f (session_of m b) else session_of m b)"
  by (simp add: update_session_def nth_list_update)

lemma set_status_simps [simp]:
  "sm_states (set_status s a m) = sm_states m" "sm_sessions (set_status s a m) = sm_sessions m"
  "length (sm_objects (set_status s a m)) = length (sm_objects m)"
  "sm_polls (set_status s a m) = sm_polls m" "sm_exchanges (set_status s a m) = sm_exchanges m"
  "b < length (sm_objects m) \<Longrightarrow> session_of (set_status s a m) b = (if b = a then (session_of m b)\<lparr>ls_status := s\<rparr> else session_of m b)"
  by (simp_all add: set_status_def)

lemma fail_session_simps [simp]:
  "sm_states (fail_session k t a m) = sm_states m" "sm_sessions (fail_session k t a m) = sm_sessions m"
  "length (sm_objects (fail_session k t a m)) = length (sm_objects m)"
  "sm_polls (fail_session k t a m) = sm_polls m" "sm_exchanges (fail_session k t a m) = sm_exchanges m"
  "b < length (sm_objects m) \<Longrightarrow> session_of (fail_session k t a m) b =
     (if b = a then (session_of m b)\<lparr>ls_status := LoginFailed, ls_error := Some (k, t)\<rparr> else session_of m b)"
  by (simp_all add: fail_session_def)

text \<open>
  The table: at most \<open>max\<close> sessions under their own ids, every address has an object, and a completed login
  has its tokens.
\<close>

definition table_ok :: "session_env \<Rightarrow> session_manager \<Rightarrow> bool" where
  "table_ok ev m \<longleftrightarrow> jm_wf (sm_states m) \<and> jm_wf (sm_sessions m) \<and> length (sm_sessions m) \<le> sv_max_sessions ev \<and>
     (\<forall>k a. jm_get (sm_sessions m) k = Some a \<longrightarrow> a < length (sm_objects m) \<and> ls_id (session_of m a) = k) \<and>
     (\<forall>a \<in> set (sm_polls m) \<union> set (sm_exchanges m). a < length (sm_objects m)) \<and>
     (\<forall>a < length (sm_objects m). ls_status (session_of m a) = Completed \<longrightarrow> ls_token_set (session_of m a) \<noteq> None)"

lemma oldest_session_mem:
  "oldest_session objs m best = Some (k, t) \<Longrightarrow> best = Some (k, t) \<or> k \<in> set (jm_keys m)"
  by (induction objs m best rule: oldest_session.induct) (auto simp: jm_keys_def split: option.splits if_splits prod.splits)

lemma oldest_session_None: "oldest_session objs m best = None \<Longrightarrow> m = [] \<and> best = None"
  by (induction objs m best rule: oldest_session.induct) (auto split: option.splits if_splits prod.splits)

lemma evict_oldest_session_ok:
  assumes "jm_wf m"
  shows "jm_wf (evict_oldest_session objs m)" "m \<noteq> [] \<Longrightarrow> length (evict_oldest_session objs m) = length m - 1"
    "jm_get (evict_oldest_session objs m) k = Some a \<Longrightarrow> jm_get m k = Some a"
proof -
  show "jm_wf (evict_oldest_session objs m)" using assms by (simp add: evict_oldest_session_def split: option.split)
  show "jm_get (evict_oldest_session objs m) k = Some a \<Longrightarrow> jm_get m k = Some a"
    by (cases "oldest_session objs m None") (auto simp: evict_oldest_session_def split: if_splits)
  assume "m \<noteq> []"
  then obtain j t where o: "oldest_session objs m None = Some (j, t)"
    using oldest_session_None [of objs m None] by (cases "oldest_session objs m None") auto
  then have "jm_has m j" using oldest_session_mem [of objs m None j t] by (simp add: jm_has_iff)
  then show "length (evict_oldest_session objs m) = length m - 1"
    using o length_jm_delete [OF assms] by (simp add: evict_oldest_session_def)
qed

lemma session_rounds_ok:
  "jm_wf m \<Longrightarrow> 0 < max_sessions \<Longrightarrow> length m \<le> n \<Longrightarrow>
   jm_wf (session_rounds n max_sessions objs m) \<and> length (session_rounds n max_sessions objs m) < max_sessions \<and>
   (\<forall>k a. jm_get (session_rounds n max_sessions objs m) k = Some a \<longrightarrow> jm_get m k = Some a)"
proof (induction n arbitrary: m)
  case 0
  then show ?case by simp
next
  case (Suc n)
  show ?case
  proof (cases "max_sessions \<le> length m")
    case True
    then have "m \<noteq> []" using Suc.prems by auto
    then have "length (evict_oldest_session objs m) \<le> n" using Suc.prems evict_oldest_session_ok(2) [of m objs] by simp
    then show ?thesis using Suc.IH [of "evict_oldest_session objs m"] Suc.prems True evict_oldest_session_ok [of m objs] by auto
  next
    case False
    then show ?thesis using Suc.prems by simp
  qed
qed

named_theorems table_intros

lemma table_ok_address [dest]: "table_ok ev m \<Longrightarrow> jm_get (sm_sessions m) k = Some a \<Longrightarrow> a < length (sm_objects m)"
  by (simp add: table_ok_def)

lemma table_ok_update [table_intros]:
  assumes "table_ok ev m" "a < length (sm_objects m)" "ls_id (f (session_of m a)) = ls_id (session_of m a)"
    "ls_status (f (session_of m a)) = Completed \<Longrightarrow> ls_token_set (f (session_of m a)) \<noteq> None"
  shows "table_ok ev (update_session a f m)"
  using assms by (auto simp: table_ok_def)

lemma table_ok_status [table_intros]:
  "table_ok ev m \<Longrightarrow> a < length (sm_objects m) \<Longrightarrow> s \<noteq> Completed \<Longrightarrow> table_ok ev (set_status s a m)"
  unfolding set_status_def by (rule table_ok_update) auto

lemma table_ok_fail [table_intros]: "table_ok ev m \<Longrightarrow> a < length (sm_objects m) \<Longrightarrow> table_ok ev (fail_session k t a m)"
  unfolding fail_session_def by (rule table_ok_update) auto

lemma table_ok_states [table_intros]: "table_ok ev m \<Longrightarrow> jm_wf x \<Longrightarrow> table_ok ev (m\<lparr>sm_states := x\<rparr>)"
  by (simp add: table_ok_def)

lemma jm_wf_consume: "jm_wf m \<Longrightarrow> state_consume st p now_ms m = (m', r) \<Longrightarrow> jm_wf m'"
  by (auto simp: state_consume_def states_sweep_def Let_def split: option.splits if_splits)

lemma table_ok_consume [table_intros]:
  "table_ok ev m \<Longrightarrow> state_consume st p now_ms (sm_states m) = (x, r) \<Longrightarrow> table_ok ev (m\<lparr>sm_states := x\<rparr>)"
  using jm_wf_consume by (auto simp: table_ok_def)

lemma jm_wf_rounds: "jm_wf m \<Longrightarrow> jm_wf (evict_rounds n k m)"
  by (induction n arbitrary: m) auto

lemma jm_wf_create: "jm_wf m \<Longrightarrow> jm_wf (fst (state_create cfg rnd inp now_ms m))"
  by (simp add: state_create_def Let_def evict_until_def states_sweep_def jm_wf_rounds)

lemma table_ok_polls [table_intros]:
  "table_ok ev m \<Longrightarrow> set as \<subseteq> set (sm_polls m) \<union> {a. a < length (sm_objects m)} \<Longrightarrow> table_ok ev (m\<lparr>sm_polls := as\<rparr>)"
  by (auto simp: table_ok_def)

lemma table_ok_exchanges [table_intros]:
  "table_ok ev m \<Longrightarrow> set as \<subseteq> set (sm_exchanges m) \<union> {a. a < length (sm_objects m)} \<Longrightarrow> table_ok ev (m\<lparr>sm_exchanges := as\<rparr>)"
  by (auto simp: table_ok_def)

lemma table_ok_smaller [table_intros]:
  assumes "table_ok ev m" "jm_wf t" "length t \<le> length (sm_sessions m)"
    "\<And>k a. jm_get t k = Some a \<Longrightarrow> jm_get (sm_sessions m) k = Some a"
  shows "table_ok ev (m\<lparr>sm_sessions := t\<rparr>)"
  using assms by (auto simp: table_ok_def)

lemma table_ok_evict [table_intros]:
  assumes "table_ok ev m"
  shows "table_ok ev (evict_expired now_ms m)"
  unfolding evict_expired_def
  by (rule table_ok_smaller) (use assms in \<open>auto simp: jm_get_retain table_ok_def split: option.splits if_splits\<close>)

lemma table_ok_delete [table_intros]: "table_ok ev m \<Longrightarrow> table_ok ev (m\<lparr>sm_sessions := jm_delete k (sm_sessions m)\<rparr>)"
  by (rule table_ok_smaller) (auto simp: table_ok_def split: if_splits)

lemma set_drop_at: "set (drop_at i xs) \<subseteq> set xs"
  by (auto simp: drop_at_def dest: in_set_takeD in_set_dropD)

lemma table_ok_add:
  assumes ok: "table_ok ev m" and pos: "0 < sv_max_sessions ev"
  shows "table_ok ev (fst (add_session ev now_ms rnd verifier sid inp d r m))"
proof -
  let ?m1 = "evict_expired now_ms m"
  let ?kept = "session_rounds (length (sm_sessions ?m1)) (sv_max_sessions ev) (sm_objects ?m1) (sm_sessions ?m1)"
  have ok1: "table_ok ev ?m1" by (rule table_ok_evict [OF ok])
  have states: "jm_wf (fst (state_create c x y now_ms (sm_states m)))" for c x y
    using ok by (simp add: jm_wf_create table_ok_def)
  have objs: "sm_objects ?m1 = sm_objects m" "sm_polls ?m1 = sm_polls m" "sm_exchanges ?m1 = sm_exchanges m"
    by (simp_all add: evict_expired_def)
  have kept: "jm_wf ?kept" "length ?kept < sv_max_sessions ev"
      "\<And>k a. jm_get ?kept k = Some a \<Longrightarrow> jm_get (sm_sessions ?m1) k = Some a"
    using session_rounds_ok [of "sm_sessions ?m1" "sv_max_sessions ev" "length (sm_sessions ?m1)" "sm_objects ?m1"] ok1 pos
    by (auto simp: table_ok_def)
  then show ?thesis
    using ok1 unfolding add_session_def Let_def split_beta
    by (auto simp: table_ok_def states objs new_session_def nth_append length_jm_set less_Suc_eq)
qed

lemma table_ok_step:
  assumes ok: "table_ok ev m" and pos: "0 < sv_max_sessions ev"
  shows "table_ok ev (fst (session_step ev e m))"
proof (cases e)
  case (EvStart now rnd verifier sid inp answer)
  then show ?thesis using ok table_ok_add [OF ok pos]
    by (auto simp: session_step_def session_start_def split_beta Let_def split: option.split sum.split)
next
  case (EvGet now sid)
  then show ?thesis using ok by (auto simp: session_step_def session_get_def Let_def intro: table_intros split: option.split)
next
  case (EvCancel sid)
  then show ?thesis using ok by (auto simp: session_step_def session_cancel_def intro: table_intros split: option.split)
next
  case (EvAttach sid acct)
  then show ?thesis using ok
    by (auto simp: session_step_def attach_account_id_def table_ok_def intro!: table_ok_update split: option.split)
next
  case (EvSize now)
  then show ?thesis using ok by (simp add: session_step_def sessions_size_def Let_def table_ok_evict)
next
  case (EvPoll now sid)
  then show ?thesis using ok
    by (auto simp: session_step_def session_poll_def Let_def intro!: table_ok_status table_ok_polls split: option.split)
next
  case (EvPolled i answer)
  let ?m = "m\<lparr>sm_polls := drop_at i (sm_polls m)\<rparr>"
  have "table_ok ev ?m" using ok set_drop_at [of i "sm_polls m"] by (intro table_ok_polls) auto
  moreover have "i < length (sm_polls m) \<Longrightarrow> sm_polls m ! i < length (sm_objects ?m)" using ok by (auto simp: table_ok_def)
  ultimately show ?thesis using EvPolled ok
    by (auto simp: session_step_def poll_settle_def Let_def intro: table_intros split: sum.split poll_result.split option.split)
next
  case (EvComplete now sid inp)
  have began: "table_ok ev (fst (exchange_begin ev now a inp code state m))" if "a < length (sm_objects m)" for a code state
  proof (cases "state_consume (ls_state (session_of m a)) (ls_provider_id (session_of m a)) now (sm_states m)")
    case (Pair x r)
    have x: "table_ok ev (m\<lparr>sm_states := x\<rparr>)" by (rule table_ok_consume [OF ok Pair])
    show ?thesis using that ok x
      by (auto simp: exchange_begin_def refuse_def Let_def Pair intro!: table_ok_status table_ok_fail table_ok_exchanges split: option.split)
  qed
  have "table_ok ev (fst (session_complete ev now sid inp m))"
    using ok began by (auto simp: session_complete_def refuse_def Let_def intro!: table_ok_fail table_ok_delete split: option.split)
  then show ?thesis using EvComplete
    by (auto simp: session_step_def split: prod.splits session_answer.splits option.splits)
next
  case (EvExchanged i answer)
  let ?m = "m\<lparr>sm_exchanges := drop_at i (sm_exchanges m)\<rparr>"
  have "table_ok ev ?m" using ok set_drop_at [of i "sm_exchanges m"] by (intro table_ok_exchanges) auto
  moreover have "i < length (sm_exchanges m) \<Longrightarrow> sm_exchanges m ! i < length (sm_objects ?m)" using ok by (auto simp: table_ok_def)
  ultimately show ?thesis using EvExchanged ok
    by (auto simp: session_step_def exchange_settle_def Let_def intro: table_intros split: sum.split)
qed

lemma table_ok_run:
  assumes "0 < sv_max_sessions ev"
  shows "table_ok ev (fst (session_run ev es no_sessions))"
proof -
  have "table_ok ev m \<Longrightarrow> table_ok ev (fst (session_run ev es m))" for m
    by (induction es arbitrary: m) (use table_ok_step [OF _ assms] in \<open>auto simp: split_beta Let_def\<close>)
  then show ?thesis by (simp add: table_ok_def no_sessions_def)
qed

text \<open>
  Whatever calls and driver answers come in whatever order, at most the configured number of logins is kept, each
  under its own id, and a login that is completed has its tokens.
\<close>

theorem login_sessions_bounded:
  assumes "0 < sv_max_sessions ev"
  shows "length (sm_sessions (fst (session_run ev es no_sessions))) \<le> sv_max_sessions ev \<and>
    table_ok ev (fst (session_run ev es no_sessions))"
  using table_ok_run [OF assms, of es] by (simp add: table_ok_def)

subsection \<open>One exchange per login\<close>

text \<open>A login that has left the waiting state never comes back to it.\<close>

definition only_leaves_waiting :: "session_manager \<Rightarrow> session_manager \<Rightarrow> bool" where
  "only_leaves_waiting m m' \<longleftrightarrow> length (sm_objects m) \<le> length (sm_objects m') \<and>
     (\<forall>a < length (sm_objects m). ls_status (session_of m a) \<noteq> Waiting \<longrightarrow> ls_status (session_of m' a) \<noteq> Waiting)"

lemma only_leaves_refl [simp]: "sm_objects m' = sm_objects m \<Longrightarrow> only_leaves_waiting m m'"
  by (simp add: only_leaves_waiting_def)

lemma only_leaves_trans: "only_leaves_waiting a b \<Longrightarrow> only_leaves_waiting b c \<Longrightarrow> only_leaves_waiting a c"
  by (fastforce simp: only_leaves_waiting_def)

lemma only_leaves_objects: "sm_objects m1 = sm_objects m \<Longrightarrow> only_leaves_waiting m m' \<Longrightarrow> only_leaves_waiting m1 m'"
  by (simp add: only_leaves_waiting_def)

lemma only_leaves_update [simp]:
  "(\<And>s. ls_status s \<noteq> Waiting \<Longrightarrow> ls_status (f s) \<noteq> Waiting) \<Longrightarrow> only_leaves_waiting m (update_session a f m)"
  by (auto simp: only_leaves_waiting_def)

lemma only_leaves_status [simp]: "s \<noteq> Waiting \<Longrightarrow> only_leaves_waiting m (set_status s a m)"
  by (auto simp: only_leaves_waiting_def)

lemma only_leaves_fail [simp]: "only_leaves_waiting m (fail_session k t a m)"
  by (auto simp: only_leaves_waiting_def)

lemma only_leaves_add [simp]: "only_leaves_waiting m (fst (add_session ev now_ms rnd verifier sid inp d r m))"
  by (simp add: only_leaves_waiting_def add_session_def Let_def split_beta nth_append evict_expired_def)

lemma only_leaves_same: "sm_objects m1 = sm_objects m' \<Longrightarrow> only_leaves_waiting m m' \<Longrightarrow> only_leaves_waiting m m1"
  by (simp add: only_leaves_waiting_def)

lemma exchange_begin_steps: "only_leaves_waiting m (fst (exchange_begin ev now_ms a inp code state m))"
proof -
  have "only_leaves_waiting m (fail_session k t a (m\<lparr>sm_states := st\<rparr>))" for k t st
    by (rule only_leaves_objects [where m = "m\<lparr>sm_states := st\<rparr>"]) simp_all
  moreover have "only_leaves_waiting m ((set_status Exchanging a (m\<lparr>sm_states := st\<rparr>))\<lparr>sm_exchanges := xs\<rparr>)" for st xs
    by (rule only_leaves_same [where m' = "set_status Exchanging a m"]) (simp add: set_status_def update_session_def, simp)
  ultimately show ?thesis by (auto simp: exchange_begin_def refuse_def Let_def split: prod.split option.split)
qed

lemma session_complete_steps: "only_leaves_waiting m (fst (session_complete ev now_ms sid inp m))"
  by (auto simp: session_complete_def refuse_def Let_def exchange_begin_steps split: option.split)

lemma only_leaves_step: "only_leaves_waiting m (fst (session_step ev e m))"
proof (cases e)
  case (EvComplete now sid inp)
  then show ?thesis using session_complete_steps [of m ev now sid inp]
    by (auto simp: session_step_def split: prod.splits session_answer.splits option.splits)
next
  case (EvPolled i answer)
  let ?m = "m\<lparr>sm_polls := drop_at i (sm_polls m)\<rparr>"
  have "only_leaves_waiting ?m (fst (poll_settle ev a answer ?m))" for a
    by (auto simp: poll_settle_def Let_def split: sum.split poll_result.split option.split)
  then show ?thesis using only_leaves_objects [of m ?m] by (simp add: EvPolled session_step_def)
next
  case (EvExchanged i answer)
  let ?m = "m\<lparr>sm_exchanges := drop_at i (sm_exchanges m)\<rparr>"
  have "only_leaves_waiting ?m (fst (exchange_settle ev a answer ?m))" for a
    by (auto simp: exchange_settle_def Let_def split: sum.split)
  then show ?thesis using only_leaves_objects [of m ?m] by (simp add: EvExchanged session_step_def)
qed (auto simp: session_step_def session_start_def session_get_def session_cancel_def attach_account_id_def sessions_size_def
      session_poll_def evict_expired_def Let_def split_beta split: option.split sum.split)

lemma exchange_began:
  assumes wf: "jm_wf (sm_states m)" and begins: "exchange_begin ev now_ms a inp code state m = (m', AwaitsDriver b, Some x)"
  shows "b = a" "state = Some (ls_state (session_of m a))" "sm_objects m' = sm_objects (set_status Exchanging a m)"
    "\<exists>r c. jm_get (sm_states m) (ls_state (session_of m a)) = Some r \<and> os_provider_id r = ls_provider_id (session_of m a) \<and>
       now_ms < os_expires_at r \<and> code = Some c \<and> c \<noteq> [] \<and> x = exchange_input_of (session_of m a) inp r c (ls_state (session_of m a))"
    "jm_get (sm_states m') (ls_state (session_of m a)) = None"
proof -
  obtain states rec where c: "state_consume (ls_state (session_of m a)) (ls_provider_id (session_of m a)) now_ms (sm_states m) = (states, rec)"
    by fastforce
  obtain r where r: "rec = Some r" "b = a" "state = Some (ls_state (session_of m a))" "code \<noteq> None" "code \<noteq> Some []"
      "m' = (set_status Exchanging a (m\<lparr>sm_states := states\<rparr>))\<lparr>sm_exchanges := sm_exchanges m @ [a]\<rparr>"
      "x = exchange_input_of (session_of m a) inp r (the code) (ls_state (session_of m a))"
    using begins by (auto simp: exchange_begin_def refuse_def Let_def c split: if_splits option.splits)
  show "b = a" "state = Some (ls_state (session_of m a))" by (rule r)+
  show "sm_objects m' = sm_objects (set_status Exchanging a m)" by (simp add: r set_status_def update_session_def)
  have taken: "jm_get (sm_states m) (ls_state (session_of m a)) = Some r" "os_provider_id r = ls_provider_id (session_of m a)"
      "now_ms < os_expires_at r" "jm_get states (ls_state (session_of m a)) = None"
    using c r(1) wf by (auto simp: state_consume_def states_sweep_def Let_def jm_get_retain split: option.splits if_splits)
  then show "\<exists>r c. jm_get (sm_states m) (ls_state (session_of m a)) = Some r \<and> os_provider_id r = ls_provider_id (session_of m a) \<and>
       now_ms < os_expires_at r \<and> code = Some c \<and> c \<noteq> [] \<and> x = exchange_input_of (session_of m a) inp r c (ls_state (session_of m a))"
    using r by (cases code) auto
  show "jm_get (sm_states m') (ls_state (session_of m a)) = None" using taken by (simp add: r)
qed

lemma exchange_needs_own_state_aux:
  assumes "table_ok ev m" and "session_complete ev now_ms sid inp m = (m', AwaitsDriver a, Some x)"
  shows "jm_get (sm_sessions m) sid = Some a \<and> ls_status (session_of m a) = Waiting \<and> now_ms < ls_expires_at (session_of m a) \<and>
    ls_status (session_of m' a) = Exchanging \<and> ex_state x = ls_state (session_of m a) \<and> ex_code x \<noteq> [] \<and>
    (\<exists>r. jm_get (sm_states m) (ex_state x) = Some r \<and> os_provider_id r = ls_provider_id (session_of m a) \<and> now_ms < os_expires_at r \<and>
       ex_provider_id x = os_provider_id r \<and> ex_verifier x = first_given (cmp_verifier inp) (os_code_verifier r)) \<and>
    jm_get (sm_states m') (ex_state x) = None"
proof -
  obtain code state where begins: "exchange_begin ev now_ms a inp code state m = (m', AwaitsDriver a, Some x)"
    and table: "jm_get (sm_sessions m) sid = Some a" "ls_status (session_of m a) = Waiting" "now_ms < ls_expires_at (session_of m a)"
  proof -
    obtain b where b: "jm_get (sm_sessions m) sid = Some b" using assms(2) by (auto simp: session_complete_def split: option.splits)
    then obtain code state where e: "exchange_begin ev now_ms b inp code state m = (m', AwaitsDriver a, Some x)"
        "ls_status (session_of m b) = Waiting" "now_ms < ls_expires_at (session_of m b)"
      using assms(2) by (auto simp: session_complete_def refuse_def Let_def session_expired_def split: if_splits)
    have "a = b" using exchange_began(1) [OF _ e(1)] assms(1) by (simp add: table_ok_def)
    then show thesis using that b e by blast
  qed
  note began = exchange_began [OF _ begins]
  have wf: "jm_wf (sm_states m)" "a < length (sm_objects m)" using assms(1) table(1) by (auto simp: table_ok_def)
  then show ?thesis using began table
    by (auto simp: exchange_input_of_def first_given_def)
qed

lemma started_by_step:
  assumes "table_ok ev m" "session_step ev e m = (m', xs)"
  shows "xs = [] \<or> (\<exists>a x. xs = [(a, x)] \<and> a < length (sm_objects m) \<and> ls_status (session_of m a) = Waiting \<and> ls_status (session_of m' a) \<noteq> Waiting)"
proof (cases e)
  case (EvComplete now sid inp)
  show ?thesis
  proof (cases "xs = []")
    case False
    then obtain a x where s: "session_complete ev now sid inp m = (m', AwaitsDriver a, Some x)" "xs = [(a, x)]"
      using assms(2) EvComplete by (auto simp: session_step_def split: prod.splits session_answer.splits option.splits)
    from exchange_needs_own_state_aux [OF assms(1) s(1)] show ?thesis using s(2) assms(1) by (auto simp: table_ok_def)
  qed simp
qed (use assms(2) in \<open>auto simp: session_step_def split: if_splits\<close>)

lemma started_once:
  assumes "0 < sv_max_sessions ev" "table_ok ev m"
  shows "distinct (map fst (snd (session_run ev es m))) \<and>
    (\<forall>(a, x) \<in> set (snd (session_run ev es m)). a < length (sm_objects m) \<longrightarrow> ls_status (session_of m a) = Waiting)"
  using assms(2)
proof (induction es arbitrary: m)
  case (Cons e es)
  obtain m1 xs where step: "session_step ev e m = (m1, xs)" by fastforce
  obtain m2 ys where run: "session_run ev es m1 = (m2, ys)" by fastforce
  have "table_ok ev m1" using table_ok_step [OF Cons.prems assms(1), of e] step by simp
  then have ys: "distinct (map fst ys)" "\<And>a x. (a, x) \<in> set ys \<Longrightarrow> a < length (sm_objects m1) \<Longrightarrow> ls_status (session_of m1 a) = Waiting"
    using Cons.IH [of m1] run by auto
  have leaves: "only_leaves_waiting m m1" using only_leaves_step [of m ev e] step by simp
  have one: "xs = [] \<or> (\<exists>a x. xs = [(a, x)] \<and> a < length (sm_objects m) \<and> ls_status (session_of m a) = Waiting \<and> ls_status (session_of m1 a) \<noteq> Waiting)"
    by (rule started_by_step [OF Cons.prems step])
  have new: "fst q \<notin> set (map fst ys)" if "q \<in> set xs" for q
    using one leaves ys(2) that unfolding only_leaves_waiting_def by (fastforce dest: order.strict_trans2)
  have "distinct (map fst (xs @ ys))" using ys(1) one new by auto
  moreover have "ls_status (session_of m a) = Waiting" if "(a, x) \<in> set (xs @ ys)" "a < length (sm_objects m)" for a x
    using that one ys(2) leaves unfolding only_leaves_waiting_def by (fastforce dest: order.strict_trans2)
  moreover have "snd (session_run ev (e # es) m) = xs @ ys" by (simp add: step run)
  ultimately show ?case by (simp only: split_beta Ball_def) (metis prod.collapse)
qed simp

lemma session_run_append:
  "session_run ev (es @ fs) m =
    (let (m1, xs) = session_run ev es m; (m2, ys) = session_run ev fs m1 in (m2, xs @ ys))"
  by (induction es arbitrary: m) (simp_all add: split_beta Let_def)

text \<open>
  C33: Whatever calls and driver answers came before, in whatever order, a call that has a code exchanged finds
  its login under the id it names, waiting and not expired, and no code exchanged for it before. The state it hands
  on is the login's own, on record for the login's provider and not expired; the verifier is the request's, else the
  one on record. With the call the login is exchanging and the state used up, so that it exchanges no second
  code. The table keeps at least one login, as the constructor sees to (\<open>session_limits\<close>).
\<close>

theorem exchange_needs_own_state:
  assumes "0 < sv_max_sessions ev" and "session_run ev es no_sessions = (m, exchanges)"
    and "session_complete ev now_ms sid inp m = (m', AwaitsDriver a, Some x)"
  shows "jm_get (sm_sessions m) sid = Some a \<and> ls_status (session_of m a) = Waiting \<and> now_ms < ls_expires_at (session_of m a) \<and>
    a \<notin> fst ` set exchanges \<and>
    ls_status (session_of m' a) = Exchanging \<and> ex_state x = ls_state (session_of m a) \<and> ex_code x \<noteq> [] \<and>
    (\<exists>r. jm_get (sm_states m) (ex_state x) = Some r \<and> os_provider_id r = ls_provider_id (session_of m a) \<and> now_ms < os_expires_at r \<and>
       ex_provider_id x = os_provider_id r \<and> ex_verifier x = first_given (cmp_verifier inp) (os_code_verifier r)) \<and>
    jm_get (sm_states m') (ex_state x) = None"
proof -
  have ok: "table_ok ev m" using table_ok_run [OF assms(1), of es] assms(2) by simp
  have "table_ok ev no_sessions" using table_ok_run [OF assms(1), of "[]"] by simp
  note once = started_once [OF assms(1) this, of "es @ [EvComplete now_ms sid inp]"]
  have "snd (session_run ev (es @ [EvComplete now_ms sid inp]) no_sessions) = exchanges @ [(a, x)]"
    using assms(2,3) by (simp add: session_run_append session_step_def)
  with once have "a \<notin> fst ` set exchanges" by simp
  then show ?thesis using exchange_needs_own_state_aux [OF ok assms(3)] by blast
qed

text \<open>
  In every interleaving of calls and driver answers no login has its code exchanged twice.
\<close>

theorem login_exchanged_once:
  assumes "0 < sv_max_sessions ev"
  shows "distinct (map fst (snd (session_run ev es no_sessions)))"
  using started_once [OF assms, of no_sessions es] by (simp add: table_ok_def no_sessions_def)

subsection \<open>A login, and what overtakes it\<close>

definition sample_env :: session_env where
  "sample_env = \<lparr>sv_drivers = [(''codex'', \<lparr>dr_start = True, dr_poll = True, dr_exchange = True, dr_refresh = False\<rparr>)],
     sv_states = oauth_state_config_of None None, sv_ttl_ms = fst (session_limits None None), sv_max_sessions = snd (session_limits None None),
     sv_ellipsis = ''...'', sv_url_search = (\<lambda>_. None), sv_unescape = id\<rparr>"

definition sample_start :: session_event where
  "sample_start = EvStart 0 ''r'' ''v'' ''s1'' \<lparr>sti_provider_id = ''codex'', sti_name = ''me'', sti_redirect_uri = None\<rparr>
     (Inr \<lparr>sr_authorization_url = ''u'', sr_state = ''q'', sr_expires_at = 900000, sr_user_code = None, sr_verification_uri = None, sr_interval = None\<rparr>)"

definition sample_tokens :: token_set where
  "sample_tokens = \<lparr>ts_access = ''t'', ts_refresh = None, ts_expires_at = None, ts_scope = None, ts_account = None, ts_email = None,
     ts_org_id = None, ts_org_name = None\<rparr>"

definition callback_value :: "string \<Rightarrow> complete_input" where
  "callback_value v = \<lparr>cmp_code = None, cmp_state = None, cmp_error = None, cmp_verifier = None, cmp_redirect = None, cmp_value = Some v\<rparr>"

abbreviation sample_run :: "session_event list \<Rightarrow> session_manager" where
  "sample_run es \<equiv> fst (session_run sample_env (sample_start # es) no_sessions)"

text \<open>The login of the example, step by step.\<close>

lemma sample_completed:
  "map ls_status (sm_objects (sample_run [EvComplete 5 ''s1'' (callback_value ''?code=c&state=q''), EvExchanged 0 (Inr sample_tokens)])) = [Completed]"
  by code_simp

lemma sample_exchanges:
  "map fst (snd (session_run sample_env [sample_start, EvComplete 5 ''s1'' (callback_value ''?code=c&state=q''),
     EvComplete 6 ''s1'' (callback_value ''?code=c&state=q'')] no_sessions)) = [0]"
  by code_simp

theorem login_exchanged_once_witness:
  "length (snd (session_run sample_env [sample_start, EvComplete 5 ''s1'' (callback_value ''?code=c&state=q''),
     EvComplete 6 ''s1'' (callback_value ''?code=c&state=q'')] no_sessions)) = 1 \<and>
   distinct (map fst (snd (session_run sample_env [sample_start, EvComplete 5 ''s1'' (callback_value ''?code=c&state=q''),
     EvComplete 6 ''s1'' (callback_value ''?code=c&state=q'')] no_sessions)))"
proof -
  have "0 < sv_max_sessions sample_env" by (simp add: sample_env_def session_limits_def)
  from login_exchanged_once [OF this] show ?thesis using sample_exchanges by (metis length_map length_Cons list.size(3) One_nat_def)
qed

theorem login_sessions_bounded_witness: "length (sm_sessions (sample_run [])) = 1 \<and> table_ok sample_env (sample_run [])"
proof -
  have "0 < sv_max_sessions sample_env" by (simp add: sample_env_def session_limits_def)
  moreover have "length (sm_sessions (sample_run [])) = 1" by code_simp
  ultimately show ?thesis using login_sessions_bounded by blast
qed

lemma sample_table: "table_ok sample_env (sample_run [])"
  using table_ok_step [of sample_env no_sessions sample_start]
  by (simp add: table_ok_def no_sessions_def sample_env_def session_limits_def split_beta)

theorem exchange_needs_own_state_witness:
  "\<exists>m' x. session_complete sample_env 5 ''s1'' (callback_value ''?code=c&state=q'') (sample_run []) = (m', AwaitsDriver 0, Some x) \<and>
     ex_state x = ''q'' \<and> ls_status (session_of m' 0) = Exchanging"
proof -
  let ?c = "session_complete sample_env 5 ''s1'' (callback_value ''?code=c&state=q'') (sample_run [])"
  have facts: "fst (snd ?c) = AwaitsDriver 0" "snd (snd ?c) \<noteq> None" "ls_state (session_of (sample_run []) 0) = ''q''" by code_simp+
  then obtain m' x where c: "?c = (m', AwaitsDriver 0, Some x)" by (metis option.exhaust prod.collapse)
  have run: "session_run sample_env [sample_start] no_sessions = (sample_run [], snd (session_run sample_env [sample_start] no_sessions))" by simp
  have "0 < sv_max_sessions sample_env" by code_simp
  from exchange_needs_own_state [OF this run c] have "ex_state x = ''q''" "ls_status (session_of m' 0) = Exchanging"
    unfolding facts(3) by blast+
  then show ?thesis using c by blast
qed

text \<open>A login cancelled while the driver is asked is completed by the driver's answer.\<close>

lemma cancelled_login_completes:
  "map ls_status (sm_objects (sample_run [EvPoll 1 ''s1'', EvCancel ''s1''])) = [Cancelled]"
  "map ls_status (sm_objects (sample_run [EvPoll 1 ''s1'', EvCancel ''s1'', EvPolled 0 (Inr (PollTokens (Some sample_tokens)))])) = [Completed]"
  by code_simp+

text \<open>\<open>cancel\<close> answers true for a login that is being exchanged and changes nothing: it completes.\<close>

lemma cancel_during_exchange_is_lost:
  "snd (session_cancel ''s1'' (sample_run [EvComplete 5 ''s1'' (callback_value ''?code=c&state=q'')])) = True"
  "map ls_status (sm_objects (sample_run [EvComplete 5 ''s1'' (callback_value ''?code=c&state=q''), EvCancel ''s1'', EvExchanged 0 (Inr sample_tokens)])) = [Completed]"
  by code_simp+

text \<open>A login that failed on a forged callback is completed by a poll that was under way.\<close>

lemma failed_login_completes:
  "map ls_status (sm_objects (sample_run [EvPoll 1 ''s1'', EvComplete 2 ''s1'' (callback_value ''?code=c&state=z'')])) = [LoginFailed]"
  "map ls_status (sm_objects (sample_run [EvPoll 1 ''s1'', EvComplete 2 ''s1'' (callback_value ''?code=c&state=z''),
     EvPolled 0 (Inr (PollTokens (Some sample_tokens)))])) = [Completed]"
  by code_simp+

text \<open>A completed login reads as expired once its time is over, and no account can be attached any more.\<close>

lemma completed_login_expires:
  "map ls_status (sm_objects (sample_run [EvComplete 5 ''s1'' (callback_value ''?code=c&state=q''), EvExchanged 0 (Inr sample_tokens),
     EvGet 900000 ''s1''])) = [Expired]"
  by code_simp

text \<open>A login lasts 15 minutes and its state 10: after 11 minutes the login still waits, but its callback is refused.\<close>

lemma state_expires_before_login:
  "map ls_status (sm_objects (sample_run [EvGet 660000 ''s1''])) = [Waiting]"
  "map ls_error (sm_objects (sample_run [EvComplete 660000 ''s1'' (callback_value ''?code=c&state=q'')])) =
     [Some (StateMismatch, ''OAuth authorization state is invalid, expired, or already used.'')]"
  by code_simp+

end
