(* ===== verification/InputSanitizers.thy ===== *)
theory InputSanitizers imports ConsoleState Admission JsJson begin

text \<open>
  The console's parsers of request bodies (\<open>src/console/input-sanitizers.ts\<close>). A value that may be absent is
  an \<open>option\<close>; a patch is the object of the fields that were accepted, in the order they are assigned.
\<close>

subsection \<open>Single values\<close>

definition string_or_undefined :: "json option \<Rightarrow> string option" where
  "string_or_undefined v = (case v of Some (JStr s) \<Rightarrow> Some s | _ \<Rightarrow> None)"

definition key_char :: "char \<Rightarrow> bool" where
  "key_char c \<longleftrightarrow> is_word_char c \<or> c = CHR ''-''"

definition is_valid_custom_api_key :: "string \<Rightarrow> bool" where
  "is_valid_custom_api_key v \<longleftrightarrow> 8 \<le> length v \<and> length v \<le> 256 \<and> list_all key_char v"

text \<open>\<open>null\<close> is kept apart from an absent value: \<open>Some JNull\<close> and \<open>None\<close>.\<close>

definition nullable_string :: "json option \<Rightarrow> json option" where
  "nullable_string v = (case v of Some JNull \<Rightarrow> Some JNull | Some (JStr s) \<Rightarrow> Some (JStr s) | _ \<Rightarrow> None)"

definition number_or_undefined :: "json option \<Rightarrow> rat option" where
  "number_or_undefined v = (case v of Some (JNum n) \<Rightarrow> js_finite n | _ \<Rightarrow> None)"

definition bounded_number :: "json option \<Rightarrow> int \<Rightarrow> int \<Rightarrow> int option" where
  "bounded_number v lo hi = map_option (\<lambda>q. max lo (min hi (js_round q))) (number_or_undefined v)"

definition boolean_or_undefined :: "json option \<Rightarrow> bool option" where
  "boolean_or_undefined v = (case v of Some (JBool b) \<Rightarrow> Some b | _ \<Rightarrow> None)"

definition only_strings :: "json list \<Rightarrow> string list" where
  "only_strings vs = List.map_filter (\<lambda>v. string_or_undefined (Some v)) vs"

definition record_or_undefined :: "json option \<Rightarrow> (string \<times> string) list option" where
  "record_or_undefined v = (case v of
      Some (JObj fs) \<Rightarrow> Some (List.map_filter (\<lambda>(k, x). map_option (Pair k) (string_or_undefined (Some x))) fs)
    | _ \<Rightarrow> None)"

definition string_list_or_undefined :: "json option \<Rightarrow> string list option" where
  "string_list_or_undefined v = (case v of Some (JArr vs) \<Rightarrow> Some (only_strings vs) | _ \<Rightarrow> None)"

definition one_of_texts :: "string list \<Rightarrow> json option \<Rightarrow> string option" where
  "one_of_texts names v = (case string_or_undefined v of Some s \<Rightarrow> if s \<in> set names then Some s else None | None \<Rightarrow> None)"

definition credential_kind_of :: "json option \<Rightarrow> string" where
  "credential_kind_of v = (case one_of_texts [''oauth'', ''manual'', ''api_key''] v of Some s \<Rightarrow> s | None \<Rightarrow> ''api_key'')"

definition custom_provider_kind :: "json option \<Rightarrow> string" where
  "custom_provider_kind v = (case one_of_texts [''anthropic'', ''openai-compatible''] v of Some s \<Rightarrow> s | None \<Rightarrow> ''openai'')"

definition proxy_protocol_of :: "json option \<Rightarrow> string option" where
  "proxy_protocol_of v = one_of_texts [''http'', ''https'', ''socks5''] v"

definition default_proxy_port :: "string \<Rightarrow> nat" where
  "default_proxy_port p = (if p = ''https'' then 443 else if p = ''http'' then 80 else 1080)"

definition drop_last_dot :: "string \<Rightarrow> string" where
  "drop_last_dot s = (if s \<noteq> [] \<and> last s = CHR ''.'' then butlast s else s)"

definition is_proxy_relay_host :: "string \<Rightarrow> bool" where
  "is_proxy_relay_host host =
    (let h = drop_last_dot (to_lower (trim host)) in suffix ''.vercel.app'' h \<or> suffix ''.workers.dev'' h)"

definition nullable_limit :: "json option \<Rightarrow> json option" where
  "nullable_limit v = (case v of
      Some JNull \<Rightarrow> Some JNull
    | Some (JNum (Num q)) \<Rightarrow> if 0 < q then Some (JNum (Num (of_int \<lfloor>q\<rfloor>))) else None
    | _ \<Rightarrow> None)"

definition limit_or_undefined :: "json option \<Rightarrow> json option" where
  "limit_or_undefined v = (case nullable_limit v of Some JNull \<Rightarrow> None | r \<Rightarrow> r)"

definition nullable_string_list :: "json option \<Rightarrow> json option" where
  "nullable_string_list v = (case v of Some JNull \<Rightarrow> Some JNull | Some (JArr vs) \<Rightarrow> Some (JArr (map JStr (only_strings vs))) | _ \<Rightarrow> None)"

definition nullable_text :: "json option \<Rightarrow> json option" where
  "nullable_text v = nullable_string v"

subsection \<open>Patches\<close>

type_synonym patch = "(string \<times> json) list"

text \<open>A field is assigned when its reader accepts the value.\<close>

type_synonym field_reader = "string \<times> (json option \<Rightarrow> json option)"

definition read_patch :: "field_reader list \<Rightarrow> (string \<times> json) list \<Rightarrow> patch" where
  "read_patch rs fs = List.map_filter (\<lambda>(k, read). map_option (Pair k) (read (js_field fs k))) rs"

definition choice_of :: "string list \<Rightarrow> json option \<Rightarrow> json option" where
  "choice_of names v = map_option JStr (one_of_texts names v)"

definition floor_at_least :: "int \<Rightarrow> json option \<Rightarrow> json option" where
  "floor_at_least lo v = map_option (\<lambda>q. JNum (Num (of_int (max lo \<lfloor>q\<rfloor>)))) (number_or_undefined v)"

definition flag_of :: "json option \<Rightarrow> json option" where
  "flag_of v = map_option JBool (boolean_or_undefined v)"

definition runtime_readers :: "field_reader list" where
  "runtime_readers =
    [(''proxyAuthMode'', choice_of [''open'', ''api_key'']), (''privacyMode'', choice_of [''masked'', ''full'']),
     (''trackPayloads'', choice_of [''none'', ''meta'']), (''trackAssets'', choice_of [''none'', ''meta'', ''store'']),
     (''logRetentionDays'', floor_at_least 0), (''assetRetentionDays'', floor_at_least 0),
     (''maxFlightsPerIp'', floor_at_least 1), (''sessionTtlHours'', floor_at_least 1),
     (''trustProxy'', flag_of), (''cacheMarkersEnabled'', flag_of), (''sidebarIconDataUrl'', nullable_string),
     (''tokenSaverEnabled'', flag_of), (''tokenSaverQuality'', choice_of [''lite'', ''balanced'', ''extreme'']),
     (''filterRulesEnabled'', flag_of)]"

definition sanitize_runtime_patch :: "(string \<times> json) list \<Rightarrow> patch" where
  "sanitize_runtime_patch fs = read_patch runtime_readers fs"

definition preferred_proxy :: "json option \<Rightarrow> json option" where
  "preferred_proxy v = (case v of
      Some (JStr s) \<Rightarrow> Some (if trim s = [] then JNull else JStr (trim s))
    | Some JNull \<Rightarrow> Some JNull
    | _ \<Rightarrow> None)"

definition routing_readers :: "field_reader list" where
  "routing_readers = [(''strategy'', choice_of [''priority'', ''round-robin'']), (''stickyLimit'', floor_at_least 0),
     (''useStickyLimit'', flag_of), (''preferredProxyId'', preferred_proxy)]"

text \<open>An array is an object without these fields.\<close>

definition sanitize_provider_routing_patch :: "json option \<Rightarrow> patch" where
  "sanitize_provider_routing_patch v = (case v of Some (JObj fs) \<Rightarrow> read_patch routing_readers fs | _ \<Rightarrow> [])"

definition custom_key :: "json option \<Rightarrow> json option" where
  "custom_key v = (case string_or_undefined v of Some s \<Rightarrow> if is_valid_custom_api_key s then Some (JStr s) else None | None \<Rightarrow> None)"

definition key_readers :: "field_reader list" where
  "key_readers =
    [(''key'', custom_key), (''rateLimitRpm'', nullable_limit), (''dailyTokenLimit'', nullable_limit),
     (''monthlyTokenLimit'', nullable_limit), (''oneTimeTokenLimit'', nullable_limit), (''maxConcurrentRequests'', nullable_limit),
     (''providerAllowlist'', nullable_string_list), (''modelAllowlist'', nullable_string_list), (''modelDenylist'', nullable_string_list),
     (''quoteBigText'', nullable_text), (''quoteSubText'', nullable_text), (''quoteBody'', nullable_text), (''active'', flag_of)]"

definition sanitize_key_update :: "(string \<times> json) list \<Rightarrow> patch" where
  "sanitize_key_update fs = read_patch key_readers fs"

subsection \<open>What a patch is\<close>

lemma map_filter_fst:
  "(k, v) \<in> set (read_patch rs fs) \<longleftrightarrow> (\<exists>read. (k, read) \<in> set rs \<and> read (js_field fs k) = Some v)"
  by (force simp: read_patch_def List.map_filter_def image_iff)

lemma read_patch_field:
  assumes "distinct (map fst rs)"
  shows "js_field (read_patch rs fs) k = (case map_of rs k of None \<Rightarrow> None | Some read \<Rightarrow> read (js_field fs k))"
  using assms
proof (induction rs)
  case (Cons r rs)
  obtain j read where r: "r = (j, read)" by fastforce
  have absent: "map_of rs j = None" using Cons.prems r by (simp add: map_of_eq_None_iff)
  show ?case
    using Cons absent r
    by (auto simp: read_patch_def map_filter_simps js_field_def jm_get_def split: option.splits)
qed (simp add: read_patch_def js_field_def map_filter_simps)

text \<open>A reader that accepts its own results makes the patch a fixed point.\<close>

definition settled :: "(json option \<Rightarrow> json option) \<Rightarrow> bool" where
  "settled read \<longleftrightarrow> read None = None \<and> (\<forall>v w. read v = Some w \<longrightarrow> read (Some w) = Some w)"

lemma read_patch_cong:
  "(\<And>k read. (k, read) \<in> set rs \<Longrightarrow> read (js_field fs k) = read (js_field gs k)) \<Longrightarrow> read_patch rs fs = read_patch rs gs"
proof (induction rs)
  case (Cons r rs)
  obtain k read where r: "r = (k, read)" by fastforce
  have "read (js_field fs k) = read (js_field gs k)" using Cons.prems [of k read] r by simp
  moreover have "read_patch rs fs = read_patch rs gs" using Cons.IH Cons.prems by simp
  ultimately show ?case by (cases "read (js_field gs k)") (simp_all add: read_patch_def map_filter_simps r)
qed (simp add: read_patch_def)

lemma read_patch_nothing: "(\<And>k read. (k, read) \<in> set rs \<Longrightarrow> settled read) \<Longrightarrow> read_patch rs [] = []"
proof (induction rs)
  case (Cons r rs)
  obtain k read where r: "r = (k, read)" by fastforce
  have "read None = None" using Cons.prems [of k read] r by (simp add: settled_def)
  moreover have "read_patch rs [] = []" using Cons.IH Cons.prems by (meson list.set_intros(2))
  ultimately show ?case by (simp add: read_patch_def map_filter_simps js_field_def r)
qed (simp add: read_patch_def)

lemma read_patch_idem:
  assumes "distinct (map fst rs)" and "\<And>k read. (k, read) \<in> set rs \<Longrightarrow> settled read"
  shows "read_patch rs (read_patch rs fs) = read_patch rs fs"
proof (rule read_patch_cong)
  fix k read
  assume "(k, read) \<in> set rs"
  then have "map_of rs k = Some read" "settled read" using assms by (auto simp: map_of_eq_Some_iff)
  then show "read (js_field (read_patch rs fs) k) = read (js_field fs k)"
    using read_patch_field [OF assms(1), of fs k] by (cases "read (js_field fs k)") (auto simp: settled_def)
qed

lemma trim_trim: "trim (trim s) = trim s"
proof -
  let ?a = "dropWhile is_space s"
  let ?b = "rev (dropWhile is_space (rev ?a))"
  obtain zs where zs: "?a = ?b @ zs"
    using suffix_dropWhile [of is_space "rev ?a"] by (metis prefix_def rev_rev_ident suffix_to_prefix)
  have "dropWhile is_space ?b = ?b"
  proof (cases ?b)
    case (Cons c t)
    then have "?a = c # t @ zs" using zs by simp
    then have "\<not> is_space c" by (metis dropWhile_eq_Cons_conv)
    then show ?thesis using Cons by simp
  next
    case Nil
    show ?thesis unfolding Nil by simp
  qed
  then show ?thesis by (simp add: trim_def)
qed

lemma settled_readers:
  "settled (choice_of names)" "settled (floor_at_least lo)" "settled flag_of" "settled nullable_string" "settled nullable_text"
  "settled preferred_proxy" "settled custom_key" "settled nullable_string_list"
proof -
  show "settled (choice_of names)"
    by (auto simp: settled_def choice_of_def one_of_texts_def string_or_undefined_def split: option.splits json.splits if_splits)
  show "settled (floor_at_least lo)"
    by (auto simp: settled_def floor_at_least_def number_or_undefined_def split: option.splits json.splits)
  show "settled flag_of"
    by (auto simp: settled_def flag_of_def boolean_or_undefined_def split: option.splits json.splits)
  show "settled nullable_string" by (auto simp: settled_def nullable_string_def split: option.splits json.splits)
  then show "settled nullable_text" by (simp add: settled_def nullable_text_def)
  have "trim (trim t) = trim t" for t by (rule trim_trim)
  then show "settled preferred_proxy" by (auto simp: settled_def preferred_proxy_def split: option.splits json.splits if_splits)
  show "settled custom_key" by (auto simp: settled_def custom_key_def string_or_undefined_def split: option.splits json.splits if_splits)
  have "only_strings (map JStr ss) = ss" for ss
    by (induction ss) (simp_all add: only_strings_def string_or_undefined_def map_filter_simps)
  then show "settled nullable_string_list" by (auto simp: settled_def nullable_string_list_def split: option.splits json.splits)
qed

text \<open>
  What the settings and routing sanitizers accept they accept unchanged: sanitizing a patch twice is
  sanitizing it once, whatever the body.
\<close>

theorem sanitized_patches_stable:
  "sanitize_runtime_patch (sanitize_runtime_patch fs) = sanitize_runtime_patch fs \<and>
   sanitize_provider_routing_patch (Some (JObj (sanitize_provider_routing_patch v))) = sanitize_provider_routing_patch v"
proof -
  have "sanitize_runtime_patch (sanitize_runtime_patch fs) = sanitize_runtime_patch fs"
    unfolding sanitize_runtime_patch_def
    by (rule read_patch_idem) (auto simp: runtime_readers_def settled_readers)
  moreover have "read_patch routing_readers (read_patch routing_readers gs) = read_patch routing_readers gs" for gs
    by (rule read_patch_idem) (auto simp: routing_readers_def settled_readers)
  moreover have "read_patch routing_readers [] = []"
    by (rule read_patch_nothing) (auto simp: routing_readers_def settled_readers)
  ultimately show ?thesis by (simp add: sanitize_provider_routing_patch_def split: option.split json.split)
qed

text \<open>The values a setting may have.\<close>

definition setting_ok :: "string \<Rightarrow> json \<Rightarrow> bool" where
  "setting_ok k v \<longleftrightarrow>
    (k = ''proxyAuthMode'' \<and> v \<in> {JStr ''open'', JStr ''api_key''}) \<or>
    (k = ''privacyMode'' \<and> v \<in> {JStr ''masked'', JStr ''full''}) \<or>
    (k = ''trackPayloads'' \<and> v \<in> {JStr ''none'', JStr ''meta''}) \<or>
    (k = ''trackAssets'' \<and> v \<in> {JStr ''none'', JStr ''meta'', JStr ''store''}) \<or>
    (k \<in> {''logRetentionDays'', ''assetRetentionDays''} \<and> (\<exists>n \<ge> 0. v = JNum (Num (of_int n)))) \<or>
    (k \<in> {''maxFlightsPerIp'', ''sessionTtlHours''} \<and> (\<exists>n \<ge> 1. v = JNum (Num (of_int n)))) \<or>
    (k \<in> {''trustProxy'', ''cacheMarkersEnabled'', ''tokenSaverEnabled'', ''filterRulesEnabled''} \<and> v \<in> range JBool) \<or>
    (k = ''sidebarIconDataUrl'' \<and> v \<in> insert JNull (range JStr)) \<or>
    (k = ''tokenSaverQuality'' \<and> v \<in> {JStr ''lite'', JStr ''balanced'', JStr ''extreme''})"

lemma choice_of_Some: "choice_of names v = Some w \<Longrightarrow> w \<in> JStr ` set names"
  by (auto simp: choice_of_def one_of_texts_def split: option.splits if_splits)

lemma floor_at_least_Some: "floor_at_least lo v = Some w \<Longrightarrow> \<exists>n \<ge> lo. w = JNum (Num (of_int n))"
  unfolding floor_at_least_def by (metis (no_types, lifting) map_option_eq_Some max.cobounded1)

lemma flag_of_Some: "flag_of v = Some w \<Longrightarrow> w \<in> range JBool"
  by (auto simp: flag_of_def)

lemma nullable_string_Some: "nullable_string v = Some w \<Longrightarrow> w \<in> insert JNull (range JStr)"
  by (auto simp: nullable_string_def split: option.splits json.splits)

lemma setting_ok_choice:
  "choice_of [''open'', ''api_key''] v = Some w \<Longrightarrow> setting_ok ''proxyAuthMode'' w"
  "choice_of [''masked'', ''full''] v = Some w \<Longrightarrow> setting_ok ''privacyMode'' w"
  "choice_of [''none'', ''meta''] v = Some w \<Longrightarrow> setting_ok ''trackPayloads'' w"
  "choice_of [''none'', ''meta'', ''store''] v = Some w \<Longrightarrow> setting_ok ''trackAssets'' w"
  "choice_of [''lite'', ''balanced'', ''extreme''] v = Some w \<Longrightarrow> setting_ok ''tokenSaverQuality'' w"
  by (drule choice_of_Some, simp add: setting_ok_def image_iff)+

lemma setting_ok_number:
  "floor_at_least 0 v = Some w \<Longrightarrow> k \<in> {''logRetentionDays'', ''assetRetentionDays''} \<Longrightarrow> setting_ok k w"
  "floor_at_least 1 v = Some w \<Longrightarrow> k \<in> {''maxFlightsPerIp'', ''sessionTtlHours''} \<Longrightarrow> setting_ok k w"
  by (drule floor_at_least_Some, elim insertE emptyE, simp add: setting_ok_def, simp add: setting_ok_def)+

lemma setting_ok_flag:
  "flag_of v = Some w \<Longrightarrow> k \<in> {''trustProxy'', ''cacheMarkersEnabled'', ''tokenSaverEnabled'', ''filterRulesEnabled''} \<Longrightarrow> setting_ok k w"
  by (drule flag_of_Some, elim insertE emptyE, simp_all add: setting_ok_def)

lemma setting_ok_icon: "nullable_string v = Some w \<Longrightarrow> setting_ok ''sidebarIconDataUrl'' w"
  by (drule nullable_string_Some, simp add: setting_ok_def)

lemma runtime_readers_ok: "list_all (\<lambda>(k, read). \<forall>v w. read v = Some w \<longrightarrow> setting_ok k w) runtime_readers"
  by (simp add: runtime_readers_def setting_ok_choice setting_ok_number setting_ok_flag setting_ok_icon)

text \<open>
  Whatever a console client sends, the settings patch has known settings only, each with a value of its type and
  within its bounds.
\<close>

theorem runtime_patch_typed:
  assumes "(k, v) \<in> set (sanitize_runtime_patch fs)"
  shows "setting_ok k v"
  using assms runtime_readers_ok by (fastforce simp: sanitize_runtime_patch_def map_filter_fst list_all_iff)

theorem runtime_patch_typed_witness:
  "sanitize_runtime_patch [(''logRetentionDays'', JNum (Num (7 / 2))), (''trustProxy'', JStr ''yes'')] = [(''logRetentionDays'', JNum (Num 3))] \<and>
   setting_ok ''logRetentionDays'' (JNum (Num 3))"
proof -
  have "sanitize_runtime_patch [(''logRetentionDays'', JNum (Num (7 / 2))), (''trustProxy'', JStr ''yes'')] =
      [(''logRetentionDays'', JNum (Num 3))]" by code_simp
  then show ?thesis using runtime_patch_typed [of "''logRetentionDays''" "JNum (Num 3)" "[(''logRetentionDays'', JNum (Num (7 / 2))), (''trustProxy'', JStr ''yes'')]"]
    by simp
qed

subsection \<open>Two inputs read as something else\<close>

text \<open>A limit below one is rounded down to zero, which locks the key out instead of being refused.\<close>

lemma fractional_limit_locks_out:
  assumes "0 < q" "q < 1"
  shows "nullable_limit (Some (JNum (Num q))) = Some (JNum (Num 0))"
    and "ak_rate_limit_rpm key = None \<Longrightarrow> ak_max_concurrent key = Some 0 \<Longrightarrow>
      snd (admission_acquire cap key estimate now_ms s) = Inl ConcurrencyLimit"
  using assms by (auto simp: nullable_limit_def floor_eq_iff admission_acquire_def bounded_limit_def Let_def count_of_def split: option.splits)

text \<open>A list of anything but strings is read as the empty list, and an empty allowlist allows every provider.\<close>

lemma non_string_allowlist_allows_all:
  "nullable_string_list (Some (JArr [JNum (Num 1)])) = Some (JArr [])"
  "is_route_allowed p mo \<lparr>acl_providers = Some [], acl_models = None, acl_denied = None\<rparr> None"
  by (simp_all add: nullable_string_list_def only_strings_def string_or_undefined_def map_filter_simps is_route_allowed_iff)

end
