(* ===== verification/OAuthRefresh.thy ===== *)
theory OAuthRefresh imports OAuthSessions OAuthCoordinator NetGuard Surfaces begin

text \<open>
  How an access token is renewed (\<open>src/auth/oauth-refresher.ts\<close>): by the provider's driver, or by the
  token endpoint that the environment configures. The outcome is what \<open>OAuthCoordinator\<close> waits for. The
  environment, \<open>new URL\<close>, the DNS lookup, the fetch, \<open>Date.parse\<close> and the UTF-8 decoder are arguments.
\<close>

definition OAUTH_RESPONSE_MAX_BYTES :: nat where "OAUTH_RESPONSE_MAX_BYTES = 64 * 1024"
definition OAUTH_ACCESS_TOKEN_MAX_LENGTH :: nat where "OAUTH_ACCESS_TOKEN_MAX_LENGTH = 32384"
definition OAUTH_MAX_EXPIRES_IN_SECONDS :: rat where "OAUTH_MAX_EXPIRES_IN_SECONDS = 10 * 365 * 24 * 60 * 60"
definition OAUTH_MAX_ERROR_MESSAGE_LENGTH :: nat where "OAUTH_MAX_ERROR_MESSAGE_LENGTH = 240"

subsection \<open>The token endpoint's answer\<close>

record token_response =
  tr_status :: int
  tr_content_length :: js_num
  tr_body :: "(nat \<Rightarrow> body_chunk) option"

text \<open>
  The body as JSON, \<open>Some None\<close> for \<open>null\<close>; \<open>None\<close> when the reading never ends. The chunks are read as in
  \<open>Surfaces\<close>, without an expected length.
\<close>

definition read_response_body :: "(string \<Rightarrow> string) \<Rightarrow> nat \<Rightarrow> token_response \<Rightarrow> json option option" where
  "read_response_body decode max_bytes r =
    (if (case tr_content_length r of Num q \<Rightarrow> of_nat max_bytes < q | _ \<Rightarrow> False) then Some None
     else case tr_body r of
       None \<Rightarrow> Some None
     | Some src \<Rightarrow> map_option (\<lambda>x. case x of Inl failed \<Rightarrow> None | Inr bytes \<Rightarrow> json_parse (decode bytes))
         (read_chunks src max_bytes None 0 []))"

record token_fields =
  tf_access :: string
  tf_expires_at :: "int option"
  tf_refresh :: "string option"

definition parse_token_body :: "json option \<Rightarrow> int \<Rightarrow> token_fields option" where
  "parse_token_body body now_ms = (case body of
      Some (JObj fs) \<Rightarrow>
        (case js_field fs ''access_token'' of
           Some (JStr t) \<Rightarrow>
             if t = [] \<or> OAUTH_ACCESS_TOKEN_MAX_LENGTH < length t then None
             else Some \<lparr>tf_access = t,
               tf_expires_at = (case js_field fs ''expires_in'' of
                   Some (JNum (Num q)) \<Rightarrow> Some (now_ms + \<lfloor>min (max 0 q) OAUTH_MAX_EXPIRES_IN_SECONDS * 1000\<rfloor>)
                 | _ \<Rightarrow> None),
               tf_refresh = (case js_field fs ''refresh_token'' of Some (JStr s) \<Rightarrow> if s \<noteq> [] then Some s else None | _ \<Rightarrow> None)\<rparr>
         | _ \<Rightarrow> None)
    | _ \<Rightarrow> None)"

definition refresh_failure :: "int \<Rightarrow> error_kind \<Rightarrow> bool \<Rightarrow> string \<Rightarrow> refresh_outcome" where
  "refresh_failure status k retryable msg = RefreshFailed (make_provider_error k msg
     (no_options\<lparr>eo_retryable := Some retryable, eo_route_scope := Some ScAccount, eo_status_code := Some status\<rparr>))"

subsection \<open>The endpoint of the environment\<close>

text \<open>
  \<open>toUpperCase\<close> and then \<open>_\<close> for what is no capital letter or digit; the sharp s becomes \<open>SS\<close>, and no
  other letter outside ASCII becomes one of \<open>A-Z\<close>.
\<close>

definition env_suffix :: "string \<Rightarrow> string" where
  "env_suffix p = concat (map (\<lambda>c. let k = char_code c in
      if 97 \<le> k \<and> k \<le> 122 then [char_of (k - 32)]
      else if 65 \<le> k \<and> k \<le> 90 \<or> 48 \<le> k \<and> k \<le> 57 then [c]
      else if k = 223 then ''SS'' else ''_'') p)"

record token_request =
  tq_url :: string
  tq_refresh_token :: string
  tq_client_id :: string
  tq_client_secret :: string

record refresh_env =
  rv_vars :: "string \<Rightarrow> string option"
  rv_parse_url :: "string \<Rightarrow> url option"
  rv_lookup :: "string \<Rightarrow> string list"
  rv_fetch :: "token_request \<Rightarrow> token_response option"   \<comment> \<open>\<open>None\<close> when it throws\<close>
  rv_decode :: "string \<Rightarrow> string"
  rv_max_bytes :: nat
  rv_date_parse :: "string \<Rightarrow> int option"
  rv_ellipsis :: string

definition nonempty_var :: "refresh_env \<Rightarrow> string \<Rightarrow> string option" where
  "nonempty_var ev name = (case rv_vars ev name of Some v \<Rightarrow> if v = [] then None else Some v | None \<Rightarrow> None)"

definition token_request_of :: "refresh_env \<Rightarrow> string \<Rightarrow> string \<Rightarrow> token_request option" where
  "token_request_of ev provider_id refresh_token =
    (let var = (\<lambda>name. nonempty_var ev (''wokroute_OAUTH_'' @ env_suffix provider_id @ name)) in
     case (var ''_TOKEN_URL'', var ''_CLIENT_ID'', var ''_CLIENT_SECRET'') of
       (Some u, Some i, Some s) \<Rightarrow> Some \<lparr>tq_url = u, tq_refresh_token = refresh_token, tq_client_id = i, tq_client_secret = s\<rparr>
     | _ \<Rightarrow> None)"

definition token_answer :: "refresh_env \<Rightarrow> int \<Rightarrow> string \<Rightarrow> token_response option \<Rightarrow> refresh_outcome option" where
  "token_answer ev now_ms refresh_token answer = (case answer of
      None \<Rightarrow> Some (refresh_failure 503 NetworkUnavailable True ''OAuth token refresh network request failed'')
    | Some r \<Rightarrow>
        if 300 \<le> tr_status r \<and> tr_status r < 400
        then Some (refresh_failure (tr_status r) ProviderUnavailable True ''OAuth token endpoint returned an unexpected redirect'')
        else if \<not> (200 \<le> tr_status r \<and> tr_status r < 300)
        then Some (refresh_failure (if tr_status r = 0 then 503 else tr_status r)
               (if tr_status r = 401 then AuthenticationFailed else ProviderUnavailable) (tr_status r \<noteq> 401) ''OAuth token refresh failed'')
        else map_option (\<lambda>body.
          case parse_token_body body now_ms of
            None \<Rightarrow> refresh_failure 502 ProviderProtocolError False ''OAuth token response was invalid''
          | Some f \<Rightarrow> RefreshOk \<lparr>ot_access_token = tf_access f, ot_expires_at = tf_expires_at f,
              ot_refresh_token = (case tf_refresh f of Some s \<Rightarrow> Some s | None \<Rightarrow> Some refresh_token)\<rparr>)
          (read_response_body (rv_decode ev) (rv_max_bytes ev) r))"

definition env_oauth_refresh :: "refresh_env \<Rightarrow> int \<Rightarrow> string option \<Rightarrow> oauth_token option \<Rightarrow> refresh_outcome option" where
  "env_oauth_refresh ev now_ms provider token = (case (provider, Option.bind token ot_refresh_token) of
      (Some p, Some refresh_token) \<Rightarrow>
        (case token_request_of ev p refresh_token of
           None \<Rightarrow> Some (refresh_failure 503 CredentialUnavailable True ''OAuth refresh configuration is unavailable'')
         | Some q \<Rightarrow>
             (case assert_public_url_at_dispatch (rv_parse_url ev) (rv_lookup ev) (Some [''https:'']) (tq_url q) of
                Inl e \<Rightarrow> Some (refresh_failure 503 CredentialUnavailable False ''OAuth refresh configuration is invalid'')
              | Inr u \<Rightarrow> token_answer ev now_ms refresh_token (rv_fetch ev q)))
    | _ \<Rightarrow> Some (refresh_failure 503 CredentialUnavailable True ''OAuth refresh token is unavailable''))"

subsection \<open>The driver of the provider\<close>

definition token_record_from_token_set :: "refresh_env \<Rightarrow> token_set \<Rightarrow> string option \<Rightarrow> driver_failure + oauth_token" where
  "token_record_from_token_set ev t previous =
    (if ts_access t = [] \<or> OAUTH_ACCESS_TOKEN_MAX_LENGTH < length (ts_access t)
     then Inl (DriverError ''OAuth driver returned an unusable access token.'' 502 False)
     else Inr \<lparr>ot_access_token = ts_access t,
       ot_expires_at = (case ts_expires_at t of Some e \<Rightarrow> if 0 < length e then rv_date_parse ev e else None | None \<Rightarrow> None),
       ot_refresh_token = (case ts_refresh t of Some s \<Rightarrow> Some s | None \<Rightarrow> previous)\<rparr>)"

definition driver_refresh_failure :: "refresh_env \<Rightarrow> driver_failure \<Rightarrow> refresh_outcome" where
  "driver_refresh_failure ev e = (case e of
      DriverError msg status retryable \<Rightarrow>
        (let raw = (if OAUTH_MAX_ERROR_MESSAGE_LENGTH < length msg then take OAUTH_MAX_ERROR_MESSAGE_LENGTH msg @ rv_ellipsis ev else msg)
         in if status = 401 \<or> status = 403 then refresh_failure status AuthenticationFailed False raw
            else if status = 429 then refresh_failure status ProviderUnavailable True raw
            else if 500 \<le> status then refresh_failure status ProviderUnavailable retryable raw
            else refresh_failure (if 400 \<le> status \<and> status < 500 then status else 502) ProviderProtocolError retryable raw)
    | OtherThrow \<Rightarrow> refresh_failure 503 ProviderUnavailable True ''OAuth token refresh failed'')"

text \<open>\<open>answer\<close> is what the driver makes of the refresh token; \<open>fallback\<close> the other refresher, when there is one.\<close>

definition driver_aware_refresh ::
  "refresh_env \<Rightarrow> auth_driver driver_registry \<Rightarrow> (string \<Rightarrow> driver_failure + token_set) \<Rightarrow>
   (oauth_token option \<Rightarrow> refresh_outcome option) option \<Rightarrow> string option \<Rightarrow> oauth_token option \<Rightarrow> refresh_outcome option" where
  "driver_aware_refresh ev drivers answer fallback provider token = (case provider of
      None \<Rightarrow> Some (refresh_failure 503 CredentialUnavailable True ''OAuth account is unavailable'')
    | Some p \<Rightarrow>
        if (case driver_get p drivers of Some d \<Rightarrow> dr_refresh d | None \<Rightarrow> False)
        then (case Option.bind token ot_refresh_token of
            None \<Rightarrow> Some (refresh_failure 503 CredentialUnavailable True ''OAuth refresh token is unavailable'')
          | Some s \<Rightarrow>
              (case answer s of
                 Inl e \<Rightarrow> Some (driver_refresh_failure ev e)
               | Inr t \<Rightarrow> (case token_record_from_token_set ev t (Some s) of
                     Inl e \<Rightarrow> Some (driver_refresh_failure ev e)
                   | Inr r \<Rightarrow> Some (RefreshOk r))))
        else case fallback of
            Some f \<Rightarrow> f token
          | None \<Rightarrow> Some (refresh_failure 503 CredentialUnavailable True ''OAuth refresh is not configured for this provider''))"

subsection \<open>Every outcome is usable\<close>

text \<open>
  A renewed token can be stored: an access token within the bound, an expiry at most ten years ahead, and a
  refresh token, the new one or the one that was used. A failure blames the account, and one that is the
  account's own fault is never retried.
\<close>

definition outcome_ok :: "int option \<Rightarrow> refresh_outcome \<Rightarrow> bool" where
  "outcome_ok latest r = (case r of
      RefreshOk t \<Rightarrow> ot_access_token t \<noteq> [] \<and> length (ot_access_token t) \<le> OAUTH_ACCESS_TOKEN_MAX_LENGTH \<and>
        ot_refresh_token t \<noteq> None \<and> (\<forall>l e. latest = Some l \<longrightarrow> ot_expires_at t = Some e \<longrightarrow> e \<le> l)
    | RefreshFailed e \<Rightarrow> ce_route_scope e = Some ScAccount \<and> (ce_kind e = AuthenticationFailed \<longrightarrow> \<not> ce_retryable e)
    | RefreshThrew \<Rightarrow> False)"

lemma refresh_failure_ok: "k \<noteq> AuthenticationFailed \<or> \<not> retryable \<Longrightarrow> outcome_ok latest (refresh_failure status k retryable msg)"
  by (simp add: outcome_ok_def refresh_failure_def make_provider_error_def)

lemma expiry_bound:
  "\<lfloor>min (max 0 q) OAUTH_MAX_EXPIRES_IN_SECONDS * 1000\<rfloor> \<le> 315360000000"
proof -
  have "min (max 0 q) OAUTH_MAX_EXPIRES_IN_SECONDS * 1000 \<le> 315360000000"
    by (simp add: OAUTH_MAX_EXPIRES_IN_SECONDS_def min_def)
  then show ?thesis by linarith
qed

lemma parse_token_body_ok:
  assumes "parse_token_body body now_ms = Some f"
  shows "tf_access f \<noteq> []" "length (tf_access f) \<le> OAUTH_ACCESS_TOKEN_MAX_LENGTH"
    "tf_expires_at f = Some e \<Longrightarrow> e \<le> now_ms + 315360000000"
proof -
  obtain fs t where f: "body = Some (JObj fs)" "js_field fs ''access_token'' = Some (JStr t)"
    using assms by (cases body) (auto simp: parse_token_body_def split: json.splits option.splits)
  then show "tf_access f \<noteq> []" "length (tf_access f) \<le> OAUTH_ACCESS_TOKEN_MAX_LENGTH"
    using assms by (auto simp: parse_token_body_def split: if_splits)
  have "tf_expires_at f = (case js_field fs ''expires_in'' of
      Some (JNum (Num q)) \<Rightarrow> Some (now_ms + \<lfloor>min (max 0 q) OAUTH_MAX_EXPIRES_IN_SECONDS * 1000\<rfloor>) | _ \<Rightarrow> None)"
    using assms f by (auto simp: parse_token_body_def split: if_splits)
  then have "tf_expires_at f = None \<or> (\<exists>q. tf_expires_at f = Some (now_ms + \<lfloor>min (max 0 q) OAUTH_MAX_EXPIRES_IN_SECONDS * 1000\<rfloor>))"
    by (simp only: split: option.split json.split js_num.split) blast
  then show "tf_expires_at f = Some e \<Longrightarrow> e \<le> now_ms + 315360000000"
    using expiry_bound by (elim disjE exE) (simp_all only: option.inject option.distinct, metis add_left_mono)
qed

lemma token_answer_ok:
  assumes "token_answer ev now_ms s answer = Some r"
  shows "outcome_ok (Some (now_ms + 315360000000)) r"
proof (cases answer)
  case None
  then show ?thesis using assms by (auto simp: token_answer_def refresh_failure_ok)
next
  case (Some a)
  show ?thesis
  proof (cases "200 \<le> tr_status a \<and> tr_status a < 300")
    case False
    then show ?thesis using assms Some by (auto simp: token_answer_def refresh_failure_ok split: if_splits)
  next
    case True
    then obtain body where r: "r = (case parse_token_body body now_ms of
            None \<Rightarrow> refresh_failure 502 ProviderProtocolError False ''OAuth token response was invalid''
          | Some f \<Rightarrow> RefreshOk \<lparr>ot_access_token = tf_access f, ot_expires_at = tf_expires_at f,
              ot_refresh_token = (case tf_refresh f of Some x \<Rightarrow> Some x | None \<Rightarrow> Some s)\<rparr>)"
      using assms Some by (auto simp: token_answer_def)
    show ?thesis
    proof (cases "parse_token_body body now_ms")
      case None
      then show ?thesis by (simp add: r refresh_failure_ok)
    next
      case (Some f)
      then show ?thesis using parse_token_body_ok [OF Some] by (simp add: r outcome_ok_def split: option.split)
    qed
  qed
qed

lemma driver_refresh_failure_ok: "outcome_ok latest (driver_refresh_failure ev e)"
  by (auto simp: driver_refresh_failure_def Let_def intro!: refresh_failure_ok split: driver_failure.split)

lemma env_oauth_refresh_ok:
  "env_oauth_refresh ev now_ms provider token = Some r \<Longrightarrow> outcome_ok (Some (now_ms + 315360000000)) r"
  by (auto simp: env_oauth_refresh_def token_answer_ok intro!: refresh_failure_ok split: option.splits sum.splits)

text \<open>
  Whatever the driver, the environment and the token endpoint answer, a refresh that ends gives a token that can
  be stored and refreshed again, or an account failure that is not retried when the credential was refused.
\<close>

theorem refresh_outcome_usable:
  assumes "driver_aware_refresh ev drivers answer (Some (env_oauth_refresh ev now_ms provider)) provider token = Some r"
  shows "outcome_ok None r"
proof -
  have weaker: "outcome_ok (Some l) r \<Longrightarrow> outcome_ok None r" for l
    by (auto simp: outcome_ok_def split: refresh_outcome.splits)
  show ?thesis
    using assms weaker [OF env_oauth_refresh_ok [of ev now_ms provider token r]] driver_refresh_failure_ok [of None ev]
    by (auto simp: driver_aware_refresh_def token_record_from_token_set_def intro!: refresh_failure_ok
        split: option.splits sum.splits if_splits)
       (auto simp: outcome_ok_def)
qed

text \<open>
  The refresh token and the client secret leave for a public https address only: what the token endpoint would
  answer matters only when its URL is https and its host and every resolved address are public.
\<close>

theorem secrets_sent_to_public_https_only:
  assumes "env_oauth_refresh (ev\<lparr>rv_fetch := f\<rparr>) now_ms (Some p) token \<noteq> env_oauth_refresh (ev\<lparr>rv_fetch := f'\<rparr>) now_ms (Some p) token"
  shows "\<exists>s q u h. Option.bind token ot_refresh_token = Some s \<and> token_request_of ev p s = Some q \<and> rv_parse_url ev (tq_url q) = Some u \<and>
    url_protocol u = ''https:'' \<and> normalize_hostname (url_hostname u) = Some h \<and> \<not> is_blocked_hostname h \<and>
    (if is_ip_literal h then \<not> is_unsafe_ip h else \<forall>a \<in> set (rv_lookup ev h). \<not> is_blocked_ip a)"
proof -
  have same: "token_request_of (ev\<lparr>rv_fetch := g\<rparr>) p s = token_request_of ev p s" for g s
    by (simp add: token_request_of_def nonempty_var_def)
  obtain s q u where q: "Option.bind token ot_refresh_token = Some s" "token_request_of ev p s = Some q"
      "assert_public_url_at_dispatch (rv_parse_url ev) (rv_lookup ev) (Some [''https:'']) (tq_url q) = Inr u"
    using assms by (auto simp: env_oauth_refresh_def same split: option.splits sum.splits)
  from at_dispatch_InrD [OF q(3)] obtain h where h: "assert_public_url (rv_parse_url ev) (Some [''https:'']) (tq_url q) = Inr u"
      "normalize_hostname (url_hostname u) = Some h" "\<not> is_ip_literal h \<longrightarrow> (\<forall>a \<in> set (rv_lookup ev h). \<not> is_blocked_ip a)" by blast
  then have "rv_parse_url ev (tq_url q) = Some u" "url_protocol u = ''https:''" "\<not> is_blocked_hostname h" "is_ip_literal h \<longrightarrow> \<not> is_unsafe_ip h"
    by (auto simp: assert_public_url_def split: if_splits option.splits)
  then show ?thesis using q(1,2) h by auto
qed

text \<open>A lifetime sent as text is read as none: such a token is taken for fresh for ever and never renewed.\<close>

lemma text_lifetime_never_expires:
  assumes "t \<noteq> []" "length t \<le> OAUTH_ACCESS_TOKEN_MAX_LENGTH"
  shows "map_option tf_expires_at (parse_token_body (Some (JObj [(''access_token'', JStr t), (''expires_in'', JStr ''3600'')])) now_ms) = Some None"
    and "ot_expires_at token = None \<Longrightarrow> is_fresh skew later token"
  using assms by (simp_all add: parse_token_body_def js_field_def jm_get_def is_fresh_def)

subsection \<open>A refresh\<close>

definition sample_refresh_env :: refresh_env where
  "sample_refresh_env = \<lparr>rv_vars = (\<lambda>_. Some ''x''), rv_parse_url = (\<lambda>_. Some sample_url), rv_lookup = (\<lambda>_. []), rv_fetch = (\<lambda>_. None),
     rv_decode = id, rv_max_bytes = OAUTH_RESPONSE_MAX_BYTES, rv_date_parse = (\<lambda>_. None), rv_ellipsis = ''...''\<rparr>"

definition sample_token :: oauth_token where
  "sample_token = \<lparr>ot_access_token = ''a'', ot_expires_at = None, ot_refresh_token = Some ''r''\<rparr>"

lemma refresh_failure_kind: "refresh_failure st k r m = refresh_failure st' k' r' m' \<Longrightarrow> k = k'"
  by (simp add: refresh_failure_def make_provider_error_def)

theorem secrets_sent_to_public_https_only_witness:
  "env_oauth_refresh sample_refresh_env 0 (Some ''p'') (Some sample_token) \<noteq>
     env_oauth_refresh (sample_refresh_env\<lparr>rv_fetch := (\<lambda>_. Some \<lparr>tr_status = 401, tr_content_length = NaN, tr_body = None\<rparr>)\<rparr>) 0 (Some ''p'') (Some sample_token) \<and>
   (\<exists>q. token_request_of sample_refresh_env ''p'' ''r'' = Some q)"
proof -
  let ?f = "\<lambda>_ :: token_request. None :: token_response option"
  let ?g = "\<lambda>_ :: token_request. Some \<lparr>tr_status = 401, tr_content_length = NaN, tr_body = None\<rparr>"
  have guard: "assert_public_url_at_dispatch (\<lambda>_. Some sample_url) (\<lambda>_. []) (Some [''https:'']) ''x'' = Inr sample_url"
    by (simp add: assert_public_url_at_dispatch_def assert_public_url_def sample_host sample_host_name sample_url_def
        MAX_SSRF_URL_LENGTH_def is_blocked_ip_def)
  have q: "token_request_of ev ''p'' ''r'' = Some \<lparr>tq_url = ''x'', tq_refresh_token = ''r'', tq_client_id = ''x'', tq_client_secret = ''x''\<rparr>"
    if "rv_vars ev = (\<lambda>_. Some ''x'')" for ev
    by (simp only: token_request_of_def nonempty_var_def that Let_def option.case list.distinct if_False prod.case)
  have run: "env_oauth_refresh (sample_refresh_env\<lparr>rv_fetch := f\<rparr>) 0 (Some ''p'') (Some sample_token) =
     token_answer (sample_refresh_env\<lparr>rv_fetch := f\<rparr>) 0 ''r'' (f \<lparr>tq_url = ''x'', tq_refresh_token = ''r'', tq_client_id = ''x'', tq_client_secret = ''x''\<rparr>)" for f
    using guard by (simp add: env_oauth_refresh_def q sample_refresh_env_def sample_token_def)
  have differ: "env_oauth_refresh (sample_refresh_env\<lparr>rv_fetch := ?f\<rparr>) 0 (Some ''p'') (Some sample_token) \<noteq>
     env_oauth_refresh (sample_refresh_env\<lparr>rv_fetch := ?g\<rparr>) 0 (Some ''p'') (Some sample_token)"
    unfolding run by (auto simp: token_answer_def dest: refresh_failure_kind)
  have "sample_refresh_env\<lparr>rv_fetch := ?f\<rparr> = sample_refresh_env" by (simp add: sample_refresh_env_def)
  then show ?thesis
    using differ secrets_sent_to_public_https_only [OF differ] by (auto simp: sample_token_def)
qed

theorem refresh_outcome_usable_witness:
  "driver_aware_refresh sample_refresh_env [(''codex'', \<lparr>dr_start = True, dr_poll = False, dr_exchange = True, dr_refresh = True\<rparr>)]
     (\<lambda>_. Inr sample_tokens) (Some (env_oauth_refresh sample_refresh_env 0 (Some ''codex''))) (Some ''codex'') (Some sample_token) =
   Some (RefreshOk \<lparr>ot_access_token = ''t'', ot_expires_at = None, ot_refresh_token = Some ''r''\<rparr>) \<and>
   outcome_ok None (RefreshOk \<lparr>ot_access_token = ''t'', ot_expires_at = None, ot_refresh_token = Some ''r''\<rparr>)"
proof -
  have "driver_aware_refresh sample_refresh_env [(''codex'', \<lparr>dr_start = True, dr_poll = False, dr_exchange = True, dr_refresh = True\<rparr>)]
     (\<lambda>_. Inr sample_tokens) (Some (env_oauth_refresh sample_refresh_env 0 (Some ''codex''))) (Some ''codex'') (Some sample_token) =
   Some (RefreshOk \<lparr>ot_access_token = ''t'', ot_expires_at = None, ot_refresh_token = Some ''r''\<rparr>)"
    by (simp add: driver_aware_refresh_def driver_get_def jm_get_def sample_token_def token_record_from_token_set_def sample_tokens_def
        OAUTH_ACCESS_TOKEN_MAX_LENGTH_def)
  from this refresh_outcome_usable [OF this] show ?thesis by blast
qed

end
