(* ===== verification/TokenSaver.thy ===== *)
theory TokenSaver imports Contracts JsJson begin

text \<open>
  The token saver (\<open>src/domain/token-saver.ts\<close>): older tool results are shortened by the filter that
  recognizes them. The six characters of the source that are not Latin-1 are the argument \<open>glyphs\<close>. The
  products of a limit with 0.7, 0.6 and 0.3 are exact for the three limits.
\<close>

record glyphs =
  gl_ellipsis :: char
  gl_bar :: char
  gl_tee :: char
  gl_corner :: char
  gl_dash :: char
  gl_arrow :: char

datatype saver_quality = Lite | Balanced | Extreme

datatype rtk_filter = GitDiff | GitStatus | TreeList | ReadNumbered | GrepList | DedupLog | Generic

record token_saver =
  tk_enabled :: bool
  tk_quality :: saver_quality
  tk_smart :: "bool option"

primrec max_chars :: "saver_quality \<Rightarrow> nat" where
  "max_chars Lite = 8000"
| "max_chars Balanced = 4000"
| "max_chars Extreme = 2000"

primrec keep_last_turns :: "saver_quality \<Rightarrow> nat" where
  "keep_last_turns Lite = 3"
| "keep_last_turns Balanced = 2"
| "keep_last_turns Extreme = 1"

definition MIN_COMPRESSIBLE :: nat where "MIN_COMPRESSIBLE = 500"

definition newline :: char where "newline = CHR 0x0A"

definition is_break :: "char \<Rightarrow> bool" where
  "is_break c \<longleftrightarrow> char_code c \<in> {10, 13}"

abbreviation lines_of :: "string \<Rightarrow> string list" where
  "lines_of s \<equiv> split_on newline s"

abbreviation unlines :: "string list \<Rightarrow> string" where
  "unlines ls \<equiv> join_with [newline] ls"

definition last_chars :: "nat \<Rightarrow> 'a list \<Rightarrow> 'a list" where
  "last_chars n s = drop (length s - n) s"

subsection \<open>The generic cut\<close>

definition generic_cut :: "glyphs \<Rightarrow> string \<Rightarrow> nat \<Rightarrow> string" where
  "generic_cut g s limit =
    (let head_size = limit * 7 div 10;
         tail_size = limit - head_size - 80;
         tl_part = (if 0 < tail_size then last_chars tail_size s else []);
         dropped = int (length s) - int head_size - int (length tl_part);
         mid = drop head_size (take (length s - length tl_part) s)
     in take head_size s @ [newline, newline, gl_ellipsis g] @ ''[truncated '' @ int_str dropped @ '' chars / ~'' @
        nat_str (count_list mid newline) @ '' lines]'' @ [gl_ellipsis g, newline, newline] @ tl_part)"

subsection \<open>Diffs\<close>

definition hunk_pattern :: rx where
  "hunk_pattern = rx_seq [Bos, lit ''@@ '', rx_plus any_char, lit '' @@'']"

definition is_hunk :: "string \<Rightarrow> bool" where
  "is_hunk l \<longleftrightarrow> rx_test hunk_pattern l"

definition elided :: "glyphs \<Rightarrow> nat \<Rightarrow> string \<Rightarrow> string" where
  "elided g n what = [gl_ellipsis g] @ ''['' @ nat_str n @ what @ '' elided]'' @ [gl_ellipsis g]"

definition shrink_hunk :: "glyphs \<Rightarrow> string list \<Rightarrow> string list" where
  "shrink_hunk g h =
    (if length h \<le> 11 then h
     else take 1 h @ take 5 (drop 1 h) @ [elided g (length h - 11) '' hunk lines''] @ last_chars 5 h)"

definition in_hunk :: "string \<Rightarrow> bool" where
  "in_hunk l \<longleftrightarrow> \<not> is_hunk l \<and> \<not> prefix ''diff --git '' l"

function diff_lines :: "glyphs \<Rightarrow> string list \<Rightarrow> string list" where
  "diff_lines g [] = []"
| "diff_lines g (l # ls) =
     (if \<not> is_hunk l then l # diff_lines g ls
      else shrink_hunk g (l # takeWhile in_hunk ls) @ diff_lines g (dropWhile in_hunk ls))"
  by pat_completeness auto
termination
  by (relation "measure (\<lambda>(g, ls). length ls)") (auto simp: length_dropWhile_le le_imp_less_Suc)

definition git_diff :: "glyphs \<Rightarrow> string \<Rightarrow> nat \<Rightarrow> string" where
  "git_diff g s limit = (let r = unlines (diff_lines g (lines_of s)) in if limit < length r then generic_cut g r limit else r)"

subsection \<open>Status\<close>

definition trim_end :: "string \<Rightarrow> string" where
  "trim_end s = rev (dropWhile is_space (rev s))"

definition is_status_line :: "string \<Rightarrow> bool" where
  "is_status_line l = (case l of a # b # c # rest \<Rightarrow> a \<in> set '' MADRCU?!'' \<and> b \<in> set '' MADRCU?!'' \<and> c = CHR '' '' | _ \<Rightarrow> False)"

record status_summary =
  ss_branch :: string
  ss_staged :: "string list"
  ss_modified :: "string list"
  ss_untracked :: "string list"

definition status_line :: "status_summary \<Rightarrow> string \<Rightarrow> status_summary" where
  "status_line s raw =
    (let l = trim_end raw;
         s1 = (if prefix ''On branch '' l then s\<lparr>ss_branch := drop 10 l\<rparr> else s);
         s2 = (if prefix ''## '' l then s1\<lparr>ss_branch := drop 3 l\<rparr> else s1);
         path = drop 3 raw
     in if \<not> is_status_line raw then s2
        else if prefix ''?? '' raw then s2\<lparr>ss_untracked := ss_untracked s2 @ [path]\<rparr>
        else (let s3 = (if raw ! 0 \<in> set ''MADRC'' then s2\<lparr>ss_staged := ss_staged s2 @ [path]\<rparr> else s2)
              in if raw ! 1 = CHR ''M'' then s3\<lparr>ss_modified := ss_modified s3 @ [path]\<rparr> else s3))"

definition status_section :: "glyphs \<Rightarrow> string \<Rightarrow> string list \<Rightarrow> string list" where
  "status_section g label entries =
    (if entries = [] then []
     else [label @ '': '' @ nat_str (length entries)] @ map (\<lambda>e. ''  '' @ e) (take 10 entries) @
       (if 10 < length entries then [''  '' @ [gl_ellipsis g] @ '' +'' @ nat_str (length entries - 10) @ '' more''] else []))"

definition git_status :: "glyphs \<Rightarrow> string \<Rightarrow> string" where
  "git_status g s =
    (let r = foldl status_line \<lparr>ss_branch = [], ss_staged = [], ss_modified = [], ss_untracked = []\<rparr> (lines_of s)
     in if length (ss_staged r) + length (ss_modified r) + length (ss_untracked r) = 0 then s
        else unlines (filter (\<lambda>l. l \<noteq> [])
          ([if ss_branch r \<noteq> [] then ''* '' @ ss_branch r else []] @ status_section g ''Staged'' (ss_staged r) @
           status_section g ''Modified'' (ss_modified r) @ status_section g ''Untracked'' (ss_untracked r))))"

subsection \<open>Trees, numbered files, grep, logs\<close>

definition tree_indent :: "glyphs \<Rightarrow> string \<Rightarrow> nat" where
  "tree_indent g l = length (takeWhile (\<lambda>c. c = gl_bar g \<or> c = CHR '' '') l)"

text \<open>The loop stops when what it kept is long enough. An indent of one is two characters.\<close>

fun tree_lines :: "glyphs \<Rightarrow> nat \<Rightarrow> string list \<Rightarrow> string list \<Rightarrow> nat \<Rightarrow> string list \<times> nat" where
  "tree_lines g limit [] kept dropped = (kept, dropped)"
| "tree_lines g limit (l # ls) kept dropped =
     (let (kept', dropped') = (if tree_indent g l \<le> 2 then (kept @ [l], dropped) else (kept, dropped + 1))
      in if limit - 100 < length (unlines kept') then (kept', dropped') else tree_lines g limit ls kept' dropped')"

definition tree_cut :: "glyphs \<Rightarrow> string \<Rightarrow> nat \<Rightarrow> string" where
  "tree_cut g s limit =
    (let (kept, dropped) = tree_lines g limit (lines_of s) [] 0
     in unlines kept @ [newline, gl_ellipsis g] @ ''['' @ nat_str dropped @ '' deeper entries collapsed]'' @ [gl_ellipsis g])"

text \<open>The lines that fit, each counted with its line feed.\<close>

fun fitting :: "nat \<Rightarrow> nat \<Rightarrow> string list \<Rightarrow> string list" where
  "fitting limit used [] = []"
| "fitting limit used (l # ls) = (if limit < used + length l then [] else l # fitting limit (used + length l + 1) ls)"

definition read_numbered :: "glyphs \<Rightarrow> string \<Rightarrow> nat \<Rightarrow> string" where
  "read_numbered g s limit =
    (if length s \<le> limit then s
     else let ls = lines_of s;
              hs = fitting (limit * 6 div 10) 0 ls;
              ts = rev (fitting (limit * 3 div 10) 0 (rev ls))
          in unlines (hs @ [elided g (length ls - length hs - length ts) '' numbered lines''] @ ts))"

definition grep_line :: "string \<Rightarrow> (string \<times> string) option" where
  "grep_line l =
    (let path = takeWhile (\<lambda>c. \<not> is_space c \<and> c \<noteq> CHR '':'') l;
         rest = drop (length path) l;
         digits = takeWhile is_digit_char (drop 1 rest);
         rest2 = drop (length digits) (drop 1 rest)
     in if path \<noteq> [] \<and> take 1 rest = '':'' \<and> digits \<noteq> [] \<and> take 1 rest2 = '':'' \<and> list_all (\<lambda>c. \<not> is_break c) (drop 1 rest2)
        then Some (path, digits @ '': '' @ trim (drop 1 rest2)) else None)"

definition grep_add :: "(string, string list) js_map \<Rightarrow> string \<Rightarrow> (string, string list) js_map" where
  "grep_add groups l = (case grep_line l of
      None \<Rightarrow> groups
    | Some (path, m) \<Rightarrow> jm_set path ((case jm_get groups path of Some ms \<Rightarrow> ms | None \<Rightarrow> []) @ [m]) groups)"

fun grep_output :: "glyphs \<Rightarrow> nat \<Rightarrow> (string, string list) js_map \<Rightarrow> string list \<Rightarrow> string list" where
  "grep_output g limit [] out = out"
| "grep_output g limit ((path, ms) # groups) out =
     (let out' = out @ [''['' @ path @ ''] ('' @ nat_str (length ms) @ '')''] @ map (\<lambda>m. ''  '' @ m) (take 5 ms) @
            (if 5 < length ms then [''  '' @ [gl_ellipsis g] @ '' +'' @ nat_str (length ms - 5) @ '' more''] else [])
      in if limit < length (unlines out') then out' else grep_output g limit groups out')"

definition grep_cut :: "glyphs \<Rightarrow> string \<Rightarrow> nat \<Rightarrow> string" where
  "grep_cut g s limit =
    (let groups = foldl grep_add [] (lines_of s)
     in if groups = [] then s else unlines (grep_output g limit groups [''RTK grep summary:'']))"

definition duplicates_line :: "glyphs \<Rightarrow> nat \<Rightarrow> string list" where
  "duplicates_line g n =
    (if 0 < n then [''  '' @ [gl_ellipsis g] @ '' ('' @ nat_str n @ '' duplicate '' @ (if n = 1 then ''line'' else ''lines'') @ '')''] else [])"

fun dedup_lines :: "glyphs \<Rightarrow> string option \<Rightarrow> nat \<Rightarrow> string list \<Rightarrow> string list" where
  "dedup_lines g previous n [] = duplicates_line g n"
| "dedup_lines g previous n (l # ls) =
     (if previous = Some l then dedup_lines g previous (n + 1) ls
      else duplicates_line g n @ l # dedup_lines g (Some l) 0 ls)"

definition dedup_log :: "glyphs \<Rightarrow> string \<Rightarrow> string" where
  "dedup_log g s = unlines (dedup_lines g None 0 (lines_of s))"

subsection \<open>Recognizing and applying\<close>

text \<open>The lines of a \<open>/m\<close> pattern: a carriage return also ends one.\<close>

fun pattern_lines :: "string \<Rightarrow> string list" where
  "pattern_lines [] = [[]]"
| "pattern_lines (c # s) = (if is_break c then [] # pattern_lines s
     else case pattern_lines s of [] \<Rightarrow> [[c]] | l # ls \<Rightarrow> (c # l) # ls)"

definition starts_with_one :: "string list \<Rightarrow> string \<Rightarrow> bool" where
  "starts_with_one ps l \<longleftrightarrow> list_ex (\<lambda>p. prefix p l) ps"

definition looks_git_diff :: "string \<Rightarrow> bool" where
  "looks_git_diff probe \<longleftrightarrow> list_ex (starts_with_one [''diff --git '', ''index '', ''---'', ''+++'']) (pattern_lines probe)"

definition looks_git_status :: "string \<Rightarrow> bool" where
  "looks_git_status probe \<longleftrightarrow>
     list_ex (starts_with_one [''On branch '', ''## '', ''Untracked files:'', ''Changes '']) (pattern_lines probe) \<or>
     list_ex is_status_line (pattern_lines probe)"

definition is_tree_line :: "glyphs \<Rightarrow> string \<Rightarrow> bool" where
  "is_tree_line g l =
    (case drop (tree_indent g l) l of a # b # c # d # rest \<Rightarrow> (a = gl_tee g \<or> a = gl_corner g) \<and> b = gl_dash g \<and> c = gl_dash g \<and> d = CHR '' ''
      | _ \<Rightarrow> False)"

definition looks_tree :: "glyphs \<Rightarrow> string \<Rightarrow> bool" where
  "looks_tree g probe \<longleftrightarrow> 5 \<le> length (filter (is_tree_line g) (pattern_lines probe))"

text \<open>
  The length of a match of \<open>/\s*\d+[mark]\s/\<close> at the start of a text, 0 when there is none. Each repetition is
  ended by a character it cannot take, so there is no other match.
\<close>

definition number_mark :: "glyphs \<Rightarrow> string \<Rightarrow> nat" where
  "number_mark g s =
    (let ws = takeWhile is_space s; ds = takeWhile is_digit_char (drop (length ws) s); k = length ws + length ds
     in case drop k s of
          m # c # rest \<Rightarrow> if ds \<noteq> [] \<and> (m = gl_arrow g \<or> m = CHR ''|'' \<or> m = CHR 0x09) \<and> is_space c then k + 2 else 0
        | _ \<Rightarrow> 0)"

text \<open>The matches of a global search; a match starts where a line starts.\<close>

function count_numbered :: "glyphs \<Rightarrow> bool \<Rightarrow> string \<Rightarrow> nat" where
  "count_numbered g at_start [] = 0"
| "count_numbered g at_start (c # s) =
     (let n = (if at_start then number_mark g (c # s) else 0)
      in if n = 0 then count_numbered g (is_break c) s
         else Suc (count_numbered g (is_break ((c # s) ! (n - 1))) (drop (n - 1) s)))"
  by pat_completeness auto
termination
  by (relation "measure (\<lambda>(g, b, s). length s)") auto

definition looks_numbered :: "glyphs \<Rightarrow> string \<Rightarrow> bool" where
  "looks_numbered g probe \<longleftrightarrow> 3 \<le> count_numbered g True probe"

text \<open>\<open>match\<close> without the global flag yields one match at most, of the start of the text.\<close>

definition grep_matches :: "string \<Rightarrow> nat" where
  "grep_matches probe =
    (let path = takeWhile (\<lambda>c. \<not> is_space c \<and> c \<noteq> CHR '':'') probe; rest = drop (length path) probe;
         digits = takeWhile is_digit_char (drop 1 rest)
     in if path \<noteq> [] \<and> take 1 rest = '':'' \<and> digits \<noteq> [] \<and> take 1 (drop (Suc (length digits)) rest) = '':'' then 1 else 0)"

definition looks_grep :: "string \<Rightarrow> bool" where
  "looks_grep probe \<longleftrightarrow> 5 \<le> grep_matches probe"

definition adjacent_equal :: "string list \<Rightarrow> nat" where
  "adjacent_equal ls = length (filter (\<lambda>(a, b). a = b) (zip ls (drop 1 ls)))"

definition looks_log :: "string \<Rightarrow> bool" where
  "looks_log probe \<longleftrightarrow> 3 \<le> adjacent_equal (take 100 (lines_of probe))"

text \<open>A candidate is its name, whether it was recognized, its result, and whether it may be used on a text that fits.\<close>

definition candidates :: "glyphs \<Rightarrow> string \<Rightarrow> nat \<Rightarrow> (rtk_filter \<times> bool \<times> string \<times> bool) list" where
  "candidates g s limit =
    (let probe = take 1024 s in
     [(GitDiff, looks_git_diff probe, git_diff g s limit, False),
      (GitStatus, looks_git_status probe, git_status g s, False),
      (TreeList, looks_tree g probe, tree_cut g s limit, False),
      (ReadNumbered, looks_numbered g probe, read_numbered g s limit, False),
      (GrepList, looks_grep probe, grep_cut g s limit, False),
      (DedupLog, looks_log probe, dedup_log g s, True)])"

fun first_shorter :: "bool \<Rightarrow> nat \<Rightarrow> (rtk_filter \<times> bool \<times> string \<times> bool) list \<Rightarrow> (string \<times> rtk_filter) option" where
  "first_shorter fits n [] = None"
| "first_shorter fits n ((f, detected, r, lossless) # cs) =
     (if fits \<and> \<not> lossless \<or> \<not> detected then first_shorter fits n cs
      else if length r < n then Some (r, f) else first_shorter fits n cs)"

definition smart_truncate :: "glyphs \<Rightarrow> string \<Rightarrow> nat \<Rightarrow> bool \<Rightarrow> string \<times> rtk_filter option" where
  "smart_truncate g s limit smart =
    (if length s < MIN_COMPRESSIBLE then (s, None)
     else let fits = length s \<le> limit
          in case (if smart then first_shorter fits (length s) (candidates g s limit) else None) of
               Some (r, f) \<Rightarrow> (r, Some f)
             | None \<Rightarrow> if fits then (s, None) else (generic_cut g s limit, Some Generic))"

definition save_block :: "glyphs \<Rightarrow> nat \<Rightarrow> bool \<Rightarrow> content_block \<Rightarrow> content_block" where
  "save_block g limit smart b = (case (cb_type b, cb_text b) of
      (BtToolResult, Some s) \<Rightarrow> b\<lparr>cb_text := Some (fst (smart_truncate g s limit smart))\<rparr>
    | _ \<Rightarrow> b)"

definition save_message :: "glyphs \<Rightarrow> nat \<Rightarrow> bool \<Rightarrow> message \<Rightarrow> message" where
  "save_message g limit smart m = m\<lparr>msg_content := map (save_block g limit smart) (msg_content m)\<rparr>"

definition apply_token_saver :: "glyphs \<Rightarrow> token_saver \<Rightarrow> normalized_request \<Rightarrow> normalized_request" where
  "apply_token_saver g cfg req =
    (if \<not> tk_enabled cfg \<or> nr_messages req = [] then req
     else let cutoff = length (nr_messages req) - keep_last_turns (tk_quality cfg) * 2
          in req\<lparr>nr_messages := map (save_message g (max_chars (tk_quality cfg)) (tk_smart cfg \<noteq> Some False)) (take cutoff (nr_messages req)) @
               drop cutoff (nr_messages req)\<rparr>)"

subsection \<open>Results only get shorter\<close>

lemma length_nat_str_tenth: "length (nat_str n) \<le> 1 + n div 10"
proof (induction n rule: less_induct)
  case (less n)
  show ?case
  proof (cases "n < 10")
    case True
    then show ?thesis by (simp add: nat_str.simps)
  next
    case False
    then have "length (nat_str (n div 10)) \<le> 1 + n div 10 div 10" using less.IH [of "n div 10"] by simp
    moreover have "n div 10 div 10 < n div 10" using False by simp
    ultimately show ?thesis using False by (simp add: nat_str.simps [of n])
  qed
qed

lemma generic_cut_shorter:
  assumes "400 \<le> limit" "limit < length s"
  shows "length (generic_cut g s limit) < length s"
proof -
  define h where "h = limit * 7 div 10"
  define t where "t = limit - h - 80"
  have t: "0 < t" "h + t + 80 = limit" using assms(1) by (auto simp: h_def t_def)
  define d where "d = length s - h - t"
  have d: "81 \<le> d" "length s = h + t + d" using t assms(2) by (auto simp: d_def)
  let ?mid = "drop h (take (length s - t) s)"
  have lines: "length (nat_str (count_list ?mid newline)) \<le> 1 + d div 10"
  proof -
    have "count_list ?mid newline \<le> d" using count_le_length [of ?mid newline] d by simp
    then have "count_list ?mid newline div 10 \<le> d div 10" by (rule div_le_mono)
    then show ?thesis using length_nat_str_tenth [of "count_list ?mid newline"] by linarith
  qed
  have tail: "length (last_chars t s) = t" using d by (simp add: last_chars_def)
  have dropped: "int_str (int (length s) - int h - int t) = nat_str d" using d by (simp add: int_str_def nat_diff_distrib)
  have "generic_cut g s limit = take h s @ [newline, newline, gl_ellipsis g] @ ''[truncated '' @ nat_str d @ '' chars / ~'' @
        nat_str (count_list ?mid newline) @ '' lines]'' @ [gl_ellipsis g, newline, newline] @ last_chars t s"
    using t(1) dropped tail unfolding generic_cut_def Let_def h_def [symmetric] t_def [symmetric] by simp
  then have "length (generic_cut g s limit) = h + t + 34 + length (nat_str d) + length (nat_str (count_list ?mid newline))"
    using d tail by simp
  then show ?thesis using lines length_nat_str_tenth [of d] d by linarith
qed

lemma first_shorter_length: "first_shorter fits n cs = Some (r, f) \<Longrightarrow> length r < n"
  by (induction fits n cs rule: first_shorter.induct) (auto split: if_splits)

lemma smart_truncate_shorter:
  assumes "400 \<le> limit" "fst (smart_truncate g s limit smart) \<noteq> s"
  shows "length (fst (smart_truncate g s limit smart)) < length s"
proof (cases "if smart then first_shorter (length s \<le> limit) (length s) (candidates g s limit) else None")
  case None
  then have "fst (smart_truncate g s limit smart) = s \<or> limit < length s \<and> fst (smart_truncate g s limit smart) = generic_cut g s limit"
    by (simp add: smart_truncate_def Let_def)
  then show ?thesis using assms generic_cut_shorter [OF assms(1), of s g] by auto
next
  case (Some c)
  then have "length (fst c) < length s" using first_shorter_length by (cases c) (auto split: if_splits)
  then show ?thesis using Some assms(2) by (cases c) (auto simp: smart_truncate_def Let_def)
qed

definition shortened :: "content_block \<Rightarrow> content_block \<Rightarrow> bool" where
  "shortened b b' \<longleftrightarrow> b' = b \<or>
     (cb_type b = BtToolResult \<and> (\<exists>s s'. cb_text b = Some s \<and> b' = b\<lparr>cb_text := Some s'\<rparr> \<and> length s' < length s))"

lemma save_block_shortens:
  assumes "400 \<le> limit"
  shows "shortened b (save_block g limit smart b)"
proof (cases "cb_type b = BtToolResult \<and> cb_text b \<noteq> None")
  case True
  then obtain s where s: "cb_type b = BtToolResult" "cb_text b = Some s" by auto
  then have b: "save_block g limit smart b = b\<lparr>cb_text := Some (fst (smart_truncate g s limit smart))\<rparr>" by (simp add: save_block_def)
  show ?thesis
  proof (cases "fst (smart_truncate g s limit smart) = s")
    case True
    then have "save_block g limit smart b = b" using b s by simp
    then show ?thesis by (simp add: shortened_def)
  next
    case False
    then show ?thesis using b s smart_truncate_shorter [OF assms False] unfolding shortened_def by blast
  qed
next
  case False
  then show ?thesis by (cases "cb_type b") (auto simp: save_block_def shortened_def)
qed

lemma max_chars_ge: "400 \<le> max_chars q"
  by (cases q) simp_all

text \<open>What the saver may do to a message at a place.\<close>

definition kept_message :: "message \<Rightarrow> message \<Rightarrow> bool" where
  "kept_message m m' \<longleftrightarrow> msg_role m' = msg_role m \<and> msg_reasoning m' = msg_reasoning m \<and> list_all2 shortened (msg_content m) (msg_content m')"

lemma kept_message_refl: "kept_message m m"
  by (simp add: kept_message_def shortened_def list.rel_refl)

lemma save_message_keeps: "kept_message m (save_message g (max_chars q) smart m)"
  by (simp add: kept_message_def save_message_def list_all2_conv_all_nth save_block_shortens max_chars_ge)

text \<open>
  The token saver touches old tool results only, and only to shorten them: the last turns stay as they are, every
  message keeps its role and its blocks, every block but a tool result is the same, and a tool result that changes gets a
  shorter text.
\<close>

theorem saver_only_shortens_old_results:
  "\<exists>ms. apply_token_saver g cfg req = req\<lparr>nr_messages := ms\<rparr> \<and> list_all2 kept_message (nr_messages req) ms \<and>
     (\<forall>i < length ms. length ms \<le> i + 2 * keep_last_turns (tk_quality cfg) \<longrightarrow> ms ! i = nr_messages req ! i)"
proof (cases "\<not> tk_enabled cfg \<or> nr_messages req = []")
  case True
  then have "apply_token_saver g cfg req = req\<lparr>nr_messages := nr_messages req\<rparr>" by (auto simp: apply_token_saver_def)
  then show ?thesis by (intro exI [of _ "nr_messages req"]) (simp add: list.rel_refl kept_message_refl)
next
  case False
  define cutoff where "cutoff = length (nr_messages req) - keep_last_turns (tk_quality cfg) * 2"
  define ms where "ms = map (save_message g (max_chars (tk_quality cfg)) (tk_smart cfg \<noteq> Some False)) (take cutoff (nr_messages req)) @ drop cutoff (nr_messages req)"
  have "apply_token_saver g cfg req = req\<lparr>nr_messages := ms\<rparr>"
    using False by (simp add: apply_token_saver_def cutoff_def ms_def Let_def)
  moreover have "list_all2 kept_message (nr_messages req) ms"
    unfolding ms_def list_all2_conv_all_nth
    by (auto simp: nth_append save_message_keeps kept_message_refl)
  moreover have "ms ! i = nr_messages req ! i" if "i < length ms" "length ms \<le> i + 2 * keep_last_turns (tk_quality cfg)" for i
    using that by (simp add: ms_def nth_append cutoff_def)
  ultimately show ?thesis by blast
qed

subsection \<open>Filters that do not do what they are for\<close>

text \<open>The grep filter is never used: without the global flag \<open>match\<close> finds one match, and five are required.\<close>

lemma grep_filter_never_used: "\<not> looks_grep probe"
  by (simp add: looks_grep_def grep_matches_def Let_def)

text \<open>
  A tree listing that is cut reports as collapsed only the lines it dropped before it stopped: the rest is
  neither kept nor counted.
\<close>

lemma tree_count_omits_rest:
  assumes "tree_indent g l \<le> 2" "limit - 100 < length l"
  shows "tree_lines g limit (l # ls) [] 0 = ([l], 0)"
  using assms by simp

text \<open>A Markdown heading is taken for the head of a status report.\<close>

lemma markdown_heading_looks_like_status: "looks_git_status ''## Notes''"
  by code_simp

end
