(* ===== verification/Spec2Isabelle.thy ===== *)
theory Spec2Isabelle
  imports Routing RateLimit Health Flights RateLimiter Admission NetworkSelect OAuthState
    CredentialSelect ConsoleState NetGuard Session Recovery
    PromptCache FilterRules UpstreamErrors SseDecoder StreamMappers SurfaceEncoder
    StreamRoundtrip Registry RoutingSnapshot Translation RequestPipeline
    Codec ChatCodec MessagesCodec ResponsesCodec Surfaces Intake GeminiCodec OAuthSessions
    InputSanitizers OAuthRefresh TokenSaver
begin

text \<open>
  Wokroute is a routing proxy for model providers: a client sends a request in one of several wire
  protocols, the proxy admits it, resolves the model name to an ordered list of candidates, picks
  an account and a network path for the candidate, calls the provider, retries on transient
  failures and presents the answer. A console configures it. This development models the parts of
  \<open>src/\<close> that decide something: which requests are let in, which route is taken, how failures
  change later decisions, and when resources are given back.

  \<^bold>\<open>The parts and their theories.\<close>
  \<^item> \<open>Prelude\<close>, \<open>Leases\<close>: insertion-ordered maps, stable sorting by a comparator, the record-store
    interface, and the acquire/release discipline shared by every counter. \<open>JsDate\<close>, \<open>JsText\<close>,
    \<open>JsJson\<close>, \<open>JsonText\<close>: what the program uses of the standard library (ISO times, strings and
    regular expressions, JSON values and their text).
  \<^item> \<open>Contracts\<close> (\<open>domain/contracts.ts\<close>): the data exchanged, client detection, message redaction,
    retry times, the public error body, the cleanup stack. \<open>Routing\<close> (\<open>domain/routing.ts\<close>,
    \<open>domain/model-metadata.ts\<close>): rendezvous order, names, aliases and combos. \<open>RateLimit\<close>
    (\<open>domain/rate-limit.ts\<close>): what an upstream limit message means. \<open>PromptCache\<close>
    (\<open>domain/cache.ts\<close>): the stable prefix of a prompt and its key. \<open>FilterRules\<close>
    (\<open>domain/filter-rules.ts\<close>): the pre-request text replacement rules.
  \<^item> \<open>Cooldown\<close>, \<open>Flights\<close>, \<open>NetworkSelect\<close> (\<open>traffic/network.ts\<close>, \<open>traffic/in-flight.ts\<close>,
    \<open>traffic/memory.ts\<close>, \<open>traffic/per-ip.ts\<close>, \<open>traffic/limits.ts\<close>), \<open>RateLimiter\<close>
    (\<open>traffic/rate-limiter.ts\<close>), \<open>Admission\<close> (\<open>traffic/admission.ts\<close>): who may send how much, and
    through which proxy.
  \<^item> \<open>Health\<close>, \<open>OAuthState\<close>, \<open>OAuthCoordinator\<close>, \<open>CredentialSelect\<close> (\<open>auth/credentials.ts\<close>,
    \<open>auth/oauth-state.ts\<close>, \<open>auth/oauth-keepalive.ts\<close>, \<open>auth/drivers.ts\<close>,
    \<open>auth/credential-bundle.ts\<close>, \<open>app/recovery-sweep.ts\<close>): account health, tokens and the choice
    of an account.
  \<^item> \<open>IpGuard\<close>, \<open>Narrowing\<close>, \<open>NetGuard\<close> (\<open>domain/protocols.ts\<close>, \<open>security/\<close>): which addresses, values
    and URLs are accepted. \<open>Session\<close>, \<open>ConsoleState\<close> (\<open>console/session.ts\<close>, \<open>console/key-acl.ts\<close>,
    \<open>console/route-transitions.ts\<close>, \<open>console/runtime-settings.ts\<close>, \<open>storage/main/env.ts\<close>): the
    console.
  \<^item> \<open>Recovery\<close> (\<open>app/recovery.ts\<close>, \<open>app/response.ts\<close>, \<open>domain/protocols/errors.ts\<close>): the retry
    machine that drives a call and what the client sees of it.
  \<^item> \<open>UpstreamErrors\<close>, \<open>SseDecoder\<close> (\<open>providers/shared.ts\<close>): failures of a provider and its event
    stream. \<open>StreamMappers\<close> (\<open>transport/protocols/\<close>): from wire events to stream events.
    \<open>SurfaceEncoder\<close> (\<open>providers/surfaces/index.ts\<close>): back to the wire of the client.
    \<open>StreamRoundtrip\<close>: an encoder read by a decoder and mapper. \<open>Translation\<close>
    (\<open>domain/protocols/translation.ts\<close>): finished responses from one protocol to another.
  \<^item> \<open>Registry\<close> (\<open>providers/registry.ts\<close>, \<open>providers/custom.ts\<close>, the factory of
    \<open>providers/shared.ts\<close>): the adapters, and how the configured custom providers become adapters.
    \<open>RoutingSnapshot\<close> (\<open>app/routing-snapshot.ts\<close>, \<open>app/composition.ts\<close>): from the configuration to the
    route candidates of a request, and what a route's outcome changes.
  \<^item> \<open>RequestPipeline\<close> (\<open>app/request.ts\<close>): one request from its body to its reply, on top of
    \<open>Recovery\<close>, as the list of its effects: resources taken and given back, admission, logs, telemetry.
  \<^item> \<open>Codec\<close>, \<open>ChatCodec\<close>, \<open>MessagesCodec\<close>, \<open>ResponsesCodec\<close>, \<open>GeminiCodec\<close> (\<open>openai-chat.ts\<close>,
    \<open>anthropic-messages.ts\<close>, \<open>openai-responses.ts\<close>, \<open>gemini-generate-content.ts\<close> in \<open>domain/protocols/\<close>):
    client bodies become normalized requests, and normalized requests payloads of an upstream.
    \<open>Surfaces\<close> (\<open>surface.ts\<close>, \<open>images.ts\<close>, \<open>body.ts\<close> there): image requests, the choice by endpoint, the
    bounded reader of a body. \<open>Intake\<close>: the pipeline run with these normalizers. \<open>TokenSaver\<close>
    (\<open>domain/token-saver.ts\<close>): how old tool results are shortened.
  \<^item> \<open>OAuthSessions\<close> (\<open>auth/oauth-sessions.ts\<close>): the table of console logins, with the answers of the
    drivers as events of their own. \<open>OAuthRefresh\<close> (\<open>auth/oauth-refresher.ts\<close>): the two refreshers and the
    token endpoint. \<open>InputSanitizers\<close> (\<open>console/input-sanitizers.ts\<close>): what the console takes from a body.

  \<^bold>\<open>How the code is translated.\<close> An object's private fields are a record, a method is a function
  from the state to the state and its answer, a thrown value is the \<open>Inl\<close> of a sum, a \<open>Map\<close> is an
  insertion-ordered association list, \<open>null\<close> and \<open>undefined\<close> are \<open>None\<close> where the code treats them
  alike. The clock, random numbers, UUIDs, HMAC, \<open>new URL\<close>, DNS, \<open>localeCompare\<close> and the network are
  arguments. Hashes are 32-bit words, bytes 8-bit words. An \<open>async\<close> method is one step where nothing
  it reads can change while it waits; where it can (token refreshes, the recovery sweep, the pool's
  load, console logins, the cleanup stack, batched notifications, the GC timer) the steps are separate and the
  theorems hold for every interleaving of them. Characters are Latin-1 code units.

  \<^bold>\<open>Bounds and fuel.\<close> \<open>resolve_inner\<close> recurses on the code's own depth limit, \<open>recover_from\<close> and
  \<open>stream_loop\<close> terminate by a measure (attempts left, turns left), \<open>redirect_loop\<close> gets one unit of
  fuel more than the allowed redirects, which is the number of iterations of the code's loop, and
  \<open>json_parse\<close> gets the length of its text, which is more than the nesting depth it can have. The reader
  of a body, \<open>read_chunks\<close>, may run for ever and is a partial function; \<open>body_read_returns\<close> says when it
  returns.

  \<^bold>\<open>What the lemmas show.\<close> Invariants of every stateful component under all sequences of its
  operations (admission budgets, slots, leases, health records, limiter and tracker memory, OAuth
  states, route history); functional correctness of the choices (routing chain, rendezvous order,
  credential and proxy selection, cooldowns); round trips (session tokens through
  JSON, UTF-8 and base64url, model references, leases); safety of the guards (addresses, URLs,
  redirects, sessions); the synchronization of custom providers refines the configuration; the
  routing snapshot is never stale; a request gives back what it takes and closes its books once; every
  request that is let in is within the bounds the codecs check, a request of the shape they write reads back from
  its payload as it was, and a login has its code exchanged once; and the retry machine's bounds, its no-retry-after-output rule, its cleanup
  and its progress. Where the code departs from its comments or its intent, a lemma shows the
  concrete run.

  \<^bold>\<open>Not modelled.\<close> The built-in adapters of single providers, metrics and traces, SQLite storage, the
  console's HTTP handlers and streams, the OAuth drivers and their callback server, the dashboard, the CLI and process
  start-up: I/O around the parts above, or third-party interfaces.
\<close>

end
